(* ===== verification/Prelude.thy ===== *)
theory Prelude
  imports Main "HOL-Library.Word" "HOL-Library.AList" "HOL-Library.Char_ord"
    "HOL-Library.List_Lexorder" "HOL-Library.Product_Lexorder"
begin

text \<open>
  Types and generic lemmas shared by the whole development: the machine integers and byte
  strings of the Rust sources, hash maps as association lists, results as sums, the decimal
  text of an integer, and little-endian integers.
\<close>

section \<open>Machine integers and byte strings\<close>

text \<open>
  Integers that travel on the wire or on disk are words of their width; the signed types
  have the same carrier and are read with \<open>sint\<close>. \<open>usize\<close> values (lengths, positions) and
  counters that never come near their width are \<open>nat\<close>, with each narrowing cast written out.
\<close>

type_synonym u8 = "8 word"
type_synonym u16 = "16 word"
type_synonym u32 = "32 word"
type_synonym u64 = "64 word"
type_synonym i32 = "32 word"
type_synonym i64 = "64 word"
type_synonym bytes = "8 word list"

text \<open>Facts for the simplifier, by topic.\<close>

named_theorems codec \<open>introduction rules: a parser reads back what an encoder wrote\<close>
named_theorems enc_length \<open>lengths of encodings\<close>

section \<open>Results\<close>

text \<open>\<open>Result<T, E>\<close> is \<open>'e + 'a\<close>: \<open>Inl\<close> is \<open>Err\<close>, \<open>Inr\<close> is \<open>Ok\<close>; the \<open>?\<close> operator is \<open>bind_r\<close>.\<close>

definition bind_r :: "'e + 'a \<Rightarrow> ('a \<Rightarrow> 'e + 'b) \<Rightarrow> 'e + 'b" where
  "bind_r r f = (case r of Inl e \<Rightarrow> Inl e | Inr x \<Rightarrow> f x)"

lemma bind_r_simps [simp]: "bind_r (Inl e) f = Inl e" "bind_r (Inr x) f = f x"
  by (simp_all add: bind_r_def)

lemma bind_r_eq_Inr: "bind_r r f = Inr y \<longleftrightarrow> (\<exists>x. r = Inr x \<and> f x = Inr y)"
  by (cases r) auto

lemma bind_r_eq_Inl: "bind_r r f = Inl e \<longleftrightarrow> r = Inl e \<or> (\<exists>x. r = Inr x \<and> f x = Inl e)"
  by (cases r) auto

definition is_ok :: "'e + 'a \<Rightarrow> bool" where
  "is_ok r = (case r of Inl _ \<Rightarrow> False | Inr _ \<Rightarrow> True)"

lemma is_ok_simps [simp]: "\<not> is_ok (Inl e)" "is_ok (Inr x)"
  by (simp_all add: is_ok_def)

section \<open>Hash maps\<close>

text \<open>
  A \<open>HashMap\<close> is an association list with distinct keys. Its iteration order is unspecified in
  Rust; a theorem about every such list is a theorem about every iteration order.
\<close>

type_synonym ('k, 'v) hashmap = "('k \<times> 'v) list"

abbreviation hm_wf :: "('k, 'v) hashmap \<Rightarrow> bool" where
  "hm_wf m \<equiv> distinct (map fst m)"

abbreviation hm_get :: "('k, 'v) hashmap \<Rightarrow> 'k \<Rightarrow> 'v option" where
  "hm_get m k \<equiv> map_of m k"

abbreviation hm_insert :: "'k \<Rightarrow> 'v \<Rightarrow> ('k, 'v) hashmap \<Rightarrow> ('k, 'v) hashmap" where
  "hm_insert k v m \<equiv> AList.update k v m"

abbreviation hm_remove :: "'k \<Rightarrow> ('k, 'v) hashmap \<Rightarrow> ('k, 'v) hashmap" where
  "hm_remove k m \<equiv> AList.delete k m"

lemma hm_get_insert [simp]:
  "hm_get (hm_insert k v m) k' = (if k' = k then Some v else hm_get m k')"
  by (simp add: update_conv)

lemma hm_get_remove [simp]:
  "hm_get (hm_remove k m) k' = (if k' = k then None else hm_get m k')"
  by (simp add: delete_conv)

lemma hm_wf_insert [simp]: "hm_wf m \<Longrightarrow> hm_wf (hm_insert k v m)"
  by (rule distinct_update)

lemma hm_wf_remove [simp]: "hm_wf m \<Longrightarrow> hm_wf (hm_remove k m)"
  by (rule distinct_delete)

lemma hm_get_None_iff: "hm_get m k = None \<longleftrightarrow> k \<notin> fst ` set m"
  by (rule map_of_eq_None_iff)

lemma hm_insert_new: "hm_get m k = None \<Longrightarrow> hm_insert k v m = m @ [(k, v)]"
  by (induction m) (auto split: if_splits)

text \<open>Applying a function to every value (\<open>for v in m.values_mut()\<close>) keeps the keys.\<close>

definition hm_map_values :: "('v \<Rightarrow> 'w) \<Rightarrow> ('k, 'v) hashmap \<Rightarrow> ('k, 'w) hashmap" where
  "hm_map_values f m = map (\<lambda>(k, v). (k, f v)) m"

lemma hm_map_values_keys [simp]: "map fst (hm_map_values f m) = map fst m"
  by (simp add: hm_map_values_def case_prod_beta comp_def)

lemma hm_map_values_get [simp]: "hm_get (hm_map_values f m) k = map_option f (hm_get m k)"
  by (induction m) (auto simp: hm_map_values_def)

lemma hm_map_values_set: "(k, w) \<in> set (hm_map_values f m) \<longleftrightarrow> (\<exists>v. (k, v) \<in> set m \<and> w = f v)"
  by (auto simp: hm_map_values_def)

section \<open>Ordered maps\<close>

text \<open>
  A \<open>BTreeMap\<close> is an association list in strictly ascending order of its keys, which is its
  iteration order.
\<close>

type_synonym ('k, 'v) btreemap = "('k \<times> 'v) list"

abbreviation bt_wf :: "('k :: linorder, 'v) btreemap \<Rightarrow> bool" where
  "bt_wf m \<equiv> sorted_wrt (<) (map fst m)"

fun bt_insert :: "'k :: linorder \<Rightarrow> 'v \<Rightarrow> ('k, 'v) btreemap \<Rightarrow> ('k, 'v) btreemap" where
  "bt_insert k v [] = [(k, v)]"
| "bt_insert k v ((k', v') # m) =
     (if k < k' then (k, v) # (k', v') # m
      else if k = k' then (k, v) # m
      else (k', v') # bt_insert k v m)"

abbreviation bt_remove :: "'k \<Rightarrow> ('k, 'v) btreemap \<Rightarrow> ('k, 'v) btreemap" where
  "bt_remove k m \<equiv> filter (\<lambda>e. fst e \<noteq> k) m"

text \<open>\<open>m.range(..k).next_back()\<close> and \<open>m.range(..=k).next_back()\<close>.\<close>

definition bt_last_below :: "'k :: linorder \<Rightarrow> ('k, 'v) btreemap \<Rightarrow> ('k \<times> 'v) option" where
  "bt_last_below k m =
     (let below = filter (\<lambda>e. fst e < k) m in if below = [] then None else Some (last below))"

definition bt_last_upto :: "'k :: linorder \<Rightarrow> ('k, 'v) btreemap \<Rightarrow> ('k \<times> 'v) option" where
  "bt_last_upto k m =
     (let upto = filter (\<lambda>e. fst e \<le> k) m in if upto = [] then None else Some (last upto))"

lemma bt_insert_keys: "set (map fst (bt_insert k v m)) = insert k (set (map fst m))"
  by (induction k v m rule: bt_insert.induct) auto

lemma bt_insert_wf: "bt_wf m \<Longrightarrow> bt_wf (bt_insert k v m)"
proof (induction k v m rule: bt_insert.induct)
  case (2 k v k' v' m)
  then show ?case using bt_insert_keys [of k v m] by (auto 0 3)
qed simp

lemma bt_insert_get:
  "bt_wf m \<Longrightarrow> map_of (bt_insert k v m) k' = (if k' = k then Some v else map_of m k')"
  by (induction k v m rule: bt_insert.induct) (auto simp: map_of_eq_None_iff)

lemma bt_insert_last: "\<forall>e \<in> set m. fst e < k \<Longrightarrow> bt_insert k v m = m @ [(k, v)]"
  by (induction k v m rule: bt_insert.induct) auto

section \<open>Sequences\<close>

lemma take_append_lt: "n < length xs \<Longrightarrow> take n (xs @ ys) = take n xs"
  by simp

lemma sorted_wrt_less_nth:
  "sorted_wrt (<) (xs :: 'a :: order list) \<Longrightarrow> i < j \<Longrightarrow> j < length xs \<Longrightarrow> xs ! i < xs ! j"
  by (rule sorted_wrt_nth_less)

lemma length_concat_take_mono:
  "i \<le> j \<Longrightarrow> length (concat (take i xss)) \<le> length (concat (take j xss))"
proof (induction xss arbitrary: i j)
  case Nil
  then show ?case by simp
next
  case (Cons xs xss)
  then show ?case by (cases i; cases j) auto
qed

lemma concat_take_drop: "concat xss = concat (take i xss) @ concat (drop i xss)"
  by (metis append_take_drop_id concat_append)

lemma drop_concat_take: "drop (length (concat (take i xss))) (concat xss) = concat (drop i xss)"
  by (metis append_eq_conv_conj concat_take_drop)

section \<open>Decimal text\<close>

text \<open>\<open>{n}\<close> in a format string, and \<open>str::parse\<close> for unsigned integers.\<close>

definition digit_char :: "nat \<Rightarrow> char" where
  "digit_char d = char_of (48 + d)"

fun show_nat :: "nat \<Rightarrow> string" where
  "show_nat n = (if n < 10 then [digit_char n] else show_nat (n div 10) @ [digit_char (n mod 10)])"

declare show_nat.simps [simp del]

definition is_digit :: "char \<Rightarrow> bool" where
  "is_digit c \<longleftrightarrow> 48 \<le> (of_char c :: nat) \<and> (of_char c :: nat) \<le> 57"

definition digit_val :: "char \<Rightarrow> nat" where
  "digit_val c = of_char c - 48"

definition dec_val :: "string \<Rightarrow> nat" where
  "dec_val s = foldl (\<lambda>acc c. acc * 10 + digit_val c) 0 s"

text \<open>
  \<open>parse_uint w\<close> is \<open>str::parse\<close> for the unsigned type of \<open>w\<close> bits: one leading plus sign is
  allowed, the rest must be digits, and a value that does not fit is an error. The error texts
  are those of \<open>ParseIntError\<close>.
\<close>

definition parse_uint :: "nat \<Rightarrow> string \<Rightarrow> string + nat" where
  "parse_uint w s =
     (if s = [] then Inl ''cannot parse integer from empty string''
      else if s = ''+'' then Inl ''invalid digit found in string''
      else
        let ds = (if hd s = CHR ''+'' then tl s else s)
        in if \<not> list_all is_digit ds then Inl ''invalid digit found in string''
           else if 2 ^ w \<le> dec_val ds then Inl ''number too large to fit in target type''
           else Inr (dec_val ds))"

lemma digit_char_props:
  assumes "d < 10"
  shows "is_digit (digit_char d)" and "digit_val (digit_char d) = d" and "digit_char d \<noteq> CHR ''+''"
proof -
  have of: "(of_char (digit_char d) :: nat) = 48 + d"
    using assms by (simp add: digit_char_def)
  show "is_digit (digit_char d)" and "digit_val (digit_char d) = d"
    using assms by (simp_all add: is_digit_def digit_val_def of)
  show "digit_char d \<noteq> CHR ''+''"
  proof
    assume "digit_char d = CHR ''+''"
    then have "(of_char (digit_char d) :: nat) = of_char CHR ''+''" by simp
    then show False by (simp add: of)
  qed
qed

lemma show_nat_nonempty [simp]: "show_nat n \<noteq> []"
  by (subst show_nat.simps) simp

lemma show_nat_digits: "list_all is_digit (show_nat n)"
proof (induction n rule: show_nat.induct)
  case (1 n)
  show ?case
  proof (cases "n < 10")
    case True
    then show ?thesis by (subst show_nat.simps) (simp add: digit_char_props)
  next
    case False
    then show ?thesis using 1 by (subst show_nat.simps) (simp add: digit_char_props)
  qed
qed

lemma dec_val_append: "dec_val (s @ [c]) = dec_val s * 10 + digit_val c"
  by (simp add: dec_val_def)

lemma dec_val_show_nat [simp]: "dec_val (show_nat n) = n"
proof (induction n rule: show_nat.induct)
  case (1 n)
  show ?case
  proof (cases "n < 10")
    case True
    then show ?thesis by (subst show_nat.simps) (simp add: dec_val_def digit_char_props)
  next
    case False
    then show ?thesis using 1
      by (subst show_nat.simps) (simp add: dec_val_append digit_char_props)
  qed
qed

lemma show_nat_inj [simp]: "show_nat m = show_nat n \<longleftrightarrow> m = n"
  by (metis dec_val_show_nat)

lemma digits_no_plus:
  assumes "list_all is_digit s"
  shows "CHR ''+'' \<notin> set s"
proof
  assume "CHR ''+'' \<in> set s"
  with assms have "is_digit CHR ''+''" by (auto simp: list_all_iff)
  then show False by (simp add: is_digit_def)
qed

lemma parse_uint_digits:
  assumes "list_all is_digit s" and "s \<noteq> []" and "dec_val s < 2 ^ w"
  shows "parse_uint w s = Inr (dec_val s)"
proof -
  have "CHR ''+'' \<notin> set s" using assms(1) by (rule digits_no_plus)
  then have "s \<noteq> ''+''" and "hd s \<noteq> CHR ''+''" using assms(2) by (auto dest: hd_in_set)
  then show ?thesis using assms by (simp add: parse_uint_def Let_def)
qed

lemma parse_show_nat [simp]: "n < 2 ^ w \<Longrightarrow> parse_uint w (show_nat n) = Inr n"
  by (simp add: parse_uint_digits show_nat_digits)

section \<open>Little-endian integers\<close>

text \<open>
  \<open>to_le_bytes\<close> of a \<open>k\<close>-byte integer, on its unsigned value, and \<open>from_le_bytes\<close>.
\<close>

primrec le_digits :: "nat \<Rightarrow> nat \<Rightarrow> bytes" where
  "le_digits 0 n = []"
| "le_digits (Suc k) n = word_of_nat n # le_digits k (n div 256)"

primrec le_val :: "bytes \<Rightarrow> nat" where
  "le_val [] = 0"
| "le_val (b # bs) = unat b + 256 * le_val bs"

definition of_le :: "bytes \<Rightarrow> 'a :: len word" where
  "of_le bs = word_of_nat (le_val bs)"

lemma length_le_digits [simp, enc_length]: "length (le_digits k n) = k"
  by (induction k arbitrary: n) auto

lemma le_val_le_digits: "le_val (le_digits k n) = n mod 256 ^ k"
proof (induction k arbitrary: n)
  case 0
  then show ?case by simp
next
  case (Suc k)
  have "le_val (le_digits (Suc k) n) = n mod 256 + 256 * ((n div 256) mod 256 ^ k)"
    by (simp add: Suc unat_of_nat)
  also have "\<dots> = n mod (256 * 256 ^ k)"
    by (simp add: mod_mult2_eq)
  finally show ?case by simp
qed

lemma le_val_less: "le_val bs < 256 ^ length bs"
proof (induction bs)
  case Nil
  then show ?case by simp
next
  case (Cons b bs)
  have "unat b < 256" using unsigned_less [of b] by simp
  moreover have "le_val bs + 1 \<le> 256 ^ length bs" using Cons by simp
  ultimately have "unat b + 256 * le_val bs < 256 * 256 ^ length bs" by linarith
  then show ?case by simp
qed

lemma of_le_le_digits:
  fixes w :: "'a :: len word"
  assumes "256 ^ k = (2 :: nat) ^ LENGTH('a)"
  shows "of_le (le_digits k (unat w)) = w"
proof -
  have "unat w < 256 ^ k" using unsigned_less [of w] assms by simp
  then show ?thesis by (simp add: of_le_def le_val_le_digits)
qed

section \<open>Lists\<close>

lemma find_SomeD: "find P xs = Some x \<Longrightarrow> x \<in> set xs \<and> P x"
  by (induction xs) (auto split: if_splits)

lemma distinct_remdups_adj_sorted: "sorted xs \<Longrightarrow> distinct (remdups_adj xs)"
proof (induction xs rule: remdups_adj.induct)
  case (3 x y xs)
  then show ?case by (cases "x = y") auto
qed simp_all

end
