(* ===== verification/Wire.thy ===== *)
theory Wire
  imports Prelude
begin

text \<open>
  The wire primitives of \<^verbatim>\<open>src/src/proto/wire.rs\<close>: the \<open>put_*\<close> writers and the \<open>Reader\<close>,
  with the protocol errors they raise. A writer is the list of bytes it appends to its output
  vector. A \<open>Reader\<close> is the unread suffix \<open>buf[pos..]\<close> of its buffer, which is all its
  methods look at, so a reading method is a function from the suffix to an error or to a value
  and the shorter suffix.
\<close>

section \<open>Errors and strings\<close>

datatype proto_error =
    Truncated
  | Malformed string
  | BadVersion u8
  | UnknownMsgType u8

text \<open>
  A Rust \<open>String\<close> is a sequence of bytes that is valid UTF-8; here it is a \<open>string\<close> whose
  characters are its bytes.
\<close>

definition as_bytes :: "string \<Rightarrow> bytes" where
  "as_bytes s = map (\<lambda>c. word_of_nat (of_char c)) s"

definition str_of_bytes :: "bytes \<Rightarrow> string" where
  "str_of_bytes bs = map (\<lambda>b. char_of (unat b)) bs"

definition utf8_cont :: "nat \<Rightarrow> bool" where
  "utf8_cont b \<longleftrightarrow> 128 \<le> b \<and> b \<le> 191"

definition utf8_second_of_three :: "nat \<Rightarrow> nat \<Rightarrow> bool" where
  "utf8_second_of_three a b \<longleftrightarrow>
     (if a = 224 then 160 \<le> b \<and> b \<le> 191
      else if a = 237 then 128 \<le> b \<and> b \<le> 159
      else utf8_cont b)"

definition utf8_second_of_four :: "nat \<Rightarrow> nat \<Rightarrow> bool" where
  "utf8_second_of_four a b \<longleftrightarrow>
     (if a = 240 then 144 \<le> b \<and> b \<le> 191
      else if a = 244 then 128 \<le> b \<and> b \<le> 143
      else utf8_cont b)"

text \<open>\<open>str::from_utf8\<close>: the table of well-formed UTF-8 byte sequences.\<close>

fun valid_utf8 :: "nat list \<Rightarrow> bool" where
  "valid_utf8 [] = True"
| "valid_utf8 (a # bs) =
     (if a < 128 then valid_utf8 bs
      else if 194 \<le> a \<and> a \<le> 223 then
        (case bs of b # r \<Rightarrow> utf8_cont b \<and> valid_utf8 r | _ \<Rightarrow> False)
      else if 224 \<le> a \<and> a \<le> 239 then
        (case bs of b # c # r \<Rightarrow> utf8_second_of_three a b \<and> utf8_cont c \<and> valid_utf8 r | _ \<Rightarrow> False)
      else if 240 \<le> a \<and> a \<le> 244 then
        (case bs of b # c # d # r \<Rightarrow>
           utf8_second_of_four a b \<and> utf8_cont c \<and> utf8_cont d \<and> valid_utf8 r | _ \<Rightarrow> False)
      else False)"

definition from_utf8 :: "bytes \<Rightarrow> string option" where
  "from_utf8 bs = (if valid_utf8 (map unat bs) then Some (str_of_bytes bs) else None)"

lemma of_char_less_256: "(of_char c :: nat) < 256"
  by simp

lemma str_of_as_bytes [simp]: "str_of_bytes (as_bytes s) = s"
  by (induction s) (simp_all add: str_of_bytes_def as_bytes_def unat_of_nat)

lemma length_as_bytes [simp]: "length (as_bytes s) = length s"
  by (simp add: as_bytes_def)

lemma as_bytes_inj: "as_bytes s = as_bytes t \<Longrightarrow> s = t"
  by (metis str_of_as_bytes)

text \<open>A string the protocol can carry: valid UTF-8 of at most \<open>u16::MAX\<close> bytes.\<close>

definition wf_str :: "string \<Rightarrow> bool" where
  "wf_str s \<longleftrightarrow> length s < 65536 \<and> valid_utf8 (map unat (as_bytes s))"

lemma from_utf8_wf [simp]: "wf_str s \<Longrightarrow> from_utf8 (as_bytes s) = Some s"
  by (simp add: wf_str_def from_utf8_def)

lemma valid_utf8_ascii: "list_all (\<lambda>b. b < 128) bs \<Longrightarrow> valid_utf8 bs"
  by (induction bs) auto

section \<open>Writers\<close>

definition put_u8 :: "u8 \<Rightarrow> bytes" where "put_u8 v = [v]"
definition put_u16 :: "u16 \<Rightarrow> bytes" where "put_u16 v = le_digits 2 (unat v)"
definition put_u32 :: "u32 \<Rightarrow> bytes" where "put_u32 v = le_digits 4 (unat v)"
definition put_u64 :: "u64 \<Rightarrow> bytes" where "put_u64 v = le_digits 8 (unat v)"
definition put_i32 :: "i32 \<Rightarrow> bytes" where "put_i32 v = le_digits 4 (unat v)"
definition put_i64 :: "i64 \<Rightarrow> bytes" where "put_i64 v = le_digits 8 (unat v)"

text \<open>\<open>s.len() as u16\<close> and \<open>b.len() as u32\<close> keep the low bits of the length.\<close>

definition put_str :: "string \<Rightarrow> bytes" where
  "put_str s = put_u16 (word_of_nat (length s)) @ as_bytes s"

definition put_bytes :: "bytes \<Rightarrow> bytes" where
  "put_bytes b = put_u32 (word_of_nat (length b)) @ b"

definition put_opt_bytes :: "bytes option \<Rightarrow> bytes" where
  "put_opt_bytes b =
     (case b of None \<Rightarrow> put_i32 (- 1) | Some b \<Rightarrow> put_i32 (word_of_nat (length b)) @ b)"

section \<open>The reader\<close>

type_synonym 'a parser = "bytes \<Rightarrow> proto_error + 'a \<times> bytes"

definition ret :: "'a \<Rightarrow> 'a parser" where
  "ret x r = Inr (x, r)"

definition perr :: "proto_error \<Rightarrow> 'a parser" where
  "perr e r = Inl e"

text \<open>\<open>let x = p(r)?; f(x)\<close>\<close>

definition pbind :: "'a parser \<Rightarrow> ('a \<Rightarrow> 'b parser) \<Rightarrow> 'b parser" where
  "pbind p f r = (case p r of Inl e \<Rightarrow> Inl e | Inr (x, r') \<Rightarrow> f x r')"

definition take_r :: "nat \<Rightarrow> bytes parser" where
  "take_r n r = (if length r < n then Inl Truncated else Inr (take n r, drop n r))"

definition r_u8 :: "u8 parser" where
  "r_u8 = pbind (take_r 1) (\<lambda>b. ret (of_le b))"
definition r_u16 :: "u16 parser" where
  "r_u16 = pbind (take_r 2) (\<lambda>b. ret (of_le b))"
definition r_u32 :: "u32 parser" where
  "r_u32 = pbind (take_r 4) (\<lambda>b. ret (of_le b))"
definition r_u64 :: "u64 parser" where
  "r_u64 = pbind (take_r 8) (\<lambda>b. ret (of_le b))"
definition r_i32 :: "i32 parser" where
  "r_i32 = pbind (take_r 4) (\<lambda>b. ret (of_le b))"
definition r_i64 :: "i64 parser" where
  "r_i64 = pbind (take_r 8) (\<lambda>b. ret (of_le b))"

definition r_string :: "string parser" where
  "r_string =
     pbind r_u16 (\<lambda>len.
     pbind (take_r (unat len)) (\<lambda>b.
       (case from_utf8 b of
          Some s \<Rightarrow> ret s
        | None \<Rightarrow> perr (Malformed ''invalid utf-8 in string''))))"

definition r_bytes :: "bytes parser" where
  "r_bytes = pbind r_u32 (\<lambda>len. take_r (unat len))"

definition r_opt_bytes :: "bytes option parser" where
  "r_opt_bytes =
     pbind r_i32 (\<lambda>len.
       if sint len < 0 then ret None
       else pbind (take_r (unat len)) (\<lambda>b. ret (Some b)))"

definition expect_end :: "unit parser" where
  "expect_end r =
     (if r \<noteq> [] then Inl (Malformed (show_nat (length r) @ '' trailing bytes after message body''))
      else Inr ((), r))"

text \<open>\<open>for _ in 0..count { v.push(p(r)?) }\<close>\<close>

primrec rep :: "nat \<Rightarrow> 'a parser \<Rightarrow> 'a list parser" where
  "rep 0 p = ret []"
| "rep (Suc n) p = pbind p (\<lambda>x. pbind (rep n p) (\<lambda>xs. ret (x # xs)))"

text \<open>A sequence is its \<open>u32\<close> length followed by its elements.\<close>

definition put_list :: "('a \<Rightarrow> bytes) \<Rightarrow> 'a list \<Rightarrow> bytes" where
  "put_list enc xs = put_u32 (word_of_nat (length xs)) @ concat (map enc xs)"

definition r_list :: "'a parser \<Rightarrow> 'a list parser" where
  "r_list p = pbind r_u32 (\<lambda>count. rep (unat count) p)"

section \<open>Exact codecs\<close>

text \<open>
  \<open>codes p bs x\<close>: the parser \<open>p\<close> reads \<open>x\<close> from \<open>bs\<close> whatever follows, leaving exactly what
  follows, and finds every proper prefix of \<open>bs\<close> truncated. Sequencing two such parsers
  codes the concatenation, so the facts compose by the rules collected in \<open>codec\<close>.
\<close>

definition codes :: "'a parser \<Rightarrow> bytes \<Rightarrow> 'a \<Rightarrow> bool" where
  "codes p bs x \<longleftrightarrow>
     (\<forall>rest. p (bs @ rest) = Inr (x, rest)) \<and> (\<forall>n < length bs. p (take n bs) = Inl Truncated)"

lemma codesD: "codes p bs x \<Longrightarrow> p (bs @ rest) = Inr (x, rest)"
  by (simp add: codes_def)

lemma codesD_end: "codes p bs x \<Longrightarrow> p bs = Inr (x, [])"
  using codesD [of p bs x "[]"] by simp

lemma codes_truncated: "codes p bs x \<Longrightarrow> n < length bs \<Longrightarrow> p (take n bs) = Inl Truncated"
  by (simp add: codes_def)

lemma codes_ret [codec]: "codes (ret x) [] x"
  by (simp add: codes_def ret_def)

lemma codes_bind [codec]:
  assumes p: "codes p b1 x" and f: "codes (f x) b2 y"
  shows "codes (pbind p f) (b1 @ b2) y"
  unfolding codes_def
proof (intro conjI allI impI)
  fix rest
  show "pbind p f ((b1 @ b2) @ rest) = Inr (y, rest)"
    using codesD [OF p, of "b2 @ rest"] codesD [OF f, of rest] by (simp add: pbind_def)
next
  fix n
  assume n: "n < length (b1 @ b2)"
  show "pbind p f (take n (b1 @ b2)) = Inl Truncated"
  proof (cases "n < length b1")
    case True
    then show ?thesis using codes_truncated [OF p True] by (simp add: pbind_def)
  next
    case False
    then have "n - length b1 < length b2" using n by simp
    then show ?thesis using False codesD [OF p, of "take (n - length b1) b2"]
        codes_truncated [OF f, of "n - length b1"] by (simp add: pbind_def)
  qed
qed

text \<open>The last step of a sequence leaves nothing to append.\<close>

lemma codes_bind_ret: "codes p b x \<Longrightarrow> f x = ret y \<Longrightarrow> codes (pbind p f) b y"
  using codes_bind [of p b x f "[]" y] codes_ret [of y] by simp

lemma codes_take: "codes (take_r (length b)) b b"
  by (simp add: codes_def take_r_def)

lemma codes_le:
  fixes w :: "'a :: len word"
  assumes "(256 :: nat) ^ k = 2 ^ LENGTH('a)"
  shows "codes (pbind (take_r k) (\<lambda>b. ret (of_le b))) (le_digits k (unat w)) w"
proof -
  have "codes (take_r k) (le_digits k (unat w)) (le_digits k (unat w))"
    using codes_take [of "le_digits k (unat w)"] by simp
  then show ?thesis by (rule codes_bind_ret) (simp add: of_le_le_digits [OF assms])
qed

lemma codes_u8 [codec]: "codes r_u8 (put_u8 v) v"
proof -
  have "put_u8 v = le_digits 1 (unat v)" by (simp add: put_u8_def)
  then show ?thesis using codes_le [of 1 v] by (simp add: r_u8_def)
qed

lemma codes_u16 [codec]: "codes r_u16 (put_u16 v) v"
  unfolding r_u16_def put_u16_def by (rule codes_le) simp

lemma codes_u32 [codec]: "codes r_u32 (put_u32 v) v"
  unfolding r_u32_def put_u32_def by (rule codes_le) simp

lemma codes_u64 [codec]: "codes r_u64 (put_u64 v) v"
  unfolding r_u64_def put_u64_def by (rule codes_le) simp

lemma codes_i32 [codec]: "codes r_i32 (put_i32 v) v"
  unfolding r_i32_def put_i32_def by (rule codes_le) simp

lemma codes_i64 [codec]: "codes r_i64 (put_i64 v) v"
  unfolding r_i64_def put_i64_def by (rule codes_le) simp

lemma unat_of_nat_len: "n < 2 ^ LENGTH('a) \<Longrightarrow> unat (word_of_nat n :: 'a :: len word) = n"
  by (simp add: unat_of_nat)

lemma codes_take_of_nat:
  assumes "length b < 2 ^ LENGTH('a)"
  shows "codes (take_r (unat (word_of_nat (length b) :: 'a :: len word))) b b"
  using assms by (simp add: unat_of_nat codes_take)

lemma codes_string [codec]:
  assumes "wf_str s"
  shows "codes r_string (put_str s) s"
  unfolding r_string_def put_str_def
proof (rule codes_bind [OF codes_u16])
  have len: "length (as_bytes s) < 2 ^ LENGTH(16)" using assms by (simp add: wf_str_def)
  show "codes (pbind (take_r (unat (word_of_nat (length s) :: u16)))
          (\<lambda>b. case from_utf8 b of Some s \<Rightarrow> ret s
             | None \<Rightarrow> perr (Malformed ''invalid utf-8 in string''))) (as_bytes s) s"
    using codes_take_of_nat [OF len] assms by (intro codes_bind_ret) auto
qed

lemma codes_bytes [codec]:
  assumes "length b < 2 ^ 32"
  shows "codes r_bytes (put_bytes b) b"
proof -
  have len: "length b < 2 ^ LENGTH(32)" using assms by simp
  show ?thesis unfolding r_bytes_def put_bytes_def
    by (rule codes_bind [OF codes_u32]) (rule codes_take_of_nat [OF len])
qed

lemma sint_of_nat32:
  assumes "n < 2 ^ 31"
  shows "sint (word_of_nat n :: 32 word) = int n"
proof -
  have "uint (word_of_nat n :: 32 word) = int n"
    using assms by (simp add: unsigned_of_nat take_bit_nat_eq_self_iff)
  then show ?thesis using assms by (simp add: sint_uint signed_take_bit_int_eq_self)
qed

lemma codes_opt_bytes:
  assumes "case b of None \<Rightarrow> True | Some b \<Rightarrow> length b < 2 ^ 31"
  shows "codes r_opt_bytes (put_opt_bytes b) b"
proof (cases b)
  case None
  then show ?thesis unfolding r_opt_bytes_def put_opt_bytes_def
    by simp (rule codes_bind_ret [OF codes_i32], simp)
next
  case (Some k)
  then have k: "length k < 2 ^ 31" using assms by simp
  then have len: "length k < 2 ^ LENGTH(32)" by simp
  have "codes (pbind (take_r (unat (word_of_nat (length k) :: i32))) (\<lambda>b. ret (Some b))) k (Some k)"
    using codes_take_of_nat [OF len] by (rule codes_bind_ret) simp
  then have "codes (if sint (word_of_nat (length k) :: i32) < 0 then ret None
      else pbind (take_r (unat (word_of_nat (length k) :: i32))) (\<lambda>b. ret (Some b))) k (Some k)"
    using sint_of_nat32 [OF k] by simp
  then show ?thesis unfolding r_opt_bytes_def put_opt_bytes_def Some
    by simp (rule codes_bind [OF codes_i32])
qed

section \<open>The codec interface\<close>

text \<open>
  Every element type of the protocol comes with an encoder, a parser and the values the
  encoder is for. What the message formats rely on is \<open>codes\<close>; they get the counted
  sequences from it.
\<close>

locale codec =
  fixes enc :: "'a \<Rightarrow> bytes"
    and dec :: "'a parser"
    and ok :: "'a \<Rightarrow> bool"
  assumes elem: "ok x \<Longrightarrow> codes dec (enc x) x"
begin

lemma codes_rep: "list_all ok xs \<Longrightarrow> codes (rep (length xs) dec) (concat (map enc xs)) xs"
proof (induction xs)
  case Nil
  then show ?case by (simp add: codes_ret)
next
  case (Cons x xs)
  then have tl: "codes (pbind (rep (length xs) dec) (\<lambda>xs. ret (x # xs))) (concat (map enc xs)) (x # xs)"
    by (intro codes_bind_ret) auto
  have "codes dec (enc x) x" using Cons.prems by (intro elem) simp
  then have "codes (rep (Suc (length xs)) dec) (enc x @ concat (map enc xs)) (x # xs)"
    unfolding rep.simps by (rule codes_bind) (rule tl)
  then show ?case by simp
qed

lemma codes_list:
  assumes "list_all ok xs" and "length xs < 2 ^ 32"
  shows "codes (r_list dec) (put_list enc xs) xs"
  unfolding r_list_def put_list_def
proof (rule codes_bind [OF codes_u32])
  have "unat (word_of_nat (length xs) :: u32) = length xs"
    by (rule unat_of_nat_len) (use assms(2) in simp)
  then show "codes (rep (unat (word_of_nat (length xs) :: u32)) dec) (concat (map enc xs)) xs"
    using codes_rep [OF assms(1)] by (simp only:)
qed

lemma roundtrip: "ok x \<Longrightarrow> dec (enc x @ rest) = Inr (x, rest)"
  by (rule codesD [OF elem])

lemma enc_prefix_free:
  assumes "ok x" and "ok y" and "enc x @ r1 = enc y @ r2"
  shows "x = y \<and> r1 = r2"
proof -
  have "(Inr (x, r1) :: proto_error + 'a \<times> bytes) = dec (enc x @ r1)"
    by (rule roundtrip [OF assms(1), symmetric])
  also have "\<dots> = Inr (y, r2)" unfolding assms(3) by (rule roundtrip [OF assms(2)])
  finally show ?thesis by simp
qed

end

interpretation u32c: codec put_u32 r_u32 "\<lambda>_. True"
  by unfold_locales (rule codes_u32)

interpretation strc: codec put_str r_string wf_str
  by unfold_locales (rule codes_string)

section \<open>Lengths\<close>

lemma length_puts [simp, enc_length]:
  "length (put_u8 a) = 1" "length (put_u16 b) = 2" "length (put_u32 c) = 4"
  "length (put_u64 d) = 8" "length (put_i32 e) = 4" "length (put_i64 f) = 8"
  by (simp_all add: put_u8_def put_u16_def put_u32_def put_u64_def put_i32_def put_i64_def)

lemma length_put_var [simp, enc_length]:
  "length (put_str s) = 2 + length s"
  "length (put_bytes b) = 4 + length b"
  "length (put_opt_bytes None) = 4"
  "length (put_opt_bytes (Some k)) = 4 + length k"
  by (simp_all add: put_str_def put_bytes_def put_opt_bytes_def)

lemma length_put_list [simp, enc_length]:
  "length (put_list enc xs) = 4 + sum_list (map (\<lambda>x. length (enc x)) xs)"
  by (simp add: put_list_def length_concat comp_def)

text \<open>ASCII literals are strings the protocol can carry.\<close>

lemma wf_str_ascii:
  assumes "length s < 65536" and "list_all (\<lambda>c. (of_char c :: nat) < 128) s"
  shows "wf_str s"
proof -
  have "unat (word_of_nat (of_char c) :: u8) = of_char c" if "(of_char c :: nat) < 128" for c :: char
    by (rule unat_of_nat_len) (use that in simp)
  then have "list_all (\<lambda>b. b < 128) (map unat (as_bytes s))"
    using assms(2) by (auto simp: list_all_iff as_bytes_def)
  then show ?thesis using assms(1) by (simp add: wf_str_def valid_utf8_ascii)
qed

end
