(* ===== verification/Proto.thy ===== *)
theory Proto
  imports Wire
begin

text \<open>
  The wire protocol of \<^verbatim>\<open>src/src/proto/mod.rs\<close>: error codes, acknowledgement levels, cluster
  metadata, requests and responses, their encodings into frames, and the decoders. The
  constructors of \<open>Request\<close> and \<open>Response\<close> carry the suffixes \<open>Req\<close> and \<open>Resp\<close>, their
  arguments are the fields in the order of the source.
\<close>

unbundle bit_operations_syntax

section \<open>Constants\<close>

abbreviation (input) VERSION :: u8 where "VERSION \<equiv> 1"
abbreviation (input) MAX_FRAME_BYTES :: nat where "MAX_FRAME_BYTES \<equiv> 33554432"
abbreviation (input) RESPONSE_BIT :: u8 where "RESPONSE_BIT \<equiv> 128"

abbreviation (input) MSG_CREATE_TOPIC :: u8 where "MSG_CREATE_TOPIC \<equiv> 1"
abbreviation (input) MSG_METADATA :: u8 where "MSG_METADATA \<equiv> 2"
abbreviation (input) MSG_PRODUCE :: u8 where "MSG_PRODUCE \<equiv> 3"
abbreviation (input) MSG_FETCH :: u8 where "MSG_FETCH \<equiv> 4"
abbreviation (input) MSG_COMMIT_OFFSET :: u8 where "MSG_COMMIT_OFFSET \<equiv> 5"
abbreviation (input) MSG_FETCH_OFFSET :: u8 where "MSG_FETCH_OFFSET \<equiv> 6"
abbreviation (input) MSG_JOIN_GROUP :: u8 where "MSG_JOIN_GROUP \<equiv> 7"
abbreviation (input) MSG_HEARTBEAT :: u8 where "MSG_HEARTBEAT \<equiv> 8"
abbreviation (input) MSG_LEAVE_GROUP :: u8 where "MSG_LEAVE_GROUP \<equiv> 9"
abbreviation (input) MSG_REPLICA_FETCH :: u8 where "MSG_REPLICA_FETCH \<equiv> 10"
abbreviation (input) MSG_EPOCH_CHECK :: u8 where "MSG_EPOCH_CHECK \<equiv> 11"
abbreviation (input) MSG_REGISTER_BROKER :: u8 where "MSG_REGISTER_BROKER \<equiv> 12"
abbreviation (input) MSG_BROKER_HEARTBEAT :: u8 where "MSG_BROKER_HEARTBEAT \<equiv> 13"
abbreviation (input) MSG_ALTER_ISR :: u8 where "MSG_ALTER_ISR \<equiv> 14"
abbreviation (input) MSG_CONTROLLER_METADATA :: u8 where "MSG_CONTROLLER_METADATA \<equiv> 15"

section \<open>Error codes and acknowledgement levels\<close>

datatype error_code =
    NoError
  | UnknownTopicOrPartition
  | OffsetOutOfRange
  | StorageErr
  | MalformedErr
  | TopicExists
  | UnknownMember
  | StaleGeneration
  | NotLeader
  | FencedEpoch
  | NotEnoughReplicas
  | Offline

fun error_code_num :: "error_code \<Rightarrow> u16" where
  "error_code_num NoError = 0"
| "error_code_num UnknownTopicOrPartition = 1"
| "error_code_num OffsetOutOfRange = 2"
| "error_code_num StorageErr = 3"
| "error_code_num MalformedErr = 4"
| "error_code_num TopicExists = 5"
| "error_code_num UnknownMember = 6"
| "error_code_num StaleGeneration = 7"
| "error_code_num NotLeader = 8"
| "error_code_num FencedEpoch = 9"
| "error_code_num NotEnoughReplicas = 10"
| "error_code_num Offline = 11"

definition error_code_from_u16 :: "u16 \<Rightarrow> proto_error + error_code" where
  "error_code_from_u16 v =
     (if v = 0 then Inr NoError
      else if v = 1 then Inr UnknownTopicOrPartition
      else if v = 2 then Inr OffsetOutOfRange
      else if v = 3 then Inr StorageErr
      else if v = 4 then Inr MalformedErr
      else if v = 5 then Inr TopicExists
      else if v = 6 then Inr UnknownMember
      else if v = 7 then Inr StaleGeneration
      else if v = 8 then Inr NotLeader
      else if v = 9 then Inr FencedEpoch
      else if v = 10 then Inr NotEnoughReplicas
      else if v = 11 then Inr Offline
      else Inl (Malformed (''unknown error code '' @ show_nat (unat v))))"

datatype acks = AcksNone | Written | Durable | AcksAll

fun acks_num :: "acks \<Rightarrow> u8" where
  "acks_num AcksNone = 0"
| "acks_num Written = 1"
| "acks_num Durable = 2"
| "acks_num AcksAll = 3"

definition acks_from_u8 :: "u8 \<Rightarrow> proto_error + acks" where
  "acks_from_u8 v =
     (if v = 0 then Inr AcksNone
      else if v = 1 then Inr Written
      else if v = 2 then Inr Durable
      else if v = 3 then Inr AcksAll
      else Inl (Malformed (''unknown acks value '' @ show_nat (unat v))))"

text \<open>\<open>ErrorCode::from_u16(r.u16()?)?\<close> and \<open>Acks::from_u8(r.u8()?)?\<close>\<close>

definition lift_r :: "proto_error + 'a \<Rightarrow> 'a parser" where
  "lift_r x r = (case x of Inl e \<Rightarrow> Inl e | Inr v \<Rightarrow> Inr (v, r))"

definition r_error :: "error_code parser" where
  "r_error = pbind r_u16 (\<lambda>v. lift_r (error_code_from_u16 v))"

definition r_acks :: "acks parser" where
  "r_acks = pbind r_u8 (\<lambda>v. lift_r (acks_from_u8 v))"

definition put_error :: "error_code \<Rightarrow> bytes" where
  "put_error e = put_u16 (error_code_num e)"

section \<open>Cluster metadata\<close>

record partition_meta =
  pm_partition :: u32
  pm_leader :: i32
  pm_leader_epoch :: u64
  pm_replicas :: "u32 list"
  pm_isr :: "u32 list"

record topic_meta =
  tm_name :: string
  tm_partitions :: "partition_meta list"

record cluster_meta =
  cm_version :: u64
  cm_brokers :: "(u32 \<times> string) list"
  cm_peers :: "(u32 \<times> string) list"
  cm_topics :: "topic_meta list"

definition default_cluster_meta :: cluster_meta where
  "default_cluster_meta = \<lparr>cm_version = 0, cm_brokers = [], cm_peers = [], cm_topics = []\<rparr>"

definition put_addr :: "u32 \<times> string \<Rightarrow> bytes" where
  "put_addr a = put_u32 (fst a) @ put_str (snd a)"

definition put_partition_meta :: "partition_meta \<Rightarrow> bytes" where
  "put_partition_meta p =
     put_u32 (pm_partition p) @
     put_i32 (pm_leader p) @
     put_u64 (pm_leader_epoch p) @
     put_list put_u32 (pm_replicas p) @
     put_list put_u32 (pm_isr p)"

definition put_topic_meta :: "topic_meta \<Rightarrow> bytes" where
  "put_topic_meta t = put_str (tm_name t) @ put_list put_partition_meta (tm_partitions t)"

definition put_cluster_meta :: "cluster_meta \<Rightarrow> bytes" where
  "put_cluster_meta m =
     put_u64 (cm_version m) @
     put_list put_addr (cm_brokers m) @
     put_list put_addr (cm_peers m) @
     put_list put_topic_meta (cm_topics m)"

definition r_addr :: "(u32 \<times> string) parser" where
  "r_addr = pbind r_u32 (\<lambda>id. pbind r_string (\<lambda>addr. ret (id, addr)))"

definition r_partition_meta :: "partition_meta parser" where
  "r_partition_meta =
     pbind r_u32 (\<lambda>partition.
     pbind r_i32 (\<lambda>leader.
     pbind r_u64 (\<lambda>leader_epoch.
     pbind (r_list r_u32) (\<lambda>replicas.
     pbind (r_list r_u32) (\<lambda>isr.
       ret \<lparr>pm_partition = partition, pm_leader = leader, pm_leader_epoch = leader_epoch,
            pm_replicas = replicas, pm_isr = isr\<rparr>)))))"

definition r_topic_meta :: "topic_meta parser" where
  "r_topic_meta =
     pbind r_string (\<lambda>name.
     pbind (r_list r_partition_meta) (\<lambda>partitions.
       ret \<lparr>tm_name = name, tm_partitions = partitions\<rparr>))"

definition read_cluster_meta :: "cluster_meta parser" where
  "read_cluster_meta =
     pbind r_u64 (\<lambda>version.
     pbind (r_list r_addr) (\<lambda>brokers.
     pbind (r_list r_addr) (\<lambda>peers.
     pbind (r_list r_topic_meta) (\<lambda>topics.
       ret \<lparr>cm_version = version, cm_brokers = brokers, cm_peers = peers, cm_topics = topics\<rparr>))))"

section \<open>Records\<close>

record produce_record =
  pr_key :: "bytes option"
  pr_value :: bytes

record fetched_record =
  fr_offset :: u64
  fr_timestamp_ms :: i64
  fr_key :: "bytes option"
  fr_value :: bytes

definition put_produce_record :: "produce_record \<Rightarrow> bytes" where
  "put_produce_record r = put_opt_bytes (pr_key r) @ put_bytes (pr_value r)"

definition put_fetched_record :: "fetched_record \<Rightarrow> bytes" where
  "put_fetched_record r =
     put_u64 (fr_offset r) @ put_i64 (fr_timestamp_ms r) @
     put_opt_bytes (fr_key r) @ put_bytes (fr_value r)"

definition r_produce_record :: "produce_record parser" where
  "r_produce_record =
     pbind r_opt_bytes (\<lambda>key. pbind r_bytes (\<lambda>value. ret \<lparr>pr_key = key, pr_value = value\<rparr>))"

definition r_fetched_record :: "fetched_record parser" where
  "r_fetched_record =
     pbind r_u64 (\<lambda>offset.
     pbind r_i64 (\<lambda>timestamp_ms.
     pbind r_opt_bytes (\<lambda>key.
     pbind r_bytes (\<lambda>value.
       ret \<lparr>fr_offset = offset, fr_timestamp_ms = timestamp_ms, fr_key = key, fr_value = value\<rparr>))))"

section \<open>Messages\<close>

datatype request =
    CreateTopicReq string u32 u32
  | MetadataReq
  | ProduceReq string u32 acks u64 "produce_record list"
  | FetchReq string u32 u64 u32 u32
  | ReplicaFetchReq string u32 u32 u64 u64 u32 u32
  | EpochCheckReq string u32 u64
  | RegisterBrokerReq u32 string string
  | BrokerHeartbeatReq u32 u64
  | AlterIsrReq string u32 u64 "u32 list"
  | ControllerMetadataReq
  | CommitOffsetReq string string u32 u64 string u64
  | FetchOffsetReq string string u32
  | JoinGroupReq string string u32 "string list"
  | HeartbeatReq string string u64
  | LeaveGroupReq string string

datatype response =
    CreateTopicResp error_code
  | MetadataResp error_code cluster_meta
  | ProduceResp error_code u64 u32
  | FetchResp error_code u64 u64 "fetched_record list"
  | ReplicaFetchResp error_code u64 u64 u64 "fetched_record list"
  | EpochCheckResp error_code u64
  | RegisterBrokerResp error_code u64
  | BrokerHeartbeatResp error_code u64
  | AlterIsrResp error_code u64
  | ControllerMetadataResp error_code cluster_meta
  | CommitOffsetResp error_code
  | FetchOffsetResp error_code i64
  | JoinGroupResp error_code string u64 "(string \<times> u32) list"
  | HeartbeatResp error_code
  | LeaveGroupResp error_code

definition put_slot :: "string \<times> u32 \<Rightarrow> bytes" where
  "put_slot s = put_str (fst s) @ put_u32 (snd s)"

definition r_slot :: "(string \<times> u32) parser" where
  "r_slot = pbind r_string (\<lambda>t. pbind r_u32 (\<lambda>p. ret (t, p)))"

section \<open>Encoding frames\<close>

text \<open>Four zero bytes stand for the length, which \<open>finish_frame\<close> fills in.\<close>

definition frame_header :: "u8 \<Rightarrow> u32 \<Rightarrow> bytes" where
  "frame_header msg_type correlation_id =
     [0, 0, 0, 0] @ put_u8 VERSION @ put_u8 msg_type @ put_u32 correlation_id"

definition finish_frame :: "bytes \<Rightarrow> bytes" where
  "finish_frame out =
     (let len = (word_of_nat (length out - 4) :: u32)
      in le_digits 4 (unat len) @ drop 4 out)"

definition encode_request :: "request \<Rightarrow> u32 \<Rightarrow> bytes" where
  "encode_request req corr = finish_frame (case req of
     CreateTopicReq topic partitions replication_factor \<Rightarrow>
       frame_header MSG_CREATE_TOPIC corr @
       put_str topic @ put_u32 partitions @ put_u32 replication_factor
   | MetadataReq \<Rightarrow> frame_header MSG_METADATA corr
   | ProduceReq topic part acks leader_epoch records \<Rightarrow>
       frame_header MSG_PRODUCE corr @
       put_str topic @ put_u32 part @ put_u8 (acks_num acks) @ put_u64 leader_epoch @
       put_list put_produce_record records
   | ReplicaFetchReq topic part follower_id leader_epoch offset max_bytes max_wait_ms \<Rightarrow>
       frame_header MSG_REPLICA_FETCH corr @
       put_str topic @ put_u32 part @ put_u32 follower_id @ put_u64 leader_epoch @
       put_u64 offset @ put_u32 max_bytes @ put_u32 max_wait_ms
   | EpochCheckReq topic part epoch \<Rightarrow>
       frame_header MSG_EPOCH_CHECK corr @
       put_str topic @ put_u32 part @ put_u64 epoch
   | RegisterBrokerReq broker_id addr peer_addr \<Rightarrow>
       frame_header MSG_REGISTER_BROKER corr @
       put_u32 broker_id @ put_str addr @ put_str peer_addr
   | BrokerHeartbeatReq broker_id metadata_version \<Rightarrow>
       frame_header MSG_BROKER_HEARTBEAT corr @
       put_u32 broker_id @ put_u64 metadata_version
   | AlterIsrReq topic part leader_epoch isr \<Rightarrow>
       frame_header MSG_ALTER_ISR corr @
       put_str topic @ put_u32 part @ put_u64 leader_epoch @ put_list put_u32 isr
   | ControllerMetadataReq \<Rightarrow> frame_header MSG_CONTROLLER_METADATA corr
   | FetchReq topic part offset max_bytes max_wait_ms \<Rightarrow>
       frame_header MSG_FETCH corr @
       put_str topic @ put_u32 part @ put_u64 offset @ put_u32 max_bytes @ put_u32 max_wait_ms
   | CommitOffsetReq grp topic part offset member_id generation \<Rightarrow>
       frame_header MSG_COMMIT_OFFSET corr @
       put_str grp @ put_str topic @ put_u32 part @ put_u64 offset @
       put_str member_id @ put_u64 generation
   | FetchOffsetReq grp topic part \<Rightarrow>
       frame_header MSG_FETCH_OFFSET corr @
       put_str grp @ put_str topic @ put_u32 part
   | JoinGroupReq grp member_id session_timeout_ms topics \<Rightarrow>
       frame_header MSG_JOIN_GROUP corr @
       put_str grp @ put_str member_id @ put_u32 session_timeout_ms @ put_list put_str topics
   | HeartbeatReq grp member_id generation \<Rightarrow>
       frame_header MSG_HEARTBEAT corr @
       put_str grp @ put_str member_id @ put_u64 generation
   | LeaveGroupReq grp member_id \<Rightarrow>
       frame_header MSG_LEAVE_GROUP corr @
       put_str grp @ put_str member_id)"

definition encode_response :: "response \<Rightarrow> u32 \<Rightarrow> bytes" where
  "encode_response resp corr = finish_frame (case resp of
     CreateTopicResp error \<Rightarrow>
       frame_header (MSG_CREATE_TOPIC OR RESPONSE_BIT) corr @ put_error error
   | MetadataResp error cluster \<Rightarrow>
       frame_header (MSG_METADATA OR RESPONSE_BIT) corr @ put_error error @ put_cluster_meta cluster
   | ReplicaFetchResp error leader_epoch log_end high_watermark records \<Rightarrow>
       frame_header (MSG_REPLICA_FETCH OR RESPONSE_BIT) corr @
       put_error error @ put_u64 leader_epoch @ put_u64 log_end @ put_u64 high_watermark @
       put_list put_fetched_record records
   | EpochCheckResp error end_offset \<Rightarrow>
       frame_header (MSG_EPOCH_CHECK OR RESPONSE_BIT) corr @ put_error error @ put_u64 end_offset
   | RegisterBrokerResp error metadata_version \<Rightarrow>
       frame_header (MSG_REGISTER_BROKER OR RESPONSE_BIT) corr @
       put_error error @ put_u64 metadata_version
   | BrokerHeartbeatResp error metadata_version \<Rightarrow>
       frame_header (MSG_BROKER_HEARTBEAT OR RESPONSE_BIT) corr @
       put_error error @ put_u64 metadata_version
   | AlterIsrResp error metadata_version \<Rightarrow>
       frame_header (MSG_ALTER_ISR OR RESPONSE_BIT) corr @
       put_error error @ put_u64 metadata_version
   | ControllerMetadataResp error cluster \<Rightarrow>
       frame_header (MSG_CONTROLLER_METADATA OR RESPONSE_BIT) corr @
       put_error error @ put_cluster_meta cluster
   | ProduceResp error base_offset count \<Rightarrow>
       frame_header (MSG_PRODUCE OR RESPONSE_BIT) corr @
       put_error error @ put_u64 base_offset @ put_u32 count
   | FetchResp error log_start next_offset records \<Rightarrow>
       frame_header (MSG_FETCH OR RESPONSE_BIT) corr @
       put_error error @ put_u64 log_start @ put_u64 next_offset @
       put_list put_fetched_record records
   | CommitOffsetResp error \<Rightarrow>
       frame_header (MSG_COMMIT_OFFSET OR RESPONSE_BIT) corr @ put_error error
   | FetchOffsetResp error offset \<Rightarrow>
       frame_header (MSG_FETCH_OFFSET OR RESPONSE_BIT) corr @ put_error error @ put_i64 offset
   | JoinGroupResp error member_id generation assignment \<Rightarrow>
       frame_header (MSG_JOIN_GROUP OR RESPONSE_BIT) corr @
       put_error error @ put_str member_id @ put_u64 generation @ put_list put_slot assignment
   | HeartbeatResp error \<Rightarrow>
       frame_header (MSG_HEARTBEAT OR RESPONSE_BIT) corr @ put_error error
   | LeaveGroupResp error \<Rightarrow>
       frame_header (MSG_LEAVE_GROUP OR RESPONSE_BIT) corr @ put_error error)"


section \<open>Decoding frames\<close>

definition read_header :: "(u8 \<times> u32) parser" where
  "read_header =
     pbind r_u8 (\<lambda>version.
       if version \<noteq> VERSION then perr (BadVersion version)
       else pbind r_u8 (\<lambda>msg_type. pbind r_u32 (\<lambda>correlation_id. ret (msg_type, correlation_id))))"

definition request_body :: "u8 \<Rightarrow> request parser" where
  "request_body msg_type =
     (if msg_type = MSG_CREATE_TOPIC then
        pbind r_string (\<lambda>topic. pbind r_u32 (\<lambda>partitions. pbind r_u32 (\<lambda>replication_factor.
          ret (CreateTopicReq topic partitions replication_factor))))
      else if msg_type = MSG_METADATA then ret MetadataReq
      else if msg_type = MSG_PRODUCE then
        pbind r_string (\<lambda>topic. pbind r_u32 (\<lambda>part. pbind r_acks (\<lambda>acks.
        pbind r_u64 (\<lambda>leader_epoch. pbind (r_list r_produce_record) (\<lambda>records.
          ret (ProduceReq topic part acks leader_epoch records))))))
      else if msg_type = MSG_REPLICA_FETCH then
        pbind r_string (\<lambda>topic. pbind r_u32 (\<lambda>part. pbind r_u32 (\<lambda>follower_id.
        pbind r_u64 (\<lambda>leader_epoch. pbind r_u64 (\<lambda>offset. pbind r_u32 (\<lambda>max_bytes.
        pbind r_u32 (\<lambda>max_wait_ms.
          ret (ReplicaFetchReq topic part follower_id leader_epoch offset max_bytes max_wait_ms))))))))
      else if msg_type = MSG_EPOCH_CHECK then
        pbind r_string (\<lambda>topic. pbind r_u32 (\<lambda>part. pbind r_u64 (\<lambda>epoch.
          ret (EpochCheckReq topic part epoch))))
      else if msg_type = MSG_REGISTER_BROKER then
        pbind r_u32 (\<lambda>broker_id. pbind r_string (\<lambda>addr. pbind r_string (\<lambda>peer_addr.
          ret (RegisterBrokerReq broker_id addr peer_addr))))
      else if msg_type = MSG_BROKER_HEARTBEAT then
        pbind r_u32 (\<lambda>broker_id. pbind r_u64 (\<lambda>metadata_version.
          ret (BrokerHeartbeatReq broker_id metadata_version)))
      else if msg_type = MSG_ALTER_ISR then
        pbind r_string (\<lambda>topic. pbind r_u32 (\<lambda>part. pbind r_u64 (\<lambda>leader_epoch.
        pbind (r_list r_u32) (\<lambda>isr.
          ret (AlterIsrReq topic part leader_epoch isr)))))
      else if msg_type = MSG_CONTROLLER_METADATA then ret ControllerMetadataReq
      else if msg_type = MSG_FETCH then
        pbind r_string (\<lambda>topic. pbind r_u32 (\<lambda>part. pbind r_u64 (\<lambda>offset.
        pbind r_u32 (\<lambda>max_bytes. pbind r_u32 (\<lambda>max_wait_ms.
          ret (FetchReq topic part offset max_bytes max_wait_ms))))))
      else if msg_type = MSG_COMMIT_OFFSET then
        pbind r_string (\<lambda>grp. pbind r_string (\<lambda>topic. pbind r_u32 (\<lambda>part.
        pbind r_u64 (\<lambda>offset. pbind r_string (\<lambda>member_id. pbind r_u64 (\<lambda>generation.
          ret (CommitOffsetReq grp topic part offset member_id generation)))))))
      else if msg_type = MSG_FETCH_OFFSET then
        pbind r_string (\<lambda>grp. pbind r_string (\<lambda>topic. pbind r_u32 (\<lambda>part.
          ret (FetchOffsetReq grp topic part))))
      else if msg_type = MSG_JOIN_GROUP then
        pbind r_string (\<lambda>grp. pbind r_string (\<lambda>member_id. pbind r_u32 (\<lambda>session_timeout_ms.
        pbind (r_list r_string) (\<lambda>topics.
          ret (JoinGroupReq grp member_id session_timeout_ms topics)))))
      else if msg_type = MSG_HEARTBEAT then
        pbind r_string (\<lambda>grp. pbind r_string (\<lambda>member_id. pbind r_u64 (\<lambda>generation.
          ret (HeartbeatReq grp member_id generation))))
      else if msg_type = MSG_LEAVE_GROUP then
        pbind r_string (\<lambda>grp. pbind r_string (\<lambda>member_id. ret (LeaveGroupReq grp member_id)))
      else perr (UnknownMsgType msg_type))"

definition response_body :: "u8 \<Rightarrow> response parser" where
  "response_body t =
     (if t = MSG_CREATE_TOPIC OR RESPONSE_BIT then
        pbind r_error (\<lambda>error. ret (CreateTopicResp error))
      else if t = MSG_METADATA OR RESPONSE_BIT then
        pbind r_error (\<lambda>error. pbind read_cluster_meta (\<lambda>cluster. ret (MetadataResp error cluster)))
      else if t = MSG_REPLICA_FETCH OR RESPONSE_BIT then
        pbind r_error (\<lambda>error. pbind r_u64 (\<lambda>leader_epoch. pbind r_u64 (\<lambda>log_end.
        pbind r_u64 (\<lambda>high_watermark. pbind (r_list r_fetched_record) (\<lambda>records.
          ret (ReplicaFetchResp error leader_epoch log_end high_watermark records))))))
      else if t = MSG_EPOCH_CHECK OR RESPONSE_BIT then
        pbind r_error (\<lambda>error. pbind r_u64 (\<lambda>end_offset. ret (EpochCheckResp error end_offset)))
      else if t = MSG_REGISTER_BROKER OR RESPONSE_BIT then
        pbind r_error (\<lambda>error. pbind r_u64 (\<lambda>v. ret (RegisterBrokerResp error v)))
      else if t = MSG_BROKER_HEARTBEAT OR RESPONSE_BIT then
        pbind r_error (\<lambda>error. pbind r_u64 (\<lambda>v. ret (BrokerHeartbeatResp error v)))
      else if t = MSG_ALTER_ISR OR RESPONSE_BIT then
        pbind r_error (\<lambda>error. pbind r_u64 (\<lambda>v. ret (AlterIsrResp error v)))
      else if t = MSG_CONTROLLER_METADATA OR RESPONSE_BIT then
        pbind r_error (\<lambda>error. pbind read_cluster_meta (\<lambda>cluster.
          ret (ControllerMetadataResp error cluster)))
      else if t = MSG_PRODUCE OR RESPONSE_BIT then
        pbind r_error (\<lambda>error. pbind r_u64 (\<lambda>base_offset. pbind r_u32 (\<lambda>count.
          ret (ProduceResp error base_offset count))))
      else if t = MSG_FETCH OR RESPONSE_BIT then
        pbind r_error (\<lambda>error. pbind r_u64 (\<lambda>log_start. pbind r_u64 (\<lambda>next_offset.
        pbind (r_list r_fetched_record) (\<lambda>records.
          ret (FetchResp error log_start next_offset records)))))
      else if t = MSG_COMMIT_OFFSET OR RESPONSE_BIT then
        pbind r_error (\<lambda>error. ret (CommitOffsetResp error))
      else if t = MSG_FETCH_OFFSET OR RESPONSE_BIT then
        pbind r_error (\<lambda>error. pbind r_i64 (\<lambda>offset. ret (FetchOffsetResp error offset)))
      else if t = MSG_JOIN_GROUP OR RESPONSE_BIT then
        pbind r_error (\<lambda>error. pbind r_string (\<lambda>member_id. pbind r_u64 (\<lambda>generation.
        pbind (r_list r_slot) (\<lambda>assignment.
          ret (JoinGroupResp error member_id generation assignment)))))
      else if t = MSG_HEARTBEAT OR RESPONSE_BIT then
        pbind r_error (\<lambda>error. ret (HeartbeatResp error))
      else if t = MSG_LEAVE_GROUP OR RESPONSE_BIT then
        pbind r_error (\<lambda>error. ret (LeaveGroupResp error))
      else perr (UnknownMsgType t))"

text \<open>The header, the body, and \<open>expect_end\<close>; the reader is dropped with the call.\<close>

definition decode_frame :: "(u8 \<Rightarrow> 'm parser) \<Rightarrow> bytes \<Rightarrow> proto_error + u32 \<times> 'm" where
  "decode_frame body frame =
     (case pbind read_header (\<lambda>(msg_type, corr).
             pbind (body msg_type) (\<lambda>m. pbind expect_end (\<lambda>_. ret (corr, m)))) frame of
        Inl e \<Rightarrow> Inl e
      | Inr (r, _) \<Rightarrow> Inr r)"

definition decode_request :: "bytes \<Rightarrow> proto_error + u32 \<times> request" where
  "decode_request = decode_frame request_body"

definition decode_response :: "bytes \<Rightarrow> proto_error + u32 \<times> response" where
  "decode_response = decode_frame response_body"

section \<open>Frames on a byte stream\<close>

text \<open>
  \<open>read_frame\<close> reads one frame from a stream that holds the given bytes and then ends.
  \<open>read_exact\<close> of a stream that ends early is \<open>UnexpectedEof\<close>: on the length field that is
  \<open>Ok(None)\<close>, on the frame it is an error.
\<close>

datatype frame_read =
    FrameEof
  | FrameErr string
  | Frame bytes bytes

definition read_frame :: "bytes \<Rightarrow> frame_read" where
  "read_frame stream =
     (if length stream < 4 then FrameEof
      else
        let len = unat (of_le (take 4 stream) :: u32); body = drop 4 stream
        in if len = 0 \<or> len > MAX_FRAME_BYTES
           then FrameErr (''frame length '' @ show_nat len @ '' out of bounds'')
           else if length body < len then FrameErr ''unexpected end of file''
           else Frame (take len body) (drop len body))"

end
