(* ===== verification/ProtoCodec.thy ===== *)
theory ProtoCodec
  imports Proto
begin

text \<open>
  Correctness of the protocol of theory \<open>Proto\<close>: every well-formed request and response
  survives its encoding, every proper prefix of a frame is reported as truncated, and bytes
  after the message are refused. The element codecs are interpretations of the locale \<open>codec\<close>.
\<close>

section \<open>Well-formed messages\<close>

text \<open>Lengths fit their length fields and strings are UTF-8 of at most 65535 bytes.\<close>

definition wf_opt_bytes :: "bytes option \<Rightarrow> bool" where
  "wf_opt_bytes b \<longleftrightarrow> (case b of None \<Rightarrow> True | Some b \<Rightarrow> length b < 2 ^ 31)"

definition wf_list :: "('a \<Rightarrow> bool) \<Rightarrow> 'a list \<Rightarrow> bool" where
  "wf_list ok xs \<longleftrightarrow> length xs < 2 ^ 32 \<and> list_all ok xs"

definition wf_addr :: "u32 \<times> string \<Rightarrow> bool" where
  "wf_addr a \<longleftrightarrow> wf_str (snd a)"

definition wf_partition_meta :: "partition_meta \<Rightarrow> bool" where
  "wf_partition_meta p \<longleftrightarrow> length (pm_replicas p) < 2 ^ 32 \<and> length (pm_isr p) < 2 ^ 32"

definition wf_topic_meta :: "topic_meta \<Rightarrow> bool" where
  "wf_topic_meta t \<longleftrightarrow> wf_str (tm_name t) \<and> wf_list wf_partition_meta (tm_partitions t)"

definition wf_cluster_meta :: "cluster_meta \<Rightarrow> bool" where
  "wf_cluster_meta m \<longleftrightarrow>
     wf_list wf_addr (cm_brokers m) \<and> wf_list wf_addr (cm_peers m) \<and> wf_list wf_topic_meta (cm_topics m)"

definition wf_produce_record :: "produce_record \<Rightarrow> bool" where
  "wf_produce_record r \<longleftrightarrow> wf_opt_bytes (pr_key r) \<and> length (pr_value r) < 2 ^ 32"

definition wf_fetched_record :: "fetched_record \<Rightarrow> bool" where
  "wf_fetched_record r \<longleftrightarrow> wf_opt_bytes (fr_key r) \<and> length (fr_value r) < 2 ^ 32"

definition wf_slot :: "string \<times> u32 \<Rightarrow> bool" where
  "wf_slot s \<longleftrightarrow> wf_str (fst s)"

fun wf_request :: "request \<Rightarrow> bool" where
  "wf_request (CreateTopicReq t _ _) = wf_str t"
| "wf_request MetadataReq = True"
| "wf_request (ProduceReq t _ _ _ rs) = (wf_str t \<and> wf_list wf_produce_record rs)"
| "wf_request (FetchReq t _ _ _ _) = wf_str t"
| "wf_request (ReplicaFetchReq t _ _ _ _ _ _) = wf_str t"
| "wf_request (EpochCheckReq t _ _) = wf_str t"
| "wf_request (RegisterBrokerReq _ a p) = (wf_str a \<and> wf_str p)"
| "wf_request (BrokerHeartbeatReq _ _) = True"
| "wf_request (AlterIsrReq t _ _ isr) = (wf_str t \<and> length isr < 2 ^ 32)"
| "wf_request ControllerMetadataReq = True"
| "wf_request (CommitOffsetReq g t _ _ m _) = (wf_str g \<and> wf_str t \<and> wf_str m)"
| "wf_request (FetchOffsetReq g t _) = (wf_str g \<and> wf_str t)"
| "wf_request (JoinGroupReq g m _ ts) = (wf_str g \<and> wf_str m \<and> wf_list wf_str ts)"
| "wf_request (HeartbeatReq g m _) = (wf_str g \<and> wf_str m)"
| "wf_request (LeaveGroupReq g m) = (wf_str g \<and> wf_str m)"

fun wf_response :: "response \<Rightarrow> bool" where
  "wf_response (MetadataResp _ m) = wf_cluster_meta m"
| "wf_response (ControllerMetadataResp _ m) = wf_cluster_meta m"
| "wf_response (FetchResp _ _ _ rs) = wf_list wf_fetched_record rs"
| "wf_response (ReplicaFetchResp _ _ _ _ rs) = wf_list wf_fetched_record rs"
| "wf_response (JoinGroupResp _ m _ a) = (wf_str m \<and> wf_list wf_slot a)"
| "wf_response _ = True"

section \<open>Element codecs\<close>

lemma codes_lift: "x = Inr v \<Longrightarrow> codes (lift_r x) [] v"
  by (simp add: codes_def lift_r_def)

lemma error_code_roundtrip [simp]: "error_code_from_u16 (error_code_num e) = Inr e"
  by (cases e) (simp_all add: error_code_from_u16_def)

lemma acks_roundtrip [simp]: "acks_from_u8 (acks_num a) = Inr a"
  by (cases a) (simp_all add: acks_from_u8_def)

lemma codes_error [codec]: "codes r_error (put_error e) e"
proof -
  have "codes r_error (put_u16 (error_code_num e) @ []) e"
    unfolding r_error_def by (rule codes_bind [OF codes_u16]) (rule codes_lift, simp)
  then show ?thesis by (simp add: put_error_def)
qed

lemma codes_acks [codec]: "codes r_acks (put_u8 (acks_num a)) a"
proof -
  have "codes r_acks (put_u8 (acks_num a) @ []) a"
    unfolding r_acks_def by (rule codes_bind [OF codes_u8]) (rule codes_lift, simp)
  then show ?thesis by simp
qed

lemma codes_u32_list [codec]: "length xs < 2 ^ 32 \<Longrightarrow> codes (r_list r_u32) (put_list put_u32 xs) xs"
  by (rule u32c.codes_list) (simp_all add: list_all_iff)

lemma codes_opt [codec]: "wf_opt_bytes b \<Longrightarrow> codes r_opt_bytes (put_opt_bytes b) b"
  by (rule codes_opt_bytes) (simp add: wf_opt_bytes_def)

text \<open>The rules that build a sequence: a step and the rest, or a last step.\<close>

lemmas codes_seq = codes_bind codes_bind_ret

lemma codes_addr: "wf_addr a \<Longrightarrow> codes r_addr (put_addr a) a"
  unfolding r_addr_def put_addr_def wf_addr_def
  by (rule codes_seq codec | simp)+

interpretation addrc: codec put_addr r_addr wf_addr
  by unfold_locales (rule codes_addr)

lemma codes_partition_meta: "wf_partition_meta p \<Longrightarrow> codes r_partition_meta (put_partition_meta p) p"
  unfolding r_partition_meta_def put_partition_meta_def wf_partition_meta_def
  by (cases p) (simp, (rule codes_seq codec | simp)+)

interpretation pmc: codec put_partition_meta r_partition_meta wf_partition_meta
  by unfold_locales (rule codes_partition_meta)

lemma wf_listD: "wf_list ok xs \<Longrightarrow> list_all ok xs" "wf_list ok xs \<Longrightarrow> length xs < 2 ^ 32"
  by (simp_all add: wf_list_def)

lemma codes_pm_list [codec]:
  "wf_list wf_partition_meta ps \<Longrightarrow> codes (r_list r_partition_meta) (put_list put_partition_meta ps) ps"
  by (rule pmc.codes_list) (rule wf_listD, assumption)+

lemma codes_topic_meta: "wf_topic_meta t \<Longrightarrow> codes r_topic_meta (put_topic_meta t) t"
  unfolding r_topic_meta_def put_topic_meta_def wf_topic_meta_def
  by (cases t) (simp, (rule codes_seq codec | simp)+)

interpretation tmc: codec put_topic_meta r_topic_meta wf_topic_meta
  by unfold_locales (rule codes_topic_meta)

lemma codes_produce_record: "wf_produce_record r \<Longrightarrow> codes r_produce_record (put_produce_record r) r"
  unfolding r_produce_record_def put_produce_record_def wf_produce_record_def
  by (cases r) (simp, (rule codes_seq codec | simp)+)

interpretation prc: codec put_produce_record r_produce_record wf_produce_record
  by unfold_locales (rule codes_produce_record)

lemma codes_fetched_record: "wf_fetched_record r \<Longrightarrow> codes r_fetched_record (put_fetched_record r) r"
  unfolding r_fetched_record_def put_fetched_record_def wf_fetched_record_def
  by (cases r) (simp, (rule codes_seq codec | simp)+)

interpretation frc: codec put_fetched_record r_fetched_record wf_fetched_record
  by unfold_locales (rule codes_fetched_record)

lemma codes_slot: "wf_slot s \<Longrightarrow> codes r_slot (put_slot s) s"
  unfolding r_slot_def put_slot_def wf_slot_def
  by (rule codes_seq codec | simp)+

interpretation slotc: codec put_slot r_slot wf_slot
  by unfold_locales (rule codes_slot)

lemma codes_lists [codec]:
  "wf_list wf_addr as \<Longrightarrow> codes (r_list r_addr) (put_list put_addr as) as"
  "wf_list wf_topic_meta ts \<Longrightarrow> codes (r_list r_topic_meta) (put_list put_topic_meta ts) ts"
  "wf_list wf_produce_record ps \<Longrightarrow> codes (r_list r_produce_record) (put_list put_produce_record ps) ps"
  "wf_list wf_fetched_record fs \<Longrightarrow> codes (r_list r_fetched_record) (put_list put_fetched_record fs) fs"
  "wf_list wf_slot ss \<Longrightarrow> codes (r_list r_slot) (put_list put_slot ss) ss"
  "wf_list wf_str xs \<Longrightarrow> codes (r_list r_string) (put_list put_str xs) xs"
  by (rule addrc.codes_list tmc.codes_list prc.codes_list frc.codes_list slotc.codes_list
        strc.codes_list; rule wf_listD; assumption)+

lemma codes_cluster_meta [codec]:
  "wf_cluster_meta m \<Longrightarrow> codes read_cluster_meta (put_cluster_meta m) m"
  unfolding read_cluster_meta_def put_cluster_meta_def wf_cluster_meta_def
  by (cases m) (simp, (rule codes_seq codec | simp)+)

section \<open>Frames\<close>

lemma frame_bytes:
  "drop 4 (finish_frame (frame_header mt corr @ b)) =
     put_u8 VERSION @ put_u8 mt @ put_u32 corr @ b"
  by (simp add: finish_frame_def frame_header_def Let_def)

lemma codes_header: "codes read_header (put_u8 VERSION @ put_u8 mt @ put_u32 corr) (mt, corr)"
  unfolding read_header_def
  by (rule codes_seq codec | simp)+

text \<open>What the three lemmas below say of a message follows from \<open>codes\<close> of its body.\<close>

lemma codes_message:
  assumes "codes (body mt) b m"
  shows "codes (pbind read_header (\<lambda>(msg_type, corr). pbind (body msg_type) (\<lambda>m. ret (corr, m))))
           (put_u8 VERSION @ put_u8 mt @ put_u32 corr @ b) (corr, m)"
proof -
  have "codes (case (mt, corr) of (msg_type, corr) \<Rightarrow> pbind (body msg_type) (\<lambda>m. ret (corr, m)))
          b (corr, m)"
    unfolding prod.case by (rule codes_bind_ret [OF assms]) simp
  with codes_header [of mt corr]
  have "codes (pbind read_header (\<lambda>(msg_type, corr). pbind (body msg_type) (\<lambda>m. ret (corr, m))))
          ((put_u8 VERSION @ put_u8 mt @ put_u32 corr) @ b) (corr, m)"
    by (rule codes_bind)
  then show ?thesis by simp
qed

text \<open>\<open>decode_frame\<close> is that parser followed by \<open>expect_end\<close>.\<close>

lemma decode_frame_alt:
  "decode_frame body frame =
     (case pbind read_header (\<lambda>(msg_type, corr). pbind (body msg_type) (\<lambda>m. ret (corr, m))) frame of
        Inl e \<Rightarrow> Inl e
      | Inr (r, rest) \<Rightarrow> (case expect_end rest of Inl e \<Rightarrow> Inl e | Inr _ \<Rightarrow> Inr r))"
  by (auto simp: decode_frame_def pbind_def ret_def split: sum.splits prod.splits)

lemma decode_frame_ok:
  "codes (body mt) b m \<Longrightarrow>
     decode_frame body (drop 4 (finish_frame (frame_header mt corr @ b))) = Inr (corr, m)"
  unfolding decode_frame_alt frame_bytes
  by (drule codes_message [of _ _ _ _ corr, THEN codesD_end]) (simp add: expect_end_def)

lemma decode_frame_trailing:
  "codes (body mt) b m \<Longrightarrow> junk \<noteq> [] \<Longrightarrow>
     decode_frame body (drop 4 (finish_frame (frame_header mt corr @ b)) @ junk) =
       Inl (Malformed (show_nat (length junk) @ '' trailing bytes after message body''))"
  unfolding decode_frame_alt frame_bytes
  by (drule codes_message [of _ _ _ _ corr, THEN codesD, of _ _ _ _ junk])
     (simp add: expect_end_def)

lemma decode_frame_truncated:
  "codes (body mt) b m \<Longrightarrow>
     n < length (drop 4 (finish_frame (frame_header mt corr @ b))) \<Longrightarrow>
     decode_frame body (take n (drop 4 (finish_frame (frame_header mt corr @ b)))) = Inl Truncated"
  unfolding decode_frame_alt frame_bytes
  by (drule codes_message [of _ _ _ _ corr, THEN codes_truncated, of _ _ _ _ n]) simp_all

section \<open>Every message\<close>

lemma finish_header_nil:
  "finish_frame (frame_header mt corr) = finish_frame (frame_header mt corr @ [])"
  by simp

lemma request_codes:
  "wf_request req \<Longrightarrow>
     \<exists>mt b. encode_request req corr = finish_frame (frame_header mt corr @ b) \<and>
            codes (request_body mt) b req"
  unfolding encode_request_def
  by (cases req;
      (hypsubst, simp only: request.case, intro exI conjI, (rule refl | rule finish_header_nil),
       simp add: request_body_def, ((rule codes_seq codec codes_ret | simp)+)?))

lemma response_codes:
  "wf_response resp \<Longrightarrow>
     \<exists>mt b. encode_response resp corr = finish_frame (frame_header mt corr @ b) \<and>
            codes (response_body mt) b resp"
  unfolding encode_response_def
  by (cases resp;
      (hypsubst, simp only: response.case, intro exI conjI, rule refl,
       simp add: response_body_def, (rule codes_seq codec codes_ret | simp)+))

lemma length_frame_header [simp]: "length (frame_header mt corr) = 10"
  by (simp add: frame_header_def)

lemma length_finish: "4 \<le> length out \<Longrightarrow> length (finish_frame out) = length out"
  by (simp add: finish_frame_def Let_def)

lemma unat_of_le_u32: "k < 2 ^ 32 \<Longrightarrow> unat (of_le (le_digits 4 k) :: u32) = k"
  by (simp add: of_le_def le_val_le_digits unat_of_nat)

lemma read_frame_finish:
  assumes "4 < length out" and "length out \<le> MAX_FRAME_BYTES + 4"
  shows "read_frame (finish_frame out @ rest) = Frame (drop 4 (finish_frame out)) rest"
proof -
  obtain k where k: "length out = k + 4" "0 < k" "k \<le> MAX_FRAME_BYTES"
    using assms by (intro that [of "length out - 4"]) auto
  have len: "unat (word_of_nat k :: u32) = k"
    by (rule unat_of_nat_len) (use k in simp)
  have "finish_frame out = le_digits 4 (unat (word_of_nat k :: u32)) @ drop 4 out"
    using k by (simp add: finish_frame_def Let_def)
  then have "finish_frame out = le_digits 4 k @ drop 4 out" by (simp only: len)
  moreover have "unat (of_le (le_digits 4 k) :: u32) = k"
    by (rule unat_of_le_u32) (use k in simp)
  ultimately show ?thesis using k by (simp add: read_frame_def Let_def)
qed

lemma request_frame:
  assumes "wf_request req" and "length (encode_request req corr) \<le> MAX_FRAME_BYTES + 4"
  shows "\<exists>frame. read_frame (encode_request req corr @ rest) = Frame frame rest \<and>
                 decode_request frame = Inr (corr, req)"
proof -
  obtain mt b where enc: "encode_request req corr = finish_frame (frame_header mt corr @ b)"
    and b: "codes (request_body mt) b req"
    using request_codes [OF assms(1)] by blast
  have "length (finish_frame (frame_header mt corr @ b)) = 10 + length b"
    by (simp add: length_finish)
  then have "read_frame (encode_request req corr @ rest) =
      Frame (drop 4 (finish_frame (frame_header mt corr @ b))) rest"
    unfolding enc using assms(2) enc by (intro read_frame_finish) (simp_all add: length_finish)
  then show ?thesis using decode_frame_ok [where body = request_body, OF b, of corr] by (simp add: decode_request_def)
qed


text \<open>
  The same for responses: the frame a broker or the controller writes is read and decoded
  by the client into the same response under the same correlation id.
\<close>

theorem response_transport:
  assumes "wf_response resp" and "length (encode_response resp corr) \<le> MAX_FRAME_BYTES + 4"
  shows "\<exists>frame. read_frame (encode_response resp corr @ rest) = Frame frame rest \<and>
                 decode_response frame = Inr (corr, resp)"
proof -
  obtain mt b where enc: "encode_response resp corr = finish_frame (frame_header mt corr @ b)"
    and b: "codes (response_body mt) b resp"
    using response_codes [OF assms(1)] by blast
  have "length (finish_frame (frame_header mt corr @ b)) = 10 + length b"
    by (simp add: length_finish)
  then have "read_frame (encode_response resp corr @ rest) =
      Frame (drop 4 (finish_frame (frame_header mt corr @ b))) rest"
    unfolding enc using assms(2) enc by (intro read_frame_finish) (simp_all add: length_finish)
  then show ?thesis using decode_frame_ok [where body = response_body, OF b, of corr] by (simp add: decode_response_def)
qed

text \<open>
  C28. No partial message is accepted: every proper prefix of an encoded request decodes to the
  truncation error, and an encoded request followed by extra bytes is refused as malformed
  with the number of extra bytes.
\<close>

theorem request_frame_exact:
  assumes "wf_request req"
  shows "(\<forall>n < length (drop 4 (encode_request req corr)).
            decode_request (take n (drop 4 (encode_request req corr))) = Inl Truncated) \<and>
         (\<forall>junk. junk \<noteq> [] \<longrightarrow>
            decode_request (drop 4 (encode_request req corr) @ junk) =
              Inl (Malformed (show_nat (length junk) @ '' trailing bytes after message body'')))"
proof -
  obtain mt b where enc: "encode_request req corr = finish_frame (frame_header mt corr @ b)"
    and b: "codes (request_body mt) b req"
    using request_codes [OF assms] by blast
  show ?thesis unfolding enc decode_request_def
    by (intro conjI allI impI decode_frame_truncated [where body = request_body, OF b]
        decode_frame_trailing [where body = request_body, OF b])
qed

section \<open>Witnesses\<close>

definition sample_request :: request where
  "sample_request = ProduceReq ''orders'' 3 AcksAll 7
     [\<lparr>pr_key = None, pr_value = []\<rparr>, \<lparr>pr_key = Some [107], pr_value = [171, 205]\<rparr>]"

definition sample_response :: response where
  "sample_response = FetchResp NoError 5 8
     [\<lparr>fr_offset = 7, fr_timestamp_ms = - 1, fr_key = Some [1, 2, 3], fr_value = [118]\<rparr>]"

lemmas sample_defs = sample_request_def sample_response_def wf_list_def wf_opt_bytes_def
  wf_produce_record_def wf_fetched_record_def

lemma sample_request_wf: "wf_request sample_request"
  by (simp add: sample_defs wf_str_ascii)

lemma sample_response_wf: "wf_response sample_response"
  by (simp add: sample_defs)

lemma sample_request_small: "10 < length (encode_request sample_request 42) \<and>
  length (encode_request sample_request 42) \<le> MAX_FRAME_BYTES + 4"
  by (simp add: sample_defs encode_request_def length_finish put_produce_record_def)

lemma sample_response_small: "length (encode_response sample_response 7) \<le> MAX_FRAME_BYTES + 4"
  by (simp add: sample_defs encode_response_def length_finish put_fetched_record_def put_error_def)


theorem response_transport_witness:
  "\<exists>frame. read_frame (encode_response sample_response 7 @ [1]) = Frame frame [1] \<and>
           decode_response frame = Inr (7, sample_response)"
  by (rule response_transport [OF sample_response_wf sample_response_small])

theorem request_frame_exact_witness:
  "decode_request (take 5 (drop 4 (encode_request sample_request 42))) = Inl Truncated \<and>
   decode_request (drop 4 (encode_request sample_request 42) @ [238]) =
     Inl (Malformed ''1 trailing bytes after message body'')"
proof -
  have len: "5 < length (drop 4 (encode_request sample_request 42))"
    using sample_request_small unfolding length_drop by linarith
  have one: "show_nat (length [238 :: u8]) @ '' trailing bytes after message body'' =
      ''1 trailing bytes after message body''"
    by code_simp
  show ?thesis
    using request_frame_exact [OF sample_request_wf, of 42] len one by (metis list.discI)
qed

end
