(* ===== verification/LogRecord.thy ===== *)
theory LogRecord
  imports Wire
begin

text \<open>
  The on-disk record of \<^verbatim>\<open>src/src/storage/record.rs\<close>: a length, a CRC over the body, and the
  body (offset, timestamp, key, value). The checksum is the \<open>crc32fast\<close> crate, so it is a
  parameter \<open>crc\<close> of the encoder and the decoder; nothing is assumed of it. The lemmas say that
  a record is read back exactly, that every proper prefix of a record is incomplete, and that
  bytes whose checksum does not match are never returned.
\<close>

section \<open>The format\<close>

abbreviation (input) LEN_FIELD_BYTES :: nat where "LEN_FIELD_BYTES \<equiv> 4"
abbreviation (input) CRC_FIELD_BYTES :: nat where "CRC_FIELD_BYTES \<equiv> 4"
abbreviation (input) MIN_BODY_BYTES :: nat where "MIN_BODY_BYTES \<equiv> 24"

record log_record =
  lr_offset :: u64
  lr_timestamp_ms :: i64
  lr_key :: "bytes option"
  lr_value :: bytes

datatype decode_outcome =
    Decoded log_record nat
  | Incomplete
  | Corrupt string

definition key_len :: "log_record \<Rightarrow> nat" where
  "key_len r = (case lr_key r of None \<Rightarrow> 0 | Some k \<Rightarrow> length k)"

definition encoded_len :: "log_record \<Rightarrow> nat" where
  "encoded_len r =
     LEN_FIELD_BYTES + CRC_FIELD_BYTES + MIN_BODY_BYTES + key_len r + length (lr_value r)"

definition record_body :: "log_record \<Rightarrow> bytes" where
  "record_body r =
     put_u64 (lr_offset r) @
     put_i64 (lr_timestamp_ms r) @
     (case lr_key r of
        None \<Rightarrow> put_i32 (- 1)
      | Some k \<Rightarrow> put_i32 (word_of_nat (length k)) @ k) @
     put_u32 (word_of_nat (length (lr_value r))) @
     lr_value r"

definition encode :: "(bytes \<Rightarrow> u32) \<Rightarrow> log_record \<Rightarrow> bytes" where
  "encode crc r =
     (let body_len = MIN_BODY_BYTES + key_len r + length (lr_value r);
          len = (word_of_nat (CRC_FIELD_BYTES + body_len) :: u32);
          body = record_body r
      in put_u32 len @ put_u32 (crc body) @ body)"

text \<open>\<open>xs[a..b]\<close>, and the hexadecimal text of the mismatch message.\<close>

definition slice_of :: "nat \<Rightarrow> nat \<Rightarrow> 'a list \<Rightarrow> 'a list" where
  "slice_of a b xs = take (b - a) (drop a xs)"

definition hex_digit :: "nat \<Rightarrow> char" where
  "hex_digit d = (if d < 10 then digit_char d else char_of (87 + d))"

definition hex8 :: "u32 \<Rightarrow> string" where
  "hex8 w = ''0x'' @ map (\<lambda>i. hex_digit (unat w div 16 ^ i mod 16)) [7, 6, 5, 4, 3, 2, 1, 0]"

definition decode :: "(bytes \<Rightarrow> u32) \<Rightarrow> bytes \<Rightarrow> nat \<Rightarrow> decode_outcome" where
  "decode crc buf max_record_bytes =
     (if length buf < LEN_FIELD_BYTES then Incomplete
      else
      let len = unat (of_le (slice_of 0 4 buf) :: u32)
      in if len < CRC_FIELD_BYTES + MIN_BODY_BYTES then
           Corrupt (''implausibly small record length '' @ show_nat len)
      else if len > max_record_bytes then
           Corrupt (''record length '' @ show_nat len @ '' exceeds configured max '' @
                    show_nat max_record_bytes)
      else
      let total = LEN_FIELD_BYTES + len
      in if length buf < total then Incomplete
      else
      let crc_stored = (of_le (slice_of 4 8 buf) :: u32);
          body = slice_of 8 total buf;
          crc_actual = crc body
      in if crc_stored \<noteq> crc_actual then
           Corrupt (''crc mismatch: stored '' @ hex8 crc_stored @ '', computed '' @ hex8 crc_actual)
      else
      let offset = (of_le (slice_of 0 8 body) :: u64);
          timestamp_ms = (of_le (slice_of 8 16 body) :: i64);
          klen = sint (of_le (slice_of 16 20 body) :: i32);
          kl = nat klen
      in if 0 \<le> klen \<and> length body < 20 + kl + 4 then
           Corrupt (''key length '' @ show_nat kl @ '' overruns record'')
      else
      let key = (if klen < 0 then None else Some (slice_of 20 (20 + kl) body));
          pos = (if klen < 0 then 20 else 20 + kl)
      in if length body < pos + 4 then Corrupt ''missing value length''
      else
      let value_len = unat (of_le (slice_of pos (pos + 4) body) :: u32)
      in if length body \<noteq> pos + 4 + value_len then
           Corrupt (''value length '' @ show_nat value_len @ '' does not match record length'')
      else Decoded
        \<lparr>lr_offset = offset, lr_timestamp_ms = timestamp_ms, lr_key = key, lr_value = drop (pos + 4) body\<rparr>
        total)"

section \<open>Lengths\<close>

lemma length_record_body: "length (record_body r) = MIN_BODY_BYTES + key_len r + length (lr_value r)"
  by (simp add: record_body_def key_len_def split: option.split)

lemma length_encode [simp]: "length (encode crc r) = encoded_len r"
  by (simp add: encode_def Let_def length_record_body encoded_len_def)

lemma encoded_len_ge: "32 \<le> encoded_len r"
  by (simp add: encoded_len_def)

lemma encode_nonempty [simp]: "encode crc r \<noteq> []"
  using encoded_len_ge [of r] length_encode [of crc r] by (metis list.size(3) not_numeral_le_zero)

section \<open>Reading a record back\<close>

text \<open>
  A record the log accepts: its length field does not exceed the configured maximum. The
  configured maximum is at most \<open>2 ^ 30\<close> (\<open>LogConfig::validate\<close>), so no length is cut off.
\<close>

definition fits :: "nat \<Rightarrow> log_record \<Rightarrow> bool" where
  "fits max_record_bytes r \<longleftrightarrow>
     max_record_bytes \<le> 2 ^ 30 \<and> encoded_len r \<le> max_record_bytes + LEN_FIELD_BYTES"

lemma fits_bounds:
  assumes "fits m r"
  shows "length (record_body r) + 4 \<le> m" and "m \<le> 2 ^ 30"
    and "key_len r < 2 ^ 31" and "length (lr_value r) < 2 ^ 32"
  using assms by (simp_all add: fits_def encoded_len_def length_record_body)

lemma of_le_put [simp]:
  "of_le (put_u32 w) = w" "of_le (put_u64 v) = v" "of_le (put_i32 w) = w" "of_le (put_i64 v) = v"
  by (simp_all add: put_u32_def put_u64_def put_i32_def put_i64_def of_le_le_digits)

lemma slice_of_append_left: "length xs = n \<Longrightarrow> slice_of 0 n (xs @ ys) = xs"
  by (simp add: slice_of_def)

lemma slice_of_append_right: "length xs = a \<Longrightarrow> slice_of a b (xs @ ys) = slice_of 0 (b - a) ys"
  by (simp add: slice_of_def)

lemma unat_len_u32: "n < 2 ^ 32 \<Longrightarrow> unat (word_of_nat n :: u32) = n"
  by (rule unat_of_nat_len) simp

text \<open>What the decoder sees in an encoded record, field by field.\<close>

lemma encode_slices:
  fixes crc :: "bytes \<Rightarrow> u32" and rest :: bytes
  assumes "fits m r"
  defines "buf \<equiv> encode crc r @ rest" and "body \<equiv> record_body r"
  shows "unat (of_le (slice_of 0 4 buf) :: u32) = length body + 4"
    and "of_le (slice_of 4 8 buf) = crc body"
    and "slice_of 8 (8 + length body) buf = body"
proof -
  have buf: "buf = put_u32 (word_of_nat (length body + 4)) @ put_u32 (crc body) @ body @ rest"
    by (simp add: buf_def body_def encode_def Let_def length_record_body add.commute add.left_commute)
  have "unat (word_of_nat (length body + 4) :: u32) = length body + 4"
    by (rule unat_len_u32) (use fits_bounds [OF assms(1)] in \<open>simp add: body_def\<close>)
  then show "unat (of_le (slice_of 0 4 buf) :: u32) = length body + 4"
    by (simp add: buf slice_of_def)
  show "of_le (slice_of 4 8 buf) = crc body" and "slice_of 8 (8 + length body) buf = body"
    by (simp_all add: buf slice_of_def)
qed

lemma body_slices:
  assumes "fits m r"
  defines "body \<equiv> record_body r"
  shows "of_le (slice_of 0 8 body) = lr_offset r" and "of_le (slice_of 8 16 body) = lr_timestamp_ms r"
    and "lr_key r = None \<Longrightarrow> sint (of_le (slice_of 16 20 body) :: i32) = - 1"
    and "lr_key r = Some k \<Longrightarrow> sint (of_le (slice_of 16 20 body) :: i32) = int (length k)"
    and "lr_key r = Some k \<Longrightarrow> slice_of 20 (20 + length k) body = k"
    and "unat (of_le (slice_of (20 + key_len r) (24 + key_len r) body) :: u32) = length (lr_value r)"
    and "drop (24 + key_len r) body = lr_value r"
proof -
  note b = fits_bounds [OF assms(1)]
  show "of_le (slice_of 0 8 body) = lr_offset r" and "of_le (slice_of 8 16 body) = lr_timestamp_ms r"
    by (simp_all add: body_def record_body_def slice_of_def)
  show "lr_key r = None \<Longrightarrow> sint (of_le (slice_of 16 20 body) :: i32) = - 1"
    by (simp add: body_def record_body_def slice_of_def)
  show "sint (of_le (slice_of 16 20 body) :: i32) = int (length k)" if k: "lr_key r = Some k"
  proof -
    have "length k < 2 ^ 31" using b(3) k by (simp add: key_len_def)
    then show ?thesis using k by (simp add: body_def record_body_def slice_of_def sint_of_nat32)
  qed
  show "lr_key r = Some k \<Longrightarrow> slice_of 20 (20 + length k) body = k"
    by (simp add: body_def record_body_def slice_of_def)
  have "slice_of (20 + key_len r) (24 + key_len r) body = put_u32 (word_of_nat (length (lr_value r)))"
    by (simp add: body_def record_body_def slice_of_def key_len_def split: option.split)
  then show "unat (of_le (slice_of (20 + key_len r) (24 + key_len r) body) :: u32) = length (lr_value r)"
    using unat_len_u32 [OF b(4)] by simp
  show "drop (24 + key_len r) body = lr_value r"
    by (simp add: body_def record_body_def key_len_def split: option.split)
qed

lemma decode_encode:
  assumes "fits m r"
  shows "decode crc (encode crc r @ rest) m = Decoded r (encoded_len r)"
proof -
  note b = fits_bounds [OF assms(1)]
  note e = encode_slices [OF assms, of crc rest]
  note f = body_slices [OF assms]
  have L: "length (record_body r) = 24 + key_len r + length (lr_value r)"
    by (rule length_record_body)
  have tot: "4 + (length (record_body r) + 4) = 8 + length (record_body r)" by simp
  have elen: "encoded_len r = 8 + length (record_body r)" by (simp add: encoded_len_def L)
  have rr: "\<lparr>lr_offset = lr_offset r, lr_timestamp_ms = lr_timestamp_ms r, lr_key = lr_key r,
             lr_value = lr_value r\<rparr> = r" by simp
  show ?thesis
  proof (cases "lr_key r")
    case None
    then have kl: "key_len r = 0" by (simp add: key_len_def)
    show ?thesis using None kl b f(6,7) rr
      unfolding decode_def Let_def e tot f(1,2) f(3) [OF None]
      by (simp add: elen L)
  next
    case (Some k)
    then have kl: "key_len r = length k" by (simp add: key_len_def)
    show ?thesis using Some kl b f(6,7) rr
      unfolding decode_def Let_def e tot f(1,2) f(4) [OF Some]
      by (simp add: elen L f(5) [OF Some])
  qed
qed

lemma decode_encode_end: "fits m r \<Longrightarrow> decode crc (encode crc r) m = Decoded r (encoded_len r)"
  using decode_encode [of m r crc "[]"] by simp

section \<open>Torn writes\<close>

lemma decode_torn:
  assumes "fits m r" and "n < encoded_len r"
  shows "decode crc (take n (encode crc r)) m = Incomplete"
proof (cases "n < 4")
  case True
  then show ?thesis by (simp add: decode_def min_def)
next
  case False
  have L: "encoded_len r = 8 + length (record_body r)"
    by (simp add: encoded_len_def length_record_body)
  have "slice_of 0 4 (take n (encode crc r)) = slice_of 0 4 (encode crc r @ [])"
    using False by (simp add: slice_of_def min_def)
  then have "unat (of_le (slice_of 0 4 (take n (encode crc r))) :: u32) = length (record_body r) + 4"
    using encode_slices(1) [OF assms(1), of crc "[]"] by simp
  then show ?thesis using False assms fits_bounds [OF assms(1)]
    by (simp add: decode_def Let_def L length_record_body)
qed

lemma decode_nil [simp]: "decode crc [] m = Incomplete"
  by (simp add: decode_def)

section \<open>Nothing is trusted before it is verified\<close>

lemma decode_Decoded:
  assumes "decode crc buf m = Decoded r n"
  shows "32 \<le> n" and "n \<le> length buf"
    and "of_le (slice_of 4 8 buf) = crc (slice_of 8 n buf)"
  using assms by (auto simp: decode_def Let_def split: if_splits)

lemma decode_progress: "decode crc buf m = Decoded r n \<Longrightarrow> 0 < n \<and> n \<le> length buf"
  using decode_Decoded(1,2) [of crc buf m r n] by simp

end
