(* ===== verification/Storage.thy ===== *)
theory Storage
  imports LogRecord
begin

text \<open>
  What the storage engine of \<^verbatim>\<open>src/src/storage\<close> is built on: the fsync policy and the log
  configuration with their parsing and validation (\<^verbatim>\<open>mod.rs\<close>), the storage errors, and the
  directory of files a partition lives in.
\<close>

section \<open>Configuration\<close>

datatype fsync_policy = Always | Batch (batch_bytes: nat) (batch_ms: nat) | OsDecides

text \<open>
  \<open>FsyncPolicy::parse\<close>: \<open>strip_prefix\<close> and \<open>split_once\<close> of the standard library, then two
  \<open>u64\<close> numbers.
\<close>

definition strip_prefix :: "string \<Rightarrow> string \<Rightarrow> string option" where
  "strip_prefix p s = (if take (length p) s = p then Some (drop (length p) s) else None)"

fun split_once :: "char \<Rightarrow> string \<Rightarrow> (string \<times> string) option" where
  "split_once d [] = None"
| "split_once d (c # s) =
     (if c = d then Some ([], s) else map_option (\<lambda>(a, b). (c # a, b)) (split_once d s))"

definition map_err :: "('e \<Rightarrow> 'f) \<Rightarrow> 'e + 'a \<Rightarrow> 'f + 'a" where
  "map_err f r = (case r of Inl e \<Rightarrow> Inl (f e) | Inr x \<Rightarrow> Inr x)"

lemma map_err_simps [simp]: "map_err f (Inl e) = Inl (f e)" "map_err f (Inr x) = Inr x"
  by (simp_all add: map_err_def)

definition parse_fsync_policy :: "string \<Rightarrow> string + fsync_policy" where
  "parse_fsync_policy s =
     (if s = ''always'' then Inr Always
      else if s = ''os'' then Inr OsDecides
      else case strip_prefix ''batch:'' s of
        None \<Rightarrow> Inl (''unknown fsync policy '' @ s)
      | Some rest \<Rightarrow>
          (case split_once CHR '':'' rest of
             None \<Rightarrow> Inl (''batch policy must be batch:<bytes>:<ms>, got '' @ s)
           | Some (bs, ms) \<Rightarrow>
               bind_r (map_err (\<lambda>e. ''batch bytes: '' @ e) (parse_uint 64 bs)) (\<lambda>mb.
               bind_r (map_err (\<lambda>e. ''batch ms: '' @ e) (parse_uint 64 ms)) (\<lambda>mm.
                 Inr (Batch mb mm)))))"

record log_config =
  max_segment_bytes :: nat
  index_interval_bytes :: nat
  max_record_bytes :: nat
  fsync :: fsync_policy

definition default_log_config :: log_config where
  "default_log_config =
     \<lparr>max_segment_bytes = 128 * 1024 * 1024, index_interval_bytes = 4096,
      max_record_bytes = 16 * 1024 * 1024, fsync = Batch (1024 * 1024) 50\<rparr>"

section \<open>Errors\<close>

datatype io_kind = NotFound | AlreadyExists | InvalidData | InvalidInput

datatype storage_error =
    Io io_kind
  | CorruptAt nat nat string
  | OutOfRange nat
  | RecordTooLarge nat
  | InvalidLayout string
  | InvalidConfig string
  | Panicked string

text \<open>\<open>Panicked\<close> is not an error of the code: it is the outcome where the code would panic.\<close>

definition validate :: "log_config \<Rightarrow> storage_error + unit" where
  "validate cfg =
     (if max_segment_bytes cfg < 1024 \<or> max_segment_bytes cfg > 2 ^ 30 then
        Inl (InvalidConfig ''max_segment_bytes must be within [1 KiB, 1 GiB]'')
      else if index_interval_bytes cfg < 64 then
        Inl (InvalidConfig ''index_interval_bytes must be at least 64'')
      else if max_record_bytes cfg > 2 ^ 30 then
        Inl (InvalidConfig ''max_record_bytes must be at most 1 GiB'')
      else Inr ())"

lemma validate_bounds:
  assumes "validate cfg = Inr ()"
  shows "1024 \<le> max_segment_bytes cfg" and "max_segment_bytes cfg \<le> 2 ^ 30"
    and "64 \<le> index_interval_bytes cfg" and "max_record_bytes cfg \<le> 2 ^ 30"
  using assms by (simp_all add: validate_def split: if_splits)

section \<open>The partition directory\<close>

text \<open>
  A directory is a map from file names to files. A file is its bytes and the number of leading
  bytes that are on stable media: writes extend the bytes, \<open>fsync\<close> makes all of them stable.
  The standard library's file operations fail where the code can observe it (a missing or an
  already existing file); device failures such as a full disk are not modelled.
\<close>

record stored_file =
  f_data :: bytes
  f_synced :: nat

type_synonym disk = "(string, stored_file) hashmap"

definition fs_exists :: "string \<Rightarrow> disk \<Rightarrow> bool" where
  "fs_exists p d \<longleftrightarrow> hm_get d p \<noteq> None"

definition fs_create_new :: "string \<Rightarrow> disk \<Rightarrow> storage_error + disk" where
  "fs_create_new p d =
     (if fs_exists p d then Inl (Io AlreadyExists)
      else Inr (hm_insert p \<lparr>f_data = [], f_synced = 0\<rparr> d))"

definition fs_create :: "string \<Rightarrow> disk \<Rightarrow> disk" where
  "fs_create p d = hm_insert p \<lparr>f_data = [], f_synced = 0\<rparr> d"

definition fs_read :: "string \<Rightarrow> disk \<Rightarrow> storage_error + bytes" where
  "fs_read p d = (case hm_get d p of None \<Rightarrow> Inl (Io NotFound) | Some f \<Rightarrow> Inr (f_data f))"

definition fs_append :: "string \<Rightarrow> bytes \<Rightarrow> disk \<Rightarrow> storage_error + disk" where
  "fs_append p bs d =
     (case hm_get d p of
        None \<Rightarrow> Inl (Io NotFound)
      | Some f \<Rightarrow> Inr (hm_insert p (f\<lparr>f_data := f_data f @ bs\<rparr>) d))"

definition fs_set_len :: "string \<Rightarrow> nat \<Rightarrow> disk \<Rightarrow> storage_error + disk" where
  "fs_set_len p n d =
     (case hm_get d p of
        None \<Rightarrow> Inl (Io NotFound)
      | Some f \<Rightarrow> Inr (hm_insert p
          \<lparr>f_data = take n (f_data f) @ replicate (n - length (f_data f)) 0,
           f_synced = min n (f_synced f)\<rparr> d))"

definition fs_sync :: "string \<Rightarrow> disk \<Rightarrow> storage_error + disk" where
  "fs_sync p d =
     (case hm_get d p of
        None \<Rightarrow> Inl (Io NotFound)
      | Some f \<Rightarrow> Inr (hm_insert p (f\<lparr>f_synced := length (f_data f)\<rparr>) d))"

definition fs_remove :: "string \<Rightarrow> disk \<Rightarrow> storage_error + disk" where
  "fs_remove p d = (if fs_exists p d then Inr (hm_remove p d) else Inl (Io NotFound))"

definition fs_rename :: "string \<Rightarrow> string \<Rightarrow> disk \<Rightarrow> storage_error + disk" where
  "fs_rename p q d =
     (case hm_get d p of
        None \<Rightarrow> Inl (Io NotFound)
      | Some f \<Rightarrow> Inr (hm_insert q f (hm_remove p d)))"

section \<open>File names\<close>

text \<open>\<open>{base_offset:020}.log\<close> and \<open>.index\<close>, and \<open>strip_suffix\<close>.\<close>

definition pad20 :: "string \<Rightarrow> string" where
  "pad20 s = replicate (20 - length s) (CHR ''0'') @ s"

definition log_path :: "nat \<Rightarrow> string" where
  "log_path base = pad20 (show_nat base) @ ''.log''"

definition index_path :: "nat \<Rightarrow> string" where
  "index_path base = pad20 (show_nat base) @ ''.index''"

definition strip_suffix :: "string \<Rightarrow> string \<Rightarrow> string option" where
  "strip_suffix q s =
     (if length q \<le> length s \<and> drop (length s - length q) s = q
      then Some (take (length s - length q) s) else None)"

lemma strip_suffix_append [simp]: "strip_suffix q (s @ q) = Some s"
  by (simp add: strip_suffix_def)

lemma strip_suffix_Some: "strip_suffix q s = Some t \<longleftrightarrow> s = t @ q"
  by (auto simp: strip_suffix_def) (metis append_take_drop_id)

lemma dec_val_zeros: "dec_val (replicate k (CHR ''0'') @ s) = dec_val s"
proof (induction k)
  case (Suc k)
  have "digit_val (CHR ''0'') = 0" by (simp add: digit_val_def)
  with Suc show ?case by (simp add: dec_val_def)
qed simp

lemma pad20_digits: "list_all is_digit s \<Longrightarrow> list_all is_digit (pad20 s)"
  by (auto simp: pad20_def list_all_iff is_digit_def)

lemma dec_val_pad20 [simp]: "dec_val (pad20 (show_nat n)) = n"
  by (simp add: pad20_def dec_val_zeros)

lemma parse_pad20 [simp]: "n < 2 ^ 64 \<Longrightarrow> parse_uint 64 (pad20 (show_nat n)) = Inr n"
  by (subst parse_uint_digits) (simp_all add: pad20_digits show_nat_digits, simp add: pad20_def)

lemma pad20_inj: "pad20 (show_nat m) = pad20 (show_nat n) \<Longrightarrow> m = n"
  by (metis dec_val_pad20)

lemma log_path_inj [simp]: "log_path m = log_path n \<longleftrightarrow> m = n"
  by (auto simp: log_path_def dest: pad20_inj)

lemma index_path_inj [simp]: "index_path m = index_path n \<longleftrightarrow> m = n"
  by (auto simp: index_path_def dest: pad20_inj)

lemma log_index_neq [simp]: "log_path m \<noteq> index_path n" "index_path n \<noteq> log_path m"
proof -
  show "log_path m \<noteq> index_path n"
  proof
    assume "log_path m = index_path n"
    then have "last (log_path m) = last (index_path n)" by simp
    then show False by (simp add: log_path_def index_path_def)
  qed
  then show "index_path n \<noteq> log_path m" by metis
qed

lemma strip_log_path: "strip_suffix ''.log'' (log_path n) = Some (pad20 (show_nat n))"
  by (simp add: log_path_def)

lemma strip_index_path: "strip_suffix ''.log'' (index_path n) = None"
proof (cases "strip_suffix ''.log'' (index_path n)")
  case (Some t)
  then have "last (index_path n) = last (t @ ''.log'')" by (simp add: strip_suffix_Some)
  then show ?thesis by (simp add: index_path_def)
qed

section \<open>Crashes\<close>

text \<open>
  The state a crash leaves: of every file, some prefix that includes the stable bytes. After a
  \<open>kill -9\<close> the page cache survives and the prefix is the whole file; after a power failure any
  such prefix is possible, so a record being written may be torn at any byte. Names of files
  survive. Afterwards what is there is stable.
\<close>

definition crash_file :: "stored_file \<Rightarrow> stored_file \<Rightarrow> bool" where
  "crash_file f f' \<longleftrightarrow>
     (\<exists>n. f_synced f \<le> n \<and> n \<le> length (f_data f) \<and> f' = \<lparr>f_data = take n (f_data f), f_synced = n\<rparr>)"

definition crash_disk :: "disk \<Rightarrow> disk \<Rightarrow> bool" where
  "crash_disk d d' \<longleftrightarrow> list_all2 (\<lambda>(p, f) (p', f'). p = p' \<and> crash_file f f') d d'"

lemma crash_disk_keys: "crash_disk d d' \<Longrightarrow> map fst d' = map fst d"
  unfolding crash_disk_def
  by (induction d d' rule: list_all2_induct) (auto split: prod.splits)

lemma crash_disk_get:
  "crash_disk d d' \<Longrightarrow> hm_get d p = Some f \<Longrightarrow> \<exists>f'. hm_get d' p = Some f' \<and> crash_file f f'"
  unfolding crash_disk_def
  by (induction d d' rule: list_all2_induct) (auto split: prod.splits)

section \<open>What an operation leaves alone\<close>

lemmas fs_defs = fs_exists_def fs_create_new_def fs_create_def fs_read_def fs_append_def
  fs_set_len_def fs_sync_def fs_remove_def fs_rename_def

definition unchanged_outside :: "string set \<Rightarrow> disk \<Rightarrow> disk \<Rightarrow> bool" where
  "unchanged_outside P d d' \<longleftrightarrow>
     (hm_wf d \<longrightarrow> hm_wf d') \<and> (\<forall>p. p \<notin> P \<longrightarrow> hm_get d' p = hm_get d p)"

lemma unchanged_refl [simp]: "unchanged_outside P d d"
  by (simp add: unchanged_outside_def)

lemma unchanged_trans:
  "unchanged_outside P d d' \<Longrightarrow> unchanged_outside Q d' d'' \<Longrightarrow> unchanged_outside (P \<union> Q) d d''"
  by (auto simp: unchanged_outside_def)

lemma unchanged_trans_same:
  "unchanged_outside P d d' \<Longrightarrow> unchanged_outside P d' d'' \<Longrightarrow> unchanged_outside P d d''"
  by (auto simp: unchanged_outside_def)

lemma unchanged_mono: "unchanged_outside P d d' \<Longrightarrow> P \<subseteq> Q \<Longrightarrow> unchanged_outside Q d d'"
  by (auto simp: unchanged_outside_def)

lemma unchanged_get: "unchanged_outside P d d' \<Longrightarrow> p \<notin> P \<Longrightarrow> hm_get d' p = hm_get d p"
  by (simp add: unchanged_outside_def)

lemma unchanged_wf: "unchanged_outside P d d' \<Longrightarrow> hm_wf d \<Longrightarrow> hm_wf d'"
  by (simp add: unchanged_outside_def)

lemma unchanged_insert [simp]: "unchanged_outside {p} d (hm_insert p f d)"
  by (simp add: unchanged_outside_def)

lemma unchanged_remove [simp]: "unchanged_outside {p} d (hm_remove p d)"
  by (simp add: unchanged_outside_def)

end
