(* ===== verification/SparseIndex.thy ===== *)
theory SparseIndex
  imports Storage
begin

text \<open>
  The sparse offset index of \<^verbatim>\<open>src/src/storage/index.rs\<close>: pairs of a relative offset and a
  file position, kept in memory and appended to the segment's index file. A file that is absent
  or malformed loads as \<open>None\<close>. The lemmas say that what \<open>append\<close> wrote, or any prefix of it
  that a crash left, loads as a prefix of the entries or as \<open>None\<close>, and that \<open>lookup\<close> returns
  the greatest entry at or below its target.
\<close>

section \<open>Operations\<close>

abbreviation (input) INDEX_ENTRY_BYTES :: nat where "INDEX_ENTRY_BYTES \<equiv> 8"

type_synonym index_entry = "nat \<times> nat"

text \<open>\<open>as u32\<close> on an unsigned value.\<close>

definition as_u32 :: "nat \<Rightarrow> nat" where
  "as_u32 n = n mod 2 ^ 32"

lemma as_u32_small [simp]: "n < 2 ^ 32 \<Longrightarrow> as_u32 n = n"
  by (simp add: as_u32_def)

definition entry_bytes :: "index_entry \<Rightarrow> bytes" where
  "entry_bytes e = le_digits 4 (fst e) @ le_digits 4 (snd e)"

definition index_create :: "string \<Rightarrow> disk \<Rightarrow> index_entry list \<times> disk" where
  "index_create path d = ([], fs_create path d)"

text \<open>
  The loop of \<open>load\<close> over \<open>chunks_exact(8)\<close>: \<open>acc\<close> holds the entries pushed so far.
\<close>

fun load_entries :: "bytes \<Rightarrow> index_entry list \<Rightarrow> index_entry list option" where
  "load_entries bs acc =
     (if length bs < INDEX_ENTRY_BYTES then Some acc
      else
        let rel = le_val (slice_of 0 4 bs);
            pos = le_val (slice_of 4 8 bs)
        in if acc \<noteq> [] \<and> (rel \<le> fst (last acc) \<or> pos \<le> snd (last acc)) then None
           else load_entries (drop INDEX_ENTRY_BYTES bs) (acc @ [(rel, pos)]))"

declare load_entries.simps [simp del]

definition index_load :: "string \<Rightarrow> disk \<Rightarrow> storage_error + index_entry list option" where
  "index_load path d =
     (if \<not> fs_exists path d then Inr None
      else bind_r (fs_read path d) (\<lambda>bs.
        if length bs mod INDEX_ENTRY_BYTES \<noteq> 0 then Inr None
        else Inr (load_entries bs [])))"

definition index_append ::
    "string \<Rightarrow> nat \<Rightarrow> nat \<Rightarrow> index_entry list \<times> disk \<Rightarrow> storage_error + index_entry list \<times> disk" where
  "index_append path relative_offset file_position ix =
     bind_r (fs_append path (entry_bytes (relative_offset, file_position)) (snd ix)) (\<lambda>d.
       Inr (fst ix @ [(relative_offset, file_position)], d))"

text \<open>
  \<open>binary_search_by_key\<close> of the standard library, on a slice sorted by its keys: \<open>Inr\<close> of the
  position of the key, or \<open>Inl\<close> of the position where it would be inserted.
\<close>

definition binary_search :: "nat \<Rightarrow> index_entry list \<Rightarrow> nat + nat" where
  "binary_search t es =
     (let i = length (takeWhile (\<lambda>e. fst e < t) es)
      in if i < length es \<and> fst (es ! i) = t then Inr i else Inl i)"

definition lookup :: "index_entry list \<Rightarrow> nat \<Rightarrow> index_entry option" where
  "lookup es target_relative_offset =
     (case binary_search target_relative_offset es of
        Inr i \<Rightarrow> Some (es ! i)
      | Inl 0 \<Rightarrow> None
      | Inl (Suc i) \<Rightarrow> Some (es ! i))"

definition index_last :: "index_entry list \<Rightarrow> index_entry option" where
  "index_last es = (if es = [] then None else Some (last es))"

section \<open>Well-formed entries\<close>

text \<open>Both columns strictly increase and every value is a \<open>u32\<close>.\<close>

definition index_wf :: "index_entry list \<Rightarrow> bool" where
  "index_wf es \<longleftrightarrow>
     sorted_wrt (\<lambda>a b. fst a < fst b \<and> snd a < snd b) es \<and>
     (\<forall>e \<in> set es. fst e < 2 ^ 32 \<and> snd e < 2 ^ 32)"

lemma index_wf_Nil [simp]: "index_wf []"
  by (simp add: index_wf_def)

lemma index_wf_append:
  "index_wf (es @ [e]) \<longleftrightarrow>
     index_wf es \<and> fst e < 2 ^ 32 \<and> snd e < 2 ^ 32 \<and>
     (\<forall>x \<in> set es. fst x < fst e \<and> snd x < snd e)"
  by (auto simp: index_wf_def sorted_wrt_append)

lemma index_wf_take: "index_wf es \<Longrightarrow> index_wf (take n es)"
  by (auto simp: index_wf_def sorted_wrt_take dest: in_set_takeD)

lemma index_wf_prefix: "index_wf (xs @ ys) \<Longrightarrow> index_wf xs"
  by (auto simp: index_wf_def sorted_wrt_append)

section \<open>Loading what was written\<close>

lemma length_entry_bytes [simp, enc_length]: "length (entry_bytes e) = 8"
  by (simp add: entry_bytes_def)

lemma entry_bytes_slices [simp]:
  assumes "fst e < 2 ^ 32" and "snd e < 2 ^ 32"
  shows "le_val (slice_of 0 4 (entry_bytes e @ bs)) = fst e"
    and "le_val (slice_of 4 8 (entry_bytes e @ bs)) = snd e"
  using assms by (simp_all add: entry_bytes_def slice_of_def le_val_le_digits)

lemma load_entries_written:
  "index_wf (acc @ es) \<Longrightarrow>
   load_entries (concat (map entry_bytes es) @ rest) acc = load_entries rest (acc @ es)"
proof (induction es arbitrary: acc)
  case Nil
  then show ?case by simp
next
  case (Cons e es)
  have wf: "index_wf ((acc @ [e]) @ es)" using Cons.prems by simp
  then have w: "index_wf (acc @ [e])" by (rule index_wf_prefix)
  then have b: "fst e < 2 ^ 32" "snd e < 2 ^ 32" by (simp_all only: index_wf_append)
  have "acc \<noteq> [] \<Longrightarrow> fst (last acc) < fst e \<and> snd (last acc) < snd e"
    using w by (simp add: index_wf_append)
  then have "load_entries (entry_bytes e @ (concat (map entry_bytes es) @ rest)) acc =
      load_entries (concat (map entry_bytes es) @ rest) (acc @ [e])"
    by (subst load_entries.simps) (use b in \<open>auto simp: Let_def not_le\<close>)
  also have "\<dots> = load_entries rest ((acc @ [e]) @ es)" by (rule Cons.IH [OF wf])
  finally show ?case by simp
qed

lemma length_entries: "length (concat (map entry_bytes es)) = 8 * length es"
  by (induction es) auto

lemma take_entries:
  "take n (concat (map entry_bytes es)) =
   concat (map entry_bytes (take (n div 8) es)) @
     take (n mod 8) (drop (8 * (n div 8)) (concat (map entry_bytes es)))"
proof -
  let ?k = "n div 8" and ?all = "concat (map entry_bytes es)"
  have all: "?all = concat (map entry_bytes (take ?k es)) @ concat (map entry_bytes (drop ?k es))"
    by (metis append_take_drop_id concat_append map_append)
  have "take n ?all = take (8 * ?k) ?all @ take (n mod 8) (drop (8 * ?k) ?all)"
    by (metis take_add mult_div_mod_eq)
  moreover have "take (8 * ?k) ?all = concat (map entry_bytes (take ?k es))"
  proof (cases "?k \<le> length es")
    case True
    then have "length (concat (map entry_bytes (take ?k es))) = 8 * ?k"
      by (simp add: length_entries min_def)
    then show ?thesis by (subst all) simp
  next
    case False
    then have "take ?k es = es" and "8 * length es \<le> 8 * ?k" by simp_all
    then show ?thesis by (simp add: length_entries)
  qed
  ultimately show ?thesis by simp
qed

text \<open>
  An index file holding a prefix of the bytes written for \<open>es\<close> loads as a prefix of \<open>es\<close>, or
  not at all when the prefix cuts an entry.
\<close>

lemma index_load_prefix:
  assumes wf: "index_wf es" and f: "hm_get d path = Some f"
    and data: "f_data f = take n (concat (map entry_bytes es))"
  shows "index_load path d = Inr None \<or> (\<exists>k. index_load path d = Inr (Some (take k es)))"
proof (cases "length (f_data f) mod 8 = 0")
  case False
  then show ?thesis using f by (simp add: index_load_def fs_exists_def fs_read_def)
next
  case True
  let ?all = "concat (map entry_bytes es)"
  define k where "k = min n (length ?all) div 8"
  have "f_data f = take (min n (length ?all)) ?all" using data by (simp add: min_def)
  also have "\<dots> = concat (map entry_bytes (take k es))"
    using True data unfolding k_def by (subst take_entries) (simp add: min.commute)
  finally have eq: "f_data f = concat (map entry_bytes (take k es)) @ []" by simp
  have "load_entries (f_data f) [] = Some (take k es)"
    unfolding eq by (subst load_entries_written)
      (use wf in \<open>simp_all add: index_wf_take load_entries.simps [of "[]"]\<close>)
  then have "index_load path d = Inr (Some (take k es))"
    using f True by (simp add: index_load_def fs_exists_def fs_read_def)
  then show ?thesis by blast
qed

lemma index_load_exact:
  assumes "index_wf es" and "hm_get d path = Some f" and "f_data f = concat (map entry_bytes es)"
  shows "index_load path d = Inr (Some es)"
  using load_entries_written [of "[]" es "[]"] assms
  by (simp add: index_load_def fs_exists_def fs_read_def length_entries load_entries.simps [of "[]"])

text \<open>Whatever the file holds, the entries that load are well formed.\<close>

lemma load_entries_wf:
  "load_entries bs acc = Some es \<Longrightarrow> index_wf acc \<Longrightarrow> index_wf es"
proof (induction bs acc rule: load_entries.induct)
  case (1 bs acc)
  show ?case
  proof (cases "length bs < 8")
    case True
    then show ?thesis using 1 by (subst (asm) load_entries.simps) auto
  next
    case False
    let ?rel = "le_val (slice_of 0 4 bs)" and ?pos = "le_val (slice_of 4 8 bs)"
    have b: "?rel < 2 ^ 32" "?pos < 2 ^ 32"
      using le_val_less [of "slice_of 0 4 bs"] le_val_less [of "slice_of 4 8 bs"] False
      by (simp_all add: slice_of_def)
    have ok: "acc = [] \<or> fst (last acc) < ?rel \<and> snd (last acc) < ?pos"
      and step: "load_entries (drop 8 bs) (acc @ [(?rel, ?pos)]) = Some es"
      using 1(2) False by (subst (asm) load_entries.simps; auto simp: Let_def split: if_splits)+
    have below: "fst x < ?rel \<and> snd x < ?pos" if "x \<in> set acc" for x
    proof -
      from that have ne: "acc \<noteq> []" by auto
      then have "acc = butlast acc @ [last acc]" by simp
      then have "x = last acc \<or> fst x < fst (last acc) \<and> snd x < snd (last acc)"
        using that \<open>index_wf acc\<close> index_wf_append [of "butlast acc" "last acc"]
        by (metis Un_iff empty_iff insert_iff list.set(1) list.set(2) set_append)
      then show ?thesis using ok ne by auto
    qed
    have "index_wf (acc @ [(?rel, ?pos)])"
      using b below 1(3) by (simp add: index_wf_append)
    then show ?thesis using 1(1) [OF False refl refl] step ok by (auto simp: not_le)
  qed
qed

section \<open>Lookup\<close>

lemma takeWhile_sorted:
  assumes "index_wf es" and "i < length es"
  shows "i < length (takeWhile (\<lambda>e. fst e < t) es) \<longleftrightarrow> fst (es ! i) < t"
proof
  assume i: "i < length (takeWhile (\<lambda>e. fst e < t) es)"
  then show "fst (es ! i) < t"
    by (metis nth_mem set_takeWhileD takeWhile_nth)
next
  assume lt: "fst (es ! i) < t"
  show "i < length (takeWhile (\<lambda>e. fst e < t) es)"
  proof (rule ccontr)
    let ?k = "length (takeWhile (\<lambda>e. fst e < t) es)"
    assume "\<not> i < ?k"
    then have k: "?k \<le> i" by simp
    then have "?k < length es" using assms(2) by simp
    then have "\<not> fst (es ! ?k) < t" by (rule nth_length_takeWhile)
    moreover have "fst (es ! ?k) \<le> fst (es ! i)"
      using assms k sorted_wrt_nth_less [of "\<lambda>a b. fst a < fst b \<and> snd a < snd b" es ?k i]
      by (cases "?k = i") (auto simp: index_wf_def)
    ultimately show False using lt by simp
  qed
qed

lemma lookup_None:
  assumes "index_wf es" and "lookup es t = None" and "e \<in> set es"
  shows "t < fst e"
proof -
  let ?k = "length (takeWhile (\<lambda>e. fst e < t) es)"
  have k: "?k = 0" and ne: "\<not> (0 < length es \<and> fst (es ! 0) = t)"
    using assms(2) by (auto simp: lookup_def binary_search_def Let_def split: if_splits nat.splits)
  obtain i where i: "i < length es" "e = es ! i" using assms(3) by (auto simp: in_set_conv_nth)
  have "t < fst (es ! 0)"
    using takeWhile_sorted [OF assms(1), of 0 t] k ne i by (cases es) auto
  moreover have "fst (es ! 0) \<le> fst (es ! i)"
    using assms(1) i sorted_wrt_nth_less [of "\<lambda>a b. fst a < fst b \<and> snd a < snd b" es 0 i]
    by (cases "i = 0") (auto simp: index_wf_def)
  ultimately show ?thesis using i by simp
qed

lemma lookup_Some:
  assumes "index_wf es" and "lookup es t = Some e"
  shows "e \<in> set es" and "fst e \<le> t" and "\<forall>e' \<in> set es. fst e' \<le> t \<longrightarrow> fst e' \<le> fst e"
proof -
  let ?k = "length (takeWhile (\<lambda>e. fst e < t) es)"
  have "?k \<le> length es" by (rule length_takeWhile_le)
  then obtain i where i: "i < length es" "e = es ! i" "fst e \<le> t"
      and max: "\<And>j. i < j \<Longrightarrow> j < length es \<Longrightarrow> t < fst (es ! j)"
  proof (cases "?k < length es \<and> fst (es ! ?k) = t")
    case True
    then have e: "e = es ! ?k" using assms(2) by (simp add: lookup_def binary_search_def Let_def)
    have "t < fst (es ! j)" if "?k < j" "j < length es" for j
      using that True assms(1)
        sorted_wrt_nth_less [of "\<lambda>a b. fst a < fst b \<and> snd a < snd b" es ?k j]
      by (auto simp: index_wf_def)
    then show ?thesis using that [of ?k] True e by auto
  next
    case False
    then obtain k where k: "?k = Suc k" and e: "e = es ! k"
      using assms(2) by (auto simp: lookup_def binary_search_def Let_def split: nat.splits if_splits)
    have "k < length es" using k \<open>?k \<le> length es\<close> by simp
    then have "fst (es ! k) < t" using takeWhile_sorted [OF assms(1), of k t] k by simp
    moreover have "t < fst (es ! j)" if "k < j" "j < length es" for j
    proof -
      have "\<not> fst (es ! j) < t" using takeWhile_sorted [OF assms(1) that(2), of t] k that by simp
      moreover have "fst (es ! j) \<noteq> t"
      proof
        assume eq: "fst (es ! j) = t"
        have "?k < length es" using k that by simp
        then have "\<not> fst (es ! ?k) < t" by (rule nth_length_takeWhile)
        moreover have "fst (es ! ?k) \<le> fst (es ! j)"
          using assms(1) that k
            sorted_wrt_nth_less [of "\<lambda>a b. fst a < fst b \<and> snd a < snd b" es ?k j]
          by (cases "?k = j") (auto simp: index_wf_def)
        ultimately show False using eq False \<open>?k < length es\<close> by simp
      qed
      ultimately show ?thesis by simp
    qed
    ultimately show ?thesis using that [of k] \<open>k < length es\<close> e by auto
  qed
  show "e \<in> set es" and "fst e \<le> t" using i by simp_all
  show "\<forall>e' \<in> set es. fst e' \<le> t \<longrightarrow> fst e' \<le> fst e"
  proof (intro ballI impI)
    fix e' assume "e' \<in> set es" and le: "fst e' \<le> t"
    then obtain j where j: "j < length es" "e' = es ! j" by (auto simp: in_set_conv_nth)
    then have "j \<le> i" using max [of j] le by force
    then show "fst e' \<le> fst e"
      using assms(1) i j sorted_wrt_nth_less [of "\<lambda>a b. fst a < fst b \<and> snd a < snd b" es j i]
      by (cases "i = j") (auto simp: index_wf_def)
  qed
qed

end
