(* ===== verification/Segment.thy ===== *)
theory Segment
  imports SparseIndex
begin

text \<open>
  One segment of a partition's log, \<^verbatim>\<open>src/src/storage/segment.rs\<close>: creation, recovery by
  scanning, append, flush, and the two readers that start from the sparse index. The relation
  \<open>seg_ok\<close> ties a segment and its two files to the list of records it holds; the lemmas say
  that every operation does to that list what it should, with no trace of the index.
\<close>

section \<open>State and operations\<close>

record segment =
  sg_base :: nat
  sg_index :: "index_entry list"
  sg_next :: nat
  sg_size :: nat
  sg_since_index :: nat

definition segment_create :: "nat \<Rightarrow> disk \<Rightarrow> storage_error + segment \<times> disk" where
  "segment_create base d =
     bind_r (fs_create_new (log_path base) d) (\<lambda>d.
       let (es, d) = index_create (index_path base) d
       in Inr (\<lparr>sg_base = base, sg_index = es, sg_next = base, sg_size = 0, sg_since_index = 0\<rparr>, d))"

text \<open>
  The loop of \<open>Segment::recover\<close>. \<open>buf\<close> is what is left to scan (\<open>&buf[pos_in_buf..]\<close>), so
  \<open>pos_in_buf == buf.len()\<close> is \<open>buf = []\<close>.
\<close>

function scan ::
    "(bytes \<Rightarrow> u32) \<Rightarrow> log_config \<Rightarrow> nat \<Rightarrow> bool \<Rightarrow> bool \<Rightarrow> bytes \<Rightarrow> index_entry list \<times> disk \<Rightarrow>
     nat \<Rightarrow> nat \<Rightarrow> nat \<Rightarrow> storage_error + (index_entry list \<times> disk) \<times> nat \<times> nat \<times> nat" where
  "scan crc cfg base rebuild torn buf ix next_offset since_index valid_end =
     (case decode crc buf (max_record_bytes cfg) of
        Decoded r consumed \<Rightarrow>
          if unat (lr_offset r) \<noteq> next_offset then
            Inl (CorruptAt (unat (lr_offset r)) valid_end
                  (''offset discontinuity: expected '' @ show_nat next_offset))
          else
            bind_r (if rebuild \<and> index_interval_bytes cfg \<le> since_index then
                      bind_r (index_append (index_path base) (as_u32 (unat (lr_offset r) - base))
                                (as_u32 valid_end) ix) (\<lambda>ix. Inr (ix, 0))
                    else Inr (ix, since_index)) (\<lambda>(ix, since_index).
              scan crc cfg base rebuild torn (drop consumed buf) ix (next_offset + 1)
                (since_index + consumed) (valid_end + consumed))
      | Incomplete \<Rightarrow>
          if buf = [] \<or> torn then Inr (ix, next_offset, since_index, valid_end)
          else Inl (CorruptAt next_offset valid_end ''incomplete record in rolled segment'')
      | Corrupt reason \<Rightarrow>
          if torn then Inr (ix, next_offset, since_index, valid_end)
          else Inl (CorruptAt next_offset valid_end reason))"
  by pat_completeness auto
termination
  by (relation "measure (\<lambda>(_, _, _, _, _, buf, _). length buf)")
    (auto dest!: decode_progress)

declare scan.simps [simp del]

text \<open>\<open>Segment::recover\<close>: how the index is obtained, the scan, the truncation of a torn tail.\<close>

definition recover_index ::
    "nat \<Rightarrow> bool \<Rightarrow> disk \<Rightarrow> storage_error + (index_entry list \<times> disk) \<times> nat \<times> nat \<times> bool" where
  "recover_index base truncate_torn_tail d =
     (if truncate_torn_tail then Inr (index_create (index_path base) d, 0, base, True)
      else bind_r (index_load (index_path base) d) (\<lambda>loaded.
        case loaded of
          Some es \<Rightarrow>
            (case index_last es of
               Some (rel, pos) \<Rightarrow> Inr ((es, d), pos, base + rel, False)
             | None \<Rightarrow> Inr ((es, d), 0, base, False))
        | None \<Rightarrow> Inr (index_create (index_path base) d, 0, base, True)))"

definition recover ::
    "(bytes \<Rightarrow> u32) \<Rightarrow> log_config \<Rightarrow> nat \<Rightarrow> bool \<Rightarrow> disk \<Rightarrow> storage_error + segment \<times> disk" where
  "recover crc cfg base truncate_torn_tail d =
     bind_r (recover_index base truncate_torn_tail d) (\<lambda>(ix, scan_pos, scan_offset, rebuild).
     bind_r (fs_read (log_path base) (snd ix)) (\<lambda>bytes.
       let file_len = length bytes
       in if file_len < scan_pos then Inl (Panicked ''capacity overflow'')
       else
         bind_r (scan crc cfg base rebuild truncate_torn_tail (drop scan_pos bytes) ix scan_offset 0 scan_pos)
           (\<lambda>((es, d), next_offset, since_index, valid_end).
         bind_r (if valid_end < file_len then
                   bind_r (fs_set_len (log_path base) valid_end d) (fs_sync (log_path base))
                 else Inr d) (\<lambda>d.
           Inr (\<lparr>sg_base = base, sg_index = es, sg_next = next_offset, sg_size = valid_end,
                 sg_since_index = since_index\<rparr>, d)))))"

definition seg_append ::
    "(bytes \<Rightarrow> u32) \<Rightarrow> log_config \<Rightarrow> log_record \<Rightarrow> segment \<times> disk \<Rightarrow>
     storage_error + nat \<times> segment \<times> disk" where
  "seg_append crc cfg r sd =
     (let (s, d) = sd; buf = encode crc r
      in bind_r (if index_interval_bytes cfg \<le> sg_since_index s then
                   bind_r (index_append (index_path (sg_base s))
                             (as_u32 (unat (lr_offset r) - sg_base s)) (as_u32 (sg_size s))
                             (sg_index s, d)) (\<lambda>(es, d).
                     Inr (s\<lparr>sg_index := es, sg_since_index := 0\<rparr>, d))
                 else Inr (s, d)) (\<lambda>(s, d).
         bind_r (fs_append (log_path (sg_base s)) buf d) (\<lambda>d.
           Inr (length buf,
                s\<lparr>sg_size := sg_size s + length buf,
                  sg_since_index := sg_since_index s + length buf,
                  sg_next := sg_next s + 1\<rparr>, d))))"

definition seg_flush :: "segment \<Rightarrow> disk \<Rightarrow> storage_error + disk" where
  "seg_flush s d = fs_sync (log_path (sg_base s)) d"

text \<open>The loop of \<open>read_from\<close>: \<open>buf\<close> is \<open>&buf[pos..]\<close>.\<close>

function read_loop ::
    "(bytes \<Rightarrow> u32) \<Rightarrow> log_config \<Rightarrow> nat \<Rightarrow> nat \<Rightarrow> nat \<Rightarrow> nat \<Rightarrow> bytes \<Rightarrow> nat \<Rightarrow> log_record list \<Rightarrow> nat \<Rightarrow>
     storage_error + log_record list" where
  "read_loop crc cfg seg_next start_pos offset max_bytes buf pos out out_bytes =
     (case decode crc buf (max_record_bytes cfg) of
        Decoded r consumed \<Rightarrow>
          if unat (lr_offset r) < offset then
            read_loop crc cfg seg_next start_pos offset max_bytes (drop consumed buf)
              (pos + consumed) out out_bytes
          else if out \<noteq> [] \<and> out_bytes + consumed > max_bytes then Inr out
          else if out_bytes + consumed \<ge> max_bytes then Inr (out @ [r])
          else
            read_loop crc cfg seg_next start_pos offset max_bytes (drop consumed buf)
              (pos + consumed) (out @ [r]) (out_bytes + consumed)
      | Incomplete \<Rightarrow> Inr out
      | Corrupt reason \<Rightarrow> Inl (CorruptAt seg_next (start_pos + pos) reason))"
  by pat_completeness auto
termination
  by (relation "measure (\<lambda>(_, _, _, _, _, _, buf, _). length buf)")
    (auto dest!: decode_progress)

declare read_loop.simps [simp del]

definition index_start :: "segment \<Rightarrow> nat \<Rightarrow> nat" where
  "index_start s offset =
     (case lookup (sg_index s) (as_u32 (offset - sg_base s)) of None \<Rightarrow> 0 | Some (_, pos) \<Rightarrow> pos)"

definition read_from ::
    "(bytes \<Rightarrow> u32) \<Rightarrow> log_config \<Rightarrow> nat \<Rightarrow> nat \<Rightarrow> segment \<Rightarrow> disk \<Rightarrow> storage_error + log_record list" where
  "read_from crc cfg offset max_bytes s d =
     (if offset < sg_base s \<or> sg_next s \<le> offset then Inr []
      else
        let start_pos = index_start s offset
        in bind_r (fs_read (log_path (sg_base s)) d) (\<lambda>bytes.
             let buf = take (sg_size s - start_pos) (drop start_pos bytes)
             in read_loop crc cfg (sg_next s) start_pos offset max_bytes buf 0 [] 0))"

function position_loop ::
    "(bytes \<Rightarrow> u32) \<Rightarrow> log_config \<Rightarrow> nat \<Rightarrow> nat \<Rightarrow> bytes \<Rightarrow> nat \<Rightarrow> storage_error + nat" where
  "position_loop crc cfg start_pos offset buf pos =
     (case decode crc buf (max_record_bytes cfg) of
        Decoded r consumed \<Rightarrow>
          if unat (lr_offset r) = offset then Inr (start_pos + pos)
          else position_loop crc cfg start_pos offset (drop consumed buf) (pos + consumed)
      | _ \<Rightarrow> Inl (CorruptAt offset (start_pos + pos) ''offset not found while locating position''))"
  by pat_completeness auto
termination
  by (relation "measure (\<lambda>(_, _, _, _, buf, _). length buf)")
    (auto dest!: decode_progress)

declare position_loop.simps [simp del]

definition position_of ::
    "(bytes \<Rightarrow> u32) \<Rightarrow> log_config \<Rightarrow> nat \<Rightarrow> segment \<Rightarrow> disk \<Rightarrow> storage_error + nat" where
  "position_of crc cfg offset s d =
     (if offset < sg_base s \<or> sg_next s < offset then Inl (OutOfRange offset)
      else if offset = sg_next s then Inr (sg_size s)
      else
        let start_pos = index_start s offset
        in bind_r (fs_read (log_path (sg_base s)) d) (\<lambda>bytes.
             let buf = take (sg_size s - start_pos) (drop start_pos bytes)
             in position_loop crc cfg start_pos offset buf 0))"

section \<open>The bytes of a list of records\<close>

definition log_bytes :: "(bytes \<Rightarrow> u32) \<Rightarrow> log_record list \<Rightarrow> bytes" where
  "log_bytes crc rs = concat (map (encode crc) rs)"

abbreviation pos_at :: "(bytes \<Rightarrow> u32) \<Rightarrow> log_record list \<Rightarrow> nat \<Rightarrow> nat" where
  "pos_at crc rs i \<equiv> length (log_bytes crc (take i rs))"

lemma log_bytes_simps [simp]:
  "log_bytes crc [] = []"
  "log_bytes crc (r # rs) = encode crc r @ log_bytes crc rs"
  "log_bytes crc (rs @ rs') = log_bytes crc rs @ log_bytes crc rs'"
  by (simp_all add: log_bytes_def)

lemma length_log_bytes: "32 * length rs \<le> length (log_bytes crc rs)"
proof (induction rs)
  case (Cons r rs)
  then show ?case using encoded_len_ge [of r] by simp
qed simp

lemma pos_at_less:
  assumes "i < j" and "j \<le> length rs"
  shows "pos_at crc rs i < pos_at crc rs j"
proof -
  have "take j rs = take i rs @ rs ! i # drop (Suc i) (take j rs)"
    using assms id_take_nth_drop [of i "take j rs"] by (simp add: min_def)
  then have "pos_at crc rs j =
      pos_at crc rs i + encoded_len (rs ! i) + length (log_bytes crc (drop (Suc i) (take j rs)))"
    by (metis add.assoc length_append length_encode log_bytes_simps(2,3))
  then show ?thesis using encoded_len_ge [of "rs ! i"] by simp
qed

lemma pos_at_le: "pos_at crc rs i \<le> length (log_bytes crc rs)"
  by (metis append_take_drop_id length_append le_add1 log_bytes_simps(3))

lemma drop_pos_at: "drop (pos_at crc rs i) (log_bytes crc rs @ t) = log_bytes crc (drop i rs) @ t"
  by (metis append.assoc append_eq_conv_conj append_take_drop_id log_bytes_simps(3))

text \<open>The records carry consecutive offsets from \<open>base\<close> on.\<close>

primrec numbered :: "nat \<Rightarrow> log_record list \<Rightarrow> bool" where
  "numbered base [] \<longleftrightarrow> True"
| "numbered base (r # rs) \<longleftrightarrow> unat (lr_offset r) = base \<and> numbered (Suc base) rs"

lemma numbered_append:
  "numbered base (xs @ ys) \<longleftrightarrow> numbered base xs \<and> numbered (base + length xs) ys"
  by (induction xs arbitrary: base) auto

lemma numbered_take: "numbered base rs \<Longrightarrow> numbered base (take i rs)"
  by (metis append_take_drop_id numbered_append)

lemma numbered_drop: "numbered base rs \<Longrightarrow> i \<le> length rs \<Longrightarrow> numbered (base + i) (drop i rs)"
  using numbered_append [of base "take i rs" "drop i rs"] by (simp add: min.absorb2)

lemma numbered_nth: "numbered base rs \<Longrightarrow> i < length rs \<Longrightarrow> unat (lr_offset (rs ! i)) = base + i"
proof (induction rs arbitrary: base i)
  case (Cons r rs)
  then show ?case by (cases i) auto
qed simp

abbreviation all_fit :: "log_config \<Rightarrow> log_record list \<Rightarrow> bool" where
  "all_fit cfg rs \<equiv> list_all (fits (max_record_bytes cfg)) rs"

lemma all_fit_take: "all_fit cfg rs \<Longrightarrow> all_fit cfg (take i rs)"
  by (auto simp: list_all_iff dest: in_set_takeD)

lemma all_fit_drop: "all_fit cfg rs \<Longrightarrow> all_fit cfg (drop i rs)"
  by (auto simp: list_all_iff dest: in_set_dropD)

text \<open>The bytes at the front of \<open>tail\<close> are not a record.\<close>

definition stops :: "(bytes \<Rightarrow> u32) \<Rightarrow> nat \<Rightarrow> bytes \<Rightarrow> bool" where
  "stops crc m tail = (case decode crc tail m of Decoded _ _ \<Rightarrow> False | _ \<Rightarrow> True)"

lemma stops_Nil [simp]: "stops crc m []"
  by (simp add: stops_def)

lemma stops_torn: "fits m r \<Longrightarrow> n < encoded_len r \<Longrightarrow> stops crc m (take n (encode crc r))"
  by (simp add: stops_def decode_torn)

section \<open>What a segment holds\<close>

text \<open>
  Every index entry points at the start of the record of its relative offset; the index file
  holds the entries in memory; the log file holds the records, and nothing else.
\<close>

definition index_ok :: "(bytes \<Rightarrow> u32) \<Rightarrow> log_record list \<Rightarrow> index_entry list \<Rightarrow> bool" where
  "index_ok crc rs es \<longleftrightarrow>
     index_wf es \<and> (\<forall>e \<in> set es. fst e < length rs \<and> snd e = pos_at crc rs (fst e))"

definition index_file :: "nat \<Rightarrow> index_entry list \<Rightarrow> disk \<Rightarrow> bool" where
  "index_file base es d \<longleftrightarrow>
     (case hm_get d (index_path base) of
        None \<Rightarrow> False | Some g \<Rightarrow> f_data g = concat (map entry_bytes es))"

definition log_file :: "(bytes \<Rightarrow> u32) \<Rightarrow> nat \<Rightarrow> log_record list \<Rightarrow> disk \<Rightarrow> bool" where
  "log_file crc base rs d \<longleftrightarrow>
     (case hm_get d (log_path base) of None \<Rightarrow> False | Some f \<Rightarrow> f_data f = log_bytes crc rs)"

definition seg_ok ::
    "(bytes \<Rightarrow> u32) \<Rightarrow> log_config \<Rightarrow> disk \<Rightarrow> segment \<Rightarrow> log_record list \<Rightarrow> bool" where
  "seg_ok crc cfg d s rs \<longleftrightarrow>
     log_file crc (sg_base s) rs d \<and> index_file (sg_base s) (sg_index s) d \<and>
     index_ok crc rs (sg_index s) \<and> all_fit cfg rs \<and> numbered (sg_base s) rs \<and>
     sg_next s = sg_base s + length rs \<and> sg_size s = length (log_bytes crc rs) \<and>
     sg_size s < 2 ^ 32"

lemma index_ok_mono:
  assumes "index_ok crc (take n rs) es"
  shows "index_ok crc rs es"
  unfolding index_ok_def
proof (intro conjI ballI)
  show "index_wf es" using assms by (simp add: index_ok_def)
  fix e assume "e \<in> set es"
  then have "fst e < length (take n rs)" and "snd e = pos_at crc (take n rs) (fst e)"
    using assms by (auto simp: index_ok_def)
  then show "fst e < length rs" and "snd e = pos_at crc rs (fst e)"
    by (auto simp: min_def split: if_splits)
qed

lemma index_ok_append: "index_ok crc rs es \<Longrightarrow> index_ok crc (rs @ rs') es"
  using index_ok_mono [of crc "length rs" "rs @ rs'" es] by simp

lemma index_ok_take: "index_ok crc rs es \<Longrightarrow> index_ok crc rs (take k es)"
  by (auto simp: index_ok_def index_wf_take dest: in_set_takeD)

text \<open>The step both \<open>append\<close> and the rebuilding scan make: one more entry, for the next record.\<close>

lemma index_ok_add:
  assumes "index_ok crc rs es" and "length (log_bytes crc rs) < 2 ^ 32"
  shows "index_ok crc (rs @ [r]) (es @ [(length rs, length (log_bytes crc rs))])"
proof -
  have "length rs < 2 ^ 32" using length_log_bytes [of rs crc] assms(2) by simp
  moreover have "snd e < length (log_bytes crc rs)" if "e \<in> set es" for e
    using pos_at_less [of "fst e" "length rs" rs crc] assms(1) that by (auto simp: index_ok_def)
  ultimately show ?thesis
    using assms by (auto simp: index_ok_def index_wf_append)
qed

lemma index_append_ok:
  assumes "index_file base es d"
  shows "\<exists>d'. index_append (index_path base) rel pos (es, d) = Inr (es @ [(rel, pos)], d') \<and>
    index_file base (es @ [(rel, pos)]) d' \<and> unchanged_outside {index_path base} d d'"
  using assms by (auto simp: index_append_def index_file_def fs_append_def split: option.splits)

lemma index_create_ok:
  "index_create (index_path base) d = ([], fs_create (index_path base) d)"
  "index_file base [] (fs_create (index_path base) d)"
  "unchanged_outside {index_path base} d (fs_create (index_path base) d)"
  by (simp_all add: index_create_def index_file_def fs_create_def)

lemma log_file_cong:
  "hm_get d' (log_path base) = hm_get d (log_path base) \<Longrightarrow>
   log_file crc base rs d' \<longleftrightarrow> log_file crc base rs d"
  by (simp add: log_file_def)

lemma index_file_cong:
  "hm_get d' (index_path base) = hm_get d (index_path base) \<Longrightarrow>
   index_file base es d' \<longleftrightarrow> index_file base es d"
  by (simp add: index_file_def)

lemma seg_ok_frame:
  assumes "seg_ok crc cfg d s rs" and "unchanged_outside P d d'"
    and "log_path (sg_base s) \<notin> P" and "index_path (sg_base s) \<notin> P"
  shows "seg_ok crc cfg d' s rs"
proof -
  have "hm_get d' (log_path (sg_base s)) = hm_get d (log_path (sg_base s))"
    and "hm_get d' (index_path (sg_base s)) = hm_get d (index_path (sg_base s))"
    using assms by (auto intro: unchanged_get)
  then show ?thesis using assms(1)
    by (simp add: seg_ok_def log_file_cong [of d'] index_file_cong [of d'])
qed

section \<open>Recovery\<close>

text \<open>
  The scan from the record after \<open>done\<close> on, over the records \<open>rs\<close> and a tail that is not a
  record: it stops exactly at the end of \<open>rs\<close>, and when it rebuilds the index, the index it
  leaves is right for all the records.
\<close>

lemma scan_ok:
  assumes "all_fit cfg rs" and "numbered (base + length done) rs"
    and "index_ok crc (if rebuild then done else done @ rs) es" and "index_file base es d"
    and "length (log_bytes crc (done @ rs)) < 2 ^ 32"
    and "stops crc (max_record_bytes cfg) tail" and "torn \<or> tail = []"
  shows "\<exists>es' d' si.
    scan crc cfg base rebuild torn (log_bytes crc rs @ tail) (es, d) (base + length done) since
        (length (log_bytes crc done)) =
      Inr ((es', d'), base + length (done @ rs), si, length (log_bytes crc (done @ rs))) \<and>
    index_ok crc (done @ rs) es' \<and> index_file base es' d' \<and>
    unchanged_outside {index_path base} d d'"
  using assms
proof (induction rs arbitrary: "done" es d since)
  case Nil
  have "scan crc cfg base rebuild torn tail (es, d) (base + length done) since
        (length (log_bytes crc done)) =
      Inr ((es, d), base + length done, since, length (log_bytes crc done))"
    using Nil.prems(6,7) by (subst scan.simps) (auto simp: stops_def split: decode_outcome.splits)
  then show ?case using Nil.prems(3,4) by (cases rebuild) auto
next
  case (Cons r rs)
  let ?d1 = "done @ [r]" and ?pos = "length (log_bytes crc done)"
  have fit: "fits (max_record_bytes cfg) r" and off: "unat (lr_offset r) = base + length done"
    using Cons.prems by simp_all
  have dec: "decode crc (log_bytes crc (r # rs) @ tail) (max_record_bytes cfg) =
      Decoded r (encoded_len r)"
    using decode_encode [OF fit, of crc "log_bytes crc rs @ tail"] by simp
  have len: "length (log_bytes crc done) < 2 ^ 32" using Cons.prems(5) by simp
  have "32 * length done \<le> length (log_bytes crc done)" by (rule length_log_bytes)
  then have rel: "as_u32 (unat (lr_offset r) - base) = length done" and pos: "as_u32 ?pos = ?pos"
    using off len by simp_all
  have "\<exists>es1 d1 si1.
    (if rebuild \<and> index_interval_bytes cfg \<le> since then
       bind_r (index_append (index_path base) (as_u32 (unat (lr_offset r) - base)) (as_u32 ?pos) (es, d))
         (\<lambda>ix. Inr (ix, 0))
     else Inr ((es, d), since)) = Inr ((es1, d1), si1) \<and>
    index_ok crc (if rebuild then ?d1 else ?d1 @ rs) es1 \<and> index_file base es1 d1 \<and>
    unchanged_outside {index_path base} d d1"
  proof (cases "rebuild \<and> index_interval_bytes cfg \<le> since")
    case True
    have "index_ok crc ?d1 (es @ [(length done, ?pos)])"
      by (rule index_ok_add) (use Cons.prems(3) len True in auto)
    then show ?thesis
      using True index_append_ok [OF Cons.prems(4), of "length done" ?pos] rel pos by auto
  next
    case False
    then show ?thesis
      using Cons.prems(3,4) index_ok_append [of crc "done" es "[r]"] by (cases rebuild) auto
  qed
  then obtain es1 d1 si1 where
    st: "(if rebuild \<and> index_interval_bytes cfg \<le> since then
       bind_r (index_append (index_path base) (as_u32 (unat (lr_offset r) - base)) (as_u32 ?pos) (es, d))
         (\<lambda>ix. Inr (ix, 0))
     else Inr ((es, d), since)) = Inr ((es1, d1), si1)"
    and ok1: "index_ok crc (if rebuild then ?d1 else ?d1 @ rs) es1" and f1: "index_file base es1 d1"
    and u1: "unchanged_outside {index_path base} d d1"
    by blast
  have step: "scan crc cfg base rebuild torn (log_bytes crc (r # rs) @ tail) (es, d)
        (base + length done) since ?pos =
      scan crc cfg base rebuild torn (log_bytes crc rs @ tail) (es1, d1)
        (base + length ?d1) (si1 + encoded_len r) (length (log_bytes crc ?d1))"
    by (subst scan.simps, subst dec) (use st off in simp)
  obtain es' d' si where
    "scan crc cfg base rebuild torn (log_bytes crc rs @ tail) (es1, d1)
        (base + length ?d1) (si1 + encoded_len r) (length (log_bytes crc ?d1)) =
      Inr ((es', d'), base + length (?d1 @ rs), si, length (log_bytes crc (?d1 @ rs)))"
    and "index_ok crc (?d1 @ rs) es'" and "index_file base es' d'"
    and "unchanged_outside {index_path base} d1 d'"
    using Cons.IH [of ?d1 es1 d1 "si1 + encoded_len r"] Cons.prems ok1 f1 by auto
  then show ?case using step u1 unchanged_trans_same [OF u1] by auto
qed

text \<open>
  Recovering the newest segment: whatever follows the last complete record is cut off, and the
  index is rebuilt.
\<close>

lemma recover_newest:
  assumes f: "hm_get d (log_path base) = Some f" "f_data f = log_bytes crc rs @ tail"
    and rs: "all_fit cfg rs" "numbered base rs" "length (log_bytes crc rs) < 2 ^ 32"
    and tail: "stops crc (max_record_bytes cfg) tail"
  shows "\<exists>s d'. recover crc cfg base True d = Inr (s, d') \<and> sg_base s = base \<and>
    seg_ok crc cfg d' s rs \<and> unchanged_outside {log_path base, index_path base} d d' \<and>
    hm_get d' (log_path base) =
      Some (if tail = [] then f
            else \<lparr>f_data = log_bytes crc rs, f_synced = length (log_bytes crc rs)\<rparr>)"
proof -
  let ?d0 = "fs_create (index_path base) d" and ?n = "length (log_bytes crc rs)"
  obtain es' d' si where
    scan: "scan crc cfg base True True (log_bytes crc rs @ tail) ([], ?d0) base 0 0 =
      Inr ((es', d'), base + length rs, si, ?n)"
    and ok: "index_ok crc rs es'" "index_file base es' d'"
    and u: "unchanged_outside {index_path base} ?d0 d'"
    using scan_ok [of cfg rs base "[]" crc True "[]" ?d0 tail True 0] rs tail
      index_create_ok(2) [of base d]
    by (auto simp: index_ok_def)
  have u0: "unchanged_outside {index_path base} d d'"
    by (rule unchanged_trans_same [OF index_create_ok(3) u])
  have f': "hm_get d' (log_path base) = Some f"
    using f(1) unchanged_get [OF u0, of "log_path base"] by simp
  have f0: "fs_read (log_path base) ?d0 = Inr (log_bytes crc rs @ tail)"
    using f by (simp add: fs_read_def fs_create_def)
  have u1: "unchanged_outside {log_path base, index_path base} d d'"
    by (rule unchanged_mono [OF u0]) simp
  have r: "recover crc cfg base True d =
      bind_r (if ?n < length (f_data f) then
                bind_r (fs_set_len (log_path base) ?n d') (fs_sync (log_path base))
              else Inr d') (\<lambda>d.
        Inr (\<lparr>sg_base = base, sg_index = es', sg_next = base + length rs, sg_size = ?n,
              sg_since_index = si\<rparr>, d))"
    by (simp add: recover_def recover_index_def index_create_def f0 Let_def scan f(2))
  show ?thesis
  proof (cases "tail = []")
    case True
    then show ?thesis using r f f' ok rs u1
      by (auto simp: seg_ok_def log_file_def index_ok_def)
  next
    case False
    let ?f' = "\<lparr>f_data = log_bytes crc rs, f_synced = ?n\<rparr>"
    have "bind_r (fs_set_len (log_path base) ?n d') (fs_sync (log_path base)) =
        Inr (hm_insert (log_path base) ?f' (hm_insert (log_path base)
          \<lparr>f_data = log_bytes crc rs, f_synced = min ?n (f_synced f)\<rparr> d'))"
      using f' f by (simp add: fs_set_len_def fs_sync_def)
    moreover have "unchanged_outside {log_path base, index_path base} d
        (hm_insert (log_path base) ?f' (hm_insert (log_path base)
          \<lparr>f_data = log_bytes crc rs, f_synced = min ?n (f_synced f)\<rparr> d'))"
      using u1 by (auto simp: unchanged_outside_def)
    ultimately show ?thesis using False r f ok rs
      by (auto simp: seg_ok_def log_file_def index_file_def split: option.splits)
  qed
qed

text \<open>
  Recovering a rolled segment, whose log file is whole: the index file may have lost any of its
  last bytes, since it is never made durable.
\<close>

lemma recover_rolled:
  assumes f: "log_file crc base rs d"
    and rs: "all_fit cfg rs" "numbered base rs" "length (log_bytes crc rs) < 2 ^ 32"
    and g: "hm_get d (index_path base) = Some g" "f_data g = take n (concat (map entry_bytes es))"
    and es: "index_ok crc rs es"
  shows "\<exists>s d'. recover crc cfg base False d = Inr (s, d') \<and> sg_base s = base \<and>
    seg_ok crc cfg d' s rs \<and> unchanged_outside {index_path base} d d'"
proof -
  let ?n = "length (log_bytes crc rs)"
  have read: "fs_read (log_path base) d = Inr (log_bytes crc rs)"
    using f by (auto simp: log_file_def fs_read_def split: option.splits)
  obtain es0 d0 pos off rebuild i where
    idx: "recover_index base False d = Inr ((es0, d0), pos, off, rebuild)"
    and i: "i \<le> length rs" "pos = pos_at crc rs i" "off = base + i" "rebuild \<longrightarrow> i = 0"
    and es0: "index_ok crc (if rebuild then take i rs else rs) es0" "index_file base es0 d0"
    and u: "unchanged_outside {index_path base} d d0"
  proof (cases "index_load (index_path base) d = Inr None")
    case True
    show ?thesis
      by (rule that [of "[]" "fs_create (index_path base) d" 0 base True 0])
        (use True index_create_ok [of base d] in
          \<open>simp_all add: recover_index_def index_create_def index_ok_def\<close>)
  next
    case False
    have "index_wf es" using es by (simp add: index_ok_def)
    then obtain k where load: "index_load (index_path base) d = Inr (Some (take k es))"
      using False index_load_prefix [OF _ g] by blast
    have same: "index_file base (take k es) d"
    proof -
      have len: "length (f_data g) mod 8 = 0" and "load_entries (f_data g) [] = Some (take k es)"
        using load g(1) by (auto simp: index_load_def fs_exists_def fs_read_def split: if_splits)
      have "f_data g = concat (map entry_bytes (take (length (f_data g) div 8) es))"
        (is "_ = concat (map entry_bytes ?t)")
      proof -
        have "f_data g = take (length (f_data g)) (concat (map entry_bytes es))"
          using g(2) by (simp add: min_def)
        also have "\<dots> = concat (map entry_bytes ?t)"
          by (subst take_entries) (simp add: len)
        finally show ?thesis .
      qed
      moreover from this have "load_entries (f_data g) [] = Some ?t"
        using load_entries_written [of "[]" ?t "[]"] \<open>index_wf es\<close>
        by (simp add: index_wf_take load_entries.simps [of "[]"])
      ultimately show ?thesis
        using \<open>load_entries (f_data g) [] = Some (take k es)\<close> g(1) by (simp add: index_file_def)
    qed
    have ok: "index_ok crc rs (take k es)" using es by (rule index_ok_take)
    show ?thesis
    proof (cases "take k es = []")
      case True
      show ?thesis
        by (rule that [of "[]" d 0 base False 0])
          (use load [unfolded True] same [unfolded True] in
            \<open>simp_all add: recover_index_def index_last_def index_ok_def\<close>)
    next
      case ne: False
      let ?l = "last (take k es)"
      have l: "fst ?l < length rs" "snd ?l = pos_at crc rs (fst ?l)"
        using ok ne by (auto simp: index_ok_def)
      show ?thesis
        by (rule that [of "take k es" d "snd ?l" "base + fst ?l" False "fst ?l"])
          (use ne load same ok l in
            \<open>simp_all add: recover_index_def index_last_def case_prod_beta\<close>)
    qed
  qed
  have buf: "drop pos (log_bytes crc rs) = log_bytes crc (drop i rs) @ []"
    using drop_pos_at [of crc i rs "[]"] i by simp
  have all: "take i rs @ drop i rs = rs" by simp
  have len_i: "length (take i rs) = i" using i(1) by simp
  obtain es' d' si where
    scan: "scan crc cfg base rebuild False (log_bytes crc (drop i rs) @ []) (es0, d0) (base + i) 0 pos =
      Inr ((es', d'), base + length rs, si, ?n)"
    and ok: "index_ok crc rs es'" "index_file base es' d'"
    and u': "unchanged_outside {index_path base} d0 d'"
    using scan_ok [of cfg "drop i rs" base "take i rs" crc rebuild es0 d0 "[]" False 0]
      rs es0 i all_fit_drop [OF rs(1)] numbered_drop [OF rs(2) i(1)]
    unfolding all len_i by auto
  have read0: "fs_read (log_path base) d0 = Inr (log_bytes crc rs)"
    using read unchanged_get [OF u, of "log_path base"] by (simp add: fs_read_def)
  have "pos \<le> ?n" using i pos_at_le by simp
  then have "recover crc cfg base False d =
      Inr (\<lparr>sg_base = base, sg_index = es', sg_next = base + length rs, sg_size = ?n,
            sg_since_index = si\<rparr>, d')"
    by (simp add: recover_def idx read0 Let_def buf [simplified] scan [simplified] i(3))
  moreover have ud: "unchanged_outside {index_path base} d d'"
    by (rule unchanged_trans_same [OF u u'])
  moreover have "log_file crc base rs d'"
    using f unchanged_get [OF ud, of "log_path base"] by (simp add: log_file_def)
  ultimately show ?thesis using ok rs by (auto simp: seg_ok_def)
qed

section \<open>Creation and append\<close>

lemma segment_create_ok:
  assumes "hm_get d (log_path base) = None"
  shows "\<exists>s d'. segment_create base d = Inr (s, d') \<and> sg_base s = base \<and> seg_ok crc cfg d' s [] \<and>
    unchanged_outside {log_path base, index_path base} d d' \<and>
    hm_get d' (log_path base) = Some \<lparr>f_data = [], f_synced = 0\<rparr>"
  using assms
  by (auto simp: segment_create_def fs_create_new_def fs_exists_def index_create_def fs_create_def
      seg_ok_def log_file_def index_file_def index_ok_def unchanged_outside_def)

lemma seg_append_ok:
  assumes ok: "seg_ok crc cfg d s rs" and r: "fits (max_record_bytes cfg) r"
    and off: "unat (lr_offset r) = sg_next s" and sz: "sg_size s + encoded_len r < 2 ^ 32"
    and f: "hm_get d (log_path (sg_base s)) = Some f"
  shows "\<exists>s' d'. seg_append crc cfg r (s, d) = Inr (encoded_len r, s', d') \<and>
    sg_base s' = sg_base s \<and> seg_ok crc cfg d' s' (rs @ [r]) \<and>
    unchanged_outside {log_path (sg_base s), index_path (sg_base s)} d d' \<and>
    hm_get d' (log_path (sg_base s)) = Some (f\<lparr>f_data := f_data f @ encode crc r\<rparr>)"
proof -
  let ?b = "sg_base s" and ?P = "{log_path (sg_base s), index_path (sg_base s)}"
  have len: "length (log_bytes crc rs) < 2 ^ 32" and size: "sg_size s = length (log_bytes crc rs)"
    using ok by (simp_all add: seg_ok_def)
  have rel: "unat (lr_offset r) - ?b = length rs" using off ok by (simp add: seg_ok_def)
  have "32 * length rs \<le> length (log_bytes crc rs)" by (rule length_log_bytes)
  then have cast: "as_u32 (unat (lr_offset r) - ?b) = length rs" "as_u32 (sg_size s) = sg_size s"
    using len rel size by simp_all
  obtain s1 d1 where
    st: "(if index_interval_bytes cfg \<le> sg_since_index s then
           bind_r (index_append (index_path ?b) (as_u32 (unat (lr_offset r) - ?b))
             (as_u32 (sg_size s)) (sg_index s, d)) (\<lambda>(es, d).
             Inr (s\<lparr>sg_index := es, sg_since_index := 0\<rparr>, d))
         else Inr (s, d)) = Inr (s1, d1)"
    and s1: "sg_base s1 = ?b" "sg_next s1 = sg_next s" "sg_size s1 = sg_size s"
    and ok1: "index_ok crc (rs @ [r]) (sg_index s1)" "index_file ?b (sg_index s1) d1"
    and u: "unchanged_outside {index_path ?b} d d1"
  proof (cases "index_interval_bytes cfg \<le> sg_since_index s")
    case True
    obtain d1 where d1:
      "index_append (index_path ?b) (length rs) (sg_size s) (sg_index s, d) =
        Inr (sg_index s @ [(length rs, sg_size s)], d1)"
      "index_file ?b (sg_index s @ [(length rs, sg_size s)]) d1"
      "unchanged_outside {index_path ?b} d d1"
      using index_append_ok ok unfolding seg_ok_def by blast
    have "index_ok crc (rs @ [r]) (sg_index s @ [(length rs, sg_size s)])"
      using index_ok_add [of crc rs "sg_index s" r] ok len size by (simp add: seg_ok_def)
    then show ?thesis
      by (intro that [of "s\<lparr>sg_index := sg_index s @ [(length rs, sg_size s)], sg_since_index := 0\<rparr>" d1])
        (use d1 True cast in simp_all)
  next
    case False
    then show ?thesis
      using that [of s d] ok index_ok_append [of crc rs "sg_index s" "[r]"] by (simp add: seg_ok_def)
  qed
  have f1: "hm_get d1 (log_path ?b) = Some f" using f unchanged_get [OF u] by simp
  let ?d' = "hm_insert (log_path ?b) (f\<lparr>f_data := f_data f @ encode crc r\<rparr>) d1"
  let ?s' = "s1\<lparr>sg_size := sg_size s1 + encoded_len r,
                sg_since_index := sg_since_index s1 + encoded_len r, sg_next := sg_next s1 + 1\<rparr>"
  have "seg_append crc cfg r (s, d) = Inr (encoded_len r, ?s', ?d')"
    using st f1 s1(1) by (simp add: seg_append_def Let_def fs_append_def)
  moreover have "seg_ok crc cfg ?d' ?s' (rs @ [r])"
    using ok ok1 s1 r off sz f
    by (auto simp: seg_ok_def log_file_def index_file_def numbered_append split: option.splits)
  moreover have "unchanged_outside ?P d ?d'"
    using u by (auto simp: unchanged_outside_def)
  ultimately show ?thesis using s1(1) by auto
qed

lemma seg_flush_ok:
  assumes ok: "seg_ok crc cfg d s rs" and f: "hm_get d (log_path (sg_base s)) = Some f"
  shows "\<exists>d'. seg_flush s d = Inr d' \<and> seg_ok crc cfg d' s rs \<and>
    unchanged_outside {log_path (sg_base s)} d d' \<and>
    hm_get d' (log_path (sg_base s)) = Some (f\<lparr>f_synced := length (f_data f)\<rparr>)"
  using assms by (auto simp: seg_flush_def fs_sync_def seg_ok_def log_file_def index_file_def)

section \<open>Reading\<close>

text \<open>
  What a read returns, with no index and no bytes: the first record, then as many as the
  budget \<open>max_bytes\<close> of encoded bytes still allows.
\<close>

fun fill :: "nat \<Rightarrow> log_record list \<Rightarrow> log_record list" where
  "fill budget [] = []"
| "fill budget (r # rs) =
     (if encoded_len r \<le> budget then r # fill (budget - encoded_len r) rs else [])"

fun batch_of :: "nat \<Rightarrow> log_record list \<Rightarrow> log_record list" where
  "batch_of max_bytes [] = []"
| "batch_of max_bytes (r # rs) = r # fill (max_bytes - encoded_len r) rs"

lemma fill_0 [simp]: "fill 0 rs = []"
proof (cases rs)
  case (Cons r rs')
  then show ?thesis using encoded_len_ge [of r] by simp
qed simp

lemma fill_prefix: "\<exists>k. fill b rs = take k rs"
proof (induction rs arbitrary: b)
  case (Cons r rs)
  obtain k where "fill (b - encoded_len r) rs = take k rs" using Cons by blast
  then have "fill b (r # rs) = take (if encoded_len r \<le> b then Suc k else 0) (r # rs)" by simp
  then show ?case by blast
qed simp

lemma batch_of_prefix: "\<exists>k. batch_of b rs = take k rs \<and> (rs \<noteq> [] \<longrightarrow> 0 < k)"
proof (cases rs)
  case (Cons r rs')
  obtain k where "fill (b - encoded_len r) rs' = take k rs'" using fill_prefix by blast
  then have "batch_of b rs = take (Suc k) rs" using Cons by simp
  then show ?thesis by blast
qed auto

lemma batch_of_eq_Nil [simp]: "batch_of b rs = [] \<longleftrightarrow> rs = []"
  by (cases rs) auto

lemma fill_bytes: "length (log_bytes crc (fill b rs)) \<le> b"
proof (induction b rs rule: fill.induct)
  case (2 b r rs)
  then show ?case by (cases "encoded_len r \<le> b") auto
qed simp

lemma decode_records:
  assumes "all_fit cfg (r # rs)"
  shows "decode crc (encode crc r @ log_bytes crc rs) (max_record_bytes cfg) = Decoded r (encoded_len r)"
  using assms decode_encode [of "max_record_bytes cfg" r] by simp

lemma read_loop_fill:
  assumes "all_fit cfg rs" and "numbered n rs" and "offset \<le> n" and "out \<noteq> []"
    and "out_bytes < max_bytes"
  shows "read_loop crc cfg seg_next start offset max_bytes (log_bytes crc rs) pos out out_bytes =
    Inr (out @ fill (max_bytes - out_bytes) rs)"
  using assms
proof (induction rs arbitrary: n pos out out_bytes)
  case Nil
  then show ?case by (subst read_loop.simps) simp
next
  case (Cons r rs)
  have step: "read_loop crc cfg seg_next start offset max_bytes (log_bytes crc (r # rs)) pos out out_bytes =
     (if out_bytes + encoded_len r > max_bytes then Inr out
      else if out_bytes + encoded_len r \<ge> max_bytes then Inr (out @ [r])
      else read_loop crc cfg seg_next start offset max_bytes (log_bytes crc rs) (pos + encoded_len r)
             (out @ [r]) (out_bytes + encoded_len r))"
    using Cons.prems by (subst read_loop.simps) (simp add: decode_records)
  show ?case
  proof (cases "out_bytes + encoded_len r < max_bytes")
    case True
    then show ?thesis
      using step Cons.IH [of "Suc n" "out @ [r]" "out_bytes + encoded_len r" "pos + encoded_len r"]
        Cons.prems by (simp add: diff_diff_left)
  next
    case False
    then show ?thesis using step Cons.prems(5) by auto
  qed
qed

lemma read_loop_batch:
  assumes "all_fit cfg rs" and "numbered n rs" and "i \<le> length rs"
  shows "read_loop crc cfg seg_next start (n + i) max_bytes (log_bytes crc rs) pos [] 0 =
    Inr (batch_of max_bytes (drop i rs))"
  using assms
proof (induction rs arbitrary: n pos i)
  case Nil
  then show ?case by (subst read_loop.simps) simp
next
  case (Cons r rs)
  show ?case
  proof (cases i)
    case 0
    have "read_loop crc cfg seg_next start n max_bytes (log_bytes crc (r # rs)) pos [] 0 =
      (if encoded_len r \<ge> max_bytes then Inr [r]
       else read_loop crc cfg seg_next start n max_bytes (log_bytes crc rs) (pos + encoded_len r)
              [r] (encoded_len r))"
      using Cons.prems by (subst read_loop.simps) (simp add: decode_records)
    then show ?thesis
      using 0 Cons.prems read_loop_fill [of cfg rs "Suc n" n "[r]" "encoded_len r" max_bytes]
      by (cases "encoded_len r < max_bytes") auto
  next
    case (Suc j)
    have "read_loop crc cfg seg_next start (n + i) max_bytes (log_bytes crc (r # rs)) pos [] 0 =
      read_loop crc cfg seg_next start (Suc n + j) max_bytes (log_bytes crc rs) (pos + encoded_len r) [] 0"
      using Cons.prems Suc by (subst read_loop.simps) (simp add: decode_records)
    then show ?thesis using Cons.IH [of "Suc n" j] Cons.prems Suc by simp
  qed
qed

text \<open>The index only chooses where to start: at a record at or before the wanted one.\<close>

lemma index_start_ok:
  assumes ok: "seg_ok crc cfg d s rs" and off: "sg_base s \<le> offset" "offset < sg_next s"
  obtains i where "i \<le> offset - sg_base s" and "index_start s offset = pos_at crc rs i"
proof -
  let ?i = "offset - sg_base s"
  have "32 * length rs \<le> length (log_bytes crc rs)" by (rule length_log_bytes)
  moreover have "?i < length rs" and "length (log_bytes crc rs) < 2 ^ 32"
    using ok off by (auto simp: seg_ok_def)
  ultimately have "?i < 2 ^ 32" by simp
  then have cast: "as_u32 ?i = ?i" by (rule as_u32_small)
  have es: "index_ok crc rs (sg_index s)" using ok by (simp add: seg_ok_def)
  show ?thesis
  proof (cases "lookup (sg_index s) ?i")
    case None
    then show ?thesis using that [of 0] cast by (simp add: index_start_def)
  next
    case (Some e)
    have "index_wf (sg_index s)" using es by (simp add: index_ok_def)
    then have "e \<in> set (sg_index s)" and "fst e \<le> ?i" using lookup_Some [OF _ Some] by blast+
    then show ?thesis using that [of "fst e"] es Some cast
      by (simp add: index_start_def index_ok_def case_prod_beta)
  qed
qed

lemma read_from_ok:
  assumes ok: "seg_ok crc cfg d s rs" and off: "sg_base s \<le> offset" "offset < sg_next s"
  shows "read_from crc cfg offset max_bytes s d = Inr (batch_of max_bytes (drop (offset - sg_base s) rs))"
proof -
  obtain i where i: "i \<le> offset - sg_base s" and start: "index_start s offset = pos_at crc rs i"
    using index_start_ok [OF assms] .
  have il: "i \<le> length rs" using i off ok by (simp add: seg_ok_def)
  have rd: "fs_read (log_path (sg_base s)) d = Inr (log_bytes crc rs)"
    using ok by (auto simp: seg_ok_def log_file_def fs_read_def split: option.splits)
  have "take (sg_size s - pos_at crc rs i) (drop (pos_at crc rs i) (log_bytes crc rs)) =
      log_bytes crc (drop i rs)"
    using drop_pos_at [of crc i rs "[]"] ok
    by (simp add: seg_ok_def) (metis length_drop order_refl take_all)
  then have "read_from crc cfg offset max_bytes s d =
      read_loop crc cfg (sg_next s) (pos_at crc rs i) offset max_bytes (log_bytes crc (drop i rs)) 0 [] 0"
    using off by (simp add: read_from_def start rd Let_def)
  also have "\<dots> = Inr (batch_of max_bytes (drop (offset - sg_base s - i) (drop i rs)))"
    using read_loop_batch [of cfg "drop i rs" "sg_base s + i" "offset - sg_base s - i" crc "sg_next s"]
      ok i off il by (simp add: seg_ok_def all_fit_drop numbered_drop)
  also have "\<dots> = Inr (batch_of max_bytes (drop (offset - sg_base s) rs))"
  proof -
    have "offset - sg_base s - i + i = offset - sg_base s" using i by simp
    then show ?thesis by (simp only: drop_drop)
  qed
  finally show ?thesis .
qed

lemma position_loop_ok:
  assumes "all_fit cfg rs" and "numbered n rs" and "i < length rs"
  shows "position_loop crc cfg start (n + i) (log_bytes crc rs) pos = Inr (start + pos + pos_at crc rs i)"
  using assms
proof (induction rs arbitrary: n pos i)
  case (Cons r rs)
  show ?case
  proof (cases i)
    case 0
    then show ?thesis using Cons.prems by (subst position_loop.simps) (simp add: decode_records)
  next
    case (Suc j)
    have "position_loop crc cfg start (n + i) (log_bytes crc (r # rs)) pos =
        position_loop crc cfg start (Suc n + j) (log_bytes crc rs) (pos + encoded_len r)"
      using Cons.prems Suc by (subst position_loop.simps) (simp add: decode_records)
    then show ?thesis using Cons.IH [of "Suc n" j] Cons.prems Suc by simp
  qed
qed simp

lemma position_of_ok:
  assumes ok: "seg_ok crc cfg d s rs" and off: "sg_base s \<le> offset" "offset \<le> sg_next s"
  shows "position_of crc cfg offset s d = Inr (pos_at crc rs (offset - sg_base s))"
proof (cases "offset = sg_next s")
  case True
  then show ?thesis using ok by (simp add: position_of_def seg_ok_def)
next
  case False
  then have lt: "offset < sg_next s" using off by simp
  obtain i where i: "i \<le> offset - sg_base s" and start: "index_start s offset = pos_at crc rs i"
    using index_start_ok [OF ok off(1) lt] .
  have il: "i < length rs" using i off lt ok by (simp add: seg_ok_def)
  have rd: "fs_read (log_path (sg_base s)) d = Inr (log_bytes crc rs)"
    using ok by (auto simp: seg_ok_def log_file_def fs_read_def split: option.splits)
  have buf: "take (sg_size s - pos_at crc rs i) (drop (pos_at crc rs i) (log_bytes crc rs)) =
      log_bytes crc (drop i rs)"
    using drop_pos_at [of crc i rs "[]"] ok
    by (simp add: seg_ok_def) (metis length_drop order_refl take_all)
  have at: "pos_at crc rs i + pos_at crc (drop i rs) (offset - sg_base s - i) =
      pos_at crc rs (offset - sg_base s)"
    using i by (metis le_add_diff_inverse length_append log_bytes_simps(3) take_add)
  have "position_of crc cfg offset s d =
      position_loop crc cfg (pos_at crc rs i) offset (log_bytes crc (drop i rs)) 0"
    using off lt by (simp add: position_of_def start rd Let_def buf)
  also have "\<dots> = Inr (pos_at crc rs i + 0 + pos_at crc (drop i rs) (offset - sg_base s - i))"
    using position_loop_ok [of cfg "drop i rs" "sg_base s + i" "offset - sg_base s - i" crc]
      ok i off lt il by (simp add: seg_ok_def all_fit_drop numbered_drop)
  finally show ?thesis using at by simp
qed

section \<open>Torn tails\<close>

text \<open>
  A prefix of the log file is some whole records and a tail that does not decode; the whole
  records are all those the prefix is long enough for.
\<close>

lemma torn_log:
  assumes "all_fit cfg rs"
  shows "\<exists>k tail. take n (log_bytes crc rs) = log_bytes crc (take k rs) @ tail \<and> k \<le> length rs \<and>
    stops crc (max_record_bytes cfg) tail \<and> (\<forall>j \<le> length rs. pos_at crc rs j \<le> n \<longrightarrow> j \<le> k)"
  using assms
proof (induction rs arbitrary: n)
  case Nil
  then show ?case by (intro exI [of _ 0] exI [of _ "[]"]) simp
next
  case (Cons r rs)
  show ?case
  proof (cases "n < encoded_len r")
    case True
    have "j = 0" if "pos_at crc (r # rs) j \<le> n" for j
      using that True by (cases j) auto
    then show ?thesis
      using True Cons.prems
      by (intro exI [of _ 0] exI [of _ "take n (encode crc r)"]) (auto simp: stops_torn)
  next
    case False
    obtain k tail where ih: "take (n - encoded_len r) (log_bytes crc rs) = log_bytes crc (take k rs) @ tail"
      "k \<le> length rs" "stops crc (max_record_bytes cfg) tail"
      "\<forall>j \<le> length rs. pos_at crc rs j \<le> n - encoded_len r \<longrightarrow> j \<le> k"
      using Cons.IH [of "n - encoded_len r"] Cons.prems unfolding list.pred_inject by blast
    have "j \<le> Suc k" if "j \<le> length (r # rs)" "pos_at crc (r # rs) j \<le> n" for j
      using that ih(4) by (cases j) auto
    then show ?thesis
      using False ih by (intro exI [of _ "Suc k"] exI [of _ tail]) auto
  qed
qed

section \<open>The records a segment holds\<close>

text \<open>The records at the front of a byte string, up to the first that does not decode.\<close>

function parse_records :: "(bytes \<Rightarrow> u32) \<Rightarrow> nat \<Rightarrow> bytes \<Rightarrow> log_record list" where
  "parse_records crc m buf =
     (case decode crc buf m of
        Decoded r n \<Rightarrow> r # parse_records crc m (drop n buf)
      | _ \<Rightarrow> [])"
  by pat_completeness auto
termination
  by (relation "measure (\<lambda>(_, _, buf). length buf)") (auto dest!: decode_progress)

declare parse_records.simps [simp del]

lemma parse_log_bytes:
  assumes "list_all (fits m) rs" and "stops crc m tail"
  shows "parse_records crc m (log_bytes crc rs @ tail) = rs"
  using assms
proof (induction rs)
  case Nil
  then show ?case
    by (subst parse_records.simps) (auto simp: stops_def split: decode_outcome.splits)
next
  case (Cons r rs)
  have "decode crc (encode crc r @ log_bytes crc rs @ tail) m = Decoded r (encoded_len r)"
    using Cons.prems by (simp add: decode_encode)
  then show ?case using Cons by (subst parse_records.simps) simp
qed

definition seg_records :: "(bytes \<Rightarrow> u32) \<Rightarrow> log_config \<Rightarrow> disk \<Rightarrow> segment \<Rightarrow> log_record list" where
  "seg_records crc cfg d s =
     (case hm_get d (log_path (sg_base s)) of
        None \<Rightarrow> [] | Some f \<Rightarrow> parse_records crc (max_record_bytes cfg) (f_data f))"

lemma seg_records_ok: "seg_ok crc cfg d s rs \<Longrightarrow> seg_records crc cfg d s = rs"
  using parse_log_bytes [of "max_record_bytes cfg" rs crc "[]"]
  by (auto simp: seg_ok_def log_file_def seg_records_def split: option.splits)

end
