(* ===== verification/PartitionLogFacts.thy ===== *)
theory PartitionLogFacts
  imports PartitionLog
begin

text \<open>
  The correctness of the partition log: the invariant, the abstraction to a sequence of
  records, and what each operation does to it.
\<close>

section \<open>The invariant\<close>

definition seg_synced :: "nat \<Rightarrow> disk \<Rightarrow> bool" where
  "seg_synced base d \<longleftrightarrow>
     (case hm_get d (log_path base) of None \<Rightarrow> False | Some f \<Rightarrow> f_synced f = length (f_data f))"

text \<open>
  The closed segments, from offset \<open>b\<close> on: each continues the one before, holds at least one
  record, and is on stable storage.
\<close>

fun closed_ok ::
    "(bytes \<Rightarrow> u32) \<Rightarrow> log_config \<Rightarrow> disk \<Rightarrow> nat \<Rightarrow> (nat, segment) btreemap \<Rightarrow> log_record list list \<Rightarrow> bool" where
  "closed_ok crc cfg d b [] [] \<longleftrightarrow> True"
| "closed_ok crc cfg d b ((k, s) # cs) (rs # rss) \<longleftrightarrow>
     k = b \<and> sg_base s = b \<and> rs \<noteq> [] \<and> seg_ok crc cfg d s rs \<and> seg_synced b d \<and>
     closed_ok crc cfg d (b + length rs) cs rss"
| "closed_ok crc cfg d b _ _ \<longleftrightarrow> False"

text \<open>The log files of the directory are those of the given segments.\<close>

definition dir_ok :: "nat list \<Rightarrow> disk \<Rightarrow> bool" where
  "dir_ok bases d \<longleftrightarrow>
     hm_wf d \<and> (\<forall>p \<in> fst ` set d. strip_suffix ''.log'' p \<noteq> None \<longrightarrow> p \<in> log_path ` set bases)"

text \<open>The durable offset is below the end, and the bytes up to its record are stable.\<close>

definition durable_ok ::
    "(bytes \<Rightarrow> u32) \<Rightarrow> disk \<Rightarrow> segment \<Rightarrow> log_record list \<Rightarrow> nat option \<Rightarrow> bool" where
  "durable_ok crc d s rs durable \<longleftrightarrow>
     (case durable of
        None \<Rightarrow> True
      | Some k \<Rightarrow> k < sg_next s \<and>
          (case hm_get d (log_path (sg_base s)) of
             None \<Rightarrow> False | Some f \<Rightarrow> pos_at crc rs (k + 1 - sg_base s) \<le> f_synced f))"

definition log_ok ::
    "(bytes \<Rightarrow> u32) \<Rightarrow> log_config \<Rightarrow> log \<Rightarrow> disk \<Rightarrow> nat \<Rightarrow> log_record list list \<Rightarrow> log_record list \<Rightarrow> bool" where
  "log_ok crc cfg l d start rss ra \<longleftrightarrow>
     validate cfg = Inr () \<and>
     closed_ok crc cfg d start (lg_closed l) rss \<and>
     sg_base (lg_active l) = start + length (concat rss) \<and>
     seg_ok crc cfg d (lg_active l) ra \<and>
     sg_next (lg_active l) < 2 ^ 64 \<and>
     dir_ok (map fst (lg_closed l) @ [sg_base (lg_active l)]) d \<and>
     durable_ok crc d (lg_active l) ra (lg_durable l)"

text \<open>
  The abstraction: the records of all segments, in order. The lists of the invariant can be
  read off the files, which makes the invariant a property of the state alone.
\<close>

definition closed_records :: "(bytes \<Rightarrow> u32) \<Rightarrow> log_config \<Rightarrow> log \<Rightarrow> disk \<Rightarrow> log_record list list" where
  "closed_records crc cfg l d = map (\<lambda>(_, s). seg_records crc cfg d s) (lg_closed l)"

definition log_inv :: "(bytes \<Rightarrow> u32) \<Rightarrow> log_config \<Rightarrow> log \<Rightarrow> disk \<Rightarrow> bool" where
  "log_inv crc cfg l d \<longleftrightarrow>
     log_ok crc cfg l d (log_start_offset l) (closed_records crc cfg l d)
       (seg_records crc cfg d (lg_active l))"

definition log_records :: "(bytes \<Rightarrow> u32) \<Rightarrow> log_config \<Rightarrow> log \<Rightarrow> disk \<Rightarrow> log_record list" where
  "log_records crc cfg l d =
     concat (closed_records crc cfg l d) @ seg_records crc cfg d (lg_active l)"

lemma closed_ok_records:
  "closed_ok crc cfg d b cs rss \<Longrightarrow> map (\<lambda>(_, s). seg_records crc cfg d s) cs = rss"
  by (induction crc cfg d b cs rss rule: closed_ok.induct) (auto simp: seg_records_ok)

lemma closed_ok_first: "closed_ok crc cfg d b (e # cs) rss \<Longrightarrow> fst e = b"
  by (cases e; cases rss) auto

lemma closed_ok_Nil: "closed_ok crc cfg d b [] rss \<longleftrightarrow> rss = []"
  by (cases rss) auto

lemma log_ok_abs:
  assumes "log_ok crc cfg l d start rss ra"
  shows "log_start_offset l = start" and "closed_records crc cfg l d = rss"
    and "seg_records crc cfg d (lg_active l) = ra" and "log_inv crc cfg l d"
    and "log_records crc cfg l d = concat rss @ ra"
    and "log_next_offset l = start + length (concat rss @ ra)"
proof -
  have c: "closed_ok crc cfg d start (lg_closed l) rss"
    and s: "seg_ok crc cfg d (lg_active l) ra"
    and b: "sg_base (lg_active l) = start + length (concat rss)"
    using assms by (simp_all add: log_ok_def)
  show st: "log_start_offset l = start"
  proof (cases "lg_closed l")
    case Nil
    then show ?thesis using c b by (simp add: log_start_offset_def closed_ok_Nil)
  next
    case (Cons e cs)
    then have "fst e = start" using c by (simp add: closed_ok_first)
    then show ?thesis using Cons by (cases e) (simp add: log_start_offset_def)
  qed
  show cr: "closed_records crc cfg l d = rss"
    using closed_ok_records [OF c] by (simp add: closed_records_def)
  show sr: "seg_records crc cfg d (lg_active l) = ra" using s by (rule seg_records_ok)
  show "log_inv crc cfg l d" using assms by (simp add: log_inv_def st cr sr)
  show "log_records crc cfg l d = concat rss @ ra" by (simp add: log_records_def cr sr)
  show "log_next_offset l = start + length (concat rss @ ra)"
    using s b by (simp add: log_next_offset_def seg_ok_def)
qed

lemma log_inv_ok:
  assumes "log_inv crc cfg l d"
  obtains rss ra where "log_ok crc cfg l d (log_start_offset l) rss ra"
    and "log_records crc cfg l d = concat rss @ ra"
  using assms by (auto simp: log_inv_def log_records_def)

section \<open>Closed segments\<close>

lemma closed_ok_append:
  "closed_ok crc cfg d b (cs @ cs') (rss @ rss') \<longleftrightarrow>
     closed_ok crc cfg d b cs rss \<and> closed_ok crc cfg d (b + length (concat rss)) cs' rss'"
  if "length cs = length rss"
  using that by (induction cs rss arbitrary: b rule: list_induct2) (auto simp: add.assoc)

lemma closed_ok_length: "closed_ok crc cfg d b cs rss \<Longrightarrow> length cs = length rss"
  by (induction crc cfg d b cs rss rule: closed_ok.induct) auto

lemma closed_ok_bases:
  "closed_ok crc cfg d b cs rss \<Longrightarrow>
     (\<forall>e \<in> set cs. b \<le> fst e \<and> fst e < b + length (concat rss)) \<and> bt_wf cs"
proof (induction crc cfg d b cs rss rule: closed_ok.induct)
  case (2 crc cfg d b k s cs rs rss)
  have "0 < length rs" and tl: "closed_ok crc cfg d (b + length rs) cs rss"
    using 2(2) by simp_all
  have ih: "\<forall>e \<in> set cs. b + length rs \<le> fst e \<and> fst e < b + length rs + length (concat rss)"
    and wf: "bt_wf cs" using 2(1) [OF tl] by blast+
  have "\<forall>e \<in> set cs. b < fst e"
  proof
    fix e assume "e \<in> set cs"
    then have "b + length rs \<le> fst e" using ih by blast
    then show "b < fst e" using \<open>0 < length rs\<close> by linarith
  qed
  then show ?case using ih wf 2(2) by auto
qed auto

lemma closed_ok_frame:
  assumes "closed_ok crc cfg d b cs rss"
    and "\<forall>k \<in> fst ` set cs. hm_get d' (log_path k) = hm_get d (log_path k) \<and>
           hm_get d' (index_path k) = hm_get d (index_path k)"
  shows "closed_ok crc cfg d' b cs rss"
  using assms
  by (induction crc cfg d b cs rss rule: closed_ok.induct)
    (auto simp: seg_ok_def log_file_def index_file_def seg_synced_def)

text \<open>Changes to the files of the active segment leave the closed ones alone.\<close>

lemma closed_ok_unchanged:
  assumes "closed_ok crc cfg d b cs rss" and "unchanged_outside P d d'"
    and "\<forall>k < b + length (concat rss). log_path k \<notin> P \<and> index_path k \<notin> P"
  shows "closed_ok crc cfg d' b cs rss"
  using assms(1)
proof (rule closed_ok_frame, intro ballI conjI)
  fix k assume "k \<in> fst ` set cs"
  then have "k < b + length (concat rss)" using closed_ok_bases [OF assms(1)] by auto
  then have "log_path k \<notin> P" and "index_path k \<notin> P" using assms(3) by auto
  then show "hm_get d' (log_path k) = hm_get d (log_path k)"
    and "hm_get d' (index_path k) = hm_get d (index_path k)"
    using assms(2) by (auto intro: unchanged_get)
qed

lemma dir_ok_get:
  "dir_ok bases d \<longleftrightarrow> hm_wf d \<and>
     (\<forall>p. hm_get d p \<noteq> None \<longrightarrow> strip_suffix ''.log'' p \<noteq> None \<longrightarrow> p \<in> log_path ` set bases)"
  by (auto simp: dir_ok_def hm_get_None_iff)

text \<open>A step that writes only files of segments in \<open>bs\<close>.\<close>

lemma dir_ok_step:
  assumes "dir_ok bases d" and "unchanged_outside P d d'"
    and "\<forall>p \<in> P. strip_suffix ''.log'' p \<noteq> None \<longrightarrow> p \<in> log_path ` set bases'"
    and "set bases \<subseteq> set bases'"
  shows "dir_ok bases' d'"
  unfolding dir_ok_get
proof (intro conjI allI impI)
  show "hm_wf d'" using assms(1,2) by (auto simp: dir_ok_def intro: unchanged_wf)
  fix p assume p: "hm_get d' p \<noteq> None" and s: "strip_suffix ''.log'' p \<noteq> None"
  show "p \<in> log_path ` set bases'"
  proof (cases "p \<in> P")
    case True
    then show ?thesis using assms(3) s by blast
  next
    case False
    then have "hm_get d p \<noteq> None" using unchanged_get [OF assms(2)] p by simp
    then show ?thesis using assms(1,4) s unfolding dir_ok_get by blast
  qed
qed

section \<open>Flush, roll and append\<close>

lemma log_okD:
  assumes "log_ok crc cfg l d start rss ra"
  shows "validate cfg = Inr ()" and "closed_ok crc cfg d start (lg_closed l) rss"
    and "sg_base (lg_active l) = start + length (concat rss)"
    and "seg_ok crc cfg d (lg_active l) ra" and "sg_next (lg_active l) < 2 ^ 64"
    and "dir_ok (map fst (lg_closed l) @ [sg_base (lg_active l)]) d"
    and "durable_ok crc d (lg_active l) ra (lg_durable l)"
  using assms unfolding log_ok_def by blast+

lemma active_file:
  assumes "seg_ok crc cfg d s rs"
  obtains f where "hm_get d (log_path (sg_base s)) = Some f" and "f_data f = log_bytes crc rs"
  using assms by (auto simp: seg_ok_def log_file_def split: option.splits)

lemma log_flush_ok:
  assumes ok: "log_ok crc cfg l d start rss ra"
  shows "\<exists>d'. log_flush now (l, d) =
      Inr (checked_pred (log_next_offset l),
           l\<lparr>lg_durable := checked_pred (log_next_offset l), lg_dirty := 0, lg_last_flush := now\<rparr>, d') \<and>
    log_ok crc cfg
      (l\<lparr>lg_durable := checked_pred (log_next_offset l), lg_dirty := 0, lg_last_flush := now\<rparr>) d' start rss ra \<and>
    seg_synced (sg_base (lg_active l)) d'"
proof -
  note a = log_okD [OF ok]
  let ?b = "sg_base (lg_active l)"
  obtain f where f: "hm_get d (log_path ?b) = Some f" "f_data f = log_bytes crc ra"
    using active_file [OF a(4)] .
  obtain d' where d': "seg_flush (lg_active l) d = Inr d'" "seg_ok crc cfg d' (lg_active l) ra"
    "unchanged_outside {log_path ?b} d d'"
    "hm_get d' (log_path ?b) = Some (f\<lparr>f_synced := length (f_data f)\<rparr>)"
    using seg_flush_ok [OF a(4) f(1)] by blast
  have "closed_ok crc cfg d' start (lg_closed l) rss"
    by (rule closed_ok_unchanged [OF a(2) d'(3)]) (use a(3) in auto)
  moreover have "dir_ok (map fst (lg_closed l) @ [?b]) d'"
    by (rule dir_ok_step [OF a(6) d'(3)]) auto
  moreover have "durable_ok crc d' (lg_active l) ra (checked_pred (log_next_offset l))"
    using d'(4) f(2) pos_at_le [of crc] by (auto simp: durable_ok_def checked_pred_def log_next_offset_def)
  moreover have "seg_synced ?b d'" using d'(4) by (simp add: seg_synced_def)
  ultimately show ?thesis
    using a d' by (simp add: log_flush_def log_ok_def log_next_offset_def Let_def)
qed

lemma log_roll_ok:
  assumes ok: "log_ok crc cfg l d start rss ra" and ne: "ra \<noteq> []"
  shows "\<exists>l' d'. log_roll now (l, d) = Inr (l', d') \<and> log_ok crc cfg l' d' start (rss @ [ra]) [] \<and>
    lg_durable l' = checked_pred (log_next_offset l) \<and> log_next_offset l' = log_next_offset l"
proof -
  let ?b = "sg_base (lg_active l)" and ?n = "sg_next (lg_active l)"
  let ?l1 = "l\<lparr>lg_durable := checked_pred (log_next_offset l), lg_dirty := 0, lg_last_flush := now\<rparr>"
  obtain d1 where fl: "log_flush now (l, d) = Inr (checked_pred (log_next_offset l), ?l1, d1)"
    and ok1: "log_ok crc cfg ?l1 d1 start rss ra" and sy: "seg_synced ?b d1"
    using log_flush_ok [OF ok] by blast
  note a = log_okD [OF ok1, simplified]
  have n: "?n = ?b + length ra" and n': "?n = start + length (concat (rss @ [ra]))"
    using a(3,4) by (simp_all add: seg_ok_def)
  have lt: "fst e < ?b" if "e \<in> set (lg_closed l)" for e
    using closed_ok_bases [OF a(2)] that a(3) by auto
  have "log_path ?n \<notin> log_path ` set (map fst (lg_closed l) @ [?b])"
    using lt n ne by fastforce
  then have "hm_get d1 (log_path ?n) = None"
    using a(6) strip_log_path [of ?n] unfolding dir_ok_get by (metis option.distinct(1))
  then obtain s d' where s: "segment_create ?n d1 = Inr (s, d')" "sg_base s = ?n"
    "seg_ok crc cfg d' s []" "unchanged_outside {log_path ?n, index_path ?n} d1 d'"
    using segment_create_ok by blast
  let ?l' = "?l1\<lparr>lg_active := s, lg_closed := lg_closed l @ [(?b, lg_active l)]\<rparr>"
  have roll: "log_roll now (l, d) = Inr (?l', d')"
    using fl s bt_insert_last [of "lg_closed l" ?b "lg_active l"] lt
    by (auto simp: log_roll_def Let_def)
  have c: "closed_ok crc cfg d' start (lg_closed l @ [(?b, lg_active l)]) (rss @ [ra])"
  proof (rule closed_ok_unchanged [OF _ s(4)])
    show "closed_ok crc cfg d1 start (lg_closed l @ [(?b, lg_active l)]) (rss @ [ra])"
      using a(2,3,4) ne sy closed_ok_length [OF a(2)] by (subst closed_ok_append) auto
    show "\<forall>k < start + length (concat (rss @ [ra])).
        log_path k \<notin> {log_path ?n, index_path ?n} \<and> index_path k \<notin> {log_path ?n, index_path ?n}"
      unfolding n' by auto
  qed
  have "dir_ok (map fst (lg_closed l @ [(?b, lg_active l)]) @ [?n]) d'"
    by (rule dir_ok_step [OF a(6) s(4)]) (auto simp: strip_index_path)
  moreover have "durable_ok crc d' s [] (checked_pred (log_next_offset l))"
    using s(2,3) by (auto simp: durable_ok_def checked_pred_def log_next_offset_def seg_ok_def
        log_file_def split: option.splits)
  moreover have "sg_next s = ?n" using s(2,3) by (simp add: seg_ok_def)
  ultimately have "log_ok crc cfg ?l' d' start (rss @ [ra]) []"
    using a c s n' by (simp add: log_ok_def)
  then show ?thesis
    using roll \<open>sg_next s = ?n\<close> by (auto simp: log_next_offset_def)
qed

text \<open>The part of an append after the roll: the active segment has room.\<close>

lemma log_ok_seg_append:
  assumes ok: "log_ok crc cfg l d start rss ra" and r: "encoded_len r \<le> max_record_bytes cfg"
    and off: "unat (lr_offset r) = log_next_offset l" and n: "log_next_offset l + 1 < 2 ^ 64"
    and room: "sg_size (lg_active l) = 0 \<or> sg_size (lg_active l) + encoded_len r \<le> max_segment_bytes cfg"
  shows "\<exists>s' d'. seg_append crc cfg r (lg_active l, d) = Inr (encoded_len r, s', d') \<and>
    log_ok crc cfg (l\<lparr>lg_active := s', lg_dirty := k\<rparr>) d' start rss (ra @ [r]) \<and>
    sg_next s' = log_next_offset l + 1"
proof -
  note a = log_okD [OF ok]
  let ?s = "lg_active l"
  note v = validate_bounds [OF a(1)]
  obtain f where f: "hm_get d (log_path (sg_base ?s)) = Some f" "f_data f = log_bytes crc ra"
    using active_file [OF a(4)] .
  have fit: "fits (max_record_bytes cfg) r" using r v(4) by (simp add: fits_def)
  have sz: "sg_size ?s + encoded_len r < 2 ^ 32" using room r v by auto
  obtain s' d' where s': "seg_append crc cfg r (?s, d) = Inr (encoded_len r, s', d')"
    "sg_base s' = sg_base ?s" "seg_ok crc cfg d' s' (ra @ [r])"
    "unchanged_outside {log_path (sg_base ?s), index_path (sg_base ?s)} d d'"
    "hm_get d' (log_path (sg_base ?s)) = Some (f\<lparr>f_data := f_data f @ encode crc r\<rparr>)"
    using seg_append_ok [OF a(4) fit _ sz f(1)] off by (auto simp: log_next_offset_def)
  have n': "sg_next s' = log_next_offset l + 1"
    using s'(2,3) a(4) by (simp add: seg_ok_def log_next_offset_def)
  have "closed_ok crc cfg d' start (lg_closed l) rss"
    by (rule closed_ok_unchanged [OF a(2) s'(4)]) (use a(3) in auto)
  moreover have "dir_ok (map fst (lg_closed l) @ [sg_base ?s]) d'"
    by (rule dir_ok_step [OF a(6) s'(4)]) (auto simp: strip_index_path)
  moreover have "durable_ok crc d' s' (ra @ [r]) (lg_durable l)"
  proof (cases "lg_durable l")
    case (Some k)
    then have k: "k < sg_next ?s" "pos_at crc ra (k + 1 - sg_base ?s) \<le> f_synced f"
      using a(7) f by (auto simp: durable_ok_def)
    have "k + 1 - sg_base ?s \<le> length ra" using k(1) a(4) by (simp add: seg_ok_def)
    then show ?thesis using Some k s'(2,5) n' by (simp add: durable_ok_def log_next_offset_def)
  qed (simp add: durable_ok_def)
  ultimately show ?thesis using a s' n n' by (auto simp: log_ok_def)
qed

text \<open>An append adds the record at the end, whatever rolls and flushes happen on the way.\<close>

lemma append_record_ok:
  assumes ok: "log_ok crc cfg l d start rss ra" and r: "encoded_len r \<le> max_record_bytes cfg"
    and off: "unat (lr_offset r) = log_next_offset l" and n: "log_next_offset l + 1 < 2 ^ 64"
  shows "\<exists>l' d' rss' ra'. append_record crc cfg now r (l, d) =
      Inr ((log_next_offset l, lg_durable l'), l', d') \<and>
    log_ok crc cfg l' d' start rss' ra' \<and> concat rss' @ ra' = concat rss @ ra @ [r] \<and>
    log_next_offset l' = log_next_offset l + 1 \<and>
    (fsync cfg = Always \<longrightarrow> lg_durable l' = Some (log_next_offset l))"
proof -
  let ?roll = "sg_size (lg_active l) > 0 \<and>
    sg_size (lg_active l) + encoded_len r > max_segment_bytes cfg"
  obtain l1 d1 rss1 ra1 where
    st1: "(if ?roll then log_roll now (l, d) else Inr (l, d)) = Inr (l1, d1)"
    and ok1: "log_ok crc cfg l1 d1 start rss1 ra1" and eq1: "concat rss1 @ ra1 = concat rss @ ra"
    and n1: "log_next_offset l1 = log_next_offset l"
    and room: "sg_size (lg_active l1) = 0 \<or> sg_size (lg_active l1) + encoded_len r \<le> max_segment_bytes cfg"
  proof (cases ?roll)
    case True
    then have "ra \<noteq> []" using log_okD(4) [OF ok] by (auto simp: seg_ok_def)
    then obtain l' d' where "log_roll now (l, d) = Inr (l', d')"
      "log_ok crc cfg l' d' start (rss @ [ra]) []" "log_next_offset l' = log_next_offset l"
      using log_roll_ok [OF ok] by blast
    moreover from this have "sg_size (lg_active l') = 0"
      using log_okD(4) by (fastforce simp: seg_ok_def)
    ultimately show ?thesis using that True by auto
  next
    case False
    then show ?thesis using that ok by auto
  qed
  have "unat (lr_offset r) = log_next_offset l1" "log_next_offset l1 + 1 < 2 ^ 64"
    using off n n1 by simp_all
  then obtain s2 d2 where
    st2: "seg_append crc cfg r (lg_active l1, d1) = Inr (encoded_len r, s2, d2)"
    and ok2: "log_ok crc cfg (l1\<lparr>lg_active := s2, lg_dirty := lg_dirty l1 + encoded_len r\<rparr>) d2 start
      rss1 (ra1 @ [r])"
    and n2: "sg_next s2 = log_next_offset l + 1"
    using log_ok_seg_append [OF ok1 r _ _ room] n1 by fastforce
  let ?l2 = "l1\<lparr>lg_active := s2, lg_dirty := lg_dirty l1 + encoded_len r\<rparr>"
  let ?l3 = "?l2\<lparr>lg_durable := checked_pred (log_next_offset ?l2), lg_dirty := 0, lg_last_flush := now\<rparr>"
  obtain d3 where fl: "log_flush now (?l2, d2) = Inr (checked_pred (log_next_offset ?l2), ?l3, d3)"
    and ok3: "log_ok crc cfg ?l3 d3 start rss1 (ra1 @ [r])"
    using log_flush_ok [OF ok2, of now] by blast
  obtain l4 d4 where
    st4: "(case fsync cfg of
             Always \<Rightarrow> bind_r (log_flush now (?l2, d2)) (\<lambda>(_, l, d). Inr (l, d))
           | Batch max_bytes max_ms \<Rightarrow>
               if lg_dirty ?l2 \<ge> max_bytes \<or> now - lg_last_flush ?l2 \<ge> max_ms
               then bind_r (log_flush now (?l2, d2)) (\<lambda>(_, l, d). Inr (l, d))
               else Inr (?l2, d2)
           | OsDecides \<Rightarrow> Inr (?l2, d2)) = Inr (l4, d4)"
    and ok4: "log_ok crc cfg l4 d4 start rss1 (ra1 @ [r])"
    and d4: "fsync cfg = Always \<longrightarrow> lg_durable l4 = Some (log_next_offset l)"
  proof (cases "fsync cfg = Always \<or> (\<exists>b m. fsync cfg = Batch b m \<and>
        (lg_dirty ?l2 \<ge> b \<or> now - lg_last_flush ?l2 \<ge> m))")
    case True
    have "lg_durable ?l3 = Some (log_next_offset l)"
      using n2 by (simp add: checked_pred_def log_next_offset_def)
    then show ?thesis
      using True fl ok3 by (intro that [of ?l3 d3]) auto
  next
    case False
    then show ?thesis
      using ok2 by (intro that [of ?l2 d2]) (auto split: fsync_policy.splits)
  qed
  have "append_record crc cfg now r (l, d) = Inr ((log_next_offset l, lg_durable l4), l4, d4)"
    unfolding append_record_def Let_def
    using st1 st2 st4 r off by simp
  moreover have "concat rss1 @ ra1 @ [r] = concat rss @ ra @ [r]"
    using eq1 by (metis append.assoc)
  moreover have "log_next_offset l4 = log_next_offset l + 1"
    using log_ok_abs(6) [OF ok4] log_ok_abs(6) [OF ok1] n1 by simp
  ultimately show ?thesis using ok4 d4 by blast
qed

end
