(* ===== verification/LogRecovery.thy ===== *)
theory LogRecovery
  imports PartitionLogFacts
begin

text \<open>
  Reading, truncating and reopening a partition's log: a read is a non-empty run of the records
  from its offset, a truncation keeps exactly a prefix, and opening the directory a crash has
  left finds a prefix of the records that holds everything up to the durable offset.
\<close>

section \<open>Finding the segment of an offset\<close>

lemma closed_ok_split:
  assumes "closed_ok crc cfg d b cs rss" and "b \<le> offset" and "offset < b + length (concat rss)"
  shows "\<exists>cs1 s cs2 rss1 rs rss2. cs = cs1 @ (sg_base s, s) # cs2 \<and> rss = rss1 @ rs # rss2 \<and>
    length cs1 = length rss1 \<and> sg_base s = b + length (concat rss1) \<and> seg_ok crc cfg d s rs \<and>
    sg_base s \<le> offset \<and> offset < sg_base s + length rs"
  using assms
proof (induction crc cfg d b cs rss rule: closed_ok.induct)
  case (2 crc cfg d b k s cs rs rss)
  have p: "k = b" "sg_base s = b" "seg_ok crc cfg d s rs"
    and tl: "closed_ok crc cfg d (b + length rs) cs rss"
    using 2(2) by simp_all
  show ?case
  proof (cases "offset < b + length rs")
    case True
    then show ?thesis using p 2(3)
      by (intro exI [of _ "[]"] exI [of _ s] exI [of _ cs] exI [of _ "[]"] exI [of _ rs] exI [of _ rss])
        simp
  next
    case False
    then obtain cs1 s' cs2 rss1 rs' rss2 where "cs = cs1 @ (sg_base s', s') # cs2"
      "rss = rss1 @ rs' # rss2" "length cs1 = length rss1"
      "sg_base s' = b + length rs + length (concat rss1)" "seg_ok crc cfg d s' rs'"
      "sg_base s' \<le> offset" "offset < sg_base s' + length rs'"
      using 2(1) [OF tl] 2(4) by auto
    then show ?thesis using p
      by (intro exI [of _ "(k, s) # cs1"] exI [of _ s'] exI [of _ cs2] exI [of _ "rs # rss1"]
          exI [of _ rs'] exI [of _ rss2]) simp
  qed
qed simp_all

lemma bt_wf_split:
  assumes "bt_wf (cs1 @ e # cs2)"
  shows "\<forall>x \<in> set cs1. fst x < fst e" and "\<forall>x \<in> set cs2. fst e < fst x"
  using assms by (auto simp: sorted_wrt_append)

lemma last_filter_split:
  assumes "P e" and "\<forall>x \<in> set cs2. \<not> P x"
  shows "filter P (cs1 @ e # cs2) \<noteq> [] \<and> last (filter P (cs1 @ e # cs2)) = e"
proof -
  have "filter P cs2 = []" using assms(2) by (simp add: filter_empty_conv)
  then show ?thesis using assms(1) by simp
qed

lemma closed_log_files:
  "closed_ok crc cfg d b cs rss \<Longrightarrow> k \<in> fst ` set cs \<Longrightarrow> hm_get d (log_path k) \<noteq> None"
  by (induction crc cfg d b cs rss rule: closed_ok.induct)
    (auto simp: seg_synced_def split: option.splits)

section \<open>Reading\<close>

lemma log_read_ok:
  assumes ok: "log_ok crc cfg l d start rss ra"
    and off: "start \<le> offset" "offset < log_next_offset l"
  shows "\<exists>k > 0. log_read crc cfg offset max_bytes (l, d) =
    Inr (take k (drop (offset - start) (concat rss @ ra)))"
proof -
  note a = log_okD [OF ok] and abs = log_ok_abs [OF ok]
  show ?thesis
  proof (cases "sg_base (lg_active l) \<le> offset")
    case True
    have "log_read crc cfg offset max_bytes (l, d) =
        Inr (batch_of max_bytes (drop (offset - sg_base (lg_active l)) ra))"
      using True off abs(1) read_from_ok [OF a(4) True] by (simp add: log_read_def log_next_offset_def)
    moreover have "drop (offset - sg_base (lg_active l)) ra = drop (offset - start) (concat rss @ ra)"
    proof -
      have "offset - start = length (concat rss) + (offset - sg_base (lg_active l))"
        using True a(3) by simp
      then show ?thesis by simp
    qed
    moreover have "offset - start < length (concat rss @ ra)" using off abs(6) by simp
    ultimately show ?thesis
      using batch_of_prefix [of max_bytes "drop (offset - start) (concat rss @ ra)"] by auto
  next
    case False
    then have "offset < start + length (concat rss)" using a(3) by simp
    then obtain cs1 s cs2 rss1 rs rss2 where
      cs: "lg_closed l = cs1 @ (sg_base s, s) # cs2" and rss: "rss = rss1 @ rs # rss2"
      and b: "sg_base s = start + length (concat rss1)" and s: "seg_ok crc cfg d s rs"
      and o: "sg_base s \<le> offset" "offset < sg_base s + length rs"
      and len: "length cs1 = length rss1"
      using closed_ok_split [OF a(2) off(1)] by blast
    have wf: "bt_wf (cs1 @ (sg_base s, s) # cs2)" using closed_ok_bases [OF a(2)] cs by simp
    have "closed_ok crc cfg d (start + length (concat rss1) + length rs) cs2 rss2"
      using a(2) unfolding cs rss by (subst (asm) closed_ok_append) (use len in auto)
    then have "\<forall>x \<in> set cs2. \<not> fst x \<le> offset"
      using closed_ok_bases o(2) b by fastforce
    then have "bt_last_upto offset (lg_closed l) = Some (sg_base s, s)"
      using last_filter_split [of "\<lambda>e. fst e \<le> offset" "(sg_base s, s)" cs2 cs1] o(1) cs
      by (simp add: bt_last_upto_def Let_def)
    moreover have "sg_next s = sg_base s + length rs" using s by (simp add: seg_ok_def)
    ultimately have rd: "log_read crc cfg offset max_bytes (l, d) =
        Inr (batch_of max_bytes (drop (offset - sg_base s) rs))"
      using False off abs(1) o read_from_ok [OF s] by (simp add: log_read_def)
    obtain k where k: "batch_of max_bytes (drop (offset - sg_base s) rs) =
        take k (drop (offset - sg_base s) rs)" "0 < k"
      using batch_of_prefix [of max_bytes "drop (offset - sg_base s) rs"] o by auto
    let ?k = "min k (length rs - (offset - sg_base s))"
    have "take k (drop (offset - sg_base s) rs) = take ?k (drop (offset - sg_base s) rs)"
      by (simp add: min_def)
    also have "\<dots> = take ?k (drop (offset - start) (concat rss @ ra))"
    proof -
      have "offset - start = length (concat rss1) + (offset - sg_base s)" using b o by simp
      then have "drop (offset - start) (concat rss @ ra) =
          drop (offset - sg_base s) rs @ concat rss2 @ ra"
        using o by (simp add: rss)
      then show ?thesis by simp
    qed
    finally show ?thesis using rd k o by (intro exI [of _ ?k]) simp
  qed
qed

lemma log_read_end:
  assumes ok: "log_ok crc cfg l d start rss ra"
  shows "log_read crc cfg (log_next_offset l) max_bytes (l, d) = Inr []"
    and "offset < start \<or> log_next_offset l < offset \<Longrightarrow>
      log_read crc cfg offset max_bytes (l, d) = Inl (OutOfRange offset)"
  using log_ok_abs(1,6) [OF ok] by (auto simp: log_read_def)

section \<open>Opening after a crash\<close>

lemma segment_bases_ok:
  assumes "\<forall>p \<in> set names. strip_suffix ''.log'' p \<noteq> None \<longrightarrow> (\<exists>b < 2 ^ 64. p = log_path b)"
  shows "\<exists>bs. segment_bases names = Inr bs \<and>
    map log_path bs = filter (\<lambda>p. strip_suffix ''.log'' p \<noteq> None) names"
  using assms
proof (induction names)
  case (Cons p names)
  then obtain bs where bs: "segment_bases names = Inr bs"
    "map log_path bs = filter (\<lambda>p. strip_suffix ''.log'' p \<noteq> None) names" by auto
  show ?case
  proof (cases "strip_suffix ''.log'' p")
    case None
    then show ?thesis using bs by simp
  next
    case (Some stem)
    then obtain b where b: "b < 2 ^ 64" "p = log_path b" using Cons.prems by auto
    then have "strip_suffix ''.log'' p = Some (pad20 (show_nat b))" by (simp add: strip_log_path)
    then show ?thesis using bs b by (intro exI [of _ "b # bs"]) simp
  qed
qed simp

lemma segment_bases_sorted:
  assumes dir: "dir_ok bases d" and srt: "sorted_wrt (<) bases" and lt: "\<forall>b \<in> set bases. b < 2 ^ 64"
    and ex: "\<forall>b \<in> set bases. hm_get d (log_path b) \<noteq> None"
  shows "\<exists>bs. segment_bases (map fst d) = Inr bs \<and> sort bs = bases"
proof -
  let ?names = "map fst d" and ?P = "\<lambda>p. strip_suffix ''.log'' p \<noteq> None"
  have "\<forall>p \<in> set ?names. ?P p \<longrightarrow> (\<exists>b < 2 ^ 64. p = log_path b)"
    using dir lt by (fastforce simp: dir_ok_def)
  then obtain bs where bs: "segment_bases ?names = Inr bs" "map log_path bs = filter ?P ?names"
    using segment_bases_ok by blast
  have "distinct (map log_path bs)" unfolding bs(2) using dir by (simp add: dir_ok_def)
  then have d: "distinct bs" by (simp add: distinct_map)
  have "log_path ` set bs = {p \<in> set ?names. ?P p}" using bs(2) by (metis list.set_map set_filter)
  also have "\<dots> = log_path ` set bases"
  proof
    show "{p \<in> set ?names. ?P p} \<subseteq> log_path ` set bases" using dir by (auto simp: dir_ok_def)
    show "log_path ` set bases \<subseteq> {p \<in> set ?names. ?P p}"
    proof
      fix p assume "p \<in> log_path ` set bases"
      then obtain b where "b \<in> set bases" and p: "p = log_path b" by blast
      then have "p \<in> fst ` set d" using ex by (metis hm_get_None_iff)
      then show "p \<in> {p \<in> set ?names. ?P p}" using p by (simp add: strip_log_path)
    qed
  qed
  finally have "set bs = set bases" by (simp add: inj_image_eq_iff inj_def)
  moreover have "sorted bases" and "distinct bases"
    using srt by (simp_all add: strict_sorted_iff)
  ultimately have "sort bs = bases"
    using d by (intro sorted_distinct_set_unique) simp_all
  then show ?thesis using bs(1) by blast
qed

text \<open>
  Rolled segments as a crash leaves them: the log files whole, and of each index file some
  prefix.
\<close>

fun crashed_ok ::
    "(bytes \<Rightarrow> u32) \<Rightarrow> log_config \<Rightarrow> disk \<Rightarrow> nat \<Rightarrow> nat list \<Rightarrow> log_record list list \<Rightarrow> bool" where
  "crashed_ok crc cfg d b [] [] \<longleftrightarrow> True"
| "crashed_ok crc cfg d b (k # ks) (rs # rss) \<longleftrightarrow>
     k = b \<and> rs \<noteq> [] \<and> log_file crc b rs d \<and> seg_synced b d \<and> all_fit cfg rs \<and> numbered b rs \<and>
     length (log_bytes crc rs) < 2 ^ 32 \<and>
     (\<exists>g n es. hm_get d (index_path b) = Some g \<and> f_data g = take n (concat (map entry_bytes es)) \<and>
        index_ok crc rs es) \<and>
     crashed_ok crc cfg d (b + length rs) ks rss"
| "crashed_ok crc cfg d b _ _ \<longleftrightarrow> False"

lemma crashed_ok_frame:
  assumes "crashed_ok crc cfg d b ks rss" and "unchanged_outside P d d'"
    and "\<forall>k \<ge> b. log_path k \<notin> P \<and> index_path k \<notin> P"
  shows "crashed_ok crc cfg d' b ks rss"
  using assms
proof (induction crc cfg d b ks rss rule: crashed_ok.induct)
  case (2 crc cfg d b k ks rs rss)
  have "hm_get d' (log_path b) = hm_get d (log_path b)" "hm_get d' (index_path b) = hm_get d (index_path b)"
    using 2(3,4) by (auto intro: unchanged_get)
  moreover have "crashed_ok crc cfg d' (b + length rs) ks rss" using 2 by auto
  ultimately show ?case using 2(2) by (auto simp: log_file_def seg_synced_def)
qed auto

lemma crash_file_whole: "crash_file f f' \<Longrightarrow> f_synced f = length (f_data f) \<Longrightarrow> f' = f"
  by (cases f) (auto simp: crash_file_def)

lemma crash_disk_whole:
  assumes "crash_disk d d'" and "hm_get d p = Some f" and "f_synced f = length (f_data f)"
  shows "hm_get d' p = Some f"
  using crash_disk_get [OF assms(1,2)] crash_file_whole [OF _ assms(3)] by auto

lemma crashed_ok_crash:
  assumes "closed_ok crc cfg d b cs rss" and "crash_disk d d'"
  shows "crashed_ok crc cfg d' b (map fst cs) rss"
  using assms
proof (induction crc cfg d b cs rss rule: closed_ok.induct)
  case (2 crc cfg d b k s cs rs rss)
  have s: "k = b" "sg_base s = b" "rs \<noteq> []" "seg_ok crc cfg d s rs" "seg_synced b d"
    and tl: "closed_ok crc cfg d (b + length rs) cs rss"
    using 2(2) by simp_all
  obtain f where f: "hm_get d (log_path b) = Some f" "f_data f = log_bytes crc rs"
    using active_file [OF s(4)] s(2) by blast
  have "f_synced f = length (f_data f)" using s(5) f by (simp add: seg_synced_def)
  then have f': "hm_get d' (log_path b) = Some f" by (rule crash_disk_whole [OF 2(3) f(1)])
  obtain g where g: "hm_get d (index_path b) = Some g" "f_data g = concat (map entry_bytes (sg_index s))"
    using s(2,4) by (auto simp: seg_ok_def index_file_def split: option.splits)
  obtain g' where g': "hm_get d' (index_path b) = Some g'" "crash_file g g'"
    using crash_disk_get [OF 2(3) g(1)] by blast
  obtain n where "f_data g' = take n (concat (map entry_bytes (sg_index s)))"
    using g' g(2) by (auto simp: crash_file_def)
  moreover have "index_ok crc rs (sg_index s)" using s(4) by (simp add: seg_ok_def)
  moreover have "crashed_ok crc cfg d' (b + length rs) (map fst cs) rss" by (rule 2(1) [OF tl 2(3)])
  moreover have "all_fit cfg rs" "numbered b rs" "length (log_bytes crc rs) < 2 ^ 32"
    using s by (auto simp: seg_ok_def)
  moreover have "log_file crc b rs d'" "seg_synced b d'"
    using f f' \<open>f_synced f = length (f_data f)\<close> by (simp_all add: log_file_def seg_synced_def)
  ultimately show ?case using s(1,3) g'(1) by auto
qed auto

text \<open>The loop of \<open>Log::open\<close> over the segments that are left.\<close>

lemma open_loop_ok:
  assumes "closed_ok crc cfg d start done rsd" and "b = start + length (concat rsd)"
    and "crashed_ok crc cfg d b ks rss" and "newest = b + length (concat rss)"
    and "hm_get d (log_path newest) = Some f" and "f_data f = log_bytes crc ra @ tail"
    and "all_fit cfg ra" and "numbered newest ra" and "length (log_bytes crc ra) < 2 ^ 32"
    and "stops crc (max_record_bytes cfg) tail" and "expect = None \<or> expect = Some b"
  shows "\<exists>cs' act d'. open_loop crc cfg newest (ks @ [newest]) expect done None d =
      Inr (cs', Some act, d') \<and>
    closed_ok crc cfg d' start cs' (rsd @ rss) \<and> map fst cs' = map fst done @ ks \<and>
    sg_base act = newest \<and> seg_ok crc cfg d' act ra \<and>
    unchanged_outside (range index_path \<union> {log_path newest}) d d' \<and>
    hm_get d' (log_path newest) =
      Some (if tail = [] then f
            else \<lparr>f_data = log_bytes crc ra, f_synced = length (log_bytes crc ra)\<rparr>)"
  using assms
proof (induction ks arbitrary: rss d "done" rsd b expect)
  case Nil
  then have rss: "rss = []" by (cases rss) auto
  then have b: "newest = b" using Nil.prems(4) by simp
  obtain s d' where s: "recover crc cfg newest True d = Inr (s, d')" "sg_base s = newest"
    "seg_ok crc cfg d' s ra" "unchanged_outside {log_path newest, index_path newest} d d'"
    "hm_get d' (log_path newest) =
      Some (if tail = [] then f
            else \<lparr>f_data = log_bytes crc ra, f_synced = length (log_bytes crc ra)\<rparr>)"
    using recover_newest [OF Nil.prems(5-9,10)] by blast
  have "closed_ok crc cfg d' start done rsd"
    by (rule closed_ok_unchanged [OF Nil.prems(1) s(4)]) (use Nil.prems(2) b in auto)
  moreover have "unchanged_outside (range index_path \<union> {log_path newest}) d d'"
    by (rule unchanged_mono [OF s(4)]) auto
  ultimately show ?case using s rss b Nil.prems(11) by auto
next
  case (Cons k ks)
  then obtain rs rss' where rss: "rss = rs # rss'" by (cases rss) auto
  have c: "k = b" "rs \<noteq> []" "log_file crc b rs d" "seg_synced b d" "all_fit cfg rs" "numbered b rs"
    "length (log_bytes crc rs) < 2 ^ 32" and tl: "crashed_ok crc cfg d (b + length rs) ks rss'"
    using Cons.prems(3) rss by auto
  obtain g n es where g: "hm_get d (index_path b) = Some g"
    "f_data g = take n (concat (map entry_bytes es))" "index_ok crc rs es"
    using Cons.prems(3) rss by auto
  obtain s d1 where s: "recover crc cfg b False d = Inr (s, d1)" "sg_base s = b"
    "seg_ok crc cfg d1 s rs" "unchanged_outside {index_path b} d d1"
    using recover_rolled [OF c(3,5,6,7) g] by blast
  have keys: "\<forall>e \<in> set done. fst e < b"
    using closed_ok_bases [OF Cons.prems(1)] Cons.prems(2) by auto
  have ne: "b \<noteq> newest" using Cons.prems(4) rss c(2) by simp
  have nx: "sg_next s = b + length rs" using s(2,3) by (simp add: seg_ok_def)
  have step: "open_loop crc cfg newest ((k # ks) @ [newest]) expect done None d =
      open_loop crc cfg newest (ks @ [newest]) (Some (b + length rs)) (done @ [(b, s)]) None d1"
    using s(1) c(1) ne nx Cons.prems(11) bt_insert_last [OF keys] by auto
  have d1: "closed_ok crc cfg d1 start done rsd"
    by (rule closed_ok_unchanged [OF Cons.prems(1) s(4)]) (use Cons.prems(2) in auto)
  have "seg_synced b d1"
    using c(4) unchanged_get [OF s(4), of "log_path b"] by (simp add: seg_synced_def)
  then have done1: "closed_ok crc cfg d1 start (done @ [(b, s)]) (rsd @ [rs])"
    using d1 s c(2) Cons.prems(2) closed_ok_length [OF d1] by (subst closed_ok_append) auto
  have tl1: "crashed_ok crc cfg d1 (b + length rs) ks rss'"
    by (rule crashed_ok_frame [OF tl s(4)]) (use c(2) in auto)
  have f1: "hm_get d1 (log_path newest) = Some f"
    using Cons.prems(5) unchanged_get [OF s(4)] by simp
  have b1: "b + length rs = start + length (concat (rsd @ [rs]))"
    and n1: "newest = b + length rs + length (concat rss')"
    using Cons.prems(2,4) rss by simp_all
  obtain cs' act d' where ih:
    "open_loop crc cfg newest (ks @ [newest]) (Some (b + length rs)) (done @ [(b, s)]) None d1 =
      Inr (cs', Some act, d')"
    "closed_ok crc cfg d' start cs' ((rsd @ [rs]) @ rss')"
    "map fst cs' = map fst (done @ [(b, s)]) @ ks"
    "sg_base act = newest" "seg_ok crc cfg d' act ra"
    "unchanged_outside (range index_path \<union> {log_path newest}) d1 d'"
    "hm_get d' (log_path newest) =
      Some (if tail = [] then f
            else \<lparr>f_data = log_bytes crc ra, f_synced = length (log_bytes crc ra)\<rparr>)"
    using Cons.IH [OF done1 b1 tl1 n1 f1 Cons.prems(6-10) disjI2 [OF refl]] by blast
  have "unchanged_outside (range index_path \<union> {log_path newest}) d d1"
    by (rule unchanged_mono [OF s(4)]) auto
  then have "unchanged_outside (range index_path \<union> {log_path newest}) d d'"
    using ih(6) by (rule unchanged_trans_same)
  then show ?case using step ih rss c(1) by auto
qed

lemma log_open_crash:
  assumes ok: "log_ok crc cfg l d start rss ra" and crash: "crash_disk d d'"
  shows "\<exists>l' d'' k. log_open crc cfg now d' = Inr (l', d'') \<and> k \<le> length ra \<and>
    log_ok crc cfg l' d'' start rss (take k ra) \<and>
    (\<forall>j. lg_durable l = Some j \<longrightarrow> j < log_next_offset l') \<and>
    lg_durable l' = checked_pred (log_next_offset l')"
proof -
  note a = log_okD [OF ok]
  let ?b = "sg_base (lg_active l)" and ?bases = "map fst (lg_closed l) @ [sg_base (lg_active l)]"
  obtain f where f: "hm_get d (log_path ?b) = Some f" "f_data f = log_bytes crc ra"
    using active_file [OF a(4)] .
  obtain f' where f': "hm_get d' (log_path ?b) = Some f'" "crash_file f f'"
    using crash_disk_get [OF crash f(1)] by blast
  obtain n where n: "f_synced f \<le> n" "n \<le> length (f_data f)"
    "f' = \<lparr>f_data = take n (f_data f), f_synced = n\<rparr>"
    using f'(2) by (auto simp: crash_file_def)
  have ra: "all_fit cfg ra" "numbered ?b ra" "length (log_bytes crc ra) < 2 ^ 32"
    using a(4) by (auto simp: seg_ok_def)
  obtain k tail where k: "take n (log_bytes crc ra) = log_bytes crc (take k ra) @ tail" "k \<le> length ra"
    "stops crc (max_record_bytes cfg) tail" "\<forall>j \<le> length ra. pos_at crc ra j \<le> n \<longrightarrow> j \<le> k"
    using torn_log [OF ra(1)] by blast
  have cr: "crashed_ok crc cfg d' start (map fst (lg_closed l)) rss"
    by (rule crashed_ok_crash [OF a(2) crash])
  have small: "length (log_bytes crc (take k ra)) < 2 ^ 32"
    using ra(3) pos_at_le [of crc k ra] by simp
  have fd: "f_data f' = log_bytes crc (take k ra) @ tail" using n(3) f(2) k(1) by simp
  have c0: "closed_ok crc cfg d' start [] []" and b0: "start = start + length (concat [])" by simp_all
  obtain cs' act d'' where op:
    "open_loop crc cfg ?b ?bases None [] None d' = Inr (cs', Some act, d'')"
    "closed_ok crc cfg d'' start cs' rss" "map fst cs' = map fst (lg_closed l)"
    "sg_base act = ?b" "seg_ok crc cfg d'' act (take k ra)"
    "unchanged_outside (range index_path \<union> {log_path ?b}) d' d''"
    "hm_get d'' (log_path ?b) = Some (if tail = [] then f'
       else \<lparr>f_data = log_bytes crc (take k ra), f_synced = length (log_bytes crc (take k ra))\<rparr>)"
  proof -
    note open_loop_ok [OF c0 b0 cr a(3) f'(1) fd all_fit_take [OF ra(1)] numbered_take [OF ra(2)]
        small k(3) disjI1 [OF refl], unfolded append_Nil list.map(1)]
    then show thesis by (elim exE conjE) (rule that)
  qed
  have keys: "map fst d' = map fst d" by (rule crash_disk_keys [OF crash])
  then have "fst ` set d' = fst ` set d" by (metis list.set_map)
  then have dir': "dir_ok ?bases d'" using a(6) unfolding dir_ok_def keys by simp
  have srt: "sorted_wrt (<) ?bases" and lt: "\<forall>b \<in> set ?bases. b < 2 ^ 64"
  proof -
    have bs: "\<forall>e \<in> set (lg_closed l). fst e < ?b" "bt_wf (lg_closed l)"
      using closed_ok_bases [OF a(2)] a(3) by auto
    then show "sorted_wrt (<) ?bases" by (auto simp: sorted_wrt_append)
    have "?b \<le> sg_next (lg_active l)" using a(4) by (simp add: seg_ok_def)
    then show "\<forall>b \<in> set ?bases. b < 2 ^ 64" using bs(1) a(5) by fastforce
  qed
  have ex: "\<forall>b \<in> set ?bases. hm_get d' (log_path b) \<noteq> None"
  proof
    fix b assume "b \<in> set ?bases"
    then have "hm_get d (log_path b) \<noteq> None"
      using f(1) closed_log_files [OF a(2)] by auto
    then show "hm_get d' (log_path b) \<noteq> None"
      unfolding hm_get_None_iff using keys by (metis list.set_map)
  qed
  obtain bs where bs: "segment_bases (map fst d') = Inr bs" "sort bs = ?bases"
    using segment_bases_sorted [OF dir' srt lt ex] by blast
  let ?l' = "\<lparr>lg_closed = cs', lg_active = act, lg_durable = checked_pred (sg_next act), lg_dirty = 0,
              lg_last_flush = now\<rparr>"
  have "log_open crc cfg now d' = Inr (?l', d'')"
    using a(1) bs op(1) by (simp add: log_open_def Let_def)
  moreover have nx: "sg_next act = ?b + k" using op(4,5) k(2) by (simp add: seg_ok_def min.absorb2)
  moreover have "log_ok crc cfg ?l' d'' start rss (take k ra)"
  proof -
    have "sg_next act \<le> sg_next (lg_active l)" using nx a(4) k(2) by (simp add: seg_ok_def)
    then have "sg_next act < 2 ^ 64" using a(5) by simp
    moreover have "dir_ok (map fst cs' @ [sg_base act]) d''"
      unfolding op(3,4) by (rule dir_ok_step [OF dir' op(6)]) (auto simp: strip_index_path)
    moreover have "durable_ok crc d'' act (take k ra) (checked_pred (sg_next act))"
    proof (cases "tail = []")
      case True
      have "length (take n (log_bytes crc ra)) = n" using n(2) f(2) by simp
      then have "f_synced f' = length (log_bytes crc (take k ra))"
        using n(3) k(1) True by simp
      then show ?thesis
        using op(4,7) True pos_at_le [of crc _ "take k ra"] by (auto simp: durable_ok_def checked_pred_def)
    next
      case False
      then show ?thesis
        using op(4,7) pos_at_le [of crc _ "take k ra"] by (auto simp: durable_ok_def checked_pred_def)
    qed
    ultimately show ?thesis using a(1,3) op by (simp add: log_ok_def)
  qed
  moreover have "j < log_next_offset ?l'" if "lg_durable l = Some j" for j
  proof -
    have j: "j < sg_next (lg_active l)" "pos_at crc ra (j + 1 - ?b) \<le> f_synced f"
      using a(7) that f(1) by (auto simp: durable_ok_def)
    then have "j + 1 - ?b \<le> k" using k(4) n(1) a(4) by (auto simp: seg_ok_def)
    then show ?thesis using nx by (simp add: log_next_offset_def)
  qed
  ultimately show ?thesis using k(2) by (auto simp: log_next_offset_def)
qed

text \<open>Opening an empty directory creates the first segment.\<close>

lemma log_open_fresh:
  assumes v: "validate cfg = Inr ()" and d: "hm_wf d"
    and none: "\<forall>p \<in> fst ` set d. strip_suffix ''.log'' p = None"
  shows "\<exists>l d'. log_open crc cfg now d = Inr (l, d') \<and> log_ok crc cfg l d' 0 [] [] \<and> lg_durable l = None"
proof -
  have "segment_bases names = Inr []" if "\<forall>p \<in> set names. strip_suffix ''.log'' p = None" for names
    using that by (induction names) auto
  then have bases: "segment_bases (map fst d) = Inr []" using none by auto
  have "hm_get d (log_path 0) = None"
    unfolding hm_get_None_iff using none strip_log_path [of 0] by force
  then obtain s d' where s: "segment_create 0 d = Inr (s, d')" "sg_base s = 0" "seg_ok crc cfg d' s []"
    "unchanged_outside {log_path 0, index_path 0} d d'"
    using segment_create_ok by blast
  have "dir_ok [] d" using d none by (auto simp: dir_ok_def)
  then have "dir_ok [0] d'" by (rule dir_ok_step [OF _ s(4)]) (auto simp: strip_index_path)
  then have "log_ok crc cfg \<lparr>lg_closed = [], lg_active = s, lg_durable = None, lg_dirty = 0,
      lg_last_flush = now\<rparr> d' 0 [] []"
    using v s by (simp add: log_ok_def durable_ok_def seg_ok_def)
  then show ?thesis using v bases s(1) by (simp add: log_open_def Let_def)
qed

section \<open>Truncating the tail\<close>

lemma path_images [simp]:
  "log_path k \<in> log_path ` A \<longleftrightarrow> k \<in> A" "index_path k \<in> index_path ` A \<longleftrightarrow> k \<in> A"
  "log_path k \<notin> index_path ` A" "index_path k \<notin> log_path ` A"
  by auto

lemma remove_doomed_ok:
  assumes "distinct ks" and "\<forall>k \<in> set ks. hm_get d (log_path k) \<noteq> None \<and> hm_get d (index_path k) \<noteq> None"
  shows "\<exists>d'. remove_doomed ks (cs, d) = Inr (filter (\<lambda>e. fst e \<notin> set ks) cs, d') \<and>
    unchanged_outside (log_path ` set ks \<union> index_path ` set ks) d d' \<and>
    (\<forall>k \<in> set ks. hm_get d' (log_path k) = None)"
  using assms
proof (induction ks arbitrary: cs d)
  case (Cons k ks)
  let ?d1 = "hm_remove (index_path k) (hm_remove (log_path k) d)"
  have r: "remove_segment_files k d = Inr ?d1"
    using Cons.prems(2) by (simp add: remove_segment_files_def fs_remove_def fs_exists_def)
  have "\<forall>j \<in> set ks. hm_get ?d1 (log_path j) \<noteq> None \<and> hm_get ?d1 (index_path j) \<noteq> None"
    using Cons.prems by auto
  then obtain d' where ih: "remove_doomed ks (bt_remove k cs, ?d1) =
      Inr (filter (\<lambda>e. fst e \<notin> set ks) (bt_remove k cs), d')"
    "unchanged_outside (log_path ` set ks \<union> index_path ` set ks) ?d1 d'"
    "\<forall>j \<in> set ks. hm_get d' (log_path j) = None"
    using Cons.IH [of ?d1 "bt_remove k cs"] Cons.prems(1) by auto
  have "hm_get d' (log_path k) = None"
    using unchanged_get [OF ih(2), of "log_path k"] Cons.prems(1) by auto
  moreover have "unchanged_outside (log_path ` set (k # ks) \<union> index_path ` set (k # ks)) d d'"
    using ih(2) by (auto simp: unchanged_outside_def)
  moreover have "filter (\<lambda>e. fst e \<notin> set ks) (bt_remove k cs) = filter (\<lambda>e. fst e \<notin> set (k # ks)) cs"
    by (auto intro: filter_cong)
  ultimately show ?case using r ih(1,3) by auto
qed simp

text \<open>What is done to the segment that keeps the tail.\<close>

lemma truncate_target_ok:
  assumes t: "seg_ok crc cfg d t rt" and n: "sg_base t \<le> n" "n \<le> sg_base t + length rt"
  shows "\<exists>s d1 d2 d3. position_of crc cfg n t d = Inr (pos_at crc rt (n - sg_base t)) \<and>
    fs_set_len (log_path (sg_base t)) (pos_at crc rt (n - sg_base t)) d = Inr d1 \<and>
    fs_sync (log_path (sg_base t)) d1 = Inr d2 \<and>
    recover crc cfg (sg_base t) True d2 = Inr (s, d3) \<and> sg_base s = sg_base t \<and>
    seg_ok crc cfg d3 s (take (n - sg_base t) rt) \<and> seg_synced (sg_base t) d3 \<and>
    unchanged_outside {log_path (sg_base t), index_path (sg_base t)} d d3"
proof -
  let ?b = "sg_base t" and ?k = "n - sg_base t"
  let ?rs = "take ?k rt"
  let ?p = "length (log_bytes crc ?rs)"
  obtain f where f: "hm_get d (log_path ?b) = Some f" "f_data f = log_bytes crc rt"
    using active_file [OF t] .
  have pos: "position_of crc cfg n t d = Inr ?p"
    by (rule position_of_ok [OF t n(1)]) (use n t in \<open>simp add: seg_ok_def\<close>)
  have pre: "log_bytes crc rt = log_bytes crc ?rs @ log_bytes crc (drop ?k rt)"
    by (metis append_take_drop_id log_bytes_simps(3))
  let ?f1 = "\<lparr>f_data = log_bytes crc ?rs, f_synced = min ?p (f_synced f)\<rparr>"
  let ?f2 = "\<lparr>f_data = log_bytes crc ?rs, f_synced = ?p\<rparr>"
  let ?d1 = "hm_insert (log_path ?b) ?f1 d"
  let ?d2 = "hm_insert (log_path ?b) ?f2 ?d1"
  have "take ?p (f_data f) = log_bytes crc ?rs" and "?p \<le> length (f_data f)"
    using f(2) pre by simp_all
  then have d1: "fs_set_len (log_path ?b) ?p d = Inr ?d1"
    using f(1) by (simp add: fs_set_len_def)
  have d2: "fs_sync (log_path ?b) ?d1 = Inr ?d2" by (simp add: fs_sync_def)
  have rs: "all_fit cfg ?rs" "numbered ?b ?rs" "?p < 2 ^ 32"
    using t pos_at_le [of crc ?k rt] by (auto simp: seg_ok_def all_fit_take numbered_take)
  have "hm_get ?d2 (log_path ?b) = Some ?f2" and "f_data ?f2 = log_bytes crc ?rs @ []" by simp_all
  then obtain s d3 where s: "recover crc cfg ?b True ?d2 = Inr (s, d3)" "sg_base s = ?b"
    "seg_ok crc cfg d3 s ?rs" "unchanged_outside {log_path ?b, index_path ?b} ?d2 d3"
    "hm_get d3 (log_path ?b) = Some ?f2"
    using recover_newest [OF _ _ rs, of ?d2 ?f2 "[]"] by auto
  have "unchanged_outside {log_path ?b, index_path ?b} d d3"
    using s(4) by (auto simp: unchanged_outside_def)
  moreover have "seg_synced ?b d3" using s(5) by (simp add: seg_synced_def)
  ultimately show ?thesis using pos d1 d2 s(1-3) by blast
qed

lemma durable_ok_truncated:
  assumes "sg_next s = n" and "seg_synced (sg_base s) d" and "seg_ok crc cfg d s rs"
  shows "durable_ok crc d s rs
    (case (durable, checked_pred n) of (Some j, Some lst) \<Rightarrow> Some (min j lst) | _ \<Rightarrow> None)"
proof -
  obtain f where f: "hm_get d (log_path (sg_base s)) = Some f" "f_data f = log_bytes crc rs"
    using active_file [OF assms(3)] .
  then have sy: "f_synced f = length (log_bytes crc rs)" using assms(2) by (simp add: seg_synced_def)
  have "durable_ok crc d s rs (Some k)" if "k < n" for k
    using that f sy assms(1) pos_at_le [of crc _ rs] by (simp add: durable_ok_def)
  moreover have "durable_ok crc d s rs None" by (simp add: durable_ok_def)
  ultimately show ?thesis
    by (auto simp: checked_pred_def split: option.split)
qed

lemma truncate_active:
  assumes ok: "log_ok crc cfg l d start rss ra"
    and n: "n < log_next_offset l" and b: "sg_base (lg_active l) \<le> n"
    and target: "truncate_target l n = Some (sg_base (lg_active l))"
  shows "\<exists>l' d'. truncate_suffix crc cfg n (l, d) = Inr (l', d') \<and>
    log_ok crc cfg l' d' start rss (take (n - sg_base (lg_active l)) ra) \<and> log_next_offset l' = n \<and>
    lg_durable l' = (case (lg_durable l, checked_pred n) of
      (Some j, Some lst) \<Rightarrow> Some (min j lst) | _ \<Rightarrow> None)"
proof -
  note a = log_okD [OF ok]
  let ?b = "sg_base (lg_active l)"
  have lt: "\<forall>e \<in> set (lg_closed l). fst e < ?b"
    using closed_ok_bases [OF a(2)] a(3) by auto
  have nd: "filter (\<lambda>e. ?b < fst e) (lg_closed l) = []" "bt_remove ?b (lg_closed l) = lg_closed l"
    using lt by (auto simp: filter_empty_conv filter_id_conv)
  have "n \<le> ?b + length ra" using n a(4) by (simp add: log_next_offset_def seg_ok_def)
  then obtain s d1 d2 d3 where s:
    "position_of crc cfg n (lg_active l) d = Inr (pos_at crc ra (n - ?b))"
    "fs_set_len (log_path ?b) (pos_at crc ra (n - ?b)) d = Inr d1"
    "fs_sync (log_path ?b) d1 = Inr d2" "recover crc cfg ?b True d2 = Inr (s, d3)" "sg_base s = ?b"
    "seg_ok crc cfg d3 s (take (n - ?b) ra)" "seg_synced ?b d3"
    "unchanged_outside {log_path ?b, index_path ?b} d d3"
    using truncate_target_ok [OF a(4) b] by blast
  let ?dur = "case (lg_durable l, checked_pred n) of (Some j, Some lst) \<Rightarrow> Some (min j lst) | _ \<Rightarrow> None"
  let ?l' = "l\<lparr>lg_closed := lg_closed l, lg_active := s, lg_durable := ?dur\<rparr>"
  have start: "log_start_offset l \<le> n" using log_ok_abs(1) [OF ok] a(3) b by simp
  have "truncate_suffix crc cfg n (l, d) = Inr (?l', d3)"
    unfolding truncate_suffix_def
    using n start target s(1-4) nd by (simp add: Let_def)
  moreover have nx: "sg_next s = n"
    using s(5,6) b n a(4) by (simp add: seg_ok_def log_next_offset_def min.absorb2)
  moreover have "log_ok crc cfg ?l' d3 start rss (take (n - ?b) ra)"
  proof -
    have "closed_ok crc cfg d3 start (lg_closed l) rss"
      by (rule closed_ok_unchanged [OF a(2) s(8)]) (use a(3) in auto)
    moreover have "dir_ok (map fst (lg_closed l) @ [?b]) d3"
      by (rule dir_ok_step [OF a(6) s(8)]) (auto simp: strip_index_path)
    moreover have "durable_ok crc d3 s (take (n - ?b) ra) ?dur"
      by (rule durable_ok_truncated [OF nx _ s(6)]) (use s(5,7) in simp)
    moreover have "sg_next s < 2 ^ 64" using nx n a(5) by (simp add: log_next_offset_def)
    ultimately show ?thesis using a(1,3) s(5,6) by (simp add: log_ok_def)
  qed
  ultimately show ?thesis by (auto simp: log_next_offset_def)
qed

lemma closed_ok_files:
  "closed_ok crc cfg d b cs rss \<Longrightarrow> k \<in> fst ` set cs \<Longrightarrow>
     hm_get d (log_path k) \<noteq> None \<and> hm_get d (index_path k) \<noteq> None"
  by (induction crc cfg d b cs rss rule: closed_ok.induct)
    (auto simp: seg_ok_def log_file_def index_file_def split: option.splits)

lemma dir_ok_removed:
  assumes "dir_ok bases d" and "unchanged_outside P d d'"
    and "\<forall>k \<in> set bases - set bases'. hm_get d' (log_path k) = None"
    and "\<forall>p \<in> P. strip_suffix ''.log'' p \<noteq> None \<longrightarrow> p \<in> log_path ` set bases"
  shows "dir_ok bases' d'"
  unfolding dir_ok_get
proof (intro conjI allI impI)
  have dir: "dir_ok bases d'" by (rule dir_ok_step [OF assms(1,2,4)]) simp
  show "hm_wf d'" using dir by (simp add: dir_ok_def)
  fix p assume p: "hm_get d' p \<noteq> None" "strip_suffix ''.log'' p \<noteq> None"
  then obtain k where "k \<in> set bases" "p = log_path k" using dir unfolding dir_ok_get by blast
  then show "p \<in> log_path ` set bases'" using assms(3) p(1) by (cases "k \<in> set bases'") auto
qed

text \<open>
  The tail is cut in a closed segment \<open>t\<close>: the segments after it go, and it becomes the active
  one.
\<close>

lemma truncate_closed:
  assumes ok: "log_ok crc cfg l d start (rss1 @ rt # rss2) ra"
    and cs: "lg_closed l = cs1 @ (sg_base t, t) # cs2" and len: "length cs1 = length rss1"
    and n: "sg_base t \<le> n" "n \<le> sg_base t + length rt" "n < log_next_offset l"
    and target: "truncate_target l n = Some (sg_base t)"
  shows "\<exists>l' d'. truncate_suffix crc cfg n (l, d) = Inr (l', d') \<and>
    log_ok crc cfg l' d' start rss1 (take (n - sg_base t) rt) \<and> log_next_offset l' = n \<and>
    lg_durable l' = (case (lg_durable l, checked_pred n) of
      (Some j, Some lst) \<Rightarrow> Some (min j lst) | _ \<Rightarrow> None)"
proof -
  note a = log_okD [OF ok]
  let ?b = "sg_base (lg_active l)" and ?t = "sg_base t"
  let ?ks = "map fst cs2"
  have c1: "closed_ok crc cfg d start cs1 rss1"
    and c2: "closed_ok crc cfg d (start + length (concat rss1)) ((?t, t) # cs2) (rt # rss2)"
    using a(2) unfolding cs by (simp_all add: closed_ok_append [OF len])
  have t: "?t = start + length (concat rss1)" "seg_ok crc cfg d t rt" "rt \<noteq> []"
    and c3: "closed_ok crc cfg d (?t + length rt) cs2 rss2"
    using c2 by auto
  have b: "?b = ?t + length rt + length (concat rss2)" using a(3) t(1) by simp
  have len_rt: "0 < length rt" using t(3) by simp
  have k1: "\<forall>e \<in> set cs1. fst e < ?t" using closed_ok_bases [OF c1] t(1) by simp
  have k2: "\<forall>e \<in> set cs2. ?t < fst e \<and> fst e < ?b" "bt_wf cs2"
  proof -
    show "\<forall>e \<in> set cs2. ?t < fst e \<and> fst e < ?b"
    proof
      fix e assume "e \<in> set cs2"
      then have "?t + length rt \<le> fst e \<and> fst e < ?b" using closed_ok_bases [OF c3] b by auto
      then show "?t < fst e \<and> fst e < ?b" using len_rt by linarith
    qed
    show "bt_wf cs2" using closed_ok_bases [OF c3] by simp
  qed
  have tb: "?t < ?b" using b len_rt by linarith
  have doomed: "map fst (filter (\<lambda>e. ?t < fst e) (lg_closed l)) = ?ks"
  proof -
    have "filter (\<lambda>e. ?t < fst e) cs1 = []" "filter (\<lambda>e. ?t < fst e) cs2 = cs2"
      using k1 k2 by (auto simp: filter_empty_conv filter_id_conv)
    then show ?thesis by (simp add: cs)
  qed
  have dist: "distinct ?ks" using k2(2) by (simp add: strict_sorted_iff)
  have files: "\<forall>k \<in> set ?ks. hm_get d (log_path k) \<noteq> None \<and> hm_get d (index_path k) \<noteq> None"
    using closed_ok_files [OF c3] by auto
  let ?cl = "filter (\<lambda>e. fst e \<notin> set ?ks) (lg_closed l)"
  obtain d1 where d1: "remove_doomed ?ks (lg_closed l, d) = Inr (?cl, d1)"
    "unchanged_outside (log_path ` set ?ks \<union> index_path ` set ?ks) d d1"
    "\<forall>k \<in> set ?ks. hm_get d1 (log_path k) = None"
    using remove_doomed_ok [OF dist files] by blast
  have cl: "?cl = cs1 @ [(?t, t)]"
  proof -
    have "filter (\<lambda>e. fst e \<notin> set ?ks) cs1 = cs1"
      using k1 k2 by (fastforce simp: filter_id_conv)
    moreover have "?t \<notin> set ?ks" using k2 by auto
    moreover have "filter (\<lambda>e. fst e \<notin> set ?ks) cs2 = []" by (auto simp: filter_empty_conv)
    ultimately show ?thesis by (simp add: cs)
  qed
  have d1': "remove_doomed ?ks (lg_closed l, d) = Inr (cs1 @ [(?t, t)], d1)"
    using d1(1) unfolding cl .
  have bn: "?b \<notin> set ?ks" using k2 by auto
  obtain fa ga where fa: "hm_get d (log_path ?b) = Some fa" "hm_get d (index_path ?b) = Some ga"
    using a(4) by (auto simp: seg_ok_def log_file_def index_file_def split: option.splits)
  have fa1: "hm_get d1 (log_path ?b) = Some fa" "hm_get d1 (index_path ?b) = Some ga"
    using fa bn unchanged_get [OF d1(2)] by auto
  let ?d2 = "hm_remove (index_path ?b) (hm_remove (log_path ?b) d1)"
  have d2: "remove_segment_files ?b d1 = Inr ?d2"
    using fa1 by (simp add: remove_segment_files_def fs_remove_def fs_exists_def)
  let ?P = "log_path ` (set ?ks \<union> {?b}) \<union> index_path ` (set ?ks \<union> {?b})"
  have u2: "unchanged_outside ?P d ?d2" using d1(2) by (auto simp: unchanged_outside_def)
  have tP: "log_path ?t \<notin> ?P" "index_path ?t \<notin> ?P" using k2 tb by auto
  have t2: "seg_ok crc cfg ?d2 t rt" by (rule seg_ok_frame [OF t(2) u2 tP])
  obtain s d3 d4 d5 where s: "position_of crc cfg n t ?d2 = Inr (pos_at crc rt (n - ?t))"
    "fs_set_len (log_path ?t) (pos_at crc rt (n - ?t)) ?d2 = Inr d3"
    "fs_sync (log_path ?t) d3 = Inr d4" "recover crc cfg ?t True d4 = Inr (s, d5)" "sg_base s = ?t"
    "seg_ok crc cfg d5 s (take (n - ?t) rt)" "seg_synced ?t d5"
    "unchanged_outside {log_path ?t, index_path ?t} ?d2 d5"
    using truncate_target_ok [OF t2 n(1,2)] by blast
  let ?dur = "case (lg_durable l, checked_pred n) of (Some j, Some lst) \<Rightarrow> Some (min j lst) | _ \<Rightarrow> None"
  let ?l' = "l\<lparr>lg_closed := cs1, lg_active := s, lg_durable := ?dur\<rparr>"
  have "map_of (cs1 @ [(?t, t)]) ?t = Some t"
    using k1 by (auto simp: map_add_def split: option.split dest!: map_of_SomeD)
  moreover have "bt_remove ?t (cs1 @ [(?t, t)]) = cs1"
    using k1 by (auto simp: filter_id_conv)
  moreover have "log_start_offset l \<le> n" using log_ok_abs(1) [OF ok] t(1) n(1) by simp
  ultimately have tr: "truncate_suffix crc cfg n (l, d) = Inr (?l', d5)"
    unfolding truncate_suffix_def
    using n(3) target s(1-4) d1' d2 tb by (simp add: Let_def doomed)
  have nx: "sg_next s = n" using s(5,6) n by (simp add: seg_ok_def min.absorb2)
  have u5: "unchanged_outside (?P \<union> {log_path ?t, index_path ?t}) d d5"
    by (rule unchanged_trans [OF u2 s(8)])
  have "closed_ok crc cfg d5 start cs1 rss1"
    by (rule closed_ok_unchanged [OF c1 u5]) (use k2 tb t(1) in auto)
  moreover have "dir_ok (map fst cs1 @ [?t]) d5"
  proof (rule dir_ok_removed [OF a(6) u5])
    have gone: "hm_get d5 (log_path k) = None" if k: "k \<in> set ?ks \<union> {?b}" for k
    proof -
      have "k \<noteq> ?t" using k k2 tb by auto
      then have "hm_get d5 (log_path k) = hm_get ?d2 (log_path k)"
        using unchanged_get [OF s(8), of "log_path k"] by simp
      then show ?thesis using k d1(3) by auto
    qed
    have "set (map fst (lg_closed l) @ [?b]) - set (map fst cs1 @ [?t]) \<subseteq> set ?ks \<union> {?b}"
      by (auto simp: cs)
    then show "\<forall>k \<in> set (map fst (lg_closed l) @ [?b]) - set (map fst cs1 @ [?t]).
        hm_get d5 (log_path k) = None"
      using gone by blast
    show "\<forall>p \<in> ?P \<union> {log_path ?t, index_path ?t}. strip_suffix ''.log'' p \<noteq> None \<longrightarrow>
        p \<in> log_path ` set (map fst (lg_closed l) @ [?b])"
      by (auto simp: cs strip_index_path)
  qed
  moreover have "durable_ok crc d5 s (take (n - ?t) rt) ?dur"
    by (rule durable_ok_truncated [OF nx _ s(6)]) (use s(5,7) in simp)
  moreover have "sg_next s < 2 ^ 64" using nx n(3) a(5) by (simp add: log_next_offset_def)
  ultimately have "log_ok crc cfg ?l' d5 start rss1 (take (n - ?t) rt)"
    using a(1) s(5,6) t(1) by (simp add: log_ok_def)
  then show ?thesis using tr nx by (auto simp: log_next_offset_def)
qed

text \<open>Every truncation keeps exactly the records before \<open>n\<close>.\<close>

lemma truncate_suffix_ok:
  assumes ok: "log_ok crc cfg l d start rss ra"
    and n: "start \<le> n" "n < log_next_offset l"
  shows "\<exists>l' d' rss' ra'. truncate_suffix crc cfg n (l, d) = Inr (l', d') \<and>
    log_ok crc cfg l' d' start rss' ra' \<and>
    concat rss' @ ra' = take (n - start) (concat rss @ ra) \<and> log_next_offset l' = n \<and>
    lg_durable l' = (case (lg_durable l, checked_pred n) of
      (Some j, Some lst) \<Rightarrow> Some (min j lst) | _ \<Rightarrow> None)"
proof -
  note a = log_okD [OF ok] and abs = log_ok_abs [OF ok]
  let ?b = "sg_base (lg_active l)"
  show ?thesis
  proof (cases "?b < n \<or> n = start \<and> lg_closed l = []")
    case True
    have bn: "?b \<le> n" using True a(2,3) by (auto simp: closed_ok_Nil)
    have "truncate_target l n = Some ?b"
      using True a(2,3) abs(1) bn by (auto simp: truncate_target_def closed_ok_Nil)
    then obtain l' d' where "truncate_suffix crc cfg n (l, d) = Inr (l', d')"
      "log_ok crc cfg l' d' start rss (take (n - ?b) ra)" "log_next_offset l' = n"
      "lg_durable l' = (case (lg_durable l, checked_pred n) of
        (Some j, Some lst) \<Rightarrow> Some (min j lst) | _ \<Rightarrow> None)"
      using truncate_active [OF ok n(2) bn] by blast
    moreover have "concat rss @ take (n - ?b) ra = take (n - start) (concat rss @ ra)"
      using bn a(3) by simp
    ultimately show ?thesis by blast
  next
    case False
    then have nb: "n \<le> ?b" by simp
    have ne: "rss \<noteq> []"
      using False a(2,3) n(1) nb by (auto simp: closed_ok_Nil) (metis closed_ok_length length_0_conv le_antisym)
    let ?o = "if n = start then n else n - 1"
    have o: "start \<le> ?o" using n(1) by arith
    have "rss \<noteq> [] \<Longrightarrow> 0 < length (concat rss)"
      using a(2) by (cases rss; cases "lg_closed l") auto
    then have "?o < start + length (concat rss)" using nb a(3) ne n(1) by auto
    then obtain cs1 t cs2 rss1 rt rss2 where
      cs: "lg_closed l = cs1 @ (sg_base t, t) # cs2" and rss: "rss = rss1 @ rt # rss2"
      and len: "length cs1 = length rss1" and tb: "sg_base t = start + length (concat rss1)"
      and t: "seg_ok crc cfg d t rt" and o': "sg_base t \<le> ?o" "?o < sg_base t + length rt"
      using closed_ok_split [OF a(2) o] by blast
    have bn: "sg_base t \<le> n" "n \<le> sg_base t + length rt" using o' n(1) by (auto split: if_splits)
    have c3: "closed_ok crc cfg d (sg_base t + length rt) cs2 rss2"
      using a(2) tb unfolding cs rss by (subst (asm) closed_ok_append [OF len]) simp
    have target: "truncate_target l n = Some (sg_base t)"
    proof (cases "n = start")
      case True
      then show ?thesis using abs(1) o'(1) tb by (simp add: truncate_target_def)
    next
      case ns: False
      have "\<forall>x \<in> set cs2. \<not> fst x < n" using closed_ok_bases [OF c3] bn(2) by fastforce
      moreover have "sg_base t < n" using ns o'(1) n(1) by simp
      ultimately have "bt_last_below n (lg_closed l) = Some (sg_base t, t)"
        using last_filter_split [of "\<lambda>e. fst e < n" "(sg_base t, t)" cs2 cs1] cs
        by (simp add: bt_last_below_def Let_def)
      then show ?thesis using ns abs(1) nb by (simp add: truncate_target_def)
    qed
    obtain l' d' where "truncate_suffix crc cfg n (l, d) = Inr (l', d')"
      "log_ok crc cfg l' d' start rss1 (take (n - sg_base t) rt)" "log_next_offset l' = n"
      "lg_durable l' = (case (lg_durable l, checked_pred n) of
        (Some j, Some lst) \<Rightarrow> Some (min j lst) | _ \<Rightarrow> None)"
      using truncate_closed [OF ok [unfolded rss] cs len bn n(2) target] by blast
    moreover have "concat rss1 @ take (n - sg_base t) rt = take (n - start) (concat rss @ ra)"
    proof -
      have "n - start = length (concat rss1) + (n - sg_base t)" using bn(1) tb by simp
      then show ?thesis using bn(2) by (simp add: rss)
    qed
    ultimately show ?thesis by blast
  qed
qed

lemma truncate_suffix_other:
  assumes ok: "log_ok crc cfg l d start rss ra"
  shows "log_next_offset l \<le> n \<Longrightarrow> truncate_suffix crc cfg n (l, d) = Inr (l, d)"
    and "n < start \<Longrightarrow> n < log_next_offset l \<Longrightarrow>
      truncate_suffix crc cfg n (l, d) = Inl (OutOfRange n)"
  using log_ok_abs(1) [OF ok] by (simp_all add: truncate_suffix_def)

end
