(* ===== verification/EpochCheckpoint.thy ===== *)
theory EpochCheckpoint
  imports Storage
begin

text \<open>
  The leader-epoch checkpoint of \<^verbatim>\<open>src/src/storage/epoch.rs\<close>: the history of pairs of an epoch
  and the offset where it started, its file, and the answer a leader gives to a follower that
  asks where an epoch ended. The abstract view of a history is the epoch of each offset.
\<close>

section \<open>Operations\<close>

definition epochs_file :: string where "epochs_file = ''leader-epochs''"
definition epochs_tmp :: string where "epochs_tmp = ''leader-epochs.tmp''"

abbreviation (input) EPOCH_ENTRY_BYTES :: nat where "EPOCH_ENTRY_BYTES \<equiv> 16"

type_synonym epoch_entries = "(nat \<times> nat) list"

definition epoch_bytes :: "nat \<times> nat \<Rightarrow> bytes" where
  "epoch_bytes e = le_digits 8 (fst e) @ le_digits 8 (snd e)"

fun epochs_load_loop :: "bytes \<Rightarrow> epoch_entries \<Rightarrow> storage_error + epoch_entries" where
  "epochs_load_loop bs acc =
     (if length bs < EPOCH_ENTRY_BYTES then Inr acc
      else
        let epoch = le_val (slice_of 0 8 bs);
            start = le_val (slice_of 8 16 bs)
        in if acc \<noteq> [] \<and> (epoch \<le> fst (last acc) \<or> start < snd (last acc)) then Inl (Io InvalidData)
           else epochs_load_loop (drop EPOCH_ENTRY_BYTES bs) (acc @ [(epoch, start)]))"

declare epochs_load_loop.simps [simp del]

definition epochs_load :: "disk \<Rightarrow> storage_error + epoch_entries" where
  "epochs_load d =
     (case fs_read epochs_file d of
        Inl (Io NotFound) \<Rightarrow> Inr []
      | Inl e \<Rightarrow> Inl e
      | Inr bs \<Rightarrow>
          if length bs mod EPOCH_ENTRY_BYTES \<noteq> 0 then Inl (Io InvalidData)
          else epochs_load_loop bs [])"

definition epochs_last :: "epoch_entries \<Rightarrow> (nat \<times> nat) option" where
  "epochs_last es = (if es = [] then None else Some (last es))"

definition current_epoch :: "epoch_entries \<Rightarrow> nat" where
  "current_epoch es = (case epochs_last es of None \<Rightarrow> 0 | Some (epoch, _) \<Rightarrow> epoch)"

definition epochs_append ::
    "nat \<Rightarrow> nat \<Rightarrow> epoch_entries \<times> disk \<Rightarrow> storage_error + epoch_entries \<times> disk" where
  "epochs_append epoch start_offset ed =
     (let (es, d) = ed
      in if es \<noteq> [] \<and> epoch = fst (last es) \<and> start_offset = snd (last es) then Inr (es, d)
         else if es \<noteq> [] \<and> (epoch \<le> fst (last es) \<or> start_offset < snd (last es)) then
           Inl (Io InvalidInput)
         else
           let d = (if fs_exists epochs_file d then d else fs_create epochs_file d)
           in bind_r (fs_append epochs_file (epoch_bytes (epoch, start_offset)) d) (\<lambda>d.
              bind_r (fs_sync epochs_file d) (\<lambda>d. Inr (es @ [(epoch, start_offset)], d))))"

text \<open>The loop of \<open>end_offset_for\<close> with its flag \<open>known\<close>.\<close>

fun end_offset_loop :: "epoch_entries \<Rightarrow> nat \<Rightarrow> nat \<Rightarrow> bool \<Rightarrow> nat" where
  "end_offset_loop [] epoch log_end known = (if known then log_end else 0)"
| "end_offset_loop ((entry_epoch, entry_start) # es) epoch log_end known =
     (if entry_epoch > epoch then (if known then entry_start else 0)
      else end_offset_loop es epoch log_end True)"

definition end_offset_for :: "epoch_entries \<Rightarrow> nat \<Rightarrow> nat \<Rightarrow> nat" where
  "end_offset_for es epoch log_end = end_offset_loop es epoch log_end False"

definition epochs_truncate_to ::
    "nat \<Rightarrow> epoch_entries \<times> disk \<Rightarrow> storage_error + epoch_entries \<times> disk" where
  "epochs_truncate_to new_next ed =
     (let (es, d) = ed;
          keep = length (takeWhile (\<lambda>e. snd e < new_next) es)
      in if keep = length es then Inr (es, d)
         else
           let es' = take keep es
           in bind_r (fs_append epochs_tmp (concat (map epoch_bytes es')) (fs_create epochs_tmp d)) (\<lambda>d.
              bind_r (fs_sync epochs_tmp d) (\<lambda>d.
              bind_r (fs_rename epochs_tmp epochs_file d) (\<lambda>d. Inr (es', d)))))"

section \<open>Well-formed histories and their file\<close>

definition epochs_wf :: "epoch_entries \<Rightarrow> bool" where
  "epochs_wf es \<longleftrightarrow>
     sorted_wrt (\<lambda>a b. fst a < fst b \<and> snd a \<le> snd b) es \<and>
     (\<forall>e \<in> set es. fst e < 2 ^ 64 \<and> snd e < 2 ^ 64)"

text \<open>The file holds the entries; it may be absent while there are none.\<close>

definition epochs_stored :: "epoch_entries \<Rightarrow> disk \<Rightarrow> bool" where
  "epochs_stored es d \<longleftrightarrow>
     (case hm_get d epochs_file of
        None \<Rightarrow> es = [] | Some f \<Rightarrow> f_data f = concat (map epoch_bytes es))"

lemma epochs_wf_Nil [simp]: "epochs_wf []"
  by (simp add: epochs_wf_def)

lemma epochs_wf_append:
  "epochs_wf (es @ [e]) \<longleftrightarrow>
     epochs_wf es \<and> fst e < 2 ^ 64 \<and> snd e < 2 ^ 64 \<and> (\<forall>x \<in> set es. fst x < fst e \<and> snd x \<le> snd e)"
  by (auto simp: epochs_wf_def sorted_wrt_append)

lemma epochs_wf_snoc:
  assumes "epochs_wf es" and "fst e < 2 ^ 64" and "snd e < 2 ^ 64"
    and "es \<noteq> [] \<Longrightarrow> fst (last es) < fst e \<and> snd (last es) \<le> snd e"
  shows "epochs_wf (es @ [e])"
proof (cases es rule: rev_cases)
  case (snoc xs x)
  have x: "fst x < fst e" "snd x \<le> snd e" using assms(4) snoc by simp_all
  have "\<forall>y \<in> set xs. fst y < fst x \<and> snd y \<le> snd x"
    using assms(1) unfolding snoc epochs_wf_append by blast
  then have "\<forall>y \<in> set es. fst y < fst e \<and> snd y \<le> snd e"
    using x snoc by (auto intro: less_trans order_trans)
  then show ?thesis using assms(1-3) unfolding epochs_wf_append by blast
qed (use assms in \<open>simp add: epochs_wf_def\<close>)

lemma epochs_wf_take: "epochs_wf es \<Longrightarrow> epochs_wf (take n es)"
  by (auto simp: epochs_wf_def sorted_wrt_take dest: in_set_takeD)

lemma epochs_wf_prefix: "epochs_wf (xs @ ys) \<Longrightarrow> epochs_wf xs"
  by (auto simp: epochs_wf_def sorted_wrt_append)

lemma epochs_wf_Cons:
  "epochs_wf (e # es) \<longleftrightarrow>
     epochs_wf es \<and> fst e < 2 ^ 64 \<and> snd e < 2 ^ 64 \<and> (\<forall>x \<in> set es. fst e < fst x \<and> snd e \<le> snd x)"
  by (auto simp: epochs_wf_def)

lemma length_epoch_bytes [simp, enc_length]: "length (epoch_bytes e) = 16"
  by (simp add: epoch_bytes_def)

lemma length_epochs: "length (concat (map epoch_bytes es)) = 16 * length es"
  by (induction es) auto

lemma epoch_bytes_slices:
  assumes "fst e < 2 ^ 64" and "snd e < 2 ^ 64"
  shows "le_val (slice_of 0 8 (epoch_bytes e @ bs)) = fst e"
    and "le_val (slice_of 8 16 (epoch_bytes e @ bs)) = snd e"
  using assms by (simp_all add: epoch_bytes_def slice_of_def le_val_le_digits)

lemma epochs_load_written:
  "epochs_wf (acc @ es) \<Longrightarrow>
   epochs_load_loop (concat (map epoch_bytes es)) acc = Inr (acc @ es)"
proof (induction es arbitrary: acc)
  case Nil
  then show ?case by (subst epochs_load_loop.simps) simp
next
  case (Cons e es)
  have wf: "epochs_wf ((acc @ [e]) @ es)" using Cons.prems by simp
  then have w: "epochs_wf (acc @ [e])" by (rule epochs_wf_prefix)
  then have b: "fst e < 2 ^ 64" "snd e < 2 ^ 64" by (simp_all only: epochs_wf_append)
  have "acc \<noteq> [] \<Longrightarrow> fst (last acc) < fst e \<and> snd (last acc) \<le> snd e"
    using w by (simp add: epochs_wf_append)
  then have "epochs_load_loop (epoch_bytes e @ concat (map epoch_bytes es)) acc =
      epochs_load_loop (concat (map epoch_bytes es)) (acc @ [e])"
    by (subst epochs_load_loop.simps) (auto simp: Let_def not_le epoch_bytes_slices [OF b])
  also have "\<dots> = Inr ((acc @ [e]) @ es)" by (rule Cons.IH [OF wf])
  finally show ?case by simp
qed

lemma epochs_load_stored:
  assumes "epochs_wf es" and "epochs_stored es d"
  shows "epochs_load d = Inr es"
  using assms epochs_load_written [of "[]" es]
  by (auto simp: epochs_load_def epochs_stored_def fs_read_def length_epochs split: option.splits)

text \<open>Nothing but a well-formed history loads.\<close>

lemma epochs_load_loop_wf:
  "epochs_load_loop bs acc = Inr es \<Longrightarrow> epochs_wf acc \<Longrightarrow> epochs_wf es"
proof (induction bs acc rule: epochs_load_loop.induct)
  case (1 bs acc)
  show ?case
  proof (cases "length bs < 16")
    case True
    then show ?thesis using 1 by (subst (asm) epochs_load_loop.simps) auto
  next
    case False
    let ?e = "le_val (slice_of 0 8 bs)" and ?s = "le_val (slice_of 8 16 bs)"
    have b: "?e < 2 ^ 64" "?s < 2 ^ 64"
      using le_val_less [of "slice_of 0 8 bs"] le_val_less [of "slice_of 8 16 bs"] False
      by (simp_all add: slice_of_def)
    have ok: "acc = [] \<or> fst (last acc) < ?e \<and> snd (last acc) \<le> ?s"
      and step: "epochs_load_loop (drop 16 bs) (acc @ [(?e, ?s)]) = Inr es"
      using 1(2) False by (subst (asm) epochs_load_loop.simps; auto simp: Let_def split: if_splits)+
    have "epochs_wf (acc @ [(?e, ?s)])"
      by (rule epochs_wf_snoc) (use b ok 1(3) in auto)
    then show ?thesis using 1(1) [OF False refl refl] step ok by (auto simp: not_le not_less)
  qed
qed

lemma epochs_load_wf: "epochs_load d = Inr es \<Longrightarrow> epochs_wf es"
  by (auto simp: epochs_load_def dest: epochs_load_loop_wf
      split: sum.splits storage_error.splits io_kind.splits if_splits)

section \<open>Append and truncate\<close>

lemma epochs_append_ok:
  assumes "epochs_wf es" and "epochs_stored es d" and "epoch < 2 ^ 64" and "start < 2 ^ 64"
    and "es \<noteq> [] \<Longrightarrow> fst (last es) < epoch \<and> snd (last es) \<le> start"
  shows "\<exists>d'. epochs_append epoch start (es, d) = Inr (es @ [(epoch, start)], d') \<and>
    epochs_wf (es @ [(epoch, start)]) \<and> epochs_stored (es @ [(epoch, start)]) d' \<and>
    unchanged_outside {epochs_file} d d' \<and>
    (\<exists>f. hm_get d' epochs_file = Some f \<and> f_synced f = length (f_data f))"
proof -
  have "epochs_wf (es @ [(epoch, start)])" by (rule epochs_wf_snoc) (use assms in auto)
  moreover have "\<not> (es \<noteq> [] \<and> epoch = fst (last es) \<and> start = snd (last es))"
    and "\<not> (es \<noteq> [] \<and> (epoch \<le> fst (last es) \<or> start < snd (last es)))"
    using assms(5) by auto
  ultimately show ?thesis using assms(2)
    by (auto simp: epochs_append_def epochs_stored_def fs_append_def fs_sync_def fs_create_def
        fs_exists_def Let_def unchanged_outside_def split: option.splits)
qed

lemma epochs_append_refused:
  assumes "es \<noteq> []" and "epoch \<le> fst (last es) \<or> start < snd (last es)"
    and "(epoch, start) \<noteq> last es"
  shows "epochs_append epoch start (es, d) = Inl (Io InvalidInput)"
  using assms by (cases "last es") (auto simp: epochs_append_def)

lemma takeWhile_starts:
  assumes "epochs_wf es"
  shows "takeWhile (\<lambda>e. snd e < n) es = filter (\<lambda>e. snd e < n) es"
  using assms
proof (induction es)
  case (Cons e es)
  have "filter (\<lambda>e. snd e < n) es = []" if "\<not> snd e < n"
    using Cons.prems that by (fastforce simp: epochs_wf_Cons filter_empty_conv)
  then show ?case using Cons by (auto simp: epochs_wf_Cons)
qed simp

lemma epochs_file_tmp [simp]: "epochs_file \<noteq> epochs_tmp" "epochs_tmp \<noteq> epochs_file"
  by (simp_all add: epochs_file_def epochs_tmp_def)

lemma epochs_truncate_ok:
  assumes wf: "epochs_wf es" and st: "epochs_stored es d"
  shows "\<exists>d'. epochs_truncate_to n (es, d) = Inr (filter (\<lambda>e. snd e < n) es, d') \<and>
    epochs_wf (filter (\<lambda>e. snd e < n) es) \<and> epochs_stored (filter (\<lambda>e. snd e < n) es) d' \<and>
    unchanged_outside {epochs_file, epochs_tmp} d d'"
proof -
  let ?k = "length (takeWhile (\<lambda>e. snd e < n) es)"
  have fil: "take ?k es = filter (\<lambda>e. snd e < n) es"
    using takeWhile_starts [OF wf] by (metis takeWhile_eq_take)
  have wf': "epochs_wf (filter (\<lambda>e. snd e < n) es)"
    unfolding fil [symmetric] using wf by (rule epochs_wf_take)
  show ?thesis
  proof (cases "?k = length es")
    case True
    then have "filter (\<lambda>e. snd e < n) es = es" using fil by simp
    then show ?thesis using True wf st by (auto simp: epochs_truncate_to_def)
  next
    case False
    then show ?thesis using wf' unfolding epochs_truncate_to_def fil
      by (auto simp: epochs_stored_def fs_append_def fs_sync_def fs_create_def fs_rename_def fil
          Let_def unchanged_outside_def)
  qed
qed

text \<open>
  A crash while an entry is being appended leaves a partial entry, and the history no longer
  loads: the error is \<open>InvalidData\<close>.
\<close>

lemma epochs_torn_append:
  assumes "0 < n" and "n < 16"
    and "hm_get d epochs_file = Some f" and "f_data f = concat (map epoch_bytes es) @ take n (epoch_bytes e)"
  shows "epochs_load d = Inl (Io InvalidData)"
proof -
  have "length (f_data f) = 16 * length es + n" using assms by (simp add: length_epochs)
  then have "length (f_data f) mod 16 \<noteq> 0" using assms by simp
  then show ?thesis using assms(3) by (simp add: epochs_load_def fs_read_def)
qed

section \<open>The epoch of an offset, and where an epoch ended\<close>

text \<open>
  The epoch a history gives to the record at \<open>offset\<close>: that of the last entry starting at or
  before it. \<open>end_offset_for\<close> splits the log there: below the answer are exactly the records of
  epochs up to the one asked for.
\<close>

definition epoch_at :: "epoch_entries \<Rightarrow> nat \<Rightarrow> nat option" where
  "epoch_at es offset =
     (let before = filter (\<lambda>e. snd e \<le> offset) es
      in if before = [] then None else Some (fst (last before)))"

lemma epoch_at_Cons:
  assumes "epochs_wf (e # es)"
  shows "epoch_at (e # es) offset =
    (if snd e \<le> offset then (case epoch_at es offset of None \<Rightarrow> Some (fst e) | Some x \<Rightarrow> Some x) else None)"
proof (cases "snd e \<le> offset")
  case False
  then have "filter (\<lambda>x. snd x \<le> offset) es = []"
    using assms by (fastforce simp: epochs_wf_Cons filter_empty_conv)
  then show ?thesis using False by (simp add: epoch_at_def)
qed (simp add: epoch_at_def Let_def)

lemma epoch_at_mem: "epoch_at es offset = Some x \<Longrightarrow> \<exists>e \<in> set es. fst e = x \<and> snd e \<le> offset"
proof -
  assume a: "epoch_at es offset = Some x"
  let ?b = "filter (\<lambda>e. snd e \<le> offset) es"
  have "?b \<noteq> []" and "fst (last ?b) = x"
    using a by (auto simp: epoch_at_def Let_def split: if_splits)
  then show ?thesis using last_in_set [of ?b] by auto
qed

lemma epoch_at_tail_None:
  assumes "epochs_wf (e # es)" and "\<not> snd e \<le> offset"
  shows "epoch_at es offset = None"
proof (rule ccontr)
  assume "epoch_at es offset \<noteq> None"
  then obtain e' where "e' \<in> set es" "snd e' \<le> offset" by (auto dest: epoch_at_mem)
  then show False using assms by (fastforce simp: epochs_wf_Cons)
qed

lemma end_offset_loop_split:
  assumes "epochs_wf es" and "offset < log_end"
  shows "offset < end_offset_loop es epoch log_end True \<longleftrightarrow>
    (case epoch_at es offset of None \<Rightarrow> True | Some x \<Rightarrow> x \<le> epoch)"
  using assms
proof (induction es)
  case Nil
  then show ?case by (simp add: epoch_at_def)
next
  case (Cons e es)
  have wf: "epochs_wf es" using Cons.prems by (simp add: epochs_wf_Cons)
  obtain ep st where e: "e = (ep, st)" by (cases e)
  note at = epoch_at_Cons [OF Cons.prems(1), unfolded e]
  show ?case
  proof (cases "epoch < ep")
    case True
    have "epoch < x" if "epoch_at es offset = Some x" for x
      using epoch_at_mem [OF that] Cons.prems(1) True e by (fastforce simp: epochs_wf_Cons)
    then show ?thesis using True e by (auto simp: at not_le split: option.splits)
  next
    case False
    then show ?thesis
      using Cons.IH [OF wf Cons.prems(2)] e epoch_at_tail_None [OF Cons.prems(1)]
      by (auto simp: at split: option.splits)
  qed
qed

lemma end_offset_for_split:
  assumes wf: "epochs_wf es" and off: "offset < log_end" and at: "epoch_at es offset = Some x"
  shows "offset < end_offset_for es epoch log_end \<longleftrightarrow> x \<le> epoch"
proof (cases es)
  case Nil
  then show ?thesis using at by (simp add: epoch_at_def)
next
  case (Cons e es')
  obtain ep st where e: "e = (ep, st)" by (cases e)
  show ?thesis
  proof (cases "epoch < ep")
    case True
    obtain e' where "e' \<in> set es" "fst e' = x" using epoch_at_mem [OF at] by blast
    then have "ep \<le> x" using wf Cons e by (auto simp: epochs_wf_Cons)
    then show ?thesis using True Cons e by (simp add: end_offset_for_def)
  next
    case False
    then have "end_offset_for es epoch log_end = end_offset_loop es epoch log_end True"
      using Cons e by (simp add: end_offset_for_def)
    then show ?thesis using end_offset_loop_split [OF wf off, of epoch] at by simp
  qed
qed

lemma end_offset_for_le:
  assumes "\<forall>e \<in> set es. snd e \<le> log_end"
  shows "end_offset_for es epoch log_end \<le> log_end"
proof -
  have "end_offset_loop es epoch log_end known \<le> log_end" for known
    using assms by (induction es arbitrary: known) auto
  then show ?thesis by (simp add: end_offset_for_def)
qed

end
