(* ===== verification/LogProperties.thy ===== *)
theory LogProperties
  imports LogRecovery EpochCheckpoint
begin

text \<open>
  The properties of the storage engine, on its own states: the abstraction \<open>log_records\<close> reads
  the records off the directory, and every operation of the log is an operation on that
  sequence. The sample log of the witnesses is a fresh directory with one record appended.
\<close>

section \<open>A sample log\<close>

definition no_crc :: "bytes \<Rightarrow> u32" where "no_crc bs = 0"

definition os_config :: log_config where
  "os_config = default_log_config\<lparr>fsync := OsDecides\<rparr>"

definition empty_log :: log where
  "empty_log = \<lparr>lg_closed = [],
     lg_active = \<lparr>sg_base = 0, sg_index = [], sg_next = 0, sg_size = 0, sg_since_index = 0\<rparr>,
     lg_durable = None, lg_dirty = 0, lg_last_flush = 0\<rparr>"

definition empty_dir :: disk where
  "empty_dir = [(log_path 0, \<lparr>f_data = [], f_synced = 0\<rparr>), (index_path 0, \<lparr>f_data = [], f_synced = 0\<rparr>)]"

definition sample_record :: log_record where
  "sample_record = \<lparr>lr_offset = 0, lr_timestamp_ms = 7, lr_key = Some [1], lr_value = [2, 3]\<rparr>"

definition one_log :: log where
  "one_log = empty_log\<lparr>lg_active := \<lparr>sg_base = 0, sg_index = [], sg_next = 1, sg_size = 35,
     sg_since_index = 35\<rparr>, lg_dirty := 35\<rparr>"

definition one_dir :: disk where
  "one_dir = [(log_path 0, \<lparr>f_data = encode no_crc sample_record, f_synced = 0\<rparr>),
     (index_path 0, \<lparr>f_data = [], f_synced = 0\<rparr>)]"

lemma os_config_ok:
  "validate os_config = Inr ()" "fsync os_config = OsDecides" "max_record_bytes os_config = 2 ^ 24"
  by (simp_all add: os_config_def default_log_config_def validate_def)

lemma empty_log_open: "log_open no_crc os_config 0 [] = Inr (empty_log, empty_dir)"
  by (simp add: log_open_def os_config_ok segment_create_def fs_create_new_def fs_exists_def
      index_create_def fs_create_def empty_log_def empty_dir_def)

lemma empty_log_ok: "log_ok no_crc os_config empty_log empty_dir 0 [] []"
  using log_open_fresh [OF os_config_ok(1), of "[]" no_crc 0] empty_log_open by simp

lemma sample_encoded: "encoded_len sample_record = 35" "lr_offset sample_record = 0"
  by (simp_all add: encoded_len_def sample_record_def key_len_def)

lemma one_log_append:
  "append_record no_crc os_config 0 sample_record (empty_log, empty_dir) = Inr ((0, None), one_log, one_dir)"
  by (simp add: append_record_def sample_encoded os_config_ok seg_append_def empty_log_def
      empty_dir_def one_log_def one_dir_def fs_append_def Let_def)
    (simp add: os_config_def default_log_config_def)

lemma one_log_ok: "log_ok no_crc os_config one_log one_dir 0 [] [sample_record]"
proof -
  obtain l' d' rss ra where r: "append_record no_crc os_config 0 sample_record (empty_log, empty_dir) =
      Inr ((log_next_offset empty_log, lg_durable l'), l', d')"
    and ok: "log_ok no_crc os_config l' d' 0 rss ra" "concat rss @ ra = [sample_record]"
    using append_record_ok [OF empty_log_ok, where r = sample_record and now = 0]
    by (auto simp: sample_encoded log_next_offset_def empty_log_def os_config_ok)
  have l: "l' = one_log" "d' = one_dir" using r by (simp_all add: one_log_append)
  have "rss = []" using log_okD(2) [OF ok(1)] by (simp add: l one_log_def empty_log_def closed_ok_Nil)
  then show ?thesis using ok l by simp
qed

lemma one_log_inv:
  "log_inv no_crc os_config one_log one_dir" "log_records no_crc os_config one_log one_dir = [sample_record]"
  "log_start_offset one_log = 0" "log_next_offset one_log = 1" "lg_durable one_log = None"
  using log_ok_abs [OF one_log_ok] by (simp_all add: one_log_def empty_log_def)

section \<open>Append\<close>



text \<open>
  C17. A record fetched from a leader (\<open>Log::append_replicated\<close>) is accepted only if its offset is
  exactly the log's end, and then it is stored unchanged, with its offset and timestamp; any
  other offset is refused, so replication makes neither gaps nor rewrites.
\<close>

theorem append_replicated_exact:
  assumes "log_inv crc cfg l d" and "log_next_offset l + 1 < 2 ^ 64"
  shows "case append_replicated crc cfg now r (l, d) of
      Inl e \<Rightarrow> unat (lr_offset r) \<noteq> log_next_offset l \<or> max_record_bytes cfg < encoded_len r
    | Inr ((offset, durable), l', d') \<Rightarrow>
        unat (lr_offset r) = log_next_offset l \<and> offset = log_next_offset l \<and>
        log_inv crc cfg l' d' \<and> log_records crc cfg l' d' = log_records crc cfg l d @ [r] \<and>
        log_next_offset l' = offset + 1 \<and> durable = lg_durable l'"
proof -
  obtain rss ra where ok: "log_ok crc cfg l d (log_start_offset l) rss ra"
    and rs: "log_records crc cfg l d = concat rss @ ra"
    using log_inv_ok [OF assms(1)] .
  show ?thesis
  proof (cases "unat (lr_offset r) = log_next_offset l \<and> encoded_len r \<le> max_record_bytes cfg")
    case False
    then show ?thesis by (auto simp: append_replicated_def append_record_def Let_def)
  next
    case True
    obtain l' d' rss' ra' where "append_record crc cfg now r (l, d) =
        Inr ((log_next_offset l, lg_durable l'), l', d')"
      "log_ok crc cfg l' d' (log_start_offset l) rss' ra'" "concat rss' @ ra' = concat rss @ ra @ [r]"
      "log_next_offset l' = log_next_offset l + 1"
      using append_record_ok [OF ok, of r now] True assms(2) by blast
    then show ?thesis
      using True log_ok_abs(4,5) [of crc cfg l' d' "log_start_offset l" rss' ra'] rs
      by (simp add: append_replicated_def)
  qed
qed

theorem append_replicated_exact_witness:
  "\<exists>e. append_replicated no_crc os_config 0 sample_record (one_log, one_dir) = Inl e"
  using append_replicated_exact [OF one_log_inv(1), of sample_record 0]
  by (auto simp: one_log_inv sample_encoded split: sum.splits)

section \<open>Read\<close>



section \<open>Truncate\<close>

text \<open>
  C15. Truncating the tail (\<open>Log::truncate_suffix\<close>) to an offset the log holds keeps exactly the
  records before it, across any number of segments, and lowers the durable offset with it; a
  target at or past the end changes nothing; a target before the start is refused.
\<close>

theorem truncate_keeps_prefix:
  assumes "log_inv crc cfg l d"
  shows "if log_next_offset l \<le> n then truncate_suffix crc cfg n (l, d) = Inr (l, d)
    else if n < log_start_offset l then truncate_suffix crc cfg n (l, d) = Inl (OutOfRange n)
    else case truncate_suffix crc cfg n (l, d) of
        Inl e \<Rightarrow> False
      | Inr (l', d') \<Rightarrow>
          log_inv crc cfg l' d' \<and>
          log_records crc cfg l' d' = take (n - log_start_offset l) (log_records crc cfg l d) \<and>
          log_start_offset l' = log_start_offset l \<and> log_next_offset l' = n \<and>
          lg_durable l' = (case (lg_durable l, checked_pred n) of
            (Some j, Some lst) \<Rightarrow> Some (min j lst) | _ \<Rightarrow> None)"
proof -
  obtain rss ra where ok: "log_ok crc cfg l d (log_start_offset l) rss ra"
    and rs: "log_records crc cfg l d = concat rss @ ra"
    using log_inv_ok [OF assms(1)] .
  show ?thesis
  proof (cases "log_start_offset l \<le> n \<and> n < log_next_offset l")
    case True
    then obtain l' d' rss' ra' where "truncate_suffix crc cfg n (l, d) = Inr (l', d')"
      "log_ok crc cfg l' d' (log_start_offset l) rss' ra'"
      "concat rss' @ ra' = take (n - log_start_offset l) (concat rss @ ra)" "log_next_offset l' = n"
      "lg_durable l' = (case (lg_durable l, checked_pred n) of
        (Some j, Some lst) \<Rightarrow> Some (min j lst) | _ \<Rightarrow> None)"
      using truncate_suffix_ok [OF ok, of n] by blast
    then show ?thesis
      using True log_ok_abs(1,4,5) [of crc cfg l' d' "log_start_offset l" rss' ra'] rs by simp
  next
    case False
    then show ?thesis using truncate_suffix_other [OF ok, of n] by auto
  qed
qed

theorem truncate_keeps_prefix_witness:
  "case truncate_suffix no_crc os_config 0 (one_log, one_dir) of
     Inl e \<Rightarrow> False | Inr (l', d') \<Rightarrow> log_records no_crc os_config l' d' = [] \<and> log_next_offset l' = 0"
  using truncate_keeps_prefix [OF one_log_inv(1), of 0]
  by (auto simp: one_log_inv split: sum.splits)

section \<open>Crashes\<close>


definition torn_dir :: disk where
  "torn_dir = [(log_path 0, \<lparr>f_data = take 20 (encode no_crc sample_record), f_synced = 20\<rparr>),
     (index_path 0, \<lparr>f_data = [], f_synced = 0\<rparr>)]"

lemma torn_crash: "crash_disk one_dir torn_dir"
proof -
  have "20 \<le> length (encode no_crc sample_record)" by (simp add: sample_encoded)
  then have "crash_file \<lparr>f_data = encode no_crc sample_record, f_synced = 0\<rparr>
      \<lparr>f_data = take 20 (encode no_crc sample_record), f_synced = 20\<rparr>"
    unfolding crash_file_def by (intro exI [of _ 20]) simp
  then show ?thesis by (simp add: crash_disk_def one_dir_def torn_dir_def) (simp add: crash_file_def)
qed


section \<open>The leader-epoch checkpoint\<close>

text \<open>
  The checkpoint (\<open>EpochCheckpoint\<close>) keeps a well-formed history and a file that loads back as
  that history: appending an entry that follows the last one adds it, on stable storage, and
  truncating to a log end drops exactly the entries that start at or past it.
\<close>

theorem epochs_round_trip:
  assumes "epochs_wf es" and "epochs_stored es d"
  shows "epochs_load d = Inr es \<and>
    (\<forall>epoch < 2 ^ 64. \<forall>start < 2 ^ 64. (\<forall>e \<in> set es. fst e < epoch \<and> snd e \<le> start) \<longrightarrow>
      (\<exists>d'. epochs_append epoch start (es, d) = Inr (es @ [(epoch, start)], d') \<and>
        epochs_load d' = Inr (es @ [(epoch, start)]))) \<and>
    (\<forall>n. \<exists>d'. epochs_truncate_to n (es, d) = Inr (filter (\<lambda>e. snd e < n) es, d') \<and>
      epochs_load d' = Inr (filter (\<lambda>e. snd e < n) es))"
proof (intro conjI allI impI)
  show "epochs_load d = Inr es" by (rule epochs_load_stored [OF assms])
  fix epoch start :: nat
  assume b: "epoch < 2 ^ 64" "start < 2 ^ 64" and f: "\<forall>e \<in> set es. fst e < epoch \<and> snd e \<le> start"
  have "es \<noteq> [] \<Longrightarrow> fst (last es) < epoch \<and> snd (last es) \<le> start" using f by simp
  then show "\<exists>d'. epochs_append epoch start (es, d) = Inr (es @ [(epoch, start)], d') \<and>
      epochs_load d' = Inr (es @ [(epoch, start)])"
    using epochs_append_ok [OF assms b] epochs_load_stored by blast
next
  fix n
  show "\<exists>d'. epochs_truncate_to n (es, d) = Inr (filter (\<lambda>e. snd e < n) es, d') \<and>
      epochs_load d' = Inr (filter (\<lambda>e. snd e < n) es)"
    using epochs_truncate_ok [OF assms] epochs_load_stored by blast
qed

theorem epochs_round_trip_witness:
  "\<exists>d'. epochs_append 3 100 ([], []) = Inr ([(3, 100)], d') \<and> epochs_load d' = Inr [(3, 100)]"
proof -
  have "epochs_stored [] []" by (simp add: epochs_stored_def)
  from epochs_round_trip [OF epochs_wf_Nil this]
  have "\<forall>epoch < 2 ^ 64. \<forall>start < 2 ^ 64. (\<forall>e \<in> set []. fst e < epoch \<and> snd e \<le> start) \<longrightarrow>
      (\<exists>d'. epochs_append epoch start ([], []) = Inr ([] @ [(epoch, start)], d') \<and>
        epochs_load d' = Inr ([] @ [(epoch, start)]))" by blast
  from this [rule_format, of 3 100] show ?thesis by simp
qed

text \<open>
  \<open>end_offset_for\<close> splits a log at the end of an epoch: a record of the log lies below the
  answer exactly when its epoch is not later than the one asked for. This is what makes it safe
  for a follower to truncate there.
\<close>

theorem end_offset_splits_log:
  assumes "epochs_wf es" and "offset < log_end" and "epoch_at es offset = Some x"
  shows "offset < end_offset_for es epoch log_end \<longleftrightarrow> x \<le> epoch"
  by (rule end_offset_for_split [OF assms])

theorem end_offset_splits_log_witness:
  "(104 < end_offset_for [(4, 0), (6, 105)] 4 200) = (4 \<le> (4 :: nat))"
  by (rule end_offset_splits_log) (simp_all add: epochs_wf_def epoch_at_def)

end
