(* ===== verification/Machines.thy ===== *)
theory Machines
  imports Prelude
begin

text \<open>
  The interfaces the state machines of the development share: an invariant every step keeps,
  and an order on states every step follows. A component proves the step once and gets every
  run from the locale.
\<close>

section \<open>Invariants\<close>

locale preserved =
  fixes step :: "'s \<Rightarrow> 's \<Rightarrow> bool"
    and inv :: "'s \<Rightarrow> bool"
  assumes keeps: "step s s' \<Longrightarrow> inv s \<Longrightarrow> inv s'"
begin

lemma run: "step\<^sup>*\<^sup>* s s' \<Longrightarrow> inv s \<Longrightarrow> inv s'"
  by (induction rule: rtranclp_induct) (auto intro: keeps)

lemma run_pair: "step\<^sup>*\<^sup>* s s' \<Longrightarrow> step\<^sup>*\<^sup>* s' s'' \<Longrightarrow> inv s \<Longrightarrow> inv s' \<and> inv s''"
  using run by blast

end

section \<open>Monotone machines\<close>

text \<open>\<open>later s s'\<close> says that \<open>s'\<close> may come after \<open>s\<close>; every step from a good state obeys it.\<close>

locale monotone = preserved +
  fixes later :: "'s \<Rightarrow> 's \<Rightarrow> bool"
  assumes later_refl: "inv s \<Longrightarrow> later s s"
    and later_trans: "inv s \<Longrightarrow> inv s' \<Longrightarrow> later s s' \<Longrightarrow> later s' s'' \<Longrightarrow> later s s''"
    and advances: "step s s' \<Longrightarrow> inv s \<Longrightarrow> later s s'"
begin

lemma run_later: "step\<^sup>*\<^sup>* s s' \<Longrightarrow> inv s \<Longrightarrow> later s s'"
proof (induction rule: rtranclp_induct)
  case base
  then show ?case by (rule later_refl)
next
  case (step s' s'')
  then show ?case using run [of s s'] later_trans advances by blast
qed

end

text \<open>A step function as a relation, for machines that take a list of inputs.\<close>

definition step_of :: "('i \<Rightarrow> 's \<Rightarrow> 's) \<Rightarrow> 's \<Rightarrow> 's \<Rightarrow> bool" where
  "step_of f s s' \<longleftrightarrow> (\<exists>i. s' = f i s)"

lemma step_of_fold: "(step_of f)\<^sup>*\<^sup>* s (fold f is s)"
proof (induction "is" arbitrary: s)
  case (Cons i "is")
  have "step_of f s (f i s)" by (auto simp: step_of_def)
  then show ?case using Cons [of "f i s"] by (simp add: converse_rtranclp_into_rtranclp)
qed simp

end
