(* ===== verification/Controller.thy ===== *)
theory Controller
  imports ProtoCodec Storage Machines
begin

text \<open>
  The controller of \<^verbatim>\<open>src/src/controller/mod.rs\<close>: broker liveness, topic creation, leader
  election from the in-sync replicas, ISR changes, and the snapshot every change is persisted
  to. Requests are handled one at a time under the lock, so the controller is a function from
  a request and a state to a response and a state. Versions and epochs are counters that grow
  by one and are natural numbers here; they become \<open>u64\<close> words where they are encoded. The
  state file is a file of the disk of theory \<open>Storage\<close>.
\<close>

section \<open>State\<close>

record broker_state =
  bs_addr :: string
  bs_peer_addr :: string
  bs_alive :: bool
  bs_last_heartbeat :: nat

record partition_state =
  ps_leader :: i32
  ps_leader_epoch :: nat
  ps_replicas :: "u32 list"
  ps_isr :: "u32 list"

record ctl_state =
  st_version :: nat
  st_brokers :: "(u32, broker_state) hashmap"
  st_topics :: "(string, partition_state list) hashmap"

record ctl_config =
  cc_state_file :: string
  cc_session_timeout :: nat

record controller =
  ct_state :: ctl_state
  ct_disk :: disk

text \<open>The ids of the brokers that are alive.\<close>

definition alive_ids :: "ctl_state \<Rightarrow> u32 list" where
  "alive_ids st = map fst (filter (\<lambda>(_, b). bs_alive b) (st_brokers st))"

section \<open>Election\<close>

text \<open>The body of the loop of \<open>elect_where_needed\<close>, for the ids that are alive.\<close>

definition elect_partition :: "u32 list \<Rightarrow> partition_state \<Rightarrow> partition_state \<times> bool" where
  "elect_partition alive p =
     (let leader_alive = (0 \<le> sint (ps_leader p) \<and> ps_leader p \<in> set alive)
      in if leader_alive then (p, False)
         else case find (\<lambda>id. id \<in> set alive) (ps_isr p) of
           Some new_leader \<Rightarrow>
             (p\<lparr>ps_leader := new_leader, ps_leader_epoch := ps_leader_epoch p + 1,
                ps_isr := filter (\<lambda>id. id \<in> set alive) (ps_isr p)\<rparr>, True)
         | None \<Rightarrow>
             if ps_leader p \<noteq> - 1 then (p\<lparr>ps_leader := - 1\<rparr>, True) else (p, False))"

definition elect_where_needed :: "ctl_state \<Rightarrow> ctl_state \<times> bool" where
  "elect_where_needed st =
     (let alive = alive_ids st
      in (st\<lparr>st_topics := hm_map_values (map (fst \<circ> elect_partition alive)) (st_topics st)\<rparr>,
          list_ex (\<lambda>(_, parts). list_ex (snd \<circ> elect_partition alive) parts) (st_topics st)))"

section \<open>The snapshot\<close>

abbreviation (input) SNAPSHOT_MAGIC :: u32 where "SNAPSHOT_MAGIC \<equiv> 0x524C4332"

definition put_broker_entry :: "u32 \<times> broker_state \<Rightarrow> bytes" where
  "put_broker_entry e = put_u32 (fst e) @ put_str (bs_addr (snd e)) @ put_str (bs_peer_addr (snd e))"

definition put_partition_state :: "partition_state \<Rightarrow> bytes" where
  "put_partition_state p =
     put_i32 (ps_leader p) @ put_u64 (word_of_nat (ps_leader_epoch p)) @
     put_list put_u32 (ps_replicas p) @ put_list put_u32 (ps_isr p)"

definition put_topic_entry :: "string \<times> partition_state list \<Rightarrow> bytes" where
  "put_topic_entry e = put_str (fst e) @ put_list put_partition_state (snd e)"

text \<open>\<open>keys().collect()\<close>, \<open>sort()\<close>, and the value of each key.\<close>

definition sorted_entries :: "('k :: linorder, 'v) hashmap \<Rightarrow> ('k \<times> 'v) list" where
  "sorted_entries m = map (\<lambda>k. (k, the (hm_get m k))) (sort (map fst m))"

definition snapshot_bytes :: "ctl_state \<Rightarrow> bytes" where
  "snapshot_bytes st =
     put_u32 SNAPSHOT_MAGIC @ put_u64 (word_of_nat (st_version st)) @
     put_list put_broker_entry (sorted_entries (st_brokers st)) @
     put_list put_topic_entry (sorted_entries (st_topics st))"

text \<open>
  \<open>Path::with_extension\<close>: what follows the last dot of the file name is replaced, unless the
  dot is its first character.
\<close>

definition with_extension :: "string \<Rightarrow> string \<Rightarrow> string" where
  "with_extension path ext =
     (let rv = rev path;
          suffix = takeWhile (\<lambda>c. c \<noteq> CHR ''.'' \<and> c \<noteq> CHR ''/'') rv;
          stem = rev (drop (length suffix) rv)
      in if stem = [] \<or> last stem = CHR ''/'' \<or> length stem = 1 \<or> last (butlast stem) = CHR ''/''
         then path @ ''.'' @ ext
         else stem @ ext)"

definition persist_snapshot :: "string \<Rightarrow> ctl_state \<Rightarrow> disk \<Rightarrow> storage_error + disk" where
  "persist_snapshot path st d =
     (let buf = snapshot_bytes st; tmp = with_extension path ''tmp''
      in bind_r (fs_append tmp buf (fs_create tmp d)) (\<lambda>d.
         bind_r (fs_sync tmp d) (\<lambda>d.
         fs_rename tmp path d)))"

definition r_broker_entry :: "nat \<Rightarrow> (u32 \<times> broker_state) parser" where
  "r_broker_entry now =
     pbind r_u32 (\<lambda>id.
     pbind r_string (\<lambda>addr.
     pbind r_string (\<lambda>peer_addr.
       ret (id, \<lparr>bs_addr = addr, bs_peer_addr = peer_addr, bs_alive = False,
                 bs_last_heartbeat = now\<rparr>))))"

definition r_partition_state :: "partition_state parser" where
  "r_partition_state =
     pbind r_i32 (\<lambda>leader.
     pbind r_u64 (\<lambda>leader_epoch.
     pbind (r_list r_u32) (\<lambda>replicas.
     pbind (r_list r_u32) (\<lambda>isr.
       ret \<lparr>ps_leader = leader, ps_leader_epoch = unat leader_epoch, ps_replicas = replicas,
            ps_isr = isr\<rparr>))))"

definition r_topic_entry :: "(string \<times> partition_state list) parser" where
  "r_topic_entry =
     pbind r_string (\<lambda>name. pbind (r_list r_partition_state) (\<lambda>parts. ret (name, parts)))"

definition insert_all :: "('k \<times> 'v) list \<Rightarrow> ('k, 'v) hashmap" where
  "insert_all es = fold (\<lambda>(k, v) m. hm_insert k v m) es []"

definition parse_snapshot :: "nat \<Rightarrow> ctl_state parser" where
  "parse_snapshot now =
     pbind r_u64 (\<lambda>version.
     pbind (r_list (r_broker_entry now)) (\<lambda>brokers.
     pbind (r_list r_topic_entry) (\<lambda>topics.
     pbind expect_end (\<lambda>_.
       ret \<lparr>st_version = unat version, st_brokers = insert_all brokers,
            st_topics = insert_all topics\<rparr>))))"

definition empty_state :: ctl_state where
  "empty_state = \<lparr>st_version = 0, st_brokers = [], st_topics = []\<rparr>"

definition load_snapshot :: "string \<Rightarrow> nat \<Rightarrow> disk \<Rightarrow> storage_error + ctl_state" where
  "load_snapshot path now d =
     (case fs_read path d of
        Inl (Io NotFound) \<Rightarrow> Inr empty_state
      | Inl e \<Rightarrow> Inl e
      | Inr bytes \<Rightarrow>
          (case r_u32 bytes of
             Inl _ \<Rightarrow> Inl (Io InvalidData)
           | Inr (magic, rest) \<Rightarrow>
               if magic \<noteq> SNAPSHOT_MAGIC then Inl (Io InvalidData)
               else case parse_snapshot now rest of
                 Inl _ \<Rightarrow> Inl (Io InvalidData)
               | Inr (st, _) \<Rightarrow> Inr st))"

section \<open>Requests\<close>

text \<open>
  \<open>mutate\<close>: the change, and if it reports one, the version and the snapshot. A failure to
  persist is only logged.
\<close>

definition mutate ::
    "ctl_config \<Rightarrow> (ctl_state \<Rightarrow> ctl_state \<times> bool) \<Rightarrow> controller \<Rightarrow> controller \<times> nat" where
  "mutate cfg f c =
     (let (st, changed) = f (ct_state c)
      in if changed then
           let st = st\<lparr>st_version := st_version st + 1\<rparr>;
               d = (case persist_snapshot (cc_state_file cfg) st (ct_disk c) of
                      Inl _ \<Rightarrow> ct_disk c | Inr d \<Rightarrow> d)
           in (\<lparr>ct_state = st, ct_disk = d\<rparr>, st_version st)
         else (c\<lparr>ct_state := st\<rparr>, st_version st))"

definition register_broker :: "nat \<Rightarrow> u32 \<Rightarrow> string \<Rightarrow> string \<Rightarrow> ctl_state \<Rightarrow> ctl_state \<times> bool" where
  "register_broker now broker_id addr peer_addr st =
     (let entry = (case hm_get (st_brokers st) broker_id of
                     Some b \<Rightarrow> b
                   | None \<Rightarrow> \<lparr>bs_addr = addr, bs_peer_addr = peer_addr, bs_alive = False,
                              bs_last_heartbeat = now\<rparr>);
          changed = (\<not> bs_alive entry \<or> bs_addr entry \<noteq> addr \<or> bs_peer_addr entry \<noteq> peer_addr);
          entry = entry\<lparr>bs_addr := addr, bs_peer_addr := peer_addr, bs_alive := True,
                        bs_last_heartbeat := now\<rparr>;
          (st, elected) = elect_where_needed
            (st\<lparr>st_brokers := hm_insert broker_id entry (st_brokers st)\<rparr>)
      in (st, changed \<or> elected))"

definition broker_heartbeat :: "nat \<Rightarrow> u32 \<Rightarrow> ctl_state \<Rightarrow> ctl_state \<times> bool" where
  "broker_heartbeat now broker_id st =
     (case hm_get (st_brokers st) broker_id of
        None \<Rightarrow> (st, False)
      | Some b \<Rightarrow>
          let was_dead = \<not> bs_alive b;
              b = b\<lparr>bs_alive := True, bs_last_heartbeat := now\<rparr>;
              st = st\<lparr>st_brokers := hm_insert broker_id b (st_brokers st)\<rparr>
          in if was_dead then elect_where_needed st else (st, False))"

definition create_topic :: "string \<Rightarrow> u32 \<Rightarrow> u32 \<Rightarrow> ctl_state \<Rightarrow> ctl_state \<times> error_code" where
  "create_topic topic partitions replication_factor st =
     (let rf = max replication_factor 1
      in if hm_get (st_topics st) topic \<noteq> None then (st, TopicExists)
         else
           let alive = sort (alive_ids st)
           in if partitions = 0 \<or> partitions > 1024 \<or> length alive < unat rf then (st, MalformedErr)
              else
                let parts = map (\<lambda>p.
                      let replicas = map (\<lambda>i. alive ! ((p + i) mod length alive)) [0..<unat rf]
                      in \<lparr>ps_leader = replicas ! 0, ps_leader_epoch = 1, ps_replicas = replicas,
                          ps_isr = replicas\<rparr>) [0..<unat partitions]
                in (st\<lparr>st_topics := hm_insert topic parts (st_topics st)\<rparr>, NoError))"

definition alter_isr :: "string \<Rightarrow> u32 \<Rightarrow> u64 \<Rightarrow> u32 list \<Rightarrow> ctl_state \<Rightarrow> ctl_state \<times> bool \<times> error_code" where
  "alter_isr topic part leader_epoch isr st =
     (case hm_get (st_topics st) topic of
        None \<Rightarrow> (st, False, UnknownTopicOrPartition)
      | Some parts \<Rightarrow>
          if length parts \<le> unat part then (st, False, UnknownTopicOrPartition)
          else
            let p = parts ! unat part
            in if unat leader_epoch \<noteq> ps_leader_epoch p then (st, False, FencedEpoch)
               else if isr = [] \<or> ps_leader p \<notin> set isr \<or> \<not> list_all (\<lambda>id. id \<in> set (ps_replicas p)) isr
               then (st, False, MalformedErr)
               else if ps_isr p = isr then (st, False, NoError)
               else
                 (st\<lparr>st_topics := hm_insert topic (parts[unat part := p\<lparr>ps_isr := isr\<rparr>]) (st_topics st)\<rparr>,
                  True, NoError))"

definition ctl_cluster_meta :: "ctl_state \<Rightarrow> cluster_meta" where
  "ctl_cluster_meta st =
     \<lparr>cm_version = word_of_nat (st_version st),
      cm_brokers = sort (map (\<lambda>(id, b). (id, bs_addr b)) (st_brokers st)),
      cm_peers = sort (map (\<lambda>(id, b). (id, bs_peer_addr b)) (st_brokers st)),
      cm_topics = sort_key tm_name (map (\<lambda>(name, parts).
        \<lparr>tm_name = name,
         tm_partitions = map (\<lambda>(i, p).
           \<lparr>pm_partition = word_of_nat i, pm_leader = ps_leader p,
            pm_leader_epoch = word_of_nat (ps_leader_epoch p), pm_replicas = ps_replicas p,
            pm_isr = ps_isr p\<rparr>) (enumerate 0 parts)\<rparr>) (st_topics st))\<rparr>"

definition handle :: "ctl_config \<Rightarrow> nat \<Rightarrow> request \<Rightarrow> controller \<Rightarrow> controller \<times> response" where
  "handle cfg now req c =
     (case req of
        RegisterBrokerReq broker_id addr peer_addr \<Rightarrow>
          let (c, version) = mutate cfg (register_broker now broker_id addr peer_addr) c
          in (c, RegisterBrokerResp NoError (word_of_nat version))
      | BrokerHeartbeatReq broker_id _ \<Rightarrow>
          let known = (hm_get (st_brokers (ct_state c)) broker_id \<noteq> None);
              (c, version) = mutate cfg (broker_heartbeat now broker_id) c
          in (c, BrokerHeartbeatResp (if known then NoError else UnknownMember) (word_of_nat version))
      | ControllerMetadataReq \<Rightarrow>
          (c, ControllerMetadataResp NoError (ctl_cluster_meta (ct_state c)))
      | CreateTopicReq topic partitions replication_factor \<Rightarrow>
          let error = snd (create_topic topic partitions replication_factor (ct_state c));
              (c, _) = mutate cfg (\<lambda>st.
                let (st, error) = create_topic topic partitions replication_factor st
                in (st, error = NoError)) c
          in (c, CreateTopicResp error)
      | AlterIsrReq topic part leader_epoch isr \<Rightarrow>
          let error = snd (snd (alter_isr topic part leader_epoch isr (ct_state c)));
              (c, version) = mutate cfg (\<lambda>st.
                let (st, changed, _) = alter_isr topic part leader_epoch isr st
                in (st, changed)) c
          in (c, AlterIsrResp error (word_of_nat version))
      | _ \<Rightarrow> (c, ControllerMetadataResp MalformedErr default_cluster_meta))"

text \<open>The liveness sweep, run every 200 ms.\<close>

definition mark_dead :: "ctl_config \<Rightarrow> nat \<Rightarrow> broker_state \<Rightarrow> broker_state \<times> bool" where
  "mark_dead cfg now b =
     (if bs_alive b \<and> now - bs_last_heartbeat b > cc_session_timeout cfg
      then (b\<lparr>bs_alive := False\<rparr>, True) else (b, False))"

definition sweep_mutation :: "ctl_config \<Rightarrow> nat \<Rightarrow> ctl_state \<Rightarrow> ctl_state \<times> bool" where
  "sweep_mutation cfg now st =
     (let changed = list_ex (\<lambda>(_, b). snd (mark_dead cfg now b)) (st_brokers st);
          st = st\<lparr>st_brokers := hm_map_values (\<lambda>b. fst (mark_dead cfg now b)) (st_brokers st)\<rparr>
      in if changed then (fst (elect_where_needed st), True) else (st, False))"

definition sweep_liveness :: "ctl_config \<Rightarrow> nat \<Rightarrow> controller \<Rightarrow> controller" where
  "sweep_liveness cfg now c = fst (mutate cfg (sweep_mutation cfg now) c)"

text \<open>Starting the controller on a state file.\<close>

definition controller_start :: "ctl_config \<Rightarrow> nat \<Rightarrow> disk \<Rightarrow> storage_error + controller" where
  "controller_start cfg now d =
     bind_r (load_snapshot (cc_state_file cfg) now d) (\<lambda>st. Inr \<lparr>ct_state = st, ct_disk = d\<rparr>)"

end
