(* ===== verification/ControllerFacts.thy ===== *)
theory ControllerFacts
  imports Controller
begin

text \<open>
  The correctness of the controller: the invariant of its partitions, the order on states every
  request, sweep and restart follows (one leader per epoch, no unclean election), and the
  snapshot round trip that carries it across restarts.
\<close>

section \<open>Partitions\<close>

text \<open>The in-sync set is a non-empty part of the replicas and contains the leader, if there is one.\<close>

definition part_ok :: "partition_state \<Rightarrow> bool" where
  "part_ok p \<longleftrightarrow>
     ps_isr p \<noteq> [] \<and> set (ps_isr p) \<subseteq> set (ps_replicas p) \<and>
     (ps_leader p = - 1 \<or> ps_leader p \<in> set (ps_isr p))"

text \<open>
  What may come after a partition's state: the replicas stay, the epoch does not go back, and
  within an epoch the only change of leader is to none.
\<close>

definition part_later :: "partition_state \<Rightarrow> partition_state \<Rightarrow> bool" where
  "part_later p p' \<longleftrightarrow>
     ps_replicas p' = ps_replicas p \<and> ps_leader_epoch p \<le> ps_leader_epoch p' \<and>
     (ps_leader_epoch p' = ps_leader_epoch p \<longrightarrow> ps_leader p' = ps_leader p \<or> ps_leader p' = - 1)"

lemma part_later_refl [simp]: "part_later p p"
  by (simp add: part_later_def)

lemma part_later_trans: "part_later p p' \<Longrightarrow> part_later p' p'' \<Longrightarrow> part_later p p''"
  by (auto simp: part_later_def)

text \<open>
  A clean step of a partition: a new leader is a member of the in-sync set and gets a new epoch,
  and the in-sync set then only loses members.
\<close>

definition part_clean :: "partition_state \<Rightarrow> partition_state \<Rightarrow> bool" where
  "part_clean p p' \<longleftrightarrow>
     (ps_leader_epoch p' = ps_leader_epoch p \<and> (ps_leader p' = ps_leader p \<or> ps_leader p' = - 1)) \<or>
     (ps_leader_epoch p' = ps_leader_epoch p + 1 \<and> ps_leader p' \<in> set (ps_isr p) \<and>
      ps_leader p' \<in> set (ps_isr p') \<and> set (ps_isr p') \<subseteq> set (ps_isr p))"

lemma elect_partition_ok:
  assumes "part_ok p"
  shows "part_ok (fst (elect_partition alive p))" and "part_later p (fst (elect_partition alive p))"
    and "part_clean p (fst (elect_partition alive p))"
    and "\<not> snd (elect_partition alive p) \<Longrightarrow> fst (elect_partition alive p) = p"
proof -
  let ?r = "elect_partition alive p"
  have "part_ok (fst ?r) \<and> part_later p (fst ?r) \<and> part_clean p (fst ?r) \<and> (\<not> snd ?r \<longrightarrow> fst ?r = p)"
  proof (cases "find (\<lambda>id. id \<in> set alive) (ps_isr p)")
    case None
    then show ?thesis
      using assms by (auto simp: elect_partition_def Let_def part_ok_def part_later_def part_clean_def)
  next
    case (Some n)
    then have n: "n \<in> set (ps_isr p)" "n \<in> set alive" by (auto dest: find_SomeD)
    then have "filter (\<lambda>id. id \<in> set alive) (ps_isr p) \<noteq> []" by (auto simp: filter_empty_conv)
    then show ?thesis
      using assms n Some
      by (auto simp: elect_partition_def Let_def part_ok_def part_later_def part_clean_def)
  qed
  then show "part_ok (fst ?r)" "part_later p (fst ?r)" "part_clean p (fst ?r)"
    and "\<not> snd ?r \<Longrightarrow> fst ?r = p" by blast+
qed

text \<open>
  After an election the partition has a leader that is alive, or it is offline and no member of
  its in-sync set is alive.
\<close>

lemma elect_partition_complete:
  "ps_leader (fst (elect_partition alive p)) \<in> set alive \<or>
   ps_leader (fst (elect_partition alive p)) = - 1 \<and> (\<forall>id \<in> set (ps_isr p). id \<notin> set alive)"
proof (cases "find (\<lambda>id. id \<in> set alive) (ps_isr p)")
  case None
  then have "\<forall>id \<in> set (ps_isr p). id \<notin> set alive" by (simp add: find_None_iff)
  then show ?thesis by (simp add: elect_partition_def Let_def None)
next
  case (Some n)
  then show ?thesis
    using find_SomeD [OF Some] by (simp add: elect_partition_def Let_def)
qed

section \<open>States\<close>

definition ctl_inv :: "ctl_state \<Rightarrow> bool" where
  "ctl_inv st \<longleftrightarrow>
     hm_wf (st_brokers st) \<and> hm_wf (st_topics st) \<and>
     (\<forall>(name, parts) \<in> set (st_topics st). \<forall>p \<in> set parts. part_ok p)"

text \<open>Every partition of every topic, related between two states.\<close>

definition topics_rel :: "(partition_state \<Rightarrow> partition_state \<Rightarrow> bool) \<Rightarrow> ctl_state \<Rightarrow> ctl_state \<Rightarrow> bool" where
  "topics_rel R st st' \<longleftrightarrow>
     (\<forall>name parts. hm_get (st_topics st) name = Some parts \<longrightarrow>
       (\<exists>parts'. hm_get (st_topics st') name = Some parts' \<and> list_all2 R parts parts'))"

definition ctl_later :: "ctl_state \<Rightarrow> ctl_state \<Rightarrow> bool" where
  "ctl_later st st' \<longleftrightarrow> st_version st \<le> st_version st' \<and> topics_rel part_later st st'"

lemma list_all2_same_refl: "(\<And>x. x \<in> set xs \<Longrightarrow> R x x) \<Longrightarrow> list_all2 R xs xs"
  by (simp add: list_all2_conv_all_nth)

lemma topics_rel_same: "st_topics st' = st_topics st \<Longrightarrow> (\<And>p. R p p) \<Longrightarrow> topics_rel R st st'"
  by (auto simp: topics_rel_def intro: list_all2_same_refl)

lemma topics_rel_trans:
  assumes "\<And>p p' p''. R p p' \<Longrightarrow> R p' p'' \<Longrightarrow> R p p''" and "topics_rel R st st'" and "topics_rel R st' st''"
  shows "topics_rel R st st''"
  unfolding topics_rel_def
proof (intro allI impI)
  fix name parts assume "hm_get (st_topics st) name = Some parts"
  then obtain parts' where p': "hm_get (st_topics st') name = Some parts'" "list_all2 R parts parts'"
    using assms(2) by (auto simp: topics_rel_def)
  then obtain parts'' where p'': "hm_get (st_topics st'') name = Some parts''" "list_all2 R parts' parts''"
    using assms(3) by (auto simp: topics_rel_def)
  have "list_all2 R parts parts''"
    by (rule list_all2_trans [OF assms(1) p'(2) p''(2)])
  then show "\<exists>parts''. hm_get (st_topics st'') name = Some parts'' \<and> list_all2 R parts parts''"
    using p''(1) by blast
qed

lemma part_clean_refl [simp]: "part_clean p p"
  by (simp add: part_clean_def)

lemma ctl_inv_get:
  "ctl_inv st \<Longrightarrow> hm_get (st_topics st) name = Some parts \<Longrightarrow> p \<in> set parts \<Longrightarrow> part_ok p"
  by (auto simp: ctl_inv_def dest: map_of_SomeD)

text \<open>What every change of the controller satisfies.\<close>

definition good_change :: "ctl_state \<Rightarrow> ctl_state \<times> bool \<Rightarrow> bool" where
  "good_change st r \<longleftrightarrow>
     ctl_inv (fst r) \<and> st_version (fst r) = st_version st \<and>
     topics_rel part_later st (fst r) \<and> topics_rel part_clean st (fst r) \<and>
     (\<not> snd r \<longrightarrow> snapshot_bytes (fst r) = snapshot_bytes st)"

lemma list_all2_mapI: "(\<And>x. x \<in> set xs \<Longrightarrow> R x (f x)) \<Longrightarrow> list_all2 R xs (map f xs)"
  by (simp add: list_all2_conv_all_nth)

lemma elect_good:
  assumes inv: "ctl_inv st"
  shows "good_change st (elect_where_needed st)"
proof -
  let ?e = "elect_partition (alive_ids st)"
  let ?st = "fst (elect_where_needed st)"
  have topics: "st_topics ?st = hm_map_values (map (fst \<circ> ?e)) (st_topics st)"
    by (simp add: elect_where_needed_def Let_def)
  have "ctl_inv ?st"
    using inv elect_partition_ok(1)
    by (auto simp: ctl_inv_def topics hm_map_values_set elect_where_needed_def Let_def) fastforce
  moreover have "topics_rel R st ?st" if "\<And>p. part_ok p \<Longrightarrow> R p (fst (?e p))" for R
    unfolding topics_rel_def topics
    using ctl_inv_get [OF inv] that by (auto intro!: list_all2_mapI)
  moreover have "?st = st" if "\<not> snd (elect_where_needed st)"
  proof -
    have "map (fst \<circ> ?e) parts = parts" if "(name, parts) \<in> set (st_topics st)" for name parts
    proof (rule map_idI)
      fix p assume p: "p \<in> set parts"
      then have "part_ok p" using inv \<open>(name, parts) \<in> set (st_topics st)\<close> by (auto simp: ctl_inv_def)
      moreover have "\<not> snd (?e p)"
        using \<open>\<not> snd (elect_where_needed st)\<close> p \<open>(name, parts) \<in> set (st_topics st)\<close>
        by (auto simp: elect_where_needed_def Let_def list_ex_iff)
      ultimately show "(fst \<circ> ?e) p = p" using elect_partition_ok(4) by simp
    qed
    then have "hm_map_values (map (fst \<circ> ?e)) (st_topics st) = st_topics st"
      unfolding hm_map_values_def by (intro map_idI) auto
    then show ?thesis by (simp add: elect_where_needed_def Let_def)
  qed
  ultimately show ?thesis
    using elect_partition_ok(2,3) by (auto simp: good_change_def elect_where_needed_def Let_def)
qed

text \<open>Changes of the broker table only, followed by an election or not.\<close>

lemma brokers_only:
  assumes "ctl_inv st" and "hm_wf bs"
  shows "ctl_inv (st\<lparr>st_brokers := bs\<rparr>)" and "topics_rel R (st\<lparr>st_brokers := bs\<rparr>) st' = topics_rel R st st'"
  using assms by (simp_all add: ctl_inv_def topics_rel_def)

lemma elect_after_brokers:
  assumes "ctl_inv st" and "hm_wf bs"
    and "\<not> changed \<Longrightarrow> snapshot_bytes (st\<lparr>st_brokers := bs\<rparr>) = snapshot_bytes st"
  shows "good_change st (fst (elect_where_needed (st\<lparr>st_brokers := bs\<rparr>)),
    changed \<or> snd (elect_where_needed (st\<lparr>st_brokers := bs\<rparr>)))"
  using elect_good [OF brokers_only(1) [OF assms(1,2)]] assms(3)
  by (auto simp: good_change_def brokers_only(2) [OF assms(1,2)])

text \<open>The snapshot of the broker table does not show liveness.\<close>

lemma snapshot_brokers_cong:
  assumes "map fst bs = map fst (st_brokers st)"
    and "\<And>k. map_option (\<lambda>b. (bs_addr b, bs_peer_addr b)) (hm_get bs k) =
      map_option (\<lambda>b. (bs_addr b, bs_peer_addr b)) (hm_get (st_brokers st) k)"
  shows "snapshot_bytes (st\<lparr>st_brokers := bs\<rparr>) = snapshot_bytes st"
proof -
  have "put_broker_entry (k, the (hm_get bs k)) = put_broker_entry (k, the (hm_get (st_brokers st) k))"
    if "k \<in> set (map fst (st_brokers st))" for k
  proof -
    have "hm_get (st_brokers st) k \<noteq> None" using that by (simp add: hm_get_None_iff)
    then show ?thesis using assms(2) [of k]
      by (cases "hm_get bs k"; cases "hm_get (st_brokers st) k") (auto simp: put_broker_entry_def)
  qed
  then have "map put_broker_entry (sorted_entries bs) = map put_broker_entry (sorted_entries (st_brokers st))"
    unfolding sorted_entries_def assms(1) by simp
  moreover have "length (sorted_entries bs) = length (sorted_entries (st_brokers st))"
    using assms(1) by (simp add: sorted_entries_def)
  ultimately show ?thesis by (simp add: snapshot_bytes_def put_list_def)
qed

lemma hm_insert_keys: "hm_get m k = Some v \<Longrightarrow> map fst (hm_insert k v' m) = map fst m"
  by (auto simp: update_keys dest: map_of_SomeD intro: rev_image_eqI)

section \<open>Requests\<close>

lemma register_good:
  assumes "ctl_inv st"
  shows "good_change st (register_broker now broker_id addr peer_addr st)"
proof -
  let ?entry = "case hm_get (st_brokers st) broker_id of
      Some b \<Rightarrow> b
    | None \<Rightarrow> \<lparr>bs_addr = addr, bs_peer_addr = peer_addr, bs_alive = False, bs_last_heartbeat = now\<rparr>"
  let ?new = "?entry\<lparr>bs_addr := addr, bs_peer_addr := peer_addr, bs_alive := True, bs_last_heartbeat := now\<rparr>"
  let ?bs = "hm_insert broker_id ?new (st_brokers st)"
  let ?changed = "\<not> bs_alive ?entry \<or> bs_addr ?entry \<noteq> addr \<or> bs_peer_addr ?entry \<noteq> peer_addr"
  have wf: "hm_wf ?bs" using assms by (simp add: ctl_inv_def)
  have "snapshot_bytes (st\<lparr>st_brokers := ?bs\<rparr>) = snapshot_bytes st" if unch: "\<not> ?changed"
  proof (rule snapshot_brokers_cong)
    obtain b where b: "hm_get (st_brokers st) broker_id = Some b"
      using unch by (cases "hm_get (st_brokers st) broker_id") auto
    then show "map fst ?bs = map fst (st_brokers st)" by (rule hm_insert_keys)
    show "map_option (\<lambda>b. (bs_addr b, bs_peer_addr b)) (hm_get ?bs k) =
        map_option (\<lambda>b. (bs_addr b, bs_peer_addr b)) (hm_get (st_brokers st) k)" for k
      using b unch by simp
  qed
  then show ?thesis
    using elect_after_brokers [OF assms wf, of ?changed]
    by (simp add: register_broker_def Let_def case_prod_beta)
qed

lemma heartbeat_good:
  assumes "ctl_inv st"
  shows "good_change st (broker_heartbeat now broker_id st)"
proof (cases "hm_get (st_brokers st) broker_id")
  case None
  then show ?thesis
    using assms by (auto simp: broker_heartbeat_def good_change_def intro: topics_rel_same)
next
  case (Some b)
  let ?bs = "hm_insert broker_id (b\<lparr>bs_alive := True, bs_last_heartbeat := now\<rparr>) (st_brokers st)"
  have wf: "hm_wf ?bs" using assms by (simp add: ctl_inv_def)
  have snap: "snapshot_bytes (st\<lparr>st_brokers := ?bs\<rparr>) = snapshot_bytes st"
    by (rule snapshot_brokers_cong) (use Some in \<open>auto simp: hm_insert_keys\<close>)
  have "good_change st (st\<lparr>st_brokers := ?bs\<rparr>, False)"
    using brokers_only(1) [OF assms wf] snap by (auto simp: good_change_def intro: topics_rel_same)
  moreover have "good_change st (elect_where_needed (st\<lparr>st_brokers := ?bs\<rparr>))"
    using elect_after_brokers [OF assms wf, of False] snap by simp
  ultimately show ?thesis using Some by (simp add: broker_heartbeat_def Let_def)
qed

lemma alive_ids_distinct: "hm_wf (st_brokers st) \<Longrightarrow> distinct (alive_ids st)"
  unfolding alive_ids_def by (rule distinct_map_filter)

lemma unat_max1: "0 < unat (max (x :: u32) 1)"
proof -
  have "(1 :: u32) \<le> max x 1" by simp
  then have "unat (1 :: u32) \<le> unat (max x 1)" by (simp add: word_le_nat_alt)
  then show ?thesis by simp
qed

text \<open>A created topic: the replicas of each partition are consecutive alive brokers.\<close>

lemma create_topic_parts:
  assumes "create_topic topic partitions rf st = (st', NoError)"
  shows "hm_get (st_topics st) topic = None"
    and "\<exists>parts. st' = st\<lparr>st_topics := hm_insert topic parts (st_topics st)\<rparr> \<and>
      length parts = unat partitions \<and>
      (\<forall>p < length parts. ps_replicas (parts ! p) =
          map (\<lambda>i. sort (alive_ids st) ! ((p + i) mod length (alive_ids st))) [0..<unat (max rf 1)] \<and>
        ps_isr (parts ! p) = ps_replicas (parts ! p) \<and>
        ps_leader (parts ! p) = ps_replicas (parts ! p) ! 0 \<and> ps_leader_epoch (parts ! p) = 1)"
    and "unat (max rf 1) \<le> length (alive_ids st)"
  using assms by (auto simp: create_topic_def Let_def split: if_splits)

lemma create_good:
  assumes "ctl_inv st"
  shows "good_change st (fst (create_topic topic partitions rf st),
    snd (create_topic topic partitions rf st) = NoError)"
proof (cases "snd (create_topic topic partitions rf st) = NoError")
  case False
  then have "fst (create_topic topic partitions rf st) = st"
    by (auto simp: create_topic_def Let_def split: if_splits)
  then show ?thesis
    using False assms by (auto simp: good_change_def intro: topics_rel_same)
next
  case True
  obtain st' where c: "create_topic topic partitions rf st = (st', NoError)"
    using True by (cases "create_topic topic partitions rf st") auto
  obtain parts where st': "st' = st\<lparr>st_topics := hm_insert topic parts (st_topics st)\<rparr>"
    and ps: "\<forall>p < length parts. ps_replicas (parts ! p) =
          map (\<lambda>i. sort (alive_ids st) ! ((p + i) mod length (alive_ids st))) [0..<unat (max rf 1)] \<and>
        ps_isr (parts ! p) = ps_replicas (parts ! p) \<and>
        ps_leader (parts ! p) = ps_replicas (parts ! p) ! 0 \<and> ps_leader_epoch (parts ! p) = 1"
    using create_topic_parts(2) [OF c] by blast
  have "part_ok p" if p: "p \<in> set parts" for p
  proof -
    obtain k where "k < length parts" "p = parts ! k" using p by (auto simp: in_set_conv_nth)
    then have "length (ps_replicas p) = unat (max rf 1)" "ps_isr p = ps_replicas p"
      "ps_leader p = ps_replicas p ! 0"
      using ps by auto
    then show ?thesis using unat_max1 [of rf] by (auto simp: part_ok_def)
  qed
  then have "ctl_inv st'"
    using assms create_topic_parts(1) [OF c]
    by (auto simp: ctl_inv_def st' hm_insert_new)
  moreover have "topics_rel R st st'" if "\<And>p. R p p" for R
    using create_topic_parts(1) [OF c] that
    by (auto simp: topics_rel_def st' intro: list_all2_same_refl)
  ultimately show ?thesis using c by (simp add: good_change_def st')
qed

lemma hm_insert_set: "hm_wf m \<Longrightarrow> (k', v') \<in> set (hm_insert k v m) \<longleftrightarrow>
    (k' = k \<and> v' = v) \<or> (k' \<noteq> k \<and> (k', v') \<in> set m)"
  using hm_wf_insert [of m k v] by (metis hm_get_insert map_of_eq_Some_iff option.inject)

lemma alter_good:
  assumes "ctl_inv st"
  shows "good_change st (fst (alter_isr topic part e isr st), fst (snd (alter_isr topic part e isr st)))"
proof (cases "fst (snd (alter_isr topic part e isr st))")
  case False
  then have "fst (alter_isr topic part e isr st) = st"
    by (auto simp: alter_isr_def Let_def split: option.splits if_splits)
  then show ?thesis
    using False assms by (auto simp: good_change_def intro: topics_rel_same)
next
  case True
  then obtain parts where parts: "hm_get (st_topics st) topic = Some parts"
    and lt: "unat part < length parts"
    and ok: "isr \<noteq> []" "ps_leader (parts ! unat part) \<in> set isr"
      "set isr \<subseteq> set (ps_replicas (parts ! unat part))"
    and st': "fst (alter_isr topic part e isr st) = st\<lparr>st_topics :=
      hm_insert topic (parts[unat part := (parts ! unat part)\<lparr>ps_isr := isr\<rparr>]) (st_topics st)\<rparr>"
    by (auto simp: alter_isr_def Let_def list_all_iff split: option.splits if_splits)
  let ?p = "parts ! unat part" and ?st = "fst (alter_isr topic part e isr st)"
  let ?parts = "parts[unat part := ?p\<lparr>ps_isr := isr\<rparr>]"
  have "part_ok (?p\<lparr>ps_isr := isr\<rparr>)" using ok by (simp add: part_ok_def)
  then have "part_ok q" if "q \<in> set ?parts" for q
    using that ctl_inv_get [OF assms parts] set_update_subset_insert [of parts] by blast
  then have "ctl_inv ?st"
    using assms by (fastforce simp: ctl_inv_def st' hm_insert_set)
  moreover have "topics_rel R st ?st" if "\<And>p. R p p" and "R ?p (?p\<lparr>ps_isr := isr\<rparr>)" for R
  proof -
    have "list_all2 R parts ?parts"
      using that lt by (auto simp: list_all2_conv_all_nth nth_list_update)
    then show ?thesis
      using parts that(1) by (auto simp: topics_rel_def st' intro: list_all2_same_refl)
  qed
  moreover have "part_later ?p (?p\<lparr>ps_isr := isr\<rparr>)" "part_clean ?p (?p\<lparr>ps_isr := isr\<rparr>)"
    by (simp_all add: part_later_def part_clean_def)
  ultimately show ?thesis using True by (simp add: good_change_def st')
qed

lemma sweep_good:
  assumes "ctl_inv st"
  shows "good_change st (sweep_mutation cfg now st)"
proof -
  let ?f = "\<lambda>b. fst (mark_dead cfg now b)"
  let ?bs = "hm_map_values ?f (st_brokers st)"
  have wf: "hm_wf ?bs" using assms by (simp add: ctl_inv_def)
  have snap: "snapshot_bytes (st\<lparr>st_brokers := ?bs\<rparr>) = snapshot_bytes st"
  proof (rule snapshot_brokers_cong)
    show "map fst ?bs = map fst (st_brokers st)" by simp
    show "map_option (\<lambda>b. (bs_addr b, bs_peer_addr b)) (hm_get ?bs k) =
        map_option (\<lambda>b. (bs_addr b, bs_peer_addr b)) (hm_get (st_brokers st) k)" for k
      by (cases "hm_get (st_brokers st) k") (simp_all add: mark_dead_def)
  qed
  have "good_change st (fst (elect_where_needed (st\<lparr>st_brokers := ?bs\<rparr>)), True)"
    using elect_after_brokers [OF assms wf, of True] by simp
  moreover have "good_change st (st\<lparr>st_brokers := ?bs\<rparr>, False)"
    using brokers_only(1) [OF assms wf] snap by (auto simp: good_change_def intro: topics_rel_same)
  ultimately show ?thesis by (simp add: sweep_mutation_def Let_def)
qed

section \<open>The snapshot round trip\<close>

text \<open>Counts and lengths fit their fields, addresses and names are strings of the protocol.\<close>

definition wf_partition_state :: "partition_state \<Rightarrow> bool" where
  "wf_partition_state p \<longleftrightarrow>
     ps_leader_epoch p < 2 ^ 64 \<and> length (ps_replicas p) < 2 ^ 32 \<and> length (ps_isr p) < 2 ^ 32"

definition wf_topic_entry :: "string \<times> partition_state list \<Rightarrow> bool" where
  "wf_topic_entry e \<longleftrightarrow> wf_str (fst e) \<and> wf_list wf_partition_state (snd e)"

definition wf_broker_entry :: "u32 \<times> broker_state \<Rightarrow> bool" where
  "wf_broker_entry e \<longleftrightarrow> wf_str (bs_addr (snd e)) \<and> wf_str (bs_peer_addr (snd e))"

definition snapshot_fits :: "ctl_state \<Rightarrow> bool" where
  "snapshot_fits st \<longleftrightarrow>
     st_version st < 2 ^ 64 \<and> hm_wf (st_brokers st) \<and> hm_wf (st_topics st) \<and>
     wf_list wf_broker_entry (st_brokers st) \<and> wf_list wf_topic_entry (st_topics st)"

text \<open>What a restart makes of a broker: it is not trusted as alive.\<close>

definition dead_broker :: "nat \<Rightarrow> broker_state \<Rightarrow> broker_state" where
  "dead_broker now b = b\<lparr>bs_alive := False, bs_last_heartbeat := now\<rparr>"

definition restarted :: "nat \<Rightarrow> ctl_state \<Rightarrow> ctl_state" where
  "restarted now st =
     st\<lparr>st_brokers := map (\<lambda>(k, b). (k, dead_broker now b)) (sorted_entries (st_brokers st)),
        st_topics := sorted_entries (st_topics st)\<rparr>"

definition read_back :: "nat \<Rightarrow> u32 \<times> broker_state \<Rightarrow> bool" where
  "read_back now e \<longleftrightarrow> wf_broker_entry e \<and> \<not> bs_alive (snd e) \<and> bs_last_heartbeat (snd e) = now"

lemma codes_partition_state:
  "wf_partition_state p \<Longrightarrow> codes r_partition_state (put_partition_state p) p"
  unfolding r_partition_state_def put_partition_state_def wf_partition_state_def
  by (cases p) (simp, (rule codes_seq codec | simp add: unat_of_nat_len)+)

interpretation psc: codec put_partition_state r_partition_state wf_partition_state
  by unfold_locales (rule codes_partition_state)

lemma codes_topic_entry: "wf_topic_entry e \<Longrightarrow> codes r_topic_entry (put_topic_entry e) e"
  unfolding r_topic_entry_def put_topic_entry_def wf_topic_entry_def
  by (cases e) (simp, (rule codes_seq codec psc.codes_list | simp add: wf_list_def)+)

interpretation tec: codec put_topic_entry r_topic_entry wf_topic_entry
  by unfold_locales (rule codes_topic_entry)

lemma codes_broker_entry: "read_back now e \<Longrightarrow> codes (r_broker_entry now) (put_broker_entry e) e"
  unfolding r_broker_entry_def put_broker_entry_def read_back_def wf_broker_entry_def
  by (cases e; cases "snd e") (simp, (rule codes_seq codec | simp)+)

interpretation bec: codec put_broker_entry "r_broker_entry now" "read_back now" for now
  by unfold_locales (rule codes_broker_entry)

lemma insert_all_distinct: "hm_wf es \<Longrightarrow> insert_all es = es"
proof -
  have "fold (\<lambda>(k, v) m. hm_insert k v m) es acc = acc @ es"
    if "distinct (map fst (acc @ es))" for acc
    using that
  proof (induction es arbitrary: acc)
    case (Cons e es)
    have "hm_get acc (fst e) = None" using Cons.prems by (simp add: hm_get_None_iff)
    then have "hm_insert (fst e) (snd e) acc = acc @ [e]" by (simp add: hm_insert_new)
    then show ?case using Cons by (simp add: case_prod_beta)
  qed simp
  then show "hm_wf es \<Longrightarrow> insert_all es = es" by (simp add: insert_all_def)
qed

lemma sorted_entries_keys [simp]: "map fst (sorted_entries m) = sort (map fst m)"
  by (simp add: sorted_entries_def comp_def)

lemma sorted_entries_length [simp]: "length (sorted_entries m) = length m"
  by (simp add: sorted_entries_def)

lemma sorted_entries_get: "hm_get (sorted_entries m) k = hm_get m k"
proof -
  have "set (sort (map fst m)) = dom (hm_get m)" by (simp add: dom_map_of_conv_image_fst)
  then show ?thesis unfolding sorted_entries_def by (simp only: map_of_map_keys)
qed

lemma sorted_entries_wf: "hm_wf m \<Longrightarrow> hm_wf (sorted_entries m)"
  by simp

lemma sorted_entries_set: "hm_wf m \<Longrightarrow> set (sorted_entries m) = set m"
proof -
  assume wf: "hm_wf m"
  have "(k, v) \<in> set (sorted_entries m) \<longleftrightarrow> (k, v) \<in> set m" for k v
    using sorted_entries_get [of m k] sorted_entries_wf [OF wf] wf
    by (metis map_of_eq_Some_iff)
  then show ?thesis by auto
qed

lemma parse_snapshot_ok:
  assumes "snapshot_fits st"
  shows "parse_snapshot now (put_u64 (word_of_nat (st_version st)) @
     put_list put_broker_entry (sorted_entries (st_brokers st)) @
     put_list put_topic_entry (sorted_entries (st_topics st))) = Inr (restarted now st, [])"
proof -
  let ?bs = "sorted_entries (st_brokers st)" and ?ts = "sorted_entries (st_topics st)"
  let ?dead = "map (\<lambda>(k, b). (k, dead_broker now b)) ?bs"
  have wf: "hm_wf (st_brokers st)" "hm_wf (st_topics st)" "st_version st < 2 ^ 64"
    and bs: "\<forall>e \<in> set ?bs. wf_broker_entry e" "length ?bs < 2 ^ 32"
    and ts: "list_all wf_topic_entry ?ts" "length ?ts < 2 ^ 32"
    using assms by (auto simp: snapshot_fits_def wf_list_def list_all_iff sorted_entries_set)
  have "map put_broker_entry ?dead = map put_broker_entry ?bs"
    by (auto simp: put_broker_entry_def dead_broker_def)
  then have put: "put_list put_broker_entry ?bs = put_list put_broker_entry ?dead"
    by (simp only: put_list_def length_map)
  have "list_all (read_back now) ?dead"
    using bs(1) by (auto simp: list_all_iff read_back_def wf_broker_entry_def dead_broker_def)
  then have c1: "codes (r_list (r_broker_entry now)) (put_list put_broker_entry ?bs) ?dead"
    unfolding put by (rule bec.codes_list) (use bs(2) in simp)
  have c2: "codes (r_list r_topic_entry) (put_list put_topic_entry ?ts) ?ts"
    by (rule tec.codes_list [OF ts])
  have v: "unat (word_of_nat (st_version st) :: u64) = st_version st"
    by (rule unat_of_nat_len) (use wf(3) in simp)
  have keys: "map fst ?dead = map fst ?bs" by (simp add: case_prod_beta comp_def)
  have "hm_wf ?dead" unfolding keys using wf(1) by simp
  then have i: "insert_all ?dead = ?dead" "insert_all ?ts = ?ts"
    using wf(2) by (simp_all only: insert_all_distinct sorted_entries_wf)
  show ?thesis
    by (simp add: parse_snapshot_def pbind_def codesD [OF codes_u64] codesD [OF c1] codesD_end [OF c2]
        expect_end_def ret_def v i restarted_def)
qed

lemma load_snapshot_ok:
  assumes "snapshot_fits st" and "fs_read path d = Inr (snapshot_bytes st)"
  shows "load_snapshot path now d = Inr (restarted now st)"
  using assms(2) parse_snapshot_ok [OF assms(1), of now]
  by (simp add: load_snapshot_def snapshot_bytes_def codesD [OF codes_u32])

lemma snapshot_bytes_inj:
  assumes "snapshot_fits st" and "snapshot_fits st'" and "snapshot_bytes st = snapshot_bytes st'"
  shows "restarted now st = restarted now st'"
proof -
  let ?d = "[(''x'', \<lparr>f_data = snapshot_bytes st, f_synced = 0\<rparr>)]"
  have "fs_read ''x'' ?d = Inr (snapshot_bytes st)" by (simp add: fs_read_def)
  then show ?thesis
    using load_snapshot_ok [OF assms(1)] load_snapshot_ok [OF assms(2)] assms(3) by fastforce
qed

lemma restarted_inv:
  assumes "ctl_inv st"
  shows "ctl_inv (restarted now st)" and "ctl_later st (restarted now st)"
    and "st_version (restarted now st) = st_version st"
    and "hm_get (st_topics (restarted now st)) = hm_get (st_topics st)"
proof -
  have wf: "hm_wf (st_brokers st)" "hm_wf (st_topics st)" using assms by (simp_all add: ctl_inv_def)
  have keys: "map fst (map (\<lambda>(k, b). (k, dead_broker now b)) (sorted_entries (st_brokers st))) =
      sort (map fst (st_brokers st))"
    by (simp add: case_prod_beta comp_def)
  show "hm_get (st_topics (restarted now st)) = hm_get (st_topics st)"
    by (rule ext) (simp add: restarted_def sorted_entries_get)
  then show "ctl_later st (restarted now st)"
    by (auto simp: ctl_later_def topics_rel_def restarted_def intro: list_all2_same_refl)
  show "ctl_inv (restarted now st)"
    using assms wf keys by (simp add: ctl_inv_def restarted_def sorted_entries_set)
  show "st_version (restarted now st) = st_version st" by (simp add: restarted_def)
qed

end
