(* ===== verification/ControllerProperties.thy ===== *)
theory ControllerProperties
  imports ControllerFacts
begin

text \<open>
  The controller as a machine (requests, sweeps, crashes with restart), as an instance of the
  interface of monotone machines, and its properties.
\<close>

section \<open>The machine\<close>

text \<open>The state file holds the snapshot of the state; before the first change it may be absent.\<close>

definition snapshot_current :: "ctl_config \<Rightarrow> controller \<Rightarrow> bool" where
  "snapshot_current cfg c \<longleftrightarrow>
     (case hm_get (ct_disk c) (cc_state_file cfg) of
        None \<Rightarrow> snapshot_bytes (ct_state c) = snapshot_bytes empty_state
      | Some f \<Rightarrow> f_data f = snapshot_bytes (ct_state c) \<and> f_synced f = length (f_data f))"

definition ctl_ok :: "ctl_config \<Rightarrow> controller \<Rightarrow> bool" where
  "ctl_ok cfg c \<longleftrightarrow> ctl_inv (ct_state c) \<and> snapshot_current cfg c"

text \<open>
  A restart loses the memory and whatever unsynced bytes the crash takes from the disk. It is
  taken from states whose counts fit the fields of the snapshot.
\<close>

inductive ctl_step :: "ctl_config \<Rightarrow> controller \<Rightarrow> controller \<Rightarrow> bool" for cfg where
  request: "ctl_step cfg c (fst (handle cfg now req c))"
| sweep: "ctl_step cfg c (sweep_liveness cfg now c)"
| restart: "snapshot_fits (ct_state c) \<Longrightarrow> crash_disk (ct_disk c) d \<Longrightarrow>
    controller_start cfg now d = Inr c' \<Longrightarrow> ctl_step cfg c c'"

inductive_cases ctl_stepE: "ctl_step cfg c c'"

lemma persist_ok:
  "\<exists>d'. persist_snapshot path st d = Inr d' \<and>
     hm_get d' path = Some \<lparr>f_data = snapshot_bytes st, f_synced = length (snapshot_bytes st)\<rparr>"
  by (simp add: persist_snapshot_def Let_def fs_defs)

text \<open>A good change goes through \<open>mutate\<close> with the snapshot kept current.\<close>

lemma mutate_ok:
  assumes ok: "ctl_ok cfg c" and good: "good_change (ct_state c) (f (ct_state c))"
  shows "ctl_ok cfg (fst (mutate cfg f c))"
    and "ctl_later (ct_state c) (ct_state (fst (mutate cfg f c)))"
    and "topics_rel part_clean (ct_state c) (ct_state (fst (mutate cfg f c)))"
    and "snd (mutate cfg f c) = st_version (ct_state (fst (mutate cfg f c)))"
proof -
  let ?st = "fst (f (ct_state c))" and ?c = "fst (mutate cfg f c)"
  let ?new = "?st\<lparr>st_version := st_version ?st + 1\<rparr>"
  have g: "ctl_inv ?st" "st_version ?st = st_version (ct_state c)"
    "topics_rel part_later (ct_state c) ?st" "topics_rel part_clean (ct_state c) ?st"
    "\<not> snd (f (ct_state c)) \<Longrightarrow> snapshot_bytes ?st = snapshot_bytes (ct_state c)"
    using good by (simp_all add: good_change_def)
  have st: "ct_state ?c = (if snd (f (ct_state c)) then ?new else ?st)"
    by (simp add: mutate_def Let_def case_prod_beta)
  show "ctl_later (ct_state c) (ct_state ?c)" "topics_rel part_clean (ct_state c) (ct_state ?c)"
    using g by (auto simp: st ctl_later_def topics_rel_def)
  show "snd (mutate cfg f c) = st_version (ct_state ?c)"
    by (simp add: mutate_def Let_def case_prod_beta)
  have "ctl_inv (ct_state ?c)" using g(1) by (simp add: st ctl_inv_def)
  moreover have "snapshot_current cfg ?c"
  proof (cases "snd (f (ct_state c))")
    case True
    obtain d' where "persist_snapshot (cc_state_file cfg) ?new (ct_disk c) = Inr d'"
      "hm_get d' (cc_state_file cfg) =
        Some \<lparr>f_data = snapshot_bytes ?new, f_synced = length (snapshot_bytes ?new)\<rparr>"
      using persist_ok by blast
    then show ?thesis using True by (simp add: snapshot_current_def mutate_def Let_def case_prod_beta)
  next
    case False
    then have "ct_disk ?c = ct_disk c" by (simp add: mutate_def Let_def case_prod_beta)
    then show ?thesis
      using ok g(5) [OF False] False st
      by (auto simp: snapshot_current_def ctl_ok_def split: option.splits)
  qed
  ultimately show "ctl_ok cfg ?c" by (simp add: ctl_ok_def)
qed

lemma same_state_ok:
  "ctl_later st st" "topics_rel part_clean st st"
  by (auto simp: ctl_later_def topics_rel_def intro: list_all2_same_refl)

lemma handle_ok:
  assumes ok: "ctl_ok cfg c"
  shows "ctl_ok cfg (fst (handle cfg now req c)) \<and>
    ctl_later (ct_state c) (ct_state (fst (handle cfg now req c))) \<and>
    topics_rel part_clean (ct_state c) (ct_state (fst (handle cfg now req c)))"
proof -
  have inv: "ctl_inv (ct_state c)" using ok by (simp add: ctl_ok_def)
  note m = mutate_ok [OF ok]
  show ?thesis
  proof (cases req)
    case (RegisterBrokerReq broker_id addr peer)
    then show ?thesis using m [of "register_broker now broker_id addr peer", OF register_good [OF inv]] by (simp add: handle_def case_prod_beta Let_def)
  next
    case (BrokerHeartbeatReq broker_id v)
    then show ?thesis using m [of "broker_heartbeat now broker_id", OF heartbeat_good [OF inv]] by (simp add: handle_def case_prod_beta Let_def)
  next
    case (CreateTopicReq topic parts rf)
    then show ?thesis using m [of "\<lambda>st. (fst (create_topic topic parts rf st), snd (create_topic topic parts rf st) = NoError)"]
        create_good [OF inv] by (simp add: handle_def case_prod_beta Let_def)
  next
    case (AlterIsrReq topic part e isr)
    then show ?thesis using m [of "\<lambda>st. (fst (alter_isr topic part e isr st), fst (snd (alter_isr topic part e isr st)))"]
        alter_good [OF inv] by (simp add: handle_def case_prod_beta Let_def)
  qed (use ok same_state_ok in \<open>simp_all add: handle_def\<close>)
qed

lemma restarted_snapshot: "snapshot_bytes (restarted now st) = snapshot_bytes st"
proof -
  let ?bs = "sorted_entries (st_brokers st)"
  let ?st = "st\<lparr>st_brokers := ?bs, st_topics := sorted_entries (st_topics st)\<rparr>"
  have idem: "sorted_entries (sorted_entries m) = sorted_entries m" for m :: "('k :: linorder, 'v) hashmap"
    by (subst (1) sorted_entries_def) (simp add: sorted_entries_get sorted_sort_id, simp add: sorted_entries_def)
  have "snapshot_bytes (?st\<lparr>st_brokers := map (\<lambda>(k, b). (k, dead_broker now b)) ?bs\<rparr>) = snapshot_bytes ?st"
  proof (rule snapshot_brokers_cong)
    show "map fst (map (\<lambda>(k, b). (k, dead_broker now b)) ?bs) = map fst (st_brokers ?st)"
      by (simp add: case_prod_beta comp_def)
    show "map_option (\<lambda>b. (bs_addr b, bs_peer_addr b))
          (hm_get (map (\<lambda>(k, b). (k, dead_broker now b)) ?bs) k) =
        map_option (\<lambda>b. (bs_addr b, bs_peer_addr b)) (hm_get (st_brokers ?st) k)" for k
      using hm_map_values_get [of "dead_broker now" ?bs k]
      by (cases "hm_get ?bs k") (simp_all add: hm_map_values_def dead_broker_def)
  qed
  also have "snapshot_bytes ?st = snapshot_bytes st" by (simp add: snapshot_bytes_def idem)
  finally show ?thesis by (simp add: restarted_def snapshot_bytes_def)
qed

lemma restart_ok:
  assumes ok: "ctl_ok cfg c" and fits: "snapshot_fits (ct_state c)" and crash: "crash_disk (ct_disk c) d"
  shows "\<exists>c'. controller_start cfg now d = Inr c' \<and> ct_state c' = restarted now (ct_state c) \<and> ctl_ok cfg c'"
proof -
  let ?p = "cc_state_file cfg" and ?st = "ct_state c"
  have inv: "ctl_inv ?st" using ok by (simp add: ctl_ok_def)
  have empty: "snapshot_fits empty_state" "restarted now empty_state = empty_state"
    by (simp_all add: snapshot_fits_def empty_state_def wf_list_def restarted_def sorted_entries_def)
  have cur: "snapshot_current cfg c" using ok by (simp add: ctl_ok_def)
  have "load_snapshot ?p now d = Inr (restarted now ?st) \<and>
    snapshot_current cfg \<lparr>ct_state = restarted now ?st, ct_disk = d\<rparr>"
  proof (cases "hm_get (ct_disk c) ?p")
    case None
    then have "hm_get d ?p = None"
      using crash_disk_keys [OF crash] unfolding hm_get_None_iff by (metis list.set_map)
    moreover have "snapshot_bytes ?st = snapshot_bytes empty_state"
      using cur None by (simp add: snapshot_current_def)
    then have "restarted now ?st = empty_state"
      using snapshot_bytes_inj [OF fits empty(1), of now] empty(2) by simp
    ultimately show ?thesis
      by (simp add: load_snapshot_def fs_read_def snapshot_current_def)
  next
    case (Some f)
    then have f: "f_data f = snapshot_bytes ?st" "f_synced f = length (f_data f)"
      using cur by (simp_all add: snapshot_current_def)
    have d: "hm_get d ?p = Some f"
      using crash_disk_get [OF crash Some] f(2) by (cases f) (auto simp: crash_file_def)
    then have "load_snapshot ?p now d = Inr (restarted now ?st)"
      using load_snapshot_ok [OF fits] f(1) by (simp add: fs_read_def)
    then show ?thesis using d f by (simp add: snapshot_current_def restarted_snapshot)
  qed
  then show ?thesis
    using restarted_inv(1) [OF inv] by (auto simp: controller_start_def ctl_ok_def)
qed

lemma step_ok:
  assumes "ctl_step cfg c c'" and "ctl_ok cfg c"
  shows "ctl_ok cfg c' \<and> ctl_later (ct_state c) (ct_state c') \<and>
    topics_rel part_clean (ct_state c) (ct_state c')"
  using assms
proof (cases rule: ctl_step.cases)
  case (request now req)
  then show ?thesis using handle_ok [OF assms(2)] by blast
next
  case (sweep now)
  have inv: "ctl_inv (ct_state c)" using assms(2) by (simp add: ctl_ok_def)
  show ?thesis
    using mutate_ok [OF assms(2), of "sweep_mutation cfg now", OF sweep_good [OF inv]]
    by (simp add: sweep sweep_liveness_def)
next
  case (restart d now)
  have inv: "ctl_inv (ct_state c)" using assms(2) by (simp add: ctl_ok_def)
  have "ct_state c' = restarted now (ct_state c)" "ctl_ok cfg c'"
    using restart_ok [OF assms(2) restart(1,2), of now] restart(3) by auto
  then show ?thesis
    using restarted_inv [OF inv, of now] by (auto simp: topics_rel_def intro: list_all2_same_refl)
qed

lemma ctl_later_trans: "ctl_later st st' \<Longrightarrow> ctl_later st' st'' \<Longrightarrow> ctl_later st st''"
  using topics_rel_trans [of part_later st st' st''] part_later_trans
  by (auto simp: ctl_later_def)

interpretation ctl: monotone "ctl_step cfg" "ctl_ok cfg" "\<lambda>c c'. ctl_later (ct_state c) (ct_state c')" for cfg
  by unfold_locales (use step_ok same_state_ok(1) ctl_later_trans in blast)+

text \<open>A controller started on an empty directory.\<close>

lemma fresh_ok: "controller_start cfg now [] = Inr \<lparr>ct_state = empty_state, ct_disk = []\<rparr>"
  "ctl_ok cfg \<lparr>ct_state = empty_state, ct_disk = []\<rparr>"
  by (simp_all add: controller_start_def load_snapshot_def fs_read_def ctl_ok_def ctl_inv_def
      empty_state_def snapshot_current_def)

section \<open>A sample cluster\<close>

text \<open>Two brokers register and a topic with one partition on both is created.\<close>

definition sample_cfg :: ctl_config where
  "sample_cfg = \<lparr>cc_state_file = ''controller.state'', cc_session_timeout = 1000\<rparr>"

definition fresh_ctl :: controller where
  "fresh_ctl = \<lparr>ct_state = empty_state, ct_disk = []\<rparr>"

definition sample_part :: partition_state where
  "sample_part = \<lparr>ps_leader = 1, ps_leader_epoch = 1, ps_replicas = [1, 2], ps_isr = [1, 2]\<rparr>"

definition sample_ctl :: controller where
  "sample_ctl =
     fold (\<lambda>req c. fst (handle sample_cfg 0 req c))
       [RegisterBrokerReq 1 ''a'' ''p'', RegisterBrokerReq 2 ''b'' ''q'', CreateTopicReq ''t'' 1 2]
       fresh_ctl"

text \<open>The state a request leaves, without the state file.\<close>

definition commit :: "ctl_state \<times> bool \<Rightarrow> ctl_state" where
  "commit r = (if snd r then (fst r)\<lparr>st_version := st_version (fst r) + 1\<rparr> else fst r)"

lemma mutate_commit: "ct_state (fst (mutate cfg f c)) = commit (f (ct_state c))"
  by (simp add: mutate_def commit_def Let_def case_prod_beta)

lemma handle_commit:
  "ct_state (fst (handle cfg now (RegisterBrokerReq b a p) c)) = commit (register_broker now b a p (ct_state c))"
  "ct_state (fst (handle cfg now (BrokerHeartbeatReq b v) c)) = commit (broker_heartbeat now b (ct_state c))"
  "ct_state (fst (handle cfg now (CreateTopicReq t n rf) c)) =
     commit (fst (create_topic t n rf (ct_state c)), snd (create_topic t n rf (ct_state c)) = NoError)"
  "ct_state (sweep_liveness cfg now c) = commit (sweep_mutation cfg now (ct_state c))"
  by (simp_all add: handle_def sweep_liveness_def Let_def case_prod_beta mutate_commit)

lemma sample_word_facts:
  "0 \<le> sint (1 :: i32)" "0 \<le> sint (2 :: i32)" "max (2 :: u32) 1 = 2" "\<not> (2 :: u32) \<le> 1" "(1 :: u32) \<le> 2"
  by (simp_all add: max_def word_le_nat_alt)

lemmas eval_ctl = commit_def register_broker_def broker_heartbeat_def elect_where_needed_def
  elect_partition_def alive_ids_def case_prod_beta Let_def hm_map_values_def

definition live :: "string \<Rightarrow> string \<Rightarrow> nat \<Rightarrow> broker_state" where
  "live a p now = \<lparr>bs_addr = a, bs_peer_addr = p, bs_alive = True, bs_last_heartbeat = now\<rparr>"

lemma sample_one:
  "commit (register_broker 0 1 ''a'' ''p'' empty_state) =
     \<lparr>st_version = 1, st_brokers = [(1, live ''a'' ''p'' 0)], st_topics = []\<rparr>"
  by (simp add: eval_ctl empty_state_def live_def)

lemma sample_two:
  "commit (register_broker 0 2 ''b'' ''q''
      \<lparr>st_version = 1, st_brokers = [(1, live ''a'' ''p'' 0)], st_topics = []\<rparr>) =
     \<lparr>st_version = 2, st_brokers = [(1, live ''a'' ''p'' 0), (2, live ''b'' ''q'' 0)], st_topics = []\<rparr>"
  by (simp add: eval_ctl live_def)

lemma sample_create:
  "create_topic ''t'' 1 2
      \<lparr>st_version = 2, st_brokers = [(1, live ''a'' ''p'' 0), (2, live ''b'' ''q'' 0)], st_topics = []\<rparr> =
     (\<lparr>st_version = 2, st_brokers = [(1, live ''a'' ''p'' 0), (2, live ''b'' ''q'' 0)],
       st_topics = [(''t'', [sample_part])]\<rparr>, NoError)"
  by (simp add: create_topic_def alive_ids_def live_def Let_def sample_word_facts sample_part_def
      upt_rec insort_key.simps)

lemma sample_ctl_state:
  "ct_state sample_ctl =
     \<lparr>st_version = 3, st_brokers = [(1, live ''a'' ''p'' 0), (2, live ''b'' ''q'' 0)],
      st_topics = [(''t'', [sample_part])]\<rparr>"
  unfolding sample_ctl_def fold.simps id_o o_apply handle_commit fresh_ctl_def controller.simps
    sample_one sample_two sample_create fst_conv snd_conv
  by (simp add: commit_def)

text \<open>The directory of the sample holds the state file, on stable storage, or nothing.\<close>

definition only_state_file :: "controller \<Rightarrow> bool" where
  "only_state_file c \<longleftrightarrow>
     ct_disk c = [] \<or>
     (\<exists>f. ct_disk c = [(''controller.state'', f)] \<and> f_synced f = length (f_data f))"

lemma sample_tmp: "with_extension ''controller.state'' ''tmp'' = ''controller.tmp''"
  by code_simp

lemma only_state_file_mutate: "only_state_file c \<Longrightarrow> only_state_file (fst (mutate sample_cfg f c))"
  by (auto simp: only_state_file_def mutate_def Let_def case_prod_beta persist_snapshot_def sample_cfg_def
      sample_tmp fs_defs)

lemma only_state_file_handle: "only_state_file c \<Longrightarrow> only_state_file (fst (handle sample_cfg now req c))"
  using only_state_file_mutate by (cases req) (simp_all add: handle_def Let_def case_prod_beta)

lemma crash_file_stable: "f_synced f = length (f_data f) \<Longrightarrow> crash_file f f"
  unfolding crash_file_def by (intro exI [of _ "length (f_data f)"]) (cases f, simp)

lemma sample_ctl_disk: "only_state_file sample_ctl"
  unfolding sample_ctl_def fold.simps id_o o_apply
  by (intro only_state_file_handle) (simp add: only_state_file_def fresh_ctl_def)

lemma request_run:
  "(ctl_step cfg)\<^sup>*\<^sup>* c (fold (\<lambda>req c. fst (handle cfg now req c)) reqs c)"
proof (induction reqs arbitrary: c)
  case (Cons req reqs)
  have "ctl_step cfg c (fst (handle cfg now req c))" by (rule ctl_step.request)
  then show ?case using Cons [of "fst (handle cfg now req c)"] by (simp add: converse_rtranclp_into_rtranclp)
qed simp

lemma sample_ctl_reachable: "(ctl_step sample_cfg)\<^sup>*\<^sup>* fresh_ctl sample_ctl"
  unfolding sample_ctl_def by (rule request_run)

lemma fresh_ctl_ok: "ctl_ok cfg fresh_ctl"
  using fresh_ok(2) by (simp add: fresh_ctl_def)

lemma sample_ctl_ok: "ctl_ok sample_cfg sample_ctl"
  by (rule ctl.run [OF sample_ctl_reachable fresh_ctl_ok])

definition failed_over :: controller where
  "failed_over = sweep_liveness sample_cfg 5000 (fst (handle sample_cfg 4500 (BrokerHeartbeatReq 2 0) sample_ctl))"

lemma failed_over_topics:
  "st_topics (ct_state failed_over) =
     [(''t'', [\<lparr>ps_leader = 2, ps_leader_epoch = 2, ps_replicas = [1, 2], ps_isr = [2]\<rparr>])]"
proof -
  have hb: "commit (broker_heartbeat 4500 2 (ct_state sample_ctl)) =
     \<lparr>st_version = 3, st_brokers = [(1, live ''a'' ''p'' 0), (2, live ''b'' ''q'' 4500)],
      st_topics = [(''t'', [sample_part])]\<rparr>"
    by (simp add: sample_ctl_state broker_heartbeat_def commit_def live_def)
  show ?thesis unfolding failed_over_def handle_commit hb
    by (simp add: eval_ctl sweep_mutation_def mark_dead_def live_def sample_cfg_def sample_part_def
        sample_word_facts)
qed

lemma failed_over_reachable: "(ctl_step sample_cfg)\<^sup>*\<^sup>* sample_ctl failed_over"
  unfolding failed_over_def
  by (meson ctl_step.request ctl_step.sweep converse_rtranclp_into_rtranclp rtranclp.rtrancl_refl)

section \<open>Leaders and epochs\<close>

text \<open>
  C7. One leader per epoch. In every run of the controller, through any requests, liveness
  sweeps, crashes and restarts, a partition's replicas never change, its leader epoch never goes
  back, and while the epoch stays the same the leader stays the same or is withdrawn: two
  different brokers are never leader in the same epoch.
\<close>

theorem one_leader_per_epoch:
  assumes "(ctl_step cfg)\<^sup>*\<^sup>* fresh_ctl c" and "(ctl_step cfg)\<^sup>*\<^sup>* c c'"
    and "hm_get (st_topics (ct_state c)) topic = Some parts" and "i < length parts"
  shows "\<exists>parts'. hm_get (st_topics (ct_state c')) topic = Some parts' \<and> i < length parts' \<and>
    ps_replicas (parts' ! i) = ps_replicas (parts ! i) \<and>
    ps_leader_epoch (parts ! i) \<le> ps_leader_epoch (parts' ! i) \<and>
    (ps_leader_epoch (parts' ! i) = ps_leader_epoch (parts ! i) \<longrightarrow>
      ps_leader (parts' ! i) = ps_leader (parts ! i) \<or> ps_leader (parts' ! i) = - 1)"
proof -
  have "ctl_ok cfg c" by (rule ctl.run [OF assms(1) fresh_ctl_ok])
  then have "ctl_later (ct_state c) (ct_state c')" by (rule ctl.run_later [OF assms(2)])
  then obtain parts' where "hm_get (st_topics (ct_state c')) topic = Some parts'"
    and "list_all2 part_later parts parts'"
    using assms(3) by (auto simp: ctl_later_def topics_rel_def)
  then show ?thesis
    using assms(4) by (auto simp: list_all2_conv_all_nth part_later_def)
qed

theorem one_leader_per_epoch_witness:
  "ps_leader_epoch sample_part = 1 \<and>
   (\<exists>parts'. hm_get (st_topics (ct_state failed_over)) ''t'' = Some parts' \<and> 0 < length parts' \<and>
     ps_replicas (parts' ! 0) = [1, 2] \<and> 1 \<le> ps_leader_epoch (parts' ! 0))"
proof -
  have "hm_get (st_topics (ct_state sample_ctl)) ''t'' = Some [sample_part]"
    by (simp add: sample_ctl_state)
  from one_leader_per_epoch [OF sample_ctl_reachable failed_over_reachable this, of 0]
  show ?thesis by (auto simp: sample_part_def)
qed

text \<open>
  C6. No unclean election. In one step of the controller a partition's leader changes to another
  broker only if that broker was in the in-sync set; it then gets the next epoch, and the in-sync
  set that goes with it is part of the old one.
\<close>

theorem no_unclean_election:
  assumes "(ctl_step cfg)\<^sup>*\<^sup>* fresh_ctl c" and "ctl_step cfg c c'"
    and "hm_get (st_topics (ct_state c)) topic = Some parts" and "i < length parts"
    and "hm_get (st_topics (ct_state c')) topic = Some parts'"
    and "ps_leader (parts' ! i) \<noteq> ps_leader (parts ! i)" and "ps_leader (parts' ! i) \<noteq> - 1"
  shows "ps_leader (parts' ! i) \<in> set (ps_isr (parts ! i)) \<and>
    ps_leader_epoch (parts' ! i) = ps_leader_epoch (parts ! i) + 1 \<and>
    set (ps_isr (parts' ! i)) \<subseteq> set (ps_isr (parts ! i))"
proof -
  have "ctl_ok cfg c" by (rule ctl.run [OF assms(1) fresh_ctl_ok])
  then have "topics_rel part_clean (ct_state c) (ct_state c')" using step_ok [OF assms(2)] by blast
  then have "list_all2 part_clean parts parts'"
    using assms(3,5) by (fastforce simp: topics_rel_def)
  then have "part_clean (parts ! i) (parts' ! i)" using assms(4) by (rule list_all2_nthD)
  then show ?thesis using assms(6,7) by (auto simp: part_clean_def)
qed

theorem no_unclean_election_witness:
  "(2 :: i32) \<in> set (ps_isr sample_part)"
proof -
  let ?c = "fst (handle sample_cfg 4500 (BrokerHeartbeatReq 2 0) sample_ctl)"
  have r: "(ctl_step sample_cfg)\<^sup>*\<^sup>* fresh_ctl ?c"
    using sample_ctl_reachable ctl_step.request by (rule rtranclp.rtrancl_into_rtrancl)
  have s: "ctl_step sample_cfg ?c failed_over"
    unfolding failed_over_def by (rule ctl_step.sweep)
  have t: "hm_get (st_topics (ct_state ?c)) ''t'' = Some [sample_part]"
    by (simp add: handle_commit sample_ctl_state broker_heartbeat_def commit_def live_def)
  have t': "hm_get (st_topics (ct_state failed_over)) ''t'' =
      Some [\<lparr>ps_leader = 2, ps_leader_epoch = 2, ps_replicas = [1, 2], ps_isr = [2]\<rparr>]"
    by (simp add: failed_over_topics)
  show ?thesis
    using no_unclean_election [OF r s t _ t', of 0] by (simp add: sample_part_def)
qed



text \<open>
  C21. Restart. Starting the controller on what a crash left of its directory succeeds and gives
  back the version and every topic with its partitions, epochs and in-sync sets as they were;
  every broker is known with its addresses but not trusted as alive.
\<close>

theorem restart_restores_metadata:
  assumes "(ctl_step cfg)\<^sup>*\<^sup>* fresh_ctl c" and "snapshot_fits (ct_state c)" and "crash_disk (ct_disk c) d"
  shows "case controller_start cfg now d of
      Inl e \<Rightarrow> False
    | Inr c' \<Rightarrow>
        st_version (ct_state c') = st_version (ct_state c) \<and>
        (\<forall>topic. hm_get (st_topics (ct_state c')) topic = hm_get (st_topics (ct_state c)) topic) \<and>
        (\<forall>id. hm_get (st_brokers (ct_state c')) id =
          map_option (\<lambda>b. b\<lparr>bs_alive := False, bs_last_heartbeat := now\<rparr>)
            (hm_get (st_brokers (ct_state c)) id))"
proof -
  have ok: "ctl_ok cfg c" by (rule ctl.run [OF assms(1) fresh_ctl_ok])
  then have inv: "ctl_inv (ct_state c)" by (simp add: ctl_ok_def)
  obtain c' where c': "controller_start cfg now d = Inr c'" "ct_state c' = restarted now (ct_state c)"
    using restart_ok [OF ok assms(2,3)] by blast
  have "hm_get (st_brokers (restarted now (ct_state c))) id =
      map_option (dead_broker now) (hm_get (st_brokers (ct_state c)) id)" for id
    using hm_map_values_get [of "dead_broker now" "sorted_entries (st_brokers (ct_state c))" id]
    by (simp add: restarted_def hm_map_values_def sorted_entries_get)
  then show ?thesis
    using c' restarted_inv(3,4) [OF inv, of now] by (simp add: dead_broker_def [abs_def])
qed

theorem restart_restores_metadata_witness:
  "case controller_start sample_cfg 9 (ct_disk sample_ctl) of
     Inl e \<Rightarrow> False | Inr c' \<Rightarrow> hm_get (st_topics (ct_state c')) ''t'' = Some [sample_part]"
proof -
  have str: "wf_str ''a''" "wf_str ''b''" "wf_str ''p''" "wf_str ''q''" "wf_str ''t''"
    by (simp_all add: wf_str_ascii)
  have fits: "snapshot_fits (ct_state sample_ctl)"
    by (simp add: snapshot_fits_def sample_ctl_state wf_list_def wf_broker_entry_def
        wf_topic_entry_def wf_partition_state_def live_def sample_part_def str)
  have "crash_disk (ct_disk sample_ctl) (ct_disk sample_ctl)"
    using sample_ctl_disk by (auto simp: only_state_file_def crash_disk_def intro: crash_file_stable)
  from restart_restores_metadata [OF sample_ctl_reachable fits this, of 9]
  show ?thesis by (auto simp: sample_ctl_state split: sum.splits)
qed

section \<open>Requests\<close>

lemma mod_add_inj:
  assumes "(p + i) mod n = (p + j) mod n" and "i < n" and "j < n"
  shows "i = (j :: nat)"
proof -
  have le: "i = j" if "(p + i) mod n = (p + j) mod n" "i < n" "j < n" "i \<le> j" for i j
  proof -
    have "n dvd (p + j) - (p + i)"
      using that mod_eq_dvd_iff_nat [of "p + i" "p + j" n] by simp
    then have "n dvd j - i" by simp
    then show ?thesis using that by (metis diff_is_0_eq dvd_imp_le le_antisym less_imp_diff_less not_le zero_less_diff)
  qed
  show ?thesis using le [OF assms] le [of j i] assms by (cases "i \<le> j") simp_all
qed

text \<open>
  Topic creation places every partition on as many different brokers as the replication
  factor asks for, all of them alive, leads partition \<open>p\<close> from the \<open>p\<close>-th alive broker (modulo their
  number), in sorted order, and starts with the full set in sync at epoch 1; it is refused for a
  topic that exists, for no or too many partitions and for more replicas than there are brokers
  alive.
\<close>

theorem create_topic_places_replicas:
  assumes "hm_wf (st_brokers st)"
  shows "case create_topic topic partitions rf st of (st', error) \<Rightarrow>
    (error = TopicExists \<longleftrightarrow> hm_get (st_topics st) topic \<noteq> None) \<and>
    (error = MalformedErr \<longleftrightarrow> hm_get (st_topics st) topic = None \<and>
      (partitions = 0 \<or> 1024 < partitions \<or> length (alive_ids st) < unat (max rf 1))) \<and>
    (error \<noteq> NoError \<longrightarrow> st' = st) \<and>
    (error = NoError \<longrightarrow> (\<exists>parts. st' = st\<lparr>st_topics := hm_insert topic parts (st_topics st)\<rparr> \<and>
      length parts = unat partitions \<and>
      (\<forall>p < length parts.
        distinct (ps_replicas (parts ! p)) \<and> set (ps_replicas (parts ! p)) \<subseteq> set (alive_ids st) \<and>
        length (ps_replicas (parts ! p)) = unat (max rf 1) \<and>
        ps_leader (parts ! p) = sort (alive_ids st) ! (p mod length (alive_ids st)) \<and>
        ps_isr (parts ! p) = ps_replicas (parts ! p) \<and> ps_leader_epoch (parts ! p) = 1)))"
proof -
  let ?a = "sort (alive_ids st)" and ?n = "length (alive_ids st)" and ?rf = "unat (max rf 1)"
  obtain st' error where c: "create_topic topic partitions rf st = (st', error)" by fastforce
  have errs: "(error = TopicExists \<longleftrightarrow> hm_get (st_topics st) topic \<noteq> None) \<and>
      (error = MalformedErr \<longleftrightarrow> hm_get (st_topics st) topic = None \<and>
        (partitions = 0 \<or> 1024 < partitions \<or> ?n < ?rf)) \<and> (error \<noteq> NoError \<longrightarrow> st' = st)"
    using c by (auto simp: create_topic_def Let_def split: if_splits)
  have "\<exists>parts. st' = st\<lparr>st_topics := hm_insert topic parts (st_topics st)\<rparr> \<and>
      length parts = unat partitions \<and>
      (\<forall>p < length parts.
        distinct (ps_replicas (parts ! p)) \<and> set (ps_replicas (parts ! p)) \<subseteq> set (alive_ids st) \<and>
        length (ps_replicas (parts ! p)) = ?rf \<and> ps_leader (parts ! p) = ?a ! (p mod ?n) \<and>
        ps_isr (parts ! p) = ps_replicas (parts ! p) \<and> ps_leader_epoch (parts ! p) = 1)"
    if e: "error = NoError"
  proof -
    note cp = create_topic_parts [OF c [unfolded e]]
    obtain parts where parts: "st' = st\<lparr>st_topics := hm_insert topic parts (st_topics st)\<rparr>"
      "length parts = unat partitions"
      "\<forall>p < length parts. ps_replicas (parts ! p) = map (\<lambda>i. ?a ! ((p + i) mod ?n)) [0..<?rf] \<and>
        ps_isr (parts ! p) = ps_replicas (parts ! p) \<and>
        ps_leader (parts ! p) = ps_replicas (parts ! p) ! 0 \<and> ps_leader_epoch (parts ! p) = 1"
      using cp(2) by blast
    have n: "0 < ?n" and le: "?rf \<le> ?n" using cp(3) unat_max1 [of rf] by auto
    have d: "distinct ?a" using alive_ids_distinct [OF assms] by simp
    have "distinct (map (\<lambda>i. ?a ! ((p + i) mod ?n)) [0..<?rf])" for p
      unfolding distinct_map
    proof (intro conjI inj_onI)
      fix i j assume ij: "i \<in> set [0..<?rf]" "j \<in> set [0..<?rf]"
        and eq: "?a ! ((p + i) mod ?n) = ?a ! ((p + j) mod ?n)"
      have "(p + i) mod ?n = (p + j) mod ?n"
        using eq d n by (simp add: nth_eq_iff_index_eq)
      then show "i = j"
        using ij le mod_add_inj [of p i ?n j] by simp
    qed simp
    moreover have "set (map (\<lambda>i. ?a ! ((p + i) mod ?n)) [0..<?rf]) \<subseteq> set (alive_ids st)" for p
    proof -
      have "?a ! ((p + i) mod ?n) \<in> set ?a" for i using n by (intro nth_mem) simp
      then show ?thesis by auto
    qed
    moreover have "map (\<lambda>i. ?a ! ((p + i) mod ?n)) [0..<?rf] ! 0 = ?a ! (p mod ?n)" for p
      using unat_max1 [of rf] by simp
    ultimately show ?thesis using parts by (intro exI [of _ parts]) auto
  qed
  then show ?thesis using c errs by simp
qed

theorem create_topic_places_replicas_witness:
  "distinct (ps_replicas sample_part)"
proof -
  let ?st = "\<lparr>st_version = 2, st_brokers = [(1, live ''a'' ''p'' 0), (2, live ''b'' ''q'' 0)],
    st_topics = []\<rparr> :: ctl_state"
  have "hm_wf (st_brokers ?st)" by simp
  from create_topic_places_replicas [OF this, of "''t''" 1 2]
  obtain parts where p: "[(''t'', [sample_part])] = hm_insert ''t'' parts []"
    "\<forall>p < length parts. distinct (ps_replicas (parts ! p))"
    unfolding sample_create by (auto simp del: update.simps)
  then have "parts = [sample_part]" by simp
  then show ?thesis using p(2) by simp
qed

text \<open>
  An ISR change is accepted only under the current epoch of the partition, from a set that
  is not empty, contains the leader and consists of replicas; it then changes nothing but the
  in-sync set of that partition. A proposal of an old leader is fenced.
\<close>

theorem alter_isr_guards:
  "case alter_isr topic part e isr st of (st', changed, error) \<Rightarrow>
     case hm_get (st_topics st) topic of
       None \<Rightarrow> error = UnknownTopicOrPartition \<and> st' = st
     | Some parts \<Rightarrow>
         if length parts \<le> unat part then error = UnknownTopicOrPartition \<and> st' = st
         else let p = parts ! unat part in
           if unat e \<noteq> ps_leader_epoch p then error = FencedEpoch \<and> st' = st
           else if isr = [] \<or> ps_leader p \<notin> set isr \<or> \<not> set isr \<subseteq> set (ps_replicas p)
           then error = MalformedErr \<and> st' = st
           else error = NoError \<and> (changed \<longleftrightarrow> isr \<noteq> ps_isr p) \<and>
             hm_get (st_topics st') topic = Some (parts[unat part := p\<lparr>ps_isr := isr\<rparr>]) \<and>
             (\<forall>t. t \<noteq> topic \<longrightarrow> hm_get (st_topics st') t = hm_get (st_topics st) t) \<and>
             st_brokers st' = st_brokers st"
proof (cases "hm_get (st_topics st) topic")
  case None
  then show ?thesis by (simp add: alter_isr_def)
next
  case (Some parts)
  let ?p = "parts ! unat part"
  have "parts[unat part := ?p\<lparr>ps_isr := ps_isr ?p\<rparr>] = parts" by simp
  then show ?thesis
    using Some by (auto simp: alter_isr_def Let_def list_all_iff)
qed

theorem alter_isr_guards_witness:
  "snd (snd (alter_isr ''t'' 0 2 [1] (ct_state sample_ctl))) = FencedEpoch"
  using alter_isr_guards [where topic = "''t''" and part = 0 and e = 2 and isr = "[1]" and st = "ct_state sample_ctl"]
  by (auto simp: sample_ctl_state sample_part_def case_prod_beta)

text \<open>
  C38. After an election run, every partition of every topic has a leader that is alive, or it is
  offline and no member of its in-sync set was alive: the controller never leaves a partition
  without a leader that could have had one.
\<close>

theorem election_is_complete:
  assumes "hm_get (st_topics st) topic = Some parts" and "i < length parts"
  shows "\<exists>parts'. hm_get (st_topics (fst (elect_where_needed st))) topic = Some parts' \<and>
    length parts' = length parts \<and>
    (ps_leader (parts' ! i) \<in> set (alive_ids st) \<or>
     ps_leader (parts' ! i) = - 1 \<and> set (ps_isr (parts ! i)) \<inter> set (alive_ids st) = {})"
proof -
  have "hm_get (st_topics (fst (elect_where_needed st))) topic =
      Some (map (fst \<circ> elect_partition (alive_ids st)) parts)"
    using assms(1) by (simp add: elect_where_needed_def Let_def)
  then show ?thesis
    using elect_partition_complete [of "alive_ids st" "parts ! i"] assms(2) by auto
qed

theorem election_is_complete_witness:
  "\<exists>parts'. hm_get (st_topics (fst (elect_where_needed (ct_state sample_ctl)))) ''t'' = Some parts' \<and>
     length parts' = 1"
proof -
  have "hm_get (st_topics (ct_state sample_ctl)) ''t'' = Some [sample_part]" by (simp add: sample_ctl_state)
  from election_is_complete [OF this, of 0] show ?thesis by auto
qed

lemma alive_insert:
  "\<forall>e \<in> set m. \<not> bs_alive (snd e) \<Longrightarrow> bs_alive n \<Longrightarrow>
   filter (\<lambda>(_, b). bs_alive b) (hm_insert k n m) = [(k, n)]"
proof (induction m)
  case (Cons e m)
  then have "filter (\<lambda>(_, b). bs_alive b) m = []" by (auto simp: filter_empty_conv)
  then show ?case using Cons by (cases e) auto
qed simp



end
