(* ===== verification/ConsumerGroups.thy ===== *)
theory ConsumerGroups
  imports Proto Machines
begin

text \<open>
  The group coordinator of \<^verbatim>\<open>src/src/broker/groups.rs\<close>: membership, generations, the range
  assignment of partitions to members, and the fencing of members that missed a rebalance. The
  number of partitions of a topic is asked of the broker, so it is a parameter \<open>counts\<close> of the
  operations. Times are readings of one clock in milliseconds.
\<close>

section \<open>State\<close>

record member =
  mb_topics :: "string list"
  mb_session_timeout :: nat
  mb_last_heartbeat :: nat

type_synonym slot = "string \<times> u32"

record group =
  gp_generation :: nat
  gp_members :: "(string, member) hashmap"
  gp_assignment :: "(string, slot list) hashmap"

record coordinator =
  gc_groups :: "(string, group) hashmap"
  gc_next_member :: nat

record join_outcome =
  jo_member_id :: string
  jo_generation :: nat
  jo_assignment :: "slot list"

definition default_group :: group where
  "default_group = \<lparr>gp_generation = 0, gp_members = [], gp_assignment = []\<rparr>"

definition coordinator_new :: coordinator where
  "coordinator_new = \<lparr>gc_groups = [], gc_next_member = 1\<rparr>"

section \<open>Range assignment\<close>

type_synonym part_counts = "string \<Rightarrow> u32 option"

text \<open>The inner loop: \<open>i\<close> is the position of the member, \<open>nxt\<close> the first partition not yet given.\<close>

fun assign_loop ::
    "string \<Rightarrow> nat \<Rightarrow> nat \<Rightarrow> nat \<Rightarrow> nat \<Rightarrow> string list \<Rightarrow> (string, slot list) hashmap \<Rightarrow> (string, slot list) hashmap" where
  "assign_loop topic per extra i nxt [] out = out"
| "assign_loop topic per extra i nxt (m # ms) out =
     (let n = per + (if i < extra then 1 else 0);
          slots = the (hm_get out m) @ map (\<lambda>p. (topic, word_of_nat p)) [nxt..<nxt + n]
      in assign_loop topic per extra (i + 1) (nxt + n) ms (hm_insert m slots out))"

definition subscribers :: "(string, member) hashmap \<Rightarrow> string \<Rightarrow> string list" where
  "subscribers members topic =
     sort (map fst (filter (\<lambda>(_, m). topic \<in> set (mb_topics m)) members))"

definition assign_topic ::
    "(string, member) hashmap \<Rightarrow> part_counts \<Rightarrow> string \<Rightarrow> (string, slot list) hashmap \<Rightarrow>
     (string, slot list) hashmap" where
  "assign_topic members counts topic out =
     (case counts topic of
        None \<Rightarrow> out
      | Some partitions \<Rightarrow>
          let subscribed = subscribers members topic
          in if subscribed = [] then out
             else
               let n = length subscribed;
                   per = unat partitions div n;
                   extra = unat partitions mod n
               in assign_loop topic per extra 0 0 subscribed out)"

text \<open>\<open>sort()\<close> and \<open>dedup()\<close> of all subscriptions.\<close>

definition subscribed_topics :: "(string, member) hashmap \<Rightarrow> string list" where
  "subscribed_topics members = remdups_adj (sort (concat (map (mb_topics \<circ> snd) members)))"

definition assign :: "(string, member) hashmap \<Rightarrow> part_counts \<Rightarrow> (string, slot list) hashmap" where
  "assign members counts =
     fold (assign_topic members counts) (subscribed_topics members) (map (\<lambda>(id, _). (id, [])) members)"

section \<open>Operations\<close>

text \<open>A new generation with a new assignment, after a change of the members.\<close>

definition rebalance :: "part_counts \<Rightarrow> group \<Rightarrow> group" where
  "rebalance counts g =
     g\<lparr>gp_generation := gp_generation g + 1, gp_assignment := assign (gp_members g) counts\<rparr>"

definition member_name :: "nat \<Rightarrow> string" where
  "member_name n = ''m-'' @ show_nat n"

definition join ::
    "nat \<Rightarrow> string \<Rightarrow> string \<Rightarrow> u32 \<Rightarrow> string list \<Rightarrow> part_counts \<Rightarrow> coordinator \<Rightarrow> coordinator \<times> join_outcome" where
  "join now grp member_id session_timeout_ms topics counts c =
     (let g = (case hm_get (gc_groups c) grp of Some g \<Rightarrow> g | None \<Rightarrow> default_group);
          (id, changed, g, nm) =
            (case (if member_id = [] then None else hm_get (gp_members g) member_id) of
               None \<Rightarrow>
                 let id = member_name (gc_next_member c)
                 in (id, True,
                     g\<lparr>gp_members := hm_insert id \<lparr>mb_topics = topics,
                         mb_session_timeout = unat session_timeout_ms, mb_last_heartbeat = now\<rparr>
                         (gp_members g)\<rparr>, gc_next_member c + 1)
             | Some m \<Rightarrow>
                 (member_id, mb_topics m \<noteq> topics,
                  g\<lparr>gp_members := hm_insert member_id
                      (m\<lparr>mb_last_heartbeat := now, mb_session_timeout := unat session_timeout_ms,
                         mb_topics := topics\<rparr>) (gp_members g)\<rparr>, gc_next_member c));
          g = (if changed then rebalance counts g else g)
      in (\<lparr>gc_groups = hm_insert grp g (gc_groups c), gc_next_member = nm\<rparr>,
          \<lparr>jo_member_id = id, jo_generation = gp_generation g,
           jo_assignment = (case hm_get (gp_assignment g) id of Some a \<Rightarrow> a | None \<Rightarrow> [])\<rparr>))"

definition heartbeat :: "nat \<Rightarrow> string \<Rightarrow> string \<Rightarrow> nat \<Rightarrow> coordinator \<Rightarrow> coordinator \<times> error_code" where
  "heartbeat now grp member_id generation c =
     (case hm_get (gc_groups c) grp of
        None \<Rightarrow> (c, UnknownMember)
      | Some g \<Rightarrow>
          (case hm_get (gp_members g) member_id of
             None \<Rightarrow> (c, UnknownMember)
           | Some m \<Rightarrow>
               let g = g\<lparr>gp_members := hm_insert member_id (m\<lparr>mb_last_heartbeat := now\<rparr>) (gp_members g)\<rparr>;
                   c = c\<lparr>gc_groups := hm_insert grp g (gc_groups c)\<rparr>
               in if generation \<noteq> gp_generation g then (c, StaleGeneration) else (c, NoError)))"

definition leave :: "string \<Rightarrow> string \<Rightarrow> part_counts \<Rightarrow> coordinator \<Rightarrow> coordinator \<times> error_code" where
  "leave grp member_id counts c =
     (case hm_get (gc_groups c) grp of
        None \<Rightarrow> (c, UnknownMember)
      | Some g \<Rightarrow>
          if hm_get (gp_members g) member_id = None then (c, UnknownMember)
          else
            let g = rebalance counts (g\<lparr>gp_members := hm_remove member_id (gp_members g)\<rparr>)
            in (c\<lparr>gc_groups := hm_insert grp g (gc_groups c)\<rparr>, NoError))"

definition check_commit :: "string \<Rightarrow> string \<Rightarrow> nat \<Rightarrow> coordinator \<Rightarrow> error_code" where
  "check_commit grp member_id generation c =
     (if member_id = [] then NoError
      else case hm_get (gc_groups c) grp of
        None \<Rightarrow> UnknownMember
      | Some g \<Rightarrow>
          if hm_get (gp_members g) member_id = None then UnknownMember
          else if generation \<noteq> gp_generation g then StaleGeneration
          else NoError)"

definition timed_out :: "nat \<Rightarrow> member \<Rightarrow> bool" where
  "timed_out now m \<longleftrightarrow> now - mb_last_heartbeat m > mb_session_timeout m"

definition expire_group :: "nat \<Rightarrow> part_counts \<Rightarrow> group \<Rightarrow> group \<times> nat" where
  "expire_group now counts g =
     (let dead = map fst (filter (\<lambda>(_, m). timed_out now m) (gp_members g))
      in if dead = [] then (g, 0)
         else (rebalance counts (g\<lparr>gp_members := fold hm_remove dead (gp_members g)\<rparr>), length dead))"

definition expire :: "nat \<Rightarrow> part_counts \<Rightarrow> coordinator \<Rightarrow> coordinator \<times> nat" where
  "expire now counts c =
     (c\<lparr>gc_groups := hm_map_values (fst \<circ> expire_group now counts) (gc_groups c)\<rparr>,
      sum_list (map (snd \<circ> expire_group now counts \<circ> snd) (gc_groups c)))"

section \<open>What the assignment gives\<close>

text \<open>The runs of partitions the inner loop hands out, one per member.\<close>

fun runs :: "nat \<Rightarrow> nat \<Rightarrow> nat \<Rightarrow> nat \<Rightarrow> nat \<Rightarrow> nat list list" where
  "runs per extra i nxt 0 = []"
| "runs per extra i nxt (Suc k) =
     (let n = per + (if i < extra then 1 else 0) in [nxt..<nxt + n] # runs per extra (i + 1) (nxt + n) k)"

lemma length_runs [simp]: "length (runs per extra i nxt k) = k"
  by (induction per extra i nxt k rule: runs.induct) (auto simp: Let_def)

lemma runs_lengths:
  "xs \<in> set (runs per extra i nxt k) \<Longrightarrow> length xs = per \<or> length xs = per + 1"
  by (induction per extra i nxt k rule: runs.induct) (auto simp: Let_def split: if_splits)

lemma concat_runs:
  "concat (runs per extra i nxt k) = [nxt..<nxt + (k * per + (min (i + k) extra - min i extra))]"
proof (induction per extra i nxt k rule: runs.induct)
  case (2 per extra i nxt k)
  let ?n = "per + (if i < extra then 1 else 0)"
  let ?k = "k * per + (min (i + 1 + k) extra - min (i + 1) extra)"
  have "concat (runs per extra i nxt (Suc k)) = [nxt..<nxt + ?n] @ [nxt + ?n..<nxt + ?n + ?k]"
    using 2 [OF refl] by (simp add: Let_def)
  also have "\<dots> = [nxt..<nxt + ?n + ?k]"
    by (rule upt_add_eq_append [symmetric]) simp
  also have "nxt + ?n + ?k = nxt + (Suc k * per + (min (i + Suc k) extra - min i extra))"
    by (auto simp: min_def)
  finally show ?case .
qed simp

lemma concat_runs_all:
  assumes "0 < n"
  shows "concat (runs (t div n) (t mod n) 0 0 n) = [0..<t]"
proof -
  have "t mod n < n" using assms by simp
  then have "0 + (n * (t div n) + (min (0 + n) (t mod n) - min 0 (t mod n))) = t" by simp
  then show ?thesis unfolding concat_runs by simp
qed

lemma assign_loop_get:
  assumes "distinct ms" and "\<forall>m \<in> set ms. hm_get out m \<noteq> None"
  shows "hm_get (assign_loop topic per extra i nxt ms out) m =
    (case hm_get out m of
       None \<Rightarrow> None
     | Some old \<Rightarrow> Some (old @ map (\<lambda>p. (topic, word_of_nat p))
         (case map_of (zip ms (runs per extra i nxt (length ms))) m of None \<Rightarrow> [] | Some ps \<Rightarrow> ps)))"
  using assms
proof (induction topic per extra i nxt ms out rule: assign_loop.induct)
  case (1 topic per extra i nxt out)
  then show ?case by (simp split: option.split)
next
  case (2 topic per extra i nxt x ms out)
  define n where "n = per + (if i < extra then 1 else 0)"
  define slots where "slots = the (hm_get out x) @ map (\<lambda>p. (topic, word_of_nat p :: u32)) [nxt..<nxt + n]"
  let ?out = "hm_insert x slots out"
  have step: "assign_loop topic per extra i nxt (x # ms) out =
      assign_loop topic per extra (i + 1) (nxt + n) ms ?out"
    and runs: "runs per extra i nxt (length (x # ms)) = [nxt..<nxt + n] # runs per extra (i + 1) (nxt + n) (length ms)"
    by (simp_all add: Let_def n_def slots_def)
  have ih: "hm_get (assign_loop topic per extra (i + 1) (nxt + n) ms ?out) m =
    (case hm_get ?out m of
       None \<Rightarrow> None
     | Some old \<Rightarrow> Some (old @ map (\<lambda>p. (topic, word_of_nat p))
         (case map_of (zip ms (runs per extra (i + 1) (nxt + n) (length ms))) m of
            None \<Rightarrow> [] | Some ps \<Rightarrow> ps)))"
    by (rule "2.IH" [OF n_def slots_def]) (use 2(2,3) in auto)
  have "x \<notin> set ms" and x: "hm_get out x \<noteq> None" using 2(2,3) by auto
  then have none: "map_of (zip ms (runs per extra (Suc i) (nxt + n) (length ms))) x = None"
    by (auto simp: map_of_eq_None_iff dest: set_zip_leftD)
  show ?case
    unfolding step runs ih using x
    by (cases "m = x"; cases "hm_get out m") (simp_all add: slots_def none)
qed

lemma subscribers_props:
  assumes "hm_wf members"
  shows "distinct (subscribers members topic)"
    and "set (subscribers members topic) = {m. \<exists>mb. hm_get members m = Some mb \<and> topic \<in> set (mb_topics mb)}"
proof -
  show "distinct (subscribers members topic)"
    using distinct_map_filter [OF assms] by (simp add: subscribers_def)
  show "set (subscribers members topic) = {m. \<exists>mb. hm_get members m = Some mb \<and> topic \<in> set (mb_topics mb)}"
    using assms by (force simp: subscribers_def)
qed

text \<open>The partitions of a topic that an assignment gives a member.\<close>

definition parts_of :: "string \<Rightarrow> (string, slot list) hashmap \<Rightarrow> string \<Rightarrow> u32 list" where
  "parts_of topic a m =
     (case hm_get a m of None \<Rightarrow> [] | Some slots \<Rightarrow> map snd (filter (\<lambda>s. fst s = topic) slots))"

definition topic_runs :: "(string, member) hashmap \<Rightarrow> part_counts \<Rightarrow> string \<Rightarrow> (string \<times> nat list) list" where
  "topic_runs members counts topic =
     (case counts topic of
        None \<Rightarrow> []
      | Some partitions \<Rightarrow>
          let ms = subscribers members topic; n = length ms
          in zip ms (runs (unat partitions div n) (unat partitions mod n) 0 0 n))"

definition run_of :: "(string, member) hashmap \<Rightarrow> part_counts \<Rightarrow> string \<Rightarrow> string \<Rightarrow> nat list" where
  "run_of members counts topic m =
     (case map_of (topic_runs members counts topic) m of None \<Rightarrow> [] | Some ps \<Rightarrow> ps)"

lemma assign_topic_get:
  assumes wf: "hm_wf members" and dom: "\<forall>m. hm_get members m \<noteq> None \<longrightarrow> hm_get out m \<noteq> None"
  shows "hm_get (assign_topic members counts topic out) m =
    map_option (\<lambda>old. old @ map (\<lambda>p. (topic, word_of_nat p)) (run_of members counts topic m)) (hm_get out m)"
proof (cases "counts topic")
  case None
  then show ?thesis
    by (cases "hm_get out m") (simp_all add: assign_topic_def run_of_def topic_runs_def)
next
  case (Some partitions)
  have d: "distinct (subscribers members topic)" by (rule subscribers_props(1) [OF wf])
  have "\<forall>m \<in> set (subscribers members topic). hm_get out m \<noteq> None"
    using dom subscribers_props(2) [OF wf] by auto
  then show ?thesis
    using Some assign_loop_get [OF d]
    by (cases "subscribers members topic = []"; cases "hm_get out m")
      (simp_all add: assign_topic_def Let_def run_of_def topic_runs_def)
qed

lemma assign_fold_get:
  assumes wf: "hm_wf members" and dom: "\<forall>m. hm_get members m \<noteq> None \<longrightarrow> hm_get out m \<noteq> None"
  shows "hm_get (fold (assign_topic members counts) ts out) m =
    map_option (\<lambda>old. old @ concat (map (\<lambda>t. map (\<lambda>p. (t, word_of_nat p)) (run_of members counts t m)) ts))
      (hm_get out m)"
  using dom
proof (induction ts arbitrary: out)
  case Nil
  then show ?case by (simp add: option.map_ident)
next
  case (Cons t ts)
  have "\<forall>m. hm_get members m \<noteq> None \<longrightarrow> hm_get (assign_topic members counts t out) m \<noteq> None"
    using Cons.prems by (simp add: assign_topic_get [OF wf Cons.prems])
  then show ?case
    using Cons.IH by (simp add: assign_topic_get [OF wf Cons.prems] option.map_comp comp_def)
qed

lemma assign_get:
  assumes wf: "hm_wf members"
  shows "hm_get (assign members counts) m =
    (if hm_get members m = None then None
     else Some (concat (map (\<lambda>t. map (\<lambda>p. (t, word_of_nat p)) (run_of members counts t m))
       (subscribed_topics members))))"
proof -
  have init: "hm_get (map (\<lambda>(id, _). (id, [])) members) m = map_option (\<lambda>_. []) (hm_get members m)" for m
    by (induction members) auto
  show ?thesis
    unfolding assign_def
    by (subst assign_fold_get [OF wf]) (auto simp: init split: option.split)
qed

lemma subscribed_topics_props:
  "distinct (subscribed_topics members)"
  "set (subscribed_topics members) = (\<Union>(id, m) \<in> set members. set (mb_topics m))"
  by (auto simp: subscribed_topics_def intro: distinct_remdups_adj_sorted)

end
