(* ===== verification/GroupFacts.thy ===== *)
theory GroupFacts
  imports ConsumerGroups
begin

text \<open>
  The correctness of the group coordinator: what the range assignment gives each member, the
  invariant of the groups, and the order of generations that makes fencing work.
\<close>

section \<open>The range assignment\<close>

lemma filter_topic_runs:
  assumes "distinct ts"
  shows "map snd (filter (\<lambda>s. fst s = topic) (concat (map (\<lambda>t. map (\<lambda>p. (t, f p)) (r t)) ts))) =
    (if topic \<in> set ts then map f (r topic) else [])"
  using assms
proof (induction ts)
  case (Cons t ts)
  have "filter (\<lambda>s. fst s = topic) (map (\<lambda>p. (t, f p)) (r t)) =
      (if t = topic then map (\<lambda>p. (t, f p)) (r t) else [])"
    by (auto simp: filter_id_conv filter_empty_conv)
  then show ?case using Cons by (auto simp: comp_def)
qed simp

lemma run_of_members:
  assumes wf: "hm_wf members" and p: "counts topic = Some partitions"
  shows "map (run_of members counts topic) (subscribers members topic) =
    runs (unat partitions div length (subscribers members topic))
      (unat partitions mod length (subscribers members topic)) 0 0 (length (subscribers members topic))"
    (is "map _ ?ms = ?rs")
proof (rule nth_equalityI)
  fix i assume "i < length (map (run_of members counts topic) ?ms)"
  then have i: "i < length ?ms" by simp
  have "map_of (zip ?ms ?rs) (?ms ! i) = Some (?rs ! i)"
    using i subscribers_props(1) [OF wf] by (intro map_of_zip_nth) simp_all
  then show "map (run_of members counts topic) ?ms ! i = ?rs ! i"
    using i p by (simp add: run_of_def topic_runs_def Let_def)
qed simp

lemma run_of_other: "m \<notin> set (subscribers members topic) \<Longrightarrow> run_of members counts topic m = []"
  by (auto simp: run_of_def topic_runs_def Let_def split: option.split dest!: map_of_SomeD set_zip_leftD)

lemma subscriber_topic:
  "m \<in> set (subscribers members topic) \<Longrightarrow> topic \<in> set (subscribed_topics members)"
  unfolding subscribed_topics_props by (auto simp: subscribers_def)

lemma parts_of_assign:
  assumes wf: "hm_wf members"
  shows "parts_of topic (assign members counts) m = map word_of_nat (run_of members counts topic m)"
proof (cases "m \<in> set (subscribers members topic)")
  case True
  then obtain mb where "hm_get members m = Some mb" using subscribers_props(2) [OF wf] by auto
  then show ?thesis
    using filter_topic_runs [OF subscribed_topics_props(1), where topic = topic and f = "word_of_nat :: nat \<Rightarrow> u32"
        and r = "\<lambda>t. run_of members counts t m"] subscriber_topic [OF True]
    by (simp add: parts_of_def assign_get [OF wf])
next
  case False
  show ?thesis
    using filter_topic_runs [OF subscribed_topics_props(1), where topic = topic and f = "word_of_nat :: nat \<Rightarrow> u32"
        and r = "\<lambda>t. run_of members counts t m"] run_of_other [OF False]
    by (simp add: parts_of_def assign_get [OF wf])
qed

lemma assign_partition:
  assumes wf: "hm_wf members" and p: "counts topic = Some partitions"
    and ne: "subscribers members topic \<noteq> []"
  shows "concat (map (parts_of topic (assign members counts)) (subscribers members topic)) =
    map word_of_nat [0..<unat partitions]"
proof -
  let ?ms = "subscribers members topic"
  have "map (parts_of topic (assign members counts)) ?ms =
      map (\<lambda>m. map word_of_nat (run_of members counts topic m)) ?ms"
    by (rule map_cong) (simp_all add: parts_of_assign [OF wf])
  then have "concat (map (parts_of topic (assign members counts)) ?ms) =
      map word_of_nat (concat (map (run_of members counts topic) ?ms))"
    by (simp only: map_concat map_map comp_def)
  also have "concat (map (run_of members counts topic) ?ms) = [0..<unat partitions]"
    unfolding run_of_members [where counts = counts, OF wf p] using ne by (intro concat_runs_all) simp
  finally show ?thesis .
qed

lemma concat_disjoint:
  assumes "distinct (concat (map f xs))" and "x \<in> set xs" and "y \<in> set xs" and "x \<noteq> y"
  shows "set (f x) \<inter> set (f y) = {}"
  using assms
proof (induction xs)
  case (Cons z zs)
  then show ?case by (cases "x = z"; cases "y = z") auto
qed simp

text \<open>No slot is given to two members.\<close>

lemma assign_disjoint:
  assumes wf: "hm_wf members" and ne: "m \<noteq> m'"
    and a: "hm_get (assign members counts) m = Some s" "hm_get (assign members counts) m' = Some s'"
  shows "set s \<inter> set s' = {}"
proof (rule ccontr)
  assume "set s \<inter> set s' \<noteq> {}"
  then obtain topic p where tp: "(topic, p) \<in> set s" "(topic, p) \<in> set s'" by auto
  then have p: "p \<in> set (parts_of topic (assign members counts) m)"
    "p \<in> set (parts_of topic (assign members counts) m')"
    using a by (force simp: parts_of_def)+
  then have "run_of members counts topic m \<noteq> []" "run_of members counts topic m' \<noteq> []"
    by (auto simp: parts_of_assign [OF wf])
  then have sub: "m \<in> set (subscribers members topic)" "m' \<in> set (subscribers members topic)"
    using run_of_other by blast+
  obtain partitions where c: "counts topic = Some partitions"
    using \<open>run_of members counts topic m \<noteq> []\<close>
    by (auto simp: run_of_def topic_runs_def split: option.splits)
  have "inj_on (word_of_nat :: nat \<Rightarrow> u32) {0..<unat partitions}"
  proof (rule inj_on_inverseI [where g = unat])
    fix k assume "k \<in> {0..<unat partitions}"
    moreover have "unat partitions < 2 ^ LENGTH(32)" by (rule unsigned_less)
    ultimately have "k < 2 ^ LENGTH(32)" by simp
    then show "unat (word_of_nat k :: u32) = k" by (rule unat_of_nat_len)
  qed
  then have "distinct (map (word_of_nat :: nat \<Rightarrow> u32) [0..<unat partitions])"
    by (simp add: distinct_map)
  moreover have "subscribers members topic \<noteq> []" using sub by auto
  ultimately have "distinct (concat (map (parts_of topic (assign members counts)) (subscribers members topic)))"
    using assign_partition [where counts = counts, OF wf c] by simp
  then show False using concat_disjoint [OF _ sub ne] p by blast
qed

text \<open>The assignment looks only at the names and the subscriptions.\<close>

definition member_view :: "(string, member) hashmap \<Rightarrow> (string \<times> string list) list" where
  "member_view members = map (\<lambda>(id, m). (id, mb_topics m)) members"

lemma assign_view:
  assumes "member_view ms = member_view ms'"
  shows "assign ms counts = assign ms' counts"
proof -
  have subs: "subscribers ms topic =
      sort (map fst (filter (\<lambda>(_, ts). topic \<in> set ts) (member_view ms)))" for topic and ms
    by (simp add: subscribers_def member_view_def filter_map comp_def case_prod_unfold)
  have ts: "subscribed_topics ms = remdups_adj (sort (concat (map snd (member_view ms))))" for ms
    by (simp add: subscribed_topics_def member_view_def comp_def case_prod_beta)
  have init: "map (\<lambda>(id, _). (id, [] :: slot list)) ms = map (\<lambda>(id, _). (id, [])) (member_view ms)"
    for ms :: "(string, member) hashmap"
    by (simp add: member_view_def comp_def case_prod_beta)
  have subs': "subscribers ms = subscribers ms'" by (intro ext) (simp add: subs assms)
  have "assign_topic ms counts = assign_topic ms' counts"
    by (intro ext) (unfold assign_topic_def subs', rule refl)
  then show ?thesis by (simp add: assign_def ts init assms)
qed

lemma hm_insert_view:
  "hm_get m k = Some v \<Longrightarrow> f v' = f v \<Longrightarrow>
   map (\<lambda>(k, v). (k, f v)) (hm_insert k v' m) = map (\<lambda>(k, v). (k, f v)) m"
  by (induction m) auto

section \<open>The invariant\<close>

definition group_ok :: "nat \<Rightarrow> group \<Rightarrow> bool" where
  "group_ok next_member g \<longleftrightarrow>
     hm_wf (gp_members g) \<and>
     (\<forall>id \<in> fst ` set (gp_members g). \<exists>n < next_member. id = member_name n) \<and>
     (\<exists>counts. gp_assignment g = assign (gp_members g) counts)"

definition coord_inv :: "coordinator \<Rightarrow> bool" where
  "coord_inv c \<longleftrightarrow> hm_wf (gc_groups c) \<and> (\<forall>(_, g) \<in> set (gc_groups c). group_ok (gc_next_member c) g)"

definition group_later :: "group \<Rightarrow> group \<Rightarrow> bool" where
  "group_later g g' \<longleftrightarrow>
     gp_generation g \<le> gp_generation g' \<and>
     (gp_generation g' = gp_generation g \<longrightarrow>
       member_view (gp_members g') = member_view (gp_members g) \<and> gp_assignment g' = gp_assignment g)"

definition coord_later :: "coordinator \<Rightarrow> coordinator \<Rightarrow> bool" where
  "coord_later c c' \<longleftrightarrow>
     (\<forall>name g. hm_get (gc_groups c) name = Some g \<longrightarrow>
       (\<exists>g'. hm_get (gc_groups c') name = Some g' \<and> group_later g g'))"

lemma group_later_refl [simp]: "group_later g g"
  by (simp add: group_later_def)

lemma group_later_trans: "group_later g g' \<Longrightarrow> group_later g' g'' \<Longrightarrow> group_later g g''"
  by (auto simp: group_later_def)

lemma coord_later_refl [simp]: "coord_later c c"
  by (simp add: coord_later_def)

lemma coord_later_trans: "coord_later c c' \<Longrightarrow> coord_later c' c'' \<Longrightarrow> coord_later c c''"
  unfolding coord_later_def by (meson group_later_trans)

lemma coord_inv_get: "coord_inv c \<Longrightarrow> hm_get (gc_groups c) name = Some g \<Longrightarrow> group_ok (gc_next_member c) g"
  by (auto simp: coord_inv_def dest: map_of_SomeD)

lemma group_ok_mono: "group_ok n g \<Longrightarrow> n \<le> n' \<Longrightarrow> group_ok n' g"
  by (force simp: group_ok_def)

lemma default_group_ok: "group_ok n default_group"
  by (simp add: group_ok_def default_group_def assign_def subscribed_topics_def)

text \<open>A step that replaces one group.\<close>

lemma group_replaced:
  assumes inv: "coord_inv c" and g': "group_ok n g'" and n: "gc_next_member c \<le> n"
    and later: "\<And>g. hm_get (gc_groups c) grp = Some g \<Longrightarrow> group_later g g'"
  shows "coord_inv \<lparr>gc_groups = hm_insert grp g' (gc_groups c), gc_next_member = n\<rparr>"
    and "coord_later c \<lparr>gc_groups = hm_insert grp g' (gc_groups c), gc_next_member = n\<rparr>"
proof -
  have wf: "hm_wf (gc_groups c)" using inv by (simp add: coord_inv_def)
  show "coord_inv \<lparr>gc_groups = hm_insert grp g' (gc_groups c), gc_next_member = n\<rparr>"
  proof -
    have "group_ok n x" if "(k, x) \<in> set (hm_insert grp g' (gc_groups c))" for k x
    proof -
      have "hm_get (hm_insert grp g' (gc_groups c)) k = Some x"
        using that wf by (intro map_of_is_SomeI) simp_all
      then show ?thesis
        using g' coord_inv_get [OF inv, of k] group_ok_mono [OF _ n] by (auto split: if_splits)
    qed
    then show ?thesis using wf by (auto simp: coord_inv_def)
  qed
  show "coord_later c \<lparr>gc_groups = hm_insert grp g' (gc_groups c), gc_next_member = n\<rparr>"
    using later by (auto simp: coord_later_def)
qed

lemma rebalance_ok:
  assumes "hm_wf (gp_members g)" and "\<forall>id \<in> fst ` set (gp_members g). \<exists>k < n. id = member_name k"
  shows "group_ok n (rebalance counts g)"
  using assms by (auto simp: group_ok_def rebalance_def)

lemma rebalance_later: "gp_generation g = gp_generation h \<Longrightarrow> group_later h (rebalance counts g)"
  by (simp add: group_later_def rebalance_def)

lemma member_name_inj [simp]: "member_name m = member_name n \<longleftrightarrow> m = n"
  by (simp add: member_name_def)

lemma member_name_nonempty [simp]: "member_name n \<noteq> []"
  by (simp add: member_name_def)

lemma view_same_ok:
  assumes "group_ok n g" and "hm_wf ms" and "member_view ms = member_view (gp_members g)"
  shows "group_ok n (g\<lparr>gp_members := ms\<rparr>)" and "group_later g (g\<lparr>gp_members := ms\<rparr>)"
proof -
  have "map fst ms = map fst (gp_members g)"
    using arg_cong [OF assms(3), of "map fst"] by (simp add: member_view_def comp_def case_prod_beta)
  then have "fst ` set ms = fst ` set (gp_members g)" by (metis list.set_map)
  then show "group_ok n (g\<lparr>gp_members := ms\<rparr>)"
    using assms assign_view [OF assms(3)] by (auto simp: group_ok_def)
  show "group_later g (g\<lparr>gp_members := ms\<rparr>)" using assms(3) by (simp add: group_later_def)
qed

section \<open>The operations\<close>

lemma hm_insert_fst: "fst ` set (hm_insert k v m) = insert k (fst ` set m)"
  by (simp add: update_keys flip: set_map) auto

lemma join_ok:
  assumes inv: "coord_inv c"
  shows "coord_inv (fst (join now grp member_id timeout topics counts c)) \<and>
    coord_later c (fst (join now grp member_id timeout topics counts c))"
proof -
  define g where "g = (case hm_get (gc_groups c) grp of Some g \<Rightarrow> g | None \<Rightarrow> default_group)"
  have g: "group_ok (gc_next_member c) g"
    using coord_inv_get [OF inv] default_group_ok by (auto simp: g_def split: option.split)
  have same: "h = g" if "hm_get (gc_groups c) grp = Some h" for h using that by (simp add: g_def)
  have wf: "hm_wf (gp_members g)" using g by (simp add: group_ok_def)
  show ?thesis
  proof (cases "if member_id = [] then None else hm_get (gp_members g) member_id")
    case None
    let ?id = "member_name (gc_next_member c)"
    let ?g = "rebalance counts (g\<lparr>gp_members := hm_insert ?id \<lparr>mb_topics = topics,
        mb_session_timeout = unat timeout, mb_last_heartbeat = now\<rparr> (gp_members g)\<rparr>)"
    have "group_ok (gc_next_member c + 1) ?g"
    proof (rule rebalance_ok)
      show "\<forall>id \<in> fst ` set (gp_members (g\<lparr>gp_members := hm_insert ?id \<lparr>mb_topics = topics,
          mb_session_timeout = unat timeout, mb_last_heartbeat = now\<rparr> (gp_members g)\<rparr>)).
          \<exists>k < gc_next_member c + 1. id = member_name k"
      proof
        fix id assume "id \<in> fst ` set (gp_members (g\<lparr>gp_members := hm_insert ?id \<lparr>mb_topics = topics,
          mb_session_timeout = unat timeout, mb_last_heartbeat = now\<rparr> (gp_members g)\<rparr>))"
        then consider "id = ?id" | "id \<in> fst ` set (gp_members g)" by (auto simp: hm_insert_fst)
        then show "\<exists>k < gc_next_member c + 1. id = member_name k"
        proof cases
          case 2
          then obtain k where "k < gc_next_member c" "id = member_name k"
            using g unfolding group_ok_def by blast
          then show ?thesis by (intro exI [of _ k]) simp
        qed auto
      qed
    qed (use wf in simp)
    moreover have "group_later h ?g" if "hm_get (gc_groups c) grp = Some h" for h
      using same [OF that] by (simp add: rebalance_later)
    moreover have "fst (join now grp member_id timeout topics counts c) =
        \<lparr>gc_groups = hm_insert grp ?g (gc_groups c), gc_next_member = gc_next_member c + 1\<rparr>"
      unfolding join_def Let_def g_def [symmetric] None by simp
    ultimately show ?thesis
      using group_replaced [OF inv, of "gc_next_member c + 1" ?g grp] by simp
  next
    case (Some m)
    then have m: "hm_get (gp_members g) member_id = Some m" "member_id \<noteq> []" by (auto split: if_splits)
    let ?m = "m\<lparr>mb_last_heartbeat := now, mb_session_timeout := unat timeout, mb_topics := topics\<rparr>"
    let ?ms = "hm_insert member_id ?m (gp_members g)"
    let ?h = "g\<lparr>gp_members := ?ms\<rparr>"
    let ?g = "if mb_topics m \<noteq> topics then rebalance counts ?h else ?h"
    have keys: "fst ` set ?ms = fst ` set (gp_members g)"
      using m(1) by (auto simp: hm_insert_fst dest: map_of_SomeD intro: rev_image_eqI)
    have wfm: "hm_wf ?ms" using wf by simp
    have "group_ok (gc_next_member c) ?g \<and> (\<forall>h. hm_get (gc_groups c) grp = Some h \<longrightarrow> group_later h ?g)"
    proof (cases "mb_topics m = topics")
      case True
      have "member_view ?ms = member_view (gp_members g)"
        unfolding member_view_def by (rule hm_insert_view [OF m(1)]) (simp add: True)
      then show ?thesis using view_same_ok [OF g wfm] True same by auto
    next
      case False
      have "group_ok (gc_next_member c) (rebalance counts ?h)"
        by (rule rebalance_ok) (use wfm keys g in \<open>simp_all add: group_ok_def\<close>)
      then show ?thesis using False same rebalance_later [of ?h g counts] by auto
    qed
    moreover have "fst (join now grp member_id timeout topics counts c) =
        \<lparr>gc_groups = hm_insert grp ?g (gc_groups c), gc_next_member = gc_next_member c\<rparr>"
      unfolding join_def Let_def g_def [symmetric] Some by simp
    ultimately show ?thesis
      using group_replaced [OF inv, of "gc_next_member c" ?g grp] by simp
  qed
qed

lemma gc_record: "c\<lparr>gc_groups := gs\<rparr> = \<lparr>gc_groups = gs, gc_next_member = gc_next_member c\<rparr>"
  by simp

lemma heartbeat_ok:
  assumes inv: "coord_inv c"
  shows "coord_inv (fst (heartbeat now grp member_id generation c)) \<and>
    coord_later c (fst (heartbeat now grp member_id generation c))"
proof (cases "hm_get (gc_groups c) grp")
  case None
  then show ?thesis using inv by (simp add: heartbeat_def)
next
  case (Some g)
  then have g: "group_ok (gc_next_member c) g" by (rule coord_inv_get [OF inv])
  show ?thesis
  proof (cases "hm_get (gp_members g) member_id")
    case None
    then show ?thesis using inv Some by (simp add: heartbeat_def)
  next
    case m: (Some m)
    let ?ms = "hm_insert member_id (m\<lparr>mb_last_heartbeat := now\<rparr>) (gp_members g)"
    have "member_view ?ms = member_view (gp_members g)"
      unfolding member_view_def by (rule hm_insert_view [OF m]) simp
    moreover have "hm_wf ?ms" using g by (simp add: group_ok_def)
    ultimately have "group_ok (gc_next_member c) (g\<lparr>gp_members := ?ms\<rparr>)" "group_later g (g\<lparr>gp_members := ?ms\<rparr>)"
      using view_same_ok [OF g] by blast+
    then show ?thesis
      using group_replaced [OF inv, of "gc_next_member c" "g\<lparr>gp_members := ?ms\<rparr>" grp] Some m
      by (auto simp: heartbeat_def Let_def gc_record)
  qed
qed

lemma hm_remove_fst: "fst ` set (hm_remove k m) = fst ` set m - {k}"
  by (metis delete_keys list.set_map set_removeAll)

lemma leave_ok:
  assumes inv: "coord_inv c"
  shows "coord_inv (fst (leave grp member_id counts c)) \<and> coord_later c (fst (leave grp member_id counts c))"
proof (cases "hm_get (gc_groups c) grp")
  case None
  then show ?thesis using inv by (simp add: leave_def)
next
  case (Some g)
  then have g: "group_ok (gc_next_member c) g" by (rule coord_inv_get [OF inv])
  let ?g = "rebalance counts (g\<lparr>gp_members := hm_remove member_id (gp_members g)\<rparr>)"
  have "group_ok (gc_next_member c) ?g"
    by (rule rebalance_ok) (use g in \<open>auto simp: group_ok_def hm_remove_fst\<close>)
  moreover have "group_later g ?g" by (simp add: rebalance_later)
  ultimately show ?thesis
    using group_replaced [OF inv, of "gc_next_member c" ?g grp] Some inv
    by (auto simp: leave_def Let_def gc_record)
qed

lemma fold_remove_get: "hm_get (fold hm_remove ks m) k = (if k \<in> set ks then None else hm_get m k)"
  by (induction ks arbitrary: m) auto

lemma fold_remove_wf: "hm_wf m \<Longrightarrow> hm_wf (fold hm_remove ks m)"
  by (induction ks arbitrary: m) auto

lemma fold_remove_keys: "k \<in> fst ` set (fold hm_remove ks m) \<Longrightarrow> k \<in> fst ` set m"
  using fold_remove_get [of ks m k] unfolding hm_get_None_iff [symmetric]
  by (metis hm_get_None_iff)

lemma expire_group_ok:
  assumes "group_ok n g"
  shows "group_ok n (fst (expire_group now counts g))" and "group_later g (fst (expire_group now counts g))"
proof -
  let ?dead = "map fst (filter (\<lambda>(_, m). timed_out now m) (gp_members g))"
  let ?h = "g\<lparr>gp_members := fold hm_remove ?dead (gp_members g)\<rparr>"
  have "group_ok n (rebalance counts ?h)"
  proof (rule rebalance_ok)
    show "hm_wf (gp_members ?h)" using assms by (simp add: group_ok_def fold_remove_wf)
    show "\<forall>id \<in> fst ` set (gp_members ?h). \<exists>k < n. id = member_name k"
    proof
      fix id assume "id \<in> fst ` set (gp_members ?h)"
      then have "id \<in> fst ` set (gp_members g)" using fold_remove_keys by simp
      then show "\<exists>k < n. id = member_name k" using assms unfolding group_ok_def by blast
    qed
  qed
  then show "group_ok n (fst (expire_group now counts g))"
    using assms by (simp add: expire_group_def Let_def)
  show "group_later g (fst (expire_group now counts g))"
    using rebalance_later [of ?h g counts] by (simp add: expire_group_def Let_def)
qed

lemma expire_ok:
  assumes inv: "coord_inv c"
  shows "coord_inv (fst (expire now counts c)) \<and> coord_later c (fst (expire now counts c))"
proof
  show "coord_inv (fst (expire now counts c))"
    using inv expire_group_ok(1) by (fastforce simp: expire_def coord_inv_def hm_map_values_set)
  show "coord_later c (fst (expire now counts c))"
    using expire_group_ok(2) [OF coord_inv_get [OF inv]] by (auto simp: expire_def coord_later_def)
qed

section \<open>The machine\<close>

inductive coord_step :: "coordinator \<Rightarrow> coordinator \<Rightarrow> bool" where
  join: "coord_step c (fst (join now grp member_id timeout topics counts c))"
| heartbeat: "coord_step c (fst (heartbeat now grp member_id generation c))"
| leave: "coord_step c (fst (leave grp member_id counts c))"
| expire: "coord_step c (fst (expire now counts c))"

inductive_cases coord_stepE: "coord_step c c'"

lemma coord_step_ok: "coord_step c c' \<Longrightarrow> coord_inv c \<Longrightarrow> coord_inv c' \<and> coord_later c c'"
  by (erule coord_step.cases) (use join_ok heartbeat_ok leave_ok expire_ok in blast)+

interpretation coord: monotone coord_step coord_inv coord_later
  by unfold_locales (use coord_step_ok coord_later_refl coord_later_trans in blast)+

lemma coordinator_new_inv: "coord_inv coordinator_new"
  by (simp add: coord_inv_def coordinator_new_def)

end
