(* ===== verification/GroupProperties.thy ===== *)
theory GroupProperties
  imports GroupFacts
begin

text \<open>The properties of the group coordinator.\<close>

section \<open>A sample group\<close>

definition three_parts :: part_counts where
  "three_parts topic = (if topic = ''t'' then Some 3 else None)"

definition two_members :: "(string, member) hashmap" where
  "two_members =
     [(''m-2'', \<lparr>mb_topics = [''t''], mb_session_timeout = 1000, mb_last_heartbeat = 0\<rparr>),
      (''m-1'', \<lparr>mb_topics = [''t''], mb_session_timeout = 1000, mb_last_heartbeat = 0\<rparr>)]"

definition joined_once :: coordinator where
  "joined_once = fst (join 0 ''g'' [] 1000 [''t''] three_parts coordinator_new)"

definition joined_twice :: coordinator where
  "joined_twice = fst (join 5 ''g'' [] 1000 [''t''] three_parts joined_once)"

lemma joined_once_reachable: "coord_step\<^sup>*\<^sup>* coordinator_new joined_once"
  unfolding joined_once_def using coord_step.join by blast

lemma joined_twice_step: "coord_step joined_once joined_twice"
  unfolding joined_twice_def by (rule coord_step.join)

lemma joined_twice_reachable: "coord_step\<^sup>*\<^sup>* coordinator_new joined_twice"
  using joined_once_reachable joined_twice_step by (rule rtranclp.rtrancl_into_rtrancl)

section \<open>The assignment\<close>

text \<open>
  C24. The range assignment of a topic: walking through the subscribed members in the order of
  their names, their partitions read together are 0, 1, 2 and so on up to the last, so every
  partition is given to exactly one member; no two members' shares differ by more than one; and
  a member that does not subscribe gets none of them.
\<close>

theorem assignment_partitions_topic:
  assumes "hm_wf members" and "counts topic = Some partitions" and "subscribers members topic \<noteq> []"
  shows "concat (map (parts_of topic (assign members counts)) (subscribers members topic)) =
      map word_of_nat [0..<unat partitions] \<and>
    (\<forall>m \<in> set (subscribers members topic).
      length (parts_of topic (assign members counts) m) \<in>
        {unat partitions div length (subscribers members topic),
         unat partitions div length (subscribers members topic) + 1}) \<and>
    (\<forall>m. m \<notin> set (subscribers members topic) \<longrightarrow> parts_of topic (assign members counts) m = [])"
proof (intro conjI ballI allI impI)
  show "concat (map (parts_of topic (assign members counts)) (subscribers members topic)) =
      map word_of_nat [0..<unat partitions]"
    by (rule assign_partition [where counts = counts, OF assms])
  fix m assume "m \<in> set (subscribers members topic)"
  then have "run_of members counts topic m \<in> set (map (run_of members counts topic) (subscribers members topic))"
    by simp
  then show "length (parts_of topic (assign members counts) m) \<in>
        {unat partitions div length (subscribers members topic),
         unat partitions div length (subscribers members topic) + 1}"
    unfolding run_of_members [where counts = counts, OF assms(1,2)] parts_of_assign [OF assms(1)]
    using runs_lengths by fastforce
next
  fix m assume "m \<notin> set (subscribers members topic)"
  then show "parts_of topic (assign members counts) m = []"
    by (simp add: parts_of_assign [OF assms(1)] run_of_other)
qed

theorem assignment_partitions_topic_witness:
  "concat (map (parts_of ''t'' (assign two_members three_parts)) (subscribers two_members ''t'')) = [0, 1, 2]"
proof -
  have "hm_wf two_members" "three_parts ''t'' = Some 3" by (simp_all add: two_members_def three_parts_def)
  moreover have "subscribers two_members ''t'' \<noteq> []"
    by (simp add: subscribers_def two_members_def)
  ultimately show ?thesis
    using assignment_partitions_topic [of two_members three_parts "''t''" 3]
    by (simp add: upt_rec)
qed

section \<open>Fencing\<close>

text \<open>
  C22. Exclusive ownership. In every reachable state of the coordinator, if the commits of two
  different members of a group are accepted, then both carry the group's current generation and
  no partition is assigned to both of them.
\<close>

theorem accepted_commits_are_disjoint:
  assumes "coord_step\<^sup>*\<^sup>* coordinator_new c" and "m \<noteq> m'" and "m \<noteq> []" and "m' \<noteq> []"
    and "check_commit grp m gen c = NoError" and "check_commit grp m' gen' c = NoError"
  shows "gen = gen' \<and>
    (\<exists>g. hm_get (gc_groups c) grp = Some g \<and> gen = gp_generation g \<and>
      set (the (hm_get (gp_assignment g) m)) \<inter> set (the (hm_get (gp_assignment g) m')) = {})"
proof -
  have inv: "coord_inv c" by (rule coord.run [OF assms(1) coordinator_new_inv])
  obtain g where g: "hm_get (gc_groups c) grp = Some g" "gen = gp_generation g" "gen' = gp_generation g"
    and mem: "hm_get (gp_members g) m \<noteq> None" "hm_get (gp_members g) m' \<noteq> None"
    using assms(3-6) by (auto simp: check_commit_def split: option.splits if_splits)
  have ok: "group_ok (gc_next_member c) g" by (rule coord_inv_get [OF inv g(1)])
  then obtain counts where a: "gp_assignment g = assign (gp_members g) counts" and wf: "hm_wf (gp_members g)"
    by (auto simp: group_ok_def)
  obtain s s' where "hm_get (gp_assignment g) m = Some s" "hm_get (gp_assignment g) m' = Some s'"
    using mem by (auto simp: a assign_get [OF wf])
  then have "set (the (hm_get (gp_assignment g) m)) \<inter> set (the (hm_get (gp_assignment g) m')) = {}"
    using assign_disjoint [OF wf assms(2)] by (simp add: a)
  then show ?thesis using g by simp
qed

lemma joined_twice_commits:
  "check_commit ''g'' ''m-1'' 2 joined_twice = NoError" "check_commit ''g'' ''m-2'' 2 joined_twice = NoError"
  by code_simp+

theorem accepted_commits_are_disjoint_witness:
  "\<exists>g. hm_get (gc_groups joined_twice) ''g'' = Some g \<and>
     set (the (hm_get (gp_assignment g) ''m-1'')) \<inter> set (the (hm_get (gp_assignment g) ''m-2'')) = {}"
  using accepted_commits_are_disjoint [OF joined_twice_reachable _ _ _ joined_twice_commits] by auto

text \<open>
  C25. Fencing of members that missed a rebalance. A group's generation never goes back, and if a
  commit carrying the generation of an earlier state is accepted later, then the members of the
  group, their subscriptions and the whole assignment are still those of the earlier state.
\<close>

theorem accepted_commit_is_current:
  assumes "coord_step\<^sup>*\<^sup>* coordinator_new c" and "coord_step\<^sup>*\<^sup>* c c'"
    and "hm_get (gc_groups c) grp = Some g"
  shows "\<exists>g'. hm_get (gc_groups c') grp = Some g' \<and> gp_generation g \<le> gp_generation g' \<and>
    (\<forall>m. m \<noteq> [] \<longrightarrow> check_commit grp m (gp_generation g) c' = NoError \<longrightarrow>
      gp_assignment g' = gp_assignment g \<and>
      map (\<lambda>(id, mb). (id, mb_topics mb)) (gp_members g') = map (\<lambda>(id, mb). (id, mb_topics mb)) (gp_members g))"
proof -
  have "coord_inv c" by (rule coord.run [OF assms(1) coordinator_new_inv])
  then have "coord_later c c'" by (rule coord.run_later [OF assms(2)])
  then obtain g' where g': "hm_get (gc_groups c') grp = Some g'" and "group_later g g'"
    using assms(3) by (auto simp: coord_later_def)
  then show ?thesis
    by (auto simp: group_later_def member_view_def check_commit_def split: if_splits)
qed

theorem accepted_commit_is_current_witness:
  "\<exists>g'. hm_get (gc_groups joined_twice) ''g'' = Some g' \<and> 1 \<le> gp_generation g'"
proof -
  obtain g where g: "hm_get (gc_groups joined_once) ''g'' = Some g" "gp_generation g = 1"
    by (simp add: joined_once_def join_def coordinator_new_def Let_def default_group_def rebalance_def)
  have "coord_step\<^sup>*\<^sup>* joined_once joined_twice" using joined_twice_step by blast
  from accepted_commit_is_current [OF joined_once_reachable this g(1)] show ?thesis using g(2) by auto
qed

section \<open>Membership\<close>

text \<open>
  Joining. A join with an empty or unknown member id creates a member under a fresh id and
  starts a new generation with a new assignment; a member that joins again with the same
  subscriptions keeps its id, generation and assignment. Either way the outcome is the state of
  the group, and the member's commits under the returned generation are accepted.
\<close>

theorem join_returns_group_state:
  assumes "coord_step\<^sup>*\<^sup>* coordinator_new c"
  shows "case join now grp member_id timeout topics counts c of (c', out) \<Rightarrow>
    \<exists>g'. hm_get (gc_groups c') grp = Some g' \<and>
      jo_generation out = gp_generation g' \<and> jo_member_id out \<noteq> [] \<and>
      hm_get (gp_assignment g') (jo_member_id out) = Some (jo_assignment out) \<and>
      check_commit grp (jo_member_id out) (jo_generation out) c' = NoError \<and>
      (case hm_get (gc_groups c) grp of
         None \<Rightarrow> gp_generation g' = 1
       | Some g \<Rightarrow>
           if member_id = [] \<or> hm_get (gp_members g) member_id = None
           then hm_get (gp_members g) (jo_member_id out) = None \<and> gp_generation g' = gp_generation g + 1
           else jo_member_id out = member_id \<and>
             (mb_topics (the (hm_get (gp_members g) member_id)) = topics \<longrightarrow>
               gp_generation g' = gp_generation g \<and> gp_assignment g' = gp_assignment g))"
proof -
  obtain c' out where j: "join now grp member_id timeout topics counts c = (c', out)" by fastforce
  have inv: "coord_inv c" by (rule coord.run [OF assms coordinator_new_inv])
  have "coord_inv c'" using join_ok [OF inv, of now grp member_id timeout topics counts] j by simp
  define g where "g = (case hm_get (gc_groups c) grp of Some g \<Rightarrow> g | None \<Rightarrow> default_group)"
  have g: "group_ok (gc_next_member c) g"
    using coord_inv_get [OF inv] default_group_ok by (auto simp: g_def split: option.split)
  have fresh: "hm_get (gp_members g) (member_name (gc_next_member c)) = None"
    using g by (force simp: group_ok_def hm_get_None_iff)
  have grp: "\<exists>g'. hm_get (gc_groups c') grp = Some g' \<and> jo_generation out = gp_generation g' \<and>
      jo_member_id out \<noteq> [] \<and> hm_get (gp_members g') (jo_member_id out) \<noteq> None \<and>
      jo_assignment out = (case hm_get (gp_assignment g') (jo_member_id out) of Some a \<Rightarrow> a | None \<Rightarrow> []) \<and>
      (if member_id = [] \<or> hm_get (gp_members g) member_id = None
       then jo_member_id out = member_name (gc_next_member c) \<and> gp_generation g' = gp_generation g + 1
       else jo_member_id out = member_id \<and>
         (mb_topics (the (hm_get (gp_members g) member_id)) = topics \<longrightarrow>
           gp_generation g' = gp_generation g \<and> gp_assignment g' = gp_assignment g))"
  proof (cases "member_id = [] \<or> hm_get (gp_members g) member_id = None")
    case True
    then have "(if member_id = [] then None else hm_get (gp_members g) member_id) = None" by auto
    then show ?thesis
      using j True unfolding join_def Let_def g_def [symmetric] by (auto simp: rebalance_def)
  next
    case False
    then obtain m where m: "(if member_id = [] then None else hm_get (gp_members g) member_id) = Some m"
      "hm_get (gp_members g) member_id = Some m" "member_id \<noteq> []" by auto
    then show ?thesis
      using j unfolding join_def Let_def g_def [symmetric] by (auto simp: rebalance_def)
  qed
  then obtain g' where g': "hm_get (gc_groups c') grp = Some g'" "jo_generation out = gp_generation g'"
    "jo_member_id out \<noteq> []" "hm_get (gp_members g') (jo_member_id out) \<noteq> None"
    "jo_assignment out = (case hm_get (gp_assignment g') (jo_member_id out) of Some a \<Rightarrow> a | None \<Rightarrow> [])"
    and cs: "if member_id = [] \<or> hm_get (gp_members g) member_id = None
       then jo_member_id out = member_name (gc_next_member c) \<and> gp_generation g' = gp_generation g + 1
       else jo_member_id out = member_id \<and>
         (mb_topics (the (hm_get (gp_members g) member_id)) = topics \<longrightarrow>
           gp_generation g' = gp_generation g \<and> gp_assignment g' = gp_assignment g)"
    by blast
  have "group_ok (gc_next_member c') g'" by (rule coord_inv_get [OF \<open>coord_inv c'\<close> g'(1)])
  then have a: "hm_get (gp_assignment g') (jo_member_id out) = Some (jo_assignment out)"
    using g'(4,5) by (auto simp: group_ok_def assign_get)
  have "check_commit grp (jo_member_id out) (jo_generation out) c' = NoError"
    using g' by (simp add: check_commit_def)
  then show ?thesis
    using j g' a cs fresh by (cases "hm_get (gc_groups c) grp") (auto simp: g_def default_group_def)
qed

theorem join_returns_group_state_witness:
  "jo_member_id (snd (join 5 ''g'' [] 1000 [''t''] three_parts joined_once)) \<noteq> []"
  using join_returns_group_state [OF joined_once_reachable,
    where now = 5 and grp = "''g''" and member_id = "[]" and timeout = 1000 and topics = "[''t'']"
      and counts = three_parts]
  by (auto simp: case_prod_beta)

text \<open>
  Expiry. The sweep evicts exactly the members whose last heartbeat is older than their
  session timeout, from every group, counts them, and starts a new generation with a new
  assignment exactly in the groups that lost a member.
\<close>

theorem expire_evicts_silent_members:
  assumes "coord_step\<^sup>*\<^sup>* coordinator_new c"
  shows "case expire now counts c of (c', evicted) \<Rightarrow>
    map fst (gc_groups c') = map fst (gc_groups c) \<and>
    (evicted = 0 \<longleftrightarrow> (\<forall>(_, g) \<in> set (gc_groups c). \<forall>(_, m) \<in> set (gp_members g). \<not> timed_out now m)) \<and>
    (\<forall>grp g. hm_get (gc_groups c) grp = Some g \<longrightarrow>
      (\<exists>g'. hm_get (gc_groups c') grp = Some g' \<and>
        (\<forall>id. hm_get (gp_members g') id =
          (case hm_get (gp_members g) id of
             None \<Rightarrow> None | Some m \<Rightarrow> if timed_out now m then None else Some m)) \<and>
        gp_generation g' = gp_generation g +
          (if \<exists>(_, m) \<in> set (gp_members g). timed_out now m then 1 else 0)))"
proof -
  have inv: "coord_inv c" by (rule coord.run [OF assms coordinator_new_inv])
  have ev: "snd (expire_group now counts g) = 0 \<longleftrightarrow> (\<forall>(_, m) \<in> set (gp_members g). \<not> timed_out now m)" for g
    by (auto simp: expire_group_def Let_def filter_empty_conv)
  have "snd (expire now counts c) = 0 \<longleftrightarrow>
      (\<forall>(_, g) \<in> set (gc_groups c). \<forall>(_, m) \<in> set (gp_members g). \<not> timed_out now m)"
    by (simp add: expire_def sum_list_eq_0_iff ev case_prod_unfold)
  moreover have "\<exists>g'. hm_get (gc_groups (fst (expire now counts c))) grp = Some g' \<and>
        (\<forall>id. hm_get (gp_members g') id =
          (case hm_get (gp_members g) id of
             None \<Rightarrow> None | Some m \<Rightarrow> if timed_out now m then None else Some m)) \<and>
        gp_generation g' = gp_generation g +
          (if \<exists>(_, m) \<in> set (gp_members g). timed_out now m then 1 else 0)"
    if g: "hm_get (gc_groups c) grp = Some g" for grp g
  proof -
    have wf: "hm_wf (gp_members g)" using coord_inv_get [OF inv g] by (simp add: group_ok_def)
    let ?dead = "map fst (filter (\<lambda>(_, m). timed_out now m) (gp_members g))"
    have dead: "id \<in> set ?dead \<longleftrightarrow> (\<exists>m. hm_get (gp_members g) id = Some m \<and> timed_out now m)" for id
      using wf by (force simp: image_iff)
    have "hm_get (gp_members (fst (expire_group now counts g))) id =
        (case hm_get (gp_members g) id of None \<Rightarrow> None | Some m \<Rightarrow> if timed_out now m then None else Some m)" for id
    proof (cases "?dead = []")
      case True
      then have "fst (expire_group now counts g) = g" by (simp add: expire_group_def)
      then show ?thesis using dead [of id] True by (auto split: option.split)
    next
      case False
      then have "gp_members (fst (expire_group now counts g)) = fold hm_remove ?dead (gp_members g)"
        by (simp add: expire_group_def Let_def rebalance_def)
      then show ?thesis using dead [of id] by (auto simp: fold_remove_get split: option.split)
    qed
    moreover have "gp_generation (fst (expire_group now counts g)) = gp_generation g +
        (if \<exists>(_, m) \<in> set (gp_members g). timed_out now m then 1 else 0)"
      by (auto simp: expire_group_def Let_def rebalance_def filter_empty_conv)
    ultimately show ?thesis using g by (simp add: expire_def)
  qed
  ultimately show ?thesis
    by (simp add: case_prod_beta) (simp add: expire_def)
qed

theorem expire_evicts_silent_members_witness:
  "map fst (gc_groups (fst (expire 2000 three_parts joined_twice))) = map fst (gc_groups joined_twice)"
  using expire_evicts_silent_members [OF joined_twice_reachable, of 2000 three_parts]
  by (simp add: case_prod_beta)

end
