(* ===== verification/PartitionActor.thy ===== *)
theory PartitionActor
  imports PartitionLog EpochCheckpoint Proto
begin

text \<open>
  The writer thread of a partition, \<^verbatim>\<open>src/src/broker/partition.rs\<close>: it owns the log and the
  leader-epoch checkpoint, which share a directory, and takes one command at a time. A reply
  channel is a number, and a command returns the answers it sends, in order. A durable append
  waits in a queue for the flush that covers it.
\<close>

section \<open>State\<close>

text \<open>The sender of a oneshot channel.\<close>

type_synonym reply = nat

record read_ok =
  ro_log_start :: nat
  ro_next_offset :: nat
  ro_records :: "log_record list"

datatype cmd =
    Append "(bytes option \<times> bytes) list" acks "reply option"
  | Read nat nat reply
  | AppendReplicated "log_record list" reply
  | TruncateTo nat reply
  | RecordEpoch u64
  | EpochStatus reply
  | EpochEndFor u64 reply

type_synonym append_result = "error_code + nat \<times> nat"

datatype answer =
    Appended append_result
  | ReadDone "error_code + read_ok"
  | LogEnd "error_code + nat"
  | EpochStatusIs nat nat
  | EpochEndIs nat

record pending =
  pd_last_offset :: nat
  pd_base_offset :: nat
  pd_count :: nat
  pd_reply :: reply

text \<open>The variables of \<open>run\<close>; \<open>ac_watch\<close> is the value of \<open>watch_tx\<close>.\<close>

record actor =
  ac_log :: log
  ac_disk :: disk
  ac_epochs :: epoch_entries
  ac_watch :: nat
  ac_pending :: "pending list"
  ac_dirty_since :: "nat option"

section \<open>Starting\<close>

abbreviation (input) U64_MAX :: nat where "U64_MAX \<equiv> 18446744073709551615"

text \<open>Time-based flushing is left to the thread: its log keeps only the byte trigger.\<close>

definition actor_log_config :: "log_config \<Rightarrow> log_config" where
  "actor_log_config cfg =
     (case fsync cfg of
        Batch max_bytes _ \<Rightarrow> cfg\<lparr>fsync := Batch max_bytes U64_MAX\<rparr>
      | _ \<Rightarrow> cfg)"

definition actor_spawn ::
    "(bytes \<Rightarrow> u32) \<Rightarrow> log_config \<Rightarrow> nat \<Rightarrow> disk \<Rightarrow> storage_error + actor" where
  "actor_spawn crc cfg now d =
     bind_r (log_open crc (actor_log_config cfg) now d) (\<lambda>(l, d).
     bind_r (epochs_load d) (\<lambda>es.
       Inr \<lparr>ac_log = l, ac_disk = d, ac_epochs = es, ac_watch = log_next_offset l, ac_pending = [],
            ac_dirty_since = None\<rparr>))"

section \<open>Helpers\<close>

definition is_dirty :: "log \<Rightarrow> bool" where
  "is_dirty l = (let next = log_next_offset l in next > 0 \<and> lg_durable l \<noteq> Some (next - 1))"

fun map_storage_err :: "storage_error \<Rightarrow> error_code" where
  "map_storage_err (OutOfRange _) = OffsetOutOfRange"
| "map_storage_err (RecordTooLarge _) = MalformedErr"
| "map_storage_err _ = StorageErr"

text \<open>\<open>durable.is_some_and(|d| d >= last)\<close>.\<close>

definition covers :: "nat option \<Rightarrow> nat \<Rightarrow> bool" where
  "covers durable lst = (case durable of None \<Rightarrow> False | Some d \<Rightarrow> lst \<le> d)"

definition note_dirty :: "nat \<Rightarrow> actor \<Rightarrow> actor" where
  "note_dirty now a =
     a\<lparr>ac_watch := log_next_offset (ac_log a),
       ac_dirty_since :=
         (if is_dirty (ac_log a)
          then (case ac_dirty_since a of None \<Rightarrow> Some now | Some since \<Rightarrow> Some since) else None)\<rparr>"

fun drain_pending :: "nat option \<Rightarrow> pending list \<Rightarrow> (reply \<times> answer) list \<times> pending list" where
  "drain_pending durable [] = ([], [])"
| "drain_pending durable (p # ps) =
     (if covers durable (pd_last_offset p) then
        let (out, rest) = drain_pending durable ps
        in ((pd_reply p, Appended (Inr (pd_base_offset p, pd_count p))) # out, rest)
      else ([], p # ps))"

definition drain :: "actor \<Rightarrow> actor \<times> (reply \<times> answer) list" where
  "drain a = (let (out, rest) = drain_pending (lg_durable (ac_log a)) (ac_pending a)
              in (a\<lparr>ac_pending := rest\<rparr>, out))"

definition actor_flush :: "nat \<Rightarrow> actor \<Rightarrow> actor \<times> (reply \<times> answer) list" where
  "actor_flush now a =
     (case log_flush now (ac_log a, ac_disk a) of
        Inl _ \<Rightarrow> (a, [])
      | Inr (_, l, d) \<Rightarrow> drain (a\<lparr>ac_log := l, ac_disk := d, ac_dirty_since := None\<rparr>))"

text \<open>
  The loops of the two appends: an element that fails ends the loop, and what was appended
  before it stays.
\<close>

fun until_error :: "('x \<Rightarrow> 's \<Rightarrow> 'e + 'b \<times> 's) \<Rightarrow> 'x list \<Rightarrow> 's \<Rightarrow> 'b list \<times> 'e option \<times> 's" where
  "until_error f [] s = ([], None, s)"
| "until_error f (x # xs) s =
     (case f x s of
        Inl e \<Rightarrow> ([], Some e, s)
      | Inr (b, s) \<Rightarrow> let (bs, e, s) = until_error f xs s in (b # bs, e, s))"

section \<open>Commands\<close>

text \<open>\<open>ts\<close> gives the wall clock's reading when the record at an offset is appended.\<close>

definition append_one ::
    "(bytes \<Rightarrow> u32) \<Rightarrow> log_config \<Rightarrow> nat \<Rightarrow> (nat \<Rightarrow> i64) \<Rightarrow> bytes option \<times> bytes \<Rightarrow> log \<times> disk \<Rightarrow>
     storage_error + append_info \<times> log \<times> disk" where
  "append_one crc cfg now ts kv ld =
     log_append crc (actor_log_config cfg) now (ts (log_next_offset (fst ld))) (fst kv) (snd kv) ld"

definition actor_append ::
    "(bytes \<Rightarrow> u32) \<Rightarrow> log_config \<Rightarrow> nat \<Rightarrow> (nat \<Rightarrow> i64) \<Rightarrow> (bytes option \<times> bytes) list \<Rightarrow> acks \<Rightarrow>
     reply option \<Rightarrow> actor \<Rightarrow> actor \<times> (reply \<times> answer) list" where
  "actor_append crc cfg now ts records acks reply a =
     (let (infos, error, l, d) =
            until_error (append_one crc cfg now ts) records (ac_log a, ac_disk a);
          count = length infos;
          a = note_dirty now (a\<lparr>ac_log := l, ac_disk := d\<rparr>);
          (a, out) =
            (case reply of
               None \<Rightarrow> (a, [])
             | Some reply \<Rightarrow>
                 (case (error, infos) of
                    (Some e, _) \<Rightarrow> (a, [(reply, Appended (Inl (map_storage_err e)))])
                  | (None, []) \<Rightarrow> (a, [(reply, Appended (Inr (log_next_offset l, 0)))])
                  | (None, info # _) \<Rightarrow>
                      let base = fst info;
                          lst = log_next_offset l - 1;
                          acked_now =
                            (acks = AcksNone \<or> acks = Written \<or> fsync cfg = OsDecides \<or>
                             covers (lg_durable l) lst)
                      in if acked_now then (a, [(reply, Appended (Inr (base, count)))])
                         else (a\<lparr>ac_pending := ac_pending a @
                                 [\<lparr>pd_last_offset = lst, pd_base_offset = base, pd_count = count,
                                   pd_reply = reply\<rparr>]\<rparr>, [])));
          (a, drained) = drain a
      in (a, out @ drained))"

definition actor_read ::
    "(bytes \<Rightarrow> u32) \<Rightarrow> log_config \<Rightarrow> nat \<Rightarrow> nat \<Rightarrow> actor \<Rightarrow> error_code + read_ok" where
  "actor_read crc cfg offset max_bytes a =
     (case log_read crc (actor_log_config cfg) offset max_bytes (ac_log a, ac_disk a) of
        Inl e \<Rightarrow> Inl (map_storage_err e)
      | Inr records \<Rightarrow>
          Inr \<lparr>ro_log_start = log_start_offset (ac_log a), ro_next_offset = log_next_offset (ac_log a),
               ro_records = records\<rparr>)"

definition actor_append_replicated ::
    "(bytes \<Rightarrow> u32) \<Rightarrow> log_config \<Rightarrow> nat \<Rightarrow> log_record list \<Rightarrow> actor \<Rightarrow> actor \<times> (error_code + nat)" where
  "actor_append_replicated crc cfg now records a =
     (let (_, error, l, d) =
            until_error (append_replicated crc (actor_log_config cfg) now) records
              (ac_log a, ac_disk a);
          result = (case error of None \<Rightarrow> Inr (log_next_offset l) | Some e \<Rightarrow> Inl (map_storage_err e))
      in (note_dirty now (a\<lparr>ac_log := l, ac_disk := d\<rparr>), result))"

text \<open>A failure to truncate the checkpoint comes after the log has been truncated.\<close>

definition actor_truncate_to ::
    "(bytes \<Rightarrow> u32) \<Rightarrow> log_config \<Rightarrow> nat \<Rightarrow> actor \<Rightarrow> actor \<times> (error_code + nat)" where
  "actor_truncate_to crc cfg offset a =
     (let (a, result) =
        (case truncate_suffix crc (actor_log_config cfg) offset (ac_log a, ac_disk a) of
           Inl e \<Rightarrow> (a, Inl (map_storage_err e))
         | Inr (l, d) \<Rightarrow>
             let a = a\<lparr>ac_log := l, ac_disk := d\<rparr>
             in case epochs_truncate_to offset (ac_epochs a, d) of
                  Inl e \<Rightarrow> (a, Inl (map_storage_err e))
                | Inr (es, d) \<Rightarrow> (a\<lparr>ac_epochs := es, ac_disk := d\<rparr>, Inr (log_next_offset l)))
      in (a\<lparr>ac_watch := log_next_offset (ac_log a)\<rparr>, result))"

definition actor_record_epoch :: "u64 \<Rightarrow> actor \<Rightarrow> actor" where
  "actor_record_epoch epoch a =
     (if unat epoch > current_epoch (ac_epochs a) then
        case epochs_append (unat epoch) (log_next_offset (ac_log a)) (ac_epochs a, ac_disk a) of
          Inl _ \<Rightarrow> a
        | Inr (es, d) \<Rightarrow> a\<lparr>ac_epochs := es, ac_disk := d\<rparr>
      else a)"

definition actor_cmd ::
    "(bytes \<Rightarrow> u32) \<Rightarrow> log_config \<Rightarrow> nat \<Rightarrow> (nat \<Rightarrow> i64) \<Rightarrow> cmd \<Rightarrow> actor \<Rightarrow> actor \<times> (reply \<times> answer) list" where
  "actor_cmd crc cfg now ts c a =
     (case c of
        Append records acks reply \<Rightarrow> actor_append crc cfg now ts records acks reply a
      | Read offset max_bytes reply \<Rightarrow> (a, [(reply, ReadDone (actor_read crc cfg offset max_bytes a))])
      | AppendReplicated records reply \<Rightarrow>
          let (a, result) = actor_append_replicated crc cfg now records a
          in (a, [(reply, LogEnd result)])
      | TruncateTo offset reply \<Rightarrow>
          let (a, result) = actor_truncate_to crc cfg offset a in (a, [(reply, LogEnd result)])
      | RecordEpoch epoch \<Rightarrow> (actor_record_epoch epoch a, [])
      | EpochStatus reply \<Rightarrow>
          (a, [(reply, EpochStatusIs (current_epoch (ac_epochs a)) (log_next_offset (ac_log a)))])
      | EpochEndFor epoch reply \<Rightarrow>
          (a, [(reply, EpochEndIs (end_offset_for (ac_epochs a) (unat epoch) (log_next_offset (ac_log a))))]))"

section \<open>Time\<close>

definition batch_max_ms :: "log_config \<Rightarrow> nat option" where
  "batch_max_ms cfg = (case fsync cfg of Batch _ max_ms \<Rightarrow> Some max_ms | _ \<Rightarrow> None)"

text \<open>How long the thread waits for a command before it wakes up.\<close>

definition recv_timeout :: "log_config \<Rightarrow> nat \<Rightarrow> actor \<Rightarrow> nat" where
  "recv_timeout cfg now a =
     (case (ac_dirty_since a, batch_max_ms cfg) of
        (Some since, Some ms) \<Rightarrow> max (ms - (now - since)) 1
      | _ \<Rightarrow> 500)"

definition actor_timeout :: "log_config \<Rightarrow> nat \<Rightarrow> actor \<Rightarrow> actor \<times> (reply \<times> answer) list" where
  "actor_timeout cfg now a =
     (case (ac_dirty_since a, batch_max_ms cfg) of
        (Some since, Some ms) \<Rightarrow> if now - since \<ge> ms then actor_flush now a else (a, [])
      | _ \<Rightarrow> (a, []))"

text \<open>All senders are gone: a last flush, and the thread ends.\<close>

definition actor_disconnected :: "nat \<Rightarrow> actor \<Rightarrow> actor \<times> (reply \<times> answer) list" where
  "actor_disconnected now a = actor_flush now a"

end
