(* ===== verification/LogFrame.thy ===== *)
theory LogFrame
  imports PartitionLog
begin

text \<open>
  The files an operation of the log touches: only those of its segments. The leader-epoch
  checkpoint lives in the same directory and is left alone.
\<close>

definition segment_files :: "string set" where
  "segment_files = range log_path \<union> range index_path"

lemma segment_files_paths [simp]: "log_path n \<in> segment_files" "index_path n \<in> segment_files"
  by (simp_all add: segment_files_def)

abbreviation touches :: "disk \<Rightarrow> disk \<Rightarrow> bool" where
  "touches \<equiv> unchanged_outside segment_files"

lemma touches_trans [trans]: "touches d d' \<Longrightarrow> touches d' d'' \<Longrightarrow> touches d d''"
  by (rule unchanged_trans_same)

lemma bind_r_InrE: "bind_r r f = Inr y \<Longrightarrow> (\<And>x. r = Inr x \<Longrightarrow> f x = Inr y \<Longrightarrow> P) \<Longrightarrow> P"
  by (auto simp: bind_r_eq_Inr)

named_theorems frame \<open>what an operation leaves alone\<close>

lemma unchanged_within: "unchanged_outside {p} d d' \<Longrightarrow> p \<in> segment_files \<Longrightarrow> touches d d'"
  by (rule unchanged_mono) auto

lemma fs_frame [frame]:
  "fs_append p bs d = Inr d' \<Longrightarrow> p \<in> segment_files \<Longrightarrow> touches d d'"
  "fs_set_len p n d = Inr d' \<Longrightarrow> p \<in> segment_files \<Longrightarrow> touches d d'"
  "fs_sync p d = Inr d' \<Longrightarrow> p \<in> segment_files \<Longrightarrow> touches d d'"
  "fs_remove p d = Inr d' \<Longrightarrow> p \<in> segment_files \<Longrightarrow> touches d d'"
  "fs_create_new p d = Inr d' \<Longrightarrow> p \<in> segment_files \<Longrightarrow> touches d d'"
  "p \<in> segment_files \<Longrightarrow> touches d (fs_create p d)"
  by (rule unchanged_within; auto simp: fs_defs split: option.splits if_splits)+

lemma index_frame [frame]:
  "index_append p rel pos (es, d) = Inr (es', d') \<Longrightarrow> p \<in> segment_files \<Longrightarrow> touches d d'"
  "index_create p d = (es', d') \<Longrightarrow> p \<in> segment_files \<Longrightarrow> touches d d'"
  by (auto simp: index_append_def index_create_def bind_r_eq_Inr Let_def dest: fs_frame intro: fs_frame)

lemma segment_create_frame [frame]:
  assumes "segment_create base d = Inr (s, d')"
  shows "touches d d'"
proof -
  obtain d1 es d2 where "fs_create_new (log_path base) d = Inr d1" "index_create (index_path base) d1 = (es, d2)"
    and "d2 = d'"
    using assms by (auto simp: segment_create_def bind_r_eq_Inr split: prod.splits) (metis old.prod.exhaust)
  then show ?thesis using fs_frame(5) index_frame(2) by (meson segment_files_paths touches_trans)
qed

lemma scan_frame [frame]:
  "scan crc cfg base rebuild torn buf ix next since valid_end = Inr ((es', d'), rest) \<Longrightarrow> touches (snd ix) d'"
proof (induction crc cfg base rebuild torn buf ix "next" since valid_end rule: scan.induct)
  case (1 crc cfg base rebuild torn buf ix nxt since valid_end)
  show ?case
  proof (cases "decode crc buf (max_record_bytes cfg)")
    case (Decoded r consumed)
    from "1.prems" Decoded obtain es1 d1 since1 where
      step: "(if rebuild \<and> index_interval_bytes cfg \<le> since then
                bind_r (index_append (index_path base) (as_u32 (unat (lr_offset r) - base))
                          (as_u32 valid_end) ix) (\<lambda>ix. Inr (ix, 0))
              else Inr (ix, since)) = Inr ((es1, d1), since1)"
      and off: "unat (lr_offset r) = nxt"
      and go: "scan crc cfg base rebuild torn (drop consumed buf) (es1, d1) (nxt + 1) (since1 + consumed)
          (valid_end + consumed) = Inr ((es', d'), rest)"
      by (subst (asm) scan.simps) (auto simp: bind_r_eq_Inr split: if_splits)
    have "touches (snd ix) d1"
      using step index_frame(1) by (cases ix) (auto simp: bind_r_eq_Inr split: if_splits)
    moreover have "touches (snd (es1, d1)) d'"
      using off by (intro "1.IH" [OF Decoded _ go]) simp
    ultimately show ?thesis by (auto intro: touches_trans)
  next
    case Incomplete
    then show ?thesis using "1.prems" by (subst (asm) scan.simps) (auto split: if_splits)
  next
    case (Corrupt reason)
    then show ?thesis using "1.prems" by (subst (asm) scan.simps) (auto split: if_splits)
  qed
qed

lemma index_create_touches: "touches d (snd (index_create (index_path base) d))"
  using index_frame(2) [of "index_path base" d] by (metis prod.collapse segment_files_paths(2))

lemma recover_index_frame [frame]:
  "recover_index base torn d = Inr (ix, rest) \<Longrightarrow> touches d (snd ix)"
  using index_create_touches [of d base]
  by (cases "index_load (index_path base) d"; cases "projr (index_load (index_path base) d)";
      cases "index_last (the (projr (index_load (index_path base) d)))")
    (auto simp: recover_index_def split: if_splits)

lemma recover_frame [frame]:
  assumes "recover crc cfg base torn d = Inr (s, d')"
  shows "touches d d'"
proof -
  obtain ix scan_pos scan_offset rebuild bytes es1 d1 nxt since valid_end where
    ri: "recover_index base torn d = Inr (ix, scan_pos, scan_offset, rebuild)"
    and sc: "scan crc cfg base rebuild torn (drop scan_pos bytes) ix scan_offset 0 scan_pos =
        Inr ((es1, d1), nxt, since, valid_end)"
    and fin: "(if valid_end < length bytes then
                 bind_r (fs_set_len (log_path base) valid_end d1) (fs_sync (log_path base))
               else Inr d1) = Inr d'"
    using assms by (auto simp: recover_def bind_r_eq_Inr Let_def split: if_splits prod.splits)
  have "touches d1 d'"
    using fin fs_frame(2,3) by (auto simp: bind_r_eq_Inr split: if_splits) (meson segment_files_paths touches_trans)
  then show ?thesis
    using recover_index_frame [OF ri] scan_frame [OF sc] by (meson touches_trans)
qed

lemma seg_append_frame [frame]:
  assumes "seg_append crc cfg r (s, d) = Inr (n, s', d')"
  shows "touches d d'"
proof -
  obtain es1 d1 s1 where
    i: "(if index_interval_bytes cfg \<le> sg_since_index s then
           bind_r (index_append (index_path (sg_base s)) (as_u32 (unat (lr_offset r) - sg_base s))
                     (as_u32 (sg_size s)) (sg_index s, d)) (\<lambda>(es, d).
             Inr (s\<lparr>sg_index := es, sg_since_index := 0\<rparr>, d))
         else Inr (s, d)) = Inr (s1, d1)"
    and a: "fs_append (log_path (sg_base s1)) (encode crc r) d1 = Inr d'"
    using assms by (auto simp: seg_append_def bind_r_eq_Inr Let_def)
  have "touches d d1"
    using i index_frame(1) by (auto simp: bind_r_eq_Inr split: if_splits)
  then show ?thesis using fs_frame(1) [OF a] by (auto intro: touches_trans)
qed

lemma log_flush_frame [frame]: "log_flush now (l, d) = Inr (n, l', d') \<Longrightarrow> touches d d'"
  by (auto simp: log_flush_def seg_flush_def bind_r_eq_Inr Let_def dest: fs_frame(3))

lemma log_roll_frame [frame]: "log_roll now (l, d) = Inr (l', d') \<Longrightarrow> touches d d'"
  by (auto simp: log_roll_def bind_r_eq_Inr Let_def dest!: log_flush_frame segment_create_frame
      intro: touches_trans)

lemma append_record_frame [frame]:
  assumes "append_record crc cfg now r (l, d) = Inr (i, l', d')"
  shows "touches d d'"
proof -
  obtain l1 d1 n s2 d2 where
    ro: "(if sg_size (lg_active l) > 0 \<and> sg_size (lg_active l) + encoded_len r > max_segment_bytes cfg
         then log_roll now (l, d) else Inr (l, d)) = Inr (l1, d1)"
    and ap: "seg_append crc cfg r (lg_active l1, d1) = Inr (n, s2, d2)"
    and fl: "(let l = l1\<lparr>lg_active := s2, lg_dirty := lg_dirty l1 + n\<rparr> in
        case fsync cfg of
          Always \<Rightarrow> bind_r (log_flush now (l, d2)) (\<lambda>(_, l, d). Inr (l, d))
        | Batch max_bytes max_ms \<Rightarrow>
            if lg_dirty l \<ge> max_bytes \<or> now - lg_last_flush l \<ge> max_ms
            then bind_r (log_flush now (l, d2)) (\<lambda>(_, l, d). Inr (l, d)) else Inr (l, d2)
        | OsDecides \<Rightarrow> Inr (l, d2)) = Inr (l', d')"
    using assms by (auto simp: append_record_def bind_r_eq_Inr Let_def split: if_splits)
  have "touches d d1" using ro log_roll_frame by (auto split: if_splits)
  moreover have "touches d1 d2" by (rule seg_append_frame [OF ap])
  moreover have "touches d2 d'"
    using fl log_flush_frame by (auto simp: Let_def bind_r_eq_Inr split: fsync_policy.splits if_splits)
  ultimately show ?thesis by (meson touches_trans)
qed

lemma remove_segment_files_frame [frame]: "remove_segment_files base d = Inr d' \<Longrightarrow> touches d d'"
  by (auto simp: remove_segment_files_def bind_r_eq_Inr dest!: fs_frame(4) intro: touches_trans)

lemma remove_doomed_frame [frame]:
  "remove_doomed bases (c, d) = Inr (c', d') \<Longrightarrow> touches d d'"
proof (induction bases "(c, d)" arbitrary: c d rule: remove_doomed.induct)
  case (2 base bases c d)
  then show ?case by (auto simp: bind_r_eq_Inr dest!: remove_segment_files_frame intro: touches_trans)
qed simp

lemma truncate_suffix_frame [frame]:
  assumes "truncate_suffix crc cfg n (l, d) = Inr (l', d')"
  shows "touches d d'"
proof (cases "log_next_offset l \<le> n")
  case True
  then show ?thesis using assms by (simp add: truncate_suffix_def)
next
  case False
  then obtain t where t: "truncate_target l n = Some t"
    using assms by (auto simp: truncate_suffix_def split: if_splits option.splits)
  let ?doomed = "map fst (filter (\<lambda>e. t < fst e) (lg_closed l))"
  have "\<not> n < log_start_offset l" using assms False by (auto simp: truncate_suffix_def)
  with assms False t obtain c1 d1 d2 pos d3 d4 s where
    "remove_doomed ?doomed (lg_closed l, d) = Inr (c1, d1)"
    and a: "(if sg_base (lg_active l) \<noteq> t then remove_segment_files (sg_base (lg_active l)) d1 else Inr d1) = Inr d2"
    and "fs_set_len (log_path t) pos d2 = Inr d3" "fs_sync (log_path t) d3 = Inr d4"
    and "recover crc cfg t True d4 = Inr (s, d')"
    unfolding truncate_suffix_def Let_def by (auto simp del: not_le not_less elim!: bind_r_InrE)
  moreover have "touches d1 d2" using a by (auto split: if_splits dest: remove_segment_files_frame)
  ultimately show ?thesis
    by (meson remove_doomed_frame fs_frame(2,3) recover_frame segment_files_paths touches_trans)
qed

lemma log_append_frame [frame]:
  "log_append crc cfg now ts k v (l, d) = Inr (i, l', d') \<Longrightarrow> touches d d'"
  by (auto simp: log_append_def dest: append_record_frame)

lemma append_replicated_frame [frame]:
  "append_replicated crc cfg now r (l, d) = Inr (i, l', d') \<Longrightarrow> touches d d'"
  by (auto simp: append_replicated_def dest: append_record_frame split: if_splits)

section \<open>The checkpoint's files are not segment files\<close>

lemma epochs_not_segment:
  "''leader-epochs'' \<notin> segment_files" "''leader-epochs.tmp'' \<notin> segment_files"
  by (auto simp: segment_files_def log_path_def index_path_def append_eq_conv_conj image_iff)

end
