(* ===== verification/ActorFacts.thy ===== *)
theory ActorFacts
  imports PartitionActor LogFrame LogRecovery Machines
begin

text \<open>
  The facts about the writer thread: its invariant, the interface through which its append
  loops use the log, and what each command does to the records, the checkpoint and the queue
  of waiting acknowledgements.
\<close>

section \<open>The log's interface to the append loops\<close>

text \<open>
  What the loops rely on: from a good state, an accepted element adds one record at the end that
  stores the element, and returns its offset; only an element that is not acceptable is refused.
\<close>

locale record_appender =
  fixes append1 :: "'x \<Rightarrow> 's \<Rightarrow> 'e + append_info \<times> 's"
    and good :: "'s \<Rightarrow> bool"
    and recs :: "'s \<Rightarrow> log_record list"
    and end_of :: "'s \<Rightarrow> nat"
    and stores :: "'x \<Rightarrow> log_record \<Rightarrow> bool"
    and acceptable :: "'x \<Rightarrow> 's \<Rightarrow> bool"
    and reason :: "'e \<Rightarrow> bool"
  assumes append1: "good s \<Longrightarrow> end_of s + 1 < 2 ^ 64 \<Longrightarrow> append1 x s = Inr (info, s') \<Longrightarrow>
    good s' \<and> end_of s' = end_of s + 1 \<and> fst info = end_of s \<and>
    (\<exists>r. stores x r \<and> recs s' = recs s @ [r])"
    and refusal: "good s \<Longrightarrow> end_of s + 1 < 2 ^ 64 \<Longrightarrow> append1 x s = Inl e \<Longrightarrow>
    \<not> acceptable x s \<and> reason e"
begin

lemma batch:
  assumes "until_error append1 xs s = (infos, err, s')" and "good s" and "end_of s + length xs < 2 ^ 64"
  shows "good s' \<and> end_of s' = end_of s + length infos \<and> map fst infos = [end_of s..<end_of s'] \<and>
    length infos \<le> length xs \<and> (err = None \<longleftrightarrow> length infos = length xs) \<and>
    (\<exists>rs. list_all2 stores (take (length infos) xs) rs \<and> recs s' = recs s @ rs) \<and>
    (\<forall>e. err = Some e \<longrightarrow> \<not> acceptable (xs ! length infos) s' \<and> reason e)"
  using assms
proof (induction xs arbitrary: s infos)
  case (Cons x xs)
  show ?case
  proof (cases "append1 x s")
    case (Inl e)
    then show ?thesis using Cons.prems refusal [OF Cons.prems(2) _ Inl] by auto
  next
    case (Inr ok)
    then obtain info s1 where ok: "append1 x s = Inr (info, s1)" by (cases ok) auto
    have one: "good s1" "end_of s1 = end_of s + 1" "fst info = end_of s"
      using append1 [OF Cons.prems(2) _ ok] Cons.prems(3) by simp_all
    obtain r where r: "stores x r" "recs s1 = recs s @ [r]"
      using append1 [OF Cons.prems(2) _ ok] Cons.prems(3) by auto
    obtain infos1 where rec: "until_error append1 xs s1 = (infos1, err, s')" "infos = info # infos1"
      using Cons.prems(1) ok by (auto split: prod.splits)
    have "end_of s1 + length xs < 2 ^ 64" using Cons.prems(3) one(2) by simp
    note ih = Cons.IH [OF rec(1) one(1) this]
    then obtain rs where "list_all2 stores (take (length infos1) xs) rs" "recs s' = recs s1 @ rs" by blast
    then have "list_all2 stores (take (length infos) (x # xs)) (r # rs)" "recs s' = recs s @ (r # rs)"
      using r rec(2) by simp_all
    moreover have "map fst infos = [end_of s..<end_of s']"
      using ih one rec(2) upt_conv_Cons [of "end_of s" "end_of s'"] by (simp del: upt_Suc)
    ultimately show ?thesis using ih one rec(2) by auto
  qed
qed auto

end

section \<open>The invariant\<close>

definition actor_ok :: "(bytes \<Rightarrow> u32) \<Rightarrow> log_config \<Rightarrow> actor \<Rightarrow> bool" where
  "actor_ok crc cfg a \<longleftrightarrow>
     log_inv crc (actor_log_config cfg) (ac_log a) (ac_disk a) \<and>
     epochs_wf (ac_epochs a) \<and> epochs_stored (ac_epochs a) (ac_disk a) \<and>
     ac_watch a = log_next_offset (ac_log a) \<and>
     (is_dirty (ac_log a) \<longrightarrow> ac_dirty_since a \<noteq> None)"

abbreviation actor_records :: "(bytes \<Rightarrow> u32) \<Rightarrow> log_config \<Rightarrow> actor \<Rightarrow> log_record list" where
  "actor_records crc cfg a \<equiv> log_records crc (actor_log_config cfg) (ac_log a) (ac_disk a)"

lemma actor_log_config_simps [simp]:
  "max_record_bytes (actor_log_config cfg) = max_record_bytes cfg"
  "fsync (actor_log_config cfg) = Always \<longleftrightarrow> fsync cfg = Always"
  by (simp_all add: actor_log_config_def split: fsync_policy.split)

text \<open>Frames: the log leaves the checkpoint alone, and the other way round.\<close>

lemma epochs_files_outside [simp]: "epochs_file \<notin> segment_files" "epochs_tmp \<notin> segment_files"
  by (simp_all add: epochs_file_def epochs_tmp_def epochs_not_segment)

lemma epochs_stored_touches: "touches d d' \<Longrightarrow> epochs_stored es d \<Longrightarrow> epochs_stored es d'"
  by (simp add: epochs_stored_def unchanged_get)

lemma epochs_files_no_log [simp]:
  "strip_suffix ''.log'' epochs_file = None" "strip_suffix ''.log'' epochs_tmp = None"
  by (simp_all add: strip_suffix_def epochs_file_def epochs_tmp_def)

lemma epochs_paths [simp]:
  "log_path k \<noteq> epochs_file" "index_path k \<noteq> epochs_file" "log_path k \<noteq> epochs_tmp" "index_path k \<noteq> epochs_tmp"
  using epochs_files_outside segment_files_paths by metis+

lemma log_ok_epochs:
  assumes ok: "log_ok crc cfg l d start rss ra" and u: "unchanged_outside {epochs_file, epochs_tmp} d d'"
  shows "log_ok crc cfg l d' start rss ra"
proof -
  note a = log_okD [OF ok]
  have "closed_ok crc cfg d' start (lg_closed l) rss"
    by (rule closed_ok_unchanged [OF a(2) u]) simp
  moreover have "seg_ok crc cfg d' (lg_active l) ra" by (rule seg_ok_frame [OF a(4) u]) simp_all
  moreover have "dir_ok (map fst (lg_closed l) @ [sg_base (lg_active l)]) d'"
    by (rule dir_ok_step [OF a(6) u]) auto
  moreover have "durable_ok crc d' (lg_active l) ra (lg_durable l)"
    using a(7) unchanged_get [OF u, of "log_path (sg_base (lg_active l))"]
    by (simp add: durable_ok_def split: option.splits)
  ultimately show ?thesis using a by (simp add: log_ok_def)
qed

lemma log_inv_epochs:
  assumes "log_inv crc cfg l d" and "unchanged_outside {epochs_file, epochs_tmp} d d'"
  shows "log_inv crc cfg l d'" and "log_records crc cfg l d' = log_records crc cfg l d"
proof -
  obtain rss ra where "log_ok crc cfg l d (log_start_offset l) rss ra"
    and "log_records crc cfg l d = concat rss @ ra"
    using log_inv_ok [OF assms(1)] .
  then show "log_inv crc cfg l d'" "log_records crc cfg l d' = log_records crc cfg l d"
    using log_ok_abs(4,5) [OF log_ok_epochs [OF _ assms(2)]] by simp_all
qed

lemma log_inv_end:
  assumes "log_inv crc cfg l d"
  shows "log_next_offset l = log_start_offset l + length (log_records crc cfg l d)"
    and "log_next_offset l < 2 ^ 64" and "\<And>k. lg_durable l = Some k \<Longrightarrow> k < log_next_offset l"
proof -
  obtain rss ra where ok: "log_ok crc cfg l d (log_start_offset l) rss ra"
    and r: "log_records crc cfg l d = concat rss @ ra"
    using log_inv_ok [OF assms(1)] .
  show "log_next_offset l = log_start_offset l + length (log_records crc cfg l d)"
    using log_ok_abs(6) [OF ok] by (simp add: r)
  show "log_next_offset l < 2 ^ 64" using log_okD(5) [OF ok] by (simp add: log_next_offset_def)
  show "k < log_next_offset l" if "lg_durable l = Some k" for k
    using log_okD(7) [OF ok] that by (simp add: durable_ok_def log_next_offset_def)
qed

section \<open>The two appends\<close>

definition good_store ::
    "(bytes \<Rightarrow> u32) \<Rightarrow> log_config \<Rightarrow> nat \<Rightarrow> epoch_entries \<Rightarrow> log \<times> disk \<Rightarrow> bool" where
  "good_store crc cfg start es ld \<longleftrightarrow>
     log_inv crc cfg (fst ld) (snd ld) \<and> log_start_offset (fst ld) = start \<and> epochs_stored es (snd ld)"

text \<open>The record made of a produced key and value; the offset is the log's end.\<close>

definition producible :: "log_config \<Rightarrow> bytes option \<times> bytes \<Rightarrow> bool" where
  "producible cfg kv \<longleftrightarrow>
     encoded_len \<lparr>lr_offset = 0, lr_timestamp_ms = 0, lr_key = fst kv, lr_value = snd kv\<rparr>
       \<le> max_record_bytes cfg"

definition holds :: "bytes option \<times> bytes \<Rightarrow> log_record \<Rightarrow> bool" where
  "holds kv r \<longleftrightarrow> lr_key r = fst kv \<and> lr_value r = snd kv"

lemma append_record_good:
  assumes g: "good_store crc cfg start es (l, d)" and off: "unat (lr_offset r) = log_next_offset l"
    and n: "log_next_offset l + 1 < 2 ^ 64" and ap: "append_record crc cfg now r (l, d) = Inr (info, l', d')"
  shows "good_store crc cfg start es (l', d') \<and> log_next_offset l' = log_next_offset l + 1 \<and>
    fst info = log_next_offset l \<and> log_records crc cfg l' d' = log_records crc cfg l d @ [r] \<and>
    (fsync cfg = Always \<longrightarrow> lg_durable l' = Some (log_next_offset l))"
proof -
  have inv: "log_inv crc cfg l d" and st: "log_start_offset l = start"
    using g by (simp_all add: good_store_def)
  obtain rss ra where ok: "log_ok crc cfg l d start rss ra"
    and rs: "log_records crc cfg l d = concat rss @ ra"
    using log_inv_ok [OF inv] st by blast
  have le: "encoded_len r \<le> max_record_bytes cfg"
    using ap by (auto simp: append_record_def Let_def split: if_splits)
  obtain l2 d2 rss' ra' where "append_record crc cfg now r (l, d) =
        Inr ((log_next_offset l, lg_durable l2), l2, d2)"
    "log_ok crc cfg l2 d2 start rss' ra'" "concat rss' @ ra' = concat rss @ ra @ [r]"
    "log_next_offset l2 = log_next_offset l + 1"
    "fsync cfg = Always \<longrightarrow> lg_durable l2 = Some (log_next_offset l)"
    using append_record_ok [OF ok le off n] by blast
  moreover have "epochs_stored es d'"
    using g epochs_stored_touches [OF append_record_frame [OF ap]] by (simp add: good_store_def)
  ultimately show ?thesis
    using ap rs log_ok_abs(1,4,5) [of crc cfg l2 d2 start rss' ra'] by (simp add: good_store_def)
qed

lemma append_record_refused:
  assumes g: "good_store crc cfg start es (l, d)" and off: "unat (lr_offset r) = log_next_offset l"
    and n: "log_next_offset l + 1 < 2 ^ 64" and ap: "append_record crc cfg now r (l, d) = Inl e"
  shows "\<not> encoded_len r \<le> max_record_bytes cfg \<and> e = RecordTooLarge (encoded_len r)"
proof (cases "encoded_len r \<le> max_record_bytes cfg")
  case True
  have inv: "log_inv crc cfg l d" using g by (simp add: good_store_def)
  obtain rss ra where ok: "log_ok crc cfg l d (log_start_offset l) rss ra"
    using log_inv_ok [OF inv] .
  then show ?thesis using append_record_ok [OF ok True off n, of now] ap by auto
next
  case False
  then show ?thesis using ap by (simp add: append_record_def Let_def)
qed

interpretation produced: record_appender "append_one crc cfg now ts"
    "good_store crc (actor_log_config cfg) start es"
    "\<lambda>ld. log_records crc (actor_log_config cfg) (fst ld) (snd ld)" "\<lambda>ld. log_next_offset (fst ld)" holds
    "\<lambda>kv _. producible cfg kv" "\<lambda>e. map_storage_err e = MalformedErr"
  for crc cfg now ts start es
proof (unfold_locales, goal_cases)
  case (2 s x e)
  obtain l d where s: "s = (l, d)" by fastforce
  let ?r = "\<lparr>lr_offset = word_of_nat (log_next_offset l), lr_timestamp_ms = ts (log_next_offset l),
      lr_key = fst x, lr_value = snd x\<rparr> :: log_record"
  have off: "unat (lr_offset ?r) = log_next_offset l"
    using 2(2) s unat_of_nat_len [of "log_next_offset l", where 'a = 64] by simp
  have ap: "append_record crc (actor_log_config cfg) now ?r (l, d) = Inl e"
    using 2(3) s by (simp add: append_one_def log_append_def log_next_offset_def)
  have "\<not> encoded_len ?r \<le> max_record_bytes cfg \<and> e = RecordTooLarge (encoded_len ?r)"
    using append_record_refused [OF 2(1) [unfolded s] off _ ap] 2(2) s by simp
  then show ?case by (simp add: producible_def encoded_len_def key_len_def)
next
  case (1 s x info s')
  obtain l d l' d' where s: "s = (l, d)" "s' = (l', d')" by fastforce
  let ?r = "\<lparr>lr_offset = word_of_nat (log_next_offset l), lr_timestamp_ms = ts (log_next_offset l),
      lr_key = fst x, lr_value = snd x\<rparr> :: log_record"
  have off: "unat (lr_offset ?r) = log_next_offset l"
    using 1(2) s unat_of_nat_len [of "log_next_offset l", where 'a = 64] by simp
  have ap: "append_record crc (actor_log_config cfg) now ?r (l, d) = Inr (info, l', d')"
    using 1(3) s by (simp add: append_one_def log_append_def log_next_offset_def)
  have "holds x ?r" by (simp add: holds_def)
  then show ?case
    using append_record_good [OF 1(1) [unfolded s] off _ ap] 1(2) s by (auto intro!: exI [of _ ?r])
qed

interpretation replicated: record_appender "append_replicated crc cfg now"
    "good_store crc cfg start es" "\<lambda>ld. log_records crc cfg (fst ld) (snd ld)"
    "\<lambda>ld. log_next_offset (fst ld)" "(=)"
    "\<lambda>r ld. unat (lr_offset r) = log_next_offset (fst ld) \<and> encoded_len r \<le> max_record_bytes cfg"
    "\<lambda>_. True"
  for crc cfg now start es
proof (unfold_locales, goal_cases)
  case (2 s x e)
  obtain l d where s: "s = (l, d)" by fastforce
  show ?case
    using 2 append_record_refused [OF 2(1) [unfolded s], of x now e] s
    by (auto simp: append_replicated_def split: if_splits)
next
  case (1 s x info s')
  obtain l d l' d' where s: "s = (l, d)" "s' = (l', d')" by fastforce
  have off: "unat (lr_offset x) = log_next_offset l"
    and ap: "append_record crc cfg now x (l, d) = Inr (info, l', d')"
    using 1(3) s by (auto simp: append_replicated_def split: if_splits)
  show ?case using append_record_good [OF 1(1) [unfolded s] off _ ap] 1(2) s by auto
qed

section \<open>The queue of acknowledgements\<close>

lemma covers_simps [simp]: "\<not> covers None n" "covers (Some d) n \<longleftrightarrow> n \<le> d"
  by (simp_all add: covers_def)

lemma drain_pending_append:
  "drain_pending durable ps = (out, rest) \<Longrightarrow>
     \<exists>done. ps = done @ rest \<and>
       out = map (\<lambda>p. (pd_reply p, Appended (Inr (pd_base_offset p, pd_count p)))) done \<and>
       (\<forall>p \<in> set done. covers durable (pd_last_offset p)) \<and>
       (rest \<noteq> [] \<longrightarrow> \<not> covers durable (pd_last_offset (hd rest)))"
proof (induction ps arbitrary: out)
  case (Cons p ps)
  show ?case
  proof (cases "covers durable (pd_last_offset p)")
    case True
    then obtain out' where o: "drain_pending durable ps = (out', rest)"
      and out: "out = (pd_reply p, Appended (Inr (pd_base_offset p, pd_count p))) # out'"
      using Cons.prems by (auto split: prod.splits)
    obtain don where "ps = don @ rest"
      "out' = map (\<lambda>p. (pd_reply p, Appended (Inr (pd_base_offset p, pd_count p)))) don"
      "\<forall>p \<in> set don. covers durable (pd_last_offset p)"
      "rest \<noteq> [] \<longrightarrow> \<not> covers durable (pd_last_offset (hd rest))"
      using Cons.IH [OF o] by blast
    then show ?thesis using True out by (intro exI [of _ "p # don"]) simp
  next
    case False
    then show ?thesis using Cons.prems by (intro exI [of _ "[]"]) auto
  qed
qed simp

lemma drain_pending_all:
  "\<forall>p \<in> set ps. covers durable (pd_last_offset p) \<Longrightarrow>
   drain_pending durable ps =
     (map (\<lambda>p. (pd_reply p, Appended (Inr (pd_base_offset p, pd_count p)))) ps, [])"
  by (induction ps) auto

definition queue_ok :: "pending list \<Rightarrow> bool" where
  "queue_ok ps \<longleftrightarrow> (\<forall>p \<in> set ps. 0 < pd_count p \<and> pd_last_offset p = pd_base_offset p + pd_count p - 1)"

lemma queue_ok_simps [simp]:
  "queue_ok []" "queue_ok (ps @ qs) \<longleftrightarrow> queue_ok ps \<and> queue_ok qs"
  by (auto simp: queue_ok_def)

lemma drain_spec:
  assumes "drain a = (a', out)"
  shows "\<exists>done rest. a' = a\<lparr>ac_pending := rest\<rparr> \<and> ac_pending a = done @ rest \<and>
    out = map (\<lambda>p. (pd_reply p, Appended (Inr (pd_base_offset p, pd_count p)))) done \<and>
    (\<forall>p \<in> set done. covers (lg_durable (ac_log a)) (pd_last_offset p))"
  using assms drain_pending_append [of "lg_durable (ac_log a)" "ac_pending a"]
  by (fastforce simp: drain_def split: prod.splits)

lemma note_dirty_simps [simp]:
  "ac_log (note_dirty now a) = ac_log a" "ac_disk (note_dirty now a) = ac_disk a"
  "ac_epochs (note_dirty now a) = ac_epochs a" "ac_pending (note_dirty now a) = ac_pending a"
  "ac_watch (note_dirty now a) = log_next_offset (ac_log a)"
  by (simp_all add: note_dirty_def)

lemma note_dirty_dirty: "is_dirty (ac_log a) \<Longrightarrow> ac_dirty_since (note_dirty now a) \<noteq> None"
  by (simp add: note_dirty_def split: option.split)

lemma actor_ok_pending [simp]: "actor_ok crc cfg (a\<lparr>ac_pending := ps\<rparr>) \<longleftrightarrow> actor_ok crc cfg a"
  by (simp add: actor_ok_def)

lemma actor_ok_note_dirty:
  "actor_ok crc cfg (note_dirty now a) \<longleftrightarrow>
     log_inv crc (actor_log_config cfg) (ac_log a) (ac_disk a) \<and>
     epochs_wf (ac_epochs a) \<and> epochs_stored (ac_epochs a) (ac_disk a)"
  using note_dirty_dirty by (auto simp: actor_ok_def)

lemma drain_simps [simp]:
  "ac_log (fst (drain a)) = ac_log a" "ac_disk (fst (drain a)) = ac_disk a"
  "ac_epochs (fst (drain a)) = ac_epochs a" "ac_watch (fst (drain a)) = ac_watch a"
  "ac_dirty_since (fst (drain a)) = ac_dirty_since a"
  "actor_ok crc cfg (fst (drain a)) \<longleftrightarrow> actor_ok crc cfg a"
  by (simp_all add: drain_def split: prod.split)

section \<open>Flushing\<close>

lemma actor_flush_ok:
  assumes ok: "actor_ok crc cfg a"
  shows "\<exists>a1. actor_flush now a = drain a1 \<and> actor_ok crc cfg a1 \<and>
    ac_pending a1 = ac_pending a \<and> ac_epochs a1 = ac_epochs a \<and>
    lg_durable (ac_log a1) = checked_pred (log_next_offset (ac_log a)) \<and>
    log_next_offset (ac_log a1) = log_next_offset (ac_log a) \<and>
    actor_records crc cfg a1 = actor_records crc cfg a \<and> ac_dirty_since a1 = None \<and>
    log_start_offset (ac_log a1) = log_start_offset (ac_log a)"
proof -
  let ?l = "ac_log a" and ?d = "ac_disk a" and ?c = "actor_log_config cfg"
  have inv: "log_inv crc ?c ?l ?d" using ok by (simp add: actor_ok_def)
  obtain rss ra where lok: "log_ok crc ?c ?l ?d (log_start_offset ?l) rss ra"
    and rs: "log_records crc ?c ?l ?d = concat rss @ ra"
    using log_inv_ok [OF inv] .
  let ?l1 = "?l\<lparr>lg_durable := checked_pred (log_next_offset ?l), lg_dirty := 0, lg_last_flush := now\<rparr>"
  obtain d1 where fl: "log_flush now (?l, ?d) = Inr (checked_pred (log_next_offset ?l), ?l1, d1)"
    and ok1: "log_ok crc ?c ?l1 d1 (log_start_offset ?l) rss ra"
    using log_flush_ok [OF lok] by blast
  have nx: "log_next_offset ?l1 = log_next_offset ?l" by (simp add: log_next_offset_def)
  then have "\<not> is_dirty ?l1" by (auto simp: is_dirty_def Let_def checked_pred_def)
  moreover have "epochs_stored (ac_epochs a) d1"
    using ok epochs_stored_touches [OF log_flush_frame [OF fl]] by (simp add: actor_ok_def)
  ultimately have "actor_ok crc cfg (a\<lparr>ac_log := ?l1, ac_disk := d1, ac_dirty_since := None\<rparr>)"
    using ok log_ok_abs(4) [OF ok1] nx by (simp add: actor_ok_def)
  then show ?thesis
    using fl nx log_ok_abs(1,5) [OF ok1] rs
    by (intro exI [of _ "a\<lparr>ac_log := ?l1, ac_disk := d1, ac_dirty_since := None\<rparr>"])
      (simp add: actor_flush_def)
qed

end
