(* ===== verification/ActorCommands.thy ===== *)
theory ActorCommands
  imports ActorFacts
begin

text \<open>What each command of the writer thread does, from a good state.\<close>

section \<open>Append\<close>

definition own_answer ::
    "log_config \<Rightarrow> acks \<Rightarrow> reply option \<Rightarrow> nat \<Rightarrow> nat \<Rightarrow> nat \<Rightarrow> actor \<Rightarrow> pending list \<Rightarrow>
     (reply \<times> answer) list \<Rightarrow> bool" where
  "own_answer cfg acks reply base len n a1 queued own \<longleftrightarrow>
     (case reply of
        None \<Rightarrow> queued = [] \<and> own = []
      | Some rp \<Rightarrow>
          if n < len then queued = [] \<and> own = [(rp, Appended (Inl MalformedErr))]
          else if len = 0 then queued = [] \<and> own = [(rp, Appended (Inr (base, 0)))]
          else if acks = AcksNone \<or> acks = Written \<or> fsync cfg = OsDecides \<or>
                  covers (lg_durable (ac_log a1)) (base + len - 1)
          then queued = [] \<and> own = [(rp, Appended (Inr (base, len)))]
          else queued = [\<lparr>pd_last_offset = base + len - 1, pd_base_offset = base, pd_count = len,
                          pd_reply = rp\<rparr>] \<and> own = [])"

lemma actor_append_ok:
  assumes ok: "actor_ok crc cfg a"
    and n: "log_next_offset (ac_log a) + length records < 2 ^ 64"
  shows "\<exists>a1 rs queued own.
    actor_append crc cfg now ts records acks reply a =
      (fst (drain a1), own @ snd (drain a1)) \<and>
    actor_ok crc cfg a1 \<and> ac_pending a1 = ac_pending a @ queued \<and> ac_epochs a1 = ac_epochs a \<and>
    log_start_offset (ac_log a1) = log_start_offset (ac_log a) \<and>
    length rs \<le> length records \<and> list_all2 holds (take (length rs) records) rs \<and>
    actor_records crc cfg a1 = actor_records crc cfg a @ rs \<and>
    log_next_offset (ac_log a1) = log_next_offset (ac_log a) + length rs \<and>
    own_answer cfg acks reply (log_next_offset (ac_log a)) (length records) (length rs) a1 queued own \<and>
    (length rs < length records \<longrightarrow> \<not> producible cfg (records ! length rs))"
proof -
  let ?c = "actor_log_config cfg" and ?b = "log_next_offset (ac_log a)"
  obtain infos err l d where u: "until_error (append_one crc cfg now ts) records (ac_log a, ac_disk a) =
      (infos, err, l, d)" by (metis prod_cases4)
  have g: "good_store crc ?c (log_start_offset (ac_log a)) (ac_epochs a) (ac_log a, ac_disk a)"
    using ok by (simp add: actor_ok_def good_store_def)
  have n': "log_next_offset (fst (ac_log a, ac_disk a)) + length records < 2 ^ 64" using n by simp
  note b = produced.batch [OF u g n']
  obtain rs where rs: "list_all2 holds (take (length infos) records) rs"
    "log_records crc ?c l d = actor_records crc cfg a @ rs" using b by auto
  have len: "length rs = length infos" using rs(1) b by (auto dest: list_all2_lengthD)
  have nx: "log_next_offset l = ?b + length infos" using b by simp
  let ?a0 = "note_dirty now (a\<lparr>ac_log := l, ac_disk := d\<rparr>)"
  have ok0: "actor_ok crc cfg ?a0"
    unfolding actor_ok_note_dirty using b ok by (simp add: good_store_def actor_ok_def)
  define queued where "queued =
    (case reply of None \<Rightarrow> [] | Some rp \<Rightarrow>
      if err = None \<and> infos \<noteq> [] \<and> \<not> (acks = AcksNone \<or> acks = Written \<or> fsync cfg = OsDecides \<or>
         covers (lg_durable l) (log_next_offset l - 1))
      then [\<lparr>pd_last_offset = log_next_offset l - 1, pd_base_offset = fst (hd infos),
             pd_count = length infos, pd_reply = rp\<rparr>] else [])"
  define own where "own =
    (case reply of None \<Rightarrow> [] | Some rp \<Rightarrow>
      (case err of Some e \<Rightarrow> [(rp, Appended (Inl (map_storage_err e)))]
       | None \<Rightarrow> if infos = [] then [(rp, Appended (Inr (log_next_offset l, 0)))]
           else if acks = AcksNone \<or> acks = Written \<or> fsync cfg = OsDecides \<or>
             covers (lg_durable l) (log_next_offset l - 1)
           then [(rp, Appended (Inr (fst (hd infos), length infos)))] else []))"
  let ?a1 = "?a0\<lparr>ac_pending := ac_pending a @ queued\<rparr>"
  have same: "?a0\<lparr>ac_pending := ac_pending a\<rparr> = ?a0" by (simp add: note_dirty_def)
  have run: "actor_append crc cfg now ts records acks reply a = (fst (drain ?a1), own @ snd (drain ?a1))"
    by (cases reply; cases err; cases infos)
      (auto simp: actor_append_def u Let_def queued_def own_def same split: prod.splits)
  have hd: "infos \<noteq> [] \<Longrightarrow> fst (hd infos) = ?b"
  proof -
    assume ne: "infos \<noteq> []"
    have "map fst infos = [?b..<?b + length infos]" using b nx by simp
    then have "hd (map fst infos) = hd [?b..<?b + length infos]" by (rule arg_cong)
    moreover have "[?b..<?b + length infos] = ?b # [Suc ?b..<?b + length infos]"
      using ne by (intro upt_conv_Cons) simp
    ultimately show ?thesis using ne by (simp add: hd_map)
  qed
  have "own_answer cfg acks reply ?b (length records) (length rs) ?a1 queued own"
  proof (cases reply)
    case None
    then show ?thesis by (simp add: own_answer_def queued_def own_def)
  next
    case (Some rp)
    show ?thesis
    proof (cases err)
      case None
      then have full: "length infos = length records" using b by simp
      show ?thesis
      proof (cases "infos = []")
        case True
        then show ?thesis using Some None full nx len
          by (simp add: own_answer_def queued_def own_def)
      next
        case False
        then have "records \<noteq> []" using full by auto
        then show ?thesis using Some None full nx len hd [OF False] False
          by (simp add: own_answer_def queued_def own_def)
      qed
    next
      case (Some e)
      then have "length infos < length records" "map_storage_err e = MalformedErr" using b by auto
      then show ?thesis using Some \<open>reply = Some rp\<close> len
        by (simp add: own_answer_def queued_def own_def)
    qed
  qed
  moreover have "list_all2 holds (take (length rs) records) rs" using rs(1) len by simp
  moreover have "length rs < length records \<longrightarrow> \<not> producible cfg (records ! length rs)"
    using b len by (cases err) auto
  ultimately show ?thesis
    using run ok0 rs(2) len nx b
    by (intro exI [of _ ?a1] exI [of _ rs] exI [of _ queued] exI [of _ own]) (simp add: good_store_def)
qed

section \<open>Replicated append\<close>

lemma actor_append_replicated_ok:
  assumes ok: "actor_ok crc cfg a"
    and n: "log_next_offset (ac_log a) + length records < 2 ^ 64"
    and r: "actor_append_replicated crc cfg now records a = (a', result)"
  shows "actor_ok crc cfg a' \<and> ac_pending a' = ac_pending a \<and> ac_epochs a' = ac_epochs a \<and>
    log_start_offset (ac_log a') = log_start_offset (ac_log a) \<and>
    (\<exists>k \<le> length records. actor_records crc cfg a' = actor_records crc cfg a @ take k records \<and>
       log_next_offset (ac_log a') = log_next_offset (ac_log a) + k \<and>
       (case result of
          Inr e \<Rightarrow> k = length records \<and> e = log_next_offset (ac_log a')
        | Inl _ \<Rightarrow> k < length records \<and>
            \<not> (unat (lr_offset (records ! k)) = log_next_offset (ac_log a') \<and>
               encoded_len (records ! k) \<le> max_record_bytes cfg)))"
proof -
  let ?c = "actor_log_config cfg"
  obtain infos err l d where u: "until_error (append_replicated crc ?c now) records (ac_log a, ac_disk a) =
      (infos, err, l, d)" by (metis prod_cases4)
  have g: "good_store crc ?c (log_start_offset (ac_log a)) (ac_epochs a) (ac_log a, ac_disk a)"
    using ok by (simp add: actor_ok_def good_store_def)
  have n': "log_next_offset (fst (ac_log a, ac_disk a)) + length records < 2 ^ 64" using n by simp
  note b = replicated.batch [OF u g n']
  have rs: "log_records crc ?c l d = actor_records crc cfg a @ take (length infos) records"
    using b by (auto simp: list.rel_eq)
  have a': "a' = note_dirty now (a\<lparr>ac_log := l, ac_disk := d\<rparr>)"
    "result = (case err of None \<Rightarrow> Inr (log_next_offset l) | Some e \<Rightarrow> Inl (map_storage_err e))"
    using r by (simp_all add: actor_append_replicated_def u)
  have "actor_ok crc cfg a'"
    unfolding a' actor_ok_note_dirty using b ok by (simp add: good_store_def actor_ok_def)
  then show ?thesis using a' rs b
    by (cases err) (auto simp: good_store_def intro!: exI [of _ "length infos"])
qed

section \<open>Truncation\<close>

lemma actor_truncate_to_ok:
  assumes ok: "actor_ok crc cfg a" and r: "actor_truncate_to crc cfg n a = (a', result)"
  shows "actor_ok crc cfg a' \<and> ac_pending a' = ac_pending a \<and>
    log_start_offset (ac_log a') = log_start_offset (ac_log a) \<and>
    (if n < log_start_offset (ac_log a) \<and> n < log_next_offset (ac_log a)
     then result = Inl OffsetOutOfRange \<and> ac_epochs a' = ac_epochs a \<and>
       actor_records crc cfg a' = actor_records crc cfg a \<and>
       log_next_offset (ac_log a') = log_next_offset (ac_log a)
     else result = Inr (log_next_offset (ac_log a')) \<and>
       log_next_offset (ac_log a') = min n (log_next_offset (ac_log a)) \<and>
       actor_records crc cfg a' = take (n - log_start_offset (ac_log a)) (actor_records crc cfg a) \<and>
       ac_epochs a' = filter (\<lambda>e. snd e < n) (ac_epochs a) \<and>
       (\<forall>d. lg_durable (ac_log a') = Some d \<longrightarrow> d < n))"
proof -
  let ?c = "actor_log_config cfg" and ?l = "ac_log a" and ?d = "ac_disk a"
  let ?s = "log_start_offset ?l"
  have inv: "log_inv crc ?c ?l ?d" using ok by (simp add: actor_ok_def)
  obtain rss ra where lok: "log_ok crc ?c ?l ?d ?s rss ra"
    and rs: "log_records crc ?c ?l ?d = concat rss @ ra"
    using log_inv_ok [OF inv] .
  show ?thesis
  proof (cases "n < ?s \<and> n < log_next_offset ?l")
    case True
    then have t: "truncate_suffix crc ?c n (?l, ?d) = Inl (OutOfRange n)"
      using truncate_suffix_other(2) [OF lok] by blast
    then have "a' = a\<lparr>ac_watch := log_next_offset ?l\<rparr>" "result = Inl OffsetOutOfRange"
      using r by (auto simp: actor_truncate_to_def)
    then show ?thesis using True ok by (simp add: actor_ok_def)
  next
    case False
    obtain l1 d1 where t: "truncate_suffix crc ?c n (?l, ?d) = Inr (l1, d1)"
      and inv1: "log_inv crc ?c l1 d1" and st1: "log_start_offset l1 = ?s"
      and rec1: "log_records crc ?c l1 d1 = take (n - ?s) (log_records crc ?c ?l ?d)"
      and nx1: "log_next_offset l1 = min n (log_next_offset ?l)"
      and du1: "\<forall>k. lg_durable l1 = Some k \<longrightarrow> k < n"
      and di1: "is_dirty l1 \<longrightarrow> is_dirty ?l"
    proof (cases "log_next_offset ?l \<le> n")
      case True
      have "log_records crc ?c ?l ?d = take (n - ?s) (log_records crc ?c ?l ?d)"
        using log_inv_end(1) [OF inv] True by simp
      moreover have "\<forall>k. lg_durable ?l = Some k \<longrightarrow> k < n"
        using log_inv_end(3) [OF inv] True by fastforce
      ultimately show ?thesis
        using that [OF _ inv] truncate_suffix_other(1) [OF lok True] True by simp
    next
      case nn: False
      then obtain l1 d1 rss' ra' where t: "truncate_suffix crc ?c n (?l, ?d) = Inr (l1, d1)"
        and k: "log_ok crc ?c l1 d1 ?s rss' ra'" "concat rss' @ ra' = take (n - ?s) (concat rss @ ra)"
        "log_next_offset l1 = n"
        "lg_durable l1 = (case (lg_durable ?l, checked_pred n) of
          (Some j, Some lst) \<Rightarrow> Some (min j lst) | _ \<Rightarrow> None)"
        using truncate_suffix_ok [OF lok, of n] False by (meson not_le)
      have "\<forall>k. lg_durable l1 = Some k \<longrightarrow> k < n"
        using k(4) by (auto simp: checked_pred_def split: option.splits if_splits)
      moreover have "is_dirty l1 \<longrightarrow> is_dirty ?l"
        using k(3,4) nn by (cases "lg_durable ?l") (auto simp: is_dirty_def Let_def checked_pred_def)
      ultimately show ?thesis
        using that [OF t] k log_ok_abs(1,4,5) [OF k(1)] nn rs by simp
    qed
    have es: "epochs_wf (ac_epochs a)" "epochs_stored (ac_epochs a) d1"
      using ok epochs_stored_touches [OF truncate_suffix_frame [OF t]] by (simp_all add: actor_ok_def)
    obtain d2 where e: "epochs_truncate_to n (ac_epochs a, d1) = Inr (filter (\<lambda>e. snd e < n) (ac_epochs a), d2)"
      and es2: "epochs_wf (filter (\<lambda>e. snd e < n) (ac_epochs a))"
        "epochs_stored (filter (\<lambda>e. snd e < n) (ac_epochs a)) d2"
      and u: "unchanged_outside {epochs_file, epochs_tmp} d1 d2"
      using epochs_truncate_ok [OF es] by blast
    have a': "a' = a\<lparr>ac_log := l1, ac_epochs := filter (\<lambda>e. snd e < n) (ac_epochs a), ac_disk := d2,
        ac_watch := log_next_offset l1\<rparr>" "result = Inr (log_next_offset l1)"
      using r t e by (auto simp: actor_truncate_to_def)
    have "actor_ok crc cfg a'"
      using ok log_inv_epochs(1) [OF inv1 u] es2 di1 by (simp add: a' actor_ok_def)
    then show ?thesis
      using a' False st1 nx1 rec1 du1 log_inv_epochs(2) [OF inv1 u] by auto
  qed
qed

section \<open>Epochs\<close>

lemma actor_record_epoch_ok:
  assumes ok: "actor_ok crc cfg a"
  shows "actor_ok crc cfg (actor_record_epoch e a) \<and>
    ac_log (actor_record_epoch e a) = ac_log a \<and>
    ac_pending (actor_record_epoch e a) = ac_pending a \<and>
    actor_records crc cfg (actor_record_epoch e a) = actor_records crc cfg a \<and>
    ac_epochs (actor_record_epoch e a) =
      (if current_epoch (ac_epochs a) < unat e \<and>
          (ac_epochs a = [] \<or> snd (last (ac_epochs a)) \<le> log_next_offset (ac_log a))
       then ac_epochs a @ [(unat e, log_next_offset (ac_log a))] else ac_epochs a)"
proof -
  let ?es = "ac_epochs a" and ?n = "log_next_offset (ac_log a)" and ?c = "actor_log_config cfg"
  have inv: "log_inv crc ?c (ac_log a) (ac_disk a)" and wf: "epochs_wf ?es"
    and st: "epochs_stored ?es (ac_disk a)"
    using ok by (simp_all add: actor_ok_def)
  have cur: "?es \<noteq> [] \<Longrightarrow> current_epoch ?es = fst (last ?es)"
    by (simp add: current_epoch_def epochs_last_def split: prod.split)
  show ?thesis
  proof (cases "current_epoch ?es < unat e \<and> (?es = [] \<or> snd (last ?es) \<le> ?n)")
    case True
    have "unat e < 2 ^ 64" using unsigned_less [of e] by simp
    moreover have "?es \<noteq> [] \<Longrightarrow> fst (last ?es) < unat e \<and> snd (last ?es) \<le> ?n"
      using True cur by auto
    ultimately obtain d1 where e: "epochs_append (unat e) ?n (?es, ac_disk a) = Inr (?es @ [(unat e, ?n)], d1)"
      and es: "epochs_wf (?es @ [(unat e, ?n)])" "epochs_stored (?es @ [(unat e, ?n)]) d1"
      and u: "unchanged_outside {epochs_file} (ac_disk a) d1"
      using epochs_append_ok [OF wf st _ log_inv_end(2) [OF inv]] by blast
    have u': "unchanged_outside {epochs_file, epochs_tmp} (ac_disk a) d1"
      by (rule unchanged_mono [OF u]) simp
    show ?thesis
      using True e es ok log_inv_epochs [OF inv u'] by (simp add: actor_record_epoch_def actor_ok_def)
  next
    case False
    have "actor_record_epoch e a = a"
    proof (cases "current_epoch ?es < unat e")
      case True
      then have ne: "?es \<noteq> []" and "?n < snd (last ?es)" using False by auto
      then have "(unat e, ?n) \<noteq> last ?es" by (metis less_irrefl snd_conv)
      then have "epochs_append (unat e) ?n (?es, ac_disk a) = Inl (Io InvalidInput)"
        using epochs_append_refused [OF ne] \<open>?n < snd (last ?es)\<close> by blast
      then show ?thesis by (simp add: actor_record_epoch_def)
    qed (simp add: actor_record_epoch_def)
    then show ?thesis using False ok by simp
  qed
qed

end
