(* ===== verification/PartitionProperties.thy ===== *)
theory PartitionProperties
  imports ActorCommands
begin

text \<open>The properties of the writer thread: what an acknowledgement promises, and when it comes.\<close>

section \<open>Runs\<close>

definition cmd_size :: "cmd \<Rightarrow> nat" where
  "cmd_size c = (case c of Append rs _ _ \<Rightarrow> length rs | AppendReplicated rs _ \<Rightarrow> length rs | _ \<Rightarrow> 0)"

text \<open>Offsets stay below \<open>2^64\<close>.\<close>

abbreviation room :: "cmd \<Rightarrow> actor \<Rightarrow> bool" where
  "room c a \<equiv> log_next_offset (ac_log a) + cmd_size c < 2 ^ 64"

inductive actor_step :: "(bytes \<Rightarrow> u32) \<Rightarrow> log_config \<Rightarrow> actor \<Rightarrow> actor \<Rightarrow> bool"
  for crc :: "bytes \<Rightarrow> u32" and cfg :: log_config where
  command: "room c a \<Longrightarrow> actor_step crc cfg a (fst (actor_cmd crc cfg now ts c a))"
| timeout: "actor_step crc cfg a (fst (actor_timeout cfg now a))"

definition actor_good :: "(bytes \<Rightarrow> u32) \<Rightarrow> log_config \<Rightarrow> actor \<Rightarrow> bool" where
  "actor_good crc cfg a \<longleftrightarrow> actor_ok crc cfg a \<and> queue_ok (ac_pending a)"

lemma drain_good:
  assumes "actor_good crc cfg a1"
  shows "actor_good crc cfg (fst (drain a1))"
    and "\<And>rp base count. (rp, Appended (Inr (base, count))) \<in> set (snd (drain a1)) \<Longrightarrow>
      covers (lg_durable (ac_log a1)) (base + count - 1)"
proof -
  obtain don rest where d: "fst (drain a1) = a1\<lparr>ac_pending := rest\<rparr>" "ac_pending a1 = don @ rest"
    "snd (drain a1) = map (\<lambda>p. (pd_reply p, Appended (Inr (pd_base_offset p, pd_count p)))) don"
    "\<forall>p \<in> set don. covers (lg_durable (ac_log a1)) (pd_last_offset p)"
    using drain_spec [of a1 "fst (drain a1)" "snd (drain a1)"] by auto
  show "actor_good crc cfg (fst (drain a1))" using assms d by (simp add: actor_good_def)
  show "covers (lg_durable (ac_log a1)) (base + count - 1)"
    if "(rp, Appended (Inr (base, count))) \<in> set (snd (drain a1))" for rp base count
    using that d assms by (auto simp: actor_good_def queue_ok_def)
qed

lemma own_answer_queue:
  assumes "own_answer cfg acks reply base len n a1 queued own" and "n \<le> len"
  shows "queue_ok queued"
  using assms by (auto simp: own_answer_def queue_ok_def split: option.splits if_splits)

lemma actor_append_good:
  assumes "actor_good crc cfg a" and "log_next_offset (ac_log a) + length records < 2 ^ 64"
  obtains a1 rs queued own where
    "actor_append crc cfg now ts records acks reply a = (fst (drain a1), own @ snd (drain a1))"
    "actor_good crc cfg a1" "ac_pending a1 = ac_pending a @ queued"
    "length rs \<le> length records" "list_all2 holds (take (length rs) records) rs"
    "actor_records crc cfg a1 = actor_records crc cfg a @ rs"
    "log_next_offset (ac_log a1) = log_next_offset (ac_log a) + length rs"
    "own_answer cfg acks reply (log_next_offset (ac_log a)) (length records) (length rs) a1 queued own"
    "ac_epochs a1 = ac_epochs a"
  using assms actor_append_ok [of crc cfg a records now ts acks reply] own_answer_queue
  by (auto simp: actor_good_def)

lemma actor_flush_good:
  assumes "actor_good crc cfg a"
  obtains a1 where "actor_flush now a = drain a1" "actor_good crc cfg a1" "ac_pending a1 = ac_pending a"
    "lg_durable (ac_log a1) = checked_pred (log_next_offset (ac_log a))"
    "actor_records crc cfg a1 = actor_records crc cfg a"
    "log_next_offset (ac_log a1) = log_next_offset (ac_log a)" "ac_epochs a1 = ac_epochs a"
  using assms actor_flush_ok [of crc cfg a now] by (auto simp: actor_good_def)

lemma actor_timeout_cases:
  "actor_timeout cfg now a = (a, []) \<or> actor_timeout cfg now a = actor_flush now a"
  by (auto simp: actor_timeout_def split: option.splits if_splits)

lemma actor_cmd_good:
  assumes g: "actor_good crc cfg a" and r: "room c a"
  shows "actor_good crc cfg (fst (actor_cmd crc cfg now ts c a))"
proof (cases c)
  case (Append records acks reply)
  then show ?thesis
    using actor_append_good [OF g, of records now ts acks reply] r drain_good(1)
    by (simp add: actor_cmd_def cmd_size_def) (metis fst_conv)
next
  case (AppendReplicated records reply)
  then show ?thesis
    using actor_append_replicated_ok [of crc cfg a records now] g r
    by (auto simp: actor_cmd_def cmd_size_def actor_good_def split: prod.split)
next
  case (TruncateTo n reply)
  then show ?thesis
    using actor_truncate_to_ok [of crc cfg a n] g
    by (auto simp: actor_cmd_def actor_good_def split: prod.split)
next
  case (RecordEpoch e)
  then show ?thesis
    using actor_record_epoch_ok [of crc cfg a e] g by (simp add: actor_cmd_def actor_good_def)
qed (use g in \<open>simp_all add: actor_cmd_def\<close>)

lemma actor_timeout_good: "actor_good crc cfg a \<Longrightarrow> actor_good crc cfg (fst (actor_timeout cfg now a))"
  using actor_flush_good [of crc cfg a now] drain_good(1)
  using actor_timeout_cases [of cfg now a] by (metis fst_conv)

interpretation writer: preserved "actor_step crc cfg" "actor_good crc cfg" for crc cfg
  by unfold_locales (auto elim!: actor_step.cases intro: actor_cmd_good actor_timeout_good)

section \<open>A produce\<close>


section \<open>Samples\<close>

definition batch_config :: log_config where
  "batch_config = default_log_config\<lparr>fsync := Batch 1000000 5\<rparr>"

definition fresh_actor :: actor where
  "fresh_actor = \<lparr>ac_log = \<lparr>lg_closed = [], lg_active = \<lparr>sg_base = 0, sg_index = [], sg_next = 0,
       sg_size = 0, sg_since_index = 0\<rparr>, lg_durable = None, lg_dirty = 0, lg_last_flush = 0\<rparr>,
     ac_disk = [(log_path 0, \<lparr>f_data = [], f_synced = 0\<rparr>), (index_path 0, \<lparr>f_data = [], f_synced = 0\<rparr>)],
     ac_epochs = [], ac_watch = 0, ac_pending = [], ac_dirty_since = None\<rparr>"

lemma batch_config_ok:
  "validate (actor_log_config batch_config) = Inr ()" "fsync batch_config = Batch 1000000 5"
  "max_record_bytes batch_config = 2 ^ 24"
  by (simp_all add: batch_config_def default_log_config_def actor_log_config_def validate_def)

lemma fresh_actor_ok: "actor_ok crc batch_config fresh_actor" "ac_pending fresh_actor = []"
proof -
  let ?c = "actor_log_config batch_config"
  have "log_open crc ?c 0 [] = Inr (ac_log fresh_actor, ac_disk fresh_actor)"
    by (simp add: log_open_def batch_config_ok segment_create_def fs_create_new_def fs_exists_def
        index_create_def fs_create_def fresh_actor_def)
  then have "log_ok crc ?c (ac_log fresh_actor) (ac_disk fresh_actor) 0 [] []"
    using log_open_fresh [OF batch_config_ok(1), of "[]" crc 0] by simp
  then have "log_inv crc ?c (ac_log fresh_actor) (ac_disk fresh_actor)" by (rule log_ok_abs(4))
  then show "actor_ok crc batch_config fresh_actor"
    using epochs_paths [of 0]
    by (simp add: actor_ok_def is_dirty_def Let_def epochs_stored_def)
      (simp add: fresh_actor_def log_next_offset_def)
  show "ac_pending fresh_actor = []" by (simp add: fresh_actor_def)
qed


section \<open>Durable acknowledgements\<close>

lemma appended_durable:
  assumes g: "actor_good crc cfg a" and room: "room c a" and os: "fsync cfg \<noteq> OsDecides"
    and out: "(rp, Appended (Inr (base, count))) \<in> set (snd (actor_cmd crc cfg now ts c a))" "0 < count"
    and strong: "\<And>rs acks. c = Append rs acks (Some rp) \<Longrightarrow> acks \<noteq> AcksNone \<and> acks \<noteq> Written"
  shows "covers (lg_durable (ac_log (fst (actor_cmd crc cfg now ts c a)))) (base + count - 1)"
proof (cases c)
  case (Append records acks reply)
  have n: "log_next_offset (ac_log a) + length records < 2 ^ 64"
    using room Append by (simp add: cmd_size_def)
  obtain a1 queued own and rs :: "log_record list" where
    r: "actor_append crc cfg now ts records acks reply a = (fst (drain a1), own @ snd (drain a1))"
    and a1: "actor_good crc cfg a1" and len: "length rs \<le> length records"
    and own: "own_answer cfg acks reply (log_next_offset (ac_log a)) (length records) (length rs) a1 queued own"
    by (rule actor_append_good [OF g n, of now ts acks reply])
  have o: "(rp, Appended (Inr (base, count))) \<in> set own \<or>
      (rp, Appended (Inr (base, count))) \<in> set (snd (drain a1))"
    using out(1) r Append by (simp add: actor_cmd_def)
  moreover have "covers (lg_durable (ac_log a1)) (base + count - 1)"
    if "(rp, Appended (Inr (base, count))) \<in> set own"
    using that own strong Append os out(2) by (auto simp: own_answer_def split: option.splits if_splits)
  ultimately have "covers (lg_durable (ac_log a1)) (base + count - 1)"
    using drain_good(2) [OF a1] by blast
  then show ?thesis using r Append by (simp add: actor_cmd_def)
qed (use out in \<open>auto simp: actor_cmd_def split: prod.splits\<close>)

lemma flush_durable:
  assumes g: "actor_good crc cfg a"
    and out: "(rp, Appended (Inr (base, count))) \<in> set (snd (actor_flush now a))"
  shows "covers (lg_durable (ac_log (fst (actor_flush now a)))) (base + count - 1)"
proof -
  obtain a1 where "actor_flush now a = drain a1" "actor_good crc cfg a1"
    using actor_flush_good [OF g] .
  then show ?thesis using out drain_good(2) by simp
qed

lemma actor_flush_keeps: "actor_good crc cfg a \<Longrightarrow> actor_good crc cfg (fst (actor_flush now a))"
  using actor_flush_good [of crc cfg a now] drain_good(1) by metis

text \<open>What is durable is there after a crash.\<close>

lemma durable_survives:
  assumes ok: "actor_ok crc cfg a" and cov: "covers (lg_durable (ac_log a)) n" and cr: "crash_disk (ac_disk a) d"
  shows "\<exists>l d'. log_open crc (actor_log_config cfg) now d = Inr (l, d') \<and> n < log_next_offset l \<and>
    log_start_offset l = log_start_offset (ac_log a) \<and>
    (\<exists>k. log_records crc (actor_log_config cfg) l d' = take k (actor_records crc cfg a))"
proof -
  let ?c = "actor_log_config cfg"
  have inv: "log_inv crc ?c (ac_log a) (ac_disk a)" using ok by (simp add: actor_ok_def)
  obtain rss ra where lok: "log_ok crc ?c (ac_log a) (ac_disk a) (log_start_offset (ac_log a)) rss ra"
    and rs: "actor_records crc cfg a = concat rss @ ra"
    using log_inv_ok [OF inv] .
  obtain l d' k where o: "log_open crc ?c now d = Inr (l, d')" "k \<le> length ra"
    "log_ok crc ?c l d' (log_start_offset (ac_log a)) rss (take k ra)"
    "\<forall>j. lg_durable (ac_log a) = Some j \<longrightarrow> j < log_next_offset l"
    using log_open_crash [OF lok cr] by blast
  have "n < log_next_offset l" using o(4) cov by (auto simp: covers_def split: option.splits)
  moreover have "log_records crc ?c l d' = take (length (concat rss) + k) (actor_records crc cfg a)"
    using log_ok_abs(5) [OF o(3)] rs by simp
  ultimately show ?thesis using o(1) log_ok_abs(1) [OF o(3)] by blast
qed


section \<open>No acknowledgement is stranded\<close>

text \<open>The commands of a partition that leads, or stands alone: it is not written to as a follower.\<close>

definition leader_cmd :: "cmd \<Rightarrow> bool" where
  "leader_cmd c = (case c of AppendReplicated _ _ \<Rightarrow> False | TruncateTo _ _ \<Rightarrow> False | _ \<Rightarrow> True)"

inductive leader_step :: "(bytes \<Rightarrow> u32) \<Rightarrow> log_config \<Rightarrow> actor \<Rightarrow> actor \<Rightarrow> bool"
  for crc :: "bytes \<Rightarrow> u32" and cfg :: log_config where
  command: "room c a \<Longrightarrow> leader_cmd c \<Longrightarrow> leader_step crc cfg a (fst (actor_cmd crc cfg now ts c a))"
| timeout: "leader_step crc cfg a (fst (actor_timeout cfg now a))"

definition waiting_ok :: "(bytes \<Rightarrow> u32) \<Rightarrow> log_config \<Rightarrow> actor \<Rightarrow> bool" where
  "waiting_ok crc cfg a \<longleftrightarrow> actor_good crc cfg a \<and>
     (\<forall>p \<in> set (ac_pending a). pd_last_offset p < log_next_offset (ac_log a)) \<and>
     (ac_pending a \<noteq> [] \<longrightarrow> \<not> covers (lg_durable (ac_log a)) (pd_last_offset (hd (ac_pending a))))"

lemma drain_waiting:
  assumes "actor_good crc cfg a" and "\<forall>p \<in> set (ac_pending a). pd_last_offset p < log_next_offset (ac_log a)"
  shows "waiting_ok crc cfg (fst (drain a))"
proof -
  obtain don rest where "drain_pending (lg_durable (ac_log a)) (ac_pending a) = (don, rest)" by fastforce
  moreover from drain_pending_append [OF this] have "set rest \<subseteq> set (ac_pending a)"
    "rest \<noteq> [] \<longrightarrow> \<not> covers (lg_durable (ac_log a)) (pd_last_offset (hd rest))" by auto
  ultimately show ?thesis
    using assms drain_good(1) [OF assms(1)] by (auto simp: waiting_ok_def drain_def)
qed

lemma waiting_ok_append:
  assumes w: "waiting_ok crc cfg a" and n: "log_next_offset (ac_log a) + length records < 2 ^ 64"
  shows "waiting_ok crc cfg (fst (actor_append crc cfg now ts records acks reply a))"
proof -
  have g: "actor_good crc cfg a" using w by (simp add: waiting_ok_def)
  obtain a1 queued own and rs :: "log_record list" where
    r: "actor_append crc cfg now ts records acks reply a = (fst (drain a1), own @ snd (drain a1))"
    and a1: "actor_good crc cfg a1" "ac_pending a1 = ac_pending a @ queued"
    and len: "length rs \<le> length records"
    and nx: "log_next_offset (ac_log a1) = log_next_offset (ac_log a) + length rs"
    and own: "own_answer cfg acks reply (log_next_offset (ac_log a)) (length records) (length rs) a1 queued own"
    by (rule actor_append_good [OF g n, of now ts acks reply])
  have "\<forall>p \<in> set queued. pd_last_offset p < log_next_offset (ac_log a1)"
    using own len nx by (auto simp: own_answer_def split: option.splits if_splits)
  moreover have "\<forall>p \<in> set (ac_pending a). pd_last_offset p < log_next_offset (ac_log a1)"
    using w nx by (fastforce simp: waiting_ok_def)
  ultimately have "waiting_ok crc cfg (fst (drain a1))"
    using a1 by (intro drain_waiting) auto
  then show ?thesis by (simp add: r)
qed

lemma flush_answers_all:
  assumes w: "waiting_ok crc cfg a"
  shows "snd (actor_flush now a) =
      map (\<lambda>p. (pd_reply p, Appended (Inr (pd_base_offset p, pd_count p)))) (ac_pending a)"
    and "ac_pending (fst (actor_flush now a)) = []" and "waiting_ok crc cfg (fst (actor_flush now a))"
proof -
  have g: "actor_good crc cfg a" using w by (simp add: waiting_ok_def)
  obtain a1 where f: "actor_flush now a = drain a1" "actor_good crc cfg a1" "ac_pending a1 = ac_pending a"
    "lg_durable (ac_log a1) = checked_pred (log_next_offset (ac_log a))"
    using actor_flush_good [OF g] by metis
  have "\<forall>p \<in> set (ac_pending a1). covers (lg_durable (ac_log a1)) (pd_last_offset p)"
    using w f by (force simp: waiting_ok_def checked_pred_def)
  then have d: "drain_pending (lg_durable (ac_log a1)) (ac_pending a1) =
      (map (\<lambda>p. (pd_reply p, Appended (Inr (pd_base_offset p, pd_count p)))) (ac_pending a1), [])"
    by (rule drain_pending_all)
  then show "snd (actor_flush now a) =
      map (\<lambda>p. (pd_reply p, Appended (Inr (pd_base_offset p, pd_count p)))) (ac_pending a)"
    and e: "ac_pending (fst (actor_flush now a)) = []"
    using f by (simp_all add: drain_def)
  show "waiting_ok crc cfg (fst (actor_flush now a))"
    using e actor_flush_keeps [OF g] by (simp add: waiting_ok_def)
qed

lemma leader_step_waiting: "leader_step crc cfg a a' \<Longrightarrow> waiting_ok crc cfg a \<Longrightarrow> waiting_ok crc cfg a'"
proof (induction rule: leader_step.induct)
  case (command c a now ts)
  have ok: "actor_ok crc cfg a" using command(3) by (simp add: waiting_ok_def actor_good_def)
  show ?case
  proof (cases c)
    case (Append records acks reply)
    then show ?thesis
      using waiting_ok_append [OF command(3)] command(1) by (simp add: actor_cmd_def cmd_size_def)
  next
    case (RecordEpoch e)
    have "actor_good crc cfg (actor_record_epoch e a)"
      using actor_record_epoch_ok [OF ok, of e] command(3) by (simp add: waiting_ok_def actor_good_def)
    then show ?thesis
      using RecordEpoch actor_record_epoch_ok [OF ok, of e] command(3)
      by (simp add: actor_cmd_def waiting_ok_def)
  qed (use command in \<open>simp_all add: actor_cmd_def leader_cmd_def\<close>)
next
  case (timeout a now)
  then show ?case
    using actor_timeout_cases [of cfg now a] flush_answers_all(3) [of crc cfg a now] by (metis fst_conv)
qed

interpretation leading: preserved "leader_step crc cfg" "waiting_ok crc cfg" for crc cfg
  by unfold_locales (rule leader_step_waiting)

lemma waiting_dirty:
  assumes "waiting_ok crc cfg a" and "ac_pending a \<noteq> []"
  shows "\<exists>since. ac_dirty_since a = Some since"
proof -
  let ?p = "hd (ac_pending a)"
  have "pd_last_offset ?p < log_next_offset (ac_log a)" "\<not> covers (lg_durable (ac_log a)) (pd_last_offset ?p)"
    using assms by (auto simp: waiting_ok_def)
  then have "is_dirty (ac_log a)" by (auto simp: is_dirty_def Let_def)
  then show ?thesis using assms(1) by (auto simp: waiting_ok_def actor_good_def actor_ok_def)
qed

text \<open>The fresh thread after one durable produce, which waits for the batch to be flushed.\<close>

definition small_record :: log_record where
  "small_record = \<lparr>lr_offset = 0, lr_timestamp_ms = 9, lr_key = None, lr_value = [1, 2]\<rparr>"

definition waiting_actor :: actor where
  "waiting_actor = \<lparr>ac_log = \<lparr>lg_closed = [], lg_active = \<lparr>sg_base = 0, sg_index = [], sg_next = 1,
       sg_size = 34, sg_since_index = 34\<rparr>, lg_durable = None, lg_dirty = 34, lg_last_flush = 0\<rparr>,
     ac_disk = [(log_path 0, \<lparr>f_data = encode (\<lambda>_. 7) small_record, f_synced = 0\<rparr>),
       (index_path 0, \<lparr>f_data = [], f_synced = 0\<rparr>)],
     ac_epochs = [], ac_watch = 1,
     ac_pending = [\<lparr>pd_last_offset = 0, pd_base_offset = 0, pd_count = 1, pd_reply = 4\<rparr>],
     ac_dirty_since = Some 3\<rparr>"

lemma small_record_len [simp]: "encoded_len small_record = 34"
  by (simp add: encoded_len_def small_record_def key_len_def)

lemma waiting_append:
  "append_one (\<lambda>_. 7) batch_config 3 (\<lambda>_. 9) (None, [1, 2]) (ac_log fresh_actor, ac_disk fresh_actor) =
     Inr ((0, None), ac_log waiting_actor, ac_disk waiting_actor)"
proof -
  have "\<lparr>lr_offset = 0, lr_timestamp_ms = 9, lr_key = None, lr_value = [1, 2]\<rparr> = small_record"
    by (simp add: small_record_def)
  moreover have "fsync (actor_log_config batch_config) = Batch 1000000 U64_MAX"
    "max_segment_bytes (actor_log_config batch_config) = max_segment_bytes default_log_config"
    "index_interval_bytes (actor_log_config batch_config) = index_interval_bytes default_log_config"
    by (simp_all add: batch_config_def actor_log_config_def)
  ultimately show ?thesis
    by (simp add: append_one_def log_append_def append_record_def seg_append_def fs_append_def Let_def
        fresh_actor_def waiting_actor_def batch_config_ok)
      (simp add: small_record_def default_log_config_def)
qed

lemma waiting_actor_cmd:
  "actor_cmd (\<lambda>_. 7) batch_config 3 (\<lambda>_. 9) (Append [(None, [1, 2])] Durable (Some 4)) fresh_actor =
     (waiting_actor, [])"
  by (simp add: actor_cmd_def actor_append_def waiting_append)
    (simp add: waiting_actor_def fresh_actor_def note_dirty_def drain_def is_dirty_def log_next_offset_def
      batch_config_ok)

lemma waiting_reached:
  "actor_step (\<lambda>_. 7) batch_config fresh_actor waiting_actor"
  "leader_step (\<lambda>_. 7) batch_config fresh_actor waiting_actor"
  using actor_step.command [where c = "Append [(None, [1, 2])] Durable (Some 4)" and a = fresh_actor
      and crc = "\<lambda>_. 7" and cfg = batch_config and now = 3 and ts = "\<lambda>_. 9"]
    leader_step.command [where c = "Append [(None, [1, 2])] Durable (Some 4)" and a = fresh_actor
      and crc = "\<lambda>_. 7" and cfg = batch_config and now = 3 and ts = "\<lambda>_. 9"]
  unfolding waiting_actor_cmd fst_conv
  by (simp_all add: cmd_size_def leader_cmd_def fresh_actor_def log_next_offset_def)

text \<open>
  No acknowledgement is stranded. In any run of a thread that leads its partition under a
  batch policy, once the wait for a next command times out, the flush that follows answers every
  waiting produce, in order, with its base offset and count: the timer needs no further append.
\<close>

theorem acks_are_not_stranded:
  assumes "(leader_step crc cfg)\<^sup>*\<^sup>* a0 a" and "actor_ok crc cfg a0" and "ac_pending a0 = []"
    and "fsync cfg = Batch max_bytes max_ms" and "\<And>since. ac_dirty_since a = Some since \<Longrightarrow> since \<le> now"
    and "now + recv_timeout cfg now a \<le> later"
  shows "snd (actor_timeout cfg later a) =
      map (\<lambda>p. (pd_reply p, Appended (Inr (pd_base_offset p, pd_count p)))) (ac_pending a) \<and>
    ac_pending (fst (actor_timeout cfg later a)) = []"
proof -
  have "waiting_ok crc cfg a0" using assms(2,3) by (simp add: waiting_ok_def actor_good_def)
  then have w: "waiting_ok crc cfg a" by (rule leading.run [OF assms(1)])
  show ?thesis
  proof (cases "ac_pending a = []")
    case True
    then show ?thesis
      using flush_answers_all(1,2) [OF w] actor_timeout_cases [of cfg later a] by auto
  next
    case False
    then obtain since where s: "ac_dirty_since a = Some since" using waiting_dirty [OF w] by blast
    then have "max_ms \<le> later - since"
      using assms(4-6) by (auto simp: recv_timeout_def batch_max_ms_def)
    then have "actor_timeout cfg later a = actor_flush later a"
      using s assms(4) by (simp add: actor_timeout_def batch_max_ms_def)
    then show ?thesis using flush_answers_all(1,2) [OF w] by simp
  qed
qed

theorem acks_are_not_stranded_witness:
  "snd (actor_timeout batch_config 8 waiting_actor) = [(4, Appended (Inr (0, 1)))]"
proof -
  have "(leader_step (\<lambda>_. 7) batch_config)\<^sup>*\<^sup>* fresh_actor waiting_actor" using waiting_reached(2) by blast
  from acks_are_not_stranded [OF this fresh_actor_ok batch_config_ok(2), of 3 8]
  have "snd (actor_timeout batch_config 8 waiting_actor) =
      map (\<lambda>p. (pd_reply p, Appended (Inr (pd_base_offset p, pd_count p)))) (ac_pending waiting_actor)"
    by (simp add: waiting_actor_def recv_timeout_def batch_max_ms_def batch_config_ok)
  then show ?thesis by (simp add: waiting_actor_def)
qed

definition flushed_actor :: actor where
  "flushed_actor = waiting_actor
     \<lparr>ac_log := (ac_log waiting_actor)\<lparr>lg_durable := Some 0, lg_dirty := 0, lg_last_flush := 4\<rparr>,
      ac_disk := [(log_path 0, \<lparr>f_data = encode (\<lambda>_. 7) small_record, f_synced = 34\<rparr>),
        (index_path 0, \<lparr>f_data = [], f_synced = 0\<rparr>)],
      ac_pending := [], ac_dirty_since := None\<rparr>"

lemma waiting_log_flush:
  "log_flush 4 (ac_log waiting_actor, ac_disk waiting_actor) =
     Inr (Some 0, ac_log flushed_actor, ac_disk flushed_actor)"
  by (simp add: log_flush_def seg_flush_def fs_sync_def Let_def checked_pred_def)
    (simp add: flushed_actor_def waiting_actor_def)

lemma waiting_flush: "actor_disconnected 4 waiting_actor = (flushed_actor, [(4, Appended (Inr (0, 1)))])"
  by (simp add: actor_disconnected_def actor_flush_def waiting_log_flush drain_def)
    (simp add: flushed_actor_def waiting_actor_def)


section \<open>A truncation under a waiting acknowledgement\<close>

lemma replicated_complete:
  assumes ok: "actor_ok crc cfg a" and nx: "log_next_offset (ac_log a) = n" and n: "n + length rs < 2 ^ 64"
    and rs: "numbered n rs" "\<forall>r \<in> set rs. encoded_len r \<le> max_record_bytes cfg"
  shows "case actor_append_replicated crc cfg now rs a of (a', result) \<Rightarrow>
    result = Inr (n + length rs) \<and> actor_ok crc cfg a' \<and> ac_pending a' = ac_pending a \<and>
    ac_epochs a' = ac_epochs a \<and> log_start_offset (ac_log a') = log_start_offset (ac_log a) \<and>
    actor_records crc cfg a' = actor_records crc cfg a @ rs \<and> log_next_offset (ac_log a') = n + length rs"
proof -
  obtain a' result where r: "actor_append_replicated crc cfg now rs a = (a', result)" by fastforce
  have n': "log_next_offset (ac_log a) + length rs < 2 ^ 64" using nx n by simp
  note ap = actor_append_replicated_ok [OF ok n' r]
  have fits: "unat (lr_offset (rs ! k)) = n + k \<and> encoded_len (rs ! k) \<le> max_record_bytes cfg"
    if "k < length rs" for k
    using that rs numbered_nth [OF rs(1)] by simp
  have "\<exists>e. result = Inr e" using ap nx fits by (cases result) auto
  then show ?thesis using ap nx r by auto
qed

text \<open>
  The queue of waiting acknowledgements survives a truncation. If a follower's
  reconciliation truncates the log below a produce that still waits for its flush, and the
  records of the new leader then fill its place, the next flush acknowledges the produce with
  its old offset, although its record is gone and another one is stored there.
\<close>

theorem truncation_keeps_waiting_acks:
  assumes "actor_ok crc cfg a" and "ac_pending a = [p]"
    and "log_start_offset (ac_log a) \<le> n" and "n \<le> pd_base_offset p" and "n < log_next_offset (ac_log a)"
    and "numbered n rs" and "\<forall>r \<in> set rs. encoded_len r \<le> max_record_bytes cfg"
    and "pd_last_offset p < n + length rs" and "n + length rs < 2 ^ 64"
  shows "let a1 = fst (actor_truncate_to crc cfg n a);
             a2 = fst (actor_append_replicated crc cfg now rs a1);
             (a3, out) = actor_flush later a2
    in (pd_reply p, Appended (Inr (pd_base_offset p, pd_count p))) \<in> set out \<and>
       actor_records crc cfg a3 = take (n - log_start_offset (ac_log a)) (actor_records crc cfg a) @ rs"
proof -
  obtain a1 result where t: "actor_truncate_to crc cfg n a = (a1, result)" by fastforce
  note tr = actor_truncate_to_ok [OF assms(1) t]
  have a1: "actor_ok crc cfg a1" "ac_pending a1 = [p]" "log_next_offset (ac_log a1) = n"
    "actor_records crc cfg a1 = take (n - log_start_offset (ac_log a)) (actor_records crc cfg a)"
    using tr assms(2,3,5) by (auto split: if_splits)
  obtain a2 where a2: "fst (actor_append_replicated crc cfg now rs a1) = a2" "actor_ok crc cfg a2"
    "ac_pending a2 = [p]" "actor_records crc cfg a2 = actor_records crc cfg a1 @ rs"
    "log_next_offset (ac_log a2) = n + length rs"
    using replicated_complete [OF a1(1,3) assms(9,6,7), of now] a1(2) by (auto split: prod.splits)
  obtain a3 where a3: "actor_flush later a2 = drain a3" "ac_pending a3 = [p]"
    "lg_durable (ac_log a3) = checked_pred (n + length rs)"
    "actor_records crc cfg a3 = actor_records crc cfg a2"
    using actor_flush_ok [OF a2(2), of later] a2(3,5) by auto
  have "covers (lg_durable (ac_log a3)) (pd_last_offset p)"
    using a3(3) assms(8) by (cases "n + length rs") (auto simp: checked_pred_def)
  then show ?thesis using t a2(1,4) a3 a1(4) by (simp add: Let_def drain_def)
qed

text \<open>What the new leader has at offset 0.\<close>

definition leader_record :: log_record where
  "leader_record = \<lparr>lr_offset = 0, lr_timestamp_ms = 2, lr_key = None, lr_value = [8]\<rparr>"

theorem truncation_keeps_waiting_acks_witness:
  "\<exists>out. snd (actor_flush 9 (fst (actor_append_replicated (\<lambda>_. 7) batch_config 5
       [leader_record] (fst (actor_truncate_to (\<lambda>_. 7) batch_config 0 waiting_actor))))) = out \<and>
     (4, Appended (Inr (0, 1))) \<in> set out"
proof -
  have ok: "actor_ok (\<lambda>_. 7) batch_config waiting_actor"
    using writer.keeps [OF waiting_reached(1)] fresh_actor_ok by (simp add: actor_good_def)
  have len: "encoded_len leader_record = 33"
    by (simp add: encoded_len_def leader_record_def key_len_def)
  have off: "lr_offset leader_record = 0" by (simp add: leader_record_def)
  have p: "ac_pending waiting_actor = [\<lparr>pd_last_offset = 0, pd_base_offset = 0, pd_count = 1, pd_reply = 4\<rparr>]"
    by (simp add: waiting_actor_def)
  have st: "log_start_offset (ac_log waiting_actor) = 0" "log_next_offset (ac_log waiting_actor) = 1"
    by (simp_all add: waiting_actor_def log_start_offset_def log_next_offset_def)
  show ?thesis
    using truncation_keeps_waiting_acks [OF ok p, of 0 "[leader_record]" 5 9]
    by (auto simp: st len off batch_config_ok Let_def case_prod_beta)
qed

section \<open>The epoch history\<close>

text \<open>
  A new epoch is recorded with the log's end as its start, but only if the history does not
  already reach past that end. After a power failure that took unsynced records and left the
  checkpoint, which is synced at once, it does: then the leader's new epoch is silently not
  recorded, and where the older epoch ended is answered as the end of the log.
\<close>

theorem record_epoch_needs_room:
  assumes "actor_ok crc cfg a" and "current_epoch (ac_epochs a) < unat epoch"
  shows "case ac_epochs a of
      [] \<Rightarrow> ac_epochs (actor_record_epoch epoch a) = [(unat epoch, log_next_offset (ac_log a))]
    | _ \<Rightarrow>
        if snd (last (ac_epochs a)) \<le> log_next_offset (ac_log a)
        then ac_epochs (actor_record_epoch epoch a) = ac_epochs a @ [(unat epoch, log_next_offset (ac_log a))]
        else actor_record_epoch epoch a = a"
proof (cases "ac_epochs a")
  case Nil
  then show ?thesis using actor_record_epoch_ok [OF assms(1), of epoch] assms(2) by simp
next
  case (Cons e es)
  show ?thesis
  proof (cases "snd (last (ac_epochs a)) \<le> log_next_offset (ac_log a)")
    case True
    then show ?thesis
      using actor_record_epoch_ok [OF assms(1), of epoch] assms(2) Cons by simp
  next
    case False
    have ne: "ac_epochs a \<noteq> []" using Cons by simp
    have "(unat epoch, log_next_offset (ac_log a)) \<noteq> last (ac_epochs a)"
      using False by (metis order_refl snd_conv)
    then have "epochs_append (unat epoch) (log_next_offset (ac_log a)) (ac_epochs a, ac_disk a) = Inl (Io InvalidInput)"
      using epochs_append_refused [OF ne] False by simp
    then show ?thesis using False Cons by (simp add: actor_record_epoch_def)
  qed
qed

theorem record_epoch_needs_room_witness:
  "ac_epochs (actor_record_epoch 3 fresh_actor) = [(3, 0)]"
  using record_epoch_needs_room [OF fresh_actor_ok(1), of 3]
  by (simp add: fresh_actor_def current_epoch_def epochs_last_def log_next_offset_def)

end
