(* ===== verification/Offsets.thy ===== *)
theory Offsets
  imports PartitionActor
begin

text \<open>
  The consumer offsets of \<^verbatim>\<open>src/src/broker/offsets.rs\<close>: a commit is a durable append to an
  internal partition, and the latest record of a key wins. The partition is the writer thread of
  theory \<open>PartitionActor\<close>; its replies to a commit come later, so a commit is the append it
  sends and what it does with the reply.
\<close>

section \<open>Entries\<close>

type_synonym offset_key = "string \<times> string \<times> u32"

definition OFFSETS_TOPIC :: string where "OFFSETS_TOPIC = ''__offsets''"

definition encode_key :: "string \<Rightarrow> string \<Rightarrow> u32 \<Rightarrow> bytes" where
  "encode_key grp topic part = put_str grp @ put_str topic @ put_u32 part"

definition decode_entry :: "bytes \<Rightarrow> bytes \<Rightarrow> (offset_key \<times> u64) option" where
  "decode_entry key val =
     (case pbind r_string (\<lambda>grp. pbind r_string (\<lambda>topic. pbind r_u32 (\<lambda>part.
             pbind expect_end (\<lambda>_. ret (grp, topic, part))))) key of
        Inl _ \<Rightarrow> None
      | Inr (k, _) \<Rightarrow> if length val = 8 then Some (k, of_le val) else None)"

section \<open>The store\<close>

record offsets_store =
  os_partition :: actor
  os_cache :: "(offset_key, u64) hashmap"

text \<open>The body of the loop over the records of one read.\<close>

definition replay_record :: "log_record \<Rightarrow> nat \<times> (offset_key, u64) hashmap \<Rightarrow> nat \<times> (offset_key, u64) hashmap" where
  "replay_record rec pc =
     (unat (lr_offset rec) + 1,
      case lr_key rec of
        None \<Rightarrow> snd pc
      | Some key \<Rightarrow>
          (case decode_entry key (lr_value rec) of
             None \<Rightarrow> snd pc | Some (k, v) \<Rightarrow> hm_insert k v (snd pc)))"

partial_function (option) replay ::
    "(bytes \<Rightarrow> u32) \<Rightarrow> log_config \<Rightarrow> actor \<Rightarrow> nat \<Rightarrow> (offset_key, u64) hashmap \<Rightarrow>
     (error_code + (offset_key, u64) hashmap) option" where
  "replay crc cfg a pos cache =
     (case actor_read crc cfg pos (4 * 1024 * 1024) a of
        Inl e \<Rightarrow> Some (Inl e)
      | Inr ok \<Rightarrow>
          if ro_records ok = [] then Some (Inr cache)
          else replay crc cfg a (fst (fold replay_record (ro_records ok) (pos, cache)))
                 (snd (fold replay_record (ro_records ok) (pos, cache))))"

definition offsets_open ::
    "(bytes \<Rightarrow> u32) \<Rightarrow> log_config \<Rightarrow> actor \<Rightarrow> (error_code + offsets_store) option" where
  "offsets_open crc cfg a =
     map_option (\<lambda>r. bind_r r (\<lambda>cache. Inr \<lparr>os_partition = a, os_cache = cache\<rparr>))
       (replay crc cfg a 0 [])"

definition commit_cmd :: "string \<Rightarrow> string \<Rightarrow> u32 \<Rightarrow> u64 \<Rightarrow> reply \<Rightarrow> cmd" where
  "commit_cmd grp topic part offset reply =
     Append [(Some (encode_key grp topic part), put_u64 offset)] Durable (Some reply)"

definition commit_reply ::
    "string \<Rightarrow> string \<Rightarrow> u32 \<Rightarrow> u64 \<Rightarrow> append_result \<Rightarrow> offsets_store \<Rightarrow> offsets_store \<times> error_code" where
  "commit_reply grp topic part offset result s =
     (case result of
        Inr _ \<Rightarrow> (s\<lparr>os_cache := hm_insert (grp, topic, part) offset (os_cache s)\<rparr>, NoError)
      | Inl code \<Rightarrow> (s, code))"

definition offsets_fetch :: "string \<Rightarrow> string \<Rightarrow> u32 \<Rightarrow> offsets_store \<Rightarrow> u64 option" where
  "offsets_fetch grp topic part s = hm_get (os_cache s) (grp, topic, part)"

end
