(* ===== verification/OffsetsProperties.thy ===== *)
theory OffsetsProperties
  imports Offsets PartitionProperties
begin

text \<open>The property of the consumer offsets: what is committed is what a restart finds.\<close>

section \<open>Records are numbered\<close>

lemma closed_numbered: "closed_ok crc cfg d b cs rss \<Longrightarrow> numbered b (concat rss)"
  by (induction crc cfg d b cs rss rule: closed_ok.induct) (auto simp: numbered_append seg_ok_def)

lemma log_numbered:
  assumes "log_inv crc cfg l d"
  shows "numbered (log_start_offset l) (log_records crc cfg l d)"
proof -
  obtain rss ra where ok: "log_ok crc cfg l d (log_start_offset l) rss ra"
    and rs: "log_records crc cfg l d = concat rss @ ra"
    using log_inv_ok [OF assms] .
  show ?thesis
    using closed_numbered [OF log_okD(2) [OF ok]] log_okD(3,4) [OF ok]
    by (simp add: rs numbered_append seg_ok_def)
qed

section \<open>Replay\<close>

lemma fold_replay_pos:
  "numbered pos rs \<Longrightarrow> fst (fold replay_record rs (pos, cache)) = pos + length rs"
  by (induction rs arbitrary: pos cache) (auto simp: replay_record_def)

lemma fold_replay_cache:
  "snd (fold replay_record rs (p, cache)) = snd (fold replay_record rs (q, cache))"
  by (induction rs arbitrary: p q cache) (auto simp: replay_record_def split: option.split)

definition replayed :: "log_record list \<Rightarrow> (offset_key, u64) hashmap" where
  "replayed rs = snd (fold replay_record rs (0, []))"

lemma replayed_snoc:
  "replayed (rs @ [r]) =
     (case lr_key r of
        None \<Rightarrow> replayed rs
      | Some key \<Rightarrow>
          (case decode_entry key (lr_value r) of
             None \<Rightarrow> replayed rs | Some (k, v) \<Rightarrow> hm_insert k v (replayed rs)))"
  by (auto simp: replayed_def [abs_def] replay_record_def split: option.split)

lemma actor_read_ok:
  assumes ok: "actor_ok crc cfg a" and o: "log_start_offset (ac_log a) \<le> pos" "pos \<le> log_next_offset (ac_log a)"
  shows "\<exists>k rs. actor_read crc cfg pos max_bytes a =
      Inr \<lparr>ro_log_start = log_start_offset (ac_log a), ro_next_offset = log_next_offset (ac_log a), ro_records = rs\<rparr> \<and>
    rs = take k (drop (pos - log_start_offset (ac_log a)) (actor_records crc cfg a)) \<and>
    (pos < log_next_offset (ac_log a) \<longrightarrow> 0 < k)"
proof -
  have inv: "log_inv crc (actor_log_config cfg) (ac_log a) (ac_disk a)" using ok by (simp add: actor_ok_def)
  obtain rss ra where lok: "log_ok crc (actor_log_config cfg) (ac_log a) (ac_disk a) (log_start_offset (ac_log a)) rss ra"
    and rs: "actor_records crc cfg a = concat rss @ ra"
    using log_inv_ok [OF inv] .
  show ?thesis
  proof (cases "pos < log_next_offset (ac_log a)")
    case True
    then show ?thesis using log_read_ok [OF lok o(1), of max_bytes] rs by (auto simp: actor_read_def)
  next
    case False
    then have "pos = log_next_offset (ac_log a)" using o(2) by simp
    then show ?thesis using log_read_end [OF lok] by (auto simp: actor_read_def intro!: exI [of _ 0])
  qed
qed

lemma replay_ok:
  assumes ok: "actor_ok crc cfg a" and st: "log_start_offset (ac_log a) = 0"
    and pos: "pos \<le> log_next_offset (ac_log a)"
  shows "replay crc cfg a pos cache =
    Some (Inr (snd (fold replay_record (drop pos (actor_records crc cfg a)) (pos, cache))))"
  using pos
proof (induction "log_next_offset (ac_log a) - pos" arbitrary: pos cache rule: less_induct)
  case less
  let ?rs = "actor_records crc cfg a" and ?n = "log_next_offset (ac_log a)"
  have inv: "log_inv crc (actor_log_config cfg) (ac_log a) (ac_disk a)" using ok by (simp add: actor_ok_def)
  have n: "?n = length ?rs" using log_inv_end(1) [OF inv] st by simp
  obtain k rs where rd: "actor_read crc cfg pos (4 * 1024 * 1024) a =
      Inr \<lparr>ro_log_start = log_start_offset (ac_log a), ro_next_offset = ?n, ro_records = rs\<rparr>"
    and rs: "rs = take k (drop pos ?rs)" and k: "pos < ?n \<longrightarrow> 0 < k"
    using actor_read_ok [OF ok _ less.prems, of "4 * 1024 * 1024"] st by auto
  show ?case
  proof (cases "rs = []")
    case True
    then have "drop pos ?rs = []" using rs k n less.prems by auto
    then show ?thesis using True rd by (subst replay.simps) simp
  next
    case False
    have "numbered pos (drop pos ?rs)"
      using numbered_drop [OF log_numbered [OF inv], of pos] st n less.prems by simp
    then have num: "numbered pos rs" unfolding rs by (rule numbered_take)
    let ?c = "snd (fold replay_record rs (pos, cache))"
    have p: "fst (fold replay_record rs (pos, cache)) = pos + length rs" by (rule fold_replay_pos [OF num])
    have len: "length rs \<le> ?n - pos" "0 < length rs" using False n by (simp_all add: rs)
    then have "replay crc cfg a (pos + length rs) ?c =
        Some (Inr (snd (fold replay_record (drop (pos + length rs) ?rs) (pos + length rs, ?c))))"
      using less.prems len(2) by (intro less.hyps) linarith+
    moreover have "drop pos ?rs = rs @ drop (pos + length rs) ?rs"
      using append_take_drop_id [of k "drop pos ?rs"] len(1) n
      by (simp add: rs min_def) (metis add.commute append_take_drop_id drop_drop drop_all take_all nat_le_linear)
    then have "snd (fold replay_record (drop pos ?rs) (pos, cache)) =
        snd (fold replay_record (drop (pos + length rs) ?rs) (pos + length rs, ?c))"
      using p by (simp) (metis prod.collapse)
    ultimately show ?thesis using False rd p by (subst replay.simps) simp
  qed
qed

lemma replay_all:
  assumes "actor_ok crc cfg a" and "log_start_offset (ac_log a) = 0"
  shows "replay crc cfg a 0 [] = Some (Inr (replayed (actor_records crc cfg a)))"
  using replay_ok [OF assms, of 0 "[]"] by (simp add: replayed_def)

section \<open>Entries\<close>

lemma decode_encode_key:
  assumes "wf_str grp" and "wf_str topic"
  shows "decode_entry (encode_key grp topic part) (put_u64 offset) = Some ((grp, topic, part), offset)"
proof -
  have s: "r_string (put_str grp @ rest) = Inr (grp, rest)" "r_string (put_str topic @ rest) = Inr (topic, rest)"
    "r_u32 (put_u32 part @ rest) = Inr (part, rest)" for rest
    using strc.roundtrip [OF assms(1)] strc.roundtrip [OF assms(2)] u32c.roundtrip by simp_all
  have "r_u32 (put_u32 part) = Inr (part, [])" using s(3) [of "[]"] by simp
  then have "pbind r_string (\<lambda>grp. pbind r_string (\<lambda>topic. pbind r_u32 (\<lambda>part.
             pbind expect_end (\<lambda>_. ret (grp, topic, part))))) (encode_key grp topic part) =
      Inr ((grp, topic, part), [])"
    by (simp add: encode_key_def pbind_def s expect_end_def ret_def)
  then show ?thesis by (simp add: decode_entry_def put_u64_def of_le_le_digits)
qed

section \<open>Commits survive a restart\<close>

text \<open>
  C33. Replaying the offsets partition at startup ends, and finds for every group, topic and
  partition the offset of its latest commit. A commit that the partition accepts changes that
  entry and no other: after a restart the committed offset is the one that is fetched.
\<close>

theorem commits_are_replayed:
  assumes "actor_ok crc cfg a" and "log_start_offset (ac_log a) = 0" and "log_next_offset (ac_log a) + 1 < 2 ^ 64"
    and "wf_str grp" and "wf_str topic"
    and "actor_cmd crc cfg now ts (commit_cmd grp topic part offset reply) a = (a', out)"
    and "ac_watch a' = log_next_offset (ac_log a) + 1"
  shows "\<exists>s s'. offsets_open crc cfg a = Some (Inr s) \<and> offsets_open crc cfg a' = Some (Inr s') \<and>
    offsets_fetch grp topic part s' = Some offset \<and>
    (\<forall>g t p. (g, t, p) \<noteq> (grp, topic, part) \<longrightarrow> offsets_fetch g t p s' = offsets_fetch g t p s)"
proof -
  let ?kv = "(Some (encode_key grp topic part), put_u64 offset)"
  have n: "log_next_offset (ac_log a) + length [?kv] < 2 ^ 64" using assms(3) by simp
  obtain a1 queued own and rs :: "log_record list" where
    r: "actor_append crc cfg now ts [?kv] Durable (Some reply) a = (fst (drain a1), own @ snd (drain a1))"
    and a1: "actor_ok crc cfg a1" "log_start_offset (ac_log a1) = log_start_offset (ac_log a)"
    and rs: "length rs \<le> length [?kv]" "list_all2 holds (take (length rs) [?kv]) rs"
      "actor_records crc cfg a1 = actor_records crc cfg a @ rs"
      "log_next_offset (ac_log a1) = log_next_offset (ac_log a) + length rs"
    using actor_append_ok [OF assms(1) n, of now ts Durable "Some reply"] by blast
  have a': "a' = fst (drain a1)" using assms(6) r by (simp add: actor_cmd_def commit_cmd_def)
  have ok': "actor_ok crc cfg a'" "log_start_offset (ac_log a') = 0"
    "actor_records crc cfg a' = actor_records crc cfg a @ rs"
    using a1 assms(2) rs(3) by (simp_all add: a')
  have "ac_watch a1 = log_next_offset (ac_log a1)" using a1(1) by (simp add: actor_ok_def)
  then have "length rs = 1" using assms(7) rs(4) by (simp add: a')
  then obtain x where "rs = [x]" "holds ?kv x" using rs(2) by (cases rs) auto
  then have "replayed (actor_records crc cfg a') =
      hm_insert (grp, topic, part) offset (replayed (actor_records crc cfg a))"
    using decode_encode_key [OF assms(4,5), of part offset] ok'(3)
    by (simp add: replayed_snoc holds_def)
  then show ?thesis
    using replay_all [OF assms(1,2)] replay_all [OF ok'(1,2)]
    by (simp add: offsets_open_def offsets_fetch_def)
qed

theorem commits_are_replayed_witness:
  "\<exists>s. offsets_open (\<lambda>_. 7) batch_config
       (fst (actor_cmd (\<lambda>_. 7) batch_config 1 (\<lambda>_. 2) (commit_cmd ''g'' ''t'' 0 42 6) fresh_actor)) = Some (Inr s) \<and>
     offsets_fetch ''g'' ''t'' 0 s = Some 42"
proof -
  have st: "log_start_offset (ac_log fresh_actor) = 0" "log_next_offset (ac_log fresh_actor) = 0"
    by (simp_all add: fresh_actor_def log_start_offset_def log_next_offset_def)
  have wf: "wf_str ''g''" "wf_str ''t''" by (rule wf_str_ascii; simp)+
  obtain a' out where r: "actor_cmd (\<lambda>_. 7) batch_config 1 (\<lambda>_. 2) (commit_cmd ''g'' ''t'' 0 42 6) fresh_actor = (a', out)"
    by fastforce
  let ?kv = "(Some (encode_key ''g'' ''t'' 0), put_u64 42)"
  have fit: "producible batch_config ?kv"
    by (simp add: producible_def encoded_len_def key_len_def encode_key_def batch_config_ok)
  have n: "log_next_offset (ac_log fresh_actor) + length [?kv] < 2 ^ 64" by (simp add: st)
  obtain a1 own where "actor_append (\<lambda>_. 7) batch_config 1 (\<lambda>_. 2) [?kv] Durable (Some 6) fresh_actor =
      (fst (drain a1), own)" "actor_ok (\<lambda>_. 7) batch_config a1" "log_next_offset (ac_log a1) = 1"
    using actor_append_ok [OF fresh_actor_ok(1) n, where now = 1 and ts = "\<lambda>_. 2" and acks = Durable and reply = "Some 6"
        and crc = "\<lambda>_. 7"] fit st(2)
    by (auto simp: less_Suc_eq_le le_Suc_eq)
  then have "ac_watch a' = 1" using r drain_simps(4) [of a1] by (auto simp: actor_cmd_def commit_cmd_def actor_ok_def)
  then show ?thesis
    using commits_are_replayed [OF fresh_actor_ok(1) st(1) _ wf r] r st(2) by auto
qed

end
