(* ===== verification/Replica.thy ===== *)
theory Replica
  imports Proto Prelude
begin

text \<open>
  One replicated partition at a broker: \<^verbatim>\<open>src/src/broker/cluster.rs\<close>, and the parts of
  \<^verbatim>\<open>src/src/broker/mod.rs\<close> that change a replica: the checks of a produce, a follower's fetch,
  role changes, and the leader's proposals of in-sync sets. The partition's log is seen through
  its end, the value of the watch \<open>next_offset\<close>; instants are natural numbers of milliseconds.
\<close>

section \<open>State\<close>

text \<open>An acks=all produce that waits: its last offset, base offset, count and reply channel.\<close>

type_synonym parked = "nat \<times> nat \<times> nat \<times> nat"

record repl_state =
  rs_epoch :: u64
  rs_is_leader :: bool
  rs_isr :: "u32 list"
  rs_replicas :: "u32 list"
  rs_match_offsets :: "(u32, nat \<times> nat) hashmap"
  rs_pending_all :: "parked list"
  rs_fetcher_generation :: nat
  rs_fetcher_alive :: bool
  rs_leader_since :: nat

record replica =
  rp_state :: repl_state
  rp_hwm :: nat

definition replica_new :: "nat \<Rightarrow> replica" where
  "replica_new now =
     \<lparr>rp_state = \<lparr>rs_epoch = 0, rs_is_leader = False, rs_isr = [], rs_replicas = [],
        rs_match_offsets = [], rs_pending_all = [], rs_fetcher_generation = 0,
        rs_fetcher_alive = False, rs_leader_since = now\<rparr>,
      rp_hwm = 0\<rparr>"

text \<open>An answer to an acks=all produce: the channel and the result.\<close>

type_synonym all_answer = "nat \<times> (error_code + nat \<times> nat)"

section \<open>The high watermark\<close>

definition drain_pending_all :: "nat \<Rightarrow> repl_state \<Rightarrow> repl_state \<times> (nat \<times> nat \<times> nat) list" where
  "drain_pending_all hwm st =
     (st\<lparr>rs_pending_all := filter (\<lambda>(lst, _). \<not> lst < hwm) (rs_pending_all st)\<rparr>,
      map snd (filter (\<lambda>(lst, _). lst < hwm) (rs_pending_all st)))"

definition matched :: "repl_state \<Rightarrow> u32 \<Rightarrow> nat" where
  "matched st follower = (case hm_get (rs_match_offsets st) follower of None \<Rightarrow> 0 | Some (offset, _) \<Rightarrow> offset)"

definition isr_min :: "u32 \<Rightarrow> nat \<Rightarrow> repl_state \<Rightarrow> nat" where
  "isr_min self_id log_end st =
     fold (\<lambda>follower hwm. min hwm (matched st follower)) (filter (\<lambda>id. id \<noteq> self_id) (rs_isr st)) log_end"

definition advance_hwm :: "u32 \<Rightarrow> nat \<Rightarrow> replica \<Rightarrow> replica \<times> all_answer list" where
  "advance_hwm self_id log_end rp =
     (if \<not> rs_is_leader (rp_state rp) then (rp, [])
      else
        let hwm = isr_min self_id log_end (rp_state rp);
            current = rp_hwm rp;
            (st, ready) = drain_pending_all (max hwm current) (rp_state rp)
        in (\<lparr>rp_state = st, rp_hwm = (if hwm > current then hwm else current)\<rparr>,
            map (\<lambda>(base, count, reply). (reply, Inr (base, count))) ready))"

section \<open>Produces\<close>

definition produce_precheck :: "nat \<Rightarrow> u64 \<Rightarrow> acks \<Rightarrow> repl_state \<Rightarrow> error_code option" where
  "produce_precheck min_insync leader_epoch acks st =
     (if \<not> rs_is_leader st then Some NotLeader
      else if leader_epoch \<noteq> 0 \<and> leader_epoch \<noteq> rs_epoch st then Some FencedEpoch
      else if acks = AcksAll \<and> length (rs_isr st) < min_insync then Some NotEnoughReplicas
      else None)"

text \<open>The batch of an acks=all produce is in the leader's log; its acknowledgement is parked.\<close>

definition park_all :: "u32 \<Rightarrow> nat \<Rightarrow> nat \<Rightarrow> nat \<Rightarrow> nat \<Rightarrow> replica \<Rightarrow> replica \<times> all_answer list" where
  "park_all self_id log_end base count reply rp =
     advance_hwm self_id log_end
       (rp\<lparr>rp_state := (rp_state rp)\<lparr>rs_pending_all :=
          rs_pending_all (rp_state rp) @ [(base + count - 1, base, count, reply)]\<rparr>\<rparr>)"

section \<open>A follower's fetch\<close>

text \<open>
  The bookkeeping of a \<open>ReplicaFetch\<close>: the offset is recorded, and the caught-up clock advances
  only if it reaches the log's end.
\<close>

definition accept_fetch :: "nat \<Rightarrow> nat \<Rightarrow> u32 \<Rightarrow> u64 \<Rightarrow> nat \<Rightarrow> repl_state \<Rightarrow> repl_state \<times> error_code option" where
  "accept_fetch now log_end follower leader_epoch offset st =
     (if \<not> rs_is_leader st then (st, Some NotLeader)
      else if leader_epoch \<noteq> rs_epoch st then (st, Some FencedEpoch)
      else
        let caught_up =
              (if offset \<ge> log_end then now
               else case hm_get (rs_match_offsets st) follower of
                 Some (_, t) \<Rightarrow> t | None \<Rightarrow> rs_leader_since st)
        in (st\<lparr>rs_match_offsets := hm_insert follower (offset, caught_up) (rs_match_offsets st)\<rparr>, None))"

definition replica_fetch ::
    "nat \<Rightarrow> u32 \<Rightarrow> nat \<Rightarrow> u32 \<Rightarrow> u64 \<Rightarrow> nat \<Rightarrow> replica \<Rightarrow> replica \<times> all_answer list \<times> error_code option" where
  "replica_fetch now self_id log_end follower leader_epoch offset rp =
     (case accept_fetch now log_end follower leader_epoch offset (rp_state rp) of
        (st, Some code) \<Rightarrow> (rp\<lparr>rp_state := st\<rparr>, [], Some code)
      | (st, None) \<Rightarrow>
          let (rp, out) = advance_hwm self_id log_end (rp\<lparr>rp_state := st\<rparr>) in (rp, out, None))"

section \<open>Roles\<close>

text \<open>What a change of metadata starts at a partition.\<close>

datatype role_action =
    NoAction
  | RecordLeaderEpoch u64
  | StartFetcher u64 nat string

text \<open>The body of the loop of \<open>apply_metadata\<close> for a partition this broker replicates.\<close>

definition update_role :: "nat \<Rightarrow> u32 \<Rightarrow> partition_meta \<Rightarrow> repl_state \<Rightarrow> repl_state \<times> bool \<times> parked list" where
  "update_role now self_id p st =
     (let becoming_leader = (pm_leader p = self_id)
      in if rs_epoch st = pm_leader_epoch p \<and> rs_is_leader st = becoming_leader then
           let st = st\<lparr>rs_isr := pm_isr p\<rparr>
           in if \<not> rs_is_leader st \<and> \<not> rs_fetcher_alive st \<and> 0 \<le> sint (pm_leader p) then
                (st\<lparr>rs_fetcher_generation := rs_fetcher_generation st + 1, rs_fetcher_alive := True\<rparr>, True, [])
              else (st, False, [])
         else
           let st = st\<lparr>rs_epoch := pm_leader_epoch p, rs_replicas := pm_replicas p, rs_isr := pm_isr p,
                      rs_is_leader := becoming_leader,
                      rs_fetcher_generation := rs_fetcher_generation st + 1\<rparr>
           in if becoming_leader then
                (st\<lparr>rs_match_offsets := [], rs_leader_since := now, rs_fetcher_alive := False\<rparr>, True, [])
              else
                (st\<lparr>rs_pending_all := [], rs_fetcher_alive := (0 \<le> sint (pm_leader p))\<rparr>, True,
                 rs_pending_all st))"

definition apply_partition ::
    "nat \<Rightarrow> u32 \<Rightarrow> (u32 \<times> string) list \<Rightarrow> partition_meta \<Rightarrow> nat \<Rightarrow> replica \<Rightarrow>
     replica \<times> all_answer list \<times> role_action" where
  "apply_partition now self_id addrs p log_end rp =
     (let (st, transition, failed) = update_role now self_id p (rp_state rp);
          failures = map (\<lambda>(_, _, _, reply). (reply, Inl NotLeader)) failed;
          rp = rp\<lparr>rp_state := st\<rparr>
      in if \<not> transition then
           let (rp, out) = advance_hwm self_id log_end rp in (rp, failures @ out, NoAction)
         else if pm_leader p = self_id then
           let (rp, out) = advance_hwm self_id log_end rp
           in (rp, failures @ out, RecordLeaderEpoch (pm_leader_epoch p))
         else if 0 \<le> sint (pm_leader p) then
           (rp, failures,
            case find (\<lambda>(id, _). id = pm_leader p) addrs of
              Some (_, addr) \<Rightarrow> StartFetcher (pm_leader_epoch p) (rs_fetcher_generation st) addr
            | None \<Rightarrow> NoAction)
         else (rp, failures, NoAction))"

text \<open>The body of the loop of \<open>invalidate_replicas\<close>.\<close>

definition invalidate :: "replica \<Rightarrow> replica \<times> all_answer list" where
  "invalidate rp =
     (let st = rp_state rp
      in (rp\<lparr>rp_state := st\<lparr>rs_fetcher_generation := rs_fetcher_generation st + 1,
            rs_fetcher_alive := False, rs_is_leader := False, rs_pending_all := []\<rparr>\<rparr>,
          map (\<lambda>(_, _, _, reply). (reply, Inl NotLeader)) (rs_pending_all st)))"

section \<open>In-sync sets\<close>

definition desired_isr :: "nat \<Rightarrow> u32 \<Rightarrow> nat \<Rightarrow> repl_state \<Rightarrow> u32 list" where
  "desired_isr now self_id lag st =
     sort (self_id # filter (\<lambda>follower.
       let last_caught_up = (case hm_get (rs_match_offsets st) follower of
             Some (_, t) \<Rightarrow> t | None \<Rightarrow> rs_leader_since st)
       in now - last_caught_up \<le> lag) (filter (\<lambda>id. id \<noteq> self_id) (rs_replicas st)))"

definition isr_proposal :: "nat \<Rightarrow> u32 \<Rightarrow> nat \<Rightarrow> repl_state \<Rightarrow> (u64 \<times> u32 list) option" where
  "isr_proposal now self_id lag st =
     (if \<not> rs_is_leader st then None
      else
        let desired = desired_isr now self_id lag st
        in if desired = sort (rs_isr st) then None else Some (rs_epoch st, desired))"

text \<open>The controller's answer without error to a proposal.\<close>

definition isr_accepted ::
    "u32 \<Rightarrow> nat \<Rightarrow> u64 \<Rightarrow> u32 list \<Rightarrow> replica \<Rightarrow> replica \<times> all_answer list" where
  "isr_accepted self_id log_end epoch desired rp =
     (let st = rp_state rp;
          st = (if rs_is_leader st \<and> rs_epoch st = epoch then st\<lparr>rs_isr := desired\<rparr> else st)
      in advance_hwm self_id log_end (rp\<lparr>rp_state := st\<rparr>))"

section \<open>The follower\<close>

text \<open>A fetcher speaks for the replica while its generation is current and the broker follows.\<close>

definition fetcher_current :: "nat \<Rightarrow> repl_state \<Rightarrow> bool" where
  "fetcher_current generation st \<longleftrightarrow> \<not> rs_is_leader st \<and> rs_fetcher_generation st = generation"

text \<open>The offset to truncate to after the leader's answer to \<open>EpochCheck\<close>; \<open>None\<close> for nothing to do.\<close>

definition reconcile_target :: "nat \<Rightarrow> nat \<Rightarrow> nat option" where
  "reconcile_target end_offset local_end =
     (let target = min end_offset local_end in if target < local_end then Some target else None)"

text \<open>The end of a fetcher.\<close>

definition fetcher_exit :: "nat \<Rightarrow> repl_state \<Rightarrow> repl_state" where
  "fetcher_exit generation st =
     (if rs_fetcher_generation st = generation then st\<lparr>rs_fetcher_alive := False\<rparr> else st)"

text \<open>
  What a fetcher does with a response to its \<open>ReplicaFetch\<close>: the commands for the partition and
  its new idea of the local epoch, or the end of the loop, with a refresh of the metadata or not.
\<close>

datatype fetch_step =
    Continue "u64 option" "fetched_record list" u64
  | Stop bool

definition on_replica_fetch :: "bool \<Rightarrow> u64 \<Rightarrow> response \<Rightarrow> fetch_step" where
  "on_replica_fetch is_current local_epoch resp =
     (case resp of
        ReplicaFetchResp error leader_epoch _ _ records \<Rightarrow>
          if error \<noteq> NoError then Stop True
          else if \<not> is_current then Stop False
          else if leader_epoch > local_epoch then Continue (Some leader_epoch) records leader_epoch
          else Continue None records local_epoch
      | _ \<Rightarrow> Stop False)"

end
