(* ===== verification/ReplicaProperties.thy ===== *)
theory ReplicaProperties
  imports Replica LogRecord Controller EpochCheckpoint "HOL-Library.Sublist"
begin

text \<open>
  The properties of replication: what the high watermark promises of the in-sync replicas, what
  the proposals of in-sync sets do to that promise, fencing, role changes, and reconciliation.
\<close>

section \<open>The high watermark\<close>

lemma isr_min_le:
  "isr_min self log_end st \<le> log_end"
  "f \<in> set (rs_isr st) \<Longrightarrow> f \<noteq> self \<Longrightarrow> isr_min self log_end st \<le> matched st f"
proof -
  have *: "fold (\<lambda>follower hwm. min hwm (matched st follower)) fs n \<le> n \<and>
      (\<forall>f \<in> set fs. fold (\<lambda>follower hwm. min hwm (matched st follower)) fs n \<le> matched st f)" for fs n
  proof (induction fs arbitrary: n)
    case (Cons f fs)
    from Cons [of "min n (matched st f)"] show ?case by auto
  qed simp
  show "isr_min self log_end st \<le> log_end" using * by (simp add: isr_min_def)
  show "isr_min self log_end st \<le> matched st f" if "f \<in> set (rs_isr st)" "f \<noteq> self"
    using * that by (simp add: isr_min_def)
qed

text \<open>Everything \<open>advance_hwm\<close> does, on a leader.\<close>

lemma advance_hwm_leader:
  assumes "rs_is_leader (rp_state rp)" and "advance_hwm self log_end rp = (rp', out)"
  shows "rp_hwm rp' = max (rp_hwm rp) (isr_min self log_end (rp_state rp))"
    and "rp_state rp' = (rp_state rp)\<lparr>rs_pending_all :=
      filter (\<lambda>(lst, _). \<not> lst < rp_hwm rp') (rs_pending_all (rp_state rp))\<rparr>"
    and "out = map (\<lambda>(_, base, count, reply). (reply, Inr (base, count)))
      (filter (\<lambda>(lst, _). lst < rp_hwm rp') (rs_pending_all (rp_state rp)))"
proof -
  have m: "max h c = (if h > c then h else c)" for h c :: nat by simp
  show "rp_hwm rp' = max (rp_hwm rp) (isr_min self log_end (rp_state rp))"
    using assms by (auto simp: advance_hwm_def drain_pending_all_def Let_def)
  show "rp_state rp' = (rp_state rp)\<lparr>rs_pending_all :=
      filter (\<lambda>(lst, _). \<not> lst < rp_hwm rp') (rs_pending_all (rp_state rp))\<rparr>"
    and "out = map (\<lambda>(_, base, count, reply). (reply, Inr (base, count)))
      (filter (\<lambda>(lst, _). lst < rp_hwm rp') (rs_pending_all (rp_state rp)))"
    using assms by (auto simp: advance_hwm_def drain_pending_all_def Let_def m comp_def case_prod_beta)
qed

section \<open>A partition under one leader\<close>

text \<open>
  The leader's replica and log, the logs of the followers, the fetches on their way, and the
  acks=all produces acknowledged so far. The followers have reconciled their logs.
\<close>

record rgroup =
  g_rep :: replica
  g_log :: "log_record list"
  g_flog :: "u32 \<Rightarrow> log_record list"
  g_fetches :: "(u32 \<times> nat) set"
  g_acked :: "(nat \<times> nat) set"

abbreviation g_isr :: "rgroup \<Rightarrow> u32 list" where
  "g_isr g \<equiv> rs_isr (rp_state (g_rep g))"

abbreviation g_hwm :: "rgroup \<Rightarrow> nat" where
  "g_hwm g \<equiv> rp_hwm (g_rep g)"

definition acked_of :: "all_answer list \<Rightarrow> (nat \<times> nat) set" where
  "acked_of out = {bc. \<exists>reply. (reply, Inr bc) \<in> set out}"

definition update_rep :: "rgroup \<Rightarrow> replica \<times> all_answer list \<Rightarrow> rgroup" where
  "update_rep g r = g\<lparr>g_rep := fst r, g_acked := g_acked g \<union> acked_of (snd r)\<rparr>"

text \<open>
  The steps. A change of the in-sync set takes effect at the leader when the controller has
  accepted it or the metadata brings it; \<open>allowed\<close> says which changes are considered.
\<close>

inductive group_step ::
    "u32 \<Rightarrow> (rgroup \<Rightarrow> u32 list \<Rightarrow> bool) \<Rightarrow> rgroup \<Rightarrow> rgroup \<Rightarrow> bool"
  for self :: u32 and allowed :: "rgroup \<Rightarrow> u32 list \<Rightarrow> bool" where
  append: "group_step self allowed g (g\<lparr>g_log := g_log g @ rs\<rparr>)"
| park: "0 < count \<Longrightarrow> base + count \<le> length (g_log g) \<Longrightarrow>
    group_step self allowed g
      (update_rep g (park_all self (length (g_log g)) base count reply (g_rep g)))"
| send_fetch: "f \<noteq> self \<Longrightarrow>
    group_step self allowed g (g\<lparr>g_fetches := insert (f, length (g_flog g f)) (g_fetches g)\<rparr>)"
| receive_fetch: "(f, offset) \<in> g_fetches g \<Longrightarrow>
    replica_fetch now self (length (g_log g)) f epoch offset (g_rep g) = (rp, out, err) \<Longrightarrow>
    group_step self allowed g (update_rep g (rp, out))"
| deliver: "(f, length (g_flog g f)) \<in> g_fetches g \<Longrightarrow>
    group_step self allowed g
      (g\<lparr>g_flog := (g_flog g)(f := g_flog g f @ take k (drop (length (g_flog g f)) (g_log g)))\<rparr>)"
| lose_fetch: "group_step self allowed g (g\<lparr>g_fetches := g_fetches g - {x}\<rparr>)"
| change_isr: "allowed g isr \<Longrightarrow>
    group_step self allowed g
      (update_rep g (isr_accepted self (length (g_log g)) (rs_epoch (rp_state (g_rep g))) isr (g_rep g)))"

definition group_inv :: "u32 \<Rightarrow> rgroup \<Rightarrow> bool" where
  "group_inv self g \<longleftrightarrow>
     rs_is_leader (rp_state (g_rep g)) \<and>
     (\<forall>f. f \<noteq> self \<longrightarrow> prefix (g_flog g f) (g_log g) \<and> matched (rp_state (g_rep g)) f \<le> length (g_flog g f)) \<and>
     (\<forall>(f, offset) \<in> g_fetches g. f \<noteq> self \<and> offset \<le> length (g_flog g f)) \<and>
     g_hwm g \<le> length (g_log g) \<and>
     (\<forall>f \<in> set (g_isr g). f \<noteq> self \<longrightarrow> g_hwm g \<le> length (g_flog g f)) \<and>
     (\<forall>(lst, base, count, reply) \<in> set (rs_pending_all (rp_state (g_rep g))). lst + 1 = base + count) \<and>
     (\<forall>(base, count) \<in> g_acked g. base + count \<le> g_hwm g)"

text \<open>The changes of the in-sync set that keep the promise: a new member has what is committed.\<close>

definition caught_up_change :: "u32 \<Rightarrow> rgroup \<Rightarrow> u32 list \<Rightarrow> bool" where
  "caught_up_change self g isr \<longleftrightarrow>
     (\<forall>f \<in> set isr. f = self \<or> f \<in> set (g_isr g) \<or> g_hwm g \<le> matched (rp_state (g_rep g)) f)"

lemma advance_group:
  assumes inv: "group_inv self g" and st: "rs_is_leader (rp_state rp)"
    and m: "\<And>f. f \<noteq> self \<Longrightarrow> matched (rp_state rp) f \<le> length (g_flog g f)"
    and h: "rp_hwm rp = g_hwm g"
    and isr: "\<And>f. f \<in> set (rs_isr (rp_state rp)) \<Longrightarrow> f \<noteq> self \<Longrightarrow> g_hwm g \<le> length (g_flog g f)"
    and p: "\<forall>(lst, base, count, reply) \<in> set (rs_pending_all (rp_state rp)). lst + 1 = base + count"
  shows "group_inv self (update_rep g (advance_hwm self (length (g_log g)) rp))"
proof -
  obtain rp' out where a: "advance_hwm self (length (g_log g)) rp = (rp', out)" by fastforce
  note l = advance_hwm_leader [OF st a]
  have mm: "matched (rp_state rp') f = matched (rp_state rp) f" for f by (simp add: l(2) matched_def)
  have "rp_hwm rp' \<le> length (g_log g)"
    using inv isr_min_le(1) [of self "length (g_log g)" "rp_state rp"] by (simp add: l(1) h group_inv_def)
  moreover have "rp_hwm rp' \<le> length (g_flog g f)" if "f \<in> set (rs_isr (rp_state rp'))" "f \<noteq> self" for f
    using isr_min_le(2) [of f "rp_state rp" self "length (g_log g)"] m [of f] isr [of f] that
    by (simp add: l(1,2) h)
  moreover have "base + count \<le> rp_hwm rp'" if "(base, count) \<in> acked_of out" for base count
    using that p by (fastforce simp: acked_of_def l(3))
  moreover have "base + count \<le> rp_hwm rp'" if "(base, count) \<in> g_acked g" for base count
    using that inv by (fastforce simp: group_inv_def l(1) h)
  moreover have "rs_is_leader (rp_state rp')" using st by (simp add: l(2))
  moreover have "\<forall>(lst, base, count, reply) \<in> set (rs_pending_all (rp_state rp')). lst + 1 = base + count"
    using p by (auto simp: l(2))
  ultimately show ?thesis
    using inv m unfolding group_inv_def update_rep_def a by (auto simp: mm)
qed

lemma accept_fetch_matched:
  "accept_fetch now n f epoch offset st = (st', e) \<Longrightarrow>
     matched st' x = (if e = None \<and> x = f then offset else matched st x)"
  by (auto simp: accept_fetch_def matched_def Let_def split: if_splits option.splits)

lemma group_step_inv:
  assumes "group_step self (caught_up_change self) g g'" and inv: "group_inv self g"
  shows "group_inv self g'"
  using assms(1)
proof cases
  case (append rs)
  then show ?thesis using inv by (auto simp: group_inv_def)
next
  case (park count base reply)
  show ?thesis unfolding park(1) park_all_def
    by (rule advance_group [OF inv]) (use inv park(2) in \<open>auto simp: group_inv_def matched_def\<close>)
next
  case (send_fetch f)
  then show ?thesis using inv by (auto simp: group_inv_def)
next
  case (receive_fetch f offset now epoch rp out err)
  have o: "f \<noteq> self" "offset \<le> length (g_flog g f)" using inv receive_fetch(2) by (auto simp: group_inv_def)
  obtain st e where a: "accept_fetch now (length (g_log g)) f epoch offset (rp_state (g_rep g)) = (st, e)"
    by fastforce
  have m: "matched st f' \<le> length (g_flog g f')" if "f' \<noteq> self" for f'
    using accept_fetch_matched [OF a, of f'] inv o that by (simp add: group_inv_def)
  have s: "rs_is_leader st" "rs_isr st = g_isr g" "rs_pending_all st = rs_pending_all (rp_state (g_rep g))"
    using a inv by (auto simp: accept_fetch_def group_inv_def Let_def split: if_splits)
  show ?thesis
  proof (cases e)
    case None
    have "(rp, out) = advance_hwm self (length (g_log g)) ((g_rep g)\<lparr>rp_state := st\<rparr>)"
      using receive_fetch(3) a None by (auto simp: replica_fetch_def split: prod.splits)
    then show ?thesis unfolding receive_fetch(1)
      using inv m s by (simp) (rule advance_group [OF inv]; auto simp: group_inv_def)
  next
    case (Some code)
    then have "st = rp_state (g_rep g)"
      using a by (auto simp: accept_fetch_def Let_def split: if_splits)
    then have "rp = g_rep g" "out = []" using receive_fetch(3) a Some by (auto simp: replica_fetch_def)
    then show ?thesis using inv by (simp add: receive_fetch(1) update_rep_def acked_of_def)
  qed
next
  case (deliver f k)
  have f: "f \<noteq> self" using inv deliver(2) by (auto simp: group_inv_def)
  then have "prefix (g_flog g f) (g_log g)" using inv by (simp add: group_inv_def)
  then have "prefix (g_flog g f @ take k (drop (length (g_flog g f)) (g_log g))) (g_log g)"
    by (auto simp: prefix_def) (metis append_take_drop_id)
  moreover define fl where
    "fl = (g_flog g)(f := g_flog g f @ take k (drop (length (g_flog g f)) (g_log g)))"
  ultimately have pre: "x \<noteq> self \<Longrightarrow> prefix (fl x) (g_log g)" for x
    using inv by (simp add: group_inv_def)
  have len: "length (g_flog g x) \<le> length (fl x)" for x by (simp add: fl_def)
  have "\<forall>(x, offset) \<in> g_fetches g. x \<noteq> self \<and> offset \<le> length (fl x)"
  proof (intro ballI case_prodI2)
    fix e x offset assume "e \<in> g_fetches g" "e = (x, offset)"
    then have "x \<noteq> self \<and> offset \<le> length (g_flog g x)" using inv by (auto simp: group_inv_def)
    then show "x \<noteq> self \<and> offset \<le> length (fl x)" using len [of x] by simp
  qed
  moreover have "\<forall>x. x \<noteq> self \<longrightarrow> matched (rp_state (g_rep g)) x \<le> length (fl x)"
    and "\<forall>x \<in> set (g_isr g). x \<noteq> self \<longrightarrow> g_hwm g \<le> length (fl x)"
    using inv len by (auto simp: group_inv_def intro: order_trans)
  ultimately show ?thesis
    using inv pre unfolding deliver(1) fl_def [symmetric] by (simp add: group_inv_def)
next
  case (lose_fetch x)
  then show ?thesis using inv by (auto simp: group_inv_def)
next
  case (change_isr isr)
  show ?thesis unfolding change_isr(1) isr_accepted_def Let_def
    by (rule advance_group [OF inv])
      (use inv change_isr(2) in \<open>force simp: group_inv_def caught_up_change_def matched_def\<close>)+
qed

interpretation committed: preserved "group_step self (caught_up_change self)" "group_inv self" for self
  by unfold_locales (rule group_step_inv)

text \<open>A promotion starts the group, whatever the replica was before.\<close>

lemma promoted_group_inv:
  assumes "pm_leader p = self" and "rs_epoch (rp_state rp) \<noteq> pm_leader_epoch p"
    and "rs_pending_all (rp_state rp) = []"
    and "\<And>f. f \<noteq> self \<Longrightarrow> prefix (flog f) log"
    and "rp_hwm rp \<le> length log"
    and "\<And>f. f \<in> set (pm_isr p) \<Longrightarrow> f \<noteq> self \<Longrightarrow> rp_hwm rp \<le> length (flog f)"
    and "apply_partition now self addrs p (length log) rp = (rp', out, action)"
  shows "group_inv self \<lparr>g_rep = rp', g_log = log, g_flog = flog, g_fetches = {}, g_acked = acked_of out\<rparr>"
proof -
  define rp0 where "rp0 = rp\<lparr>rp_state := (rp_state rp)\<lparr>rs_epoch := pm_leader_epoch p,
    rs_replicas := pm_replicas p, rs_isr := pm_isr p, rs_is_leader := True,
    rs_fetcher_generation := rs_fetcher_generation (rp_state rp) + 1,
    rs_match_offsets := [], rs_leader_since := now, rs_fetcher_alive := False\<rparr>\<rparr>"
  have r: "(rp', out) = advance_hwm self (length log) rp0"
    using assms(1,2,7) by (simp add: apply_partition_def update_role_def rp0_def Let_def split: prod.splits)
  let ?g = "\<lparr>g_rep = rp0, g_log = log, g_flog = flog, g_fetches = {}, g_acked = {}\<rparr>"
  have "group_inv self ?g"
    using assms(3-6) by (simp add: group_inv_def rp0_def matched_def)
  from advance_group [OF this, of rp0] have "group_inv self (update_rep ?g (rp', out))"
    using assms(3-6) by (simp add: r rp0_def matched_def)
  then show ?thesis by (simp add: update_rep_def)
qed


text \<open>Broker 3 is promoted, stores a record, and replica 2 fetches it.\<close>

definition promoted_meta :: partition_meta where
  "promoted_meta = \<lparr>pm_partition = 0, pm_leader = 3, pm_leader_epoch = 1, pm_replicas = [1, 2, 3], pm_isr = [2, 3]\<rparr>"

definition leader_state :: "(u32, nat \<times> nat) hashmap \<Rightarrow> parked list \<Rightarrow> repl_state" where
  "leader_state ms ps = \<lparr>rs_epoch = 1, rs_is_leader = True, rs_isr = [2, 3], rs_replicas = [1, 2, 3],
     rs_match_offsets = ms, rs_pending_all = ps, rs_fetcher_generation = 1,
     rs_fetcher_alive = False, rs_leader_since = 0\<rparr>"

definition some_record :: log_record where
  "some_record = \<lparr>lr_offset = 0, lr_timestamp_ms = 2, lr_key = None, lr_value = [8]\<rparr>"

definition leader_group ::
    "(u32, nat \<times> nat) hashmap \<Rightarrow> parked list \<Rightarrow> nat \<Rightarrow> log_record list \<Rightarrow> (u32 \<Rightarrow> log_record list) \<Rightarrow>
     (u32 \<times> nat) set \<Rightarrow> (nat \<times> nat) set \<Rightarrow> rgroup" where
  "leader_group ms ps hwm log flog fetches acked =
     \<lparr>g_rep = \<lparr>rp_state = leader_state ms ps, rp_hwm = hwm\<rparr>, g_log = log, g_flog = flog,
      g_fetches = fetches, g_acked = acked\<rparr>"

lemma promoted_replica:
  "apply_partition 0 3 [] promoted_meta 0 (replica_new 0) =
     (\<lparr>rp_state = leader_state [] [], rp_hwm = 0\<rparr>, [], RecordLeaderEpoch 1)"
  by (simp add: apply_partition_def update_role_def promoted_meta_def replica_new_def leader_state_def
    advance_hwm_def drain_pending_all_def isr_min_def matched_def Let_def)

lemma leader_parks:
  assumes "hm_get ms 2 = None"
  shows "group_step 3 allowed (leader_group ms [] 0 [some_record] fl x {})
     (leader_group ms [(0, 0, 1, 7)] 0 [some_record] fl x {})"
  using group_step.park [of 1 0 "leader_group ms [] 0 [some_record] fl x {}" 3 allowed 7] assms
  by (simp add: leader_group_def leader_state_def update_rep_def park_all_def advance_hwm_def acked_of_def
    drain_pending_all_def isr_min_def matched_def Let_def)

lemma leader_acks:
  assumes "(2, 1) \<in> x"
  shows "group_step 3 allowed (leader_group ms [(0, 0, 1, 7)] 0 [some_record] fl x {})
     (leader_group (hm_insert 2 (1, t) ms) [] 1 [some_record] fl x {(0, 1)})"
proof -
  let ?rp = "\<lparr>rp_state = leader_state ms [(0, 0, 1, 7)], rp_hwm = 0\<rparr>"
  have "replica_fetch t 3 1 2 1 1 ?rp =
      (\<lparr>rp_state = leader_state (hm_insert 2 (1, t) ms) [], rp_hwm = 1\<rparr>, [(7, Inr (0, 1))], None)"
    by (simp add: leader_state_def replica_fetch_def accept_fetch_def advance_hwm_def
      drain_pending_all_def isr_min_def matched_def Let_def)
  then show ?thesis
    using group_step.receive_fetch [of 2 1 "leader_group ms [(0, 0, 1, 7)] 0 [some_record] fl x {}" t 3 1]
      assms by (simp add: leader_group_def update_rep_def acked_of_def)
qed

text \<open>From the first produce to its acknowledgement; replica 1 fetches nothing.\<close>

lemma leader_run:
  assumes "hm_get ms 2 = None"
  shows "(group_step 3 allowed)\<^sup>*\<^sup>* (leader_group ms [] 0 [] (\<lambda>_. []) x {})
     (leader_group (hm_insert 2 (1, t) ms) [] 1 [some_record] ((\<lambda>_. [])(2 := [some_record]))
       (insert (2, 1) (insert (2, 0) x)) {(0, 1)})"
proof -
  let ?s = "group_step 3 allowed" and ?p = "[(0, 0, 1, 7)]" and ?l = "[some_record]"
  let ?fl = "(\<lambda>_. [])(2 := [some_record])"
  let ?x = "insert (2, 0) x" and ?y = "insert (2, 1) (insert (2, 0) x)"
  have "?s (leader_group ms [] 0 [] (\<lambda>_. []) x {}) (leader_group ms [] 0 ?l (\<lambda>_. []) x {})"
    using group_step.append [of 3 allowed "leader_group ms [] 0 [] (\<lambda>_. []) x {}" ?l]
    by (simp add: leader_group_def)
  moreover note leader_parks [OF assms]
  moreover have "?s (leader_group ms ?p 0 ?l (\<lambda>_. []) x {}) (leader_group ms ?p 0 ?l (\<lambda>_. []) ?x {})"
    using group_step.send_fetch [of 2 3 allowed "leader_group ms ?p 0 ?l (\<lambda>_. []) x {}"]
    by (simp add: leader_group_def)
  moreover have "?s (leader_group ms ?p 0 ?l (\<lambda>_. []) ?x {}) (leader_group ms ?p 0 ?l ?fl ?x {})"
    using group_step.deliver [of 2 "leader_group ms ?p 0 ?l (\<lambda>_. []) ?x {}" 3 allowed 1]
    by (simp add: leader_group_def)
  moreover have "?s (leader_group ms ?p 0 ?l ?fl ?x {}) (leader_group ms ?p 0 ?l ?fl ?y {})"
    using group_step.send_fetch [of 2 3 allowed "leader_group ms ?p 0 ?l ?fl ?x {}"]
    by (simp add: leader_group_def)
  moreover note leader_acks [of ?y allowed ms ?fl t]
  ultimately show ?thesis by (meson converse_rtranclp_into_rtranclp insertI1 rtranclp.rtrancl_refl)
qed


section \<open>Readmission to the in-sync set\<close>

text \<open>The changes of the in-sync set the leader proposes, at any time.\<close>

definition proposed_change :: "u32 \<Rightarrow> nat \<Rightarrow> rgroup \<Rightarrow> u32 list \<Rightarrow> bool" where
  "proposed_change self lag g isr \<longleftrightarrow>
     (\<exists>now. isr_proposal now self lag (rp_state (g_rep g)) = Some (rs_epoch (rp_state (g_rep g)), isr))"

text \<open>What the controller has for the partition, and the brokers that are alive.\<close>

definition readmitted_part :: "u32 list \<Rightarrow> partition_state" where
  "readmitted_part isr = \<lparr>ps_leader = 3, ps_leader_epoch = 1, ps_replicas = [1, 2, 3], ps_isr = isr\<rparr>"

definition readmitted_ctl :: "u32 list \<Rightarrow> ctl_state" where
  "readmitted_ctl isr = \<lparr>st_version = 5, st_brokers = [], st_topics = [(''t'', [readmitted_part isr])]\<rparr>"

lemma leader_hears_empty_fetch:
  "group_step 3 allowed (leader_group [] [] 0 [] (\<lambda>_. []) {(1, 0)} {})
     (leader_group [(1, (0, t))] [] 0 [] (\<lambda>_. []) {(1, 0)} {})"
proof -
  let ?rp = "\<lparr>rp_state = leader_state [] [], rp_hwm = 0\<rparr>"
  have "replica_fetch t 3 0 1 1 0 ?rp = (\<lparr>rp_state = leader_state [(1, (0, t))] [], rp_hwm = 0\<rparr>, [], None)"
    by (simp add: leader_state_def replica_fetch_def accept_fetch_def advance_hwm_def
      drain_pending_all_def isr_min_def matched_def Let_def)
  then show ?thesis
    using group_step.receive_fetch [of 1 0 "leader_group [] [] 0 [] (\<lambda>_. []) {(1, 0)} {}" t 3 1]
    by (simp add: leader_group_def update_rep_def acked_of_def)
qed

text \<open>
  The leader readmits a follower by its caught-up clock alone, whatever offset it has
  reached. For every lag window there is a run in which follower 1 fetches the whole log while
  it is still empty, a record is then stored and acknowledged at acks=all by the in-sync set
  {2, 3}, and within the window the leader proposes {1, 2, 3}. The controller accepts; when
  broker 3 fails, the next election makes broker 1 the leader, whose log lacks the record.
\<close>

theorem isr_readmission_loses_acked_record:
  "\<exists>g. (group_step 3 (proposed_change 3 lag))\<^sup>*\<^sup>* (leader_group [] [] 0 [] (\<lambda>_. []) {} {}) g \<and>
     (0, 1) \<in> g_acked g \<and> g_log g = [some_record] \<and> g_flog g 1 = [] \<and>
     alter_isr ''t'' 0 1 (g_isr g) (readmitted_ctl [2, 3]) = (readmitted_ctl (g_isr g), True, NoError) \<and>
     ps_leader (fst (elect_partition [1, 2] (readmitted_part (g_isr g)))) = 1"
proof -
  let ?s = "group_step 3 (proposed_change 3 lag)" and ?fl = "(\<lambda>_. [])(2 := [some_record])"
  let ?ms = "[(1, (0, 10)), (2, (1, 11))]" and ?x = "{(2, 1), (2, 0), (1, 0)}"
  let ?g = "leader_group ?ms [] 1 [some_record] ?fl ?x {(0, 1)}"
  let ?after = "update_rep ?g (isr_accepted 3 (length (g_log ?g)) (rs_epoch (rp_state (g_rep ?g)))
      [1, 2, 3] (g_rep ?g))"
  have "?s (leader_group [] [] 0 [] (\<lambda>_. []) {} {}) (leader_group [] [] 0 [] (\<lambda>_. []) {(1, 0)} {})"
    using group_step.send_fetch [of 1 3 "proposed_change 3 lag" "leader_group [] [] 0 [] (\<lambda>_. []) {} {}"]
    by (simp add: leader_group_def)
  moreover note leader_hears_empty_fetch
  moreover have "?s\<^sup>*\<^sup>* (leader_group [(1, (0, 10))] [] 0 [] (\<lambda>_. []) {(1, 0)} {}) ?g"
    using leader_run [of "[(1, (0, 10))]" "proposed_change 3 lag" "{(1, 0)}" 11] by simp
  ultimately have run: "?s\<^sup>*\<^sup>* (leader_group [] [] 0 [] (\<lambda>_. []) {} {}) ?g"
    by (meson converse_rtranclp_into_rtranclp)
  have "isr_proposal (10 + lag) 3 lag (leader_state ?ms []) = Some (1, [1, 2, 3])"
    by (simp add: isr_proposal_def desired_isr_def leader_state_def word_le_nat_alt)
  then have "proposed_change 3 lag ?g [1, 2, 3]"
    unfolding proposed_change_def by (intro exI [of _ "10 + lag"]) (simp add: leader_group_def leader_state_def)
  then have "?s ?g ?after" by (rule group_step.change_isr)
  with run have "?s\<^sup>*\<^sup>* (leader_group [] [] 0 [] (\<lambda>_. []) {} {}) ?after" by (rule rtranclp.rtrancl_into_rtrancl)
  moreover have "(0, 1) \<in> g_acked ?after" "g_log ?after = [some_record]" "g_flog ?after 1 = []"
    by (simp_all add: update_rep_def leader_group_def)
  moreover have "g_isr ?after = [1, 2, 3]"
    by (simp add: update_rep_def leader_group_def isr_accepted_def leader_state_def advance_hwm_def
      drain_pending_all_def Let_def)
  moreover have "alter_isr ''t'' 0 1 [1, 2, 3] (readmitted_ctl [2, 3]) = (readmitted_ctl [1, 2, 3], True, NoError)"
    by (simp add: alter_isr_def readmitted_ctl_def readmitted_part_def Let_def)
  moreover have "ps_leader (fst (elect_partition [1, 2] (readmitted_part [1, 2, 3]))) = 1"
    by (simp add: elect_partition_def readmitted_part_def)
  ultimately show ?thesis by metis
qed

end
