(* ===== verification/ReplicaAnswers.thy ===== *)
theory ReplicaAnswers
  imports Replica EpochCheckpoint Controller "HOL-Library.Multiset"
begin

text \<open>
  The acknowledgements parked at a replica over a run of everything that touches it, and the
  reconciliation of a follower's log with its leader's.
\<close>

section \<open>Runs of a replica\<close>

text \<open>Everything that changes a replica, with the end of its log where the code reads the watch.\<close>

datatype replica_event =
    Advanced nat
  | Parked nat nat nat nat
  | Fetched nat nat u32 u64 nat
  | MetadataApplied nat "(u32 \<times> string) list" partition_meta nat
  | Invalidated
  | IsrAccepted nat u64 "u32 list"
  | FetcherExited nat

fun replica_step :: "u32 \<Rightarrow> replica_event \<Rightarrow> replica \<Rightarrow> replica \<times> all_answer list" where
  "replica_step self (Advanced log_end) rp = advance_hwm self log_end rp"
| "replica_step self (Parked log_end base n reply) rp = park_all self log_end base n reply rp"
| "replica_step self (Fetched now log_end follower epoch offset) rp =
     (let (rp, out, _) = replica_fetch now self log_end follower epoch offset rp in (rp, out))"
| "replica_step self (MetadataApplied now addrs p log_end) rp =
     (let (rp, out, _) = apply_partition now self addrs p log_end rp in (rp, out))"
| "replica_step self Invalidated rp = invalidate rp"
| "replica_step self (IsrAccepted log_end epoch desired) rp = isr_accepted self log_end epoch desired rp"
| "replica_step self (FetcherExited generation) rp =
     (rp\<lparr>rp_state := fetcher_exit generation (rp_state rp)\<rparr>, [])"

fun replica_run :: "u32 \<Rightarrow> replica_event list \<Rightarrow> replica \<Rightarrow> replica \<times> all_answer list" where
  "replica_run self [] rp = (rp, [])"
| "replica_run self (e # es) rp =
     (let (rp, out) = replica_step self e rp; (rp, out') = replica_run self es rp in (rp, out @ out'))"

text \<open>The channels of a queue, and the channels a run parks.\<close>

definition waiting :: "replica \<Rightarrow> nat multiset" where
  "waiting rp = mset (map (\<lambda>(_, _, _, reply). reply) (rs_pending_all (rp_state rp)))"

definition parked_replies :: "replica_event list \<Rightarrow> nat multiset" where
  "parked_replies es = mset (concat (map (\<lambda>e. case e of Parked _ _ _ reply \<Rightarrow> [reply] | _ \<Rightarrow> []) es))"

text \<open>What one event does to the queue: \<open>new\<close> is what it parks.\<close>

definition answers_ok :: "nat multiset \<Rightarrow> replica \<Rightarrow> replica \<times> all_answer list \<Rightarrow> bool" where
  "answers_ok new rp r \<longleftrightarrow>
     mset (map fst (snd r)) + waiting (fst r) = waiting rp + new \<and>
     rp_hwm rp \<le> rp_hwm (fst r) \<and>
     (\<forall>a \<in> set (snd r). snd a = Inl NotLeader \<or> \<not> isl (snd a))"

lemma answers_ok_trans:
  assumes "answers_ok n rp (rp1, out)" and "answers_ok n' rp1 (rp2, out')"
  shows "answers_ok (n + n') rp (rp2, out @ out')"
  using assms by (auto simp: answers_ok_def ac_simps) (metis (no_types, opaque_lifting) add.assoc add.commute)

lemma waiting_partition:
  "mset (map f (filter P xs)) + mset (map f (filter (\<lambda>x. \<not> P x) xs)) = mset (map f xs)"
  by (induction xs) auto

lemma advance_answers:
  assumes "waiting rp0 + new = waiting rp" and "rp_hwm rp0 = rp_hwm rp"
  shows "answers_ok new rp0 (advance_hwm self log_end rp)"
proof (cases "rs_is_leader (rp_state rp)")
  case False
  then show ?thesis using assms by (simp add: answers_ok_def advance_hwm_def)
next
  case True
  let ?h = "max (isr_min self log_end (rp_state rp)) (rp_hwm rp)" and ?p = "rs_pending_all (rp_state rp)"
  let ?reply = "\<lambda>(_, _, _, reply). reply :: nat" and ?done = "\<lambda>x :: parked. fst x < ?h"
  obtain rp' out where a: "advance_hwm self log_end rp = (rp', out)" by fastforce
  have rp': "waiting rp' = mset (map ?reply (filter (\<lambda>x. \<not> ?done x) ?p))" "rp_hwm rp \<le> rp_hwm rp'"
    and out: "map fst out = map ?reply (filter ?done ?p)"
      "\<And>x. x \<in> set out \<Longrightarrow> \<not> isl (snd x)"
    using a True by (auto simp: advance_hwm_def drain_pending_all_def waiting_def Let_def comp_def case_prod_unfold)
  have "mset (map fst out) + waiting rp' = waiting rp"
    unfolding rp'(1) out(1) waiting_partition by (simp only: waiting_def)
  then show ?thesis using assms a rp'(2) out(2) by (fastforce simp: answers_ok_def)
qed

lemma replica_step_answers:
  "answers_ok (parked_replies [e]) rp (replica_step self e rp)"
proof (cases e)
  case (Advanced log_end)
  then show ?thesis by (simp add: parked_replies_def advance_answers)
next
  case (Parked log_end base n reply)
  then show ?thesis
    by (auto simp: parked_replies_def park_all_def waiting_def intro!: advance_answers)
next
  case (Fetched now log_end follower epoch offset)
  show ?thesis
  proof (cases "accept_fetch now log_end follower epoch offset (rp_state rp)")
    case (Pair st err)
    then have st: "rs_pending_all st = rs_pending_all (rp_state rp)"
      by (auto simp: accept_fetch_def Let_def split: if_splits)
    have "answers_ok {#} rp (advance_hwm self log_end (rp\<lparr>rp_state := st\<rparr>))"
      by (rule advance_answers) (simp_all add: waiting_def st)
    then show ?thesis
      using Pair st Fetched
      by (auto simp: replica_fetch_def parked_replies_def answers_ok_def waiting_def split: prod.splits option.splits)
  qed
next
  case (MetadataApplied now addrs p log_end)
  obtain st moved failed where u: "update_role now self p (rp_state rp) = (st, moved, failed)"
    by (metis prod_cases3)
  let ?rp = "rp\<lparr>rp_state := st\<rparr>" and ?failures = "map (\<lambda>(_, _, _, reply). (reply, Inl NotLeader)) failed"
  have "rs_pending_all st = rs_pending_all (rp_state rp) \<and> failed = [] \<or>
      rs_pending_all st = [] \<and> failed = rs_pending_all (rp_state rp)"
    using u by (auto simp: update_role_def Let_def split: if_splits)
  then have f: "answers_ok {#} rp (?rp, ?failures)"
    by (auto simp: answers_ok_def waiting_def case_prod_unfold comp_def)
  then have "answers_ok ({#} + {#}) rp (fst (advance_hwm self log_end ?rp), ?failures @ snd (advance_hwm self log_end ?rp))"
    by (rule answers_ok_trans) (simp add: advance_answers)
  with f u MetadataApplied show ?thesis
    by (auto simp: apply_partition_def parked_replies_def Let_def split: prod.splits)
next
  case Invalidated
  then show ?thesis
    by (auto simp: invalidate_def answers_ok_def waiting_def parked_replies_def case_prod_unfold comp_def Let_def)
next
  case (IsrAccepted log_end epoch desired)
  then show ?thesis
    by (auto simp: parked_replies_def isr_accepted_def waiting_def Let_def intro!: advance_answers)
next
  case (FetcherExited generation)
  then show ?thesis by (simp add: answers_ok_def parked_replies_def waiting_def fetcher_exit_def)
qed


text \<open>
  A produce whose broker is demoted between its append and its park waits at a replica that no
  longer leads. If the broker leads again before the wait times out, it is acknowledged by the
  end of the log alone, whatever was stored at its offsets meanwhile.
\<close>

lemma late_park_is_acked:
  assumes "\<not> rs_is_leader (rp_state rp)" and "0 < n" and "base + n \<le> log_end"
    and "pm_leader p = self" and "pm_isr p = [self]"
  shows "snd (replica_run self [Parked before base n reply] rp) = []"
    and "(reply, Inr (base, n)) \<in> set (snd (replica_run self
      [Parked before base n reply, MetadataApplied now addrs p log_end] rp))"
  using assms
  by (auto simp: park_all_def advance_hwm_def apply_partition_def update_role_def drain_pending_all_def
    isr_min_def Let_def split: prod.splits)

end
