(* ===== verification/Reconciliation.thy ===== *)
theory Reconciliation
  imports Replica EpochCheckpoint "HOL-Library.Sublist"
begin

text \<open>
  The reconciliation of a restarted or demoted follower with its leader: the follower asks where
  its last epoch ended at the leader (\<open>end_offset_for\<close>), cuts its log there
  (\<open>reconcile_target\<close>) and then fetches. Logs are lists of records here, and the checkpoints say
  under which epoch the record at an offset was written (\<open>epoch_at\<close>).
\<close>

text \<open>The follower's log after the answer of the leader.\<close>

definition reconciled ::
    "epoch_entries \<Rightarrow> 'r list \<Rightarrow> epoch_entries \<Rightarrow> 'r list \<Rightarrow> 'r list" where
  "reconciled leader llog follower flog =
     (case reconcile_target (end_offset_for leader (current_epoch follower) (length llog)) (length flog) of
        None \<Rightarrow> flog
      | Some target \<Rightarrow> take target flog)"

lemma reconciled_take:
  "reconciled leader llog follower flog =
     take (end_offset_for leader (current_epoch follower) (length llog)) flog"
  by (auto simp: reconciled_def reconcile_target_def Let_def)

lemma epoch_at_from_last:
  assumes "es \<noteq> []" and "snd (last es) \<le> offset"
  shows "epoch_at es offset = Some (fst (last es))"
  using assms by (cases es rule: rev_cases) (auto simp: epoch_at_def Let_def)

lemma epoch_at_from_entry:
  assumes "epochs_wf es" and "(e, s) \<in> set es" and "s \<le> offset"
  shows "\<exists>x. epoch_at es offset = Some x \<and> e \<le> x"
  using assms
proof (induction es)
  case (Cons y ys)
  have wf: "epochs_wf ys" using Cons.prems(1) by (simp add: epochs_wf_Cons)
  have y: "\<forall>z \<in> set ys. fst y < fst z \<and> snd y \<le> snd z" using Cons.prems(1) by (simp add: epochs_wf_Cons)
  show ?case
  proof (cases "(e, s) \<in> set ys")
    case True
    then have "snd y \<le> offset" using y Cons.prems(3) by fastforce
    then show ?thesis
      using Cons.IH [OF wf True Cons.prems(3)] epoch_at_Cons [OF Cons.prems(1), of offset] by auto
  next
    case False
    then have e: "y = (e, s)" using Cons.prems(2) by auto
    show ?thesis
    proof (cases "epoch_at ys offset")
      case None
      then show ?thesis using e Cons.prems(3) epoch_at_Cons [OF Cons.prems(1), of offset] by simp
    next
      case (Some x)
      then show ?thesis
        using e y Cons.prems(3) epoch_at_Cons [OF Cons.prems(1), of offset] epoch_at_mem [OF Some] by fastforce
    qed
  qed
qed simp




end
