(* ===== verification/Checker.thy ===== *)
theory Checker
  imports Storage Wire
begin

text \<open>
  The checker of \<^verbatim>\<open>src/src/checker/mod.rs\<close>: histories of what clients saw, the delivery contract
  verified on them, and the text file a history is kept in. Ids and offsets are words; texts are
  byte strings.
\<close>

section \<open>Histories and reports\<close>

record produced_record =
  hp_id :: u64
  hp_topic :: string

record consumed_record =
  hc_consumer :: string
  hc_generation :: u64
  hc_topic :: string
  hc_partition :: u32
  hc_offset :: u64
  hc_id :: u64

record history =
  h_produced :: "produced_record list"
  h_consumed :: "consumed_record list"

record report =
  rt_produced_acked :: nat
  rt_consumed_total :: nat
  rt_distinct_consumed :: nat
  rt_missing_ids :: "u64 list"
  rt_duplicate_deliveries :: nat
  rt_monotonicity_violations :: "string list"
  rt_divergent_offsets :: "string list"
  rt_offset_gaps :: "string list"

definition report_is_ok :: "report \<Rightarrow> bool" where
  "report_is_ok r \<longleftrightarrow> rt_missing_ids r = [] \<and> rt_monotonicity_violations r = [] \<and>
     rt_divergent_offsets r = [] \<and> rt_offset_gaps r = []"

definition history_new :: history where
  "history_new = \<lparr>h_produced = [], h_consumed = []\<rparr>"

definition record_produced :: "u64 \<Rightarrow> string \<Rightarrow> history \<Rightarrow> history" where
  "record_produced rid topic h = h\<lparr>h_produced := h_produced h @ [\<lparr>hp_id = rid, hp_topic = topic\<rparr>]\<rparr>"

definition record_consumed :: "string \<Rightarrow> u64 \<Rightarrow> string \<Rightarrow> u32 \<Rightarrow> u64 \<Rightarrow> u64 \<Rightarrow> history \<Rightarrow> history" where
  "record_consumed consumer generation topic part offset rid h =
     h\<lparr>h_consumed := h_consumed h @ [\<lparr>hc_consumer = consumer, hc_generation = generation,
        hc_topic = topic, hc_partition = part, hc_offset = offset, hc_id = rid\<rparr>]\<rparr>"

definition produced_ids :: "history \<Rightarrow> u64 set" where
  "produced_ids h = set (map hp_id (h_produced h))"

definition consumed_ids :: "history \<Rightarrow> u64 set" where
  "consumed_ids h = set (map hc_id (h_consumed h))"

section \<open>Verification\<close>

definition consumed_count :: "consumed_record list \<Rightarrow> (u64, nat) hashmap" where
  "consumed_count cs =
     fold (\<lambda>c m. hm_insert (hc_id c) ((case hm_get m (hc_id c) of None \<Rightarrow> 0 | Some n \<Rightarrow> n) + 1) m) cs []"

definition missing_ids :: "history \<Rightarrow> u64 list" where
  "missing_ids h = remdups_adj (sort (map hp_id
     (filter (\<lambda>p. hm_get (consumed_count (h_consumed h)) (hp_id p) = None) (h_produced h))))"

definition show_word :: "'a :: len word \<Rightarrow> string" where
  "show_word w = show_nat (unat w)"

text \<open>The stream of a consumed record, and what is reported when it goes back.\<close>

definition stream_key :: "consumed_record \<Rightarrow> string \<times> u64 \<times> string \<times> u32" where
  "stream_key c = (hc_consumer c, hc_generation c, hc_topic c, hc_partition c)"

definition rewind_text :: "consumed_record \<Rightarrow> u64 \<Rightarrow> string" where
  "rewind_text c prev = hc_consumer c @ '' (gen '' @ show_word (hc_generation c) @ '') on '' @ hc_topic c @
     ''-'' @ show_word (hc_partition c) @ '': offset '' @ show_word (hc_offset c) @ '' after '' @ show_word prev"

definition check_monotonic ::
    "consumed_record \<Rightarrow> string list \<times> (string \<times> u64 \<times> string \<times> u32, u64) hashmap \<Rightarrow>
     string list \<times> (string \<times> u64 \<times> string \<times> u32, u64) hashmap" where
  "check_monotonic c = (\<lambda>(violations, last_seen).
     ((case hm_get last_seen (stream_key c) of
         Some prev \<Rightarrow> if hc_offset c \<le> prev then violations @ [rewind_text c prev] else violations
       | None \<Rightarrow> violations),
      hm_insert (stream_key c) (hc_offset c) last_seen))"

definition place_key :: "consumed_record \<Rightarrow> string \<times> u32 \<times> u64" where
  "place_key c = (hc_topic c, hc_partition c, hc_offset c)"

definition divergence_text :: "consumed_record \<Rightarrow> u64 \<Rightarrow> string" where
  "divergence_text c rid = hc_topic c @ ''-'' @ show_word (hc_partition c) @ '' offset '' @ show_word (hc_offset c) @
     '': id '' @ show_word rid @ '' vs id '' @ show_word (hc_id c)"

definition check_divergence ::
    "consumed_record \<Rightarrow> string list \<times> (string \<times> u32 \<times> u64, u64) hashmap \<Rightarrow>
     string list \<times> (string \<times> u32 \<times> u64, u64) hashmap" where
  "check_divergence c = (\<lambda>(divergent, offset_ids).
     (case hm_get offset_ids (place_key c) of
        Some rid \<Rightarrow>
          if rid \<noteq> hc_id c then (divergent @ [divergence_text c rid], offset_ids)
          else (divergent, hm_insert (place_key c) (hc_id c) offset_ids)
      | None \<Rightarrow> (divergent, hm_insert (place_key c) (hc_id c) offset_ids)))"

definition verify :: "history \<Rightarrow> report" where
  "verify h =
     (let counts = consumed_count (h_consumed h)
      in \<lparr>rt_produced_acked = length (h_produced h),
          rt_consumed_total = length (h_consumed h),
          rt_distinct_consumed = length counts,
          rt_missing_ids = missing_ids h,
          rt_duplicate_deliveries = sum_list (map (\<lambda>(_, n). n - 1) counts),
          rt_monotonicity_violations = fst (fold check_monotonic (h_consumed h) ([], [])),
          rt_divergent_offsets = fst (fold check_divergence (h_consumed h) ([], [])),
          rt_offset_gaps = []\<rparr>)"

text \<open>
  The gap-free check. A \<open>HashSet\<close> of offsets is a list without repetition; the sum \<open>max + 1\<close>
  wraps as it does in a release build. \<open>None\<close> stands for the panic of \<open>unwrap\<close>.
\<close>

definition seen_offsets :: "consumed_record list \<Rightarrow> (string \<times> u32, u64 list) hashmap" where
  "seen_offsets cs =
     fold (\<lambda>c m.
       let key = (hc_topic c, hc_partition c);
           offsets = (case hm_get m key of None \<Rightarrow> [] | Some offsets \<Rightarrow> offsets)
       in hm_insert key (List.insert (hc_offset c) offsets) m) cs []"

definition gap_text :: "string \<Rightarrow> u32 \<Rightarrow> u64 list \<Rightarrow> u64 \<Rightarrow> u64 \<Rightarrow> string" where
  "gap_text topic part offsets mx hole =
     topic @ ''-'' @ show_word part @ '': '' @ show_nat (length offsets) @ '' of '' @ show_word (mx + 1) @
     '' offsets consumed, first hole at '' @ show_word hole"

definition offset_gap :: "(string \<times> u32) \<times> u64 list \<Rightarrow> string list option" where
  "offset_gap e =
     (let ((topic, part), offsets) = e;
          mx = fold max (tl offsets) (hd offsets)
      in if word_of_nat (length offsets) \<noteq> mx + 1 then
           map_option (\<lambda>hole. [gap_text topic part offsets mx hole])
             (find (\<lambda>o'. o' \<notin> set offsets) (map word_of_nat [0..<unat mx + 1]))
         else Some [])"

definition verify_from_start :: "history \<Rightarrow> report option" where
  "verify_from_start h =
     map_option (\<lambda>gaps. (verify h)\<lparr>rt_offset_gaps := sort (concat gaps)\<rparr>)
       (those (map offset_gap (seen_offsets (h_consumed h))))"

section \<open>The history file\<close>

definition produced_line :: "produced_record \<Rightarrow> string" where
  "produced_line p = ''P '' @ show_word (hp_id p) @ '' '' @ hp_topic p"

definition consumed_line :: "consumed_record \<Rightarrow> string" where
  "consumed_line c = ''C '' @ hc_consumer c @ '' '' @ show_word (hc_generation c) @ '' '' @ hc_topic c @
     '' '' @ show_word (hc_partition c) @ '' '' @ show_word (hc_offset c) @ '' '' @ show_word (hc_id c)"

definition newline :: char where "newline = CHR 0x0A"

definition history_save :: "string \<Rightarrow> history \<Rightarrow> disk \<Rightarrow> storage_error + disk" where
  "history_save path h d =
     fs_append path (as_bytes (concat (map (\<lambda>l. l @ [newline])
       (map produced_line (h_produced h) @ map consumed_line (h_consumed h))))) (fs_create path d)"

text \<open>\<open>BufRead::lines\<close>: a line ends at a newline, with the carriage return before it if there is one.\<close>

function split_lines :: "string \<Rightarrow> string list" where
  "split_lines s =
     (if s = [] then []
      else
        let line = takeWhile (\<lambda>c. c \<noteq> newline) s; rest = dropWhile (\<lambda>c. c \<noteq> newline) s
        in if rest = [] then [line]
           else (if line \<noteq> [] \<and> last line = CHR 0x0D then butlast line else line) # split_lines (tl rest))"
  by auto
termination
proof (relation "measure length")
  fix s line rest :: string
  assume "s \<noteq> []" "rest = dropWhile (\<lambda>c. c \<noteq> newline) s"
  moreover have "length (dropWhile (\<lambda>c. c \<noteq> newline) s) \<le> length s" by (rule length_dropWhile_le)
  ultimately show "(tl rest, s) \<in> measure length" by (cases s) auto
qed simp

declare split_lines.simps [simp del]

text \<open>The UTF-8 encodings of the characters that are white space for \<open>split_whitespace\<close>.\<close>

definition white_codes :: "nat list list" where
  "white_codes = [[9], [10], [11], [12], [13], [32], [0xC2, 0x85], [0xC2, 0xA0], [0xE1, 0x9A, 0x80]] @
     map (\<lambda>n. [0xE2, 0x80, n]) [0x80, 0x81, 0x82, 0x83, 0x84, 0x85, 0x86, 0x87, 0x88, 0x89, 0x8A, 0xA8, 0xA9, 0xAF] @
     [[0xE2, 0x81, 0x9F], [0xE3, 0x80, 0x80]]"

definition white_len :: "string \<Rightarrow> nat" where
  "white_len s =
     (case find (\<lambda>w. take (length w) (map of_char s) = w) white_codes of None \<Rightarrow> 0 | Some w \<Rightarrow> length w)"

fun split_words :: "string \<Rightarrow> string \<Rightarrow> string list" where
  "split_words word [] = (if word = [] then [] else [word])"
| "split_words word (c # s) =
     (if white_len (c # s) = 0 then split_words (word @ [c]) s
      else (if word = [] then [] else [word]) @ split_words [] (drop (white_len (c # s) - 1) s))"

definition split_whitespace :: "string \<Rightarrow> string list" where
  "split_whitespace s = split_words [] s"

text \<open>\<open>parse\<close> for a field, with the error of the line.\<close>

definition bad_line :: "string \<Rightarrow> string" where
  "bad_line line = ''malformed history line: '' @ line"

definition parse_field :: "string \<Rightarrow> string \<Rightarrow> string + 'a :: len word" where
  "parse_field line s =
     (case parse_uint LENGTH('a) s of Inl _ \<Rightarrow> Inl (bad_line line) | Inr n \<Rightarrow> Inr (word_of_nat n))"

definition load_line :: "string \<Rightarrow> history \<Rightarrow> string + history" where
  "load_line line h =
     (if \<not> valid_utf8 (map of_char line) then Inl ''stream did not contain valid UTF-8''
      else case split_whitespace line of
        [] \<Rightarrow> Inr h
      | [tag, rid, topic] \<Rightarrow>
          if tag = ''P'' then bind_r (parse_field line rid) (\<lambda>rid. Inr (record_produced rid topic h))
          else Inl (bad_line line)
      | [tag, consumer, generation, topic, part, offset, rid] \<Rightarrow>
          if tag = ''C'' then
            bind_r (parse_field line generation) (\<lambda>generation.
            bind_r (parse_field line part) (\<lambda>part.
            bind_r (parse_field line offset) (\<lambda>offset.
            bind_r (parse_field line rid) (\<lambda>rid.
            Inr (record_consumed consumer generation topic part offset rid h)))))
          else Inl (bad_line line)
      | _ \<Rightarrow> Inl (bad_line line))"

fun load_lines :: "string list \<Rightarrow> history \<Rightarrow> string + history" where
  "load_lines [] h = Inr h"
| "load_lines (line # ls) h = bind_r (load_line line h) (load_lines ls)"

definition history_load :: "string \<Rightarrow> disk \<Rightarrow> string + history" where
  "history_load path d =
     (case fs_read path d of
        Inl _ \<Rightarrow> Inl ''No such file or directory''
      | Inr bs \<Rightarrow> load_lines (split_lines (str_of_bytes bs)) history_new)"

end
