(* ===== verification/CheckerProperties.thy ===== *)
theory CheckerProperties
  imports Checker
begin

text \<open>
  The checker decides the delivery contract it claims to decide, and the history file keeps
  the history.
\<close>

section \<open>The contract\<close>

text \<open>Every acknowledged id was consumed.\<close>

definition at_least_once :: "history \<Rightarrow> bool" where
  "at_least_once h \<longleftrightarrow> produced_ids h \<subseteq> consumed_ids h"

text \<open>The offsets of a stream, in the order in which its consumer saw them.\<close>

definition stream :: "string \<times> u64 \<times> string \<times> u32 \<Rightarrow> consumed_record list \<Rightarrow> u64 list" where
  "stream key cs = map hc_offset (filter (\<lambda>c. stream_key c = key) cs)"

definition streams_ascend :: "history \<Rightarrow> bool" where
  "streams_ascend h \<longleftrightarrow> (\<forall>key. sorted_wrt (<) (stream key (h_consumed h)))"

text \<open>One place in the log shows one id to everybody.\<close>

definition one_truth :: "history \<Rightarrow> bool" where
  "one_truth h \<longleftrightarrow>
     (\<forall>c \<in> set (h_consumed h). \<forall>d \<in> set (h_consumed h). place_key c = place_key d \<longrightarrow> hc_id c = hc_id d)"

text \<open>Every offset below a consumed one was consumed.\<close>

definition gap_free :: "history \<Rightarrow> bool" where
  "gap_free h \<longleftrightarrow>
     (\<forall>c \<in> set (h_consumed h). \<forall>o' \<le> hc_offset c.
        (hc_topic c, hc_partition c, o') \<in> place_key ` set (h_consumed h))"

section \<open>Counting\<close>

lemma consumed_count_snoc:
  "consumed_count (cs @ [c]) =
     hm_insert (hc_id c) ((case hm_get (consumed_count cs) (hc_id c) of None \<Rightarrow> 0 | Some n \<Rightarrow> n) + 1)
       (consumed_count cs)"
  by (simp add: consumed_count_def)

lemma update_sum:
  "hm_wf m \<Longrightarrow> sum_list (map snd (AList.update k v m)) + (case hm_get m k of None \<Rightarrow> 0 | Some n \<Rightarrow> n) =
     sum_list (map snd m) + (v :: nat)"
  by (induction m) (auto simp: image_iff split: option.splits dest: map_of_SomeD)

lemma consumed_count_ok:
  "hm_wf (consumed_count cs) \<and> fst ` set (consumed_count cs) = set (map hc_id cs) \<and>
   (\<forall>e \<in> set (consumed_count cs). 0 < snd e) \<and> sum_list (map snd (consumed_count cs)) = length cs"
proof (induction cs rule: rev_induct)
  case (snoc c cs)
  let ?m = "consumed_count cs" and ?old = "case hm_get (consumed_count cs) (hc_id c) of None \<Rightarrow> 0 | Some n \<Rightarrow> n"
  have "sum_list (map snd (consumed_count (cs @ [c]))) + ?old = sum_list (map snd ?m) + (?old + 1)"
    using update_sum [of ?m "hc_id c" "?old + 1"] snoc by (simp add: consumed_count_snoc)
  moreover have "fst ` set (consumed_count (cs @ [c])) = set (map hc_id (cs @ [c]))"
    using snoc dom_update [of "hc_id c" "?old + 1" ?m] by (simp add: consumed_count_snoc)
  moreover have "0 < snd e" if "e \<in> set (consumed_count (cs @ [c]))" for e
  proof (cases e)
    case (Pair k v)
    have "hm_wf (consumed_count (cs @ [c]))" using snoc by (simp add: consumed_count_snoc)
    then have "hm_get (consumed_count (cs @ [c])) k = Some v" using that Pair by simp
    then show ?thesis
      using Pair snoc by (auto simp: consumed_count_snoc split: if_splits dest: map_of_SomeD)
  qed
  ultimately show ?case using snoc by (simp add: consumed_count_snoc)
qed (simp add: consumed_count_def)

lemma sum_pred:
  "\<forall>e \<in> set m. 0 < snd e \<Longrightarrow> sum_list (map (\<lambda>(_, n). n - 1) m) + length m = sum_list (map snd (m :: ('k \<times> nat) list))"
  by (induction m) auto

text \<open>The counts of the report, and the acknowledged ids nobody consumed.\<close>

lemma verify_counts:
  "rt_distinct_consumed (verify h) = card (consumed_ids h)"
  "rt_duplicate_deliveries (verify h) + rt_distinct_consumed (verify h) = rt_consumed_total (verify h)"
proof -
  let ?m = "consumed_count (h_consumed h)"
  note ok = consumed_count_ok [of "h_consumed h"]
  have "length ?m = card (fst ` set ?m)"
    using ok distinct_card [of "map fst ?m"] by simp
  then show "rt_distinct_consumed (verify h) = card (consumed_ids h)"
    using ok by (simp add: verify_def consumed_ids_def Let_def)
  show "rt_duplicate_deliveries (verify h) + rt_distinct_consumed (verify h) = rt_consumed_total (verify h)"
    using ok sum_pred [of ?m] by (simp add: verify_def Let_def)
qed

lemma missing_ids_ok:
  "set (missing_ids h) = produced_ids h - consumed_ids h"
  "sorted_wrt (<) (missing_ids h)"
proof -
  have "hm_get (consumed_count (h_consumed h)) k = None \<longleftrightarrow> k \<notin> consumed_ids h" for k
    using consumed_count_ok [of "h_consumed h"] by (simp add: consumed_ids_def map_of_eq_None_iff)
  then show "set (missing_ids h) = produced_ids h - consumed_ids h"
    by (auto simp: missing_ids_def produced_ids_def)
  show "sorted_wrt (<) (missing_ids h)"
    by (simp add: missing_ids_def strict_sorted_iff distinct_remdups_adj_sorted)
qed

section \<open>The scans\<close>

lemma monotonic_scan:
  "hm_get (snd (fold check_monotonic cs ([], []))) key =
     (if stream key cs = [] then None else Some (last (stream key cs))) \<and>
   (fst (fold check_monotonic cs ([], [])) = [] \<longleftrightarrow> (\<forall>k. sorted_wrt (<) (stream k cs)))"
proof (induction cs arbitrary: key rule: rev_induct)
  case (snoc c cs)
  obtain v seen where s: "fold check_monotonic cs ([], []) = (v, seen)" by fastforce
  let ?k = "stream_key c"
  have get: "hm_get seen k = (if stream k cs = [] then None else Some (last (stream k cs)))" for k
    using snoc [of k] s by simp
  have v: "v = [] \<longleftrightarrow> (\<forall>k. sorted_wrt (<) (stream k cs))" using snoc s by simp
  have st: "stream k (cs @ [c]) = (if k = ?k then stream k cs @ [hc_offset c] else stream k cs)" for k
    by (simp add: stream_def)
  have app: "sorted_wrt (<) (xs @ [x]) \<longleftrightarrow> sorted_wrt (<) xs \<and> (xs = [] \<or> last xs < x)" for xs and x :: u64
    by (cases xs rule: rev_cases) (auto simp: sorted_wrt_append)
  have "(\<forall>k. sorted_wrt (<) (stream k (cs @ [c]))) \<longleftrightarrow>
      (\<forall>k. sorted_wrt (<) (stream k cs)) \<and> (stream ?k cs = [] \<or> last (stream ?k cs) < hc_offset c)"
    (is "?l \<longleftrightarrow> ?r")
  proof
    assume l: ?l
    have "sorted_wrt (<) (stream k cs)" for k
      using l [rule_format, of k] by (cases "k = ?k") (simp_all add: st app)
    then show ?r using l [rule_format, of ?k] by (simp add: st app)
  next
    assume r: ?r
    show ?l
    proof
      fix k show "sorted_wrt (<) (stream k (cs @ [c]))"
        using r spec [of "\<lambda>k. sorted_wrt (<) (stream k cs)" k] by (cases "k = ?k") (simp_all add: st app)
    qed
  qed
  with v have "(\<forall>k. sorted_wrt (<) (stream k (cs @ [c]))) \<longleftrightarrow>
      v = [] \<and> (stream ?k cs = [] \<or> last (stream ?k cs) < hc_offset c)" by (simp only:)
  moreover have "fold check_monotonic (cs @ [c]) ([], []) = check_monotonic c (v, seen)" by (simp add: s)
  moreover have "fst (check_monotonic c (v, seen)) = [] \<longleftrightarrow>
      v = [] \<and> (stream ?k cs = [] \<or> last (stream ?k cs) < hc_offset c)"
    by (auto simp: check_monotonic_def get not_le dest: leD)
  moreover have "hm_get (snd (check_monotonic c (v, seen))) key =
      (if stream key (cs @ [c]) = [] then None else Some (last (stream key (cs @ [c]))))"
    by (simp add: check_monotonic_def get st)
  ultimately show ?case by simp
qed (simp add: stream_def)

lemma divergence_scan:
  "hm_get (snd (fold check_divergence cs ([], []))) key = map_option hc_id (find (\<lambda>c. place_key c = key) cs) \<and>
   (fst (fold check_divergence cs ([], [])) = [] \<longleftrightarrow>
     (\<forall>c \<in> set cs. map_option hc_id (find (\<lambda>d. place_key d = place_key c) cs) = Some (hc_id c)))"
proof (induction cs arbitrary: key rule: rev_induct)
  case (snoc c cs)
  obtain v ids where s: "fold check_divergence cs ([], []) = (v, ids)" by fastforce
  let ?first = "\<lambda>k. find (\<lambda>d. place_key d = k) cs"
  have get: "hm_get ids k = map_option hc_id (?first k)" for k using snoc [of k] s by simp
  have v: "v = [] \<longleftrightarrow> (\<forall>d \<in> set cs. map_option hc_id (?first (place_key d)) = Some (hc_id d))"
    using snoc s by simp
  have f: "find P (xs @ [x]) = (case find P xs of None \<Rightarrow> if P x then Some x else None | Some y \<Rightarrow> Some y)"
    for P xs and x :: consumed_record by (induction xs) auto
  have some: "?first (place_key d) \<noteq> None" if "d \<in> set cs" for d
    using that by (auto simp: find_None_iff)
  have "(\<forall>d \<in> set (cs @ [c]). map_option hc_id (find (\<lambda>e. place_key e = place_key d) (cs @ [c])) = Some (hc_id d)) \<longleftrightarrow>
      v = [] \<and> (?first (place_key c) = None \<or> map_option hc_id (?first (place_key c)) = Some (hc_id c))"
    (is "?all \<longleftrightarrow> ?r")
  proof -
    have old: "find (\<lambda>e. place_key e = place_key d) (cs @ [c]) = ?first (place_key d)" if "d \<in> set cs" for d
      using some [OF that] by (auto simp: f)
    have "?all \<longleftrightarrow> (\<forall>d \<in> set cs. map_option hc_id (?first (place_key d)) = Some (hc_id d)) \<and>
        map_option hc_id (find (\<lambda>e. place_key e = place_key c) (cs @ [c])) = Some (hc_id c)"
      using old by auto
    then show ?thesis unfolding v by (auto simp: f split: option.splits)
  qed
  moreover have "fold check_divergence (cs @ [c]) ([], []) = check_divergence c (v, ids)" by (simp add: s)
  moreover have "fst (check_divergence c (v, ids)) = [] \<longleftrightarrow>
      v = [] \<and> (?first (place_key c) = None \<or> map_option hc_id (?first (place_key c)) = Some (hc_id c))"
    by (cases "?first (place_key c)") (simp_all add: check_divergence_def get)
  moreover have "hm_get (snd (check_divergence c (v, ids))) key = map_option hc_id (find (\<lambda>c. place_key c = key) (cs @ [c]))"
    by (cases "?first (place_key c)"; cases "key = place_key c")
      (auto simp: check_divergence_def get f split: option.split)
  ultimately show ?case by simp
qed simp

lemma divergence_ok: "rt_divergent_offsets (verify h) = [] \<longleftrightarrow> one_truth h"
proof -
  let ?cs = "h_consumed h"
  have "(\<forall>c \<in> set ?cs. map_option hc_id (find (\<lambda>d. place_key d = place_key c) ?cs) = Some (hc_id c)) \<longleftrightarrow> one_truth h"
  proof
    assume a: "\<forall>c \<in> set ?cs. map_option hc_id (find (\<lambda>d. place_key d = place_key c) ?cs) = Some (hc_id c)"
    show "one_truth h"
      unfolding one_truth_def
    proof (intro ballI impI)
      fix c d assume "c \<in> set ?cs" "d \<in> set ?cs" "place_key c = place_key d"
      then have "Some (hc_id c) = Some (hc_id d)"
        using a [rule_format, of c] a [rule_format, of d] by simp
      then show "hc_id c = hc_id d" by simp
    qed
  next
    assume o: "one_truth h"
    show "\<forall>c \<in> set ?cs. map_option hc_id (find (\<lambda>d. place_key d = place_key c) ?cs) = Some (hc_id c)"
    proof
      fix c assume c: "c \<in> set ?cs"
      then obtain d where d: "find (\<lambda>d. place_key d = place_key c) ?cs = Some d"
        by (metis (mono_tags, lifting) find_None_iff option.exhaust)
      then have "d \<in> set ?cs" "place_key d = place_key c" using find_SomeD by fast+
      then have "hc_id d = hc_id c" using c o unfolding one_truth_def by blast
      then show "map_option hc_id (find (\<lambda>d. place_key d = place_key c) ?cs) = Some (hc_id c)" by (simp add: d)
    qed
  qed
  then show ?thesis using divergence_scan [of ?cs] by (simp add: verify_def Let_def)
qed

text \<open>Without gaps of its own, \<open>verify\<close> decides the rest of the contract.\<close>

lemma verify_ok: "report_is_ok (verify h) \<longleftrightarrow> at_least_once h \<and> streams_ascend h \<and> one_truth h"
proof -
  have "rt_missing_ids (verify h) = [] \<longleftrightarrow> at_least_once h"
    using missing_ids_ok(1) [of h] unfolding set_empty [symmetric]
    by (simp add: verify_def at_least_once_def Let_def)
  moreover have "rt_monotonicity_violations (verify h) = [] \<longleftrightarrow> streams_ascend h"
    using monotonic_scan [of "h_consumed h"] by (simp add: verify_def streams_ascend_def Let_def)
  moreover have "rt_offset_gaps (verify h) = []" by (simp add: verify_def Let_def)
  ultimately show ?thesis by (simp add: report_is_ok_def divergence_ok)
qed

section \<open>Gaps\<close>

lemma seen_offsets_snoc:
  "seen_offsets (cs @ [c]) =
     (let key = (hc_topic c, hc_partition c)
      in hm_insert key (List.insert (hc_offset c)
           (case hm_get (seen_offsets cs) key of None \<Rightarrow> [] | Some offsets \<Rightarrow> offsets)) (seen_offsets cs))"
  by (simp add: seen_offsets_def Let_def)

text \<open>The offsets consumed of one partition.\<close>

definition offsets_of :: "string \<times> u32 \<Rightarrow> consumed_record list \<Rightarrow> u64 set" where
  "offsets_of key cs = hc_offset ` {c \<in> set cs. (hc_topic c, hc_partition c) = key}"

lemma seen_offsets_ok:
  "hm_wf (seen_offsets cs) \<and>
   (hm_get (seen_offsets cs) key = None \<longrightarrow> offsets_of key cs = {}) \<and>
   (\<forall>offsets. hm_get (seen_offsets cs) key = Some offsets \<longrightarrow>
      offsets \<noteq> [] \<and> distinct offsets \<and> set offsets = offsets_of key cs)"
proof (induction cs arbitrary: key rule: rev_induct)
  case (snoc c cs)
  have o: "offsets_of k (cs @ [c]) =
      (if (hc_topic c, hc_partition c) = k then insert (hc_offset c) (offsets_of k cs) else offsets_of k cs)" for k
    by (auto simp: offsets_of_def)
  let ?k = "(hc_topic c, hc_partition c)"
  let ?old = "case hm_get (seen_offsets cs) ?k of None \<Rightarrow> [] | Some offsets \<Rightarrow> offsets"
  have old: "distinct ?old" "set ?old = offsets_of ?k cs"
    using snoc [of ?k] by (cases "hm_get (seen_offsets cs) ?k"; simp)+
  have ne: "List.insert x xs \<noteq> []" for x and xs :: "u64 list" by (auto simp: List.insert_def)
  have m: "seen_offsets (cs @ [c]) = hm_insert ?k (List.insert (hc_offset c) ?old) (seen_offsets cs)"
    by (simp add: seen_offsets_snoc Let_def)
  show ?case
  proof (cases "key = ?k")
    case True
    have "hm_get (seen_offsets (cs @ [c])) key = Some (List.insert (hc_offset c) ?old)" by (simp add: m True)
    then show ?thesis using snoc [of key] old ne by (simp add: o True) (simp add: m)
  next
    case False
    have "hm_get (seen_offsets (cs @ [c])) key = hm_get (seen_offsets cs) key" unfolding m using False by simp
    then show ?thesis using snoc [of key] False by (simp add: o) (simp add: m)
  qed
qed (simp add: seen_offsets_def offsets_of_def)

lemma unat_less_u64: "unat (w :: u64) < 2 ^ LENGTH(64)"
  by (rule unsigned_less)

lemma words_upto: "{w :: u64. w \<le> mx} = word_of_nat ` {..unat mx}"
proof (intro set_eqI iffI)
  fix w assume "w \<in> {w. w \<le> mx}"
  then have "unat w \<le> unat mx" "w = word_of_nat (unat w)" by (simp_all add: word_le_nat_alt)
  then show "w \<in> word_of_nat ` {..unat mx}" by blast
next
  fix w assume "w \<in> (word_of_nat :: nat \<Rightarrow> u64) ` {..unat mx}"
  then obtain n where "n \<le> unat mx" "w = word_of_nat n" by blast
  moreover then have "n < 2 ^ LENGTH(64)" using unat_less_u64 [of mx] by simp
  ultimately show "w \<in> {w. w \<le> mx}" by (simp add: word_le_nat_alt unat_of_nat_len)
qed

lemma card_words_upto: "card {w :: u64. w \<le> mx} = unat mx + 1"
proof -
  have "inj_on (word_of_nat :: nat \<Rightarrow> u64) {..unat mx}"
  proof (rule inj_onI)
    fix a b assume ab: "a \<in> {..unat mx}" "b \<in> {..unat mx}" "word_of_nat a = (word_of_nat b :: u64)"
    have "a < 2 ^ LENGTH(64)" "b < 2 ^ LENGTH(64)" using ab unat_less_u64 [of mx] by auto
    then show "a = b" using ab(3) by (metis unat_of_nat_len)
  qed
  then show ?thesis by (simp add: words_upto card_image)
qed

lemma wrapped_length:
  fixes mx :: u64
  assumes "1 \<le> n" and "n \<le> unat mx + 1"
  shows "word_of_nat n = mx + 1 \<longleftrightarrow> n = unat mx + 1"
proof
  assume "word_of_nat n = mx + 1"
  then have "word_of_nat n = (word_of_nat (unat mx + 1) :: u64)" by simp
  then have "unat (word_of_nat n :: u64) = unat (word_of_nat (unat mx + 1) :: u64)" by (simp only:)
  moreover have "unat (word_of_nat m :: u64) = m mod 2 ^ 64" for m by (simp add: unat_of_nat)
  ultimately have eq: "n mod 2 ^ 64 = (unat mx + 1) mod 2 ^ 64" by metis
  show "n = unat mx + 1"
  proof (cases "unat mx + 1 < 2 ^ 64")
    case True
    then show ?thesis using eq assms by simp
  next
    case False
    then have "unat mx + 1 = 2 ^ 64" using unat_less_u64 [of mx] by simp
    then show ?thesis using eq assms by (cases "n = 2 ^ 64") auto
  qed
next
  assume "n = unat mx + 1"
  then show "word_of_nat n = mx + 1" by simp
qed

lemma offset_gap_ok:
  assumes "offsets \<noteq> []" and "distinct offsets"
  shows "\<exists>gaps. offset_gap (key, offsets) = Some gaps \<and>
    (gaps = [] \<longleftrightarrow> (\<forall>o1 \<in> set offsets. \<forall>o' \<le> o1. o' \<in> set offsets))"
proof -
  obtain x xs where x: "offsets = x # xs" using assms(1) by (cases offsets) auto
  let ?S = "set offsets"
  define mx where "mx = Max ?S"
  have mx: "fold max (tl offsets) (hd offsets) = mx" by (simp only: mx_def x Max.set_eq_fold list.sel)
  have in_S: "mx \<in> ?S" and le: "?S \<subseteq> {w. w \<le> mx}" using assms(1) by (auto simp: mx_def)
  have fin: "finite {w. w \<le> mx}" by simp
  have n: "length offsets = card ?S" using assms(2) by (simp add: distinct_card)
  then have "length offsets \<le> unat mx + 1" using card_mono [OF fin le] by (simp add: card_words_upto)
  moreover have "1 \<le> length offsets" using x by simp
  ultimately have "word_of_nat (length offsets) = mx + 1 \<longleftrightarrow> length offsets = unat mx + 1"
    by (rule wrapped_length [rotated])
  also have "\<dots> \<longleftrightarrow> ?S = {w. w \<le> mx}"
    using card_subset_eq [OF fin le] by (auto simp: n card_words_upto)
  finally have full: "word_of_nat (length offsets) = mx + 1 \<longleftrightarrow> ?S = {w. w \<le> mx}" .
  have closed: "(\<forall>o1 \<in> ?S. \<forall>o' \<le> o1. o' \<in> ?S) \<longleftrightarrow> ?S = {w. w \<le> mx}"
  proof
    assume "\<forall>o1 \<in> ?S. \<forall>o' \<le> o1. o' \<in> ?S"
    then show "?S = {w. w \<le> mx}" using in_S le by blast
  next
    assume "?S = {w. w \<le> mx}"
    then show "\<forall>o1 \<in> ?S. \<forall>o' \<le> o1. o' \<in> ?S" by auto
  qed
  have "find (\<lambda>o'. o' \<notin> ?S) (map word_of_nat [0..<unat mx + 1]) = None \<longleftrightarrow> {w. w \<le> mx} \<subseteq> ?S"
    by (auto simp: find_None_iff words_upto atMost_upto)
  then have "find (\<lambda>o'. o' \<notin> ?S) (map word_of_nat [0..<unat mx + 1]) \<noteq> None" if "?S \<noteq> {w. w \<le> mx}"
    using that le by blast
  then show ?thesis
    using full closed by (cases key) (auto simp: offset_gap_def mx Let_def)
qed

lemma those_map_Some:
  "(\<And>x. x \<in> set xs \<Longrightarrow> \<exists>y. f x = Some y) \<Longrightarrow> those (map f xs) = Some (map (the \<circ> f) xs)"
  by (induction xs) fastforce+

lemma place_iff: "(topic, part, o') \<in> place_key ` set cs \<longleftrightarrow> o' \<in> offsets_of (topic, part) cs"
  by (auto simp: offsets_of_def place_key_def image_iff)

lemma gap_free_iff:
  "gap_free h \<longleftrightarrow> (\<forall>key. \<forall>o1 \<in> offsets_of key (h_consumed h). \<forall>o' \<le> o1. o' \<in> offsets_of key (h_consumed h))"
  unfolding gap_free_def place_iff by (auto simp: offsets_of_def)

lemma gap_lines:
  "\<exists>gaps. those (map offset_gap (seen_offsets (h_consumed h))) = Some gaps \<and> (concat gaps = [] \<longleftrightarrow> gap_free h)"
proof -
  let ?m = "seen_offsets (h_consumed h)" and ?o = "\<lambda>key. offsets_of key (h_consumed h)"
  have wf: "hm_wf ?m" using seen_offsets_ok by blast
  have entry: "offsets \<noteq> [] \<and> distinct offsets \<and> set offsets = ?o key" if "(key, offsets) \<in> set ?m" for key offsets
    using seen_offsets_ok [of "h_consumed h" key] that wf by simp
  have gap: "\<exists>gaps. offset_gap e = Some gaps \<and> (gaps = [] \<longleftrightarrow> (\<forall>o1 \<in> ?o (fst e). \<forall>o' \<le> o1. o' \<in> ?o (fst e)))"
    if "e \<in> set ?m" for e
    using entry [of "fst e" "snd e"] offset_gap_ok [of "snd e" "fst e"] that by simp
  have t: "those (map offset_gap ?m) = Some (map (the \<circ> offset_gap) ?m)"
    by (rule those_map_Some) (use gap in blast)
  have cover: "?o key = {} \<or> (\<exists>e \<in> set ?m. fst e = key)" for key
    using seen_offsets_ok [of "h_consumed h" key] by (metis fst_conv map_of_SomeD not_None_eq)
  have "concat (map (the \<circ> offset_gap) ?m) = [] \<longleftrightarrow> (\<forall>e \<in> set ?m. the (offset_gap e) = [])" by simp
  also have "\<dots> \<longleftrightarrow> (\<forall>e \<in> set ?m. \<forall>o1 \<in> ?o (fst e). \<forall>o' \<le> o1. o' \<in> ?o (fst e))"
    using gap by (metis option.sel)
  also have "\<dots> \<longleftrightarrow> gap_free h" unfolding gap_free_iff using cover by (metis empty_iff)
  finally show ?thesis using t by blast
qed

text \<open>What each part of the report says.\<close>

lemma verdict:
  "\<exists>r. verify_from_start h = Some r \<and> (rt_monotonicity_violations r = [] \<longleftrightarrow> streams_ascend h) \<and>
     (rt_divergent_offsets r = [] \<longleftrightarrow> one_truth h) \<and> (rt_offset_gaps r = [] \<longleftrightarrow> gap_free h) \<and>
     rt_missing_ids r = missing_ids h \<and> rt_duplicate_deliveries r = rt_duplicate_deliveries (verify h) \<and>
     (report_is_ok r \<longleftrightarrow> at_least_once h \<and> streams_ascend h \<and> one_truth h \<and> gap_free h)"
proof -
  obtain gaps where g: "those (map offset_gap (seen_offsets (h_consumed h))) = Some gaps"
    "concat gaps = [] \<longleftrightarrow> gap_free h" using gap_lines by blast
  let ?r = "(verify h)\<lparr>rt_offset_gaps := sort (concat gaps)\<rparr>"
  have r: "verify_from_start h = Some ?r" by (simp add: verify_from_start_def g(1))
  have "sort (concat gaps) = [] \<longleftrightarrow> concat gaps = []" by (metis set_empty set_sort)
  then have gaps: "rt_offset_gaps ?r = [] \<longleftrightarrow> gap_free h" using g(2) by simp
  moreover have "rt_offset_gaps (verify h) = []" by (simp add: verify_def Let_def)
  ultimately have "report_is_ok ?r = (report_is_ok (verify h) \<and> gap_free h)"
    by (auto simp: report_is_ok_def)
  moreover have "rt_missing_ids (verify h) = missing_ids h" by (simp add: verify_def Let_def)
  moreover have "rt_monotonicity_violations (verify h) = [] \<longleftrightarrow> streams_ascend h"
    using monotonic_scan [of "h_consumed h"] by (simp add: verify_def streams_ascend_def Let_def)
  ultimately show ?thesis using r gaps verify_ok [of h] divergence_ok [of h] by auto
qed

text \<open>
  C26. The checker decides its contract, for every history: \<open>verify_from_start\<close> returns a report,
  which is clean exactly when every acknowledged id was consumed, the offsets of every stream
  ascend, no place of a log showed two ids, and no offset below a consumed one was skipped. The
  report lists exactly the lost ids, in order, and counts the deliveries beyond the first.
\<close>

theorem checker_decides_contract:
  "\<exists>r. verify_from_start h = Some r \<and>
     (report_is_ok r = (at_least_once h \<and> streams_ascend h \<and> one_truth h \<and> gap_free h)) \<and>
     set (rt_missing_ids r) = produced_ids h - consumed_ids h \<and> sorted_wrt (<) (rt_missing_ids r) \<and>
     rt_duplicate_deliveries r + card (consumed_ids h) = length (h_consumed h)"
proof -
  have "rt_consumed_total (verify h) = length (h_consumed h)" by (simp add: verify_def Let_def)
  then show ?thesis using verdict [of h] missing_ids_ok [of h] verify_counts [of h] by auto
qed

end
