(* ===== verification/HistoryFile.thy ===== *)
theory HistoryFile
  imports Checker
begin

text \<open>
  The history file: lines and fields are split again the way they were written, whatever bytes
  the names hold, as long as they are UTF-8 without white space.
\<close>

section \<open>White space\<close>

definition no_white :: "string \<Rightarrow> bool" where
  "no_white s \<longleftrightarrow> (\<forall>i < length s. white_len (drop i s) = 0)"

lemma white_codes_nonempty: "[] \<notin> set white_codes"
  by (auto simp: white_codes_def)

lemma white_len_0: "white_len s = 0 \<longleftrightarrow> (\<forall>w \<in> set white_codes. take (length w) (map of_char s) \<noteq> w)"
proof (cases "find (\<lambda>w. take (length w) (map of_char s) = w) white_codes")
  case None
  then have "\<forall>w \<in> set white_codes. take (length w) (map of_char s) \<noteq> w" by (simp add: find_None_iff)
  moreover have "white_len s = 0" using None by (simp add: white_len_def)
  ultimately show ?thesis by blast
next
  case (Some w)
  then have "w \<in> set white_codes \<and> take (length w) (map of_char s) = w" by (rule find_SomeD)
  moreover then have "w \<noteq> []" using white_codes_nonempty by auto
  ultimately show ?thesis using Some by (auto simp: white_len_def)
qed

lemma white_tails: "w \<in> set white_codes \<Longrightarrow> 32 \<notin> set (tl w)"
  by (auto simp: white_codes_def)

lemma white_len_blank: "white_len (CHR '' '' # s) = 1"
  by (simp add: white_len_def white_codes_def)

text \<open>A blank after a character does not make it white.\<close>

lemma white_len_before_blank:
  assumes "white_len (c # s) = 0"
  shows "white_len (c # s @ CHR '' '' # t) = 0"
  unfolding white_len_0
proof (intro ballI notI)
  fix w :: "nat list" assume w: "w \<in> set white_codes" "take (length w) (map of_char (c # s @ CHR '' '' # t)) = w"
  show False
  proof (cases "length w \<le> length (c # s)")
    case True
    moreover have "map of_char (c # s @ CHR '' '' # t) = map of_char (c # s) @ map of_char (CHR '' '' # t)" by simp
    ultimately have "take (length w) (map of_char (c # s)) = w"
      using w(2) by (metis append_Nil2 diff_is_0_eq' length_map take0 take_append)
    then show False using assms w(1) unfolding white_len_0 by blast
  next
    case False
    then have "w ! length (c # s) = map of_char (c # s @ CHR '' '' # t) ! length (c # s)"
      using w(2) by (metis nth_take not_le)
    also have "\<dots> = 32" by (simp add: nth_append)
    finally have "tl w ! length s = 32" "length s < length (tl w)" using False by (cases w; simp)+
    then show False using white_tails [OF w(1)] by (metis nth_mem)
  qed
qed

lemma no_white_Cons: "no_white (c # s) \<longleftrightarrow> white_len (c # s) = 0 \<and> no_white s"
  by (auto simp: no_white_def less_Suc_eq_0_disj)

lemma no_white_chars:
  assumes "no_white s" and "c \<in> set s"
  shows "c \<noteq> newline" and "c \<noteq> CHR 0x0D"
proof -
  have "white_len (CHR 0x0A # t) = 1" "white_len (CHR 0x0D # t) = 1" for t
    by (simp_all add: white_len_def white_codes_def)
  moreover have "\<exists>t. white_len (c # t) = 0"
    using assms by (induction s) (auto simp: no_white_Cons)
  ultimately show "c \<noteq> newline" and "c \<noteq> CHR 0x0D" by (auto simp: newline_def)
qed

lemma ascii_visible:
  assumes "32 < (of_char c :: nat)" and "(of_char c :: nat) < 128"
  shows "white_len (c # s) = 0"
  unfolding white_len_0 using assms by (auto simp: white_codes_def)

lemma no_white_digits: "list_all is_digit s \<Longrightarrow> no_white s"
  by (induction s) (auto simp: no_white_Cons is_digit_def intro!: ascii_visible, simp add: no_white_def)

lemma no_white_show [simp]: "no_white (show_word w)"
  by (simp add: show_word_def no_white_digits show_nat_digits)

section \<open>Fields\<close>

lemma split_words_blank:
  "no_white s \<Longrightarrow> word @ s \<noteq> [] \<Longrightarrow> split_words word (s @ CHR '' '' # t) = (word @ s) # split_words [] t"
proof (induction s arbitrary: word)
  case Nil
  then show ?case by (simp add: white_len_blank)
next
  case (Cons c s)
  have "white_len (c # s @ CHR '' '' # t) = 0"
    using Cons.prems(1) by (simp add: no_white_Cons white_len_before_blank)
  then show ?case using Cons.IH [of "word @ [c]"] Cons.prems(1) by (simp add: no_white_Cons)
qed

lemma split_words_end: "no_white s \<Longrightarrow> word @ s \<noteq> [] \<Longrightarrow> split_words word s = [word @ s]"
proof (induction s arbitrary: word)
  case (Cons c s)
  then show ?case using Cons.IH [of "word @ [c]"] by (simp add: no_white_Cons)
qed simp

section \<open>Lines\<close>

lemma split_lines_Nil [simp]: "split_lines [] = []"
  by (simp add: split_lines.simps)

lemma split_lines_newline:
  assumes "newline \<notin> set l" and "l = [] \<or> last l \<noteq> CHR 0x0D"
  shows "split_lines (l @ newline # t) = l # split_lines t"
proof -
  have "takeWhile (\<lambda>c. c \<noteq> newline) (l @ newline # t) = l" "dropWhile (\<lambda>c. c \<noteq> newline) (l @ newline # t) = newline # t"
    using assms(1) by (induction l) auto
  then show ?thesis using assms(2) by (subst split_lines.simps) (auto simp: Let_def)
qed

lemma split_lines_concat:
  assumes "\<And>l. l \<in> set ls \<Longrightarrow> newline \<notin> set l \<and> (l = [] \<or> last l \<noteq> CHR 0x0D)"
  shows "split_lines (concat (map (\<lambda>l. l @ [newline]) ls)) = ls"
  using assms by (induction ls) (auto simp: split_lines_newline)

section \<open>UTF-8\<close>

lemma valid_utf8_append: "valid_utf8 xs \<Longrightarrow> valid_utf8 ys \<Longrightarrow> valid_utf8 (xs @ ys)"
  by (induction xs rule: valid_utf8.induct) (auto split: if_splits list.splits)

lemma valid_utf8_text: "list_all (\<lambda>c. (of_char c :: nat) < 128) s \<Longrightarrow> valid_utf8 (map of_char s)"
  by (rule valid_utf8_ascii) (simp add: list_all_iff)

lemma valid_utf8_show [simp]: "valid_utf8 (map of_char (show_word w))"
  by (rule valid_utf8_text)
    (use show_nat_digits in \<open>fastforce simp: show_word_def list_all_iff is_digit_def\<close>)

section \<open>Reading back\<close>

definition good_name :: "string \<Rightarrow> bool" where
  "good_name s \<longleftrightarrow> s \<noteq> [] \<and> no_white s \<and> valid_utf8 (map of_char s)"

lemma parse_field_show [simp]: "parse_field line (show_word w) = Inr w"
  using unsigned_less [of w] by (simp add: parse_field_def show_word_def)

lemma show_word_nonempty [simp]: "show_word w \<noteq> []"
  by (simp add: show_word_def)

lemma load_produced_line:
  assumes "good_name (hp_topic p)"
  shows "load_line (produced_line p) h = Inr (h\<lparr>h_produced := h_produced h @ [p]\<rparr>)"
proof -
  have n: "no_white ''P''" by (simp add: no_white_Cons ascii_visible) (simp add: no_white_def)
  have "split_whitespace (produced_line p) = [''P'', show_word (hp_id p), hp_topic p]"
    using assms split_words_blank [OF n, of "[]"]
    by (simp add: split_whitespace_def produced_line_def good_name_def split_words_blank split_words_end
      del: split_words.simps)
  moreover have "valid_utf8 (map of_char (produced_line p))"
    using assms unfolding produced_line_def map_append
    by (intro valid_utf8_append) (simp_all add: good_name_def)
  ultimately show ?thesis by (simp add: load_line_def record_produced_def)
qed

lemma load_consumed_line:
  assumes "good_name (hc_consumer c)" and "good_name (hc_topic c)"
  shows "load_line (consumed_line c) h = Inr (h\<lparr>h_consumed := h_consumed h @ [c]\<rparr>)"
proof -
  have n: "no_white ''C''" by (simp add: no_white_Cons ascii_visible) (simp add: no_white_def)
  have "split_whitespace (consumed_line c) = [''C'', hc_consumer c, show_word (hc_generation c), hc_topic c,
      show_word (hc_partition c), show_word (hc_offset c), show_word (hc_id c)]"
    using assms split_words_blank [OF n, of "[]"]
    by (simp add: split_whitespace_def consumed_line_def good_name_def split_words_blank split_words_end
      del: split_words.simps)
  moreover have "valid_utf8 (map of_char (consumed_line c))"
    using assms unfolding consumed_line_def map_append
    by (intro valid_utf8_append) (simp_all add: good_name_def)
  ultimately show ?thesis by (simp add: load_line_def record_consumed_def)
qed

lemma load_lines_append: "load_lines (xs @ ys) h = bind_r (load_lines xs h) (load_lines ys)"
  by (induction xs arbitrary: h) (auto simp: bind_r_def split: sum.splits)

lemma load_produced_lines:
  "(\<And>p. p \<in> set ps \<Longrightarrow> good_name (hp_topic p)) \<Longrightarrow>
     load_lines (map produced_line ps) h = Inr (h\<lparr>h_produced := h_produced h @ ps\<rparr>)"
  by (induction ps arbitrary: h) (auto simp: load_produced_line)

lemma load_consumed_lines:
  "(\<And>c. c \<in> set cs \<Longrightarrow> good_name (hc_consumer c) \<and> good_name (hc_topic c)) \<Longrightarrow>
     load_lines (map consumed_line cs) h = Inr (h\<lparr>h_consumed := h_consumed h @ cs\<rparr>)"
  by (induction cs arbitrary: h) (auto simp: load_consumed_line)

lemma clean_line:
  assumes "l = x @ y" and "newline \<notin> set x" and "no_white y" and "y \<noteq> []"
  shows "newline \<notin> set l \<and> (l = [] \<or> last l \<noteq> CHR 0x0D)"
  using assms no_white_chars [OF assms(3)] last_in_set [OF assms(4)] by auto

lemma newline_show: "newline \<notin> set (show_word w)"
  using no_white_chars(1) no_white_show by blast

lemma history_lines_clean:
  "good_name (hp_topic p) \<Longrightarrow> newline \<notin> set (produced_line p) \<and> (produced_line p = [] \<or> last (produced_line p) \<noteq> CHR 0x0D)"
  "good_name (hc_consumer c) \<Longrightarrow> good_name (hc_topic c) \<Longrightarrow>
     newline \<notin> set (consumed_line c) \<and> (consumed_line c = [] \<or> last (consumed_line c) \<noteq> CHR 0x0D)"
proof -
  have g: "newline \<notin> set s" if "good_name s" for s using that no_white_chars(1) by (auto simp: good_name_def)
  have b: "newline \<notin> set '' ''" "newline \<notin> set ''P ''" "newline \<notin> set ''C ''" by (simp_all add: newline_def)
  show "newline \<notin> set (produced_line p) \<and> (produced_line p = [] \<or> last (produced_line p) \<noteq> CHR 0x0D)"
    if "good_name (hp_topic p)"
    by (rule clean_line [of _ "''P '' @ show_word (hp_id p) @ '' ''" "hp_topic p"])
      (use that b in \<open>auto simp: newline_show produced_line_def good_name_def\<close>)
  show "newline \<notin> set (consumed_line c) \<and> (consumed_line c = [] \<or> last (consumed_line c) \<noteq> CHR 0x0D)"
    if "good_name (hc_consumer c)" "good_name (hc_topic c)"
    by (rule clean_line [of _ "''C '' @ hc_consumer c @ '' '' @ show_word (hc_generation c) @ '' '' @ hc_topic c @
          '' '' @ show_word (hc_partition c) @ '' '' @ show_word (hc_offset c) @ '' ''" "show_word (hc_id c)"])
      (use that b g in \<open>auto simp: newline_show consumed_line_def\<close>)
qed

text \<open>
  A history saved to a file and loaded from it is the same history, if its names are
  non-empty UTF-8 without white space; ids, generations, partitions and offsets may be any.
\<close>

theorem history_round_trip:
  assumes "\<And>p. p \<in> set (h_produced h) \<Longrightarrow> good_name (hp_topic p)"
    and "\<And>c. c \<in> set (h_consumed h) \<Longrightarrow> good_name (hc_consumer c) \<and> good_name (hc_topic c)"
  shows "\<exists>d'. history_save path h d = Inr d' \<and> history_load path d' = Inr h"
proof -
  let ?ls = "map produced_line (h_produced h) @ map consumed_line (h_consumed h)"
  have "split_lines (concat (map (\<lambda>l. l @ [newline]) ?ls)) = ?ls"
    by (rule split_lines_concat) (use assms history_lines_clean in auto)
  moreover have "load_lines ?ls history_new = Inr h"
    using assms by (simp add: load_lines_append load_produced_lines load_consumed_lines history_new_def)
  ultimately show ?thesis
    by (simp add: history_save_def history_load_def fs_append_def fs_create_def fs_read_def)
qed

text \<open>A history with an acknowledged record read by two consumers.\<close>

definition sample_history :: history where
  "sample_history =
     \<lparr>h_produced = [\<lparr>hp_id = 7, hp_topic = ''t''\<rparr>],
      h_consumed = [
        \<lparr>hc_consumer = ''c1'', hc_generation = 1, hc_topic = ''t'', hc_partition = 0, hc_offset = 0, hc_id = 7\<rparr>,
        \<lparr>hc_consumer = ''c2'', hc_generation = 1, hc_topic = ''t'', hc_partition = 0, hc_offset = 0, hc_id = 7\<rparr>]\<rparr>"

theorem history_round_trip_witness:
  "\<exists>d'. history_save ''h'' sample_history [] = Inr d' \<and> history_load ''h'' d' = Inr sample_history"
proof (rule history_round_trip)
  have *: "good_name ''t''" "good_name ''c1''" "good_name ''c2''"
    by (simp_all add: good_name_def no_white_Cons ascii_visible) (simp_all add: no_white_def)
  show "good_name (hp_topic p)" if "p \<in> set (h_produced sample_history)" for p
    using that * by (auto simp: sample_history_def)
  show "good_name (hc_consumer c) \<and> good_name (hc_topic c)" if "c \<in> set (h_consumed sample_history)" for c
    using that * by (auto simp: sample_history_def)
qed

end
