(* ===== verification/Broker.thy ===== *)
theory Broker
  imports PartitionActor Offsets ConsumerGroups Replica
begin

text \<open>
  The broker of \<^verbatim>\<open>src/src/broker/mod.rs\<close>: its data directory, the topics of a standalone broker,
  metadata, and the routing of requests. A partition is the writer of theory \<open>PartitionActor\<close>,
  a directory of the data directory is the disk of that writer, and what \<open>dispatch\<close> leaves to
  a spawned task is a value that says what the task waits for and how it answers.
\<close>

section \<open>State\<close>

datatype broker_error =
    BrokerStorage storage_error
  | BrokerLayout string
  | OffsetsReplay error_code

record broker_config =
  bc_log :: log_config
  bc_broker_id :: u32
  bc_clustered :: bool
  bc_min_insync :: nat
  bc_replica_lag_ms :: nat

definition standalone :: "log_config \<Rightarrow> broker_config" where
  "standalone cfg = \<lparr>bc_log = cfg, bc_broker_id = 0, bc_clustered = False, bc_min_insync = 2,
     bc_replica_lag_ms = 2000\<rparr>"

definition clustered :: "log_config \<Rightarrow> u32 \<Rightarrow> broker_config" where
  "clustered cfg broker_id = (standalone cfg)\<lparr>bc_clustered := True, bc_broker_id := broker_id\<rparr>"

text \<open>
  \<open>sh_dirs\<close> holds the directories whose partition is not open. A replica is kept with the writer
  of its partition.
\<close>

record shared =
  sh_advertised :: string
  sh_dirs :: "(string, disk) hashmap"
  sh_topics :: "(string, actor list) hashmap"
  sh_offsets :: offsets_store
  sh_groups :: coordinator
  sh_replicas :: "(string \<times> u32, replica \<times> actor) hashmap"
  sh_cluster_meta :: cluster_meta

section \<open>The data directory\<close>

definition partition_dir :: "string \<Rightarrow> nat \<Rightarrow> string" where
  "partition_dir topic p = topic @ ''-'' @ show_nat p"

text \<open>\<open>name.rsplit_once('-')\<close>\<close>

definition rsplit_dash :: "string \<Rightarrow> (string \<times> string) option" where
  "rsplit_dash name =
     (case dropWhile (\<lambda>c. c \<noteq> CHR ''-'') (rev name) of
        [] \<Rightarrow> None
      | _ # topic \<Rightarrow> Some (rev topic, rev (takeWhile (\<lambda>c. c \<noteq> CHR ''-'') (rev name))))"

text \<open>The loop over the entries of the directory; an entry is its name and whether it is a directory.\<close>

fun scan_entries :: "(string \<times> bool) list \<Rightarrow> (string, nat list) hashmap \<Rightarrow> broker_error + (string, nat list) hashmap" where
  "scan_entries [] ps = Inr ps"
| "scan_entries ((name, is_dir) # es) ps =
     (if take 1 name = ''.'' then scan_entries es ps
      else if \<not> is_dir then Inl (BrokerLayout (''unexpected file '' @ name @ '' in data dir''))
      else case rsplit_dash name of
        None \<Rightarrow> Inl (BrokerLayout (''directory '' @ name @ '' is not <topic>-<partition>''))
      | Some (topic, digits) \<Rightarrow>
          (case parse_uint 64 digits of
             Inl _ \<Rightarrow> Inl (BrokerLayout (''directory '' @ name @ '' has a non-numeric partition suffix''))
           | Inr p \<Rightarrow>
               scan_entries es
                 (hm_insert topic ((case hm_get ps topic of None \<Rightarrow> [] | Some l \<Rightarrow> l) @ [p]) ps)))"

text \<open>The debug format of a vector of integers.\<close>

fun show_list_tail :: "nat list \<Rightarrow> string" where
  "show_list_tail [] = '']''"
| "show_list_tail (n # ns) = '', '' @ show_nat n @ show_list_tail ns"

definition show_list :: "nat list \<Rightarrow> string" where
  "show_list ns = (case ns of [] \<Rightarrow> ''[]'' | n # ns \<Rightarrow> ''['' @ show_nat n @ show_list_tail ns)"

text \<open>The loop over the topics: the partitions of a topic are 0, 1, 2 and so on.\<close>

fun scan_topics :: "(string \<times> nat list) list \<Rightarrow> broker_error + (string \<times> u32) list" where
  "scan_topics [] = Inr []"
| "scan_topics ((topic, ps) # ts) =
     (let ps = sort ps
      in if ps \<noteq> [0..<length ps] then
           Inl (BrokerLayout (''topic '' @ topic @ '' partitions are not contiguous from 0: '' @ show_list ps))
         else bind_r (scan_topics ts) (\<lambda>out. Inr ((topic, word_of_nat (length ps)) # out)))"

definition scan_data_dir :: "(string \<times> bool) list \<Rightarrow> broker_error + (string \<times> u32) list" where
  "scan_data_dir entries = bind_r (scan_entries entries []) scan_topics"

section \<open>Topics of a standalone broker\<close>

definition name_char :: "char \<Rightarrow> bool" where
  "name_char c \<longleftrightarrow>
     (let n = (of_char c :: nat)
      in (48 \<le> n \<and> n \<le> 57) \<or> (65 \<le> n \<and> n \<le> 90) \<or> (97 \<le> n \<and> n \<le> 122)) \<or>
     c = CHR ''-'' \<or> c = CHR ''_'' \<or> c = CHR ''.''"

definition valid_topic_name :: "string \<Rightarrow> bool" where
  "valid_topic_name name \<longleftrightarrow>
     name \<noteq> [] \<and> length name \<le> 200 \<and> take 2 name \<noteq> ''__'' \<and> list_all name_char name"

definition topic_partitions :: "broker_config \<Rightarrow> shared \<Rightarrow> string \<Rightarrow> u32 option" where
  "topic_partitions cfg s topic =
     (if bc_clustered cfg then
        map_option (\<lambda>t. word_of_nat (length (tm_partitions t)))
          (find (\<lambda>t. tm_name t = topic) (cm_topics (sh_cluster_meta s)))
      else map_option (\<lambda>ps. word_of_nat (length ps)) (hm_get (sh_topics s) topic))"

definition partition_of :: "shared \<Rightarrow> string \<Rightarrow> u32 \<Rightarrow> actor option" where
  "partition_of s topic part =
     (case hm_get (sh_topics s) topic of
        None \<Rightarrow> None
      | Some ps \<Rightarrow> if unat part < length ps then Some (ps ! unat part) else None)"

text \<open>The writer of a partition starts on its directory, which is created if it is missing.\<close>

definition spawn_dir ::
    "(bytes \<Rightarrow> u32) \<Rightarrow> log_config \<Rightarrow> nat \<Rightarrow> string \<Rightarrow> (string, disk) hashmap \<Rightarrow>
     storage_error + actor \<times> (string, disk) hashmap" where
  "spawn_dir crc cfg now dir dirs =
     bind_r (actor_spawn crc cfg now (case hm_get dirs dir of None \<Rightarrow> [] | Some d \<Rightarrow> d))
       (\<lambda>a. Inr (a, hm_remove dir dirs))"

text \<open>
  The loop that opens the partitions \<open>p\<close>, \<open>p + 1\<close> and so on of a topic, \<open>n\<close> in all. Where one
  cannot be opened, the writers started before it flush and end: their directories are left.
\<close>

fun spawn_partitions ::
    "(bytes \<Rightarrow> u32) \<Rightarrow> log_config \<Rightarrow> nat \<Rightarrow> string \<Rightarrow> nat \<Rightarrow> nat \<Rightarrow> (string, disk) hashmap \<Rightarrow>
     (storage_error + actor list) \<times> (string, disk) hashmap" where
  "spawn_partitions crc cfg now topic p 0 dirs = (Inr [], dirs)"
| "spawn_partitions crc cfg now topic p (Suc n) dirs =
     (case spawn_dir crc cfg now (partition_dir topic p) dirs of
        Inl e \<Rightarrow> (Inl e, dirs)
      | Inr (a, dirs) \<Rightarrow>
          (case spawn_partitions crc cfg now topic (p + 1) n dirs of
             (Inl e, dirs) \<Rightarrow>
               (Inl e, hm_insert (partition_dir topic p) (ac_disk (fst (actor_disconnected now a))) dirs)
           | (Inr as', dirs) \<Rightarrow> (Inr (a # as'), dirs)))"

definition broker_create_topic ::
    "(bytes \<Rightarrow> u32) \<Rightarrow> broker_config \<Rightarrow> nat \<Rightarrow> string \<Rightarrow> u32 \<Rightarrow> shared \<Rightarrow> shared \<times> error_code" where
  "broker_create_topic crc cfg now topic partitions s =
     (if \<not> valid_topic_name topic \<or> partitions = 0 \<or> partitions > 1024 then (s, MalformedErr)
      else if hm_get (sh_topics s) topic \<noteq> None then (s, TopicExists)
      else case spawn_partitions crc (bc_log cfg) now topic 0 (unat partitions) (sh_dirs s) of
        (Inl _, dirs) \<Rightarrow> (s\<lparr>sh_dirs := dirs\<rparr>, StorageErr)
      | (Inr handles, dirs) \<Rightarrow>
          (s\<lparr>sh_dirs := dirs, sh_topics := hm_insert topic handles (sh_topics s)\<rparr>, NoError))"

text \<open>Metadata of a standalone broker, topics in the order of their names.\<close>

definition standalone_partition :: "nat \<Rightarrow> partition_meta" where
  "standalone_partition p =
     \<lparr>pm_partition = word_of_nat p, pm_leader = 0, pm_leader_epoch = 0, pm_replicas = [0], pm_isr = [0]\<rparr>"

definition broker_metadata :: "shared \<Rightarrow> cluster_meta" where
  "broker_metadata s =
     \<lparr>cm_version = 0, cm_brokers = [(0, sh_advertised s)], cm_peers = [(0, sh_advertised s)],
      cm_topics = sort_key tm_name (map (\<lambda>(name, ps).
        \<lparr>tm_name = name, tm_partitions = map standalone_partition [0..<length ps]\<rparr>) (sh_topics s))\<rparr>"

section \<open>Start\<close>

text \<open>The loop over the topics found; a clustered broker opens only the offsets topic here.\<close>

fun open_topics ::
    "(bytes \<Rightarrow> u32) \<Rightarrow> broker_config \<Rightarrow> nat \<Rightarrow> (string \<times> u32) list \<Rightarrow> (string, disk) hashmap \<Rightarrow>
     storage_error + (string, actor list) hashmap \<times> (string, disk) hashmap" where
  "open_topics crc cfg now [] dirs = Inr ([], dirs)"
| "open_topics crc cfg now ((topic, n) # ts) dirs =
     (if bc_clustered cfg \<and> topic \<noteq> OFFSETS_TOPIC then open_topics crc cfg now ts dirs
      else case spawn_partitions crc (bc_log cfg) now topic 0 (unat n) dirs of
        (Inl e, _) \<Rightarrow> Inl e
      | (Inr handles, dirs) \<Rightarrow>
          bind_r (open_topics crc cfg now ts dirs) (\<lambda>(topics, dirs).
            Inr (hm_insert topic handles topics, dirs)))"

definition broker_start ::
    "(bytes \<Rightarrow> u32) \<Rightarrow> broker_config \<Rightarrow> nat \<Rightarrow> string \<Rightarrow> (string, disk) hashmap \<Rightarrow>
     (broker_error + shared) option" where
  "broker_start crc cfg now addr dirs =
     (case scan_data_dir (map (\<lambda>(name, _). (name, True)) dirs) of
        Inl e \<Rightarrow> Some (Inl e)
      | Inr found \<Rightarrow>
     (case open_topics crc cfg now found dirs of
        Inl e \<Rightarrow> Some (Inl (BrokerStorage e))
      | Inr (topics, dirs) \<Rightarrow>
     (case (case hm_get topics OFFSETS_TOPIC of
              Some (a # _) \<Rightarrow> Inr (a, dirs)
            | _ \<Rightarrow> spawn_dir crc (bc_log cfg) now (partition_dir OFFSETS_TOPIC 0) dirs) of
        Inl e \<Rightarrow> Some (Inl (BrokerStorage e))
      | Inr (a, dirs) \<Rightarrow>
          map_option (\<lambda>r. case r of
              Inl code \<Rightarrow> Inl (OffsetsReplay code)
            | Inr store \<Rightarrow>
                Inr \<lparr>sh_advertised = addr, sh_dirs = dirs, sh_topics = hm_remove OFFSETS_TOPIC topics,
                     sh_offsets = store, sh_groups = coordinator_new, sh_replicas = [],
                     sh_cluster_meta = default_cluster_meta\<rparr>)
            (offsets_open crc (bc_log cfg) a))))"

end
