(* ===== verification/BrokerDispatch.thy ===== *)
theory BrokerDispatch
  imports Broker
begin

text \<open>
  What the broker does with a request and with new metadata (\<open>dispatch\<close>, the fetch handlers,
  \<open>apply_metadata\<close> and a tick of \<open>cluster_runtime\<close> in \<^verbatim>\<open>src/src/broker/mod.rs\<close>).
\<close>

section \<open>Outcomes\<close>

text \<open>Where a command goes.\<close>

datatype place =
    TopicLog string u32
  | ReplicaLog string u32
  | OffsetsLog

text \<open>What the spawned task does with the answer of the partition.\<close>

datatype later =
    AnswerProduce
  | ParkProduce
  | AnswerCommit string string u32 u64
  | AnswerEpochCheck

text \<open>
  What \<open>dispatch\<close> does with a request besides changing the state: answer at once, not answer,
  send a command without or with a task that waits for it, start a long poll, or ask the
  controller.
\<close>

datatype dispatched =
    Respond response
  | NoResponse
  | SendOnly place cmd
  | SendThen place cmd later
  | PollFetch place nat nat nat
  | PollFetchHwm place nat nat nat
  | PollReplicaFetch place u64 nat nat nat
  | CallController request

section \<open>Dispatch\<close>

definition produce_error :: "error_code \<Rightarrow> response" where
  "produce_error error = ProduceResp error 0 0"

definition fetch_error :: "error_code \<Rightarrow> response" where
  "fetch_error error = FetchResp error 0 0 []"

definition replica_error :: "error_code \<Rightarrow> response" where
  "replica_error error = ReplicaFetchResp error 0 0 0 []"

text \<open>An error of a produce is answered unless the client asked for no answer.\<close>

definition unless_silent :: "acks \<Rightarrow> error_code \<Rightarrow> dispatched" where
  "unless_silent acks code = (if acks = AcksNone then NoResponse else Respond (produce_error code))"

definition produce_pairs :: "produce_record list \<Rightarrow> (bytes option \<times> bytes) list" where
  "produce_pairs records = map (\<lambda>r. (pr_key r, pr_value r)) records"

definition dispatch_create_topic ::
    "(bytes \<Rightarrow> u32) \<Rightarrow> broker_config \<Rightarrow> nat \<Rightarrow> string \<Rightarrow> u32 \<Rightarrow> u32 \<Rightarrow> shared \<Rightarrow> shared \<times> dispatched" where
  "dispatch_create_topic crc cfg now topic partitions replication_factor s =
     (if bc_clustered cfg then (s, CallController (CreateTopicReq topic partitions replication_factor))
      else if replication_factor > 1 then (s, Respond (CreateTopicResp MalformedErr))
      else let (s, error) = broker_create_topic crc cfg now topic partitions s
           in (s, Respond (CreateTopicResp error)))"

text \<open>The answer of the task that asked the controller; \<open>None\<close> is an error of the call.\<close>

definition controller_answer :: "response option \<Rightarrow> response" where
  "controller_answer r = (case r of Some (CreateTopicResp error) \<Rightarrow> CreateTopicResp error
     | _ \<Rightarrow> CreateTopicResp StorageErr)"

definition dispatch_produce ::
    "broker_config \<Rightarrow> reply \<Rightarrow> string \<Rightarrow> u32 \<Rightarrow> acks \<Rightarrow> u64 \<Rightarrow> produce_record list \<Rightarrow> shared \<Rightarrow> dispatched" where
  "dispatch_produce cfg reply topic part acks leader_epoch records s =
     (if bc_clustered cfg then
        case hm_get (sh_replicas s) (topic, part) of
          None \<Rightarrow>
            unless_silent acks
              (if list_ex (\<lambda>t. tm_name t = topic) (cm_topics (sh_cluster_meta s)) then NotLeader
               else UnknownTopicOrPartition)
        | Some (rp, _) \<Rightarrow>
            (case produce_precheck (bc_min_insync cfg) leader_epoch acks (rp_state rp) of
               Some code \<Rightarrow> unless_silent acks code
             | None \<Rightarrow>
                 if acks = AcksNone then
                   SendOnly (ReplicaLog topic part) (Append (produce_pairs records) AcksNone None)
                 else if acks \<noteq> AcksAll then
                   SendThen (ReplicaLog topic part) (Append (produce_pairs records) acks (Some reply)) AnswerProduce
                 else
                   SendThen (ReplicaLog topic part) (Append (produce_pairs records) Written (Some reply)) ParkProduce)
      else if leader_epoch \<noteq> 0 then unless_silent acks FencedEpoch
      else case partition_of s topic part of
        None \<Rightarrow> unless_silent acks UnknownTopicOrPartition
      | Some _ \<Rightarrow>
          if acks = AcksNone then
            SendOnly (TopicLog topic part) (Append (produce_pairs records) AcksNone None)
          else SendThen (TopicLog topic part) (Append (produce_pairs records) acks (Some reply)) AnswerProduce)"

definition dispatch_fetch ::
    "broker_config \<Rightarrow> string \<Rightarrow> u32 \<Rightarrow> u64 \<Rightarrow> u32 \<Rightarrow> u32 \<Rightarrow> shared \<Rightarrow> dispatched" where
  "dispatch_fetch cfg topic part offset max_bytes max_wait_ms s =
     (if bc_clustered cfg then
        case hm_get (sh_replicas s) (topic, part) of
          None \<Rightarrow> Respond (fetch_error NotLeader)
        | Some (rp, _) \<Rightarrow>
            if \<not> rs_is_leader (rp_state rp) then Respond (fetch_error NotLeader)
            else PollFetchHwm (ReplicaLog topic part) (unat offset) (unat max_bytes) (unat max_wait_ms)
      else case partition_of s topic part of
        None \<Rightarrow> Respond (fetch_error UnknownTopicOrPartition)
      | Some _ \<Rightarrow> PollFetch (TopicLog topic part) (unat offset) (unat max_bytes) (unat max_wait_ms))"

definition dispatch_commit ::
    "reply \<Rightarrow> string \<Rightarrow> string \<Rightarrow> u32 \<Rightarrow> u64 \<Rightarrow> string \<Rightarrow> u64 \<Rightarrow> shared \<Rightarrow> dispatched" where
  "dispatch_commit reply grp topic part offset member_id generation s =
     (let fence = check_commit grp member_id (unat generation) (sh_groups s)
      in if fence \<noteq> NoError then Respond (CommitOffsetResp fence)
         else SendThen OffsetsLog (commit_cmd grp topic part offset reply) (AnswerCommit grp topic part offset))"

definition dispatch_join ::
    "broker_config \<Rightarrow> nat \<Rightarrow> string \<Rightarrow> string \<Rightarrow> u32 \<Rightarrow> string list \<Rightarrow> shared \<Rightarrow> shared \<times> dispatched" where
  "dispatch_join cfg now grp member_id session_timeout_ms topics s =
     (let (c, outcome) = join now grp member_id session_timeout_ms topics (topic_partitions cfg s) (sh_groups s)
      in (s\<lparr>sh_groups := c\<rparr>,
          Respond (JoinGroupResp NoError (jo_member_id outcome) (word_of_nat (jo_generation outcome))
            (jo_assignment outcome))))"

text \<open>The parked produces a follower's fetch acknowledges come with the outcome.\<close>

definition dispatch_replica_fetch ::
    "broker_config \<Rightarrow> nat \<Rightarrow> string \<Rightarrow> u32 \<Rightarrow> u32 \<Rightarrow> u64 \<Rightarrow> u64 \<Rightarrow> u32 \<Rightarrow> u32 \<Rightarrow> shared \<Rightarrow>
     shared \<times> all_answer list \<times> dispatched" where
  "dispatch_replica_fetch cfg now topic part follower leader_epoch offset max_bytes max_wait_ms s =
     (case hm_get (sh_replicas s) (topic, part) of
        None \<Rightarrow> (s, [], Respond (replica_error NotLeader))
      | Some (rp, a) \<Rightarrow>
          (case replica_fetch now (bc_broker_id cfg) (ac_watch a) follower leader_epoch (unat offset) rp of
             (rp, out, Some code) \<Rightarrow> (s, out, Respond (replica_error code))
           | (rp, out, None) \<Rightarrow>
               (s\<lparr>sh_replicas := hm_insert (topic, part) (rp, a) (sh_replicas s)\<rparr>, out,
                PollReplicaFetch (ReplicaLog topic part) leader_epoch (unat offset) (unat max_bytes)
                  (unat max_wait_ms))))"

definition dispatch_epoch_check :: "reply \<Rightarrow> string \<Rightarrow> u32 \<Rightarrow> u64 \<Rightarrow> shared \<Rightarrow> dispatched" where
  "dispatch_epoch_check reply topic part epoch s =
     (case hm_get (sh_replicas s) (topic, part) of
        None \<Rightarrow> Respond (EpochCheckResp NotLeader 0)
      | Some (rp, _) \<Rightarrow>
          if \<not> rs_is_leader (rp_state rp) then Respond (EpochCheckResp NotLeader 0)
          else SendThen (ReplicaLog topic part) (EpochEndFor epoch reply) AnswerEpochCheck)"

definition dispatch ::
    "(bytes \<Rightarrow> u32) \<Rightarrow> broker_config \<Rightarrow> nat \<Rightarrow> reply \<Rightarrow> request \<Rightarrow> shared \<Rightarrow> shared \<times> all_answer list \<times> dispatched" where
  "dispatch crc cfg now reply req s =
     (case req of
        CreateTopicReq topic partitions replication_factor \<Rightarrow>
          let (s, d) = dispatch_create_topic crc cfg now topic partitions replication_factor s in (s, [], d)
      | MetadataReq \<Rightarrow>
          (s, [], Respond (MetadataResp NoError
            (if bc_clustered cfg then sh_cluster_meta s else broker_metadata s)))
      | ProduceReq topic part acks leader_epoch records \<Rightarrow>
          (s, [], dispatch_produce cfg reply topic part acks leader_epoch records s)
      | FetchReq topic part offset max_bytes max_wait_ms \<Rightarrow>
          (s, [], dispatch_fetch cfg topic part offset max_bytes max_wait_ms s)
      | CommitOffsetReq grp topic part offset member_id generation \<Rightarrow>
          (s, [], dispatch_commit reply grp topic part offset member_id generation s)
      | FetchOffsetReq grp topic part \<Rightarrow>
          (s, [], Respond (FetchOffsetResp NoError
            (case offsets_fetch grp topic part (sh_offsets s) of None \<Rightarrow> - 1 | Some offset \<Rightarrow> offset)))
      | JoinGroupReq grp member_id session_timeout_ms topics \<Rightarrow>
          let (s, d) = dispatch_join cfg now grp member_id session_timeout_ms topics s in (s, [], d)
      | HeartbeatReq grp member_id generation \<Rightarrow>
          let (c, error) = heartbeat now grp member_id (unat generation) (sh_groups s)
          in (s\<lparr>sh_groups := c\<rparr>, [], Respond (HeartbeatResp error))
      | LeaveGroupReq grp member_id \<Rightarrow>
          let (c, error) = leave grp member_id (topic_partitions cfg s) (sh_groups s)
          in (s\<lparr>sh_groups := c\<rparr>, [], Respond (LeaveGroupResp error))
      | ReplicaFetchReq topic part follower leader_epoch offset max_bytes max_wait_ms \<Rightarrow>
          dispatch_replica_fetch cfg now topic part follower leader_epoch offset max_bytes max_wait_ms s
      | EpochCheckReq topic part epoch \<Rightarrow> (s, [], dispatch_epoch_check reply topic part epoch s)
      | RegisterBrokerReq _ _ _ \<Rightarrow> (s, [], Respond (RegisterBrokerResp MalformedErr 0))
      | BrokerHeartbeatReq _ _ \<Rightarrow> (s, [], Respond (BrokerHeartbeatResp MalformedErr 0))
      | AlterIsrReq _ _ _ _ \<Rightarrow> (s, [], Respond (AlterIsrResp MalformedErr 0))
      | ControllerMetadataReq \<Rightarrow> (s, [], Respond (ControllerMetadataResp MalformedErr default_cluster_meta)))"

section \<open>The tasks\<close>

text \<open>The answer of a produce, once the partition has answered or the parked acknowledgement came.\<close>

definition finish_produce :: "append_result \<Rightarrow> response" where
  "finish_produce r =
     (case r of
        Inr (base_offset, count) \<Rightarrow> ProduceResp NoError (word_of_nat base_offset) (word_of_nat count)
      | Inl error \<Rightarrow> produce_error error)"

text \<open>
  An acks=all produce after its append: an answer, or its entry in the queue of the replica. A
  wait of 15 seconds without an answer is answered \<open>NotEnoughReplicas\<close>.
\<close>

definition finish_append ::
    "broker_config \<Rightarrow> reply \<Rightarrow> append_result \<Rightarrow> replica \<times> actor \<Rightarrow>
     replica \<times> all_answer list \<times> response option" where
  "finish_append cfg reply r ra =
     (case r of
        Inl error \<Rightarrow> (fst ra, [], Some (produce_error error))
      | Inr (base, count) \<Rightarrow>
          if count = 0 then (fst ra, [], Some (ProduceResp NoError (word_of_nat base) (word_of_nat count)))
          else let (rp, out) = park_all (bc_broker_id cfg) (ac_watch (snd ra)) base count reply (fst ra)
               in (rp, out, None))"

definition finish_park :: "append_result option \<Rightarrow> response" where
  "finish_park r = (case r of Some r \<Rightarrow> finish_produce r | None \<Rightarrow> produce_error NotEnoughReplicas)"

definition finish_commit ::
    "string \<Rightarrow> string \<Rightarrow> u32 \<Rightarrow> u64 \<Rightarrow> append_result \<Rightarrow> shared \<Rightarrow> shared \<times> response" where
  "finish_commit grp topic part offset r s =
     (let (store, error) = commit_reply grp topic part offset r (sh_offsets s)
      in (s\<lparr>sh_offsets := store\<rparr>, CommitOffsetResp error))"

definition finish_epoch_check :: "error_code + nat \<Rightarrow> response" where
  "finish_epoch_check r =
     (case r of Inr end_offset \<Rightarrow> EpochCheckResp NoError (word_of_nat end_offset)
      | Inl error \<Rightarrow> EpochCheckResp error 0)"

definition to_fetched :: "log_record \<Rightarrow> fetched_record" where
  "to_fetched r = \<lparr>fr_offset = lr_offset r, fr_timestamp_ms = lr_timestamp_ms r, fr_key = lr_key r,
     fr_value = lr_value r\<rparr>"

text \<open>
  The long polls, over the rounds of their loops: what each read of the partition answered, and
  whether the deadline had passed or the wait for new records ended without any. The last
  round is answered as it is.
\<close>

fun poll_read :: "(error_code + read_ok) list \<Rightarrow> error_code + read_ok \<Rightarrow> error_code + read_ok" where
  "poll_read [] final = final"
| "poll_read (r # rs) final =
     (case r of
        Inr ok \<Rightarrow> if ro_records ok = [] then poll_read rs final else Inr ok
      | Inl error \<Rightarrow> Inl error)"

definition handle_fetch :: "(error_code + read_ok) list \<Rightarrow> error_code + read_ok \<Rightarrow> response" where
  "handle_fetch rounds final =
     (case poll_read rounds final of
        Inr ok \<Rightarrow> FetchResp NoError (word_of_nat (ro_log_start ok)) (word_of_nat (ro_next_offset ok))
          (map to_fetched (ro_records ok))
      | Inl error \<Rightarrow> fetch_error error)"

definition handle_replica_fetch ::
    "u64 \<Rightarrow> nat \<Rightarrow> (error_code + read_ok) list \<Rightarrow> error_code + read_ok \<Rightarrow> response" where
  "handle_replica_fetch leader_epoch hwm rounds final =
     (case poll_read rounds final of
        Inr ok \<Rightarrow> ReplicaFetchResp NoError leader_epoch (word_of_nat (ro_next_offset ok)) (word_of_nat hwm)
          (map to_fetched (ro_records ok))
      | Inl error \<Rightarrow> ReplicaFetchResp error leader_epoch 0 0 [])"

text \<open>
  A round of a consumer's fetch sees the high watermark, the end of the log and, if it reads,
  the answer of the partition. \<open>final\<close> is the high watermark when the deadline has passed.
\<close>

fun handle_fetch_hwm :: "nat \<Rightarrow> (nat \<times> nat \<times> (error_code + read_ok)) list \<Rightarrow> nat \<Rightarrow> response" where
  "handle_fetch_hwm offset [] final = FetchResp NoError 0 (word_of_nat final) []"
| "handle_fetch_hwm offset ((hwm, log_end, result) # rounds) final =
     (if offset > log_end then FetchResp OffsetOutOfRange 0 (word_of_nat hwm) []
      else if offset < hwm then
        (case result of
           Inr ok \<Rightarrow>
             FetchResp NoError (word_of_nat (ro_log_start ok)) (word_of_nat hwm)
               (map to_fetched (takeWhile (\<lambda>r. unat (lr_offset r) < hwm) (ro_records ok)))
         | Inl error \<Rightarrow> FetchResp error 0 (word_of_nat hwm) [])
      else handle_fetch_hwm offset rounds final)"

section \<open>Metadata\<close>

definition get_or_create_replica ::
    "(bytes \<Rightarrow> u32) \<Rightarrow> broker_config \<Rightarrow> nat \<Rightarrow> string \<times> u32 \<Rightarrow> shared \<Rightarrow>
     storage_error + (replica \<times> actor) \<times> shared" where
  "get_or_create_replica crc cfg now key s =
     (case hm_get (sh_replicas s) key of
        Some ra \<Rightarrow> Inr (ra, s)
      | None \<Rightarrow>
          bind_r (spawn_dir crc (bc_log cfg) now (partition_dir (fst key) (unat (snd key))) (sh_dirs s)) (\<lambda>(a, dirs).
            let ra = (replica_new now, a)
            in Inr (ra, s\<lparr>sh_dirs := dirs, sh_replicas := hm_insert key ra (sh_replicas s)\<rparr>)))"

text \<open>One partition of the metadata; the epoch a new leader records goes to the partition's writer.\<close>

definition apply_one ::
    "(bytes \<Rightarrow> u32) \<Rightarrow> broker_config \<Rightarrow> nat \<Rightarrow> (u32 \<times> string) list \<Rightarrow> string \<times> partition_meta \<Rightarrow> shared \<Rightarrow>
     shared \<times> all_answer list \<times> ((string \<times> u32) \<times> role_action) list" where
  "apply_one crc cfg now addrs tp s =
     (let key = (fst tp, pm_partition (snd tp))
      in if bc_broker_id cfg \<notin> set (pm_replicas (snd tp)) then (s, [], [])
         else case get_or_create_replica crc cfg now key s of
           Inl _ \<Rightarrow> (s, [], [])
         | Inr ((rp, a), s) \<Rightarrow>
             let (rp, out, action) = apply_partition now (bc_broker_id cfg) addrs (snd tp) (ac_watch a) rp;
                 a = (case action of RecordLeaderEpoch epoch \<Rightarrow> actor_record_epoch epoch a | _ \<Rightarrow> a)
             in (s\<lparr>sh_replicas := hm_insert key (rp, a) (sh_replicas s)\<rparr>, out, [(key, action)]))"

fun apply_all ::
    "(bytes \<Rightarrow> u32) \<Rightarrow> broker_config \<Rightarrow> nat \<Rightarrow> (u32 \<times> string) list \<Rightarrow> (string \<times> partition_meta) list \<Rightarrow> shared \<Rightarrow>
     shared \<times> all_answer list \<times> ((string \<times> u32) \<times> role_action) list" where
  "apply_all crc cfg now addrs [] s = (s, [], [])"
| "apply_all crc cfg now addrs (tp # tps) s =
     (let (s, out, actions) = apply_one crc cfg now addrs tp s;
          (s, out', actions') = apply_all crc cfg now addrs tps s
      in (s, out @ out', actions @ actions'))"

definition apply_metadata ::
    "(bytes \<Rightarrow> u32) \<Rightarrow> broker_config \<Rightarrow> nat \<Rightarrow> cluster_meta \<Rightarrow> shared \<Rightarrow>
     shared \<times> all_answer list \<times> ((string \<times> u32) \<times> role_action) list" where
  "apply_metadata crc cfg now meta s =
     apply_all crc cfg now (cm_peers meta @ cm_brokers meta)
       (concat (map (\<lambda>t. map (\<lambda>p. (tm_name t, p)) (tm_partitions t)) (cm_topics meta))) s"

section \<open>The cluster runtime\<close>

text \<open>The variables of \<open>cluster_runtime\<close>: the connection is there or not.\<close>

record runtime =
  rt_connected :: bool
  rt_registered :: bool
  rt_version :: u64

definition runtime_start :: runtime where
  "runtime_start = \<lparr>rt_connected = False, rt_registered = False, rt_version = 0\<rparr>"

text \<open>
  One tick. \<open>connects\<close> says whether a new connection succeeds; the answers of the controller to
  the three calls are given, \<open>None\<close> for an error of the connection. The result has the runtime,
  whether the tick reached the proposals of in-sync sets, and the metadata it applied.
\<close>

definition runtime_tick ::
    "bool \<Rightarrow> bool \<Rightarrow> response option \<Rightarrow> response option \<Rightarrow> response option \<Rightarrow> runtime \<Rightarrow>
     runtime \<times> bool \<times> cluster_meta option" where
  "runtime_tick forced connects on_register on_heartbeat on_metadata rt =
     (if \<not> rt_connected rt \<and> \<not> connects then (rt, False, None)
      else
        let rt = (if rt_connected rt then rt else rt\<lparr>rt_connected := True, rt_registered := False\<rparr>)
        in if \<not> rt_registered rt \<and> 
               \<not> (case on_register of Some (RegisterBrokerResp NoError _) \<Rightarrow> True | _ \<Rightarrow> False) then
             (rt\<lparr>rt_connected := False\<rparr>, False, None)
           else
             let rt = rt\<lparr>rt_registered := True\<rparr>
             in (case on_heartbeat of
                   Some (BrokerHeartbeatResp error remote_version) \<Rightarrow>
                     if error \<noteq> NoError then (rt\<lparr>rt_registered := False\<rparr>, False, None)
                     else if remote_version \<noteq> rt_version rt \<or> forced then
                       (case on_metadata of
                          Some (ControllerMetadataResp NoError cluster) \<Rightarrow>
                            (rt\<lparr>rt_version := cm_version cluster\<rparr>, True, Some cluster)
                        | _ \<Rightarrow> (rt\<lparr>rt_connected := False\<rparr>, False, None))
                     else (rt, True, None)
                 | _ \<Rightarrow> (rt\<lparr>rt_connected := False\<rparr>, False, None)))"

end
