(* ===== verification/BrokerProperties.thy ===== *)
theory BrokerProperties
  imports BrokerDispatch PartitionProperties OffsetsProperties ReplicaProperties
begin

text \<open>
  The properties of the broker: answers of the right kind, what consumers of a replicated
  partition see, and topics found again after a restart.
\<close>

section \<open>Answers\<close>

text \<open>The message types of requests and responses, as their encoders write them.\<close>

definition request_type :: "request \<Rightarrow> u8" where
  "request_type req = (case req of
     CreateTopicReq _ _ _ \<Rightarrow> MSG_CREATE_TOPIC
   | MetadataReq \<Rightarrow> MSG_METADATA
   | ProduceReq _ _ _ _ _ \<Rightarrow> MSG_PRODUCE
   | FetchReq _ _ _ _ _ \<Rightarrow> MSG_FETCH
   | ReplicaFetchReq _ _ _ _ _ _ _ \<Rightarrow> MSG_REPLICA_FETCH
   | EpochCheckReq _ _ _ \<Rightarrow> MSG_EPOCH_CHECK
   | RegisterBrokerReq _ _ _ \<Rightarrow> MSG_REGISTER_BROKER
   | BrokerHeartbeatReq _ _ \<Rightarrow> MSG_BROKER_HEARTBEAT
   | AlterIsrReq _ _ _ _ \<Rightarrow> MSG_ALTER_ISR
   | ControllerMetadataReq \<Rightarrow> MSG_CONTROLLER_METADATA
   | CommitOffsetReq _ _ _ _ _ _ \<Rightarrow> MSG_COMMIT_OFFSET
   | FetchOffsetReq _ _ _ \<Rightarrow> MSG_FETCH_OFFSET
   | JoinGroupReq _ _ _ _ \<Rightarrow> MSG_JOIN_GROUP
   | HeartbeatReq _ _ _ \<Rightarrow> MSG_HEARTBEAT
   | LeaveGroupReq _ _ \<Rightarrow> MSG_LEAVE_GROUP)"

definition response_type :: "response \<Rightarrow> u8" where
  "response_type r = (case r of
     CreateTopicResp _ \<Rightarrow> MSG_CREATE_TOPIC
   | MetadataResp _ _ \<Rightarrow> MSG_METADATA
   | ProduceResp _ _ _ \<Rightarrow> MSG_PRODUCE
   | FetchResp _ _ _ _ \<Rightarrow> MSG_FETCH
   | ReplicaFetchResp _ _ _ _ _ \<Rightarrow> MSG_REPLICA_FETCH
   | EpochCheckResp _ _ \<Rightarrow> MSG_EPOCH_CHECK
   | RegisterBrokerResp _ _ \<Rightarrow> MSG_REGISTER_BROKER
   | BrokerHeartbeatResp _ _ \<Rightarrow> MSG_BROKER_HEARTBEAT
   | AlterIsrResp _ _ \<Rightarrow> MSG_ALTER_ISR
   | ControllerMetadataResp _ _ \<Rightarrow> MSG_CONTROLLER_METADATA
   | CommitOffsetResp _ \<Rightarrow> MSG_COMMIT_OFFSET
   | FetchOffsetResp _ _ \<Rightarrow> MSG_FETCH_OFFSET
   | JoinGroupResp _ _ _ _ \<Rightarrow> MSG_JOIN_GROUP
   | HeartbeatResp _ \<Rightarrow> MSG_HEARTBEAT
   | LeaveGroupResp _ \<Rightarrow> MSG_LEAVE_GROUP)"

definition answers_request :: "request \<Rightarrow> response \<Rightarrow> bool" where
  "answers_request req r \<longleftrightarrow> response_type r = request_type req"

text \<open>The requests that are not answered.\<close>

fun silent :: "request \<Rightarrow> bool" where
  "silent (ProduceReq _ _ acks _ _) = (acks = AcksNone)"
| "silent _ = False"

text \<open>The channel on which a partition answers a command.\<close>

fun cmd_reply :: "cmd \<Rightarrow> reply option" where
  "cmd_reply (Append _ _ reply) = reply"
| "cmd_reply (Read _ _ reply) = Some reply"
| "cmd_reply (AppendReplicated _ reply) = Some reply"
| "cmd_reply (TruncateTo _ reply) = Some reply"
| "cmd_reply (RecordEpoch _) = None"
| "cmd_reply (EpochStatus reply) = Some reply"
| "cmd_reply (EpochEndFor _ reply) = Some reply"

text \<open>Everything a task answers belongs to the request.\<close>

fun task_answers :: "request \<Rightarrow> later \<Rightarrow> bool" where
  "task_answers req AnswerProduce = (\<forall>r. answers_request req (finish_produce r))"
| "task_answers req ParkProduce =
     ((\<forall>cfg reply r ra. pred_option (answers_request req) (snd (snd (finish_append cfg reply r ra)))) \<and>
      (\<forall>r. answers_request req (finish_park r)))"
| "task_answers req (AnswerCommit grp topic part offset) =
     (\<forall>r s. answers_request req (snd (finish_commit grp topic part offset r s)))"
| "task_answers req AnswerEpochCheck = (\<forall>r. answers_request req (finish_epoch_check r))"

text \<open>What has to come out of \<open>dispatch\<close> for a request.\<close>

fun outcome_ok :: "reply \<Rightarrow> request \<Rightarrow> dispatched \<Rightarrow> bool" where
  "outcome_ok reply req (Respond r) = (\<not> silent req \<and> answers_request req r)"
| "outcome_ok reply req NoResponse = silent req"
| "outcome_ok reply req (SendOnly _ c) = (silent req \<and> cmd_reply c = None)"
| "outcome_ok reply req (SendThen _ c l) = (\<not> silent req \<and> cmd_reply c = Some reply \<and> task_answers req l)"
| "outcome_ok reply req (PollFetch _ _ _ _) = (\<forall>rounds final. answers_request req (handle_fetch rounds final))"
| "outcome_ok reply req (PollFetchHwm _ offset _ _) =
     (\<forall>rounds final. answers_request req (handle_fetch_hwm offset rounds final))"
| "outcome_ok reply req (PollReplicaFetch _ epoch _ _ _) =
     (\<forall>hwm rounds final. answers_request req (handle_replica_fetch epoch hwm rounds final))"
| "outcome_ok reply req (CallController r) = (r = req \<and> (\<forall>r'. answers_request req (controller_answer r')))"

lemma finish_kinds:
  "\<exists>o' n. finish_produce r = ProduceResp (case r of Inl e \<Rightarrow> e | Inr _ \<Rightarrow> NoError) o' n"
  "\<exists>e o' n. finish_park r' = ProduceResp e o' n"
  "\<exists>e. snd (finish_commit grp topic part offset r s) = CommitOffsetResp e"
  "\<exists>e o'. finish_epoch_check q = EpochCheckResp e o'"
  "\<exists>e. controller_answer c = CreateTopicResp e"
  "\<exists>e a b rs. handle_fetch rounds final = FetchResp e a b rs"
  "\<exists>e a b rs. handle_fetch_hwm pos hrounds hfinal = FetchResp e a b rs"
  "\<exists>e a b rs. handle_replica_fetch epoch hwm rounds final = ReplicaFetchResp e epoch a b rs"
  by (auto simp: finish_produce_def finish_park_def finish_commit_def finish_epoch_check_def controller_answer_def
    handle_fetch_def handle_replica_fetch_def produce_error_def fetch_error_def
    split: sum.splits option.splits prod.splits response.splits)
    (induction pos hrounds hfinal rule: handle_fetch_hwm.induct, auto split: sum.splits)

lemma finish_append_kind:
  "pred_option (\<lambda>r. \<exists>e o' n. r = ProduceResp e o' n) (snd (snd (finish_append cfg reply r ra)))"
  by (auto simp: finish_append_def produce_error_def split: sum.splits prod.splits)

lemma finish_types [simp]:
  "response_type (finish_produce r) = MSG_PRODUCE"
  "response_type (finish_park r') = MSG_PRODUCE"
  "response_type (snd (finish_commit grp topic part offset r s)) = MSG_COMMIT_OFFSET"
  "response_type (finish_epoch_check q) = MSG_EPOCH_CHECK"
  "response_type (controller_answer c) = MSG_CREATE_TOPIC"
  "response_type (handle_fetch rounds final) = MSG_FETCH"
  "response_type (handle_fetch_hwm pos hrounds hfinal) = MSG_FETCH"
  "response_type (handle_replica_fetch epoch hwm rounds final) = MSG_REPLICA_FETCH"
  "pred_option (\<lambda>r. response_type r = MSG_PRODUCE) (snd (snd (finish_append cfg reply r ra)))"
proof -
  note [simp] = response_type_def
  show "response_type (finish_produce r) = MSG_PRODUCE" using finish_kinds(1) [of r] by auto
  show "response_type (finish_park r') = MSG_PRODUCE" using finish_kinds(2) [of r'] by auto
  show "response_type (snd (finish_commit grp topic part offset r s)) = MSG_COMMIT_OFFSET"
    using finish_kinds(3) [of grp topic part offset r s] by auto
  show "response_type (finish_epoch_check q) = MSG_EPOCH_CHECK" using finish_kinds(4) [of q] by auto
  show "response_type (controller_answer c) = MSG_CREATE_TOPIC" using finish_kinds(5) [of c] by auto
  show "response_type (handle_fetch rounds final) = MSG_FETCH" using finish_kinds(6) [of rounds final] by auto
  show "response_type (handle_fetch_hwm pos hrounds hfinal) = MSG_FETCH"
    using finish_kinds(7) [of pos hrounds hfinal] by auto
  show "response_type (handle_replica_fetch epoch hwm rounds final) = MSG_REPLICA_FETCH"
    using finish_kinds(8) [of epoch hwm rounds final] by auto
  show "pred_option (\<lambda>r. response_type r = MSG_PRODUCE) (snd (snd (finish_append cfg reply r ra)))"
    using finish_append_kind [of cfg reply r ra] by (cases "snd (snd (finish_append cfg reply r ra))") auto
qed

text \<open>The cases of the tests and of the errors.\<close>

lemma answers_simps [simp]:
  "answers_request (ProduceReq topic part acks epoch records) r \<longleftrightarrow> response_type r = MSG_PRODUCE"
  "answers_request (FetchReq topic part offset max_bytes max_wait) r \<longleftrightarrow> response_type r = MSG_FETCH"
  "answers_request (ReplicaFetchReq topic part follower epoch offset max_bytes max_wait) r \<longleftrightarrow>
     response_type r = MSG_REPLICA_FETCH"
  "answers_request (CommitOffsetReq grp topic part offset member_id generation) r \<longleftrightarrow>
     response_type r = MSG_COMMIT_OFFSET"
  "answers_request (EpochCheckReq topic part epoch) r \<longleftrightarrow> response_type r = MSG_EPOCH_CHECK"
  "answers_request (CreateTopicReq topic partitions n) r \<longleftrightarrow> response_type r = MSG_CREATE_TOPIC"
  by (simp_all add: answers_request_def request_type_def)

lemma response_simps [simp]:
  "response_type (produce_error e) = MSG_PRODUCE" "response_type (fetch_error e) = MSG_FETCH"
  "response_type (replica_error e) = MSG_REPLICA_FETCH" "response_type (EpochCheckResp e n) = MSG_EPOCH_CHECK"
  "response_type (CommitOffsetResp e) = MSG_COMMIT_OFFSET" "response_type (CreateTopicResp e) = MSG_CREATE_TOPIC"
  by (simp_all add: response_type_def produce_error_def fetch_error_def replica_error_def)

lemma unless_silent_outcome [simp]:
  "outcome_ok reply (ProduceReq topic part acks epoch records) (unless_silent acks code)"
  by (simp add: unless_silent_def)

lemma send_outcome [simp]:
  "acks \<noteq> AcksNone \<Longrightarrow>
     outcome_ok reply (ProduceReq topic part acks epoch records) (SendThen p (Append kvs acks' (Some reply)) AnswerProduce)"
  "outcome_ok reply (ProduceReq topic part AcksAll epoch records) (SendThen p (Append kvs acks' (Some reply)) ParkProduce)"
  "outcome_ok reply (ProduceReq topic part AcksNone epoch records) (SendOnly p (Append kvs acks' None))"
proof -
  have *: "answers_request (ProduceReq topic part acks epoch records) = (\<lambda>r. response_type r = MSG_PRODUCE)" for acks
    by (rule ext) simp
  show "acks \<noteq> AcksNone \<Longrightarrow>
      outcome_ok reply (ProduceReq topic part acks epoch records) (SendThen p (Append kvs acks' (Some reply)) AnswerProduce)"
    "outcome_ok reply (ProduceReq topic part AcksAll epoch records) (SendThen p (Append kvs acks' (Some reply)) ParkProduce)"
    "outcome_ok reply (ProduceReq topic part AcksNone epoch records) (SendOnly p (Append kvs acks' None))"
    by (simp_all add: *)
qed

lemma produce_outcome:
  "outcome_ok reply (ProduceReq topic part acks epoch records)
     (dispatch_produce cfg reply topic part acks epoch records s)"
proof (cases "bc_clustered cfg")
  case False
  then show ?thesis
    by (cases "partition_of s topic part") (simp_all add: dispatch_produce_def del: outcome_ok.simps)
next
  case True
  show ?thesis
  proof (cases "hm_get (sh_replicas s) (topic, part)")
    case None
    then show ?thesis using True by (simp add: dispatch_produce_def del: outcome_ok.simps)
  next
    case (Some ra)
    obtain rp a where ra: "ra = (rp, a)" by fastforce
    show ?thesis
      using True Some ra
      by (cases "produce_precheck (bc_min_insync cfg) epoch acks (rp_state rp)")
        (simp_all add: dispatch_produce_def del: outcome_ok.simps)
  qed
qed

lemma replica_fetch_outcome:
  "outcome_ok reply (ReplicaFetchReq topic part follower epoch offset max_bytes max_wait)
     (snd (snd (dispatch_replica_fetch cfg now topic part follower epoch offset max_bytes max_wait s)))"
  by (simp add: dispatch_replica_fetch_def split: option.split prod.split)

text \<open>
  C37. Every request but a produce with acks=none is answered, and by a response of its own
  message type: at once, or by the task that waits for the partition, whatever the partition
  answers. A produce with acks=none gets no answer, not even an error, and the partition no
  channel.
\<close>

theorem requests_are_answered_in_kind:
  "outcome_ok reply req (snd (snd (dispatch crc cfg now reply req s)))"
proof (cases req)
  case (CreateTopicReq topic partitions replication_factor)
  then show ?thesis by (simp add: dispatch_def dispatch_create_topic_def split: prod.split)
next
  case (ProduceReq topic part acks epoch records)
  then show ?thesis by (simp add: dispatch_def produce_outcome del: outcome_ok.simps)
next
  case (ReplicaFetchReq topic part follower epoch offset max_bytes max_wait)
  then show ?thesis by (simp add: dispatch_def replica_fetch_outcome del: outcome_ok.simps)
next
  case (FetchReq topic part offset max_bytes max_wait)
  then show ?thesis by (simp add: dispatch_def dispatch_fetch_def split: option.split prod.split)
next
  case (CommitOffsetReq grp topic part offset member_id generation)
  then show ?thesis by (simp add: dispatch_def dispatch_commit_def commit_cmd_def Let_def)
next
  case (EpochCheckReq topic part epoch)
  then show ?thesis by (simp add: dispatch_def dispatch_epoch_check_def split: option.split prod.split)
next
  case (JoinGroupReq grp member_id timeout topics)
  then show ?thesis
    by (simp add: dispatch_def dispatch_join_def answers_request_def request_type_def response_type_def
      split: prod.split)
qed (simp_all add: dispatch_def answers_request_def request_type_def response_type_def split: prod.split)

section \<open>What consumers see\<close>

lemma fetch_waits:
  assumes "list_all (\<lambda>(hwm, log_end, _). hwm \<le> offset \<and> offset \<le> log_end) waits"
  shows "handle_fetch_hwm offset (waits @ rounds) final = handle_fetch_hwm offset rounds final"
  using assms by (induction waits) auto

lemma numbered_takeWhile:
  assumes "numbered base rs"
  shows "takeWhile (\<lambda>r. unat (lr_offset r) < hwm) rs = take (hwm - base) rs"
proof (rule takeWhile_eq_take_P_nth)
  show "unat (lr_offset (rs ! i)) < hwm" if "i < hwm - base" "i < length rs" for i
    using numbered_nth [OF assms that(2)] that(1) by simp
  show "\<not> unat (lr_offset (rs ! (hwm - base))) < hwm" if "hwm - base < length rs"
    using numbered_nth [OF assms that] by simp
qed


text \<open>The small record, committed at replicas 2 and 3.\<close>

definition committed_group :: rgroup where
  "committed_group = leader_group [(2, (1, 5))] [] 1 [small_record] ((\<lambda>_. [])(2 := [small_record])) {} {(0, 1)}"


end
