(* ===== verification/TopicDirectories.thy ===== *)
theory TopicDirectories
  imports Broker
begin

text \<open>
  The partition directories of a broker name its topics: the scan at a start finds the topics
  and partition counts that were created, except for topics whose name starts with a dot.
\<close>

section \<open>Names\<close>

lemma digits_no_dash: "list_all is_digit s \<Longrightarrow> CHR ''-'' \<notin> set s"
proof
  assume "list_all is_digit s" "CHR ''-'' \<in> set s"
  then have "is_digit CHR ''-''" by (auto simp: list_all_iff)
  then show False by (simp add: is_digit_def)
qed

lemma rsplit_partition_dir [simp]: "rsplit_dash (partition_dir topic p) = Some (topic, show_nat p)"
proof -
  have n: "CHR ''-'' \<notin> set (show_nat p)" by (rule digits_no_dash) (rule show_nat_digits)
  have r: "rev (partition_dir topic p) = rev (show_nat p) @ CHR ''-'' # rev topic" by (simp add: partition_dir_def)
  have "dropWhile (\<lambda>c. c \<noteq> CHR ''-'') (rev (show_nat p) @ CHR ''-'' # rev topic) = CHR ''-'' # rev topic"
    using n by (subst dropWhile_append2) auto
  moreover have "takeWhile (\<lambda>c. c \<noteq> CHR ''-'') (rev (show_nat p) @ CHR ''-'' # rev topic) = rev (show_nat p)"
    using n by (subst takeWhile_append2) auto
  ultimately show ?thesis by (simp add: rsplit_dash_def r)
qed

lemma partition_dir_inj: "partition_dir t p = partition_dir t' p' \<longleftrightarrow> t = t' \<and> p = p'"
  by (metis option.inject prod.inject rsplit_partition_dir show_nat_inj)

definition dotted :: "string \<Rightarrow> bool" where
  "dotted name \<longleftrightarrow> take 1 name = ''.''"

lemma dotted_partition_dir [simp]: "dotted (partition_dir t p) \<longleftrightarrow> dotted t"
  by (cases t) (simp_all add: dotted_def partition_dir_def)

section \<open>The scan\<close>

text \<open>The partitions noted for a topic.\<close>

definition noted :: "(string, nat list) hashmap \<Rightarrow> string \<Rightarrow> nat list" where
  "noted ps topic = (case hm_get ps topic of None \<Rightarrow> [] | Some l \<Rightarrow> l)"

lemma noted_insert [simp]: "noted (hm_insert t l ps) t' = (if t' = t then l else noted ps t')"
  by (simp add: noted_def)

text \<open>The entries a data directory may have.\<close>

definition entry_ok :: "string \<times> bool \<Rightarrow> bool" where
  "entry_ok e \<longleftrightarrow> dotted (fst e) \<or> (\<exists>t p. e = (partition_dir t p, True) \<and> p < 2 ^ 64)"

text \<open>The partitions of a topic in a list of entries.\<close>

definition parts_in :: "(string \<times> bool) list \<Rightarrow> string \<Rightarrow> nat set" where
  "parts_in es t = {p. (partition_dir t p, True) \<in> set es \<and> \<not> dotted t}"

lemma scan_entries_ok:
  assumes "list_all entry_ok es" and "distinct es" and "hm_wf ps"
    and "\<And>t. distinct (noted ps t) \<and> set (noted ps t) \<inter> parts_in es t = {} \<and> hm_get ps t \<noteq> Some []"
  shows "\<exists>ps'. scan_entries es ps = Inr ps' \<and> hm_wf ps' \<and>
    (\<forall>t. distinct (noted ps' t) \<and> set (noted ps' t) = set (noted ps t) \<union> parts_in es t \<and> hm_get ps' t \<noteq> Some [])"
  using assms
proof (induction es arbitrary: ps)
  case Nil
  then show ?case by (simp add: parts_in_def)
next
  case (Cons e es)
  have es: "list_all entry_ok es" "distinct es" using Cons.prems by simp_all
  show ?case
  proof (cases "dotted (fst e)")
    case True
    have pe: "parts_in (e # es) t = parts_in es t" for t using True by (auto simp: parts_in_def)
    have "scan_entries (e # es) ps = scan_entries es ps"
      using True by (cases e) (simp add: dotted_def)
    then show ?thesis using Cons.IH [OF es Cons.prems(3)] Cons.prems(4) by (simp add: pe)
  next
    case False
    then obtain t p where e: "e = (partition_dir t p, True)" "p < 2 ^ 64" "\<not> dotted t"
      using Cons.prems(1) by (auto simp: entry_ok_def)
    let ?ps = "hm_insert t (noted ps t @ [p]) ps"
    have pe: "parts_in (e # es) t' = (if t' = t then insert p (parts_in es t') else parts_in es t')" for t'
      using e by (auto simp: parts_in_def partition_dir_inj)
    have p: "p \<notin> parts_in es t" using Cons.prems(2) e by (simp add: parts_in_def)
    have s: "scan_entries (e # es) ps = scan_entries es ?ps"
      using dotted_partition_dir [of t p] e by (simp add: noted_def dotted_def)
    have "distinct (noted ?ps t') \<and> set (noted ?ps t') \<inter> parts_in es t' = {} \<and> hm_get ?ps t' \<noteq> Some []" for t'
      using Cons.prems(4) [of t'] p by (auto simp: pe)
    from Cons.IH [OF es hm_wf_insert [OF Cons.prems(3)] this] show ?thesis
      unfolding s by (auto simp: pe)
  qed
qed

lemma scan_topics_ok:
  assumes "\<And>t ps. (t, ps) \<in> set m \<Longrightarrow> sort ps = [0..<length ps]"
  shows "scan_topics m = Inr (map (\<lambda>(t, ps). (t, word_of_nat (length ps))) m)"
  using assms
proof (induction m)
  case (Cons e m)
  obtain t ps where e: "e = (t, ps)" by (cases e)
  have "scan_topics m = Inr (map (\<lambda>(t, ps). (t, word_of_nat (length ps))) m)"
    by (rule Cons.IH) (use Cons.prems in auto)
  moreover have "sort ps = [0..<length ps]" using Cons.prems [of t ps] e by simp
  ultimately show ?case by (simp add: e Let_def)
qed simp

text \<open>
  A data directory that holds the given topics with their partition counts, and hidden entries.
  No topic name starts with a dot.
\<close>

definition data_dir :: "(string \<times> bool) list \<Rightarrow> (string \<times> nat) list \<Rightarrow> bool" where
  "data_dir entries topics \<longleftrightarrow>
     distinct entries \<and> distinct (map fst topics) \<and>
     (\<forall>(t, n) \<in> set topics. \<not> dotted t \<and> 0 < n \<and> n < 2 ^ 32 \<and>
        (\<forall>p < n. (partition_dir t p, True) \<in> set entries)) \<and>
     (\<forall>(name, is_dir) \<in> set entries. dotted name \<or>
        (\<exists>(t, n) \<in> set topics. \<exists>p < n. name = partition_dir t p \<and> is_dir))"

lemma data_dirD:
  assumes "data_dir entries topics"
  shows "(t, n) \<in> set topics \<Longrightarrow> \<not> dotted t \<and> 0 < n \<and> n < 2 ^ 32"
    and "(t, n) \<in> set topics \<Longrightarrow> p < n \<Longrightarrow> (partition_dir t p, True) \<in> set entries"
    and "(name, is_dir) \<in> set entries \<Longrightarrow> \<not> dotted name \<Longrightarrow>
      \<exists>t n p. (t, n) \<in> set topics \<and> p < n \<and> name = partition_dir t p \<and> is_dir"
  using assms unfolding data_dir_def by blast+

lemma data_dir_parts:
  assumes "data_dir entries topics" and "(t, n) \<in> set topics"
  shows "parts_in entries t = {..<n}"
proof -
  have "n' = n" if "(t, n') \<in> set topics" for n'
    using that assms by (metis data_dir_def eq_key_imp_eq_value)
  then have "p < n" if "(partition_dir t p, True) \<in> set entries" for p
    using data_dirD(3) [OF assms(1) that] data_dirD(1) [OF assms] by (auto simp: partition_dir_inj)
  then show ?thesis using data_dirD(1,2) [OF assms] by (auto simp: parts_in_def)
qed

lemma data_dir_entry:
  assumes "data_dir entries topics" and "p \<in> parts_in entries t"
  shows "\<exists>n. (t, n) \<in> set topics"
  using data_dirD(3) [OF assms(1), of "partition_dir t p" True] assms(2)
  by (auto simp: parts_in_def partition_dir_inj)

lemma data_dir_entries_ok:
  assumes "data_dir entries topics"
  shows "list_all entry_ok entries"
  unfolding list_all_iff
proof
  fix e assume "e \<in> set entries"
  then have e: "(fst e, snd e) \<in> set entries" by simp
  show "entry_ok e"
  proof (cases "dotted (fst e)")
    case False
    then obtain t n p where "(t, n) \<in> set topics" "p < n" "fst e = partition_dir t p" "snd e"
      using data_dirD(3) [OF assms e] by blast
    moreover have "n < 2 ^ 64" using data_dirD(1) [OF assms, of t n] \<open>(t, n) \<in> set topics\<close> by simp
    ultimately show ?thesis unfolding entry_ok_def by (metis (full_types) order_less_trans prod.collapse)
  qed (simp add: entry_ok_def)
qed

text \<open>What the loop over the entries leaves for the loop over the topics.\<close>

lemma scan_data_dir_noted:
  assumes "data_dir entries topics"
  obtains m where "scan_entries entries [] = Inr m" "hm_wf m"
    "\<And>t ps. (t, ps) \<in> set m \<Longrightarrow> (t, length ps) \<in> set topics \<and> sort ps = [0..<length ps]"
    "\<And>t n. (t, n) \<in> set topics \<Longrightarrow> \<exists>ps. (t, ps) \<in> set m \<and> length ps = n"
proof -
  obtain m where m: "scan_entries entries [] = Inr m" "hm_wf m" "\<And>t. distinct (noted m t)"
    "\<And>t. set (noted m t) = parts_in entries t" "\<And>t. hm_get m t \<noteq> Some []"
    using scan_entries_ok [OF data_dir_entries_ok [OF assms], of "[]"] assms by (auto simp: noted_def data_dir_def)
  have count: "length ps = n \<and> sort ps = [0..<n]" if "distinct ps" "set ps = {..<n}" for ps n
  proof -
    have "sort ps = [0..<n]"
      using that by (intro sorted_distinct_set_unique) (auto simp: atLeast0LessThan)
    then show ?thesis using that distinct_card [of ps] by simp
  qed
  have 1: "(t, length ps) \<in> set topics \<and> sort ps = [0..<length ps]" if "(t, ps) \<in> set m" for t ps
  proof -
    have ps: "noted m t = ps" "ps \<noteq> []" using that m(2) m(5) [of t] by (auto simp: noted_def)
    then obtain p where "p \<in> parts_in entries t" using m(4) [of t] by (metis ex_in_conv set_empty)
    then obtain n where n: "(t, n) \<in> set topics" using data_dir_entry [OF assms] by blast
    then show ?thesis
      using count [of ps n] m(3,4) [of t] data_dir_parts [OF assms n] ps(1) by simp
  qed
  have 2: "\<exists>ps. (t, ps) \<in> set m \<and> length ps = n" if "(t, n) \<in> set topics" for t n
  proof -
    have s: "set (noted m t) = {..<n}" "0 < n"
      using m(4) [of t] data_dir_parts [OF assms that] assms that by (auto simp: data_dir_def)
    then have "noted m t \<noteq> []" by (metis empty_iff empty_set lessThan_iff)
    then have "hm_get m t = Some (noted m t)" by (cases "hm_get m t") (simp_all add: noted_def)
    then show ?thesis using count [OF m(3) s(1)] by (blast dest: map_of_SomeD)
  qed
  show thesis by (rule that [OF m(1,2) 1 2])
qed

text \<open>
  A broker that starts on a data directory finds the topics created in it: whatever order
  the entries come in, the scan returns exactly the topics with their partition counts, provided
  no topic name starts with a dot; hidden entries are ignored.
\<close>

theorem topics_found_after_restart:
  assumes "data_dir entries topics"
  shows "\<exists>found. scan_data_dir entries = Inr found \<and> distinct (map fst found) \<and>
    set found = (\<lambda>(t, n). (t, word_of_nat n)) ` set topics"
proof -
  obtain m where m: "scan_entries entries [] = Inr m" "hm_wf m"
    "\<And>t ps. (t, ps) \<in> set m \<Longrightarrow> (t, length ps) \<in> set topics \<and> sort ps = [0..<length ps]"
    "\<And>t n. (t, n) \<in> set topics \<Longrightarrow> \<exists>ps. (t, ps) \<in> set m \<and> length ps = n"
    using scan_data_dir_noted [OF assms] by blast
  let ?found = "map (\<lambda>(t, ps). (t, word_of_nat (length ps) :: u32)) m"
  have "scan_topics m = Inr ?found" by (rule scan_topics_ok) (use m(3) in blast)
  then have "scan_data_dir entries = Inr ?found" by (simp add: scan_data_dir_def m(1))
  moreover have "distinct (map fst ?found)" using m(2) by (simp add: comp_def case_prod_beta)
  moreover have "set ?found = (\<lambda>(t, n). (t, word_of_nat n)) ` set topics"
  proof (intro set_eqI iffI)
    fix x assume "x \<in> set ?found"
    then obtain t ps where "(t, ps) \<in> set m" "x = (t, word_of_nat (length ps))" by auto
    then show "x \<in> (\<lambda>(t, n). (t, word_of_nat n)) ` set topics" using m(3) by force
  next
    fix x assume "x \<in> (\<lambda>(t, n). (t, word_of_nat n :: u32)) ` set topics"
    then obtain t n where "(t, n) \<in> set topics" "x = (t, word_of_nat n)" by auto
    moreover from this obtain ps where "(t, ps) \<in> set m" "length ps = n" using m(4) by blast
    ultimately show "x \<in> set ?found" by force
  qed
  ultimately show ?thesis by blast
qed

theorem topics_found_after_restart_witness:
  "\<exists>found. scan_data_dir [(''a-b-1'', True), (''.x'', False), (''__offsets-0'', True), (''a-b-0'', True)] = Inr found \<and>
     set found = {(''a-b'', 2), (''__offsets'', 1)}"
proof -
  let ?topics = "[(''a-b'', 2), (''__offsets'', 1 :: nat)]"
  let ?es = "[(''a-b-1'', True), (''.x'', False), (''__offsets-0'', True), (''a-b-0'', True)]"
  have names: "partition_dir ''a-b'' 0 = ''a-b-0''" "partition_dir ''a-b'' 1 = ''a-b-1''"
    "partition_dir ''__offsets'' 0 = ''__offsets-0''"
    by (simp_all add: partition_dir_def show_nat.simps digit_char_def) (code_simp)+
  have "data_dir ?es ?topics"
    unfolding data_dir_def using names less_2_cases_iff
    by (simp add: dotted_def) (metis One_nat_def)
  from topics_found_after_restart [OF this] show ?thesis by auto
qed

text \<open>
  A topic may be created whose name starts with a dot, but its directories are taken for hidden
  entries: after a restart the topic is gone and its data with it.
\<close>

lemma dotted_topics_are_lost:
  "valid_topic_name ''.logs''"
  "scan_data_dir (map (\<lambda>p. (partition_dir ''.logs'' p, True)) ps) = Inr []"
proof -
  show "valid_topic_name ''.logs''" by (simp add: valid_topic_name_def name_char_def)
  have "scan_entries (map (\<lambda>p. (partition_dir ''.logs'' p, True)) ps) [] = Inr []"
    by (induction ps) (simp_all add: partition_dir_def)
  then show "scan_data_dir (map (\<lambda>p. (partition_dir ''.logs'' p, True)) ps) = Inr []"
    by (simp add: scan_data_dir_def)
qed

end
