(* ===== verification/Rng.thy ===== *)
theory Rng
  imports Wire
begin

text \<open>
  The generator of the torture harness, \<^verbatim>\<open>src/src/harness/rng.rs\<close>: SplitMix64 on words, which
  wrap, and the draws made from it. \<open>None\<close> is the panic of an empty range or slice.
\<close>

unbundle bit_operations_syntax

section \<open>The generator\<close>

record splitmix64 =
  sm_state :: u64

definition splitmix_new :: "u64 \<Rightarrow> splitmix64" where
  "splitmix_new seed = \<lparr>sm_state = seed\<rparr>"

definition mix :: "u64 \<Rightarrow> u64" where
  "mix s =
     (let z = (s XOR drop_bit 30 s) * 0xBF58476D1CE4E5B9;
          z = (z XOR drop_bit 27 z) * 0x94D049BB133111EB
      in z XOR drop_bit 31 z)"

definition next_u64 :: "splitmix64 \<Rightarrow> u64 \<times> splitmix64" where
  "next_u64 r = (let s = sm_state r + 0x9E3779B97F4A7C15 in (mix s, r\<lparr>sm_state := s\<rparr>))"

definition rng_range :: "u64 \<Rightarrow> u64 \<Rightarrow> splitmix64 \<Rightarrow> (u64 \<times> splitmix64) option" where
  "rng_range lo hi r =
     (if lo < hi then let (x, r) = next_u64 r in Some (lo + x mod (hi - lo), r) else None)"

definition pick :: "'a list \<Rightarrow> splitmix64 \<Rightarrow> ('a \<times> splitmix64) option" where
  "pick xs r = map_option (\<lambda>(i, r). (xs ! unat i, r)) (rng_range 0 (word_of_nat (length xs)) r)"

text \<open>The outputs of the calls in order.\<close>

primrec outputs :: "nat \<Rightarrow> splitmix64 \<Rightarrow> u64 list" where
  "outputs 0 r = []"
| "outputs (Suc n) r = (let (x, r) = next_u64 r in x # outputs n r)"

section \<open>No output repeats\<close>

lemma xorshift_inj:
  assumes "0 < k" and "x XOR drop_bit k x = y XOR drop_bit k (y :: u64)"
  shows "x = y"
proof -
  let ?d = "x XOR y"
  have zero: "a = b" if "a XOR b = 0" for a b :: u64
    using that by (metis xor.assoc xor.left_neutral xor.right_neutral xor_self_eq)
  have "?d XOR drop_bit k ?d = (x XOR drop_bit k x) XOR (y XOR drop_bit k y)"
    by (simp only: drop_bit_xor xor.assoc xor.left_commute)
  also have "\<dots> = 0" by (simp only: assms(2) xor_self_eq)
  finally have "?d = drop_bit k ?d" by (rule zero)
  then have "unat ?d = unat (drop_bit k ?d)" by (rule arg_cong)
  also have "\<dots> = unat ?d div 2 ^ k" by (subst unat_drop_bit_eq) (rule drop_bit_eq_div)
  finally have d: "unat ?d = unat ?d div 2 ^ k" .
  have "unat ?d = 0"
  proof (rule ccontr)
    assume "unat ?d \<noteq> 0"
    moreover have "1 < (2 :: nat) ^ k" by (rule one_less_power) (use assms(1) in simp_all)
    ultimately have "unat ?d div 2 ^ k < unat ?d" by (intro div_less_dividend) simp_all
    then show False using d by simp
  qed
  then show ?thesis by (rule zero [OF unat_eq_zero [THEN iffD1]])
qed

text \<open>Multiplication by an odd constant can be undone.\<close>

lemma times_inj:
  fixes c :: u64
  assumes "d * c = 1" and "x * c = y * c"
  shows "x = y"
proof -
  have "x * (d * c) = y * (d * c)" by (simp only: mult.left_commute [of _ d] assms(2))
  then show ?thesis by (simp only: assms(1) mult_1_right)
qed

lemma mix_inj: "mix x = mix y \<Longrightarrow> x = y"
  unfolding mix_def Let_def
  by (drule xorshift_inj [rotated], simp,
      drule times_inj [of "0x319642b2d24d8ec3", rotated], simp,
      drule xorshift_inj [rotated], simp,
      drule times_inj [of "0x96de1b173f119089", rotated], simp,
      drule xorshift_inj [rotated], simp)

lemma outputs_nth: "i < n \<Longrightarrow> outputs n r ! i = mix (sm_state r + word_of_nat (i + 1) * 0x9E3779B97F4A7C15)"
proof (induction n arbitrary: r i)
  case (Suc n)
  then show ?case
    by (cases i) (simp_all add: next_u64_def Let_def algebra_simps)
qed simp

lemma length_outputs [simp]: "length (outputs n r) = n"
  by (induction n arbitrary: r) (simp_all add: next_u64_def Let_def)

lemma outputs_distinct:
  assumes "n \<le> 2 ^ 64"
  shows "distinct (outputs n r)"
  unfolding distinct_conv_nth
proof (intro allI impI)
  fix i j assume ij: "i < length (outputs n r)" "j < length (outputs n r)" "i \<noteq> j"
  show "outputs n r ! i \<noteq> outputs n r ! j"
  proof
    assume "outputs n r ! i = outputs n r ! j"
    then have "(word_of_nat (i + 1) :: u64) * 0x9E3779B97F4A7C15 = word_of_nat (j + 1) * 0x9E3779B97F4A7C15"
      using ij mix_inj by (fastforce simp: outputs_nth)
    then have "(word_of_nat (i + 1) :: u64) = word_of_nat (j + 1)"
      by (rule times_inj [of "0xf1de83e19937733d", rotated]) simp
    then have "(word_of_nat i :: u64) = word_of_nat j" by simp
    moreover have "i < 2 ^ LENGTH(64)" "j < 2 ^ LENGTH(64)" using ij assms by simp_all
    ultimately have "i = j" by (metis unat_of_nat_len)
    then show False using ij(3) by simp
  qed
qed

section \<open>Draws\<close>

lemma rng_range_in:
  assumes "rng_range lo hi r = Some (x, r')"
  shows "lo \<le> x \<and> x < hi"
proof -
  obtain y where y: "lo < hi" "x = lo + y mod (hi - lo)"
    using assms by (auto simp: rng_range_def Let_def split: if_splits prod.splits)
  have "unat (y mod (hi - lo)) < unat (hi - lo)" using y(1) by (simp add: unat_mod word_less_nat_alt unat_sub_if')
  moreover have "unat hi < 2 ^ LENGTH(64)" by (rule unsigned_less)
  ultimately show ?thesis
    using y by (auto simp: word_less_nat_alt word_le_nat_alt unat_plus_if' unat_sub_if' split: if_splits)
qed

lemma pick_in:
  assumes "pick xs r = Some (a, r')" and "length xs < 2 ^ 64"
  shows "a \<in> set xs"
proof -
  obtain i where i: "rng_range 0 (word_of_nat (length xs)) r = Some (i, r')" "a = xs ! unat i"
    using assms(1) by (auto simp: pick_def)
  have "unat i < length xs" using rng_range_in [OF i(1)] assms(2) by (simp add: word_less_nat_alt unat_of_nat_len)
  then show ?thesis by (simp add: i(2))
qed

lemma pick_panics_iff: "length xs < 2 ^ 64 \<Longrightarrow> pick xs r = None \<longleftrightarrow> xs = []"
  by (simp add: pick_def rng_range_def word_less_nat_alt unat_of_nat_len split: prod.split)

text \<open>
  A draw from a range lies in the range, for every range that is not empty, without
  wrapping; an empty range panics. A pick from a slice is one of its elements. The generator
  repeats no output within \<open>2 ^ 64\<close> calls, whatever its seed.
\<close>

theorem draws_in_bounds:
  assumes "length xs < 2 ^ 64" and "n \<le> 2 ^ 64"
  shows "(rng_range lo hi r = None \<longleftrightarrow> \<not> lo < hi) \<and>
    (\<forall>x r'. rng_range lo hi r = Some (x, r') \<longrightarrow> lo \<le> x \<and> x < hi) \<and>
    (\<forall>a r'. pick xs r = Some (a, r') \<longrightarrow> a \<in> set xs) \<and>
    distinct (outputs n r)"
proof (intro conjI allI impI)
  show "rng_range lo hi r = None \<longleftrightarrow> \<not> lo < hi" by (simp add: rng_range_def split: prod.split)
  show "distinct (outputs n r)" using assms(2) by (rule outputs_distinct)
next
  fix x r' assume "rng_range lo hi r = Some (x, r')"
  from rng_range_in [OF this] show "lo \<le> x" and "x < hi" by simp_all
next
  fix a r' assume p: "pick xs r = Some (a, r')"
  show "a \<in> set xs" using p assms(1) by (rule pick_in)
qed

text \<open>The reference outputs for seed 0.\<close>

theorem draws_in_bounds_witness:
  "outputs 3 (splitmix_new 0) = [0xE220A8397B1DCDAF, 0x6E789E6AA1B965F4, 0x06C45D188009454F] \<and>
   (\<exists>x r'. rng_range 10 15 (splitmix_new 7) = Some (x, r') \<and> 10 \<le> x \<and> x < 15)"
proof
  show "outputs 3 (splitmix_new 0) = [0xE220A8397B1DCDAF, 0x6E789E6AA1B965F4, 0x06C45D188009454F]"
    by (simp add: numeral_3_eq_3 next_u64_def splitmix_new_def mix_def Let_def)
  obtain x r' where "rng_range 10 15 (splitmix_new 7) = Some (x, r')"
    using draws_in_bounds [of "[]" 0 10 15 "splitmix_new 7"] by fastforce
  then show "\<exists>x r'. rng_range 10 15 (splitmix_new 7) = Some (x, r') \<and> 10 \<le> x \<and> x < 15"
    using draws_in_bounds [of "[]" 0 10 15 "splitmix_new 7"] by fastforce
qed

end
