(* ===== verification/Client.thy ===== *)
theory Client
  imports ProtoCodec
begin

text \<open>
  The client side of \<^verbatim>\<open>src/src/client/mod.rs\<close>: the connection that routes responses by
  correlation id, the typed calls, producers and consumers. What a call answers is an argument.
\<close>

section \<open>The connection\<close>

datatype client_error =
    ClientIo
  | Closed
  | ClientProto proto_error
  | BrokerErr error_code
  | UnexpectedResponse

text \<open>
  The calls that wait, by correlation id; a waiter, the sender of a oneshot channel, is a
  number. \<open>cn_sent\<close> holds the frames handed to the writer task, \<open>cn_writer\<close> says whether it
  still takes them.
\<close>

record connection =
  cn_next_corr :: u32
  cn_pending :: "(u32, nat) hashmap"
  cn_closed :: bool
  cn_sent :: "bytes list"
  cn_writer :: bool

definition connected :: connection where
  "connected = \<lparr>cn_next_corr = 1, cn_pending = [], cn_closed = False, cn_sent = [], cn_writer = True\<rparr>"

definition call_start :: "request \<Rightarrow> nat \<Rightarrow> connection \<Rightarrow> connection \<times> (client_error + u32)" where
  "call_start req waiter c =
     (let corr = cn_next_corr c;
          c = c\<lparr>cn_next_corr := corr + 1\<rparr>
      in if cn_closed c then (c, Inl Closed)
         else
           let c = c\<lparr>cn_pending := hm_insert corr waiter (cn_pending c)\<rparr>
           in if cn_writer c then (c\<lparr>cn_sent := cn_sent c @ [encode_request req corr]\<rparr>, Inr corr)
              else (c\<lparr>cn_pending := hm_remove corr (cn_pending c)\<rparr>, Inl Closed))"

definition send_only :: "request \<Rightarrow> connection \<Rightarrow> connection \<times> (client_error + unit)" where
  "send_only req c =
     (let corr = cn_next_corr c;
          c = c\<lparr>cn_next_corr := corr + 1\<rparr>
      in if cn_writer c then (c\<lparr>cn_sent := cn_sent c @ [encode_request req corr]\<rparr>, Inr ()) else (c, Inl Closed))"

text \<open>The end of the read task: waiting calls and all later ones are closed.\<close>

definition reader_end :: "connection \<Rightarrow> connection" where
  "reader_end c = c\<lparr>cn_closed := True, cn_pending := []\<rparr>"

text \<open>A frame arrives; the answers delivered come with the connection. The flag says whether the task goes on.\<close>

definition on_frame :: "bytes \<Rightarrow> connection \<Rightarrow> connection \<times> (nat \<times> response) list \<times> bool" where
  "on_frame frame c =
     (case decode_response frame of
        Inl _ \<Rightarrow> (reader_end c, [], False)
      | Inr (corr, resp) \<Rightarrow>
          (case hm_get (cn_pending c) corr of
             None \<Rightarrow> (c, [], True)
           | Some waiter \<Rightarrow> (c\<lparr>cn_pending := hm_remove corr (cn_pending c)\<rparr>, [(waiter, resp)], True)))"

section \<open>Typed calls\<close>

text \<open>What each call makes of its response.\<close>

definition create_topic_result :: "response \<Rightarrow> client_error + unit" where
  "create_topic_result r =
     (case r of
        CreateTopicResp error \<Rightarrow> if error = NoError then Inr () else Inl (BrokerErr error)
      | _ \<Rightarrow> Inl UnexpectedResponse)"

definition metadata_result :: "response \<Rightarrow> client_error + cluster_meta" where
  "metadata_result r =
     (case r of
        MetadataResp error cluster \<Rightarrow> if error = NoError then Inr cluster else Inl (BrokerErr error)
      | _ \<Rightarrow> Inl UnexpectedResponse)"

definition produce_result :: "response \<Rightarrow> client_error + u64 option" where
  "produce_result r =
     (case r of
        ProduceResp error base_offset _ \<Rightarrow> if error = NoError then Inr (Some base_offset) else Inl (BrokerErr error)
      | _ \<Rightarrow> Inl UnexpectedResponse)"

text \<open>A produce: \<open>send\<close> and \<open>call\<close> are the two ways to send the request.\<close>

definition produce_with_epoch ::
    "(request \<Rightarrow> client_error + unit) \<Rightarrow> (request \<Rightarrow> client_error + response) \<Rightarrow>
     string \<Rightarrow> u32 \<Rightarrow> acks \<Rightarrow> u64 \<Rightarrow> produce_record list \<Rightarrow> client_error + u64 option" where
  "produce_with_epoch send call topic part acks leader_epoch records =
     (let req = ProduceReq topic part acks leader_epoch records
      in if acks = AcksNone then bind_r (send req) (\<lambda>_. Inr None)
         else bind_r (call req) produce_result)"

definition fetch_result :: "response \<Rightarrow> client_error + u64 \<times> u64 \<times> fetched_record list" where
  "fetch_result r =
     (case r of
        FetchResp error log_start next_offset records \<Rightarrow>
          if error = NoError then Inr (log_start, next_offset, records) else Inl (BrokerErr error)
      | _ \<Rightarrow> Inl UnexpectedResponse)"

definition commit_result :: "response \<Rightarrow> client_error + unit" where
  "commit_result r =
     (case r of
        CommitOffsetResp error \<Rightarrow> if error = NoError then Inr () else Inl (BrokerErr error)
      | _ \<Rightarrow> Inl UnexpectedResponse)"

definition fetch_offset_result :: "response \<Rightarrow> client_error + u64 option" where
  "fetch_offset_result r =
     (case r of
        FetchOffsetResp error offset \<Rightarrow>
          if error = NoError then Inr (if 0 \<le> sint offset then Some offset else None) else Inl (BrokerErr error)
      | _ \<Rightarrow> Inl UnexpectedResponse)"

section \<open>Producers\<close>

text \<open>
  The call that ships a batch: topic, partition, acks and records. It acts on what it talks to,
  a state of its own.
\<close>

type_synonym 'w shipper =
  "string \<Rightarrow> u32 \<Rightarrow> acks \<Rightarrow> produce_record list \<Rightarrow> 'w \<Rightarrow> 'w \<times> (client_error + u64 option)"

record producer =
  pc_topic :: string
  pc_partition :: u32
  pc_acks :: acks
  pc_batch_records :: nat
  pc_buf :: "produce_record list"

definition producer_new :: "string \<Rightarrow> u32 \<Rightarrow> acks \<Rightarrow> nat \<Rightarrow> producer" where
  "producer_new topic part acks batch_records =
     \<lparr>pc_topic = topic, pc_partition = part, pc_acks = acks, pc_batch_records = max batch_records 1, pc_buf = []\<rparr>"

definition producer_flush ::
    "'w shipper \<Rightarrow> producer \<times> 'w \<Rightarrow> (producer \<times> 'w) \<times> (client_error + u64 option)" where
  "producer_flush produce pw =
     (let (p, w) = pw
      in if pc_buf p = [] then ((p, w), Inr None)
         else let (w, r) = produce (pc_topic p) (pc_partition p) (pc_acks p) (pc_buf p) w
              in ((p\<lparr>pc_buf := []\<rparr>, w), r))"

definition producer_send ::
    "'w shipper \<Rightarrow> bytes option \<Rightarrow> bytes \<Rightarrow> producer \<times> 'w \<Rightarrow> (producer \<times> 'w) \<times> (client_error + u64 option)" where
  "producer_send produce key value pw =
     (let (p, w) = pw;
          p = p\<lparr>pc_buf := pc_buf p @ [\<lparr>pr_key = key, pr_value = value\<rparr>]\<rparr>
      in if pc_batch_records p \<le> length (pc_buf p) then producer_flush produce (p, w) else ((p, w), Inr None))"

text \<open>\<open>crc\<close> is the hash of the crc32fast package.\<close>

definition partition_for_key :: "(bytes \<Rightarrow> u32) \<Rightarrow> bytes \<Rightarrow> u32 \<Rightarrow> u32" where
  "partition_for_key crc key partitions = crc key mod partitions"

record topic_producer =
  tp_topic :: string
  tp_partitions :: u32
  tp_acks :: acks
  tp_batch_records :: nat
  tp_buffers :: "produce_record list list"
  tp_round_robin :: nat

definition topic_producer_new ::
    "string \<Rightarrow> acks \<Rightarrow> nat \<Rightarrow> client_error + cluster_meta \<Rightarrow> client_error + topic_producer" where
  "topic_producer_new topic acks batch_records metadata =
     bind_r metadata (\<lambda>cluster.
       case find (\<lambda>t. tm_name t = topic) (cm_topics cluster) of
         None \<Rightarrow> Inl (BrokerErr UnknownTopicOrPartition)
       | Some t \<Rightarrow>
           let partitions = word_of_nat (length (tm_partitions t))
           in Inr \<lparr>tp_topic = topic, tp_partitions = partitions, tp_acks = acks,
                tp_batch_records = max batch_records 1, tp_buffers = replicate (unat partitions) [],
                tp_round_robin = 0\<rparr>)"

text \<open>A topic without partitions is a division by zero, which panics: \<open>None\<close>.\<close>

definition route :: "(bytes \<Rightarrow> u32) \<Rightarrow> bytes option \<Rightarrow> topic_producer \<Rightarrow> (u32 \<times> topic_producer) option" where
  "route crc key p =
     (if tp_partitions p = 0 then None
      else case key of
        Some k \<Rightarrow> Some (partition_for_key crc k (tp_partitions p), p)
      | None \<Rightarrow> Some (word_of_nat (tp_round_robin p) mod tp_partitions p, p\<lparr>tp_round_robin := tp_round_robin p + 1\<rparr>))"

definition flush_partition ::
    "'w shipper \<Rightarrow> u32 \<Rightarrow> topic_producer \<times> 'w \<Rightarrow> (topic_producer \<times> 'w) \<times> (client_error + u64 option)" where
  "flush_partition produce part pw =
     (let (p, w) = pw;
          records = tp_buffers p ! unat part;
          p = p\<lparr>tp_buffers := (tp_buffers p)[unat part := []]\<rparr>
      in if records = [] then ((p, w), Inr None)
         else let (w, r) = produce (tp_topic p) part (tp_acks p) records w in ((p, w), r))"

definition topic_send ::
    "(bytes \<Rightarrow> u32) \<Rightarrow> 'w shipper \<Rightarrow> bytes option \<Rightarrow> bytes \<Rightarrow> topic_producer \<times> 'w \<Rightarrow>
     ((topic_producer \<times> 'w) \<times> (client_error + (u32 \<times> u64) option)) option" where
  "topic_send crc produce key value pw =
     map_option (\<lambda>(part, p).
       let p = p\<lparr>tp_buffers := (tp_buffers p)[unat part := tp_buffers p ! unat part @ [\<lparr>pr_key = key, pr_value = value\<rparr>]]\<rparr>
       in if tp_batch_records p \<le> length (tp_buffers p ! unat part) then
            let (pw, r) = flush_partition produce part (p, snd pw)
            in (pw, bind_r r (\<lambda>base. Inr (map_option (\<lambda>b. (part, b)) base)))
          else ((p, snd pw), Inr None)) (route crc key (fst pw))"

text \<open>The loop of \<open>flush\<close> over the partitions; the first error ends it.\<close>

fun topic_flush_loop ::
    "'w shipper \<Rightarrow> nat list \<Rightarrow> (u32 \<times> u64) list \<Rightarrow> topic_producer \<times> 'w \<Rightarrow>
     (topic_producer \<times> 'w) \<times> (client_error + (u32 \<times> u64) list)" where
  "topic_flush_loop produce [] out pw = (pw, Inr out)"
| "topic_flush_loop produce (i # is) out pw =
     (case flush_partition produce (word_of_nat i) pw of
        (pw, Inl e) \<Rightarrow> (pw, Inl e)
      | (pw, Inr None) \<Rightarrow> topic_flush_loop produce is out pw
      | (pw, Inr (Some base)) \<Rightarrow> topic_flush_loop produce is (out @ [(word_of_nat i, base)]) pw)"

definition topic_flush ::
    "'w shipper \<Rightarrow> topic_producer \<times> 'w \<Rightarrow> (topic_producer \<times> 'w) \<times> (client_error + (u32 \<times> u64) list)" where
  "topic_flush produce pw = topic_flush_loop produce [0..<unat (tp_partitions (fst pw))] [] pw"

section \<open>A consumer of one partition\<close>

record consumer =
  co_topic :: string
  co_partition :: u32
  co_group :: "string option"
  co_position :: u64
  co_max_bytes :: u32
  co_max_wait_ms :: u32

definition consumer_start_at :: "string \<Rightarrow> u32 \<Rightarrow> u64 \<Rightarrow> consumer" where
  "consumer_start_at topic part position =
     \<lparr>co_topic = topic, co_partition = part, co_group = None, co_position = position,
      co_max_bytes = 1048576, co_max_wait_ms = 0\<rparr>"

definition consumer_resume :: "string \<Rightarrow> u32 \<Rightarrow> string \<Rightarrow> client_error + u64 option \<Rightarrow> client_error + consumer" where
  "consumer_resume topic part grp committed =
     bind_r committed (\<lambda>committed.
       Inr ((consumer_start_at topic part (case committed of None \<Rightarrow> 0 | Some offset \<Rightarrow> offset))
         \<lparr>co_group := Some grp\<rparr>))"

definition consumer_poll ::
    "client_error + u64 \<times> u64 \<times> fetched_record list \<Rightarrow> consumer \<Rightarrow> consumer \<times> (client_error + fetched_record list)" where
  "consumer_poll fetched c =
     (case fetched of
        Inl e \<Rightarrow> (c, Inl e)
      | Inr (_, _, records) \<Rightarrow>
          (if records = [] then c else c\<lparr>co_position := fr_offset (last records) + 1\<rparr>, Inr records))"

definition consumer_commit :: "(string \<Rightarrow> string \<Rightarrow> u32 \<Rightarrow> u64 \<Rightarrow> client_error + unit) \<Rightarrow> consumer \<Rightarrow> client_error + unit" where
  "consumer_commit commit c =
     (case co_group c of
        None \<Rightarrow> Inl (BrokerErr MalformedErr)
      | Some grp \<Rightarrow> commit grp (co_topic c) (co_partition c) (co_position c))"

end
