(* ===== verification/GroupClient.thy ===== *)
theory GroupClient
  imports Client
begin

text \<open>
  The group-membership consumer of \<^verbatim>\<open>src/src/client/group.rs\<close>. Its calls act on a server whose
  state is threaded through; the operations of the server are an argument.
\<close>

section \<open>The server it talks to\<close>

text \<open>The answers of the calls a group consumer makes, with the server's next state.\<close>

record 's server_ops =
  so_join :: "string \<Rightarrow> string \<Rightarrow> u32 \<Rightarrow> string list \<Rightarrow> 's \<Rightarrow> 's \<times> (client_error + response)"
  so_heartbeat :: "string \<Rightarrow> string \<Rightarrow> u64 \<Rightarrow> 's \<Rightarrow> 's \<times> (client_error + response)"
  so_fetch_offset :: "string \<Rightarrow> string \<times> u32 \<Rightarrow> 's \<Rightarrow> 's \<times> (client_error + response)"
  so_fetch :: "string \<times> u32 \<Rightarrow> u64 \<Rightarrow> u32 \<Rightarrow> u32 \<Rightarrow> 's \<Rightarrow> 's \<times> (client_error + response)"
  so_commit :: "string \<Rightarrow> string \<times> u32 \<Rightarrow> u64 \<Rightarrow> string \<Rightarrow> u64 \<Rightarrow> 's \<Rightarrow> 's \<times> (client_error + response)"

section \<open>State\<close>

record group_consumer =
  gm_group :: string
  gm_topics :: "string list"
  gm_session_timeout_ms :: u32
  gm_member_id :: string
  gm_generation :: u64
  gm_assignment :: "(string \<times> u32) list"
  gm_positions :: "(string \<times> u32, u64) hashmap"
  gm_last_heartbeat :: nat
  gm_round_robin :: nat
  gm_max_bytes :: u32
  gm_max_wait_ms :: u32

definition group_consumer_new :: "nat \<Rightarrow> string \<Rightarrow> string list \<Rightarrow> u32 \<Rightarrow> group_consumer" where
  "group_consumer_new now grp topics session_timeout_ms =
     \<lparr>gm_group = grp, gm_topics = topics, gm_session_timeout_ms = session_timeout_ms, gm_member_id = [],
      gm_generation = 0, gm_assignment = [], gm_positions = [], gm_last_heartbeat = now,
      gm_round_robin = 0, gm_max_bytes = 1048576, gm_max_wait_ms = 0\<rparr>"

section \<open>Joining\<close>

text \<open>The loop over the assignment: each position is the committed offset or 0.\<close>

fun load_positions ::
    "'s server_ops \<Rightarrow> string \<Rightarrow> (string \<times> u32) list \<Rightarrow> (string \<times> u32, u64) hashmap \<Rightarrow> 's \<Rightarrow>
     's \<times> (client_error + (string \<times> u32, u64) hashmap)" where
  "load_positions so grp [] positions s = (s, Inr positions)"
| "load_positions so grp (slot # slots) positions s =
     (let (s, r) = so_fetch_offset so grp slot s
      in case bind_r r fetch_offset_result of
        Inl e \<Rightarrow> (s, Inl e)
      | Inr committed \<Rightarrow>
          load_positions so grp slots
            (hm_insert slot (case committed of None \<Rightarrow> 0 | Some offset \<Rightarrow> offset) positions) s)"

definition rejoin ::
    "'s server_ops \<Rightarrow> nat \<Rightarrow> 's \<times> group_consumer \<Rightarrow> ('s \<times> group_consumer) \<times> (client_error + unit)" where
  "rejoin so now sc =
     (let (s, c) = sc;
          (s, r) = so_join so (gm_group c) (gm_member_id c) (gm_session_timeout_ms c) (gm_topics c) s
      in case r of
        Inl e \<Rightarrow> ((s, c), Inl e)
      | Inr (JoinGroupResp error member_id generation assignment) \<Rightarrow>
          if error \<noteq> NoError then ((s, c), Inl (BrokerErr error))
          else (case load_positions so (gm_group c) assignment [] s of
              (s, Inl e) \<Rightarrow> ((s, c), Inl e)
            | (s, Inr positions) \<Rightarrow>
                ((s, c\<lparr>gm_member_id := member_id, gm_generation := generation, gm_assignment := assignment,
                   gm_positions := positions, gm_last_heartbeat := now\<rparr>), Inr ()))
      | Inr _ \<Rightarrow> ((s, c), Inl UnexpectedResponse))"

definition group_join ::
    "'s server_ops \<Rightarrow> nat \<Rightarrow> string \<Rightarrow> string list \<Rightarrow> u32 \<Rightarrow> 's \<Rightarrow> 's \<times> (client_error + group_consumer)" where
  "group_join so now grp topics session_timeout_ms s =
     (case rejoin so now (s, group_consumer_new now grp topics session_timeout_ms) of
        ((s, c), Inl e) \<Rightarrow> (s, Inl e)
      | ((s, c), Inr _) \<Rightarrow> (s, Inr c))"

definition maybe_heartbeat ::
    "'s server_ops \<Rightarrow> nat \<Rightarrow> 's \<times> group_consumer \<Rightarrow> ('s \<times> group_consumer) \<times> (client_error + unit)" where
  "maybe_heartbeat so now sc =
     (let (s, c) = sc
      in if now - gm_last_heartbeat c < max (unat (gm_session_timeout_ms c) div 3) 1 then (sc, Inr ())
         else
           let (s, r) = so_heartbeat so (gm_group c) (gm_member_id c) (gm_generation c) s
           in case r of
             Inl e \<Rightarrow> ((s, c), Inl e)
           | Inr (HeartbeatResp error) \<Rightarrow>
               if error = NoError then ((s, c\<lparr>gm_last_heartbeat := now\<rparr>), Inr ())
               else if error = StaleGeneration \<or> error = UnknownMember then rejoin so now (s, c)
               else ((s, c), Inl (BrokerErr error))
           | Inr _ \<Rightarrow> ((s, c), Inl UnexpectedResponse))"

section \<open>Polling\<close>

text \<open>The loop of \<open>poll\<close>: at most one round over the assignment.\<close>

fun poll_loop ::
    "'s server_ops \<Rightarrow> nat \<Rightarrow> 's \<times> group_consumer \<Rightarrow>
     ('s \<times> group_consumer) \<times> (client_error + ((string \<times> u32) \<times> fetched_record) list)" where
  "poll_loop so 0 sc = (sc, Inr [])"
| "poll_loop so (Suc n) sc =
     (let (s, c) = sc;
          slot = gm_assignment c ! (gm_round_robin c mod length (gm_assignment c));
          c = c\<lparr>gm_round_robin := gm_round_robin c + 1\<rparr>;
          position = (case hm_get (gm_positions c) slot of None \<Rightarrow> 0 | Some position \<Rightarrow> position);
          (s, r) = so_fetch so slot position (gm_max_bytes c) (gm_max_wait_ms c) s
      in case bind_r r fetch_result of
        Inl e \<Rightarrow> ((s, c), Inl e)
      | Inr (_, _, records) \<Rightarrow>
          if records = [] then poll_loop so n (s, c)
          else ((s, c\<lparr>gm_positions := hm_insert slot (fr_offset (last records) + 1) (gm_positions c)\<rparr>),
                Inr (map (\<lambda>r. (slot, r)) records)))"

definition group_poll ::
    "'s server_ops \<Rightarrow> nat \<Rightarrow> 's \<times> group_consumer \<Rightarrow>
     ('s \<times> group_consumer) \<times> (client_error + ((string \<times> u32) \<times> fetched_record) list)" where
  "group_poll so now sc =
     (case maybe_heartbeat so now sc of
        (sc, Inl e) \<Rightarrow> (sc, Inl e)
      | (sc, Inr _) \<Rightarrow>
          if gm_assignment (snd sc) = [] then (sc, Inr [])
          else poll_loop so (length (gm_assignment (snd sc))) sc)"

section \<open>Committing\<close>

text \<open>The loop of \<open>commit\<close> over a copy of the positions.\<close>

fun commit_loop ::
    "'s server_ops \<Rightarrow> nat \<Rightarrow> ((string \<times> u32) \<times> u64) list \<Rightarrow> 's \<times> group_consumer \<Rightarrow>
     ('s \<times> group_consumer) \<times> (client_error + unit)" where
  "commit_loop so now [] sc = (sc, Inr ())"
| "commit_loop so now ((slot, position) # ps) sc =
     (let (s, c) = sc;
          (s, r) = so_commit so (gm_group c) slot position (gm_member_id c) (gm_generation c) s
      in case bind_r r commit_result of
        Inr _ \<Rightarrow> commit_loop so now ps (s, c)
      | Inl e \<Rightarrow>
          if e = BrokerErr StaleGeneration \<or> e = BrokerErr UnknownMember then
            (case rejoin so now (s, c) of
               (sc, Inl e') \<Rightarrow> (sc, Inl e')
             | (sc, Inr _) \<Rightarrow> (sc, Inl e))
          else ((s, c), Inl e))"

definition group_commit ::
    "'s server_ops \<Rightarrow> nat \<Rightarrow> 's \<times> group_consumer \<Rightarrow> ('s \<times> group_consumer) \<times> (client_error + unit)" where
  "group_commit so now sc = commit_loop so now (gm_positions (snd sc)) sc"

end
