(* ===== verification/GroupDelivery.thy ===== *)
theory GroupDelivery
  imports GroupClient Machines
begin

text \<open>
  Delivery through consumer groups: the contract a group consumer needs of its server, and what
  any number of consumers then guarantee together. The theorem about the broker of the
  development is in theory \<open>BrokerServer\<close>, which discharges the contract.
\<close>

section \<open>The contract of the server\<close>

text \<open>What a position stands for when none is stored.\<close>

definition or_zero :: "u64 option \<Rightarrow> u64" where
  "or_zero x = (case x of None \<Rightarrow> 0 | Some v \<Rightarrow> v)"

text \<open>
  \<open>committed\<close> reads the committed offset of a group and a partition off the server's state,
  \<open>env\<close> is what happens at the server besides the calls.
\<close>

locale offset_server =
  fixes so :: "'s server_ops"
    and committed :: "'s \<Rightarrow> string \<Rightarrow> string \<times> u32 \<Rightarrow> u64"
    and good :: "'s \<Rightarrow> bool"
    and env :: "'s \<Rightarrow> 's \<Rightarrow> bool"
  assumes join_law: "good s \<Longrightarrow> so_join so grp member_id timeout topics s = (s', r) \<Longrightarrow>
      good s' \<and> committed s' = committed s"
    and heartbeat_law: "good s \<Longrightarrow> so_heartbeat so grp member_id generation s = (s', r) \<Longrightarrow>
      good s' \<and> committed s' = committed s"
    and fetch_offset_law: "good s \<Longrightarrow> so_fetch_offset so grp slot s = (s', r) \<Longrightarrow>
      good s' \<and> committed s' = committed s \<and>
      (\<forall>x. bind_r r fetch_offset_result = Inr x \<longrightarrow> or_zero x \<le> committed s grp slot)"
    and fetch_law: "good s \<Longrightarrow> so_fetch so slot pos max_bytes max_wait s = (s', r) \<Longrightarrow>
      good s' \<and> committed s' = committed s \<and>
      (\<forall>a b recs. bind_r r fetch_result = Inr (a, b, recs) \<longrightarrow>
        (\<forall>i < length recs. unat (fr_offset (recs ! i)) = unat pos + i) \<and> unat pos + length recs < 2 ^ 64)"
    and commit_law: "good s \<Longrightarrow> so_commit so grp slot pos member_id generation s = (s', r) \<Longrightarrow>
      good s' \<and> (\<forall>grp' slot'. committed s' grp' slot' = committed s grp' slot' \<or>
        grp' = grp \<and> slot' = slot \<and> committed s' grp' slot' = pos)"
    and env_law: "env s s' \<Longrightarrow> good s \<Longrightarrow> good s' \<and> committed s' = committed s"

section \<open>The system\<close>

text \<open>
  The server, the consumers, and what has been returned to the applications: group, partition
  and offset. A method of a consumer is one step; consumers come, and go without a word.
\<close>

record 's system =
  sy_server :: 's
  sy_consumers :: "group_consumer list"
  sy_delivered :: "(string \<times> (string \<times> u32) \<times> nat) set"

definition returned ::
    "string \<Rightarrow> client_error + ((string \<times> u32) \<times> fetched_record) list \<Rightarrow> (string \<times> (string \<times> u32) \<times> nat) set" where
  "returned grp r =
     (case r of Inl _ \<Rightarrow> {} | Inr rs \<Rightarrow> (\<lambda>(slot, x). (grp, slot, unat (fr_offset x))) ` set rs)"

inductive system_step :: "'s server_ops \<Rightarrow> ('s \<Rightarrow> 's \<Rightarrow> bool) \<Rightarrow> 's system \<Rightarrow> 's system \<Rightarrow> bool"
  for so :: "'s server_ops" and env :: "'s \<Rightarrow> 's \<Rightarrow> bool" where
  server: "env (sy_server y) s' \<Longrightarrow> system_step so env y (y\<lparr>sy_server := s'\<rparr>)"
| start: "group_join so now grp topics timeout (sy_server y) = (s', r) \<Longrightarrow>
    system_step so env y
      (y\<lparr>sy_server := s', sy_consumers := sy_consumers y @ (case r of Inl _ \<Rightarrow> [] | Inr c \<Rightarrow> [c])\<rparr>)"
| poll: "i < length (sy_consumers y) \<Longrightarrow>
    group_poll so now (sy_server y, sy_consumers y ! i) = ((s', c'), r) \<Longrightarrow>
    system_step so env y
      (y\<lparr>sy_server := s', sy_consumers := (sy_consumers y)[i := c'],
         sy_delivered := sy_delivered y \<union> returned (gm_group (sy_consumers y ! i)) r\<rparr>)"
| commit: "i < length (sy_consumers y) \<Longrightarrow>
    group_commit so now (sy_server y, sy_consumers y ! i) = ((s', c'), r) \<Longrightarrow>
    system_step so env y (y\<lparr>sy_server := s', sy_consumers := (sy_consumers y)[i := c']\<rparr>)"
| stop: "system_step so env y
    (y\<lparr>sy_consumers := take i (sy_consumers y) @ drop (i + 1) (sy_consumers y)\<rparr>)"

text \<open>Every offset below a position was returned.\<close>

definition covered :: "(string \<times> (string \<times> u32) \<times> nat) set \<Rightarrow> string \<Rightarrow> (string \<times> u32 \<Rightarrow> u64) \<Rightarrow> bool" where
  "covered D grp p \<longleftrightarrow> (\<forall>slot. \<forall>o' < unat (p slot). (grp, slot, o') \<in> D)"

abbreviation resume_at :: "group_consumer \<Rightarrow> string \<times> u32 \<Rightarrow> u64" where
  "resume_at c slot \<equiv> or_zero (hm_get (gm_positions c) slot)"

lemma covered_mono: "covered D grp p \<Longrightarrow> D \<subseteq> D' \<Longrightarrow> covered D' grp p"
  by (auto simp: covered_def)

lemma covered_le: "covered D grp p \<Longrightarrow> (\<And>slot. q slot \<le> p slot) \<Longrightarrow> covered D grp q"
  unfolding covered_def by (meson order_less_le_trans word_le_nat_alt)

lemma or_zero_simps [simp]: "or_zero None = 0" "or_zero (Some v) = v"
  by (simp_all add: or_zero_def)

lemma covered_insert:
  assumes "covered D grp q" and "covered D grp (\<lambda>sl. or_zero (hm_get positions sl))" and "v \<le> q slot"
  shows "covered D grp (\<lambda>sl. or_zero (hm_get (hm_insert slot v positions) sl))"
  unfolding covered_def
proof (intro allI impI)
  fix sl o' assume o': "o' < unat (or_zero (hm_get (hm_insert slot v positions) sl))"
  show "(grp, sl, o') \<in> D"
  proof (cases "sl = slot")
    case True
    then have "o' < unat (q sl)" using o' assms(3) by (simp add: word_le_nat_alt)
    then show ?thesis using assms(1) unfolding covered_def by blast
  next
    case False
    then have "o' < unat (or_zero (hm_get positions sl))" using o' by simp
    then show ?thesis using assms(2) unfolding covered_def by blast
  qed
qed

text \<open>The records of one fetch carry a position forward.\<close>

lemma covered_returned:
  assumes "covered D grp (\<lambda>sl. or_zero (hm_get positions sl))"
    and nth: "\<forall>i < length recs. unat (fr_offset (recs ! i)) = unat (or_zero (hm_get positions slot)) + i"
    and v: "unat v = unat (or_zero (hm_get positions slot)) + length recs"
  shows "covered (D \<union> returned grp (Inr (map (\<lambda>x. (slot, x)) recs))) grp
    (\<lambda>sl. or_zero (hm_get (hm_insert slot v positions) sl))"
  unfolding covered_def
proof (intro allI impI)
  fix sl o' assume o': "o' < unat (or_zero (hm_get (hm_insert slot v positions) sl))"
  show "(grp, sl, o') \<in> D \<union> returned grp (Inr (map (\<lambda>x. (slot, x)) recs))"
  proof (cases "sl = slot \<and> unat (or_zero (hm_get positions slot)) \<le> o'")
    case True
    define i where "i = o' - unat (or_zero (hm_get positions slot))"
    have "i < length recs" using True o' v by (auto simp: i_def)
    moreover have "unat (fr_offset (recs ! i)) = o'" using nth calculation True by (simp add: i_def)
    ultimately have "(grp, slot, o') \<in> (\<lambda>x. (grp, slot, unat (fr_offset x))) ` set recs"
      by (metis (no_types, lifting) imageI nth_mem)
    then show ?thesis using True by (simp add: returned_def image_image)
  next
    case False
    then have "o' < unat (or_zero (hm_get positions sl))" using o' by (auto split: if_splits)
    then show ?thesis using assms(1) unfolding covered_def by blast
  qed
qed

section \<open>The operations of a consumer\<close>

context offset_server begin

text \<open>What every operation keeps: the server good, the committed offsets and positions covered.\<close>

definition kept :: "(string \<times> (string \<times> u32) \<times> nat) set \<Rightarrow> 's \<times> group_consumer \<Rightarrow> bool" where
  "kept D sc \<longleftrightarrow> good (fst sc) \<and> (\<forall>grp. covered D grp (committed (fst sc) grp)) \<and>
     covered D (gm_group (snd sc)) (resume_at (snd sc)) \<and> hm_wf (gm_positions (snd sc))"

lemma load_positions_ok:
  assumes "load_positions so grp slots positions s = (s', r)" and "good s"
    and "covered D grp (committed s grp)" and "covered D grp (\<lambda>slot. or_zero (hm_get positions slot))"
    and "hm_wf positions"
  shows "good s' \<and> committed s' = committed s \<and>
    (\<forall>positions'. r = Inr positions' \<longrightarrow>
       covered D grp (\<lambda>slot. or_zero (hm_get positions' slot)) \<and> hm_wf positions')"
  using assms
proof (induction slots arbitrary: positions s)
  case (Cons slot slots)
  obtain s1 r1 where f: "so_fetch_offset so grp slot s = (s1, r1)" by fastforce
  note law = fetch_offset_law [OF Cons.prems(2) f]
  show ?case
  proof (cases "bind_r r1 fetch_offset_result")
    case (Inl e)
    then show ?thesis using Cons.prems(1) f law by auto
  next
    case (Inr x)
    have le: "or_zero x \<le> committed s grp slot" using law Inr by blast
    have "covered D grp (\<lambda>sl. or_zero (hm_get (hm_insert slot (or_zero x) positions) sl))"
      by (rule covered_insert [OF Cons.prems(3,4) le])
    then show ?thesis
      using Cons.IH [of "hm_insert slot (or_zero x) positions" s1] Cons.prems(1,3,5) f Inr law
      by (simp add: or_zero_def)
  qed
qed auto

lemma rejoin_ok:
  assumes "rejoin so now sc = (sc', r)" and "kept D sc"
  shows "kept D sc' \<and> gm_group (snd sc') = gm_group (snd sc)"
proof -
  obtain s c where sc: "sc = (s, c)" by (cases sc)
  obtain s1 r1 where j: "so_join so (gm_group c) (gm_member_id c) (gm_session_timeout_ms c) (gm_topics c) s = (s1, r1)"
    by fastforce
  have k: "good s" "\<And>grp. covered D grp (committed s grp)" "covered D (gm_group c) (resume_at c)"
    "hm_wf (gm_positions c)"
    using assms(2) by (simp_all add: kept_def sc)
  note law = join_law [OF k(1) j]
  have same: "kept D (s1, c)" using k law by (simp add: kept_def)
  show ?thesis
  proof (cases "\<exists>member_id generation assignment. r1 = Inr (JoinGroupResp NoError member_id generation assignment)")
    case False
    then have "sc' = (s1, c)"
      using assms(1) by (auto simp: rejoin_def sc j split: sum.splits response.splits if_splits)
    then show ?thesis using same by (simp add: sc)
  next
    case True
    then obtain member_id generation assignment where r1: "r1 = Inr (JoinGroupResp NoError member_id generation assignment)"
      by blast
    obtain s2 r2 where l: "load_positions so (gm_group c) assignment [] s1 = (s2, r2)" by fastforce
    have "covered D (gm_group c) (\<lambda>slot. or_zero (hm_get [] slot))" by (simp add: covered_def)
    from load_positions_ok [OF l _ _ this] k law
    have "good s2 \<and> committed s2 = committed s \<and>
        (\<forall>positions'. r2 = Inr positions' \<longrightarrow>
           covered D (gm_group c) (\<lambda>slot. or_zero (hm_get positions' slot)) \<and> hm_wf positions')"
      by simp
    then show ?thesis
      using assms(1) k by (cases r2) (auto simp: rejoin_def sc j r1 l kept_def)
  qed
qed

lemma maybe_heartbeat_ok:
  assumes "maybe_heartbeat so now sc = (sc', r)" and "kept D sc"
  shows "kept D sc' \<and> gm_group (snd sc') = gm_group (snd sc)"
proof -
  obtain s c where sc: "sc = (s, c)" by (cases sc)
  obtain s1 r1 where h: "so_heartbeat so (gm_group c) (gm_member_id c) (gm_generation c) s = (s1, r1)" by fastforce
  have k: "good s" using assms(2) by (simp add: kept_def sc)
  have same: "kept D (s1, c)" "kept D (s1, c\<lparr>gm_last_heartbeat := now\<rparr>)"
    using heartbeat_law [OF k h] assms(2) by (simp_all add: kept_def sc)
  show ?thesis
    using assms same rejoin_ok [of now "(s1, c)" sc' r D]
    by (auto simp: maybe_heartbeat_def sc h split: if_splits sum.splits response.splits)
qed


lemma poll_loop_ok:
  assumes "poll_loop so n sc = (sc', r)" and "kept D sc"
  shows "kept (D \<union> returned (gm_group (snd sc)) r) sc' \<and> gm_group (snd sc') = gm_group (snd sc)"
  using assms
proof (induction n arbitrary: sc)
  case 0
  then show ?case by (auto simp: returned_def)
next
  case (Suc n)
  obtain s c where sc: "sc = (s, c)" by (cases sc)
  define slot where "slot = gm_assignment c ! (gm_round_robin c mod length (gm_assignment c))"
  define c1 where "c1 = c\<lparr>gm_round_robin := gm_round_robin c + 1\<rparr>"
  obtain s1 r1 where f: "so_fetch so slot (resume_at c slot) (gm_max_bytes c) (gm_max_wait_ms c) s = (s1, r1)"
    by fastforce
  have k: "good s" "\<And>grp. covered D grp (committed s grp)" "covered D (gm_group c) (resume_at c)"
    "hm_wf (gm_positions c)"
    using Suc.prems(2) by (simp_all add: kept_def sc)
  note law = fetch_law [OF k(1) f]
  have same: "kept D (s1, c1)" using k law by (simp add: kept_def c1_def)
  have pos: "(case hm_get (gm_positions c) slot of None \<Rightarrow> 0 | Some position \<Rightarrow> position) = resume_at c slot"
    by (simp add: or_zero_def)
  have step: "poll_loop so (Suc n) sc = (case bind_r r1 fetch_result of
        Inl e \<Rightarrow> ((s1, c1), Inl e)
      | Inr (_, _, records) \<Rightarrow>
          if records = [] then poll_loop so n (s1, c1)
          else ((s1, c1\<lparr>gm_positions := hm_insert slot (fr_offset (last records) + 1) (gm_positions c1)\<rparr>),
                Inr (map (\<lambda>r. (slot, r)) records)))"
    unfolding poll_loop.simps sc Let_def prod.case slot_def [symmetric] c1_def [symmetric]
    by (simp add: f pos c1_def)
  show ?case
  proof (cases "bind_r r1 fetch_result")
    case (Inl e)
    then show ?thesis using Suc.prems(1) same step by (auto simp: returned_def sc c1_def)
  next
    case (Inr x)
    obtain a b recs where x: "x = (a, b, recs)" by (cases x)
    show ?thesis
    proof (cases "recs = []")
      case True
      then have "poll_loop so n (s1, c1) = (sc', r)" using Suc.prems(1) step Inr x by simp
      from Suc.IH [OF this same] show ?thesis by (simp add: sc c1_def)
    next
      case False
      define c2 where "c2 = c1\<lparr>gm_positions := hm_insert slot (fr_offset (last recs) + 1) (gm_positions c1)\<rparr>"
      have res: "sc' = (s1, c2)" "r = Inr (map (\<lambda>r. (slot, r)) recs)"
        using Suc.prems(1) step Inr x False by (simp_all add: c2_def)
      have nth: "\<forall>i < length recs. unat (fr_offset (recs ! i)) = unat (resume_at c slot) + i"
        and small: "unat (resume_at c slot) + length recs < 2 ^ 64" using law Inr x by blast+
      have "unat (fr_offset (last recs)) + 1 = unat (resume_at c slot) + length recs"
        using nth False by (simp add: last_conv_nth Suc_le_eq)
      then have next_pos: "unat (fr_offset (last recs) + 1) = unat (resume_at c slot) + length recs"
        using small by (simp add: unat_word_ariths)
      have "covered (D \<union> returned (gm_group c) r) (gm_group c) (resume_at c2)"
        using covered_returned [OF k(3) nth next_pos] by (simp add: c2_def c1_def res)
      then show ?thesis using k law
        by (auto simp: kept_def res c1_def c2_def sc intro: covered_mono)
    qed
  qed
qed

lemma group_poll_ok:
  assumes "group_poll so now sc = (sc', r)" and "kept D sc"
  shows "kept (D \<union> returned (gm_group (snd sc)) r) sc' \<and> gm_group (snd sc') = gm_group (snd sc)"
proof -
  obtain sc1 r1 where h: "maybe_heartbeat so now sc = (sc1, r1)" by fastforce
  note k = maybe_heartbeat_ok [OF h assms(2)]
  show ?thesis
  proof (cases r1)
    case (Inl e)
    then show ?thesis using assms(1) h k by (auto simp: group_poll_def returned_def)
  next
    case (Inr u)
    then show ?thesis
      using assms(1) h k poll_loop_ok [of "length (gm_assignment (snd sc1))" sc1 sc' r D]
      by (auto simp: group_poll_def returned_def split: if_splits)
  qed
qed

lemma commit_loop_ok:
  assumes "commit_loop so now ps sc = (sc', r)" and "kept D sc"
    and "\<forall>(slot, p) \<in> set ps. \<forall>o' < unat p. (gm_group (snd sc), slot, o') \<in> D"
  shows "kept D sc' \<and> gm_group (snd sc') = gm_group (snd sc)"
  using assms
proof (induction ps arbitrary: sc)
  case (Cons p ps)
  obtain s c where sc: "sc = (s, c)" by (cases sc)
  obtain slot position where p: "p = (slot, position)" by (cases p)
  obtain s1 r1 where f: "so_commit so (gm_group c) slot position (gm_member_id c) (gm_generation c) s = (s1, r1)"
    by fastforce
  have k: "good s" "\<And>grp. covered D grp (committed s grp)" "covered D (gm_group c) (resume_at c)"
    "hm_wf (gm_positions c)"
    using Cons.prems(2) by (simp_all add: kept_def sc)
  note law = commit_law [OF k(1) f]
  have new: "\<forall>o' < unat position. (gm_group c, slot, o') \<in> D" using Cons.prems(3) by (simp add: p sc)
  have "covered D grp (committed s1 grp)" for grp
    using k(2) [of grp] law new unfolding covered_def by metis
  then have same: "kept D (s1, c)" using k law by (simp add: kept_def)
  show ?case
  proof (cases "bind_r r1 commit_result")
    case (Inr u)
    then have "commit_loop so now ps (s1, c) = (sc', r)" using Cons.prems(1) f by (simp add: sc p)
    from Cons.IH [OF this same] Cons.prems(3) show ?thesis by (simp add: sc)
  next
    case (Inl e)
    obtain sc2 r2 where j: "rejoin so now (s1, c) = (sc2, r2)" by fastforce
    have "sc' = (s1, c) \<or> sc' = sc2"
      using Cons.prems(1) f Inl j by (auto simp: sc p split: if_splits sum.splits)
    then show ?thesis using same rejoin_ok [OF j same] by (auto simp: sc)
  qed
qed auto

lemma group_commit_ok:
  assumes "group_commit so now sc = (sc', r)" and "kept D sc"
  shows "kept D sc' \<and> gm_group (snd sc') = gm_group (snd sc)"
proof -
  have "\<forall>o' < unat p. (gm_group (snd sc), slot, o') \<in> D"
    if "(slot, p) \<in> set (gm_positions (snd sc))" for slot p
  proof -
    have "resume_at (snd sc) slot = p" using assms(2) that by (simp add: kept_def)
    then show ?thesis using assms(2) unfolding kept_def covered_def by metis
  qed
  then have "\<forall>(slot, p) \<in> set (gm_positions (snd sc)). \<forall>o' < unat p. (gm_group (snd sc), slot, o') \<in> D"
    by blast
  with assms(1) show ?thesis unfolding group_commit_def by (rule commit_loop_ok [OF _ assms(2)])
qed


lemma group_join_ok:
  assumes "group_join so now grp topics timeout s = (s', r)" and "good s"
    and "\<forall>grp. covered D grp (committed s grp)"
  shows "good s' \<and> (\<forall>grp. covered D grp (committed s' grp)) \<and> (\<forall>c. r = Inr c \<longrightarrow> kept D (s', c))"
proof -
  define c0 where "c0 = group_consumer_new now grp topics timeout"
  obtain s1 c1 r1 where j: "rejoin so now (s, c0) = ((s1, c1), r1)" by (metis prod.exhaust)
  have "kept D (s, c0)"
    using assms(2,3) by (simp add: kept_def c0_def group_consumer_new_def covered_def)
  from rejoin_ok [OF j this] have k: "kept D (s1, c1)" by simp
  then show ?thesis
    using assms(1) j by (cases r1) (auto simp: group_join_def c0_def [symmetric] kept_def)
qed

section \<open>The system\<close>

definition sys_inv :: "'s system \<Rightarrow> bool" where
  "sys_inv y \<longleftrightarrow> good (sy_server y) \<and>
     (\<forall>grp. covered (sy_delivered y) grp (committed (sy_server y) grp)) \<and>
     (\<forall>c \<in> set (sy_consumers y). kept (sy_delivered y) (sy_server y, c))"

lemma kept_server:
  "kept D (s, c) \<Longrightarrow> good s' \<Longrightarrow> \<forall>grp. covered D' grp (committed s' grp) \<Longrightarrow> D \<subseteq> D' \<Longrightarrow> kept D' (s', c)"
  by (auto simp: kept_def intro: covered_mono)

lemma system_step_inv:
  assumes "system_step so env y y'" and "sys_inv y"
  shows "sys_inv y'"
  using assms
proof (induction rule: system_step.induct)
  case (server y s')
  then show ?case using env_law [OF server(1)] by (auto simp: sys_inv_def kept_def)
next
  case (start now grp topics timeout y s' r)
  then have k: "good s'" "\<forall>grp. covered (sy_delivered y) grp (committed s' grp)"
      "\<forall>c. r = Inr c \<longrightarrow> kept (sy_delivered y) (s', c)"
    using group_join_ok [OF start(1), of "sy_delivered y"] by (simp_all add: sys_inv_def)
  then have "kept (sy_delivered y) (s', c)" if "c \<in> set (sy_consumers y)" for c
    using start(2) that kept_server by (fastforce simp: sys_inv_def)
  then show ?case using k by (auto simp: sys_inv_def split: sum.splits)
next
  case (poll i y now s' c' r)
  define D where "D = sy_delivered y \<union> returned (gm_group (sy_consumers y ! i)) r"
  have c: "kept (sy_delivered y) (sy_server y, sy_consumers y ! i)" using poll(1,3) by (simp add: sys_inv_def)
  have k: "kept D (s', c')" using group_poll_ok [OF poll(2) c] by (simp add: D_def)
  then have "kept D (s', c)" if "c \<in> set (sy_consumers y)" for c
    using poll(3) that kept_server [of "sy_delivered y" "sy_server y" c s' D]
    by (auto simp: sys_inv_def D_def kept_def)
  then have "\<forall>c \<in> set ((sy_consumers y)[i := c']). kept D (s', c)"
    using k set_update_subset_insert [of "sy_consumers y" i c'] by blast
  then show ?case using k by (simp add: sys_inv_def D_def [symmetric] kept_def)
next
  case (commit i y now s' c' r)
  define D where "D = sy_delivered y"
  have c: "kept D (sy_server y, sy_consumers y ! i)" using commit(1,3) by (simp add: sys_inv_def D_def)
  have k: "kept D (s', c')" using group_commit_ok [OF commit(2) c] by simp
  then have "kept D (s', c)" if "c \<in> set (sy_consumers y)" for c
    using commit(3) that kept_server [of D "sy_server y" c s' D]
    by (auto simp: sys_inv_def D_def kept_def)
  then have "\<forall>c \<in> set ((sy_consumers y)[i := c']). kept D (s', c)"
    using k set_update_subset_insert [of "sy_consumers y" i c'] by blast
  then show ?case using k by (simp add: sys_inv_def D_def [symmetric] kept_def)
next
  case (stop y i)
  then show ?case using set_take_subset [of i] set_drop_subset [of "i + 1"] by (auto simp: sys_inv_def dest: in_set_takeD in_set_dropD)
qed

sublocale consumers: preserved "system_step so env" sys_inv
  by unfold_locales (rule system_step_inv)

text \<open>Whatever was committed was returned, and so was what the consumers would commit next.\<close>

lemma committed_was_returned:
  assumes "(system_step so env)\<^sup>*\<^sup>* y y'" and "good (sy_server y)"
    and "\<And>grp slot. committed (sy_server y) grp slot = 0" and "sy_consumers y = []"
    and "o' < unat (committed (sy_server y') grp slot)"
  shows "(grp, slot, o') \<in> sy_delivered y'"
proof -
  have "sys_inv y" using assms(2-4) by (simp add: sys_inv_def covered_def)
  from consumers.run [OF assms(1) this]
  have "covered (sy_delivered y') grp (committed (sy_server y') grp)" by (simp add: sys_inv_def)
  then show ?thesis using assms(5) unfolding covered_def by blast
qed

end

end
