(* ===== verification/BrokerServer.thy ===== *)
theory BrokerServer
  imports GroupDelivery BrokerDispatch OffsetsProperties
begin

text \<open>
  The broker as a server of group consumers: a request goes through \<open>dispatch\<close>, the partition it
  is sent to and the task that answers. The theory shows that a standalone broker keeps the
  contract of theory \<open>GroupDelivery\<close>, and what consumers and broker then guarantee together.
\<close>

section \<open>Serving a request\<close>

text \<open>The broker's clock and the reply channels it has handed out come with its state.\<close>

record server =
  sv_now :: nat
  sv_reply :: reply
  sv_shared :: shared

text \<open>The writer of a partition, and the state with that writer changed.\<close>

definition place_actor :: "place \<Rightarrow> shared \<Rightarrow> actor option" where
  "place_actor pl s =
     (case pl of
        TopicLog topic part \<Rightarrow> partition_of s topic part
      | ReplicaLog topic part \<Rightarrow> map_option snd (hm_get (sh_replicas s) (topic, part))
      | OffsetsLog \<Rightarrow> Some (os_partition (sh_offsets s)))"

definition set_place :: "place \<Rightarrow> actor \<Rightarrow> shared \<Rightarrow> shared" where
  "set_place pl a s =
     (case pl of
        TopicLog topic part \<Rightarrow>
          (case hm_get (sh_topics s) topic of
             None \<Rightarrow> s
           | Some ps \<Rightarrow> s\<lparr>sh_topics := hm_insert topic (ps[unat part := a]) (sh_topics s)\<rparr>)
      | ReplicaLog topic part \<Rightarrow>
          (case hm_get (sh_replicas s) (topic, part) of
             None \<Rightarrow> s
           | Some (rp, _) \<Rightarrow> s\<lparr>sh_replicas := hm_insert (topic, part) (rp, a) (sh_replicas s)\<rparr>)
      | OffsetsLog \<Rightarrow> s\<lparr>sh_offsets := (sh_offsets s)\<lparr>os_partition := a\<rparr>\<rparr>)"

text \<open>A command and, where its answer waits for one, the flush that brings it.\<close>

definition run_cmd ::
    "(bytes \<Rightarrow> u32) \<Rightarrow> broker_config \<Rightarrow> (nat \<Rightarrow> i64) \<Rightarrow> nat \<Rightarrow> reply \<Rightarrow> place \<Rightarrow> cmd \<Rightarrow> shared \<Rightarrow>
     shared \<times> answer option" where
  "run_cmd crc cfg ts now reply pl c s =
     (case place_actor pl s of
        None \<Rightarrow> (s, None)
      | Some a \<Rightarrow>
          let (a, out) = actor_cmd crc (bc_log cfg) now ts c a
          in (case map_of out reply of
                Some answer \<Rightarrow> (set_place pl a s, Some answer)
              | None \<Rightarrow> let (a, out) = actor_flush now a in (set_place pl a s, map_of out reply)))"

text \<open>
  What becomes of a request at a standalone broker, up to its answer. The long poll is its last
  round; the outcomes of a clustered broker do not come up.
\<close>

definition serve ::
    "(bytes \<Rightarrow> u32) \<Rightarrow> broker_config \<Rightarrow> (nat \<Rightarrow> i64) \<Rightarrow> request \<Rightarrow> server \<Rightarrow> server \<times> response option" where
  "serve crc cfg ts req sv =
     (let now = sv_now sv; reply = sv_reply sv;
          (s, _, d) = dispatch crc cfg now reply req (sv_shared sv);
          (s, r) =
            (case d of
               Respond r \<Rightarrow> (s, Some r)
             | SendOnly pl c \<Rightarrow> (fst (run_cmd crc cfg ts now reply pl c s), None)
             | SendThen pl c AnswerProduce \<Rightarrow>
                 (case run_cmd crc cfg ts now reply pl c s of
                    (s, Some (Appended r)) \<Rightarrow> (s, Some (finish_produce r))
                  | (s, _) \<Rightarrow> (s, None))
             | SendThen pl c (AnswerCommit grp topic part offset) \<Rightarrow>
                 (case run_cmd crc cfg ts now reply pl c s of
                    (s, Some (Appended r)) \<Rightarrow>
                      let (s, r) = finish_commit grp topic part offset r s in (s, Some r)
                  | (s, _) \<Rightarrow> (s, None))
             | PollFetch pl offset max_bytes max_wait \<Rightarrow>
                 (s, map_option (\<lambda>a. handle_fetch [] (actor_read crc (bc_log cfg) offset max_bytes a)) (place_actor pl s))
             | _ \<Rightarrow> (s, None))
      in (sv\<lparr>sv_reply := reply + 1, sv_shared := s\<rparr>, r))"

text \<open>The calls of a group consumer on that server. No answer comes of a closed connection.\<close>

definition broker_call ::
    "(bytes \<Rightarrow> u32) \<Rightarrow> broker_config \<Rightarrow> (nat \<Rightarrow> i64) \<Rightarrow> request \<Rightarrow> server \<Rightarrow> server \<times> (client_error + response)" where
  "broker_call crc cfg ts req sv =
     (case serve crc cfg ts req sv of
        (sv, None) \<Rightarrow> (sv, Inl Closed)
      | (sv, Some r) \<Rightarrow> (sv, Inr r))"

definition broker_ops ::
    "(bytes \<Rightarrow> u32) \<Rightarrow> broker_config \<Rightarrow> (nat \<Rightarrow> i64) \<Rightarrow> server server_ops" where
  "broker_ops crc cfg ts =
     \<lparr>so_join = \<lambda>grp member_id timeout topics. broker_call crc cfg ts (JoinGroupReq grp member_id timeout topics),
      so_heartbeat = \<lambda>grp member_id generation. broker_call crc cfg ts (HeartbeatReq grp member_id generation),
      so_fetch_offset = \<lambda>grp slot. broker_call crc cfg ts (FetchOffsetReq grp (fst slot) (snd slot)),
      so_fetch = \<lambda>slot offset max_bytes max_wait.
        broker_call crc cfg ts (FetchReq (fst slot) (snd slot) offset max_bytes max_wait),
      so_commit = \<lambda>grp slot offset member_id generation.
        broker_call crc cfg ts (CommitOffsetReq grp (fst slot) (snd slot) offset member_id generation)\<rparr>"

text \<open>
  What else happens at the broker: time passes, members expire, a partition's timer fires, and
  any other request but a commit arrives. Produces fit the offsets, and topics are created in
  directories that were not there.
\<close>

definition fits :: "request \<Rightarrow> shared \<Rightarrow> bool" where
  "fits req s =
     (case req of
        CommitOffsetReq _ _ _ _ _ _ \<Rightarrow> False
      | ProduceReq topic part _ _ records \<Rightarrow>
          pred_option (\<lambda>a. log_next_offset (ac_log a) + length records < 2 ^ 64) (partition_of s topic part)
      | CreateTopicReq topic _ _ \<Rightarrow> \<forall>p. hm_get (sh_dirs s) (partition_dir topic p) = None
      | _ \<Rightarrow> True)"

inductive broker_env ::
    "(bytes \<Rightarrow> u32) \<Rightarrow> broker_config \<Rightarrow> (nat \<Rightarrow> i64) \<Rightarrow> server \<Rightarrow> server \<Rightarrow> bool"
  for crc :: "bytes \<Rightarrow> u32" and cfg :: broker_config and ts :: "nat \<Rightarrow> i64" where
  clock: "sv_now sv \<le> now \<Longrightarrow> broker_env crc cfg ts sv (sv\<lparr>sv_now := now\<rparr>)"
| expiry: "broker_env crc cfg ts sv
    (sv\<lparr>sv_shared := (sv_shared sv)\<lparr>sh_groups :=
       fst (expire (sv_now sv) (topic_partitions cfg (sv_shared sv)) (sh_groups (sv_shared sv)))\<rparr>\<rparr>)"
| timer: "place_actor pl (sv_shared sv) = Some a \<Longrightarrow> broker_env crc cfg ts sv
    (sv\<lparr>sv_shared := set_place pl (fst (actor_timeout (bc_log cfg) (sv_now sv) a)) (sv_shared sv)\<rparr>)"
| request: "fits req (sv_shared sv) \<Longrightarrow> broker_env crc cfg ts sv (fst (serve crc cfg ts req sv))"

section \<open>The contract\<close>

definition topics_ok :: "(bytes \<Rightarrow> u32) \<Rightarrow> broker_config \<Rightarrow> shared \<Rightarrow> bool" where
  "topics_ok crc cfg s \<longleftrightarrow>
     (\<forall>topic ps. hm_get (sh_topics s) topic = Some ps \<longrightarrow> list_all (actor_good crc (bc_log cfg)) ps)"

definition server_ok :: "(bytes \<Rightarrow> u32) \<Rightarrow> broker_config \<Rightarrow> server \<Rightarrow> bool" where
  "server_ok crc cfg sv \<longleftrightarrow>
     \<not> bc_clustered cfg \<and> validate (actor_log_config (bc_log cfg)) = Inr () \<and> topics_ok crc cfg (sv_shared sv)"

text \<open>The committed offset of a partition, 0 where there is none.\<close>

definition committed_offset :: "server \<Rightarrow> string \<Rightarrow> string \<times> u32 \<Rightarrow> u64" where
  "committed_offset sv grp slot = or_zero (offsets_fetch grp (fst slot) (snd slot) (sh_offsets (sv_shared sv)))"

lemma set_place_ok:
  assumes "topics_ok crc cfg s" and "\<And>topic part. pl = TopicLog topic part \<Longrightarrow> actor_good crc (bc_log cfg) a"
  shows "topics_ok crc cfg (set_place pl a s) \<and> os_cache (sh_offsets (set_place pl a s)) = os_cache (sh_offsets s)"
proof (cases pl)
  case (TopicLog topic part)
  have "list_all (actor_good crc (bc_log cfg)) (ps[unat part := a])" if "hm_get (sh_topics s) topic = Some ps" for ps
    using that assms(1) assms(2) [OF TopicLog] set_update_subset_insert [of ps "unat part" a]
    unfolding topics_ok_def list_all_iff by blast
  then show ?thesis using assms(1) by (auto simp: TopicLog set_place_def topics_ok_def split: option.split)
next
  case (ReplicaLog topic part)
  then show ?thesis using assms(1) by (auto simp: set_place_def topics_ok_def split: option.split)
next
  case OffsetsLog
  then show ?thesis using assms(1) by (simp add: set_place_def topics_ok_def)
qed

lemma partition_of_good:
  "topics_ok crc cfg s \<Longrightarrow> partition_of s topic part = Some a \<Longrightarrow> actor_good crc (bc_log cfg) a"
  unfolding topics_ok_def partition_of_def
  by (auto simp: list_all_length split: option.splits if_splits)

lemma place_actor_topic [simp]: "place_actor (TopicLog topic part) s = partition_of s topic part"
  by (simp add: place_actor_def)

lemma run_cmd_ok:
  assumes "topics_ok crc cfg s" and "run_cmd crc cfg ts now reply pl c s = (s', r)"
    and "\<And>topic part a. pl = TopicLog topic part \<Longrightarrow> partition_of s topic part = Some a \<Longrightarrow> room c a"
  shows "topics_ok crc cfg s' \<and> os_cache (sh_offsets s') = os_cache (sh_offsets s)"
proof (cases "place_actor pl s")
  case None
  then show ?thesis using assms(1,2) by (simp add: run_cmd_def)
next
  case (Some a)
  define a1 where "a1 = fst (actor_cmd crc (bc_log cfg) now ts c a)"
  define a2 where "a2 = fst (actor_flush now a1)"
  have good: "actor_good crc (bc_log cfg) a1 \<and> actor_good crc (bc_log cfg) a2" if "pl = TopicLog topic part" for topic part
  proof -
    have p: "partition_of s topic part = Some a" using Some that by simp
    have "actor_good crc (bc_log cfg) a1"
      unfolding a1_def by (rule actor_cmd_good [OF partition_of_good [OF assms(1) p] assms(3) [OF that p]])
    then show ?thesis using actor_flush_keeps by (simp add: a2_def)
  qed
  have "s' = set_place pl a1 s \<or> s' = set_place pl a2 s"
    using assms(2) Some by (auto simp: run_cmd_def a1_def a2_def Let_def case_prod_beta split: option.splits)
  then show ?thesis using set_place_ok [OF assms(1)] good by blast
qed

text \<open>A partition that starts on a directory that was not there.\<close>

lemma spawn_new_good:
  assumes "validate (actor_log_config cfg) = Inr ()" and "actor_spawn crc cfg now [] = Inr a"
  shows "actor_good crc cfg a"
proof -
  let ?c = "actor_log_config cfg"
  let ?d = "ac_disk fresh_actor" and ?l = "(ac_log fresh_actor)\<lparr>lg_last_flush := now\<rparr>"
  have o: "log_open crc ?c now [] = Inr (?l, ?d)"
    by (simp add: log_open_def assms(1) segment_create_def fs_create_new_def fs_exists_def
        index_create_def fs_create_def fresh_actor_def)
  then have "log_ok crc ?c ?l ?d 0 [] []" using log_open_fresh [OF assms(1), of "[]" crc now] by simp
  then have inv: "log_inv crc ?c ?l ?d" by (rule log_ok_abs(4))
  have st: "epochs_stored [] ?d"
    using epochs_paths [of 0] by (simp add: epochs_stored_def fresh_actor_def)
  then have "epochs_load ?d = Inr []" by (intro epochs_load_stored) simp_all
  then have "a = \<lparr>ac_log = ?l, ac_disk = ?d, ac_epochs = [], ac_watch = log_next_offset ?l, ac_pending = [],
      ac_dirty_since = None\<rparr>"
    using assms(2) by (simp add: actor_spawn_def o)
  then show ?thesis using inv st
    by (simp add: actor_good_def actor_ok_def is_dirty_def Let_def) (simp add: fresh_actor_def log_next_offset_def)
qed

lemma spawn_partitions_good:
  assumes "\<And>q. hm_get dirs (partition_dir topic q) = None" and "validate (actor_log_config cfg) = Inr ()"
    and "spawn_partitions crc cfg now topic p n dirs = (Inr as', dirs')"
  shows "list_all (actor_good crc cfg) as'"
  using assms(1,3)
proof (induction n arbitrary: p dirs as')
  case (Suc n)
  obtain a where a: "actor_spawn crc cfg now [] = Inr a"
      "spawn_dir crc cfg now (partition_dir topic p) dirs = Inr (a, hm_remove (partition_dir topic p) dirs)"
    using Suc.prems by (cases "actor_spawn crc cfg now []") (auto simp: spawn_dir_def)
  then obtain as1 where as1: "spawn_partitions crc cfg now topic (p + 1) n (hm_remove (partition_dir topic p) dirs) =
      (Inr as1, dirs')" "as' = a # as1"
    using Suc.prems(2) by (auto split: prod.splits sum.splits)
  have "list_all (actor_good crc cfg) as1" by (rule Suc.IH [OF _ as1(1)]) (simp add: Suc.prems(1))
  then show ?case using spawn_new_good [OF assms(2) a(1)] as1(2) by simp
qed simp

lemma create_topic_ok:
  assumes "topics_ok crc cfg s" and "validate (actor_log_config (bc_log cfg)) = Inr ()"
    and "\<And>p. hm_get (sh_dirs s) (partition_dir topic p) = None"
    and "broker_create_topic crc cfg now topic partitions s = (s', e)"
  shows "topics_ok crc cfg s' \<and> sh_offsets s' = sh_offsets s"
proof -
  obtain r dirs where sp: "spawn_partitions crc (bc_log cfg) now topic 0 (unat partitions) (sh_dirs s) = (r, dirs)"
    by fastforce
  show ?thesis
    using assms(1,4) spawn_partitions_good [OF assms(3,2) sp [THEN trans]]
    by (auto simp: broker_create_topic_def sp topics_ok_def split: if_splits sum.splits)
qed

text \<open>What \<open>dispatch\<close> itself changes.\<close>

lemma dispatch_ok:
  assumes "\<not> bc_clustered cfg" and "topics_ok crc cfg s" and "validate (actor_log_config (bc_log cfg)) = Inr ()"
    and "\<And>topic n rf p. req = CreateTopicReq topic n rf \<Longrightarrow> hm_get (sh_dirs s) (partition_dir topic p) = None"
    and "dispatch crc cfg now reply req s = (s', out, d)"
  shows "topics_ok crc cfg s' \<and> sh_offsets s' = sh_offsets s"
proof (cases req)
  case (CreateTopicReq topic n rf)
  then show ?thesis
    using assms(1,2,5) create_topic_ok [OF assms(2,3) assms(4) [OF CreateTopicReq]]
    by (auto simp: dispatch_def dispatch_create_topic_def split: if_splits prod.splits)
next
  case (ReplicaFetchReq topic part follower epoch offset max_bytes max_wait)
  then show ?thesis using assms(2,5)
    by (auto simp: dispatch_def dispatch_replica_fetch_def topics_ok_def split: option.splits prod.splits)
qed (use assms(2,5) in \<open>auto simp: dispatch_def dispatch_join_def topics_ok_def split: prod.splits\<close>)

lemma dispatch_room:
  assumes "\<not> bc_clustered cfg" and "fits req s \<or> (\<exists>grp topic part offset m g. req = CommitOffsetReq grp topic part offset m g)"
    and "dispatch crc cfg now reply req s = (s', out, d)" and "d = SendOnly pl c \<or> d = SendThen pl c l"
    and "pl = TopicLog topic part" and "partition_of s' topic part = Some a"
  shows "room c a"
proof (cases req)
  case (ProduceReq t p acks epoch records)
  then show ?thesis
    using assms by (auto simp: dispatch_def dispatch_produce_def unless_silent_def fits_def cmd_size_def produce_pairs_def
        split: if_splits option.splits)
next
  case (CreateTopicReq t n rf)
  then show ?thesis using assms by (auto simp: dispatch_def dispatch_create_topic_def split: if_splits prod.splits)
next
  case (FetchReq t p offset max_bytes max_wait)
  then show ?thesis using assms by (auto simp: dispatch_def dispatch_fetch_def split: option.splits)
next
  case (CommitOffsetReq grp t p offset m g)
  then show ?thesis using assms by (auto simp: dispatch_def dispatch_commit_def Let_def split: if_splits)
next
  case (ReplicaFetchReq t p follower epoch offset max_bytes max_wait)
  then show ?thesis using assms
    by (auto simp: dispatch_def dispatch_replica_fetch_def split: option.splits prod.splits)
next
  case (EpochCheckReq t p e)
  then show ?thesis using assms
    by (auto simp: dispatch_def dispatch_epoch_check_def split: option.splits prod.splits if_splits)
qed (use assms in \<open>auto simp: dispatch_def dispatch_join_def split: prod.splits\<close>)

text \<open>A commit is the only request after which the broker answers through \<open>finish_commit\<close>.\<close>

lemma dispatch_commits:
  assumes "dispatch crc cfg now reply req s = (s', out, SendThen pl c (AnswerCommit grp topic part offset))"
  shows "\<exists>m g. req = CommitOffsetReq grp topic part offset m g"
proof (cases req)
  case (ProduceReq t p acks epoch records)
  then show ?thesis
    using assms by (auto simp: dispatch_def dispatch_produce_def unless_silent_def split: if_splits option.splits)
next
  case (CreateTopicReq t n rf)
  then show ?thesis using assms by (auto simp: dispatch_def dispatch_create_topic_def split: if_splits prod.splits)
next
  case (FetchReq t p offset max_bytes max_wait)
  then show ?thesis using assms by (auto simp: dispatch_def dispatch_fetch_def split: option.splits if_splits)
next
  case (CommitOffsetReq grp' t p offset m g)
  then show ?thesis using assms by (auto simp: dispatch_def dispatch_commit_def Let_def split: if_splits)
next
  case (ReplicaFetchReq t p follower epoch offset max_bytes max_wait)
  then show ?thesis using assms
    by (auto simp: dispatch_def dispatch_replica_fetch_def split: option.splits prod.splits)
next
  case (EpochCheckReq t p e)
  then show ?thesis using assms
    by (auto simp: dispatch_def dispatch_epoch_check_def split: option.splits prod.splits if_splits)
qed (use assms in \<open>auto simp: dispatch_def dispatch_join_def split: prod.splits\<close>)

lemma serve_ok:
  assumes ok: "server_ok crc cfg sv" and sv: "serve crc cfg ts req sv = (sv', r)"
    and fit: "fits req (sv_shared sv) \<or> (\<exists>grp topic part offset m g. req = CommitOffsetReq grp topic part offset m g)"
  shows "server_ok crc cfg sv' \<and>
    (committed_offset sv' = committed_offset sv \<or>
     (\<exists>grp topic part offset m g. req = CommitOffsetReq grp topic part offset m g \<and>
        (\<forall>grp' slot. committed_offset sv' grp' slot =
           (if grp' = grp \<and> slot = (topic, part) then offset else committed_offset sv grp' slot))))"
proof -
  obtain s out d where ds: "dispatch crc cfg (sv_now sv) (sv_reply sv) req (sv_shared sv) = (s, out, d)"
    by (metis prod_cases3)
  have c: "\<not> bc_clustered cfg" "topics_ok crc cfg (sv_shared sv)" "validate (actor_log_config (bc_log cfg)) = Inr ()"
    using ok by (simp_all add: server_ok_def)
  have fresh: "hm_get (sh_dirs (sv_shared sv)) (partition_dir topic p) = None" if "req = CreateTopicReq topic n rf" for topic n rf p
    using fit that by (simp add: fits_def)
  note s = dispatch_ok [OF c fresh ds]
  have run: "topics_ok crc cfg s1 \<and> os_cache (sh_offsets s1) = os_cache (sh_offsets (sv_shared sv))"
    if "run_cmd crc cfg ts (sv_now sv) (sv_reply sv) pl cm s = (s1, r1)" "d = SendOnly pl cm \<or> d = SendThen pl cm l"
    for pl cm l s1 r1
    using run_cmd_ok [OF _ that(1)] s dispatch_room [OF c(1) fit ds that(2)] by auto
  have same: "server_ok crc cfg sv1 \<and> committed_offset sv1 = committed_offset sv"
    if "topics_ok crc cfg (sv_shared sv1)" "os_cache (sh_offsets (sv_shared sv1)) = os_cache (sh_offsets (sv_shared sv))" for sv1
    using that c by (auto simp: server_ok_def committed_offset_def offsets_fetch_def fun_eq_iff)
  show ?thesis
  proof (cases d)
    case (SendOnly pl cm)
    obtain s1 r1 where r1: "run_cmd crc cfg ts (sv_now sv) (sv_reply sv) pl cm s = (s1, r1)" by fastforce
    show ?thesis using sv ds SendOnly r1 run [OF r1] same [of sv'] by (auto simp: serve_def Let_def)
  next
    case (SendThen pl cm l)
    obtain s1 r1 where r1: "run_cmd crc cfg ts (sv_now sv) (sv_reply sv) pl cm s = (s1, r1)" by fastforce
    note k = run [OF r1, of l]
    show ?thesis
    proof (cases l)
      case (AnswerCommit grp topic part offset)
      obtain m g where req: "req = CommitOffsetReq grp topic part offset m g"
        using dispatch_commits ds SendThen AnswerCommit by blast
      show ?thesis
      proof (cases "\<exists>x. r1 = Some (Appended (Inr x))")
        case True
        then have "sv_shared sv' = s1\<lparr>sh_offsets := (sh_offsets s1)
            \<lparr>os_cache := hm_insert (grp, topic, part) offset (os_cache (sh_offsets s1))\<rparr>\<rparr>"
          using sv ds SendThen r1 AnswerCommit by (auto simp: serve_def Let_def finish_commit_def commit_reply_def)
        then have "server_ok crc cfg sv' \<and> (\<forall>grp' slot. committed_offset sv' grp' slot =
           (if grp' = grp \<and> slot = (topic, part) then offset else committed_offset sv grp' slot))"
          using k SendThen c by (auto simp: server_ok_def topics_ok_def committed_offset_def offsets_fetch_def)
        then show ?thesis using req by blast
      next
        case False
        then have "topics_ok crc cfg (sv_shared sv') \<and> os_cache (sh_offsets (sv_shared sv')) = os_cache (sh_offsets s1)"
          using sv ds SendThen r1 AnswerCommit k
          by (auto simp: serve_def Let_def finish_commit_def commit_reply_def topics_ok_def
              split: option.splits answer.splits sum.splits)
        then show ?thesis using same [of sv'] k SendThen by simp
      qed
    qed (use sv ds SendThen r1 k s same [of sv'] in
        \<open>auto simp: serve_def Let_def split: option.splits answer.splits\<close>)
  qed (use sv ds s same [of sv'] in \<open>auto simp: serve_def Let_def\<close>)
qed

lemma broker_env_ok:
  assumes "broker_env crc cfg ts sv sv'" and "server_ok crc cfg sv"
  shows "server_ok crc cfg sv' \<and> committed_offset sv' = committed_offset sv"
  using assms
proof (induction rule: broker_env.induct)
  case (timer pl sv a)
  have "actor_good crc (bc_log cfg) (fst (actor_timeout (bc_log cfg) (sv_now sv) a))" if "pl = TopicLog topic part" for topic part
    using timer that partition_of_good [of crc cfg "sv_shared sv" topic part a]
    by (auto simp: server_ok_def intro: actor_timeout_good)
  then show ?case using timer(2) set_place_ok [of crc cfg "sv_shared sv" pl]
    by (auto simp: server_ok_def committed_offset_def offsets_fetch_def fun_eq_iff)
next
  case (request req sv)
  obtain sv' r where sv': "serve crc cfg ts req sv = (sv', r)" by fastforce
  have "\<nexists>grp topic part offset m g. req = CommitOffsetReq grp topic part offset m g"
    using request(1) by (auto simp: fits_def)
  then show ?case using serve_ok [OF request(2) sv'] request(1) sv' by auto
qed (auto simp: server_ok_def topics_ok_def committed_offset_def fun_eq_iff)

text \<open>The records of a fetch are the ones from its offset on, without a gap.\<close>

lemma actor_read_numbered:
  assumes ok: "actor_ok crc cfg a" and r: "actor_read crc cfg pos max_bytes a = Inr rd"
  shows "(\<forall>i < length (ro_records rd). unat (lr_offset (ro_records rd ! i)) = pos + i) \<and> pos + length (ro_records rd) < 2 ^ 64"
proof -
  let ?start = "log_start_offset (ac_log a)" and ?rs = "actor_records crc cfg a"
  have inv: "log_inv crc (actor_log_config cfg) (ac_log a) (ac_disk a)" using ok by (simp add: actor_ok_def)
  have pos: "?start \<le> pos" "pos \<le> log_next_offset (ac_log a)"
    using r by (auto simp: actor_read_def log_read_def Let_def split: if_splits)
  obtain k rs where rd: "ro_records rd = rs" "rs = take k (drop (pos - ?start) ?rs)"
    using actor_read_ok [OF ok pos, of max_bytes] r by auto
  note e = log_inv_end [OF inv]
  have num: "numbered ?start ?rs" by (rule log_numbered [OF inv])
  have len: "length rs \<le> length ?rs - (pos - ?start)" using rd(2) by simp
  have "unat (lr_offset (rs ! i)) = pos + i" if "i < length rs" for i
    using numbered_nth [OF num, of "pos - ?start + i"] that len pos rd(2) by auto
  moreover have "pos + length rs < 2 ^ 64" using len e(1,2) pos by linarith
  ultimately show ?thesis using rd(1) by simp
qed

lemma broker_call_serve: "broker_call crc cfg ts req sv = (sv', r) \<Longrightarrow> \<exists>r'. serve crc cfg ts req sv = (sv', r')"
  by (auto simp: broker_call_def split: prod.splits option.splits)

interpretation delivery: offset_server "broker_ops crc cfg ts" committed_offset "server_ok crc cfg" "broker_env crc cfg ts"
  for crc cfg ts
proof (unfold_locales, goal_cases)
  case (1 s grp member_id timeout topics s' r)
  then show ?case using serve_ok [OF 1(1), of ts "JoinGroupReq grp member_id timeout topics"]
    by (auto simp: broker_ops_def broker_call_def fits_def split: prod.splits option.splits)
next
  case (2 s grp member_id generation s' r)
  then show ?case using serve_ok [OF 2(1), of ts "HeartbeatReq grp member_id generation"]
    by (auto simp: broker_ops_def broker_call_def fits_def split: prod.splits option.splits)
next
  case (3 s grp slot s' r)
  define x where "x = offsets_fetch grp (fst slot) (snd slot) (sh_offsets (sv_shared s))"
  have "r = Inr (FetchOffsetResp NoError (case x of None \<Rightarrow> - 1 | Some offset \<Rightarrow> offset))"
    using 3(2) by (auto simp: broker_ops_def broker_call_def serve_def dispatch_def x_def split: prod.splits option.splits)
  then have "or_zero y \<le> committed_offset s grp slot" if "bind_r r fetch_offset_result = Inr y" for y
    using that by (cases x) (auto simp: fetch_offset_result_def committed_offset_def x_def [symmetric] split: if_splits)
  then show ?case using 3(2) serve_ok [OF 3(1), of ts "FetchOffsetReq grp (fst slot) (snd slot)"]
    by (auto simp: broker_ops_def broker_call_def fits_def split: prod.splits option.splits)
next
  case (4 s slot pos max_bytes max_wait s' r)
  let ?req = "FetchReq (fst slot) (snd slot) pos max_bytes max_wait"
  have same: "server_ok crc cfg s' \<and> committed_offset s' = committed_offset s"
    using 4(2) serve_ok [OF 4(1), of ts ?req]
    by (auto simp: broker_ops_def broker_call_def fits_def split: prod.splits option.splits)
  have "(\<forall>i < length recs. unat (fr_offset (recs ! i)) = unat pos + i) \<and> unat pos + length recs < 2 ^ 64"
    if res: "bind_r r fetch_result = Inr (x, y, recs)" for x y recs
  proof (cases "partition_of (sv_shared s) (fst slot) (snd slot)")
    case None
    then show ?thesis using 4 res
      by (auto simp: broker_ops_def broker_call_def serve_def dispatch_def dispatch_fetch_def server_ok_def
          fetch_result_def fetch_error_def)
  next
    case (Some a)
    have ok: "actor_ok crc (bc_log cfg) a"
      using partition_of_good [OF _ Some] 4(1) by (auto simp: server_ok_def actor_good_def)
    have r: "r = Inr (handle_fetch [] (actor_read crc (bc_log cfg) (unat pos) (unat max_bytes) a))"
      using 4 Some by (auto simp: broker_ops_def broker_call_def serve_def dispatch_def dispatch_fetch_def server_ok_def)
    show ?thesis
    proof (cases "actor_read crc (bc_log cfg) (unat pos) (unat max_bytes) a")
      case (Inl e)
      then show ?thesis using res r unsigned_less [of pos] by (auto simp: handle_fetch_def fetch_error_def fetch_result_def split: if_splits)
    next
      case (Inr rd)
      then have "recs = map to_fetched (ro_records rd)"
        using res r by (auto simp: handle_fetch_def fetch_result_def)
      then show ?thesis using actor_read_numbered [OF ok Inr] by (simp add: to_fetched_def)
    qed
  qed
  then show ?case using same by blast
next
  case (5 s grp slot pos member_id generation s' r)
  let ?req = "CommitOffsetReq grp (fst slot) (snd slot) pos member_id generation"
  obtain r' where "serve crc cfg ts ?req s = (s', r')"
    using 5(2) by (auto simp: broker_ops_def dest: broker_call_serve)
  from serve_ok [OF 5(1) this] have ok: "server_ok crc cfg s'"
    and c: "committed_offset s' = committed_offset s \<or>
      (\<forall>grp' slot'. committed_offset s' grp' slot' =
         (if grp' = grp \<and> slot' = (fst slot, snd slot) then pos else committed_offset s grp' slot'))"
    by auto
  have "committed_offset s' grp' slot' = committed_offset s grp' slot' \<or>
      grp' = grp \<and> slot' = slot \<and> committed_offset s' grp' slot' = pos" for grp' slot'
  proof (cases "committed_offset s' = committed_offset s")
    case False
    with c have "committed_offset s' grp' slot' =
        (if grp' = grp \<and> slot' = (fst slot, snd slot) then pos else committed_offset s grp' slot')" by blast
    then show ?thesis by (cases "grp' = grp \<and> slot' = slot") auto
  qed simp
  then show ?case using ok by blast
next
  case (6 s s')
  then show ?case by (rule broker_env_ok)
qed

end
