(* ===== verification/DeliveryProperties.thy ===== *)
theory DeliveryProperties
  imports BrokerServer LogProperties
begin

text \<open>
  The properties of the broker and its group consumers together: commits are answered, and what
  is committed was delivered.
\<close>

section \<open>Commits\<close>

lemma drain_all:
  "\<forall>p \<in> set (ac_pending a). covers (lg_durable (ac_log a)) (pd_last_offset p) \<Longrightarrow>
   drain a = (a\<lparr>ac_pending := []\<rparr>, map (\<lambda>p. (pd_reply p, Appended (Inr (pd_base_offset p, pd_count p)))) (ac_pending a))"
  by (simp add: drain_def drain_pending_all)

text \<open>
  A batch appended by a writer with nothing parked: what is stored, and the answer, which if need
  be the flush that follows brings.
\<close>

lemma append_run:
  assumes good: "actor_good crc (bc_log cfg) a" and none: "ac_pending a = []"
    and n: "log_next_offset (ac_log a) + length records < 2 ^ 64" and a: "place_actor pl s = Some a"
    and rp: "rp = None \<or> rp = Some reply"
  shows "\<exists>a' rs. fst (run_cmd crc cfg ts now reply pl (Append records acks rp) s) = set_place pl a' s \<and>
    list_all2 holds (take (length rs) records) rs \<and> length rs \<le> length records \<and>
    actor_records crc (bc_log cfg) a' = actor_records crc (bc_log cfg) a @ rs \<and>
    ac_pending a' = [] \<and> log_start_offset (ac_log a') = log_start_offset (ac_log a) \<and>
    (length rs < length records \<longrightarrow> \<not> producible (bc_log cfg) (records ! length rs)) \<and>
    (rp = Some reply \<longrightarrow> snd (run_cmd crc cfg ts now reply pl (Append records acks rp) s) =
       Some (Appended (if length rs < length records then Inl MalformedErr
                       else Inr (log_next_offset (ac_log a), length records))))"
proof -
  let ?b = "log_next_offset (ac_log a)" and ?n = "length records"
  obtain a1 queued own and rs :: "log_record list" where
    r: "actor_append crc (bc_log cfg) now ts records acks rp a = (fst (drain a1), own @ snd (drain a1))"
    and a1: "actor_ok crc (bc_log cfg) a1" "ac_pending a1 = queued" "log_next_offset (ac_log a1) = ?b + length rs"
    and rs: "length rs \<le> ?n" "length rs < ?n \<longrightarrow> \<not> producible (bc_log cfg) (records ! length rs)"
      "list_all2 holds (take (length rs) records) rs"
      "actor_records crc (bc_log cfg) a1 = actor_records crc (bc_log cfg) a @ rs"
      "log_start_offset (ac_log a1) = log_start_offset (ac_log a)"
    and own: "own_answer (bc_log cfg) acks rp ?b ?n (length rs) a1 queued own"
    using actor_append_ok [OF _ n, of crc "bc_log cfg" now ts acks rp] good unfolding none append_Nil actor_good_def by blast
  obtain a2 where f: "actor_flush now a1 = drain a2" "ac_pending a2 = queued"
    "lg_durable (ac_log a2) = checked_pred (log_next_offset (ac_log a1))"
    "actor_records crc (bc_log cfg) a2 = actor_records crc (bc_log cfg) a1"
    "log_start_offset (ac_log a2) = log_start_offset (ac_log a1)"
    using actor_flush_ok [OF a1(1), of now] a1(2) by auto
  note run = run_cmd_def actor_cmd_def Let_def
  show ?thesis
  proof (cases "queued = []")
    case True
    then have d: "drain a1 = (a1, [])" "drain a2 = (a2, [])" using a1(2) f(2) by (simp_all add: drain_def)
    show ?thesis
    proof (cases rp)
      case None
      then have o: "own = []" using own by (simp add: own_answer_def)
      show ?thesis by (rule exI [of _ a2], rule exI [of _ rs]) (use a r o d f None rs True in \<open>auto simp: run\<close>)
    next
      case (Some rp')
      have o: "own = [(reply, Appended (if length rs < ?n then Inl MalformedErr else Inr (?b, ?n)))]"
        using own rp Some True rs(1) by (auto simp: own_answer_def split: if_splits)
      show ?thesis by (rule exI [of _ a1], rule exI [of _ rs]) (use a r o d rp Some rs a1 True in \<open>auto simp: run\<close>)
    qed
  next
    case False
    let ?p = "\<lparr>pd_last_offset = ?b + ?n - 1, pd_base_offset = ?b, pd_count = ?n, pd_reply = reply\<rparr>"
    have q: "rp = Some reply" "own = []" "length rs = ?n" "0 < ?n" "queued = [?p]"
      using own rs(1) rp False by (auto simp: own_answer_def split: if_splits)
    show ?thesis
    proof (cases "covers (lg_durable (ac_log a1)) (?b + ?n - 1)")
      case True
      then show ?thesis
        by (intro exI [of _ "a1\<lparr>ac_pending := []\<rparr>"] exI [of _ rs])
          (use a r q rs a1(2) in \<open>auto simp: run drain_all\<close>)
    next
      case False
      then have d: "drain a1 = (a1, [])" using q a1(2) by (simp add: drain_def)
      have "lg_durable (ac_log a2) = Some (?b + ?n - 1)" using f(3) a1(3) q by (simp add: checked_pred_def)
      then have d2: "drain a2 = (a2\<lparr>ac_pending := []\<rparr>, [(reply, Appended (Inr (?b, ?n)))])"
        using f(2) q by (simp add: drain_all)
      show ?thesis
        by (intro exI [of _ "a2\<lparr>ac_pending := []\<rparr>"] exI [of _ rs]) (use a r q rs d d2 f in \<open>auto simp: run\<close>)
    qed
  qed
qed

lemma commit_served:
  assumes "actor_ok crc (bc_log cfg) (os_partition (sh_offsets (sv_shared sv)))"
    and "ac_pending (os_partition (sh_offsets (sv_shared sv))) = []"
    and "log_next_offset (ac_log (os_partition (sh_offsets (sv_shared sv)))) + 1 < 2 ^ 64"
    and "producible (bc_log cfg) (Some (encode_key grp topic part), put_u64 offset)"
    and "check_commit grp member_id (unat generation) (sh_groups (sv_shared sv)) = NoError"
  shows "\<exists>sv'. serve crc cfg ts (CommitOffsetReq grp topic part offset member_id generation) sv =
      (sv', Some (CommitOffsetResp NoError)) \<and>
    os_cache (sh_offsets (sv_shared sv')) = hm_insert (grp, topic, part) offset (os_cache (sh_offsets (sv_shared sv)))"
proof -
  let ?s = "sv_shared sv" and ?kv = "(Some (encode_key grp topic part), put_u64 offset)"
  have good: "actor_good crc (bc_log cfg) (os_partition (sh_offsets ?s))" using assms(1,2) by (simp add: actor_good_def)
  have pl: "place_actor OffsetsLog ?s = Some (os_partition (sh_offsets ?s))" by (simp add: place_actor_def)
  have n: "log_next_offset (ac_log (os_partition (sh_offsets ?s))) + length [?kv] < 2 ^ 64" using assms(3) by simp
  obtain a' and rs :: "log_record list" where
    "fst (run_cmd crc cfg ts (sv_now sv) (sv_reply sv) OffsetsLog (Append [?kv] Durable (Some (sv_reply sv))) ?s) =
      set_place OffsetsLog a' ?s"
    and "length rs < length [?kv] \<longrightarrow> \<not> producible (bc_log cfg) ([?kv] ! length rs)"
    and "snd (run_cmd crc cfg ts (sv_now sv) (sv_reply sv) OffsetsLog (Append [?kv] Durable (Some (sv_reply sv))) ?s) =
      Some (Appended (if length rs < length [?kv] then Inl MalformedErr
        else Inr (log_next_offset (ac_log (os_partition (sh_offsets ?s))), length [?kv])))"
    using append_run [OF good assms(2) n pl, of "Some (sv_reply sv)" "sv_reply sv" ts "sv_now sv" Durable] by blast
  then have "run_cmd crc cfg ts (sv_now sv) (sv_reply sv) OffsetsLog (Append [?kv] Durable (Some (sv_reply sv))) ?s =
      (set_place OffsetsLog a' ?s, Some (Appended (Inr (log_next_offset (ac_log (os_partition (sh_offsets ?s))), 1))))"
    using assms(4) by (simp add: prod_eq_iff)
  then show ?thesis
    using assms(5)
    by (simp add: serve_def dispatch_def dispatch_commit_def Let_def commit_cmd_def finish_commit_def commit_reply_def
        set_place_def)
qed

text \<open>
  A commit under the current generation of its group succeeds, and a consumer that asks for
  the committed offset afterwards is told the one just committed, while no other group or
  partition sees a change.
\<close>

theorem commits_are_fetched:
  assumes "actor_ok crc (bc_log cfg) (os_partition (sh_offsets (sv_shared sv)))"
    and "ac_pending (os_partition (sh_offsets (sv_shared sv))) = []"
    and "log_next_offset (ac_log (os_partition (sh_offsets (sv_shared sv)))) + 1 < 2 ^ 64"
    and "producible (bc_log cfg) (Some (encode_key grp topic part), put_u64 offset)"
    and "check_commit grp member_id (unat generation) (sh_groups (sv_shared sv)) = NoError"
    and "serve crc cfg ts (CommitOffsetReq grp topic part offset member_id generation) sv = (sv', r)"
  shows "r = Some (CommitOffsetResp NoError) \<and>
    (\<forall>grp' topic' part'. snd (serve crc cfg ts (FetchOffsetReq grp' topic' part') sv') =
       (if (grp', topic', part') = (grp, topic, part) then Some (FetchOffsetResp NoError offset)
        else snd (serve crc cfg ts (FetchOffsetReq grp' topic' part') sv)))"
proof -
  have fetch: "snd (serve crc cfg ts (FetchOffsetReq g t p) x) = Some (FetchOffsetResp NoError
      (case hm_get (os_cache (sh_offsets (sv_shared x))) (g, t, p) of None \<Rightarrow> - 1 | Some o' \<Rightarrow> o'))" for g t p x
    by (simp add: serve_def dispatch_def offsets_fetch_def)
  show ?thesis
    using commit_served [OF assms(1-5), of ts] assms(6) by (auto simp: fetch)
qed

section \<open>Delivery\<close>

text \<open>
  C4. At least once: with a standalone broker and any number of group consumers that join, poll,
  commit and vanish in any order, while members expire, partitions grow and topics appear, every
  record below a committed offset has been returned by a poll of a consumer of that group.
\<close>

theorem committed_records_were_delivered:
  assumes "(system_step (broker_ops crc cfg ts) (broker_env crc cfg ts))\<^sup>*\<^sup>* y y'"
    and "server_ok crc cfg (sy_server y)" and "os_cache (sh_offsets (sv_shared (sy_server y))) = []"
    and "sy_consumers y = []"
    and "offsets_fetch grp topic part (sh_offsets (sv_shared (sy_server y'))) = Some offset" and "o' < unat offset"
  shows "(grp, (topic, part), o') \<in> sy_delivered y'"
proof (rule delivery.committed_was_returned [OF assms(1,2)])
  show "committed_offset (sy_server y) g slot = 0" for g slot
    by (simp add: committed_offset_def offsets_fetch_def assms(3))
  show "o' < unat (committed_offset (sy_server y') grp (topic, part))"
    using assms(5,6) by (simp add: committed_offset_def)
qed (rule assms(4))

section \<open>A run\<close>

text \<open>A broker with one record, and a consumer that joins, polls and commits.\<close>

definition sample_actor :: "log \<Rightarrow> disk \<Rightarrow> actor" where
  "sample_actor l d = \<lparr>ac_log = l, ac_disk = d, ac_epochs = [], ac_watch = log_next_offset l, ac_pending = [],
     ac_dirty_since = Some 0\<rparr>"

definition sample_server :: server where
  "sample_server = \<lparr>sv_now = 0, sv_reply = 1, sv_shared =
     \<lparr>sh_advertised = ''b'', sh_dirs = [], sh_topics = [(''t'', [sample_actor one_log one_dir])],
      sh_offsets = \<lparr>os_partition = sample_actor empty_log empty_dir, os_cache = []\<rparr>,
      sh_groups = coordinator_new, sh_replicas = [], sh_cluster_meta = default_cluster_meta\<rparr>\<rparr>"

abbreviation (input) sample_ops :: "server server_ops" where
  "sample_ops \<equiv> broker_ops no_crc (standalone os_config) (\<lambda>_. 9)"

lemma sample_dirs: "hm_get one_dir epochs_file = None" "hm_get empty_dir epochs_file = None"
  using epochs_paths(1,2) [of 0, THEN not_sym] by (simp_all add: one_dir_def empty_dir_def)

lemma sample_actor_ok:
  assumes "log_ok no_crc os_config l d 0 rss ra" and "hm_get d epochs_file = None"
  shows "actor_ok no_crc os_config (sample_actor l d)"
proof -
  have "actor_log_config os_config = os_config" by (simp add: actor_log_config_def os_config_ok)
  then show ?thesis using log_ok_abs(4) [OF assms(1)] assms(2)
    by (simp add: actor_ok_def sample_actor_def epochs_stored_def)
qed

definition sample_consumer :: group_consumer where
  "sample_consumer = (group_consumer_new 0 ''g'' [''t''] 10000)\<lparr>gm_member_id := ''m-1'', gm_generation := 1,
     gm_assignment := [(''t'', 0)], gm_positions := [((''t'', 0), 0)]\<rparr>"

lemma show_nat_1: "show_nat (Suc 0) = ''1''"
  by code_simp

lemma sample_join:
   "join 0 ''g'' [] 10000 [''t''] (topic_partitions (standalone os_config) (sv_shared sample_server)) coordinator_new =
   (\<lparr>gc_groups = [(''g'', \<lparr>gp_generation = 1, gp_members = [(''m-1'', \<lparr>mb_topics = [''t''], mb_session_timeout = 10000,
       mb_last_heartbeat = 0\<rparr>)], gp_assignment = [(''m-1'', [(''t'', 0)])]\<rparr>)], gc_next_member = 2\<rparr>,
    \<lparr>jo_member_id = ''m-1'', jo_generation = 1, jo_assignment = [(''t'', 0)]\<rparr>)"
  by (simp add: join_def coordinator_new_def default_group_def rebalance_def assign_def subscribed_topics_def
     assign_topic_def topic_partitions_def standalone_def sample_server_def subscribers_def member_name_def show_nat_1 Let_def)

definition joined_server :: server where
  "joined_server = sample_server\<lparr>sv_reply := 3, sv_shared := (sv_shared sample_server)\<lparr>sh_groups :=
     \<lparr>gc_groups = [(''g'', \<lparr>gp_generation = 1, gp_members = [(''m-1'', \<lparr>mb_topics = [''t''], mb_session_timeout = 10000,
       mb_last_heartbeat = 0\<rparr>)], gp_assignment = [(''m-1'', [(''t'', 0)])]\<rparr>)], gc_next_member = 2\<rparr>\<rparr>\<rparr>"

lemma sample_group_join: "group_join sample_ops 0 ''g'' [''t''] 10000 sample_server = (joined_server, Inr sample_consumer)"
  using sample_join
  by (simp add: group_join_def rejoin_def broker_ops_def broker_call_def serve_def dispatch_def dispatch_join_def
      group_consumer_new_def joined_server_def sample_consumer_def sample_server_def offsets_fetch_def
      fetch_offset_result_def)

lemma sample_read: "\<exists>n. actor_read no_crc os_config 0 1048576 (sample_actor one_log one_dir) = Inr
    \<lparr>ro_log_start = 0, ro_next_offset = n, ro_records = [sample_record]\<rparr>"
proof -
  have ok: "actor_ok no_crc os_config (sample_actor one_log one_dir)"
    by (rule sample_actor_ok [OF one_log_ok]) (rule sample_dirs)
  have "actor_records no_crc os_config (sample_actor one_log one_dir) = [sample_record]"
    using one_log_inv by (simp add: sample_actor_def actor_log_config_def os_config_ok)
  then show ?thesis using actor_read_ok [OF ok, of 0 1048576]
    by (auto simp: sample_actor_def one_log_def empty_log_def log_start_offset_def log_next_offset_def take_Cons')
qed

lemma sample_poll: "\<exists>sv. group_poll sample_ops 0 (joined_server, sample_consumer) =
    ((sv, sample_consumer\<lparr>gm_round_robin := 1, gm_positions := [((''t'', 0), 1)]\<rparr>),
     Inr [((''t'', 0), to_fetched sample_record)]) \<and> sv_shared sv = sv_shared joined_server"
  using sample_read
  by (auto simp: group_poll_def maybe_heartbeat_def sample_consumer_def group_consumer_new_def broker_ops_def broker_call_def
      serve_def dispatch_def dispatch_fetch_def joined_server_def sample_server_def partition_of_def standalone_def
      handle_fetch_def fetch_result_def to_fetched_def sample_record_def Let_def)

lemma sample_producible: "producible os_config (Some (encode_key ''g'' ''t'' 0), put_u64 1)"
  by (simp add: producible_def encoded_len_def key_len_def os_config_ok encode_key_def put_str_def)

lemma sample_commit: 
  assumes "sv_shared sv = sv_shared joined_server"
  shows "\<exists>sv'. group_commit sample_ops 0 (sv, sample_consumer\<lparr>gm_round_robin := 1, gm_positions := [((''t'', 0), 1)]\<rparr>) =
    ((sv', sample_consumer\<lparr>gm_round_robin := 1, gm_positions := [((''t'', 0), 1)]\<rparr>), Inr ()) \<and>
    offsets_fetch ''g'' ''t'' 0 (sh_offsets (sv_shared sv')) = Some 1"
proof -
  have ok: "actor_ok no_crc os_config (sample_actor empty_log empty_dir)"
    by (rule sample_actor_ok [OF empty_log_ok]) (rule sample_dirs)
  have "\<exists>sv'. serve no_crc (standalone os_config) (\<lambda>_. 9) (CommitOffsetReq ''g'' ''t'' 0 1 ''m-1'' 1) sv =
      (sv', Some (CommitOffsetResp NoError)) \<and>
    os_cache (sh_offsets (sv_shared sv')) = hm_insert (''g'', ''t'', 0) 1 (os_cache (sh_offsets (sv_shared sv)))"
    by (rule commit_served)
      (use ok sample_producible in \<open>simp_all add: assms joined_server_def sample_server_def standalone_def check_commit_def,
       simp_all add: sample_actor_def empty_log_def log_next_offset_def\<close>)
  then show ?thesis
    by (auto simp: group_commit_def sample_consumer_def group_consumer_new_def broker_ops_def broker_call_def
        commit_result_def offsets_fetch_def Let_def)
qed

lemma sample_server_ok: "server_ok no_crc (standalone os_config) sample_server"
proof -
  have "actor_ok no_crc os_config (sample_actor one_log one_dir)"
    by (rule sample_actor_ok [OF one_log_ok]) (rule sample_dirs)
  then show ?thesis
    by (auto simp: server_ok_def topics_ok_def sample_server_def standalone_def actor_good_def actor_log_config_def os_config_ok)
      (simp add: sample_actor_def)
qed

theorem committed_records_were_delivered_witness:
  "\<exists>y. (system_step sample_ops (broker_env no_crc (standalone os_config) (\<lambda>_. 9)))\<^sup>*\<^sup>*
      \<lparr>sy_server = sample_server, sy_consumers = [], sy_delivered = {}\<rparr> y \<and>
    offsets_fetch ''g'' ''t'' 0 (sh_offsets (sv_shared (sy_server y))) = Some 1 \<and> (''g'', (''t'', 0), 0) \<in> sy_delivered y"
proof -
  let ?step = "system_step sample_ops (broker_env no_crc (standalone os_config) (\<lambda>_. 9))"
  let ?y0 = "\<lparr>sy_server = sample_server, sy_consumers = [], sy_delivered = {}\<rparr>"
  let ?c = "sample_consumer\<lparr>gm_round_robin := 1, gm_positions := [((''t'', 0), 1)]\<rparr>"
  obtain sv where p: "group_poll sample_ops 0 (joined_server, sample_consumer) =
      ((sv, ?c), Inr [((''t'', 0), to_fetched sample_record)])" "sv_shared sv = sv_shared joined_server"
    using sample_poll by blast
  obtain sv' where k: "group_commit sample_ops 0 (sv, ?c) = ((sv', ?c), Inr ())"
    "offsets_fetch ''g'' ''t'' 0 (sh_offsets (sv_shared sv')) = Some 1"
    using sample_commit [OF p(2)] by blast
  define y1 where "y1 = ?y0\<lparr>sy_server := joined_server, sy_consumers := [sample_consumer]\<rparr>"
  define y2 where "y2 = y1\<lparr>sy_server := sv, sy_consumers := [?c],
    sy_delivered := returned ''g'' (Inr [((''t'', 0), to_fetched sample_record)])\<rparr>"
  define y3 where "y3 = y2\<lparr>sy_server := sv', sy_consumers := [?c]\<rparr>"
  have 1: "?step ?y0 y1"
    using system_step.start [of sample_ops 0 "''g''" "[''t'']" 10000 ?y0] sample_group_join
    by (simp add: y1_def)
  have 2: "?step y1 y2"
    using system_step.poll [of 0 y1 sample_ops 0] p(1)
    by (simp add: y1_def y2_def sample_consumer_def group_consumer_new_def)
  have 3: "?step y2 y3"
    using system_step.commit [of 0 y2 sample_ops 0] k(1) by (simp add: y2_def y3_def)
  have run: "?step\<^sup>*\<^sup>* ?y0 y3" using 1 2 3 by (meson rtranclp.rtrancl_into_rtrancl rtranclp.rtrancl_refl)
  have "(''g'', (''t'', 0), 0) \<in> sy_delivered y3"
    by (rule committed_records_were_delivered [OF run _ _ _, where offset = 1])
      (use sample_server_ok k(2) in \<open>simp_all add: y3_def, simp_all add: sample_server_def\<close>)
  then show ?thesis using run k(2) by (auto simp: y3_def)
qed

theorem commits_are_fetched_witness:
  "snd (serve no_crc (standalone os_config) (\<lambda>_. 9) (CommitOffsetReq ''g'' ''t'' 0 1 ''m-1'' 1) joined_server) =
    Some (CommitOffsetResp NoError)"
proof -
  have "actor_ok no_crc os_config (sample_actor empty_log empty_dir)"
    by (rule sample_actor_ok [OF empty_log_ok]) (rule sample_dirs)
  then show ?thesis
    using commits_are_fetched [of no_crc "standalone os_config" joined_server "''g''" "''t''" 0 1 "''m-1''" 1 "\<lambda>_. 9"]
      sample_producible
    by (simp add: joined_server_def sample_server_def standalone_def check_commit_def)
      (simp add: sample_actor_def empty_log_def log_next_offset_def prod_eq_iff)
qed

end
