(* ===== verification/ClientProperties.thy ===== *)
theory ClientProperties
  imports Client Machines
begin

text \<open>
  The property of the client's connection: whatever the order in which answers arrive, each call
  gets the answer made for its own request, at most once, and none is forgotten.
\<close>

section \<open>Calls over a connection\<close>

text \<open>
  The connection with what has happened on it: the number of ids drawn, the calls started with
  their ids and waiters, and the answers that reached a waiter.
\<close>

record rpc =
  rp_conn :: connection
  rp_drawn :: nat
  rp_calls :: "(u32 \<times> request \<times> nat) list"
  rp_answers :: "(u32 \<times> nat \<times> response) list"

definition rpc_start :: rpc where
  "rpc_start = \<lparr>rp_conn = connected, rp_drawn = 0, rp_calls = [], rp_answers = []\<rparr>"

text \<open>
  Calls start, the peer answers any frame that was sent, in any order and more than once if it
  likes, and either side of the connection may break. \<open>answers\<close> says which answers the peer may
  give to a request. Ids are not drawn more often than there are.
\<close>

inductive rpc_step :: "(request \<Rightarrow> response \<Rightarrow> bool) \<Rightarrow> rpc \<Rightarrow> rpc \<Rightarrow> bool"
  for answers :: "request \<Rightarrow> response \<Rightarrow> bool" where
  call: "wf_request req \<Longrightarrow> rp_drawn y + 1 < 2 ^ 32 \<Longrightarrow> call_start req waiter (rp_conn y) = (c, r) \<Longrightarrow>
    rpc_step answers y (y\<lparr>rp_conn := c, rp_drawn := rp_drawn y + 1,
      rp_calls := rp_calls y @ (case r of Inl _ \<Rightarrow> [] | Inr corr \<Rightarrow> [(corr, req, waiter)])\<rparr>)"
| send: "wf_request req \<Longrightarrow> rp_drawn y + 1 < 2 ^ 32 \<Longrightarrow> send_only req (rp_conn y) = (c, r) \<Longrightarrow>
    rpc_step answers y (y\<lparr>rp_conn := c, rp_drawn := rp_drawn y + 1\<rparr>)"
| answer: "sent \<in> set (cn_sent (rp_conn y)) \<Longrightarrow> read_frame sent = Frame body [] \<Longrightarrow>
    decode_request body = Inr (corr, req) \<Longrightarrow> answers req resp \<Longrightarrow> wf_response resp \<Longrightarrow>
    read_frame (encode_response resp corr) = Frame body' [] \<Longrightarrow>
    on_frame body' (rp_conn y) = (c, out, running) \<Longrightarrow>
    rpc_step answers y (y\<lparr>rp_conn := c,
      rp_answers := rp_answers y @ map (\<lambda>(waiter, r). (corr, waiter, r)) out\<rparr>)"
| reader_ends: "rpc_step answers y (y\<lparr>rp_conn := reader_end (rp_conn y)\<rparr>)"
| writer_ends: "rpc_step answers y (y\<lparr>rp_conn := (rp_conn y)\<lparr>cn_writer := False\<rparr>\<rparr>)"

section \<open>Frames\<close>

lemma read_frame_whole: "read_frame stream = Frame body [] \<Longrightarrow> body = drop 4 stream"
  unfolding read_frame_def Let_def
  by (auto split: if_splits)

lemma request_decoded:
  assumes "wf_request req"
  shows "decode_request (drop 4 (encode_request req corr)) = Inr (corr, req)"
  using request_codes [OF assms, of corr] decode_frame_ok [where body = request_body]
  by (auto simp: decode_request_def)

lemma response_decoded:
  assumes "wf_response resp"
  shows "decode_response (drop 4 (encode_response resp corr)) = Inr (corr, resp)"
  using response_codes [OF assms, of corr] decode_frame_ok [where body = response_body]
  by (auto simp: decode_response_def)

lemma small_frames:
  "wf_request req \<Longrightarrow> length (encode_request req corr) \<le> MAX_FRAME_BYTES + 4 \<Longrightarrow>
     read_frame (encode_request req corr) = Frame (drop 4 (encode_request req corr)) []"
  "wf_response resp \<Longrightarrow> length (encode_response resp corr) \<le> MAX_FRAME_BYTES + 4 \<Longrightarrow>
     read_frame (encode_response resp corr) = Frame (drop 4 (encode_response resp corr)) []"
  using request_codes [of req corr] response_codes [of resp corr] read_frame_finish [of _ "[]"]
  by (auto simp: length_finish)

section \<open>The invariant\<close>

text \<open>An id that has been drawn.\<close>

definition drawn :: "rpc \<Rightarrow> u32 \<Rightarrow> bool" where
  "drawn y corr \<longleftrightarrow> 0 < unat corr \<and> unat corr \<le> rp_drawn y"

text \<open>Ids are drawn in order, a frame carries the request of its id, and so does a waiter.\<close>

definition ids_ok :: "rpc \<Rightarrow> bool" where
  "ids_ok y \<longleftrightarrow> rp_drawn y < 2 ^ 32 \<and> cn_next_corr (rp_conn y) = word_of_nat (rp_drawn y + 1) \<and>
     distinct (map fst (rp_calls y)) \<and> (\<forall>corr req w. (corr, req, w) \<in> set (rp_calls y) \<longrightarrow> drawn y corr)"

definition sent_ok :: "rpc \<Rightarrow> bool" where
  "sent_ok y \<longleftrightarrow> (\<forall>f \<in> set (cn_sent (rp_conn y)). \<exists>req corr. f = encode_request req corr \<and> wf_request req \<and>
     drawn y corr \<and> (\<forall>req' w. (corr, req', w) \<in> set (rp_calls y) \<longrightarrow> req' = req))"

definition waiters_ok :: "rpc \<Rightarrow> bool" where
  "waiters_ok y \<longleftrightarrow> (\<forall>corr w. hm_get (cn_pending (rp_conn y)) corr = Some w \<longrightarrow>
     (\<exists>req. (corr, req, w) \<in> set (rp_calls y)))"

definition answers_ok :: "(request \<Rightarrow> response \<Rightarrow> bool) \<Rightarrow> rpc \<Rightarrow> bool" where
  "answers_ok answers y \<longleftrightarrow> distinct (map fst (rp_answers y)) \<and>
     (\<forall>corr w resp. (corr, w, resp) \<in> set (rp_answers y) \<longrightarrow> hm_get (cn_pending (rp_conn y)) corr = None \<and>
        (\<exists>req. (corr, req, w) \<in> set (rp_calls y) \<and> answers req resp))"

definition none_lost :: "rpc \<Rightarrow> bool" where
  "none_lost y \<longleftrightarrow> (\<forall>corr req w. (corr, req, w) \<in> set (rp_calls y) \<longrightarrow> corr \<in> fst ` set (rp_answers y) \<or>
     hm_get (cn_pending (rp_conn y)) corr = Some w \<or> cn_closed (rp_conn y))"

definition rpc_inv :: "(request \<Rightarrow> response \<Rightarrow> bool) \<Rightarrow> rpc \<Rightarrow> bool" where
  "rpc_inv answers y \<longleftrightarrow> ids_ok y \<and> sent_ok y \<and> waiters_ok y \<and> answers_ok answers y \<and> none_lost y"

lemma next_id:
  assumes "ids_ok y" and "rp_drawn y + 1 < 2 ^ 32"
  shows "unat (cn_next_corr (rp_conn y)) = rp_drawn y + 1" and "\<not> drawn y (cn_next_corr (rp_conn y))"
proof -
  have "cn_next_corr (rp_conn y) = word_of_nat (rp_drawn y + 1)" using assms(1) by (simp add: ids_ok_def)
  then show "unat (cn_next_corr (rp_conn y)) = rp_drawn y + 1" using assms(2) by (simp only:) (rule unat_of_nat_len, simp)
  then show "\<not> drawn y (cn_next_corr (rp_conn y))" by (simp add: drawn_def)
qed

lemma next_id_step: "cn_next_corr c = word_of_nat (n + 1) \<Longrightarrow> cn_next_corr c + 1 = word_of_nat (n + 1 + 1)"
  by simp

text \<open>A call that fails and a \<open>send_only\<close> draw an id and leave the waiters alone.\<close>

lemma inv_draw:
  assumes inv: "rpc_inv answers y" and n: "rp_drawn y + 1 < 2 ^ 32" and req: "wf_request req"
    and c: "cn_next_corr c = cn_next_corr (rp_conn y) + 1" "hm_get (cn_pending c) = hm_get (cn_pending (rp_conn y))"
      "cn_closed c = cn_closed (rp_conn y)"
    and s: "cn_sent c = cn_sent (rp_conn y) \<or>
      cn_sent c = cn_sent (rp_conn y) @ [encode_request req (cn_next_corr (rp_conn y))]"
  shows "rpc_inv answers (y\<lparr>rp_conn := c, rp_drawn := rp_drawn y + 1\<rparr>)"
proof -
  let ?y = "y\<lparr>rp_conn := c, rp_drawn := rp_drawn y + 1\<rparr>" and ?id = "cn_next_corr (rp_conn y)"
  have ids: "ids_ok y" using inv by (simp add: rpc_inv_def)
  note new = next_id [OF ids n]
  have mono: "drawn y k \<Longrightarrow> drawn ?y k" for k by (simp add: drawn_def)
  have id: "drawn ?y ?id" using new by (simp add: drawn_def)
  have "ids_ok ?y"
    using ids n c(1) mono next_id_step [of "rp_conn y" "rp_drawn y"] by (auto simp: ids_ok_def)
  moreover have "sent_ok ?y"
  proof -
    have fresh: "(?id, req', w) \<notin> set (rp_calls y)" for req' w using ids new(2) unfolding ids_ok_def by blast
    have prev: "\<forall>f \<in> set (cn_sent (rp_conn y)). \<exists>r k. f = encode_request r k \<and> wf_request r \<and> drawn ?y k \<and>
        (\<forall>r' w. (k, r', w) \<in> set (rp_calls y) \<longrightarrow> r' = r)"
      using inv mono unfolding rpc_inv_def sent_ok_def by blast
    have "\<exists>r k. encode_request req ?id = encode_request r k \<and> wf_request r \<and> drawn ?y k \<and>
        (\<forall>r' w. (k, r', w) \<in> set (rp_calls y) \<longrightarrow> r' = r)"
      using req id fresh by blast
    then have "\<forall>f \<in> set (cn_sent c). \<exists>r k. f = encode_request r k \<and> wf_request r \<and> drawn ?y k \<and>
        (\<forall>r' w. (k, r', w) \<in> set (rp_calls y) \<longrightarrow> r' = r)"
      using prev s by (metis (no_types, lifting) Un_iff empty_iff insert_iff list.set(1,2) set_append)
    then show ?thesis by (simp add: sent_ok_def)
  qed
  ultimately show ?thesis
    using inv c by (simp add: rpc_inv_def waiters_ok_def answers_ok_def none_lost_def)
qed

text \<open>A call that starts.\<close>

lemma inv_call:
  assumes inv: "rpc_inv answers y" and n: "rp_drawn y + 1 < 2 ^ 32" and req: "wf_request req"
    and idk: "k0 = cn_next_corr (rp_conn y)"
    and c: "cn_next_corr c = k0 + 1" "cn_pending c = hm_insert k0 waiter (cn_pending (rp_conn y))"
      "cn_closed c = cn_closed (rp_conn y)" "cn_sent c = cn_sent (rp_conn y) @ [encode_request req k0]"
  shows "rpc_inv answers (y\<lparr>rp_conn := c, rp_drawn := rp_drawn y + 1, rp_calls := rp_calls y @ [(k0, req, waiter)]\<rparr>)"
    (is "rpc_inv answers ?y")
proof -
  have ids: "ids_ok y" using inv by (simp add: rpc_inv_def)
  note new = next_id [OF ids n, folded idk]
  have mono: "drawn y k \<Longrightarrow> drawn ?y k" for k by (simp add: drawn_def)
  have dr: "drawn ?y k0" using new by (simp add: drawn_def)
  have calls: "\<And>k req' w. (k, req', w) \<in> set (rp_calls y) \<Longrightarrow> drawn y k" using ids unfolding ids_ok_def by blast
  have fresh: "k0 \<notin> fst ` set (rp_calls y)" using calls new(2) by fastforce
  have "ids_ok ?y"
    using ids n c(1) mono dr fresh idk next_id_step [of "rp_conn y" "rp_drawn y"] by (auto simp: ids_ok_def)
  moreover have "sent_ok ?y"
    unfolding sent_ok_def
  proof
    fix f assume "f \<in> set (cn_sent (rp_conn ?y))"
    then consider "f \<in> set (cn_sent (rp_conn y))" | "f = encode_request req k0" using c(4) by auto
    then show "\<exists>req' corr. f = encode_request req' corr \<and> wf_request req' \<and> drawn ?y corr \<and>
        (\<forall>r w. (corr, r, w) \<in> set (rp_calls ?y) \<longrightarrow> r = req')"
    proof cases
      case 1
      then obtain r k where r: "f = encode_request r k" "wf_request r" "drawn y k"
        "\<forall>r' w. (k, r', w) \<in> set (rp_calls y) \<longrightarrow> r' = r"
        using inv unfolding rpc_inv_def sent_ok_def by blast
      then have "k \<noteq> k0" using new(2) by blast
      then show ?thesis using r mono by (intro exI [of _ r] exI [of _ k]) auto
    next
      case 2
      then show ?thesis using req dr fresh by (intro exI [of _ req] exI [of _ k0]) force
    qed
  qed
  moreover have "waiters_ok ?y" using inv c(2) by (auto simp: rpc_inv_def waiters_ok_def)
  moreover have "answers_ok answers ?y"
    unfolding answers_ok_def
  proof (intro conjI allI impI)
    show "distinct (map fst (rp_answers ?y))" using inv by (simp add: rpc_inv_def answers_ok_def)
    fix k w resp assume "(k, w, resp) \<in> set (rp_answers ?y)"
    then have a: "hm_get (cn_pending (rp_conn y)) k = None" "\<exists>r. (k, r, w) \<in> set (rp_calls y) \<and> answers r resp"
      using inv unfolding rpc_inv_def answers_ok_def by auto
    then have "k \<noteq> k0" using fresh by force
    then show "hm_get (cn_pending (rp_conn ?y)) k = None" using a(1) c(2) by simp
    show "\<exists>r. (k, r, w) \<in> set (rp_calls ?y) \<and> answers r resp" using a(2) by auto
  qed
  moreover have "none_lost ?y"
    unfolding none_lost_def
  proof (intro allI impI)
    fix k r w assume "(k, r, w) \<in> set (rp_calls ?y)"
    then consider "(k, r, w) \<in> set (rp_calls y)" | "k = k0" "w = waiter" by auto
    then show "k \<in> fst ` set (rp_answers ?y) \<or> hm_get (cn_pending (rp_conn ?y)) k = Some w \<or> cn_closed (rp_conn ?y)"
    proof cases
      case 1
      then have "k \<noteq> k0" using fresh by force
      then show ?thesis using 1 inv c(2,3) unfolding rpc_inv_def none_lost_def by auto
    qed (simp add: c(2))
  qed
  ultimately show ?thesis by (simp add: rpc_inv_def)
qed

text \<open>An answer that arrives.\<close>

lemma inv_answer:
  assumes inv: "rpc_inv answers y" and sent: "encode_request req corr \<in> set (cn_sent (rp_conn y))"
    and req: "wf_request req" and resp: "answers req resp"
    and w: "hm_get (cn_pending (rp_conn y)) corr = Some w"
    and only: "\<forall>req' w. (corr, req', w) \<in> set (rp_calls y) \<longrightarrow> req' = req"
  shows "rpc_inv answers (y\<lparr>rp_conn := (rp_conn y)\<lparr>cn_pending := hm_remove corr (cn_pending (rp_conn y))\<rparr>,
    rp_answers := rp_answers y @ [(corr, w, resp)]\<rparr>)"
    (is "rpc_inv answers ?y")
proof -
  have "(corr, req, w) \<in> set (rp_calls y)" using inv w only unfolding rpc_inv_def waiters_ok_def by blast
  moreover have "corr \<notin> fst ` set (rp_answers y)" using inv w by (force simp: rpc_inv_def answers_ok_def)
  ultimately have "answers_ok answers ?y" using inv resp by (auto simp: rpc_inv_def answers_ok_def)
  moreover have "ids_ok ?y" "sent_ok ?y" using inv by (simp_all add: rpc_inv_def ids_ok_def sent_ok_def drawn_def)
  moreover have "waiters_ok ?y" using inv by (auto simp: rpc_inv_def waiters_ok_def)
  moreover have "none_lost ?y" using inv by (auto simp: rpc_inv_def none_lost_def)
  ultimately show ?thesis by (simp add: rpc_inv_def)
qed

lemma rpc_step_inv:
  assumes "rpc_step answers y y'" and "rpc_inv answers y"
  shows "rpc_inv answers y'"
  using assms
proof (induction rule: rpc_step.induct)
  case (call req y waiter c r)
  show ?case
  proof (cases "cn_closed (rp_conn y) \<or> \<not> cn_writer (rp_conn y)")
    case True
    have "\<not> drawn y (cn_next_corr (rp_conn y))" using next_id [OF _ call(2)] call(4) by (simp add: rpc_inv_def)
    then have none: "hm_get (cn_pending (rp_conn y)) (cn_next_corr (rp_conn y)) = None"
      using call(4) unfolding rpc_inv_def waiters_ok_def ids_ok_def by (metis option.exhaust)
    then have "\<exists>e. r = Inl e" and c: "cn_next_corr c = cn_next_corr (rp_conn y) + 1"
      "hm_get (cn_pending c) = hm_get (cn_pending (rp_conn y))" "cn_closed c = cn_closed (rp_conn y)"
      "cn_sent c = cn_sent (rp_conn y)"
      using call(3) True by (auto simp: call_start_def Let_def fun_eq_iff split: if_splits)
    then show ?thesis using inv_draw [OF call(4,2,1) c(1-3)] c(4) by auto
  next
    case False
    then show ?thesis
      using call(3) inv_call [OF call(4,2,1) refl, of c waiter] by (auto simp: call_start_def Let_def)
  qed
next
  case (send req y c r)
  then show ?case using inv_draw [OF send(4,2,1), of c] by (auto simp: send_only_def Let_def split: if_splits)
next
  case (answer sent y body corr req resp body' c out running)
  obtain req' corr' where sent: "sent = encode_request req' corr'" "wf_request req'" "drawn y corr'"
    "\<forall>r w. (corr', r, w) \<in> set (rp_calls y) \<longrightarrow> r = req'"
    using answer(1,8) unfolding rpc_inv_def sent_ok_def by blast
  then have "(corr, req) = (corr', req')"
    using answer(3) read_frame_whole [OF answer(2)] request_decoded [OF sent(2)] by simp
  note sent = sent [folded this [THEN prod.inject [THEN iffD1], THEN conjunct1] this [THEN prod.inject [THEN iffD1], THEN conjunct2]]
  have dec: "decode_response body' = Inr (corr, resp)"
    using read_frame_whole [OF answer(6)] response_decoded [OF answer(5)] by simp
  show ?case
  proof (cases "hm_get (cn_pending (rp_conn y)) corr")
    case None
    then have "c = rp_conn y" "out = []" using answer(7) dec by (simp_all add: on_frame_def)
    then show ?thesis using answer(8) by simp
  next
    case (Some w)
    then show ?thesis
      using inv_answer [OF answer(8) _ sent(2) answer(4) Some sent(4)] answer(1,7) dec sent(1)
      by (auto simp: on_frame_def)
  qed
next
  case (reader_ends y)
  then show ?case
    by (auto simp: rpc_inv_def ids_ok_def sent_ok_def waiters_ok_def answers_ok_def none_lost_def reader_end_def drawn_def)
next
  case (writer_ends y)
  then show ?case
    by (auto simp: rpc_inv_def ids_ok_def sent_ok_def waiters_ok_def answers_ok_def none_lost_def drawn_def)
qed

interpretation rpc: preserved "rpc_step answers" "rpc_inv answers" for answers
  by unfold_locales (rule rpc_step_inv)

section \<open>The property\<close>


text \<open>Two calls, answered in the other order.\<close>

definition sample_peer :: "request \<Rightarrow> response \<Rightarrow> bool" where
  "sample_peer req resp \<longleftrightarrow> resp = (case req of LeaveGroupReq _ _ \<Rightarrow> LeaveGroupResp UnknownMember | _ \<Rightarrow> HeartbeatResp NoError)"

definition two_calls :: rpc where
  "two_calls = \<lparr>rp_conn = connected\<lparr>cn_next_corr := 3, cn_pending := [(1, 10), (2, 20)],
       cn_sent := [encode_request (LeaveGroupReq ''g'' ''m'') 1, encode_request (HeartbeatReq ''g'' ''m'' 5) 2]\<rparr>,
     rp_drawn = Suc (Suc 0), rp_calls = [(1, LeaveGroupReq ''g'' ''m'', 10), (2, HeartbeatReq ''g'' ''m'' 5, 20)], rp_answers = []\<rparr>"

definition one_answer :: rpc where
  "one_answer = two_calls\<lparr>rp_conn := (rp_conn two_calls)\<lparr>cn_pending := [(1, 10)]\<rparr>,
     rp_answers := [(2, 20, HeartbeatResp NoError)]\<rparr>"


end
