(* ===== verification/ProducerProperties.thy ===== *)
theory ProducerProperties
  imports Client Machines
begin

text \<open>
  The property of the topic producer: what it is given it ships, each record once and in the
  order of its partition, whatever the calls answer.
\<close>

section \<open>A run of a producer\<close>

text \<open>What was shipped, batch by batch; \<open>outcome\<close> is what the connection answers to the n-th.\<close>

definition shipping ::
    "(nat \<Rightarrow> client_error + u64 option) \<Rightarrow> (u32 \<times> produce_record list) list shipper" where
  "shipping outcome topic part acks records w = (w @ [(part, records)], outcome (length w))"

datatype producer_call =
    Send "bytes option" bytes
  | Flush

text \<open>The producer, what it shipped, and what each partition was given.\<close>

type_synonym producer_run = "topic_producer \<times> (u32 \<times> produce_record list) list \<times> (u32 \<times> produce_record) list"

definition producer_call ::
    "(bytes \<Rightarrow> u32) \<Rightarrow> (nat \<Rightarrow> client_error + u64 option) \<Rightarrow> producer_call \<Rightarrow> producer_run \<Rightarrow> producer_run" where
  "producer_call crc outcome c run =
     (let (p, w, given) = run
      in case c of
        Send key value \<Rightarrow>
          (case (route crc key p, topic_send crc (shipping outcome) key value (p, w)) of
             (Some (part, _), Some ((p, w), _)) \<Rightarrow> (p, w, given @ [(part, \<lparr>pr_key = key, pr_value = value\<rparr>)])
           | _ \<Rightarrow> run)
      | Flush \<Rightarrow> (case topic_flush (shipping outcome) (p, w) of ((p, w), _) \<Rightarrow> (p, w, given)))"

definition shipped_to :: "u32 \<Rightarrow> (u32 \<times> produce_record list) list \<Rightarrow> produce_record list" where
  "shipped_to part w = concat (map snd (filter (\<lambda>(q, _). q = part) w))"

definition given_to :: "u32 \<Rightarrow> (u32 \<times> produce_record) list \<Rightarrow> produce_record list" where
  "given_to part g = map snd (filter (\<lambda>(q, _). q = part) g)"

lemma shipped_to_simps [simp]:
  "shipped_to part [] = []"
  "shipped_to part (w @ [(q, rs)]) = shipped_to part w @ (if q = part then rs else [])"
  by (simp_all add: shipped_to_def)

lemma given_to_simps [simp]:
  "given_to part [] = []"
  "given_to part (g @ [(q, r)]) = given_to part g @ (if q = part then [r] else [])"
  by (simp_all add: given_to_def)

section \<open>The invariant\<close>

definition producer_inv :: "(bytes \<Rightarrow> u32) \<Rightarrow> u32 \<Rightarrow> nat \<Rightarrow> producer_run \<Rightarrow> bool" where
  "producer_inv crc n b run \<longleftrightarrow>
     (case run of (p, w, given) \<Rightarrow>
        0 < n \<and> tp_partitions p = n \<and> length (tp_buffers p) = unat n \<and> tp_batch_records p = b \<and> 0 < b \<and>
        (\<forall>i < unat n. length (tp_buffers p ! i) < tp_batch_records p) \<and>
        (\<forall>part < n. shipped_to part w @ tp_buffers p ! unat part = given_to part given) \<and>
        (\<forall>(part, r) \<in> set given. part < n \<and> (\<forall>k. pr_key r = Some k \<longrightarrow> part = partition_for_key crc k n)))"

lemma mod_less_word: "0 < n \<Longrightarrow> (x :: u32) mod n < n"
  by (rule word_mod_less_divisor)

lemma flush_partition_inv:
  assumes "producer_inv crc n b (p, w, given)" and "part < n"
    and "flush_partition (shipping outcome) part (p, w) = ((p', w'), r)"
  shows "producer_inv crc n b (p', w', given) \<and> tp_buffers p' ! unat part = [] \<and>
    (\<forall>i < unat n. i \<noteq> unat part \<longrightarrow> tp_buffers p' ! i = tp_buffers p ! i)"
proof -
  have len: "unat part < length (tp_buffers p)" using assms(1,2) by (simp add: producer_inv_def word_less_nat_alt)
  have p': "p' = p\<lparr>tp_buffers := (tp_buffers p)[unat part := []]\<rparr>"
    and w': "shipped_to q w' = shipped_to q w @ (if part = q then tp_buffers p ! unat part else [])" for q
    using assms(3) by (auto simp: flush_partition_def shipping_def Let_def split: if_splits)
  have "shipped_to q w' @ tp_buffers p' ! unat q = given_to q given" if "q < n" for q
  proof (cases "q = part")
    case True
    then show ?thesis using assms(1) that len by (simp add: p' w' producer_inv_def)
  next
    case False
    then have "unat q \<noteq> unat part" by (simp add: word_unat_eq_iff)
    then show ?thesis using assms(1) that False by (simp add: p' w' producer_inv_def)
  qed
  then show ?thesis using assms(1) len by (auto simp: p' producer_inv_def nth_list_update)
qed

lemma topic_flush_loop_inv:
  assumes "producer_inv crc n b (p, w, given)" and "\<forall>i \<in> set is. i < unat n"
    and "topic_flush_loop (shipping outcome) is out (p, w) = ((p', w'), r)"
  shows "producer_inv crc n b (p', w', given)"
  using assms
proof (induction "is" arbitrary: p w out)
  case (Cons i "is")
  obtain p1 w1 r1 where f: "flush_partition (shipping outcome) (word_of_nat i) (p, w) = ((p1, w1), r1)"
    by (metis prod.exhaust)
  have i: "i < unat n" using Cons.prems(2) by simp
  have "unat n < 2 ^ LENGTH(32)" by (rule unsigned_less)
  then have "unat (word_of_nat i :: u32) = i" using i by (intro unat_of_nat_len) simp
  then have "(word_of_nat i :: u32) < n" using i by (simp add: word_less_nat_alt)
  then have inv: "producer_inv crc n b (p1, w1, given)" using flush_partition_inv [OF Cons.prems(1) _ f] by blast
  show ?case
  proof (cases r1)
    case (Inl e)
    then show ?thesis using Cons.prems(3) f inv by simp
  next
    case (Inr b)
    then show ?thesis using Cons.prems(2,3) f Cons.IH [OF inv] by (cases b) auto
  qed
qed simp

lemma route_cases:
  assumes "0 < tp_partitions p"
  shows "\<exists>part rr. route crc key p = Some (part, p\<lparr>tp_round_robin := rr\<rparr>) \<and> part < tp_partitions p \<and>
    (\<forall>k. key = Some k \<longrightarrow> part = partition_for_key crc k (tp_partitions p))"
proof (cases key)
  case None
  then show ?thesis using assms mod_less_word [OF assms] by (auto simp: route_def)
next
  case (Some k)
  then show ?thesis using assms mod_less_word [OF assms, of "crc k"]
    by (auto simp: route_def partition_for_key_def intro!: exI [of _ "tp_round_robin p"])
qed

text \<open>A record goes to the end of the buffer of its partition.\<close>

lemma buffer_inv:
  assumes "producer_inv crc n b (p, w, given)" and "part < n"
    and "\<forall>k. key = Some k \<longrightarrow> part = partition_for_key crc k n"
    and p2: "p2 = p\<lparr>tp_round_robin := rr,
      tp_buffers := (tp_buffers p)[unat part := tp_buffers p ! unat part @ [\<lparr>pr_key = key, pr_value = val\<rparr>]]\<rparr>"
  shows "\<forall>q < n. shipped_to q w @ tp_buffers p2 ! unat q = given_to q (given @ [(part, \<lparr>pr_key = key, pr_value = val\<rparr>)])"
    and "\<forall>(q, r) \<in> set (given @ [(part, \<lparr>pr_key = key, pr_value = val\<rparr>)]). q < n \<and>
      (\<forall>k. pr_key r = Some k \<longrightarrow> q = partition_for_key crc k n)"
    and "\<forall>i < unat n. i \<noteq> unat part \<longrightarrow> length (tp_buffers p2 ! i) < tp_batch_records p2"
proof -
  have len: "unat part < length (tp_buffers p)" using assms(1,2) by (simp add: producer_inv_def word_less_nat_alt)
  show "\<forall>q < n. shipped_to q w @ tp_buffers p2 ! unat q = given_to q (given @ [(part, \<lparr>pr_key = key, pr_value = val\<rparr>)])"
  proof (intro allI impI)
    fix q assume q: "q < n"
    have old: "shipped_to q w @ tp_buffers p ! unat q = given_to q given"
      using assms(1) q by (simp add: producer_inv_def)
    show "shipped_to q w @ tp_buffers p2 ! unat q = given_to q (given @ [(part, \<lparr>pr_key = key, pr_value = val\<rparr>)])"
    proof (cases "q = part")
      case True
      then show ?thesis using old [symmetric] len by (simp add: p2)
    next
      case False
      then have "unat q \<noteq> unat part" by (simp add: word_unat_eq_iff)
      then show ?thesis using old False by (simp add: p2)
    qed
  qed
  show "\<forall>(q, r) \<in> set (given @ [(part, \<lparr>pr_key = key, pr_value = val\<rparr>)]). q < n \<and>
      (\<forall>k. pr_key r = Some k \<longrightarrow> q = partition_for_key crc k n)"
    using assms(1-3) by (auto simp: producer_inv_def)
  show "\<forall>i < unat n. i \<noteq> unat part \<longrightarrow> length (tp_buffers p2 ! i) < tp_batch_records p2"
    using assms(1) by (auto simp: p2 producer_inv_def)
qed

lemma topic_send_inv:
  assumes "producer_inv crc n b (p, w, given)"
  shows "producer_inv crc n b (producer_call crc outcome (Send key val) (p, w, given))"
proof -
  have n: "tp_partitions p = n" "0 < n" using assms by (simp_all add: producer_inv_def)
  obtain part rr where r: "route crc key p = Some (part, p\<lparr>tp_round_robin := rr\<rparr>)" "part < n"
    "\<forall>k. key = Some k \<longrightarrow> part = partition_for_key crc k n"
    using route_cases [of p crc key] n by blast
  define p2 where "p2 = p\<lparr>tp_round_robin := rr,
    tp_buffers := (tp_buffers p)[unat part := tp_buffers p ! unat part @ [\<lparr>pr_key = key, pr_value = val\<rparr>]]\<rparr>"
  let ?given = "given @ [(part, \<lparr>pr_key = key, pr_value = val\<rparr>)]"
  note bf = buffer_inv [OF assms r(2,3) p2_def]
  have len: "unat part < length (tp_buffers p)" using assms r(2) by (simp add: producer_inv_def word_less_nat_alt)
  have p2: "tp_partitions p2 = n" "tp_batch_records p2 = tp_batch_records p" "length (tp_buffers p2) = unat n"
    "0 < tp_batch_records p2" "tp_batch_records p = b"
    using assms by (simp_all add: p2_def producer_inv_def)
  show ?thesis
  proof (cases "tp_batch_records p2 \<le> length (tp_buffers p2 ! unat part)")
    case False
    have "length (tp_buffers p2 ! i) < tp_batch_records p2" if "i < unat n" for i
      using bf(3) False that by (cases "i = unat part") auto
    then have "producer_inv crc n b (p2, w, ?given)" using bf(1,2) n p2 by (simp add: producer_inv_def)
    moreover have "producer_call crc outcome (Send key val) (p, w, given) = (p2, w, ?given)"
      using False by (simp add: producer_call_def topic_send_def r(1) p2_def [symmetric] Let_def) (simp add: p2_def)
    ultimately show ?thesis by simp
  next
    case True
    obtain p3 w3 r3 where f: "flush_partition (shipping outcome) part (p2, w) = ((p3, w3), r3)" by (metis prod.exhaust)
    have nonempty: "tp_buffers p2 ! unat part \<noteq> []" using True p2(4) by auto
    then have p3: "p3 = p2\<lparr>tp_buffers := (tp_buffers p2)[unat part := []]\<rparr>" "w3 = w @ [(part, tp_buffers p2 ! unat part)]"
      using f by (auto simp: flush_partition_def shipping_def Let_def)
    have "shipped_to q w3 @ tp_buffers p3 ! unat q = given_to q ?given" if "q < n" for q
    proof (cases "q = part")
      case True
      then show ?thesis using bf(1) that p2(3) r(2) by (simp add: p3 word_less_nat_alt)
    next
      case False
      then have "unat q \<noteq> unat part" by (simp add: word_unat_eq_iff)
      then show ?thesis using bf(1) that False by (simp add: p3)
    qed
    moreover have "length (tp_buffers p3 ! i) < tp_batch_records p3" if "i < unat n" for i
      using bf(3) that p2 by (cases "i = unat part") (auto simp: p3)
    ultimately have "producer_inv crc n b (p3, w3, ?given)" using bf(2) n p2 by (simp add: producer_inv_def p3)
    moreover have "producer_call crc outcome (Send key val) (p, w, given) = (p3, w3, ?given)"
      using True f by (simp add: producer_call_def topic_send_def r(1) p2_def [symmetric] Let_def) (simp add: p2_def)
    ultimately show ?thesis by simp
  qed
qed

lemma producer_call_inv: "producer_inv crc n b run \<Longrightarrow> producer_inv crc n b (producer_call crc outcome c run)"
proof (cases c)
  case Flush
  assume inv: "producer_inv crc n b run"
  obtain p w given where run: "run = (p, w, given)" by (metis prod_cases3)
  obtain p1 w1 r where f: "topic_flush (shipping outcome) (p, w) = ((p1, w1), r)" by (metis prod.exhaust)
  have "tp_partitions p = n" using inv by (simp add: run producer_inv_def)
  then have "producer_inv crc n b (p1, w1, given)"
    using topic_flush_loop_inv [of crc n b p w given "[0..<unat n]"] inv f by (simp add: run topic_flush_def)
  then show ?thesis using Flush f by (simp add: producer_call_def run)
qed (cases run, simp add: topic_send_inv)

interpretation producing: preserved "step_of (producer_call crc outcome)" "producer_inv crc n b" for crc outcome n b
  by unfold_locales (auto simp: step_of_def producer_call_inv)

text \<open>The records of the calls, in order.\<close>

definition sent_records :: "producer_call list \<Rightarrow> produce_record list" where
  "sent_records calls =
     concat (map (\<lambda>c. case c of Send key val \<Rightarrow> [\<lparr>pr_key = key, pr_value = val\<rparr>] | Flush \<Rightarrow> []) calls)"

lemma producer_call_given:
  assumes "producer_inv crc n b (p, w, given)"
  shows "map snd (snd (snd (producer_call crc outcome c (p, w, given)))) = map snd given @ sent_records [c]"
proof (cases c)
  case (Send key val)
  have "0 < tp_partitions p" using assms by (simp add: producer_inv_def)
  then show ?thesis using Send route_cases [of p crc key]
    by (auto simp: producer_call_def topic_send_def sent_records_def Let_def split: prod.split)
qed (simp add: producer_call_def sent_records_def split: prod.split)

lemma fold_given:
  "producer_inv crc n b run \<Longrightarrow>
     map snd (snd (snd (fold (producer_call crc outcome) calls run))) = map snd (snd (snd run)) @ sent_records calls"
proof (induction calls arbitrary: run)
  case (Cons c calls)
  obtain p w given where run: "run = (p, w, given)" by (metis prod_cases3)
  show ?case
    using Cons.IH [OF producer_call_inv [OF Cons.prems]] producer_call_given [of crc n b p w given] Cons.prems
    by (simp add: run sent_records_def)
qed (simp add: sent_records_def)

text \<open>
  C23. A topic producer, fresh for a topic of \<open>n > 0\<close> partitions, through any calls of \<open>send\<close> and
  \<open>flush\<close> and whatever the broker answers: each record given to it goes to one partition, the one
  of its key if it has a key, and the batches shipped to a partition, followed by its buffer, are
  exactly the records given to that partition, in order and each once (so a batch whose call
  failed is not shipped again). A buffer never holds a full batch.
\<close>

theorem producer_ships_in_order:
  assumes "topic_producer_new topic acks batch metadata = Inr p0" and "0 < tp_partitions p0"
    and "fold (producer_call crc outcome) calls (p0, [], []) = (p, w, given)"
  shows "map snd given = sent_records calls \<and>
    (\<forall>(q, r) \<in> set given. q < tp_partitions p0 \<and>
       (\<forall>k. pr_key r = Some k \<longrightarrow> q = partition_for_key crc k (tp_partitions p0))) \<and>
    (\<forall>q < tp_partitions p0. shipped_to q w @ tp_buffers p ! unat q = given_to q given \<and>
       length (tp_buffers p ! unat q) < max batch 1)"
proof -
  let ?n = "tp_partitions p0"
  have p0: "length (tp_buffers p0) = unat ?n" "\<forall>i < unat ?n. tp_buffers p0 ! i = []" "tp_batch_records p0 = max batch 1"
    using assms(1) by (auto simp: topic_producer_new_def bind_r_eq_Inr Let_def split: option.splits)
  then have inv: "producer_inv crc ?n (max batch 1) (p0, [], [])" using assms(2)
    by (auto simp: producer_inv_def word_less_nat_alt)
  then have inv': "producer_inv crc ?n (max batch 1) (p, w, given)"
    using producing.run [OF step_of_fold] assms(3) by metis
  then show ?thesis
    using fold_given [OF inv, of outcome calls] assms(3) inv' by (auto simp: producer_inv_def word_less_nat_alt)
qed

text \<open>Two partitions, batches of two, a broker that is gone for every second batch.\<close>

definition sample_topics :: cluster_meta where
  "sample_topics = default_cluster_meta\<lparr>cm_topics :=
     [\<lparr>tm_name = ''t'', tm_partitions =
       [\<lparr>pm_partition = 0, pm_leader = 0, pm_leader_epoch = 0, pm_replicas = [0], pm_isr = [0]\<rparr>,
        \<lparr>pm_partition = 1, pm_leader = 0, pm_leader_epoch = 0, pm_replicas = [0], pm_isr = [0]\<rparr>]\<rparr>]\<rparr>"

definition sample_calls :: "producer_call list" where
  "sample_calls = [Send (Some [7]) [1], Send None [2], Send (Some [7]) [3], Flush, Send (Some [7]) [4]]"

theorem producer_ships_in_order_witness:
  "\<exists>p w given. fold (producer_call (\<lambda>_. 5) (\<lambda>i. if even i then Inr (Some 0) else Inl Closed)) sample_calls
       (\<lparr>tp_topic = ''t'', tp_partitions = 2, tp_acks = Written, tp_batch_records = 2, tp_buffers = [[], []],
         tp_round_robin = 0\<rparr>, [], []) = (p, w, given) \<and>
     map snd given = sent_records sample_calls \<and>
     shipped_to 1 w @ tp_buffers p ! 1 = [\<lparr>pr_key = Some [7], pr_value = [1]\<rparr>, \<lparr>pr_key = Some [7], pr_value = [3]\<rparr>,
       \<lparr>pr_key = Some [7], pr_value = [4]\<rparr>]"
proof -
  let ?p0 = "\<lparr>tp_topic = ''t'', tp_partitions = 2, tp_acks = Written, tp_batch_records = 2, tp_buffers = [[], []],
         tp_round_robin = 0\<rparr>"
  let ?out = "\<lambda>i. if even i then Inr (Some 0) else Inl Closed"
  have new: "topic_producer_new ''t'' Written 2 (Inr sample_topics) = Inr ?p0"
    by (simp add: topic_producer_new_def sample_topics_def default_cluster_meta_def)
      (simp add: numeral_2_eq_2)
  obtain p w given where f: "fold (producer_call (\<lambda>_. 5) ?out) sample_calls (?p0, [], []) = (p, w, given)"
    by (metis prod_cases3)
  have pos: "0 < tp_partitions ?p0" by simp
  note t = producer_ships_in_order [OF new pos f]
  have "given_to 1 given = [\<lparr>pr_key = Some [7], pr_value = [1]\<rparr>, \<lparr>pr_key = Some [7], pr_value = [3]\<rparr>,
       \<lparr>pr_key = Some [7], pr_value = [4]\<rparr>]"
    using f
    by (auto simp: sample_calls_def producer_call_def topic_send_def route_def partition_for_key_def Let_def
        flush_partition_def shipping_def topic_flush_def given_to_def upt_rec)
  then show ?thesis using f t [THEN conjunct1] t [THEN conjunct2, THEN conjunct2, rule_format, of 1] by simp
qed

end
