(* ===== verification/StartProperties.thy ===== *)
theory StartProperties
  imports Broker
begin

text \<open>The start of a broker ends, whatever its data directory holds.\<close>

section \<open>A read goes forward\<close>

lemma read_loop_forward:
  "read_loop crc cfg seg_next start offset max_bytes buf pos out out_bytes = Inr rs \<Longrightarrow>
     \<forall>r \<in> set out. offset \<le> unat (lr_offset r) \<Longrightarrow> \<forall>r \<in> set rs. offset \<le> unat (lr_offset r)"
proof (induction crc cfg seg_next start offset max_bytes buf pos out out_bytes rule: read_loop.induct)
  case (1 crc cfg seg_next start offset max_bytes buf pos out out_bytes)
  note eq = 1(3) [unfolded read_loop.simps [of crc cfg seg_next start offset max_bytes buf]]
  show ?case
  proof (cases "decode crc buf (max_record_bytes cfg)")
    case (Decoded r consumed)
    show ?thesis
    proof (cases "unat (lr_offset r) < offset")
      case True
      then show ?thesis using 1(1) [OF Decoded True _ 1(4)] eq Decoded by simp
    next
      case False
      have out: "\<forall>r \<in> set (out @ [r]). offset \<le> unat (lr_offset r)" using False 1(4) by auto
      then show ?thesis using 1(2) [OF Decoded False _ _ _ out] 1(4) eq Decoded False
        by (auto split: if_splits)
    qed
  qed (use 1(4) eq in simp_all)
qed

lemma read_from_forward:
  "read_from crc cfg offset max_bytes s d = Inr rs \<Longrightarrow> r \<in> set rs \<Longrightarrow> offset \<le> unat (lr_offset r)"
  using read_loop_forward [of crc cfg "sg_next s" "index_start s offset" offset max_bytes _ 0 "[]" 0 rs]
  by (auto simp: read_from_def Let_def bind_r_eq_Inr split: if_splits)

lemma actor_read_forward:
  assumes "actor_read crc cfg offset max_bytes a = Inr ok"
  shows "offset \<le> log_next_offset (ac_log a)" and "r \<in> set (ro_records ok) \<Longrightarrow> offset \<le> unat (lr_offset r)"
  using assms read_from_forward
  by (auto simp: actor_read_def log_read_def split: sum.splits if_splits option.splits)

section \<open>The replay ends\<close>

lemma fold_replay_last:
  "rs \<noteq> [] \<Longrightarrow> fst (fold replay_record rs pc) = unat (lr_offset (last rs)) + 1"
  by (induction rs arbitrary: pc) (auto simp: replay_record_def)

lemma replay_ends: "\<exists>r. replay crc cfg a pos cache = Some r"
proof (induction "log_next_offset (ac_log a) + 1 - pos" arbitrary: pos cache rule: less_induct)
  case less
  show ?case
  proof (cases "actor_read crc cfg pos (4 * 1024 * 1024) a")
    case (Inl e)
    then show ?thesis by (subst replay.simps) simp
  next
    case (Inr ok)
    show ?thesis
    proof (cases "ro_records ok = []")
      case True
      then show ?thesis using Inr by (subst replay.simps) simp
    next
      case False
      let ?pos = "fst (fold replay_record (ro_records ok) (pos, cache))"
      have "pos < ?pos" using fold_replay_last [OF False] actor_read_forward(2) [OF Inr last_in_set [OF False]] by simp
      then have "log_next_offset (ac_log a) + 1 - ?pos < log_next_offset (ac_log a) + 1 - pos"
        using actor_read_forward(1) [OF Inr] by simp
      from less.hyps [OF this] show ?thesis using Inr False by (subst replay.simps) simp
    qed
  qed
qed


end
