(* ===== verification/ClusterClient.thy ===== *)
theory ClusterClient
  imports Client
begin

text \<open>
  The cluster client of \<^verbatim>\<open>src/src/client/cluster.rs\<close>: its metadata and its cache of connections, the
  routing of a call to the leader of its partition, and the loops that retry. A connection is a
  number. What connecting and the calls on a connection do, and the clock, are an argument that
  acts on a state of its own.
\<close>

section \<open>The network and the client's state\<close>

record 'w network =
  nt_connect :: "string \<Rightarrow> 'w \<Rightarrow> 'w \<times> (client_error + nat)"
  nt_metadata :: "nat \<Rightarrow> 'w \<Rightarrow> 'w \<times> (client_error + cluster_meta)"
  nt_create_topic :: "nat \<Rightarrow> string \<Rightarrow> u32 \<Rightarrow> u32 \<Rightarrow> 'w \<Rightarrow> 'w \<times> (client_error + unit)"
  nt_produce :: "nat \<Rightarrow> string \<Rightarrow> u32 \<Rightarrow> acks \<Rightarrow> u64 \<Rightarrow> produce_record list \<Rightarrow> 'w \<Rightarrow> 'w \<times> (client_error + u64 option)"
  nt_fetch :: "nat \<Rightarrow> string \<Rightarrow> u32 \<Rightarrow> u64 \<Rightarrow> u32 \<Rightarrow> u32 \<Rightarrow> 'w \<Rightarrow>
    'w \<times> (client_error + u64 \<times> u64 \<times> fetched_record list)"
  nt_now :: "'w \<Rightarrow> nat"
  nt_sleep :: "nat \<Rightarrow> 'w \<Rightarrow> 'w"

record cluster_client =
  cc_bootstrap :: "string list"
  cc_conns :: "(string, nat) hashmap"
  cc_meta :: cluster_meta
  cc_retry_timeout :: nat
  cc_retry_backoff :: nat

section \<open>Connections\<close>

definition conn_to ::
    "'w network \<Rightarrow> string \<Rightarrow> cluster_client \<times> 'w \<Rightarrow> (cluster_client \<times> 'w) \<times> (client_error + nat)" where
  "conn_to nt addr cw =
     (let (c, w) = cw
      in case hm_get (cc_conns c) addr of
        Some conn \<Rightarrow> ((c, w), Inr conn)
      | None \<Rightarrow>
          (case nt_connect nt addr w of
             (w, Inl e) \<Rightarrow> ((c, w), Inl e)
           | (w, Inr conn) \<Rightarrow> ((c\<lparr>cc_conns := hm_insert addr conn (cc_conns c)\<rparr>, w), Inr conn)))"

definition drop_conn :: "string \<Rightarrow> cluster_client \<times> 'w \<Rightarrow> cluster_client \<times> 'w" where
  "drop_conn addr cw = (let (c, w) = cw in (c\<lparr>cc_conns := hm_remove addr (cc_conns c)\<rparr>, w))"

section \<open>Metadata\<close>

text \<open>The addresses asked: in order, and once each.\<close>

definition refresh_candidates :: "cluster_client \<Rightarrow> string list" where
  "refresh_candidates c = rev (remdups (rev (cc_bootstrap c @ map snd (cm_brokers (cc_meta c)))))"

fun refresh_loop ::
    "'w network \<Rightarrow> string list \<Rightarrow> cluster_meta option \<Rightarrow> client_error \<Rightarrow> cluster_client \<times> 'w \<Rightarrow>
     (cluster_client \<times> 'w) \<times> cluster_meta option \<times> client_error" where
  "refresh_loop nt [] best last_err cw = (cw, best, last_err)"
| "refresh_loop nt (addr # addrs) best last_err cw =
     (case conn_to nt addr cw of
        (cw, Inl e) \<Rightarrow> refresh_loop nt addrs best e (drop_conn addr cw)
      | ((c, w), Inr conn) \<Rightarrow>
          (case nt_metadata nt conn w of
             (w, Inl e) \<Rightarrow> refresh_loop nt addrs best e (drop_conn addr (c, w))
           | (w, Inr cluster) \<Rightarrow>
               refresh_loop nt addrs
                 (case best of None \<Rightarrow> Some cluster
                  | Some b \<Rightarrow> if cm_version cluster > cm_version b then Some cluster else Some b)
                 last_err (c, w)))"

definition refresh_metadata ::
    "'w network \<Rightarrow> cluster_client \<times> 'w \<Rightarrow> (cluster_client \<times> 'w) \<times> (client_error + unit)" where
  "refresh_metadata nt cw =
     (case refresh_loop nt (refresh_candidates (fst cw)) None Closed cw of
        ((c, w), Some cluster, _) \<Rightarrow> ((c\<lparr>cc_meta := cluster\<rparr>, w), Inr ())
      | (cw, None, last_err) \<Rightarrow> (cw, Inl last_err))"

definition cluster_connect ::
    "'w network \<Rightarrow> string list \<Rightarrow> 'w \<Rightarrow> 'w \<times> (client_error + cluster_client)" where
  "cluster_connect nt bootstrap w =
     (case refresh_metadata nt (\<lparr>cc_bootstrap = bootstrap, cc_conns = [], cc_meta = default_cluster_meta,
        cc_retry_timeout = 15000, cc_retry_backoff = 100\<rparr>, w) of
        ((_, w), Inl e) \<Rightarrow> (w, Inl e)
      | ((c, w), Inr _) \<Rightarrow> (w, Inr c))"

definition leader_for :: "string \<Rightarrow> u32 \<Rightarrow> cluster_meta \<Rightarrow> (string \<times> u64) option" where
  "leader_for topic part meta =
     (case find (\<lambda>t. tm_name t = topic) (cm_topics meta) of
        None \<Rightarrow> None
      | Some t \<Rightarrow>
          (case find (\<lambda>p. pm_partition p = part) (tm_partitions t) of
             None \<Rightarrow> None
           | Some p \<Rightarrow>
               if sint (pm_leader p) < 0 then None
               else map_option (\<lambda>(_, addr). (addr, pm_leader_epoch p))
                      (find (\<lambda>(id, _). id = pm_leader p) (cm_brokers meta))))"

section \<open>Calls that retry\<close>

text \<open>An attempt of a call on the leader of its partition; a broken connection leaves the cache.\<close>

definition is_broken :: "client_error + 'a \<Rightarrow> bool" where
  "is_broken r \<longleftrightarrow> r = Inl Closed \<or> r = Inl ClientIo"

definition attempt ::
    "'w network \<Rightarrow> (nat \<Rightarrow> u64 \<Rightarrow> 'w \<Rightarrow> 'w \<times> (client_error + 'a)) \<Rightarrow> string \<Rightarrow> u32 \<Rightarrow> cluster_client \<times> 'w \<Rightarrow>
     (cluster_client \<times> 'w) \<times> (client_error + 'a)" where
  "attempt nt call topic part cw =
     (case leader_for topic part (cc_meta (fst cw)) of
        None \<Rightarrow> (cw, Inl (BrokerErr Offline))
      | Some (addr, epoch) \<Rightarrow>
          (case conn_to nt addr cw of
             (cw, Inl e) \<Rightarrow> (drop_conn addr cw, Inl e)
           | ((c, w), Inr conn) \<Rightarrow>
               let (w, r) = call conn epoch w
               in (if is_broken r then drop_conn addr (c, w) else (c, w), r)))"

text \<open>
  The loop of \<open>produce\<close> and of \<open>fetch\<close>, which differ in the errors after which they go on. It ends
  with an answer, with another error, or, once the deadline has passed, with \<open>Closed\<close>.
\<close>

partial_function (option) retry_loop ::
    "'w network \<Rightarrow> (client_error \<Rightarrow> bool) \<Rightarrow> (nat \<Rightarrow> u64 \<Rightarrow> 'w \<Rightarrow> 'w \<times> (client_error + 'a)) \<Rightarrow> string \<Rightarrow> u32 \<Rightarrow> nat \<Rightarrow>
     cluster_client \<times> 'w \<Rightarrow> ((cluster_client \<times> 'w) \<times> (client_error + 'a)) option" where
  "retry_loop nt retries call topic part deadline cw =
     (case attempt nt call topic part cw of
        (cw, Inr ok) \<Rightarrow> Some (cw, Inr ok)
      | ((c, w), Inl e) \<Rightarrow>
          if retries e then
            if deadline \<le> nt_now nt w then Some ((c, w), Inl Closed)
            else retry_loop nt retries call topic part deadline
              (fst (refresh_metadata nt (c, nt_sleep nt (cc_retry_backoff c) w)))
          else Some ((c, w), Inl e))"

definition produce_retries :: "client_error \<Rightarrow> bool" where
  "produce_retries e =
     (case e of
        BrokerErr code \<Rightarrow> code \<in> {NotLeader, FencedEpoch, Offline, NotEnoughReplicas, UnknownTopicOrPartition}
      | Closed \<Rightarrow> True
      | ClientIo \<Rightarrow> True
      | _ \<Rightarrow> False)"

definition cluster_produce ::
    "'w network \<Rightarrow> string \<Rightarrow> u32 \<Rightarrow> acks \<Rightarrow> produce_record list \<Rightarrow> cluster_client \<times> 'w \<Rightarrow>
     ((cluster_client \<times> 'w) \<times> (client_error + u64 option)) option" where
  "cluster_produce nt topic part acks records cw =
     retry_loop nt produce_retries (\<lambda>conn epoch. nt_produce nt conn topic part acks epoch records) topic part
       (nt_now nt (snd cw) + cc_retry_timeout (fst cw)) cw"

definition fetch_retries :: "client_error \<Rightarrow> bool" where
  "fetch_retries e =
     (case e of
        BrokerErr code \<Rightarrow> code \<in> {NotLeader, FencedEpoch, Offline}
      | Closed \<Rightarrow> True
      | ClientIo \<Rightarrow> True
      | _ \<Rightarrow> False)"

definition cluster_fetch ::
    "'w network \<Rightarrow> string \<Rightarrow> u32 \<Rightarrow> u64 \<Rightarrow> u32 \<Rightarrow> u32 \<Rightarrow> cluster_client \<times> 'w \<Rightarrow>
     ((cluster_client \<times> 'w) \<times> (client_error + u64 \<times> u64 \<times> fetched_record list)) option" where
  "cluster_fetch nt topic part offset max_bytes max_wait cw =
     retry_loop nt fetch_retries (\<lambda>conn _. nt_fetch nt conn topic part offset max_bytes max_wait) topic part
       (nt_now nt (snd cw) + cc_retry_timeout (fst cw)) cw"

text \<open>\<open>create_topic\<close> asks one broker after the other; \<open>None\<close> is a round without an answer that counts.\<close>

fun create_round ::
    "'w network \<Rightarrow> string \<Rightarrow> u32 \<Rightarrow> u32 \<Rightarrow> string list \<Rightarrow> cluster_client \<times> 'w \<Rightarrow>
     (cluster_client \<times> 'w) \<times> (client_error + unit) option" where
  "create_round nt topic partitions rf [] cw = (cw, None)"
| "create_round nt topic partitions rf (addr # addrs) cw =
     (case conn_to nt addr cw of
        (cw, Inl _) \<Rightarrow> create_round nt topic partitions rf addrs cw
      | ((c, w), Inr conn) \<Rightarrow>
          (case nt_create_topic nt conn topic partitions rf w of
             (w, Inr _) \<Rightarrow> ((c, w), Some (Inr ()))
           | (w, Inl e) \<Rightarrow>
               if e = BrokerErr TopicExists then ((c, w), Some (Inl e))
               else create_round nt topic partitions rf addrs (drop_conn addr (c, w))))"

partial_function (option) create_loop ::
    "'w network \<Rightarrow> string \<Rightarrow> u32 \<Rightarrow> u32 \<Rightarrow> nat \<Rightarrow> cluster_client \<times> 'w \<Rightarrow>
     ((cluster_client \<times> 'w) \<times> (client_error + unit)) option" where
  "create_loop nt topic partitions rf deadline cw =
     (let addrs = map snd (cm_brokers (cc_meta (fst cw)))
      in case create_round nt topic partitions rf (if addrs = [] then cc_bootstrap (fst cw) else addrs) cw of
        (cw, Some r) \<Rightarrow> Some (cw, r)
      | ((c, w), None) \<Rightarrow>
          if deadline \<le> nt_now nt w then Some ((c, w), Inl Closed)
          else create_loop nt topic partitions rf deadline
            (fst (refresh_metadata nt (c, nt_sleep nt (cc_retry_backoff c) w))))"

definition cluster_create_topic ::
    "'w network \<Rightarrow> string \<Rightarrow> u32 \<Rightarrow> u32 \<Rightarrow> cluster_client \<times> 'w \<Rightarrow>
     ((cluster_client \<times> 'w) \<times> (client_error + unit)) option" where
  "cluster_create_topic nt topic partitions rf cw =
     create_loop nt topic partitions rf (nt_now nt (snd cw) + cc_retry_timeout (fst cw)) cw"

end
