(* ===== verification/ClusterProperties.thy ===== *)
theory ClusterProperties
  imports ClusterClient
begin

text \<open>
  The properties of the cluster client: what a refresh of the metadata takes, and that a call
  which retries ends. That it ends rests on a clock that goes on, which the contract \<open>ticking\<close>
  states.
\<close>

section \<open>Refreshing metadata\<close>

text \<open>The answers the addresses give, in the order they are asked.\<close>

fun refresh_answers ::
    "'w network \<Rightarrow> string list \<Rightarrow> cluster_client \<times> 'w \<Rightarrow> (client_error + cluster_meta) list" where
  "refresh_answers nt [] cw = []"
| "refresh_answers nt (addr # addrs) cw =
     (case conn_to nt addr cw of
        (cw, Inl e) \<Rightarrow> Inl e # refresh_answers nt addrs (drop_conn addr cw)
      | ((c, w), Inr conn) \<Rightarrow>
          (case nt_metadata nt conn w of
             (w, Inl e) \<Rightarrow> Inl e # refresh_answers nt addrs (drop_conn addr (c, w))
           | (w, Inr cluster) \<Rightarrow> Inr cluster # refresh_answers nt addrs (c, w)))"

lemma conn_to_meta: "conn_to nt addr (c, w) = ((c', w'), r) \<Longrightarrow> cc_meta c' = cc_meta c \<and> cc_bootstrap c' = cc_bootstrap c"
  by (auto simp: conn_to_def split: option.splits prod.splits sum.splits)

lemma drop_conn_simp: "drop_conn addr (c, w) = (c\<lparr>cc_conns := hm_remove addr (cc_conns c)\<rparr>, w)"
  by (simp add: drop_conn_def)

lemma refresh_loop_ok:
  assumes "refresh_loop nt addrs best err (c, w) = ((c', w'), best', err')"
  shows "cc_meta c' = cc_meta c \<and>
    (case best' of
       None \<Rightarrow> best = None \<and> (\<forall>a \<in> set (refresh_answers nt addrs (c, w)). \<exists>e. a = Inl e) \<and>
         err' = last (err # map projl (refresh_answers nt addrs (c, w)))
     | Some m \<Rightarrow> (best = Some m \<or> Inr m \<in> set (refresh_answers nt addrs (c, w))) \<and>
         (\<forall>b. best = Some b \<longrightarrow> cm_version b \<le> cm_version m) \<and>
         (\<forall>m'. Inr m' \<in> set (refresh_answers nt addrs (c, w)) \<longrightarrow> cm_version m' \<le> cm_version m))"
  using assms
proof (induction addrs arbitrary: best err c w)
  case Nil
  then show ?case by (auto split: option.split)
next
  case (Cons addr addrs)
  obtain c1 w1 r1 where c1: "conn_to nt addr (c, w) = ((c1, w1), r1)" by (metis prod.exhaust)
  note m1 = conn_to_meta [OF c1]
  show ?case
  proof (cases r1)
    case (Inl e)
    then show ?thesis using Cons.prems Cons.IH c1 m1 by (fastforce simp: drop_conn_simp split: option.splits)
  next
    case (Inr conn)
    obtain w2 r2 where w2: "nt_metadata nt conn w1 = (w2, r2)" by (metis prod.exhaust)
    show ?thesis
    proof (cases r2)
      case (Inl e)
      then show ?thesis using Cons.prems Cons.IH c1 m1 Inr w2 by (fastforce simp: drop_conn_simp split: option.splits)
    next
      case r2: (Inr m)
      define b where "b = (case best of None \<Rightarrow> Some m | Some b \<Rightarrow> if cm_version m > cm_version b then Some m else Some b)"
      have "refresh_loop nt addrs b err (c1, w2) = ((c', w'), best', err')"
        using Cons.prems c1 Inr w2 r2 by (simp add: b_def)
      note ih = Cons.IH [OF this]
      have "b \<noteq> None" by (simp add: b_def split: option.split)
      then obtain b0 where b0: "b = Some b0" by blast
      then obtain m' where m': "best' = Some m'" using ih by (cases best') auto
      have ans: "refresh_answers nt (addr # addrs) (c, w) = Inr m # refresh_answers nt addrs (c1, w2)"
        using c1 Inr w2 r2 by simp
      have v: "cm_version m \<le> cm_version b0" "\<And>b. best = Some b \<Longrightarrow> cm_version b \<le> cm_version b0"
        "b0 = m \<or> best = Some b0"
        using b0 by (auto simp: b_def split: option.splits if_splits)
      have "cm_version b0 \<le> cm_version m'" "b0 = m' \<or> Inr m' \<in> set (refresh_answers nt addrs (c1, w2))"
        using ih b0 m' by auto
      then show ?thesis using ih m1 v m' unfolding ans by (auto intro: order_trans)
    qed
  qed
qed

text \<open>
  A refresh of the metadata (\<open>ClusterClient::refresh_metadata\<close>) takes, of the answers that
  came, one of the highest version, and fails only if none came, with the last error; then the
  metadata stays. The version the client has takes no part: with one answer, an older one, the
  metadata goes back.
\<close>

theorem refresh_takes_newest_answer:
  "(case refresh_metadata nt (c, w) of
      ((c', w'), Inr _) \<Rightarrow> Inr (cc_meta c') \<in> set (refresh_answers nt (refresh_candidates c) (c, w)) \<and>
        (\<forall>m. Inr m \<in> set (refresh_answers nt (refresh_candidates c) (c, w)) \<longrightarrow> cm_version m \<le> cm_version (cc_meta c'))
    | ((c', w'), Inl e) \<Rightarrow> cc_meta c' = cc_meta c \<and>
        (\<forall>a \<in> set (refresh_answers nt (refresh_candidates c) (c, w)). \<exists>e. a = Inl e) \<and>
        e = last (Closed # map projl (refresh_answers nt (refresh_candidates c) (c, w)))) \<and>
   (refresh_answers nt (refresh_candidates c) (c, w) = [Inr old] \<longrightarrow>
      cc_meta (fst (fst (refresh_metadata nt (c, w)))) = old)"
proof -
  obtain c' w' best err where l: "refresh_loop nt (refresh_candidates c) None Closed (c, w) = ((c', w'), best, err)"
    by (metis prod.exhaust)
  show ?thesis using refresh_loop_ok [OF l] l by (cases best) (auto simp: refresh_metadata_def)
qed

text \<open>A broker in time and one behind: the client that knows only the second goes back.\<close>

definition two_views :: "unit network" where
  "two_views =
     \<lparr>nt_connect = \<lambda>addr w. (w, Inr (length addr)),
      nt_metadata = \<lambda>n w. (w, if n = 1 then Inr (default_cluster_meta\<lparr>cm_version := 5\<rparr>)
        else if n = 2 then Inr (default_cluster_meta\<lparr>cm_version := 3\<rparr>) else Inl Closed),
      nt_create_topic = \<lambda>_ _ _ _ w. (w, Inl Closed), nt_produce = \<lambda>_ _ _ _ _ _ w. (w, Inl Closed),
      nt_fetch = \<lambda>_ _ _ _ _ _ w. (w, Inl Closed), nt_now = \<lambda>_. 0, nt_sleep = \<lambda>_ w. w\<rparr>"

definition view_client :: "string list \<Rightarrow> cluster_client" where
  "view_client bootstrap = \<lparr>cc_bootstrap = bootstrap, cc_conns = [], cc_meta = default_cluster_meta\<lparr>cm_version := 5\<rparr>,
     cc_retry_timeout = 15000, cc_retry_backoff = 100\<rparr>"

theorem refresh_takes_newest_answer_witness:
  "cm_version (cc_meta (fst (fst (refresh_metadata two_views (view_client [''bb'', ''a''], ()))))) = 5 \<and>
   cm_version (cc_meta (fst (fst (refresh_metadata two_views (view_client [''bb''], ()))))) = 3"
proof -
  have a: "refresh_answers two_views (refresh_candidates (view_client [''bb''])) (view_client [''bb''], ()) =
      [Inr (default_cluster_meta\<lparr>cm_version := 3\<rparr>)]"
    by (simp add: two_views_def view_client_def refresh_candidates_def conn_to_def default_cluster_meta_def)
  have "cm_version (cc_meta (fst (fst (refresh_metadata two_views (view_client [''bb''], ()))))) = 3"
    using refresh_takes_newest_answer [where nt = two_views and c = "view_client [''bb'']" and w = "()"
          and old = "default_cluster_meta\<lparr>cm_version := 3\<rparr>"]
      a by simp
  then show ?thesis
    by (simp add: two_views_def view_client_def refresh_metadata_def refresh_candidates_def conn_to_def default_cluster_meta_def)
qed

section \<open>Retrying\<close>

text \<open>A clock that goes on: no call turns it back, and a sleep takes some time.\<close>

locale ticking =
  fixes nt :: "'w network"
  assumes connect_law: "nt_now nt w \<le> nt_now nt (fst (nt_connect nt addr w))"
    and metadata_law: "nt_now nt w \<le> nt_now nt (fst (nt_metadata nt conn w))"
    and create_law: "nt_now nt w \<le> nt_now nt (fst (nt_create_topic nt conn topic n rf w))"
    and produce_law: "nt_now nt w \<le> nt_now nt (fst (nt_produce nt conn topic part acks epoch records w))"
    and fetch_law: "nt_now nt w \<le> nt_now nt (fst (nt_fetch nt conn topic part offset max_bytes max_wait w))"
    and pause_law: "nt_now nt w \<le> nt_now nt (nt_sleep nt d w)"
    and sleep_law: "0 < d \<Longrightarrow> nt_now nt w < nt_now nt (nt_sleep nt d w)"
begin

lemma create_round_errors:
  "create_round nt topic n rf addrs cw = (cw', Some (Inl e)) \<Longrightarrow> e = BrokerErr TopicExists"
  by (induction addrs arbitrary: cw) (auto split: prod.splits sum.splits if_splits)

text \<open>What every step of the client keeps: its settings, and a clock that is not turned back.\<close>

definition onward :: "cluster_client \<times> 'w \<Rightarrow> cluster_client \<times> 'w \<Rightarrow> bool" where
  "onward cw cw' \<longleftrightarrow> cc_retry_backoff (fst cw') = cc_retry_backoff (fst cw) \<and> nt_now nt (snd cw) \<le> nt_now nt (snd cw')"

lemma onward_refl [simp]: "onward cw cw"
  by (simp add: onward_def)

lemma onward_trans [trans]: "onward x y \<Longrightarrow> onward y z \<Longrightarrow> onward x z"
  by (simp add: onward_def)

lemma drop_conn_onward [simp]: "onward cw (drop_conn addr cw)"
  by (cases cw) (simp add: drop_conn_simp onward_def)

lemma world_onward: "nt_now nt w \<le> nt_now nt w' \<Longrightarrow> onward (c, w) (c, w')"
  by (simp add: onward_def)

lemma conn_to_onward: "conn_to nt addr cw = (cw', r) \<Longrightarrow> onward cw cw'"
  using connect_law [of "snd cw" addr]
  by (auto simp: conn_to_def onward_def split: option.splits prod.splits sum.splits)

lemma metadata_onward: "nt_metadata nt conn w = (w', r) \<Longrightarrow> onward (c, w) (c, w')"
  using metadata_law [of w conn] by (simp add: onward_def)

lemma refresh_loop_onward: "refresh_loop nt addrs best err cw = (cw', x) \<Longrightarrow> onward cw cw'"
proof (induction addrs arbitrary: best err cw)
  case (Cons addr addrs)
  obtain c1 w1 r1 where c1: "conn_to nt addr cw = ((c1, w1), r1)" by (metis prod.exhaust)
  note o1 = conn_to_onward [OF c1]
  show ?case
  proof (cases r1)
    case (Inl e)
    then have "onward (drop_conn addr (c1, w1)) cw'" using Cons c1 by simp
    then show ?thesis using o1 drop_conn_onward onward_trans by blast
  next
    case (Inr conn)
    obtain w2 r2 where w2: "nt_metadata nt conn w1 = (w2, r2)" by (metis prod.exhaust)
    have o2: "onward cw (c1, w2)" by (rule onward_trans [OF o1 metadata_onward [OF w2]])
    obtain best1 err1 cw2 where "refresh_loop nt addrs best1 err1 cw2 = (cw', x)" "onward (c1, w2) cw2"
      using Cons.prems c1 Inr w2 by (cases r2) auto
    then show ?thesis using Cons.IH o2 onward_trans by blast
  qed
qed simp

lemma refresh_onward: "onward cw (fst (refresh_metadata nt cw))"
proof -
  obtain c' w' best err where l: "refresh_loop nt (refresh_candidates (fst cw)) None Closed cw = ((c', w'), best, err)"
    by (metis prod.exhaust)
  then show ?thesis using refresh_loop_onward [OF l] by (cases best) (simp_all add: refresh_metadata_def onward_def)
qed

text \<open>A pause and a refresh bring the deadline closer.\<close>

lemma pause_decreases:
  assumes "onward cw (c, w)" and "0 < cc_retry_backoff (fst cw)" and "\<not> deadline \<le> nt_now nt w"
    and "cw' = fst (refresh_metadata nt (c, nt_sleep nt (cc_retry_backoff c) w))"
  shows "deadline - nt_now nt (snd cw') < deadline - nt_now nt (snd cw) \<and> 0 < cc_retry_backoff (fst cw')"
proof -
  let ?d = "cc_retry_backoff c"
  have "0 < ?d" using assms(1,2) by (simp add: onward_def)
  then show ?thesis
    using sleep_law [of ?d w] refresh_onward [of "(c, nt_sleep nt ?d w)"] assms by (auto simp: onward_def)
qed

lemma pause_onward:
  assumes "onward cw (c, w)" and "cw' = fst (refresh_metadata nt (c, nt_sleep nt d w))"
  shows "onward cw cw'"
proof -
  have "nt_now nt w \<le> nt_now nt (nt_sleep nt d w)" by (rule pause_law)
  then show ?thesis using assms onward_trans world_onward refresh_onward by blast
qed

lemma attempt_onward:
  assumes call: "\<And>conn epoch w. nt_now nt w \<le> nt_now nt (fst (call conn epoch w))" and a: "attempt nt call topic part cw = (cw', r)"
  shows "onward cw cw'"
proof (cases "leader_for topic part (cc_meta (fst cw))")
  case None
  then show ?thesis using a by (simp add: attempt_def)
next
  case (Some ae)
  obtain addr epoch where ae: "ae = (addr, epoch)" by (cases ae)
  obtain c1 w1 r1 where c1: "conn_to nt addr cw = ((c1, w1), r1)" by (metis prod.exhaust)
  note o1 = conn_to_onward [OF c1]
  show ?thesis
  proof (cases r1)
    case (Inl e)
    then have "cw' = drop_conn addr (c1, w1)" using a Some ae c1 by (simp add: attempt_def)
    then show ?thesis using o1 drop_conn_onward onward_trans by blast
  next
    case (Inr conn)
    let ?w = "fst (call conn epoch w1)"
    have o2: "onward cw (c1, ?w)" by (rule onward_trans [OF o1 world_onward [OF call]])
    have "cw' = (c1, ?w) \<or> cw' = drop_conn addr (c1, ?w)"
      using a Some ae c1 Inr by (auto simp: attempt_def Let_def case_prod_beta split: if_splits)
    then show ?thesis using o2 drop_conn_onward onward_trans by blast
  qed
qed

lemma create_round_onward: "create_round nt topic n rf addrs cw = (cw', r) \<Longrightarrow> onward cw cw'"
proof (induction addrs arbitrary: cw)
  case (Cons addr addrs)
  obtain c1 w1 r1 where c1: "conn_to nt addr cw = ((c1, w1), r1)" by (metis prod.exhaust)
  note o1 = conn_to_onward [OF c1]
  show ?case
  proof (cases r1)
    case (Inl e)
    then show ?thesis using Cons c1 o1 onward_trans by simp
  next
    case (Inr conn)
    obtain w2 r2 where w2: "nt_create_topic nt conn topic n rf w1 = (w2, r2)" by (metis prod.exhaust)
    have o2: "onward cw (c1, w2)"
      by (rule onward_trans [OF o1 world_onward]) (use create_law [of w1 conn topic n rf] w2 in simp)
    have "cw' = (c1, w2) \<or> create_round nt topic n rf addrs (drop_conn addr (c1, w2)) = (cw', r)"
      using Cons.prems c1 Inr w2 by (auto split: sum.splits if_splits)
    then show ?thesis using o2 Cons.IH drop_conn_onward onward_trans by blast
  qed
qed simp

lemma create_loop_ends:
  assumes "0 < cc_retry_backoff (fst cw)"
  shows "\<exists>cw' r. create_loop nt topic n rf deadline cw = Some (cw', r) \<and>
    (\<forall>e. r = Inl e \<longrightarrow> e = BrokerErr TopicExists \<or> e = Closed \<and> deadline \<le> nt_now nt (snd cw'))"
  using assms
proof (induction "deadline - nt_now nt (snd cw)" arbitrary: cw rule: less_induct)
  case less
  define addrs where "addrs = (if map snd (cm_brokers (cc_meta (fst cw))) = [] then cc_bootstrap (fst cw)
    else map snd (cm_brokers (cc_meta (fst cw))))"
  obtain c1 w1 r1 where a: "create_round nt topic n rf addrs cw = ((c1, w1), r1)" by (metis prod.exhaust)
  note o1 = create_round_onward [OF a]
  have step: "create_loop nt topic n rf deadline cw =
     (case r1 of Some r \<Rightarrow> Some ((c1, w1), r)
      | None \<Rightarrow> if deadline \<le> nt_now nt w1 then Some ((c1, w1), Inl Closed)
          else create_loop nt topic n rf deadline (fst (refresh_metadata nt (c1, nt_sleep nt (cc_retry_backoff c1) w1))))"
    unfolding create_loop.simps [of nt topic n rf deadline cw] Let_def fst_conv addrs_def [symmetric] a
    by (cases r1) simp_all
  show ?case
  proof (cases "r1 = None \<and> \<not> deadline \<le> nt_now nt w1")
    case False
    then show ?thesis using a create_round_errors [of topic n rf addrs cw "(c1, w1)"] by (cases r1) (auto simp: step)
  next
    case True
    note p = pause_decreases [OF o1 less.prems _ refl, of deadline]
    from True show ?thesis
      using less.hyps [of "fst (refresh_metadata nt (c1, nt_sleep nt (cc_retry_backoff c1) w1))"] p by (simp add: step)
  qed
qed

end

text \<open>
  A condition on the world that connecting, asking for metadata and sleeping keep: it holds until
  a call that is not retried ends the loop.
\<close>

locale steady = ticking nt for nt :: "'w network" +
  fixes I :: "'w \<Rightarrow> bool"
  assumes connect_keeps: "I w \<Longrightarrow> I (fst (nt_connect nt addr w))"
    and metadata_keeps: "I w \<Longrightarrow> I (fst (nt_metadata nt conn w))"
    and sleep_keeps: "I w \<Longrightarrow> I (nt_sleep nt d w)"
begin

lemma conn_to_keeps: "conn_to nt addr cw = (cw', r) \<Longrightarrow> I (snd cw) \<Longrightarrow> I (snd cw')"
  using connect_keeps [of "snd cw" addr] by (auto simp: conn_to_def split: option.splits prod.splits sum.splits)

lemma drop_conn_keeps [simp]: "snd (drop_conn addr cw) = snd cw"
  by (cases cw) (simp add: drop_conn_simp)

lemma refresh_loop_keeps: "refresh_loop nt addrs best err cw = (cw', x) \<Longrightarrow> I (snd cw) \<Longrightarrow> I (snd cw')"
proof (induction addrs arbitrary: best err cw)
  case (Cons addr addrs)
  obtain c1 w1 r1 where c1: "conn_to nt addr cw = ((c1, w1), r1)" by (metis prod.exhaust)
  have i1: "I w1" using conn_to_keeps [OF c1 Cons.prems(2)] by simp
  show ?case
  proof (cases r1)
    case (Inl e)
    then show ?thesis using Cons.IH [of best e "drop_conn addr (c1, w1)"] Cons.prems c1 i1 by simp
  next
    case (Inr conn)
    obtain w2 r2 where w2: "nt_metadata nt conn w1 = (w2, r2)" by (metis prod.exhaust)
    have "I w2" using metadata_keeps [OF i1, of conn] w2 by simp
    moreover obtain best1 err1 cw2 where "refresh_loop nt addrs best1 err1 cw2 = (cw', x)" "snd cw2 = w2"
      using Cons.prems c1 Inr w2 by (cases r2) auto
    ultimately show ?thesis using Cons.IH by blast
  qed
qed simp

lemma refresh_keeps: "I (snd cw) \<Longrightarrow> I (snd (fst (refresh_metadata nt cw)))"
proof -
  assume "I (snd cw)"
  moreover obtain c' w' best err where l: "refresh_loop nt (refresh_candidates (fst cw)) None Closed cw = ((c', w'), best, err)"
    by (metis prod.exhaust)
  ultimately show ?thesis using refresh_loop_keeps [OF l] by (cases best) (simp_all add: refresh_metadata_def)
qed

text \<open>An attempt ends before it calls, with an error that is retried, or with what its call gives.\<close>

lemma attempt_calls:
  assumes a: "attempt nt call topic part cw = (cw', r)" and i: "I (snd cw)"
    and conn: "\<And>addr w w' e. nt_connect nt addr w = (w', Inl e) \<Longrightarrow> retries e" and off: "retries (BrokerErr Offline)"
  shows "(\<exists>e. r = Inl e \<and> retries e \<and> I (snd cw')) \<or> (\<exists>n epoch w0. I w0 \<and> call n epoch w0 = (snd cw', r))"
proof (cases "leader_for topic part (cc_meta (fst cw))")
  case None
  then show ?thesis using a i off by (auto simp: attempt_def)
next
  case (Some ae)
  obtain addr epoch where ae: "ae = (addr, epoch)" by (cases ae)
  obtain c1 w1 r1 where c1: "conn_to nt addr cw = ((c1, w1), r1)" by (metis prod.exhaust)
  have i1: "I w1" using conn_to_keeps [OF c1 i] by simp
  show ?thesis
  proof (cases r1)
    case (Inl e)
    have "retries e" using c1 Inl by (auto simp: conn_to_def intro: conn split: option.splits prod.splits sum.splits)
    then show ?thesis using a Some ae c1 Inl i1 by (auto simp: attempt_def)
  next
    case (Inr n)
    obtain w2 r2 where "call n epoch w1 = (w2, r2)" by (metis prod.exhaust)
    moreover have "snd cw' = w2 \<and> r = r2"
      using a Some ae c1 Inr calculation by (auto simp: attempt_def Let_def split: if_splits)
    ultimately show ?thesis using i1 by blast
  qed
qed

lemma retry_loop_ends:
  assumes clock: "\<And>conn epoch w. nt_now nt w \<le> nt_now nt (fst (call conn epoch w))"
    and conn: "\<And>addr w w' e. nt_connect nt addr w = (w', Inl e) \<Longrightarrow> retries e" and off: "retries (BrokerErr Offline)"
    and call: "\<And>n epoch w w' e. I w \<Longrightarrow> call n epoch w = (w', Inl e) \<Longrightarrow> retries e \<Longrightarrow> I w'"
    and "0 < cc_retry_backoff (fst cw)" and "I (snd cw)"
  shows "\<exists>cw' r. retry_loop nt retries call topic part deadline cw = Some (cw', r) \<and> onward cw cw' \<and>
    (r = Inl Closed \<and> deadline \<le> nt_now nt (snd cw') \<and> I (snd cw') \<or>
     (\<exists>n epoch w0. I w0 \<and> call n epoch w0 = (snd cw', r) \<and> (\<forall>e. r = Inl e \<longrightarrow> \<not> retries e)))"
  using assms(5,6)
proof (induction "deadline - nt_now nt (snd cw)" arbitrary: cw rule: less_induct)
  case less
  obtain c1 w1 r1 where a: "attempt nt call topic part cw = ((c1, w1), r1)" by (metis prod.exhaust)
  note o1 = attempt_onward [OF clock a]
  have calls: "(\<exists>e. r1 = Inl e \<and> retries e \<and> I w1) \<or> (\<exists>n epoch w0. I w0 \<and> call n epoch w0 = (w1, r1))"
    using attempt_calls [where retries = retries, OF a less.prems(2)] conn off by auto
  have step: "retry_loop nt retries call topic part deadline cw =
     (case r1 of Inr ok \<Rightarrow> Some ((c1, w1), r1)
      | Inl e \<Rightarrow>
          if retries e then
            if deadline \<le> nt_now nt w1 then Some ((c1, w1), Inl Closed)
            else retry_loop nt retries call topic part deadline
              (fst (refresh_metadata nt (c1, nt_sleep nt (cc_retry_backoff c1) w1)))
          else Some ((c1, w1), r1))"
    unfolding retry_loop.simps [of nt retries call topic part deadline cw] a by (cases r1) simp_all
  show ?case
  proof (cases "\<exists>e. r1 = Inl e \<and> retries e")
    case True
    then obtain e where e: "r1 = Inl e" "retries e" by blast
    have i1: "I w1" using calls e call by blast
    show ?thesis
    proof (cases "deadline \<le> nt_now nt w1")
      case True
      then show ?thesis using e i1 o1 by (simp add: step)
    next
      case False
      let ?cw = "fst (refresh_metadata nt (c1, nt_sleep nt (cc_retry_backoff c1) w1))"
      have "I (snd ?cw)" using refresh_keeps [of "(c1, nt_sleep nt (cc_retry_backoff c1) w1)"] sleep_keeps [OF i1] by simp
      moreover have "onward cw ?cw" by (rule pause_onward [OF o1 refl])
      ultimately show ?thesis
        using less.hyps [of ?cw] pause_decreases [OF o1 less.prems(1) False refl] onward_trans [of cw ?cw] e False
        by (auto simp: step)
    qed
  next
    case False
    then have "retry_loop nt retries call topic part deadline cw = Some ((c1, w1), r1)"
      by (cases r1) (simp_all add: step)
    then show ?thesis using calls False o1 by auto
  qed
qed

end

end
