(* ===== verification/BrokerNetwork.thy ===== *)
theory BrokerNetwork
  imports ClusterProperties DeliveryProperties
begin

text \<open>
  Standalone brokers as the network of a cluster client: an instance of the contracts of theory
  \<open>ClusterProperties\<close>, and what a produce through the client then does.
\<close>

section \<open>The network\<close>

text \<open>Brokers by address, and one clock. A connection is the place of its broker in the list.\<close>

record fleet =
  fl_now :: nat
  fl_servers :: "(string \<times> server) list"

definition fleet_call ::
    "(bytes \<Rightarrow> u32) \<Rightarrow> broker_config \<Rightarrow> (nat \<Rightarrow> i64) \<Rightarrow> nat \<Rightarrow> request \<Rightarrow> fleet \<Rightarrow> fleet \<times> (client_error + response)" where
  "fleet_call crc cfg ts n req w =
     (if n < length (fl_servers w) then
        let (addr, sv) = fl_servers w ! n; (sv, r) = broker_call crc cfg ts req (sv\<lparr>sv_now := fl_now w\<rparr>)
        in (w\<lparr>fl_servers := (fl_servers w)[n := (addr, sv)]\<rparr>, r)
      else (w, Inl ClientIo))"

definition fleet_network :: "(bytes \<Rightarrow> u32) \<Rightarrow> broker_config \<Rightarrow> (nat \<Rightarrow> i64) \<Rightarrow> fleet network" where
  "fleet_network crc cfg ts =
     \<lparr>nt_connect = \<lambda>addr w.
        (w, case find (\<lambda>n. fst (fl_servers w ! n) = addr) [0..<length (fl_servers w)] of
              None \<Rightarrow> Inl ClientIo
            | Some n \<Rightarrow> Inr n),
      nt_metadata = \<lambda>n w. let (w, r) = fleet_call crc cfg ts n MetadataReq w in (w, bind_r r metadata_result),
      nt_create_topic = \<lambda>n topic partitions rf w.
        let (w, r) = fleet_call crc cfg ts n (CreateTopicReq topic partitions rf) w in (w, bind_r r create_topic_result),
      nt_produce = \<lambda>n topic part acks epoch records w.
        let (w', r) = fleet_call crc cfg ts n (ProduceReq topic part acks epoch records) w
        in (w', produce_with_epoch (\<lambda>_. if n < length (fl_servers w) then Inr () else Inl ClientIo) (\<lambda>_. r)
                  topic part acks epoch records),
      nt_fetch = \<lambda>n topic part offset max_bytes max_wait w.
        let (w, r) = fleet_call crc cfg ts n (FetchReq topic part offset max_bytes max_wait) w
        in (w, bind_r r fetch_result),
      nt_now = fl_now,
      nt_sleep = \<lambda>d w. w\<lparr>fl_now := fl_now w + d\<rparr>\<rparr>"

lemma fleet_call_now [simp]: "fl_now (fst (fleet_call crc cfg ts n req w)) = fl_now w"
  by (simp add: fleet_call_def case_prod_beta Let_def)

section \<open>The writers of the partitions\<close>

definition writers :: "fleet \<Rightarrow> string \<Rightarrow> u32 \<Rightarrow> actor option list" where
  "writers w topic part = map (\<lambda>(_, sv). partition_of (sv_shared sv) topic part) (fl_servers w)"

text \<open>The brokers are standalone and in order, and the writers of all partitions are as they were.\<close>

definition undisturbed ::
    "(bytes \<Rightarrow> u32) \<Rightarrow> broker_config \<Rightarrow> (string \<Rightarrow> u32 \<Rightarrow> actor option list) \<Rightarrow> fleet \<Rightarrow> bool" where
  "undisturbed crc cfg ws w \<longleftrightarrow> list_all (\<lambda>(_, sv). server_ok crc cfg sv) (fl_servers w) \<and> writers w = ws"

lemma length_writers [simp]: "length (writers w topic part) = length (fl_servers w)"
  by (simp add: writers_def)

lemma server_ok_now [simp]: "server_ok crc cfg (sv\<lparr>sv_now := n\<rparr>) = server_ok crc cfg sv"
  by (simp add: server_ok_def)

text \<open>The servers with the one at a place changed.\<close>

lemma writers_update:
  "n < length (fl_servers w) \<Longrightarrow> writers (w\<lparr>fl_servers := (fl_servers w)[n := (addr, sv)]\<rparr>) =
     (\<lambda>topic part. (writers w topic part)[n := partition_of (sv_shared sv) topic part])"
  by (simp add: writers_def map_update fun_eq_iff)

lemma servers_update:
  "list_all (\<lambda>(_, sv). server_ok crc cfg sv) svs \<Longrightarrow> server_ok crc cfg sv \<Longrightarrow>
   list_all (\<lambda>(_, sv). server_ok crc cfg sv) (svs[n := (addr, sv)])"
  by (cases "n < length svs") (auto simp: list_all_length nth_list_update split: if_splits)

text \<open>A call after which the broker has the partitions it had disturbs nothing.\<close>

lemma fleet_call_undisturbed:
  assumes u: "undisturbed crc cfg ws w"
    and same: "\<And>sv. server_ok crc cfg sv \<Longrightarrow> server_ok crc cfg (fst (serve crc cfg ts req sv)) \<and>
      partition_of (sv_shared (fst (serve crc cfg ts req sv))) = partition_of (sv_shared sv)"
  shows "undisturbed crc cfg ws (fst (fleet_call crc cfg ts n req w))"
proof (cases "n < length (fl_servers w)")
  case True
  obtain addr sv where sv: "fl_servers w ! n = (addr, sv)" by fastforce
  let ?sv = "fst (serve crc cfg ts req (sv\<lparr>sv_now := fl_now w\<rparr>))"
  have ok: "server_ok crc cfg sv" using u True sv by (auto simp: undisturbed_def list_all_length)
  then have s: "server_ok crc cfg ?sv" "partition_of (sv_shared ?sv) = partition_of (sv_shared sv)"
    using same [of "sv\<lparr>sv_now := fl_now w\<rparr>"] by simp_all
  have w': "fst (fleet_call crc cfg ts n req w) = w\<lparr>fl_servers := (fl_servers w)[n := (addr, ?sv)]\<rparr>"
    using True sv by (auto simp: fleet_call_def broker_call_def split: prod.split option.split)
  have "writers w topic part ! n = partition_of (sv_shared ?sv) topic part" for topic part
    using True sv s(2) by (simp add: writers_def)
  then have "writers (w\<lparr>fl_servers := (fl_servers w)[n := (addr, ?sv)]\<rparr>) = writers w"
    using True by (simp add: writers_update fun_eq_iff) (metis list_update_id)
  moreover have "list_all (\<lambda>(_, sv). server_ok crc cfg sv) ((fl_servers w)[n := (addr, ?sv)])"
    by (rule servers_update [OF _ s(1)]) (use u in \<open>simp add: undisturbed_def\<close>)
  ultimately show ?thesis using u unfolding w' undisturbed_def by simp
next
  case False
  then show ?thesis using u by (simp add: fleet_call_def)
qed

lemma serve_metadata:
  "server_ok crc cfg sv \<Longrightarrow> server_ok crc cfg (fst (serve crc cfg ts MetadataReq sv)) \<and>
     sv_shared (fst (serve crc cfg ts MetadataReq sv)) = sv_shared sv"
  by (auto simp: serve_def dispatch_def server_ok_def split: prod.splits)

interpretation fleet: steady "fleet_network crc cfg ts" "undisturbed crc cfg ws"
  for crc cfg ts ws
proof (unfold_locales, goal_cases)
  case (9 w n)
  then show ?case using fleet_call_undisturbed [OF 9, of ts MetadataReq n] serve_metadata
    by (simp add: fleet_network_def case_prod_beta Let_def)
next
  case (10 w d)
  then show ?case by (simp add: fleet_network_def undisturbed_def writers_def fun_eq_iff)
qed (simp_all add: fleet_network_def case_prod_beta Let_def)

text \<open>Connections fail with an error after which every call is tried again.\<close>

lemma fleet_connect: "nt_connect (fleet_network crc cfg ts) addr w = (w', Inl e) \<Longrightarrow> e = ClientIo"
  by (auto simp: fleet_network_def split: option.splits)

lemma fleet_now [simp]: "nt_now (fleet_network crc cfg ts) = fl_now"
  by (simp add: fleet_network_def)

section \<open>A produce\<close>

text \<open>What a writer stores of a batch: a prefix, and all of it unless a record is too large.\<close>

definition stored ::
    "(bytes \<Rightarrow> u32) \<Rightarrow> broker_config \<Rightarrow> produce_record list \<Rightarrow> nat \<Rightarrow> actor \<Rightarrow> actor \<Rightarrow> bool" where
  "stored crc cfg records k a a' \<longleftrightarrow>
     k \<le> length records \<and> (k < length records \<longrightarrow> \<not> producible (bc_log cfg) (produce_pairs records ! k)) \<and>
     ac_pending a' = [] \<and> log_start_offset (ac_log a') = log_start_offset (ac_log a) \<and>
     (\<exists>rs. length rs = k \<and> list_all2 holds (take k (produce_pairs records)) rs \<and>
        actor_records crc (bc_log cfg) a' = actor_records crc (bc_log cfg) a @ rs)"

lemma length_produce_pairs [simp]: "length (produce_pairs records) = length records"
  by (simp add: produce_pairs_def)

definition roomy :: "produce_record list \<Rightarrow> actor option \<Rightarrow> bool" where
  "roomy records = pred_option (\<lambda>a. ac_pending a = [] \<and> log_next_offset (ac_log a) + length records < 2 ^ 64)"

text \<open>The partitions with the writer of one changed.\<close>

definition with_writer ::
    "string \<Rightarrow> u32 \<Rightarrow> 'a \<Rightarrow> (string \<Rightarrow> u32 \<Rightarrow> 'a) \<Rightarrow> string \<Rightarrow> u32 \<Rightarrow> 'a" where
  "with_writer topic part x ws = (\<lambda>t p. if t = topic \<and> p = part then x else ws t p)"

lemma partition_of_set_place:
  assumes "partition_of s topic part = Some a"
  shows "partition_of (set_place (TopicLog topic part) a' s) = with_writer topic part (Some a') (partition_of s)"
proof (intro ext)
  fix t p
  obtain ps where ps: "hm_get (sh_topics s) topic = Some ps" "unat part < length ps"
    using assms by (auto simp: partition_of_def split: option.splits if_splits)
  have "unat part = unat p \<longleftrightarrow> p = part" by (auto simp: word_unat_eq_iff)
  then show "partition_of (set_place (TopicLog topic part) a' s) t p = with_writer topic part (Some a') (partition_of s) t p"
    using ps by (auto simp: partition_of_def set_place_def with_writer_def nth_list_update split: option.splits)
qed

lemma serve_produce:
  assumes ok: "server_ok crc cfg sv" and room: "roomy records (partition_of (sv_shared sv) topic part)"
    and sv: "serve crc cfg ts (ProduceReq topic part acks epoch records) sv = (sv', r)"
  shows "server_ok crc cfg sv' \<and>
    ((\<exists>code \<in> {FencedEpoch, UnknownTopicOrPartition}. sv_shared sv' = sv_shared sv \<and>
        r = (if acks = AcksNone then None else Some (produce_error code))) \<or>
     (\<exists>a a' k. partition_of (sv_shared sv) topic part = Some a \<and>
        partition_of (sv_shared sv') = with_writer topic part (Some a') (partition_of (sv_shared sv)) \<and>
        stored crc cfg records k a a' \<and>
        r = (if acks = AcksNone then None
             else if k < length records then Some (produce_error MalformedErr)
             else Some (ProduceResp NoError (word_of_nat (log_next_offset (ac_log a))) (word_of_nat (length records))))))"
proof
  have "fits (ProduceReq topic part acks epoch records) (sv_shared sv)"
    using room by (auto simp: fits_def roomy_def pred_option_def)
  then show "server_ok crc cfg sv'" using serve_ok [OF ok sv] by blast
  have c: "\<not> bc_clustered cfg" "topics_ok crc cfg (sv_shared sv)" using ok by (simp_all add: server_ok_def)
  show "(\<exists>code \<in> {FencedEpoch, UnknownTopicOrPartition}. sv_shared sv' = sv_shared sv \<and>
        r = (if acks = AcksNone then None else Some (produce_error code))) \<or>
     (\<exists>a a' k. partition_of (sv_shared sv) topic part = Some a \<and>
        partition_of (sv_shared sv') = with_writer topic part (Some a') (partition_of (sv_shared sv)) \<and>
        stored crc cfg records k a a' \<and>
        r = (if acks = AcksNone then None
             else if k < length records then Some (produce_error MalformedErr)
             else Some (ProduceResp NoError (word_of_nat (log_next_offset (ac_log a))) (word_of_nat (length records)))))"
  proof (cases "epoch \<noteq> 0 \<or> partition_of (sv_shared sv) topic part = None")
    case True
    then show ?thesis using sv c
      by (auto simp: serve_def dispatch_def dispatch_produce_def unless_silent_def Let_def split: if_splits)
  next
    case False
    then obtain a where a: "partition_of (sv_shared sv) topic part = Some a" "epoch = 0" by blast
    let ?rp = "if acks = AcksNone then None else Some (sv_reply sv)"
    let ?run = "run_cmd crc cfg ts (sv_now sv) (sv_reply sv) (TopicLog topic part) (Append (produce_pairs records) acks ?rp)
      (sv_shared sv)"
    have q: "ac_pending a = []" "log_next_offset (ac_log a) + length (produce_pairs records) < 2 ^ 64"
      using room a by (simp_all add: roomy_def)
    have pl: "place_actor (TopicLog topic part) (sv_shared sv) = Some a" using a by simp
    have rp: "?rp = None \<or> ?rp = Some (sv_reply sv)" by simp
    obtain a' and rs :: "log_record list" where run: "fst ?run = set_place (TopicLog topic part) a' (sv_shared sv)"
      and st: "stored crc cfg records (length rs) a a'"
      and ans: "?rp = Some (sv_reply sv) \<longrightarrow> snd ?run =
        Some (Appended (if length rs < length (produce_pairs records) then Inl MalformedErr
          else Inr (log_next_offset (ac_log a), length (produce_pairs records))))"
      using append_run [OF partition_of_good [OF c(2) a(1)] q pl rp, of ts "sv_now sv" acks]
      unfolding stored_def by auto
    have sh: "sv_shared sv' = fst ?run"
      using sv c a by (auto simp: serve_def dispatch_def dispatch_produce_def Let_def split: prod.splits option.splits answer.splits if_splits)
    have r: "r = (if acks = AcksNone then None else Some (finish_produce (if length rs < length records then Inl MalformedErr
          else Inr (log_next_offset (ac_log a), length records))))"
      using sv c a ans by (cases "acks = AcksNone") (auto simp: serve_def dispatch_def dispatch_produce_def Let_def case_prod_beta split: option.splits answer.splits)
    have "partition_of (sv_shared sv') = with_writer topic part (Some a') (partition_of (sv_shared sv))"
      using sh run partition_of_set_place [OF a(1)] by simp
    then show ?thesis using a(1) st r by (auto simp: finish_produce_def)
  qed
qed

text \<open>The result of a produce of which a writer stored \<open>k\<close> records.\<close>

definition produce_outcome :: "acks \<Rightarrow> produce_record list \<Rightarrow> nat \<Rightarrow> actor \<Rightarrow> client_error + u64 option" where
  "produce_outcome acks records k a =
     (if acks = AcksNone then Inr None
      else if k < length records then Inl (BrokerErr MalformedErr)
      else Inr (Some (word_of_nat (log_next_offset (ac_log a)))))"

lemma fleet_produce:
  assumes u: "undisturbed crc cfg ws w" and room: "list_all (roomy records) (ws topic part)"
    and p: "nt_produce (fleet_network crc cfg ts) n topic part acks epoch records w = (w', r)"
  shows "undisturbed crc cfg ws w' \<and> ((\<exists>e. r = Inl e \<and> produce_retries e) \<or> r = Inr None \<and> acks = AcksNone) \<or>
    (\<exists>a a' k. n < length (fl_servers w) \<and> ws topic part ! n = Some a \<and>
       undisturbed crc cfg (with_writer topic part ((ws topic part)[n := Some a']) ws) w' \<and>
       stored crc cfg records k a a' \<and> r = produce_outcome acks records k a)"
proof (cases "n < length (fl_servers w)")
  case False
  then have "w' = w" "r = Inl ClientIo"
    using p by (auto simp: fleet_network_def fleet_call_def produce_with_epoch_def)
  then show ?thesis using u by (simp add: produce_retries_def)
next
  case True
  obtain addr sv where sv: "fl_servers w ! n = (addr, sv)" by fastforce
  let ?sv = "sv\<lparr>sv_now := fl_now w\<rparr>"
  obtain sv1 r1 where s: "serve crc cfg ts (ProduceReq topic part acks epoch records) ?sv = (sv1, r1)" by fastforce
  have ok: "server_ok crc cfg ?sv" using u True sv by (auto simp: undisturbed_def list_all_length)
  have ws: "writers w = ws" using u by (simp add: undisturbed_def)
  have nth: "ws t p ! n = partition_of (sv_shared sv) t p" "n < length (ws t p)" for t p
    using True sv by (auto simp: ws [symmetric] writers_def)
  have "roomy records (partition_of (sv_shared ?sv) topic part)"
    using room nth [of topic part] by (auto simp: list_all_length dest: spec [of _ n])
  note sp = serve_produce [OF ok this s]
  have w': "w' = w\<lparr>fl_servers := (fl_servers w)[n := (addr, sv1)]\<rparr>"
    and r: "r = (if acks = AcksNone then Inr None else
                  bind_r (case r1 of None \<Rightarrow> Inl Closed | Some x \<Rightarrow> Inr x) produce_result)"
    using p True sv s
    by (auto simp: fleet_network_def fleet_call_def produce_with_epoch_def broker_call_def Let_def split: option.splits)
  have und: "undisturbed crc cfg (\<lambda>t p. (ws t p)[n := partition_of (sv_shared sv1) t p]) w'"
  proof -
    have "list_all (\<lambda>(_, sv). server_ok crc cfg sv) ((fl_servers w)[n := (addr, sv1)])"
      by (rule servers_update) (use u sp in \<open>simp_all add: undisturbed_def\<close>)
    then show ?thesis using True by (simp add: w' undisturbed_def writers_update ws)
  qed
  from sp consider
    (refused) code where "code \<in> {FencedEpoch, UnknownTopicOrPartition}" "sv_shared sv1 = sv_shared sv"
      "r1 = (if acks = AcksNone then None else Some (produce_error code))"
  | (taken) a a' k where "partition_of (sv_shared sv) topic part = Some a"
      "partition_of (sv_shared sv1) = with_writer topic part (Some a') (partition_of (sv_shared sv))"
      "stored crc cfg records k a a'"
      "r1 = (if acks = AcksNone then None
             else if k < length records then Some (produce_error MalformedErr)
             else Some (ProduceResp NoError (word_of_nat (log_next_offset (ac_log a))) (word_of_nat (length records))))"
    by auto
  then show ?thesis
  proof cases
    case refused
    have "(\<lambda>t p. (ws t p)[n := partition_of (sv_shared sv1) t p]) = ws"
      by (intro ext) (simp add: refused(2) nth(1) [symmetric])
    then show ?thesis using und r refused by (auto simp: produce_error_def produce_result_def produce_retries_def)
  next
    case taken
    have "r = produce_outcome acks records k a"
      using r taken(4) by (auto simp: produce_outcome_def produce_error_def produce_result_def)
    moreover have "(ws t p)[n := partition_of (sv_shared sv) t p] = ws t p" for t p
      using nth by (metis list_update_id)
    then have "(\<lambda>t p. (ws t p)[n := partition_of (sv_shared sv1) t p]) =
        with_writer topic part ((ws topic part)[n := Some a']) ws"
      using taken(2) by (auto simp: with_writer_def fun_eq_iff)
    ultimately show ?thesis using und nth taken(1,3) True by auto
  qed
qed

text \<open>
  What a produce through the cluster client does: \<open>ws\<close> are the writers before it and \<open>ws'\<close> those
  after it.
\<close>

definition produced_once ::
    "(bytes \<Rightarrow> u32) \<Rightarrow> broker_config \<Rightarrow> string \<Rightarrow> u32 \<Rightarrow> acks \<Rightarrow> produce_record list \<Rightarrow>
     (string \<Rightarrow> u32 \<Rightarrow> actor option list) \<Rightarrow> (string \<Rightarrow> u32 \<Rightarrow> actor option list) \<Rightarrow> client_error + u64 option \<Rightarrow> bool" where
  "produced_once crc cfg topic part acks records ws ws' r \<longleftrightarrow>
     (\<exists>n a a' k. n < length (ws topic part) \<and> ws topic part ! n = Some a \<and>
        ws' = with_writer topic part ((ws topic part)[n := Some a']) ws \<and>
        stored crc cfg records k a a' \<and> r = produce_outcome acks records k a)"

lemma cluster_produce_ends:
  assumes u: "undisturbed crc cfg (writers w) w" and room: "list_all (roomy records) (writers w topic part)"
    and backoff: "0 < cc_retry_backoff c"
  shows "\<exists>c' w' r. cluster_produce (fleet_network crc cfg ts) topic part acks records (c, w) = Some ((c', w'), r) \<and>
    cc_retry_backoff c' = cc_retry_backoff c \<and> undisturbed crc cfg (writers w') w' \<and>
    (writers w' = writers w \<and>
       (r = Inl Closed \<and> fl_now w + cc_retry_timeout c \<le> fl_now w' \<or> r = Inr None \<and> acks = AcksNone) \<or>
     produced_once crc cfg topic part acks records (writers w) (writers w') r)"
proof -
  let ?nt = "fleet_network crc cfg ts"
  let ?call = "\<lambda>n epoch. nt_produce ?nt n topic part acks epoch records"
  let ?U = "undisturbed crc cfg (writers w)"
  have keeps: "?U v'" if "?U v" "?call n epoch v = (v', Inl e)" "produce_retries e" for n epoch v v' e
    using fleet_produce [OF that(1) room that(2)] that(3)
    by (auto simp: produce_outcome_def produce_retries_def split: if_splits)
  have "\<exists>cw' r. retry_loop ?nt produce_retries ?call topic part (fl_now w + cc_retry_timeout c) (c, w) = Some (cw', r) \<and> ticking.onward ?nt (c, w) cw' \<and>
    (r = Inl Closed \<and> fl_now w + cc_retry_timeout c \<le> nt_now ?nt (snd cw') \<and> ?U (snd cw') \<or>
     (\<exists>n epoch w0. ?U w0 \<and> ?call n epoch w0 = (snd cw', r) \<and> (\<forall>e. r = Inl e \<longrightarrow> \<not> produce_retries e)))"
  proof (rule fleet.retry_loop_ends, goal_cases)
    case (1 n epoch v)
    show ?case by (rule fleet.produce_law)
  next
    case (2 addr v v' e)
    then show ?case by (auto dest: fleet_connect simp: produce_retries_def)
  next
    case 3
    then show ?case by (simp add: produce_retries_def)
  next
    case (4 n epoch v v' e)
    then show ?case by (rule keeps)
  qed (use u backoff in simp_all)
  then obtain cw' r where ends: "cluster_produce ?nt topic part acks records (c, w) = Some (cw', r)"
    and on: "cc_retry_backoff (fst cw') = cc_retry_backoff c"
    and what: "r = Inl Closed \<and> fl_now w + cc_retry_timeout c \<le> fl_now (snd cw') \<and> ?U (snd cw') \<or>
     (\<exists>n epoch w0. ?U w0 \<and> ?call n epoch w0 = (snd cw', r) \<and> (\<forall>e. r = Inl e \<longrightarrow> \<not> produce_retries e))"
    unfolding cluster_produce_def fleet_now fst_conv snd_conv fleet.onward_def by blast
  obtain c' w' where cw': "cw' = (c', w')" by (cases cw')
  have was: "writers v = writers w" if "?U v" for v using that by (simp add: undisturbed_def)
  have self: "undisturbed crc cfg (writers w') w'" if "undisturbed crc cfg ws w'" for ws
    using that by (simp add: undisturbed_def)
  from what consider (late) "r = Inl Closed" "fl_now w + cc_retry_timeout c \<le> fl_now w'" "?U w'"
    | (ended) n epoch w0 where "?U w0" "?call n epoch w0 = (w', r)" "\<forall>e. r = Inl e \<longrightarrow> \<not> produce_retries e"
    unfolding cw' by auto
  then show ?thesis
  proof cases
    case late
    then show ?thesis using ends on was self unfolding cw' fst_conv by blast
  next
    case ended
    have "length (fl_servers w0) = length (writers w topic part)" using was [OF ended(1)] by (metis length_writers)
    with fleet_produce [OF ended(1) room ended(2)] ended(3)
    have "?U w' \<and> r = Inr None \<and> acks = AcksNone \<or>
      undisturbed crc cfg (writers w') w' \<and> produced_once crc cfg topic part acks records (writers w) (writers w') r"
      unfolding produced_once_def undisturbed_def by metis
    then show ?thesis using ends on was self unfolding cw' fst_conv by blast
  qed
qed


section \<open>A fetch\<close>

text \<open>A read at one of the writers of a partition, as a fetch answers it.\<close>

definition fetched_from ::
    "(bytes \<Rightarrow> u32) \<Rightarrow> broker_config \<Rightarrow> u64 \<Rightarrow> u32 \<Rightarrow> fetched_record list \<Rightarrow> actor option \<Rightarrow> bool" where
  "fetched_from crc cfg offset max_bytes recs w \<longleftrightarrow>
     (\<exists>a rd. w = Some a \<and> actor_read crc (bc_log cfg) (unat offset) (unat max_bytes) a = Inr rd \<and>
        recs = map to_fetched (ro_records rd))"

lemma serve_fetch:
  assumes "server_ok crc cfg sv"
  shows "server_ok crc cfg (fst (serve crc cfg ts (FetchReq topic part offset max_bytes max_wait) sv)) \<and>
    sv_shared (fst (serve crc cfg ts (FetchReq topic part offset max_bytes max_wait) sv)) = sv_shared sv \<and>
    snd (serve crc cfg ts (FetchReq topic part offset max_bytes max_wait) sv) =
      Some (case partition_of (sv_shared sv) topic part of
              None \<Rightarrow> fetch_error UnknownTopicOrPartition
            | Some a \<Rightarrow> handle_fetch [] (actor_read crc (bc_log cfg) (unat offset) (unat max_bytes) a))"
  using assms
  by (cases "partition_of (sv_shared sv) topic part")
    (simp_all add: serve_def dispatch_def dispatch_fetch_def server_ok_def Let_def)

lemma actor_read_error: "actor_read crc cfg offset max_bytes a \<noteq> Inl NoError"
proof -
  have "map_storage_err e \<noteq> NoError" for e by (cases e) simp_all
  then show ?thesis by (auto simp: actor_read_def Let_def split: if_splits sum.splits)
qed

lemma fetch_result_handle:
  "fetch_result (handle_fetch [] rd) = Inr (x, y, recs) \<Longrightarrow> rd \<noteq> Inl NoError \<Longrightarrow>
   \<exists>ro. rd = Inr ro \<and> recs = map to_fetched (ro_records ro)"
  by (cases rd) (auto simp: handle_fetch_def fetch_error_def fetch_result_def split: if_splits)

lemma fleet_fetch:
  assumes u: "undisturbed crc cfg ws w"
    and f: "nt_fetch (fleet_network crc cfg ts) n topic part offset max_bytes max_wait w = (w', r)"
  shows "undisturbed crc cfg ws w' \<and>
    (\<forall>x y recs. r = Inr (x, y, recs) \<longrightarrow> list_ex (fetched_from crc cfg offset max_bytes recs) (ws topic part))"
proof -
  let ?req = "FetchReq topic part offset max_bytes max_wait"
  have "undisturbed crc cfg ws w'"
    using fleet_call_undisturbed [OF u, of ts ?req n] serve_fetch f
    by (auto simp: fleet_network_def Let_def split: prod.splits)
  moreover have "list_ex (fetched_from crc cfg offset max_bytes recs) (ws topic part)" if r: "r = Inr (x, y, recs)" for x y recs
  proof (cases "n < length (fl_servers w)")
    case True
    obtain addr sv where sv: "fl_servers w ! n = (addr, sv)" by fastforce
    have ok: "server_ok crc cfg (sv\<lparr>sv_now := fl_now w\<rparr>)" using u True sv by (auto simp: undisturbed_def list_all_length)
    have nth: "ws topic part ! n = partition_of (sv_shared sv) topic part"
      using u True sv by (auto simp: undisturbed_def writers_def)
    obtain sv1 r1 where s: "serve crc cfg ts ?req (sv\<lparr>sv_now := fl_now w\<rparr>) = (sv1, r1)" by fastforce
    have "bind_r (case r1 of None \<Rightarrow> Inl Closed | Some x \<Rightarrow> Inr x) fetch_result = r"
      using f True sv s by (auto simp: fleet_network_def fleet_call_def broker_call_def Let_def split: option.splits)
    moreover have "r1 = Some (case partition_of (sv_shared sv) topic part of
              None \<Rightarrow> fetch_error UnknownTopicOrPartition
            | Some a \<Rightarrow> handle_fetch [] (actor_read crc (bc_log cfg) (unat offset) (unat max_bytes) a))"
      using serve_fetch [OF ok, of ts topic part offset max_bytes max_wait] s by simp
    ultimately have "fetched_from crc cfg offset max_bytes recs (partition_of (sv_shared sv) topic part)"
      using r fetch_result_handle [OF _ actor_read_error]
      by (cases "partition_of (sv_shared sv) topic part")
        (force simp: fetched_from_def fetch_error_def fetch_result_def)+
    moreover have "n < length (ws topic part)" using u True by (auto simp: undisturbed_def)
    ultimately show ?thesis using nth by (metis list_ex_length)
  next
    case False
    then show ?thesis using f r by (simp add: fleet_network_def fleet_call_def)
  qed
  ultimately show ?thesis by blast
qed

lemma cluster_fetch_ends:
  assumes u: "undisturbed crc cfg (writers w) w" and backoff: "0 < cc_retry_backoff c"
  shows "\<exists>c' w' r. cluster_fetch (fleet_network crc cfg ts) topic part offset max_bytes max_wait (c, w) = Some ((c', w'), r) \<and>
    cc_retry_backoff c' = cc_retry_backoff c \<and> undisturbed crc cfg (writers w) w' \<and>
    (\<forall>x y recs. r = Inr (x, y, recs) \<longrightarrow> list_ex (fetched_from crc cfg offset max_bytes recs) (writers w topic part))"
proof -
  let ?nt = "fleet_network crc cfg ts"
  let ?call = "\<lambda>n (_ :: u64). nt_fetch ?nt n topic part offset max_bytes max_wait"
  let ?U = "undisturbed crc cfg (writers w)"
  have "\<exists>cw' r. retry_loop ?nt fetch_retries ?call topic part (fl_now w + cc_retry_timeout c) (c, w) = Some (cw', r) \<and> ticking.onward ?nt (c, w) cw' \<and>
    (r = Inl Closed \<and> fl_now w + cc_retry_timeout c \<le> nt_now ?nt (snd cw') \<and> ?U (snd cw') \<or>
     (\<exists>n epoch w0. ?U w0 \<and> ?call n epoch w0 = (snd cw', r) \<and> (\<forall>e. r = Inl e \<longrightarrow> \<not> fetch_retries e)))"
  proof (rule fleet.retry_loop_ends, goal_cases)
    case (1 n epoch v)
    show ?case by (rule fleet.fetch_law)
  next
    case (2 addr v v' e)
    then show ?case by (auto dest: fleet_connect simp: fetch_retries_def)
  next
    case 3
    then show ?case by (simp add: fetch_retries_def)
  next
    case (4 n epoch v v' e)
    then show ?case using fleet_fetch by blast
  qed (use u backoff in simp_all)
  then obtain cw' r where ends: "cluster_fetch ?nt topic part offset max_bytes max_wait (c, w) = Some (cw', r)"
    and on: "cc_retry_backoff (fst cw') = cc_retry_backoff c"
    and what: "r = Inl Closed \<and> ?U (snd cw') \<or> (\<exists>n w0. ?U w0 \<and> ?call n 0 w0 = (snd cw', r))"
    unfolding cluster_fetch_def fleet_now fst_conv snd_conv fleet.onward_def by blast
  obtain c' w' where cw': "cw' = (c', w')" by (cases cw')
  have "?U w' \<and> (\<forall>x y recs. r = Inr (x, y, recs) \<longrightarrow> list_ex (fetched_from crc cfg offset max_bytes recs) (writers w topic part))"
    using what fleet_fetch unfolding cw' snd_conv by (metis Inl_Inr_False)
  then show ?thesis using ends on unfolding cw' fst_conv by blast
qed

text \<open>The broker of theory \<open>DeliveryProperties\<close>, and a client that has asked it for metadata.\<close>

definition sample_fleet :: fleet where
  "sample_fleet = \<lparr>fl_now = 0, fl_servers = [(''b'', sample_server)]\<rparr>"

definition sample_client :: cluster_client where
  "sample_client = \<lparr>cc_bootstrap = [''b''], cc_conns = [], cc_meta = broker_metadata (sv_shared sample_server),
     cc_retry_timeout = 15000, cc_retry_backoff = 100\<rparr>"

lemma sample_writers: "writers sample_fleet ''t'' 0 = [Some (sample_actor one_log one_dir)]"
  by (simp add: writers_def sample_fleet_def sample_server_def partition_of_def)


end
