(* ===== verification/Proxy.thy ===== *)
theory Proxy
  imports Machines "HOL-Library.Multiset"
begin

text \<open>
  The proxy with which the harness cuts a link, \<^verbatim>\<open>src/src/harness/proxy.rs\<close>: its two atomics, the
  loop that accepts, and the tasks that carry the connections, as steps that interleave. Every
  access to an atomic is a step of its own, as the accepting task and \<open>cut\<close> run in parallel.
\<close>

section \<open>State and steps\<close>

text \<open>
  A connection is a number. Between its two reads the accepting task holds the connection it has
  admitted; \<open>cut\<close> is between its two writes while \<open>px_cutting\<close>. Carried connections come with the
  generation read for them; it counts cuts, and never comes near 2^64.
\<close>

record proxy =
  px_enabled :: bool
  px_generation :: nat
  px_admitted :: "nat option"
  px_cutting :: bool
  px_carried :: "(nat \<times> nat) list"

definition proxy_start :: proxy where
  "proxy_start = \<lparr>px_enabled = True, px_generation = 0, px_admitted = None, px_cutting = False, px_carried = []\<rparr>"

text \<open>The accepting loop: a connection while the link is down is dropped, others are carried.\<close>

definition accept_check :: "nat \<Rightarrow> proxy \<Rightarrow> proxy" where
  "accept_check conn s = (if px_enabled s then s\<lparr>px_admitted := Some conn\<rparr> else s)"

definition accept_spawn :: "nat \<Rightarrow> proxy \<Rightarrow> proxy" where
  "accept_spawn conn s = s\<lparr>px_admitted := None, px_carried := px_carried s @ [(conn, px_generation s)]\<rparr>"

definition cut_store :: "proxy \<Rightarrow> proxy" where
  "cut_store s = s\<lparr>px_enabled := False, px_cutting := True\<rparr>"

definition cut_bump :: "proxy \<Rightarrow> proxy" where
  "cut_bump s = s\<lparr>px_generation := px_generation s + 1, px_cutting := False\<rparr>"

definition heal :: "proxy \<Rightarrow> proxy" where
  "heal s = s\<lparr>px_enabled := True\<rparr>"

text \<open>The task of a connection looks at the generation, and ends when it is not its own.\<close>

definition shuttle_look :: "nat \<times> nat \<Rightarrow> proxy \<Rightarrow> proxy" where
  "shuttle_look e s = (if px_generation s \<noteq> snd e then s\<lparr>px_carried := remove1 e (px_carried s)\<rparr> else s)"

definition shuttle_end :: "nat \<times> nat \<Rightarrow> proxy \<Rightarrow> proxy" where
  "shuttle_end e s = s\<lparr>px_carried := remove1 e (px_carried s)\<rparr>"

inductive proxy_step :: "proxy \<Rightarrow> proxy \<Rightarrow> bool" where
  check: "px_admitted s = None \<Longrightarrow> proxy_step s (accept_check conn s)"
| spawn: "px_admitted s = Some conn \<Longrightarrow> proxy_step s (accept_spawn conn s)"
| store: "\<not> px_cutting s \<Longrightarrow> proxy_step s (cut_store s)"
| bump: "px_cutting s \<Longrightarrow> proxy_step s (cut_bump s)"
| heal: "proxy_step s (heal s)"
| look: "e \<in> set (px_carried s) \<Longrightarrow> proxy_step s (shuttle_look e s)"
| finish: "e \<in> set (px_carried s) \<Longrightarrow> proxy_step s (shuttle_end e s)"

text \<open>The steps while the link stays cut: nobody calls \<open>heal\<close> or \<open>cut\<close>.\<close>

inductive cut_step :: "proxy \<Rightarrow> proxy \<Rightarrow> bool" where
  check: "px_admitted s = None \<Longrightarrow> cut_step s (accept_check conn s)"
| spawn: "px_admitted s = Some conn \<Longrightarrow> cut_step s (accept_spawn conn s)"
| look: "e \<in> set (px_carried s) \<Longrightarrow> cut_step s (shuttle_look e s)"
| finish: "e \<in> set (px_carried s) \<Longrightarrow> cut_step s (shuttle_end e s)"

lemma cut_step_proxy_step: "cut_step s s' \<Longrightarrow> proxy_step s s'"
  by (auto elim!: cut_step.cases intro: proxy_step.intros)

section \<open>What a cut does\<close>

text \<open>
  The state just after a cut from \<open>s\<close>, and what holds from then on: what is carried was carried
  before, and is stale, or it is the connection the accepting task had admitted.
\<close>

definition severed :: "proxy \<Rightarrow> proxy \<Rightarrow> bool" where
  "severed s s' \<longleftrightarrow> \<not> px_enabled s' \<and> px_generation s' = px_generation s + 1 \<and>
     (px_admitted s' = None \<or> px_admitted s' = px_admitted s \<and>
        (\<forall>e \<in> set (px_carried s'). e \<in> set (px_carried s))) \<and>
     (\<forall>e \<in> set (px_carried s'). e \<in> set (px_carried s) \<or>
        (\<exists>conn. px_admitted s = Some conn \<and> e = (conn, px_generation s + 1)))"

lemma severed_keeps: "cut_step t t' \<Longrightarrow> severed s t \<Longrightarrow> severed s t'"
  by (induction rule: cut_step.induct)
    (auto simp: severed_def accept_check_def accept_spawn_def shuttle_look_def shuttle_end_def dest: notin_set_remove1
      intro: set_remove1_subset [THEN subsetD] split: if_splits)

interpretation cutting: preserved cut_step "severed s" for s
  by unfold_locales (rule severed_keeps)

lemma severed_start: "severed s (cut_bump (cut_store s))"
  by (simp add: severed_def cut_bump_def cut_store_def)

text \<open>No connection has a generation that is still to come.\<close>

definition up_to_date :: "proxy \<Rightarrow> bool" where
  "up_to_date s \<longleftrightarrow> (\<forall>e \<in> set (px_carried s). snd e \<le> px_generation s)"

interpretation proxy: preserved proxy_step up_to_date
proof
  fix s s' assume "proxy_step s s'" and "up_to_date s"
  then show "up_to_date s'"
    by (induction rule: proxy_step.induct)
      (auto simp: up_to_date_def accept_check_def accept_spawn_def cut_store_def cut_bump_def heal_def shuttle_look_def
        shuttle_end_def dest: notin_set_remove1 intro: le_SucI)
qed

text \<open>Every connection looks once: the stale ones are gone.\<close>

lemma fold_looks:
  "fold shuttle_look es s =
     s\<lparr>px_carried := fold (\<lambda>e l. if px_generation s \<noteq> snd e then remove1 e l else l) es (px_carried s)\<rparr>"
  by (induction es arbitrary: s) (auto simp: shuttle_look_def)

lemma fold_remove:
  "mset (fold (\<lambda>e l. if P e then remove1 e l else l) es l) = mset l - mset (filter P es)"
  by (induction es arbitrary: l) auto

lemma looks_carried: "set (px_carried (fold shuttle_look (px_carried s) s)) = {e \<in> set (px_carried s). snd e = px_generation s}"
proof -
  let ?P = "\<lambda>e. px_generation s \<noteq> snd e" and ?c = "px_carried s"
  have "mset (px_carried (fold shuttle_look ?c s)) = mset ?c - filter_mset ?P (mset ?c)"
    by (simp add: fold_looks fold_remove)
  also have "\<dots> = filter_mset (\<lambda>e. \<not> ?P e) (mset ?c)"
    using multiset_partition [of "mset ?c" ?P] by (metis add_diff_cancel_left')
  finally have m: "mset (px_carried (fold shuttle_look ?c s)) = filter_mset (\<lambda>e. \<not> ?P e) (mset ?c)" .
  have "set (px_carried (fold shuttle_look ?c s)) = set_mset (filter_mset (\<lambda>e. \<not> ?P e) (mset ?c))"
    by (rule trans [OF set_mset_mset [symmetric] arg_cong [of _ _ set_mset, OF m]])
  then show ?thesis unfolding set_mset_filter set_mset_mset not_not by (simp only: eq_commute)
qed



end
