(* ===== verification/Faults.thy ===== *)
theory Faults
  imports Checker
begin

text \<open>
  The cluster under test as the fault harness sees it, \<^verbatim>\<open>src/src/torture/cluster.rs\<close>: the faults,
  what each broker says of the leaders, the vote among the brokers, and the wait for health. What
  a target does is an argument that acts on a state of its own; waits that do not end are \<open>None\<close>.
\<close>

section \<open>Faults\<close>

datatype fault = Kill | Pause | Isolate

definition fault_all :: "fault list" where
  "fault_all = [Kill, Pause, Isolate]"

fun fault_name :: "fault \<Rightarrow> string" where
  "fault_name Kill = ''kill''"
| "fault_name Pause = ''pause''"
| "fault_name Isolate = ''isolate''"

text \<open>\<open>str::trim\<close>: white space at either end, given by its UTF-8 encodings.\<close>

function trim_start :: "string \<Rightarrow> string" where
  "trim_start s = (if white_len s = 0 then s else trim_start (drop (white_len s) s))"
  by auto
termination
proof (relation "measure length")
  fix s assume "white_len s \<noteq> 0"
  moreover have "white_len [] = 0" by code_simp
  ultimately have "s \<noteq> []" by (cases s) auto
  then show "(drop (white_len s) s, s) \<in> measure length" using \<open>white_len s \<noteq> 0\<close> by simp
qed simp

declare trim_start.simps [simp del]

definition white_tail :: "string \<Rightarrow> nat" where
  "white_tail s =
     (case find (\<lambda>w. drop (length s - length w) (map of_char s) = w) white_codes of None \<Rightarrow> 0 | Some w \<Rightarrow> length w)"

function trim_end :: "string \<Rightarrow> string" where
  "trim_end s = (if white_tail s = 0 then s else trim_end (take (length s - white_tail s) s))"
  by auto
termination
proof (relation "measure length")
  fix s assume "white_tail s \<noteq> 0"
  moreover have "white_tail [] = 0" by code_simp
  ultimately have "s \<noteq> []" by (cases s) auto
  then show "(take (length s - white_tail s) s, s) \<in> measure length" using \<open>white_tail s \<noteq> 0\<close> by simp
qed simp

declare trim_end.simps [simp del]

datatype fault_error = UnknownFault string | NoFaults

definition fault_parse :: "string \<Rightarrow> fault_error + fault" where
  "fault_parse s =
     (let s = trim_end (trim_start s)
      in if s = ''kill'' then Inr Kill
         else if s = ''pause'' then Inr Pause
         else if s = ''isolate'' then Inr Isolate
         else Inl (UnknownFault s))"

text \<open>\<open>str::split\<close>, and the list with the first error, as \<open>collect\<close> gives it.\<close>

fun split_on :: "char \<Rightarrow> string \<Rightarrow> string list" where
  "split_on d [] = [[]]"
| "split_on d (c # s) =
     (if c = d then [] # split_on d s
      else case split_on d s of [] \<Rightarrow> [[c]] | part # parts \<Rightarrow> (c # part) # parts)"

fun fault_parse_all :: "string list \<Rightarrow> fault_error + fault list" where
  "fault_parse_all [] = Inr []"
| "fault_parse_all (s # ss) = bind_r (fault_parse s) (\<lambda>f. bind_r (fault_parse_all ss) (\<lambda>fs. Inr (f # fs)))"

definition fault_parse_list :: "string \<Rightarrow> fault_error + fault list" where
  "fault_parse_list s =
     bind_r (fault_parse_all (filter (\<lambda>p. p \<noteq> []) (split_on CHR '','' s)))
       (\<lambda>fs. if fs = [] then Inl NoFaults else Inr fs)"

section \<open>Targets\<close>

record ('w, 'e) fault_target =
  ft_brokers :: nat
  ft_fault :: "nat \<Rightarrow> fault \<Rightarrow> 'w \<Rightarrow> 'w \<times> ('e + unit)"
  ft_heal :: "nat \<Rightarrow> fault \<Rightarrow> 'w \<Rightarrow> 'w \<times> ('e + unit)"
  ft_create_topic :: "string \<Rightarrow> u32 \<Rightarrow> u32 \<Rightarrow> 'w \<Rightarrow> ('w \<times> ('e + unit)) option"
  ft_view_via :: "nat \<Rightarrow> string \<Rightarrow> u32 \<Rightarrow> 'w \<Rightarrow> 'w \<times> ('e + i32 list)"
  ft_wait_healthy :: "string \<Rightarrow> u32 \<Rightarrow> nat \<Rightarrow> 'w \<Rightarrow> ('w \<times> ('e + unit)) option"
  ft_now :: "'w \<Rightarrow> nat"
  ft_sleep :: "nat \<Rightarrow> 'w \<Rightarrow> 'w"

text \<open>What each broker answers, \<open>None\<close> for one that does not; the code asks all of them at once.\<close>

fun views_from :: "('w, 'e) fault_target \<Rightarrow> string \<Rightarrow> u32 \<Rightarrow> nat list \<Rightarrow> 'w \<Rightarrow> 'w \<times> i32 list option list" where
  "views_from tg topic partitions [] w = (w, [])"
| "views_from tg topic partitions (i # is) w =
     (let (w, r) = ft_view_via tg i topic partitions w;
          (w, vs) = views_from tg topic partitions is w
      in (w, (case r of Inl _ \<Rightarrow> None | Inr v \<Rightarrow> Some v) # vs))"

definition views :: "('w, 'e) fault_target \<Rightarrow> string \<Rightarrow> u32 \<Rightarrow> 'w \<Rightarrow> 'w \<times> i32 list option list" where
  "views tg topic partitions = views_from tg topic partitions [0..<ft_brokers tg]"

section \<open>The vote\<close>

definition count_vote :: "nat \<Rightarrow> i32 list option \<Rightarrow> (i32, nat) hashmap \<Rightarrow> (i32, nat) hashmap" where
  "count_vote p v counts =
     (case v of
        None \<Rightarrow> counts
      | Some ls \<Rightarrow>
          if p < length ls \<and> 0 \<le> sint (ls ! p) then
            hm_insert (ls ! p) ((case hm_get counts (ls ! p) of None \<Rightarrow> 0 | Some c \<Rightarrow> c) + 1) counts
          else counts)"

definition majority :: "i32 list option list \<Rightarrow> u32 \<Rightarrow> i32 list" where
  "majority vs partitions =
     map (\<lambda>p. case find (\<lambda>(_, c). length vs < c * 2) (fold (count_vote p) vs []) of
                None \<Rightarrow> - 1
              | Some (l, _) \<Rightarrow> l)
         [0..<unat partitions]"

definition majority_leaders :: "('w, 'e) fault_target \<Rightarrow> string \<Rightarrow> u32 \<Rightarrow> 'w \<Rightarrow> 'w \<times> i32 list" where
  "majority_leaders tg topic partitions w =
     (let (w, vs) = views tg topic partitions w in (w, majority vs partitions))"

section \<open>Health\<close>

definition all_answer :: "i32 list option list \<Rightarrow> bool" where
  "all_answer vs \<longleftrightarrow> list_all (\<lambda>v. case v of None \<Rightarrow> False | Some ls \<Rightarrow> list_all (\<lambda>l. 0 \<le> sint l) ls) vs"

datatype 'e health_error = TargetErr 'e | Silent "nat list"

partial_function (option) healthy_loop ::
    "('w, 'e) fault_target \<Rightarrow> string \<Rightarrow> u32 \<Rightarrow> nat \<Rightarrow> 'w \<Rightarrow> ('w \<times> ('e health_error + unit)) option" where
  "healthy_loop tg topic partitions deadline w =
     (let (w, vs) = views tg topic partitions w
      in if all_answer vs then Some (w, Inr ())
         else if deadline < ft_now tg w then
           Some (w, Inl (Silent (map fst (filter (\<lambda>(_, v). v = None) (enumerate 0 vs)))))
         else healthy_loop tg topic partitions deadline (ft_sleep tg 250 w))"

definition wait_fully_healthy ::
    "('w, 'e) fault_target \<Rightarrow> string \<Rightarrow> u32 \<Rightarrow> nat \<Rightarrow> 'w \<Rightarrow> ('w \<times> ('e health_error + unit)) option" where
  "wait_fully_healthy tg topic partitions timeout w =
     (let deadline = ft_now tg w + timeout
      in case ft_wait_healthy tg topic partitions timeout w of
           None \<Rightarrow> None
         | Some (w, Inl e) \<Rightarrow> Some (w, Inl (TargetErr e))
         | Some (w, Inr _) \<Rightarrow> healthy_loop tg topic partitions deadline w)"

section \<open>What the vote decides\<close>

text \<open>The brokers that name a leader for a partition.\<close>

definition names :: "nat \<Rightarrow> i32 \<Rightarrow> i32 list option \<Rightarrow> bool" where
  "names p l v \<longleftrightarrow> (case v of None \<Rightarrow> False | Some ls \<Rightarrow> p < length ls \<and> ls ! p = l)"

definition voters :: "i32 \<Rightarrow> nat \<Rightarrow> i32 list option list \<Rightarrow> nat set" where
  "voters l p vs = {i. i < length vs \<and> names p l (vs ! i)}"

lemma voters_finite [simp]: "finite (voters l p vs)"
  by (simp add: voters_def)

lemma names_unique: "names p l v \<Longrightarrow> names p l' v \<Longrightarrow> l = l'"
  by (auto simp: names_def split: option.splits)

lemma voters_snoc: "voters l p (vs @ [v]) = (if names p l v then insert (length vs) (voters l p vs) else voters l p vs)"
  by (auto simp: voters_def nth_append less_Suc_eq)

lemma card_voters_snoc: "card (voters l p (vs @ [v])) = card (voters l p vs) + (if names p l v then 1 else 0)"
proof -
  have "length vs \<notin> voters l p vs" by (simp add: voters_def)
  then show ?thesis by (simp add: voters_snoc)
qed

lemma count_vote_cases:
  obtains (blank) "\<And>m. count_vote p v m = m" "\<And>l. 0 \<le> sint l \<Longrightarrow> \<not> names p l v"
  | (vote) l where "0 \<le> sint l" "names p l v"
      "\<And>m. count_vote p v m = hm_insert l ((case hm_get m l of None \<Rightarrow> 0 | Some c \<Rightarrow> c) + 1) m"
proof (cases "\<exists>ls. v = Some ls \<and> p < length ls \<and> 0 \<le> sint (ls ! p)")
  case True
  then show ?thesis using vote by (auto simp: count_vote_def names_def)
next
  case False
  show ?thesis by (rule blank) (use False in \<open>auto simp: count_vote_def names_def split: option.splits\<close>)
qed

lemma count_votes:
  "hm_wf (fold (count_vote p) vs []) \<and>
   hm_get (fold (count_vote p) vs []) l =
     (if 0 \<le> sint l \<and> card (voters l p vs) \<noteq> 0 then Some (card (voters l p vs)) else None)"
proof (induction vs arbitrary: l rule: rev_induct)
  case Nil
  then show ?case by (simp add: voters_def)
next
  case (snoc v vs)
  let ?m = "fold (count_vote p) vs []"
  have wf: "hm_wf ?m" using snoc by blast
  have get: "hm_get ?m k = (if 0 \<le> sint k \<and> card (voters k p vs) \<noteq> 0 then Some (card (voters k p vs)) else None)" for k
    using snoc by blast
  show ?case
  proof (cases rule: count_vote_cases [of p v])
    case blank
    then show ?thesis using wf get [of l] by (simp add: card_voters_snoc)
  next
    case (vote k)
    have f: "fold (count_vote p) (vs @ [v]) [] = hm_insert k (card (voters k p vs) + 1) ?m"
      using vote(1,3) get [of k] by simp
    show ?thesis
    proof (cases "l = k")
      case True
      then show ?thesis unfolding f using wf vote(1,2) by (simp add: card_voters_snoc)
    next
      case False
      then have "\<not> names p l v" using names_unique vote(2) by blast
      then show ?thesis unfolding f using wf False get [of l] by (simp add: card_voters_snoc)
    qed
  qed
qed

text \<open>Two leaders cannot both have a majority.\<close>

definition wins :: "nat \<Rightarrow> i32 list option list \<Rightarrow> i32 \<Rightarrow> bool" where
  "wins p vs l \<longleftrightarrow> 0 \<le> sint l \<and> length vs < 2 * card (voters l p vs)"

lemma wins_unique:
  assumes "wins p vs l" and "wins p vs l'"
  shows "l = l'"
proof (rule ccontr)
  assume "l \<noteq> l'"
  then have "voters l p vs \<inter> voters l' p vs = {}" using names_unique by (fastforce simp: voters_def)
  then have "card (voters l p vs \<union> voters l' p vs) = card (voters l p vs) + card (voters l' p vs)"
    by (simp add: card_Un_disjoint)
  moreover have "card (voters l p vs \<union> voters l' p vs) \<le> card {..<length vs}"
    by (rule card_mono) (auto simp: voters_def)
  ultimately show False using assms by (simp add: wins_def)
qed

lemma majority_wins:
  assumes "p < unat partitions"
  shows "wins p vs (majority vs partitions ! p) \<or> majority vs partitions ! p = - 1 \<and> (\<forall>l. \<not> wins p vs l)"
proof -
  let ?m = "fold (count_vote p) vs []"
  have m: "majority vs partitions ! p = (case find (\<lambda>(_, c). length vs < c * 2) ?m of None \<Rightarrow> - 1 | Some (l, _) \<Rightarrow> l)"
    using assms by (simp add: majority_def)
  have in_m: "(l, c) \<in> set ?m \<longleftrightarrow> 0 \<le> sint l \<and> c \<noteq> 0 \<and> c = card (voters l p vs)" for l c
    using count_votes [of p vs l] map_of_eq_Some_iff [of ?m l c] by (auto simp: card_gt_0_iff split: if_splits)
  show ?thesis
  proof (cases "find (\<lambda>(_, c). length vs < c * 2) ?m")
    case None
    have "\<not> wins p vs l" for l
    proof
      assume w: "wins p vs l"
      then have "(l, card (voters l p vs)) \<in> set ?m" using in_m by (auto simp: wins_def)
      then show False using w None by (fastforce simp: find_None_iff wins_def)
    qed
    then show ?thesis using m None by simp
  next
    case (Some e)
    obtain l c where e: "e = (l, c)" by (cases e)
    have "e \<in> set ?m" "length vs < c * 2" using Some e by (auto simp: find_Some_iff in_set_conv_nth)
    then have "wins p vs l" using in_m e by (auto simp: wins_def)
    then show ?thesis using m Some e by simp
  qed
qed

text \<open>
  C29. The leader the harness takes for a partition (\<open>majority\<close>) is the one that more than half of
  all brokers name, whatever the order of the hash map, and -1 if there is none; and a set of at
  most half of the brokers, such as a zombie and the brokers that do not answer, never names it
  alone.
\<close>

theorem majority_is_the_vote:
  assumes "p < unat partitions" and "0 \<le> sint l" and "finite Z" and "2 * card Z \<le> length vs"
  shows "length (majority vs partitions) = unat partitions \<and>
    (majority vs partitions ! p = l \<longleftrightarrow> length vs < 2 * card (voters l p vs)) \<and>
    (majority vs partitions ! p = - 1 \<longleftrightarrow> (\<nexists>l. 0 \<le> sint l \<and> length vs < 2 * card (voters l p vs))) \<and>
    (majority vs partitions ! p = l \<longrightarrow> voters l p vs - Z \<noteq> {})"
proof -
  have neg: "\<not> wins p vs (- 1)" by (simp add: wins_def)
  have iff: "majority vs partitions ! p = l \<longleftrightarrow> length vs < 2 * card (voters l p vs)"
    using majority_wins [OF assms(1), of vs] wins_unique assms(2) neg unfolding wins_def by (metis sint_n1 not_one_le_zero zero_le_one neg_0_le_iff_le)
  have minus: "majority vs partitions ! p = - 1 \<longleftrightarrow> (\<nexists>l. 0 \<le> sint l \<and> length vs < 2 * card (voters l p vs))"
    using majority_wins [OF assms(1), of vs] neg unfolding wins_def by metis
  have "voters l p vs - Z \<noteq> {}" if "majority vs partitions ! p = l"
  proof
    assume "voters l p vs - Z = {}"
    then have "card (voters l p vs) \<le> card Z" using assms(3) by (intro card_mono) auto
    then show False using that iff assms(4) by simp
  qed
  then show ?thesis using iff minus by (simp add: majority_def)
qed

theorem majority_is_the_vote_witness:
  "majority [Some [1], Some [2], Some [2]] 1 ! 0 = 2 \<and> voters 2 0 [Some [1], Some [2], Some [2]] - {0} \<noteq> {}"
proof -
  have m: "majority [Some [1], Some [2], Some [2]] 1 ! 0 = 2"
    by (simp add: majority_def count_vote_def)
  show ?thesis
    using majority_is_the_vote [of 0 1 2 "{0}" "[Some [1], Some [2], Some [2]]"] m by simp
qed

end
