(* ===== verification/Harness.thy ===== *)
theory Harness
  imports Faults Proto
begin

text \<open>
  The cluster of child processes of \<^verbatim>\<open>src/src/harness/mod.rs\<close>: how processes are spawned, killed
  and restarted, and what is read off the controller's metadata. What a spawned process prints, a
  kill, the controller's answers and the clock are an argument; processes are numbers. \<open>None\<close> is a
  panic.
\<close>

section \<open>Specification and processes\<close>

record cluster_spec =
  cs_controller_bin :: string
  cs_broker_bin :: string
  cs_root :: string
  cs_brokers :: nat
  cs_fsync :: string
  cs_min_isr :: u32
  cs_replica_lag_ms :: u64
  cs_session_timeout_ms :: u64

definition cluster_spec_new :: "string \<Rightarrow> string \<Rightarrow> string \<Rightarrow> cluster_spec" where
  "cluster_spec_new controller_bin broker_bin root =
     \<lparr>cs_controller_bin = controller_bin, cs_broker_bin = broker_bin, cs_root = root, cs_brokers = 3,
      cs_fsync = ''batch:1048576:5'', cs_min_isr = 2, cs_replica_lag_ms = 1500, cs_session_timeout_ms = 700\<rparr>"

record proc_broker =
  pb_id :: u32
  pb_addr :: string
  pb_controller_addr :: string
  pb_child :: nat

record proc_cluster =
  pc_spec :: cluster_spec
  pc_controller_addr :: string
  pc_controller :: nat
  pc_brokers :: "proc_broker option list"
  pc_dead_addrs :: "(u32, string) hashmap"

record 'w processes =
  ps_spawn :: "string \<Rightarrow> string list \<Rightarrow> 'w \<Rightarrow> 'w \<times> (string + nat \<times> string)"
  ps_kill :: "nat \<Rightarrow> 'w \<Rightarrow> 'w"
  ps_controller_meta :: "string \<Rightarrow> 'w \<Rightarrow> 'w \<times> cluster_meta option"
  ps_now :: "'w \<Rightarrow> nat"
  ps_sleep :: "nat \<Rightarrow> 'w \<Rightarrow> 'w"

section \<open>Spawning\<close>

datatype spawn_error = SpawnIo string | NoAddress string

text \<open>\<open>line.trim().rsplit(' ').next()\<close>, and \<open>str::contains\<close>.\<close>

definition last_word :: "string \<Rightarrow> string" where
  "last_word line = rev (takeWhile (\<lambda>c. c \<noteq> CHR '' '') (rev (trim_end (trim_start line))))"

fun contains :: "string \<Rightarrow> string \<Rightarrow> bool" where
  "contains pat [] = (pat = [])"
| "contains pat (c # s) = (take (length pat) (c # s) = pat \<or> contains pat s)"

definition spawn_and_get_addr ::
    "'w processes \<Rightarrow> string \<Rightarrow> string list \<Rightarrow> 'w \<Rightarrow> 'w \<times> (spawn_error + nat \<times> string)" where
  "spawn_and_get_addr ps bin args w =
     (case ps_spawn ps bin args w of
        (w, Inl e) \<Rightarrow> (w, Inl (SpawnIo e))
      | (w, Inr (child, line)) \<Rightarrow>
          if \<not> contains ''listening on'' line \<or> last_word line = [] then
            (ps_kill ps child w, Inl (NoAddress line))
          else (w, Inr (child, last_word line)))"

text \<open>\<open>Path::join\<close> of a relative name.\<close>

definition join_path :: "string \<Rightarrow> string \<Rightarrow> string" where
  "join_path root name = root @ ''/'' @ name"

definition controller_args :: "cluster_spec \<Rightarrow> string list" where
  "controller_args spec =
     [''--listen'', ''127.0.0.1:0'', ''--state-file'', join_path (cs_root spec) ''controller.state'',
      ''--session-timeout-ms'', show_word (cs_session_timeout_ms spec)]"

definition broker_args :: "cluster_spec \<Rightarrow> u32 \<Rightarrow> string \<Rightarrow> string list" where
  "broker_args spec bid controller_addr =
     [''--listen'', ''127.0.0.1:0'', ''--data-dir'', join_path (cs_root spec) (''broker-'' @ show_word bid),
      ''--fsync'', cs_fsync spec, ''--broker-id'', show_word bid, ''--controller-addr'', controller_addr,
      ''--min-isr'', show_word (cs_min_isr spec), ''--replica-lag-ms'', show_word (cs_replica_lag_ms spec)]"

definition start_controller_only :: "'w processes \<Rightarrow> cluster_spec \<Rightarrow> 'w \<Rightarrow> 'w \<times> (spawn_error + proc_cluster)" where
  "start_controller_only ps spec w =
     (case spawn_and_get_addr ps (cs_controller_bin spec) (controller_args spec) w of
        (w, Inl e) \<Rightarrow> (w, Inl e)
      | (w, Inr (child, addr)) \<Rightarrow>
          (w, Inr \<lparr>pc_spec = spec, pc_controller_addr = addr, pc_controller = child, pc_brokers = [],
                   pc_dead_addrs = []\<rparr>))"

definition spawn_broker ::
    "'w processes \<Rightarrow> u32 \<Rightarrow> string \<Rightarrow> proc_cluster \<Rightarrow> 'w \<Rightarrow> 'w \<times> (spawn_error + proc_broker)" where
  "spawn_broker ps bid controller_addr c w =
     (case spawn_and_get_addr ps (cs_broker_bin (pc_spec c)) (broker_args (pc_spec c) bid controller_addr) w of
        (w, Inl e) \<Rightarrow> (w, Inl e)
      | (w, Inr (child, addr)) \<Rightarrow>
          (w, Inr \<lparr>pb_id = bid, pb_addr = addr, pb_controller_addr = controller_addr, pb_child = child\<rparr>))"

definition add_broker ::
    "'w processes \<Rightarrow> u32 \<Rightarrow> string option \<Rightarrow> proc_cluster \<Rightarrow> 'w \<Rightarrow> ('w \<times> (spawn_error + proc_cluster)) option" where
  "add_broker ps bid controller_addr c w =
     (if unat bid = length (pc_brokers c) then
        Some (case spawn_broker ps bid (case controller_addr of None \<Rightarrow> pc_controller_addr c | Some a \<Rightarrow> a) c w of
                (w, Inl e) \<Rightarrow> (w, Inl e)
              | (w, Inr b) \<Rightarrow> (w, Inr (c\<lparr>pc_brokers := pc_brokers c @ [Some b]\<rparr>)))
      else None)"

definition broker_addrs :: "proc_cluster \<Rightarrow> string list" where
  "broker_addrs c = concat (map (\<lambda>b. case b of None \<Rightarrow> [] | Some b \<Rightarrow> [pb_addr b]) (pc_brokers c))"

section \<open>The controller's metadata\<close>

partial_function (option) wait_meta_loop ::
    "'w processes \<Rightarrow> (cluster_meta \<Rightarrow> bool) \<Rightarrow> string \<Rightarrow> nat \<Rightarrow> 'w \<Rightarrow> ('w \<times> cluster_meta) option" where
  "wait_meta_loop ps P addr deadline w =
     (case ps_controller_meta ps addr w of
        (w, None) \<Rightarrow> None
      | (w, Some meta) \<Rightarrow>
          if P meta then Some (w, meta)
          else if ps_now ps w < deadline then wait_meta_loop ps P addr deadline (ps_sleep ps 50 w)
          else None)"

definition wait_for_meta ::
    "'w processes \<Rightarrow> (cluster_meta \<Rightarrow> bool) \<Rightarrow> proc_cluster \<Rightarrow> 'w \<Rightarrow> ('w \<times> cluster_meta) option" where
  "wait_for_meta ps P c w = wait_meta_loop ps P (pc_controller_addr c) (ps_now ps w + 15000) w"

definition leader_of :: "cluster_meta \<Rightarrow> string \<Rightarrow> u32 \<Rightarrow> i32" where
  "leader_of meta topic part =
     (case find (\<lambda>t. tm_name t = topic) (cm_topics meta) of
        None \<Rightarrow> - 1
      | Some t \<Rightarrow>
          (case find (\<lambda>p. pm_partition p = part) (tm_partitions t) of
             None \<Rightarrow> - 1
           | Some p \<Rightarrow> pm_leader p))"

definition isr_of :: "cluster_meta \<Rightarrow> string \<Rightarrow> u32 \<Rightarrow> u32 list" where
  "isr_of meta topic part =
     (case find (\<lambda>t. tm_name t = topic) (cm_topics meta) of
        None \<Rightarrow> []
      | Some t \<Rightarrow>
          (case find (\<lambda>p. pm_partition p = part) (tm_partitions t) of
             None \<Rightarrow> []
           | Some p \<Rightarrow> pm_isr p))"

section \<open>Start, kill and restart\<close>

text \<open>A cluster that goes out of scope kills its processes, the controller first.\<close>

definition drop_cluster :: "'w processes \<Rightarrow> proc_cluster \<Rightarrow> 'w \<Rightarrow> 'w" where
  "drop_cluster ps c w =
     fold (\<lambda>b w. case b of None \<Rightarrow> w | Some b \<Rightarrow> ps_kill ps (pb_child b) w) (pc_brokers c)
       (ps_kill ps (pc_controller c) w)"

fun add_brokers ::
    "'w processes \<Rightarrow> u32 list \<Rightarrow> proc_cluster \<Rightarrow> 'w \<Rightarrow> ('w \<times> (spawn_error + proc_cluster)) option" where
  "add_brokers ps [] c w = Some (w, Inr c)"
| "add_brokers ps (bid # bids) c w =
     (case add_broker ps bid None c w of
        None \<Rightarrow> None
      | Some (w, Inl e) \<Rightarrow> Some (drop_cluster ps c w, Inl e)
      | Some (w, Inr c) \<Rightarrow> add_brokers ps bids c w)"

definition cluster_start :: "'w processes \<Rightarrow> cluster_spec \<Rightarrow> 'w \<Rightarrow> ('w \<times> (spawn_error + proc_cluster)) option" where
  "cluster_start ps spec w =
     (case start_controller_only ps spec w of
        (w, Inl e) \<Rightarrow> Some (w, Inl e)
      | (w, Inr c) \<Rightarrow>
          (case add_brokers ps (map word_of_nat [0..<unat (word_of_nat (cs_brokers spec) :: u32)]) c w of
             None \<Rightarrow> None
           | Some (w, Inl e) \<Rightarrow> Some (w, Inl e)
           | Some (w, Inr c) \<Rightarrow>
               map_option (\<lambda>(w, _). (w, Inr c)) (wait_for_meta ps (\<lambda>m. cs_brokers spec \<le> length (cm_brokers m)) c w)))"

definition kill9 :: "'w processes \<Rightarrow> nat \<Rightarrow> proc_cluster \<Rightarrow> 'w \<Rightarrow> (proc_cluster \<times> 'w) option" where
  "kill9 ps i c w =
     (if i < length (pc_brokers c) then
        case pc_brokers c ! i of
          None \<Rightarrow> None
        | Some b \<Rightarrow>
            Some (c\<lparr>pc_brokers := (pc_brokers c)[i := None],
                    pc_dead_addrs := hm_insert (pb_id b) (pb_controller_addr b) (pc_dead_addrs c)\<rparr>,
                  ps_kill ps (pb_child b) w)
      else None)"

definition restart_with ::
    "'w processes \<Rightarrow> nat \<Rightarrow> string option \<Rightarrow> proc_cluster \<Rightarrow> 'w \<Rightarrow> ('w \<times> (spawn_error + proc_cluster)) option" where
  "restart_with ps i controller_addr c w =
     (if i < length (pc_brokers c) \<and> pc_brokers c ! i = None then
        let addr = (case controller_addr of
                      Some a \<Rightarrow> a
                    | None \<Rightarrow> (case hm_get (pc_dead_addrs c) (word_of_nat i) of
                                 Some a \<Rightarrow> a
                               | None \<Rightarrow> pc_controller_addr c))
        in case spawn_broker ps (word_of_nat i) addr c w of
             (w, Inl e) \<Rightarrow> Some (w, Inl e)
           | (w, Inr b) \<Rightarrow>
               let c = c\<lparr>pc_brokers := (pc_brokers c)[i := Some b]\<rparr>
               in map_option (\<lambda>(w, _). (w, Inr c))
                    (wait_for_meta ps (\<lambda>m. (word_of_nat i, pb_addr b) \<in> set (cm_brokers m)) c w)
      else None)"

definition restart :: "'w processes \<Rightarrow> nat \<Rightarrow> proc_cluster \<Rightarrow> 'w \<Rightarrow> ('w \<times> (spawn_error + proc_cluster)) option" where
  "restart ps i = restart_with ps i None"

section \<open>Slots\<close>

text \<open>A broker sits in the slot of its id, through kills and restarts.\<close>

definition slots_ok :: "proc_cluster \<Rightarrow> bool" where
  "slots_ok c \<longleftrightarrow> (\<forall>i < length (pc_brokers c). pred_option (\<lambda>b. pb_id b = word_of_nat i) (pc_brokers c ! i))"

lemma spawn_broker_id:
  "spawn_broker ps bid addr c w = (w', Inr b) \<Longrightarrow> pb_id b = bid \<and> pb_controller_addr b = addr"
  by (auto simp: spawn_broker_def split: prod.splits sum.splits)

lemma add_broker_slots:
  assumes "add_broker ps bid addr c w = Some (w', Inr c')" and "slots_ok c"
  shows "slots_ok c'"
proof -
  obtain b where "unat bid = length (pc_brokers c)" "pb_id b = bid" "c' = c\<lparr>pc_brokers := pc_brokers c @ [Some b]\<rparr>"
    using assms(1) by (auto simp: add_broker_def dest!: spawn_broker_id split: if_splits prod.splits sum.splits)
  moreover have "bid = word_of_nat (length (pc_brokers c))" by (simp flip: calculation(1))
  ultimately show ?thesis using assms(2) by (auto simp: slots_ok_def nth_append less_Suc_eq)
qed

lemma kill9_slots: "kill9 ps i c w = Some (c', w') \<Longrightarrow> slots_ok c \<Longrightarrow> slots_ok c'"
  by (auto simp: kill9_def slots_ok_def nth_list_update split: if_splits option.splits)

lemma restart_slots:
  assumes "restart_with ps i addr c w = Some (w', Inr c')" and "slots_ok c"
  shows "slots_ok c'"
proof -
  obtain b where "i < length (pc_brokers c)" "pb_id b = word_of_nat i" "c' = c\<lparr>pc_brokers := (pc_brokers c)[i := Some b]\<rparr>"
    using assms(1) by (auto simp: restart_with_def Let_def dest!: spawn_broker_id split: if_splits prod.splits sum.splits option.splits)
  then show ?thesis using assms(2) by (simp add: slots_ok_def nth_list_update)
qed

text \<open>
  A broker killed and restarted keeps its slot, its id and the controller address it dialled, the
  one of a proxy included; the other slots stay as they were.
\<close>

lemma restart_keeps_address:
  assumes "slots_ok c" and "i < length (pc_brokers c)" and "pc_brokers c ! i = Some b"
    and "kill9 ps i c w = Some (c1, w1)" and "restart ps i c1 w2 = Some (w3, Inr c3)"
  shows "\<exists>b'. pc_brokers c3 = (pc_brokers c)[i := Some b'] \<and> pb_id b' = pb_id b \<and> pb_controller_addr b' = pb_controller_addr b"
proof -
  have bid: "pb_id b = word_of_nat i" using assms(1-3) by (auto simp: slots_ok_def)
  have c1: "c1 = c\<lparr>pc_brokers := (pc_brokers c)[i := None],
      pc_dead_addrs := hm_insert (word_of_nat i) (pb_controller_addr b) (pc_dead_addrs c)\<rparr>"
    using assms(2-4) bid by (simp add: kill9_def)
  then obtain b' w4 where "spawn_broker ps (word_of_nat i) (pb_controller_addr b) c1 w2 = (w4, Inr b')"
    "c3 = c1\<lparr>pc_brokers := (pc_brokers c1)[i := Some b']\<rparr>"
    using assms(2,5) by (auto simp: restart_def restart_with_def Let_def split: if_splits prod.splits sum.splits option.splits)
  then show ?thesis using c1 bid spawn_broker_id by fastforce
qed

end
