(* ===== verification/Workload.thy ===== *)
theory Workload
  imports Harness ClusterClient
begin

text \<open>
  What the fault harness needs of a system under test, \<^verbatim>\<open>src/src/torture/workload.rs\<close>, and replog
  as such a system, \<^verbatim>\<open>src/src/torture/replog.rs\<close>: its metadata as a target, its cluster client as
  a workload. The network is the one of theory \<open>ClusterClient\<close>; the containers and the
  controller's answers are an argument. Times are milliseconds.
\<close>

section \<open>Ack levels and values\<close>

datatype ack_level = LeaderOnly | AllAcks

fun ack_level_name :: "ack_level \<Rightarrow> string" where
  "ack_level_name LeaderOnly = ''acks=1''"
| "ack_level_name AllAcks = ''acks=all''"

definition ack_level_parse :: "string \<Rightarrow> string + ack_level" where
  "ack_level_parse s =
     (if s \<in> {''1'', ''leader'', ''acks=1''} then Inr LeaderOnly
      else if s \<in> {''all'', ''acks=all''} then Inr AllAcks
      else Inl s)"

text \<open>The id in the first eight bytes, padded with zeros.\<close>

definition encode_value :: "u64 \<Rightarrow> nat \<Rightarrow> bytes" where
  "encode_value rid value_bytes = put_u64 rid @ replicate (max value_bytes 8 - 8) 0"

definition decode_id :: "bytes \<Rightarrow> u64 option" where
  "decode_id v = (if 8 \<le> length v then Some (of_le (take 8 v)) else None)"

lemma decode_encode_id [simp]: "decode_id (encode_value rid value_bytes) = Some rid"
proof -
  have "of_le (put_u64 rid) = rid" "length (put_u64 rid) = 8"
    using codes_u64 [of rid] by (auto simp: codes_def r_u64_def put_u64_def pbind_def take_r_def ret_def)
  then show ?thesis by (simp add: decode_id_def encode_value_def)
qed

section \<open>The target\<close>

datatype target_error = FromClient client_error | TimedOut | Leaderless "i32 list" | NotHealthy | Backend string

record 'w replog_spec =
  rt_client_addrs :: "string list"
  rt_apply :: "nat \<Rightarrow> fault \<Rightarrow> 'w \<Rightarrow> 'w \<times> (target_error + unit)"
  rt_heal :: "nat \<Rightarrow> fault \<Rightarrow> 'w \<Rightarrow> 'w \<times> (target_error + unit)"
  rt_controller_meta :: "'w \<Rightarrow> 'w \<times> (target_error + cluster_meta)"

text \<open>The leaders a broker's metadata gives, one place for each partition.\<close>

definition leaders_in :: "cluster_meta \<Rightarrow> string \<Rightarrow> u32 \<Rightarrow> i32 list" where
  "leaders_in meta topic partitions =
     (let out = replicate (unat partitions) (- 1)
      in case find (\<lambda>t. tm_name t = topic) (cm_topics meta) of
        None \<Rightarrow> out
      | Some t \<Rightarrow>
          fold (\<lambda>p out. if unat (pm_partition p) < length out then out[unat (pm_partition p) := pm_leader p] else out)
            (tm_partitions t) out)"

text \<open>A broker's own view, over a connection of its own, within 500 ms.\<close>

definition replog_view_via ::
    "'w network \<Rightarrow> 'w replog_spec \<Rightarrow> nat \<Rightarrow> string \<Rightarrow> u32 \<Rightarrow> 'w \<Rightarrow> 'w \<times> (target_error + i32 list)" where
  "replog_view_via nt rt i topic partitions w =
     (let (w', r) =
        (case nt_connect nt (rt_client_addrs rt ! i) w of
           (w, Inl e) \<Rightarrow> (w, Inl e)
         | (w, Inr conn) \<Rightarrow> nt_metadata nt conn w)
      in (w', if nt_now nt w + 500 < nt_now nt w' then Inl TimedOut
              else case r of
                Inl e \<Rightarrow> Inl (FromClient e)
              | Inr meta \<Rightarrow> Inr (leaders_in meta topic partitions)))"

text \<open>Healthy twice in a row: all brokers there, and every partition in sync on all of them.\<close>

definition fully_replicated :: "nat \<Rightarrow> cluster_meta \<Rightarrow> string \<Rightarrow> u32 \<Rightarrow> bool" where
  "fully_replicated n m topic partitions \<longleftrightarrow>
     length (cm_brokers m) = n \<and>
     list_all (\<lambda>p. length (isr_of m topic (word_of_nat p)) = n) [0..<unat partitions]"

partial_function (option) replog_wait_loop ::
    "'w network \<Rightarrow> 'w replog_spec \<Rightarrow> string \<Rightarrow> u32 \<Rightarrow> nat \<Rightarrow> nat \<Rightarrow> 'w \<Rightarrow> ('w \<times> (target_error + unit)) option" where
  "replog_wait_loop nt rt topic partitions deadline streak w =
     (let (w, r) = rt_controller_meta rt w;
          healthy = (case r of Inl _ \<Rightarrow> False
                     | Inr m \<Rightarrow> fully_replicated (length (rt_client_addrs rt)) m topic partitions);
          streak = (if healthy then streak + 1 else 0)
      in if 2 \<le> streak then Some (w, Inr ())
         else if deadline < nt_now nt w then Some (w, Inl NotHealthy)
         else replog_wait_loop nt rt topic partitions deadline streak (nt_sleep nt 500 w))"

definition replog_wait_healthy ::
    "'w network \<Rightarrow> 'w replog_spec \<Rightarrow> string \<Rightarrow> u32 \<Rightarrow> nat \<Rightarrow> 'w \<Rightarrow> ('w \<times> (target_error + unit)) option" where
  "replog_wait_healthy nt rt topic partitions timeout w =
     replog_wait_loop nt rt topic partitions (nt_now nt w + timeout) 0 w"

text \<open>A topic is created once every partition has a leader by majority.\<close>

partial_function (option) leaders_loop ::
    "('w, target_error) fault_target \<Rightarrow> string \<Rightarrow> u32 \<Rightarrow> nat \<Rightarrow> 'w \<Rightarrow> ('w \<times> (target_error + unit)) option" where
  "leaders_loop tg topic partitions deadline w =
     (let (w, l) = majority_leaders tg topic partitions w
      in if list_all (\<lambda>x. 0 \<le> sint x) l then Some (w, Inr ())
         else if deadline < ft_now tg w then Some (w, Inl (Leaderless l))
         else leaders_loop tg topic partitions deadline (ft_sleep tg 100 w))"

definition replog_create_topic ::
    "'w network \<Rightarrow> 'w replog_spec \<Rightarrow> ('w, target_error) fault_target \<Rightarrow> string \<Rightarrow> u32 \<Rightarrow> u32 \<Rightarrow> 'w \<Rightarrow>
     ('w \<times> (target_error + unit)) option" where
  "replog_create_topic nt rt tg topic partitions replication w =
     (case cluster_connect nt (rt_client_addrs rt) w of
        (w, Inl e) \<Rightarrow> Some (w, Inl (FromClient e))
      | (w, Inr c) \<Rightarrow>
          (case cluster_create_topic nt topic partitions replication (c, w) of
             None \<Rightarrow> None
           | Some ((_, w), r) \<Rightarrow>
               (case r of
                  Inl e \<Rightarrow>
                    if e = BrokerErr TopicExists then leaders_loop tg topic partitions (nt_now nt w + 30000) w
                    else Some (w, Inl (FromClient e))
                | Inr _ \<Rightarrow> leaders_loop tg topic partitions (nt_now nt w + 30000) w)))"

definition replog_target :: "'w network \<Rightarrow> 'w replog_spec \<Rightarrow> ('w, target_error) fault_target" where
  "replog_target nt rt =
     (let tg = \<lparr>ft_brokers = length (rt_client_addrs rt), ft_fault = rt_apply rt, ft_heal = rt_heal rt,
                ft_create_topic = \<lambda>_ _ _ _. None, ft_view_via = replog_view_via nt rt,
                ft_wait_healthy = replog_wait_healthy nt rt, ft_now = nt_now nt, ft_sleep = nt_sleep nt\<rparr>
      in tg\<lparr>ft_create_topic := replog_create_topic nt rt tg\<rparr>)"

section \<open>The workload\<close>

text \<open>An id counts as acked if the client says so: all ids of a batch, or none.\<close>

definition replog_produce ::
    "'w network \<Rightarrow> nat \<Rightarrow> string \<Rightarrow> u32 \<Rightarrow> u64 list \<Rightarrow> ack_level \<Rightarrow> cluster_client \<times> 'w \<Rightarrow>
     ((cluster_client \<times> 'w) \<times> u64 list) option" where
  "replog_produce nt value_bytes topic part ids acks cw =
     (let acks = (case acks of AllAcks \<Rightarrow> AcksAll | LeaderOnly \<Rightarrow> Written);
          records = map (\<lambda>rid. \<lparr>pr_key = None, pr_value = encode_value rid value_bytes\<rparr>) ids
      in map_option (\<lambda>(cw, r). (cw, case r of Inr _ \<Rightarrow> ids | Inl _ \<Rightarrow> [])) (cluster_produce nt topic part acks records cw))"

record replog_reader =
  rr_topic :: string
  rr_partition :: u32
  rr_position :: u64

definition replog_reader_new :: "string \<Rightarrow> u32 \<Rightarrow> replog_reader" where
  "replog_reader_new topic part = \<lparr>rr_topic = topic, rr_partition = part, rr_position = 0\<rparr>"

fun take_records :: "fetched_record list \<Rightarrow> u64 \<Rightarrow> (u64 \<times> u64) list \<times> u64" where
  "take_records [] position = ([], position)"
| "take_records (r # rs) position =
     (let (out, position) = take_records rs (fr_offset r + 1)
      in ((case decode_id (fr_value r) of None \<Rightarrow> [] | Some rid \<Rightarrow> [(fr_offset r, rid)]) @ out, position))"

definition reader_next ::
    "'w network \<Rightarrow> replog_reader \<Rightarrow> cluster_client \<times> 'w \<Rightarrow>
     ((cluster_client \<times> 'w) \<times> replog_reader \<times> (client_error + (u64 \<times> u64) list)) option" where
  "reader_next nt rd cw =
     map_option (\<lambda>(cw, r).
       case r of
         Inl e \<Rightarrow> (cw, rd, Inl e)
       | Inr (_, _, records) \<Rightarrow>
           let (out, position) = take_records records (rr_position rd)
           in (cw, rd\<lparr>rr_position := position\<rparr>, Inr out))
       (cluster_fetch nt (rr_topic rd) (rr_partition rd) (rr_position rd) (push_bit 10 256) 50 cw)"

end
