(* ===== verification/Failover.thy ===== *)
theory Failover
  imports Faults
begin

text \<open>
  What the fault harness measures, \<^verbatim>\<open>src/src/torture/failover.rs\<close>: the leader changes it observes,
  the clock of acknowledgements, and the summary of a list of gaps. Instants are nanoseconds since
  the start of the run.
\<close>

section \<open>The leader watch\<close>

record leader_change =
  lc_at :: nat
  lc_partition :: u32
  lc_old :: i32
  lc_new :: i32

record leader_state =
  ls_current :: "i32 list"
  ls_changes :: "leader_change list"
  ls_views :: "i32 list option list"

definition watch_start :: "u32 \<Rightarrow> leader_state" where
  "watch_start partitions = \<lparr>ls_current = replicate (unat partitions) (- 1), ls_changes = [], ls_views = []\<rparr>"

text \<open>What a poll adds: the leader of a partition, if it is another than before.\<close>

definition watch_partition :: "nat \<Rightarrow> nat \<times> i32 \<Rightarrow> leader_state \<Rightarrow> leader_state" where
  "watch_partition now pl st =
     (let (p, l) = pl; old = ls_current st ! p
      in if l \<noteq> old then
           st\<lparr>ls_changes := ls_changes st @
                [\<lparr>lc_at = now, lc_partition = word_of_nat p, lc_old = old, lc_new = l\<rparr>],
              ls_current := (ls_current st)[p := l]\<rparr>
         else st)"

definition watch_poll :: "u32 \<Rightarrow> nat \<Rightarrow> i32 list option list \<Rightarrow> leader_state \<Rightarrow> leader_state" where
  "watch_poll partitions now per_broker st =
     fold (watch_partition now) (enumerate 0 (majority per_broker partitions)) (st\<lparr>ls_views := per_broker\<rparr>)"

definition first_new_leader_after :: "nat \<Rightarrow> u32 \<Rightarrow> nat \<Rightarrow> leader_state \<Rightarrow> leader_change option" where
  "first_new_leader_after t0 part victim st =
     find (\<lambda>c. t0 \<le> lc_at c \<and> lc_partition c = part \<and> 0 \<le> sint (lc_new c) \<and> unat (lc_new c) \<noteq> victim)
       (ls_changes st)"

section \<open>The ack clock\<close>

text \<open>\<open>None\<close> is the panic of a partition out of range; a stamp of 0 means that no ack has come.\<close>

record ack_clock =
  ak_last :: "nat list"
  ak_acked :: "nat list"
  ak_gap :: "nat list"

definition clock_new :: "u32 \<Rightarrow> ack_clock" where
  "clock_new partitions =
     \<lparr>ak_last = replicate (unat partitions) 0, ak_acked = replicate (unat partitions) 0,
      ak_gap = replicate (unat partitions) 0\<rparr>"

definition clock_record :: "nat \<Rightarrow> u32 \<Rightarrow> nat \<Rightarrow> ack_clock \<Rightarrow> ack_clock option" where
  "clock_record now part n c =
     (let p = unat part
      in if p < length (ak_last c) then
           let ns = max now 1; prev = ak_last c ! p
           in Some (c\<lparr>ak_last := (ak_last c)[p := ns],
                      ak_gap := (if 0 < prev then (ak_gap c)[p := max (ak_gap c ! p) (ns - prev)] else ak_gap c),
                      ak_acked := (ak_acked c)[p := ak_acked c ! p + n]\<rparr>)
         else None)"

definition clock_reset_gap :: "u32 \<Rightarrow> ack_clock \<Rightarrow> ack_clock option" where
  "clock_reset_gap part c =
     (if unat part < length (ak_gap c) then Some (c\<lparr>ak_gap := (ak_gap c)[unat part := 0]\<rparr>) else None)"

definition clock_max_gap :: "nat \<Rightarrow> u32 \<Rightarrow> ack_clock \<Rightarrow> nat option option" where
  "clock_max_gap now part c =
     (if unat part < length (ak_gap c) then
        let recorded = ak_gap c ! unat part;
            open_gap = (case ak_last c ! unat part of 0 \<Rightarrow> 0 | Suc ns \<Rightarrow> now - Suc ns);
            g = max recorded open_gap
        in Some (if 0 < g then Some g else None)
      else None)"

definition clock_last_ack :: "u32 \<Rightarrow> ack_clock \<Rightarrow> nat option option" where
  "clock_last_ack part c =
     (if unat part < length (ak_last c) then
        Some (case ak_last c ! unat part of 0 \<Rightarrow> None | Suc ns \<Rightarrow> Some (Suc ns))
      else None)"

definition clock_acked :: "u32 \<Rightarrow> ack_clock \<Rightarrow> nat option" where
  "clock_acked part c = (if unat part < length (ak_acked c) then Some (ak_acked c ! unat part) else None)"

section \<open>Outcomes\<close>

text \<open>\<open>fo_t0\<close> is in nanoseconds; the code prints it in seconds.\<close>

record fault_outcome =
  fo_fault :: string
  fo_victim :: nat
  fo_t0 :: nat
  fo_cli_ms :: nat
  fo_heal_after_ms :: nat
  fo_partition :: u32
  fo_role :: string
  fo_leader_moved_ms :: "nat option"
  fo_new_leader :: i32
  fo_first_ack_ms :: "nat option"
  fo_max_gap_ms :: "nat option"

text \<open>
  \<open>percentiles\<close>: the rank \<open>((len - 1) * q).round()\<close> for \<open>q\<close> = 0.5 and 0.9 in whole numbers, halves
  rounded up; the floating point of the code gives the same for any list that fits in memory.
\<close>

definition percentiles :: "nat list \<Rightarrow> (nat \<times> nat \<times> nat \<times> nat \<times> nat) option" where
  "percentiles xs =
     (if xs = [] then None
      else let xs = sort xs; n = length xs
           in Some (xs ! 0, xs ! (((n - 1) * 5 + 5) div 10), xs ! (((n - 1) * 9 + 5) div 10), last xs, n))"

section \<open>What the watch records\<close>

text \<open>
  The polls of a run, each its time and the answers, and the leader of a partition they show; the
  moves are the polls that show another leader than the one before.
\<close>

definition watch_run :: "u32 \<Rightarrow> (nat \<times> i32 list option list) list \<Rightarrow> leader_state" where
  "watch_run partitions polls = fold (\<lambda>(now, vs). watch_poll partitions now vs) polls (watch_start partitions)"

fun moves :: "u32 \<Rightarrow> nat \<Rightarrow> i32 \<Rightarrow> (nat \<times> i32 list option list) list \<Rightarrow> leader_change list" where
  "moves partitions p old [] = []"
| "moves partitions p old ((now, vs) # polls) =
     (let l = majority vs partitions ! p
      in (if l \<noteq> old then [\<lparr>lc_at = now, lc_partition = word_of_nat p, lc_old = old, lc_new = l\<rparr>] else []) @
         moves partitions p l polls)"

abbreviation changes_of :: "nat \<Rightarrow> leader_state \<Rightarrow> leader_change list" where
  "changes_of p st \<equiv> filter (\<lambda>c. lc_partition c = word_of_nat p) (ls_changes st)"

lemma length_majority [simp]: "length (majority vs partitions) = unat partitions"
  by (simp add: majority_def)

lemma watch_fold:
  assumes "length (ls_current st) = n" and "k + length ls \<le> n" and "n \<le> 2 ^ 32"
  shows "length (ls_current (fold (watch_partition now) (enumerate k ls) st)) = n \<and>
    (\<forall>p < n. ls_current (fold (watch_partition now) (enumerate k ls) st) ! p =
       (if k \<le> p \<and> p < k + length ls then ls ! (p - k) else ls_current st ! p) \<and>
     changes_of p (fold (watch_partition now) (enumerate k ls) st) = changes_of p st @
       (if k \<le> p \<and> p < k + length ls \<and> ls ! (p - k) \<noteq> ls_current st ! p
        then [\<lparr>lc_at = now, lc_partition = word_of_nat p, lc_old = ls_current st ! p, lc_new = ls ! (p - k)\<rparr>] else []))"
  using assms
proof (induction ls arbitrary: k st)
  case (Cons l ls)
  let ?st = "watch_partition now (k, l) st"
  have k: "k < n" using Cons.prems by simp
  have len: "length (ls_current ?st) = n" using Cons.prems by (simp add: watch_partition_def Let_def)
  have cur: "ls_current ?st ! p = (if p = k then l else ls_current st ! p)" if "p < n" for p
    using that Cons.prems k by (simp add: watch_partition_def nth_list_update Let_def)
  have word: "(word_of_nat k = (word_of_nat p :: u32)) = (k = p)" if "p < n" for p
  proof -
    have "k < 2 ^ LENGTH(32)" "p < 2 ^ LENGTH(32)" using that k Cons.prems(3) by simp_all
    then show ?thesis by (metis unat_of_nat_len)
  qed
  have chg: "changes_of p ?st = changes_of p st @
      (if p = k \<and> l \<noteq> ls_current st ! p then [\<lparr>lc_at = now, lc_partition = word_of_nat p, lc_old = ls_current st ! p, lc_new = l\<rparr>] else [])"
    if "p < n" for p
    using word [OF that] by (auto simp: watch_partition_def Let_def)
  note ih = Cons.IH [of ?st "Suc k", OF len]
  show ?case using ih Cons.prems k cur chg by (auto simp: nth_Cons' Suc_le_eq diff_Suc split: nat.split)
qed auto

lemma watch_poll_spec:
  assumes "length (ls_current st) = unat partitions" and "p < unat partitions"
  shows "length (ls_current (watch_poll partitions now vs st)) = unat partitions \<and>
    ls_current (watch_poll partitions now vs st) ! p = majority vs partitions ! p \<and>
    changes_of p (watch_poll partitions now vs st) =
      changes_of p st @ moves partitions p (ls_current st ! p) [(now, vs)]"
proof -
  let ?st = "st\<lparr>ls_views := vs\<rparr>"
  have "unat partitions < 2 ^ LENGTH(32)" by (rule unsigned_less)
  then have "unat partitions \<le> 2 ^ 32" by simp
  then have "0 + length (majority vs partitions) \<le> unat partitions" "length (ls_current ?st) = unat partitions"
    using assms by simp_all
  from watch_fold [OF this(2,1) \<open>unat partitions \<le> 2 ^ 32\<close>, of now] assms(2) show ?thesis
    by (auto simp: watch_poll_def)
qed

lemma watch_polls:
  assumes "length (ls_current st) = unat partitions" and "p < unat partitions"
  shows "let st' = fold (\<lambda>(now, vs). watch_poll partitions now vs) polls st in
    ls_current st' ! p = (if polls = [] then ls_current st ! p else majority (snd (last polls)) partitions ! p) \<and>
    changes_of p st' = changes_of p st @ moves partitions p (ls_current st ! p) polls"
  using assms(1)
proof (induction polls arbitrary: st)
  case (Cons e polls)
  obtain now vs where e: "e = (now, vs)" by (cases e)
  note w = watch_poll_spec [OF Cons.prems assms(2), of now vs]
  show ?case using Cons.IH [of "watch_poll partitions now vs st"] w by (simp add: e Let_def)
qed (simp add: Let_def)

lemma find_filter: "find P (filter Q xs) = find (\<lambda>x. Q x \<and> P x) xs"
  by (induction xs) auto

lemma moves_append:
  "moves partitions p old (xs @ ys) =
     moves partitions p old xs @ moves partitions p (if xs = [] then old else majority (snd (last xs)) partitions ! p) ys"
  by (induction xs arbitrary: old) (auto simp: Let_def)

lemma moves_times: "c \<in> set (moves partitions p old polls) \<Longrightarrow> lc_at c \<in> fst ` set polls"
  by (induction polls arbitrary: old) (fastforce simp: Let_def split: if_splits)+

lemma moves_steady: "\<forall>e \<in> set polls. majority (snd e) partitions ! p = l \<Longrightarrow> moves partitions p l polls = []"
  by (induction polls) (auto simp: Let_def)

text \<open>
  The watch keeps, for every partition, the leader of its last poll and exactly the polls that
  showed another leader than the poll before; the first new leader after an instant is searched
  among those moves only. So if the last poll before a fault took effect already shows the new
  leader, and no poll shows another one, the fault is said to have moved no leader.
\<close>

theorem watch_records_moves:
  assumes "p < unat partitions"
  shows "changes_of p (watch_run partitions polls) = moves partitions p (- 1) polls \<and>
    first_new_leader_after t0 (word_of_nat p) victim (watch_run partitions polls) =
      find (\<lambda>c. t0 \<le> lc_at c \<and> 0 \<le> sint (lc_new c) \<and> unat (lc_new c) \<noteq> victim) (moves partitions p (- 1) polls) \<and>
    (polls \<noteq> [] \<longrightarrow> ls_current (watch_run partitions polls) ! p = majority (snd (last polls)) partitions ! p) \<and>
    (polls = before @ after \<and> before \<noteq> [] \<and> (\<forall>e \<in> set before. fst e < t0) \<and>
       (\<forall>e \<in> set after. majority (snd e) partitions ! p = majority (snd (last before)) partitions ! p) \<longrightarrow>
       first_new_leader_after t0 (word_of_nat p) victim (watch_run partitions polls) = None)"
proof -
  let ?st = "watch_run partitions polls"
  have "length (ls_current (watch_start partitions)) = unat partitions" by (simp add: watch_start_def)
  from watch_polls [OF this assms, of polls] assms
  have ch: "changes_of p ?st = moves partitions p (- 1) polls"
    and cur: "ls_current ?st ! p = (if polls = [] then - 1 else majority (snd (last polls)) partitions ! p)"
    by (simp_all add: watch_run_def watch_start_def Let_def)
  have first: "first_new_leader_after t0 (word_of_nat p) victim ?st =
      find (\<lambda>c. t0 \<le> lc_at c \<and> 0 \<le> sint (lc_new c) \<and> unat (lc_new c) \<noteq> victim) (moves partitions p (- 1) polls)"
    unfolding ch [symmetric] find_filter first_new_leader_after_def
    by (rule arg_cong [of _ _ "\<lambda>f. find f _"]) auto
  have "first_new_leader_after t0 (word_of_nat p) victim ?st = None"
    if "polls = before @ after" "before \<noteq> []" "\<forall>e \<in> set before. fst e < t0"
      "\<forall>e \<in> set after. majority (snd e) partitions ! p = majority (snd (last before)) partitions ! p"
  proof -
    have "moves partitions p (- 1) polls = moves partitions p (- 1) before"
      using that moves_steady [of after partitions p] by (simp add: moves_append)
    moreover have "\<forall>c \<in> set (moves partitions p (- 1) before). lc_at c < t0"
      using moves_times that(3) by fastforce
    ultimately show ?thesis unfolding first by (auto simp: find_None_iff)
  qed
  then show ?thesis using ch cur first by auto
qed

theorem watch_records_moves_witness:
  "first_new_leader_after 5 0 0 (watch_run 1 [(1, [Some [0]]), (3, [Some [2]]), (7, [Some [2]])]) = None"
  using watch_records_moves [of 0 1 "[(1, [Some [0]]), (3, [Some [2]]), (7, [Some [2]])]" 5 0
      "[(1, [Some [0]]), (3, [Some [2]])]" "[(7, [Some [2]])]", THEN conjunct2, THEN conjunct2, THEN conjunct2]
  by simp

section \<open>What the clock measures\<close>

text \<open>Events at the clock: an ack, or the start of a measurement; each with its partition.\<close>

datatype clock_event = Acked nat u32 nat | Reset u32

fun clock_step :: "clock_event \<Rightarrow> ack_clock \<Rightarrow> ack_clock option" where
  "clock_step (Acked now part n) c = clock_record now part n c"
| "clock_step (Reset part) c = clock_reset_gap part c"

fun clock_run :: "clock_event list \<Rightarrow> ack_clock \<Rightarrow> ack_clock option" where
  "clock_run [] c = Some c"
| "clock_run (e # es) c = Option.bind (clock_step e c) (clock_run es)"

text \<open>The stamps of a partition's acks, and the intervals between consecutive ones.\<close>

fun stamps :: "u32 \<Rightarrow> clock_event list \<Rightarrow> nat list" where
  "stamps part [] = []"
| "stamps part (Acked now q n # es) = (if q = part then max now 1 # stamps part es else stamps part es)"
| "stamps part (Reset q # es) = stamps part es"

fun intervals :: "nat list \<Rightarrow> nat list" where
  "intervals (a # b # ts) = (b - a) # intervals (b # ts)"
| "intervals ts = []"

definition longest :: "nat list \<Rightarrow> nat" where
  "longest xs = fold max xs 0"

lemma longest_max: "fold max xs (n :: nat) = max n (longest xs)"
proof -
  have "fold max xs (max n m) = max n (fold max xs m)" for m :: nat
    by (induction xs arbitrary: m) (simp_all add: max.left_commute [of _ n])
  from this [of 0] show ?thesis by (simp add: longest_def)
qed

lemma longest_simps [simp]: "longest [] = 0" "longest (x # xs) = max x (longest xs)"
proof -
  show "longest [] = 0" by (simp add: longest_def)
  have "longest (x # xs) = fold max xs (max x 0)" by (simp add: longest_def)
  then show "longest (x # xs) = max x (longest xs)" using longest_max [of xs x] by simp
qed

lemma stamps_positive: "t \<in> set (stamps part es) \<Longrightarrow> 0 < t"
  by (induction part es rule: stamps.induct) (auto split: if_splits)

lemma stamps_append [simp]: "stamps part (xs @ ys) = stamps part xs @ stamps part ys"
  by (induction part xs rule: stamps.induct) auto

lemma clock_run_append [simp]: "clock_run (xs @ ys) c = Option.bind (clock_run xs c) (clock_run ys)"
  by (induction xs arbitrary: c) (auto split: bind_splits)

text \<open>The stamp a run starts from, as a list.\<close>

definition stamp_list :: "nat \<Rightarrow> nat list" where
  "stamp_list n = (if n = 0 then [] else [n])"

lemma clock_run_spec:
  assumes "clock_run es c = Some c'" and "Reset part \<notin> set es" and "unat part < n"
    and "length (ak_last c) = n" and "length (ak_gap c) = n"
  shows "length (ak_last c') = n \<and> length (ak_gap c') = n \<and>
    stamp_list (ak_last c' ! unat part) =
      (let ts = stamp_list (ak_last c ! unat part) @ stamps part es in if ts = [] then [] else [last ts]) \<and>
    ak_gap c' ! unat part =
      max (ak_gap c ! unat part) (longest (intervals (stamp_list (ak_last c ! unat part) @ stamps part es)))"
  using assms
proof (induction es arbitrary: c)
  case Nil
  then show ?case by (simp add: stamp_list_def)
next
  case (Cons e es)
  obtain c1 where c1: "clock_step e c = Some c1" "clock_run es c1 = Some c'"
    using Cons.prems(1) by (auto split: bind_splits)
  let ?p = "unat part"
  show ?case
  proof (cases e)
    case (Reset q)
    have q: "unat q \<noteq> ?p" using Reset Cons.prems(2) by (auto simp: word_unat_eq_iff)
    have "ak_last c1 = ak_last c" "ak_gap c1 ! ?p = ak_gap c ! ?p" "length (ak_gap c1) = n"
      using c1(1) Reset q Cons.prems(5) by (auto simp: clock_reset_gap_def split: if_splits)
    then show ?thesis using Cons.IH [OF c1(2)] Cons.prems Reset by simp
  next
    case (Acked now q k)
    have len: "length (ak_last c1) = n" "length (ak_gap c1) = n"
      using c1(1) Acked Cons.prems(4,5) by (auto simp: clock_record_def Let_def split: if_splits)
    note ih = Cons.IH [OF c1(2) _ Cons.prems(3) len]
    show ?thesis
    proof (cases "q = part")
      case False
      then have "unat q \<noteq> ?p" by (simp add: word_unat_eq_iff)
      then have "ak_last c1 ! ?p = ak_last c ! ?p" "ak_gap c1 ! ?p = ak_gap c ! ?p"
        using c1(1) Acked by (auto simp: clock_record_def Let_def split: if_splits)
      then show ?thesis using ih Cons.prems Acked False by simp
    next
      case True
      let ?t = "max now 1" and ?last = "ak_last c ! ?p"
      have "ak_last c1 ! ?p = ?t" "ak_gap c1 ! ?p = (if 0 < ?last then max (ak_gap c ! ?p) (?t - ?last) else ak_gap c ! ?p)"
        using c1(1) Acked True Cons.prems(3-5) by (auto simp: clock_record_def Let_def split: if_splits)
      then show ?thesis using ih Cons.prems Acked True by (simp add: stamp_list_def Let_def max.assoc)
    qed
  qed
qed

lemma clock_run_length:
  "clock_run es c = Some c' \<Longrightarrow> length (ak_last c) = n \<Longrightarrow> length (ak_gap c) = n \<Longrightarrow>
   length (ak_last c') = n \<and> length (ak_gap c') = n"
proof (induction es arbitrary: c)
  case (Cons e es)
  then show ?case
    by (cases e) (fastforce simp: clock_record_def clock_reset_gap_def Let_def split: if_splits bind_splits)+
qed simp

lemma clock_last_stamp:
  "clock_run es c = Some c' \<Longrightarrow> unat part < n \<Longrightarrow> length (ak_last c) = n \<Longrightarrow> length (ak_gap c) = n \<Longrightarrow>
   stamp_list (ak_last c' ! unat part) =
     (let ts = stamp_list (ak_last c ! unat part) @ stamps part es in if ts = [] then [] else [last ts])"
proof (induction es arbitrary: c)
  case Nil
  then show ?case by (simp add: stamp_list_def)
next
  case (Cons e es)
  obtain c1 where c1: "clock_step e c = Some c1" "clock_run es c1 = Some c'"
    using Cons.prems(1) by (auto split: bind_splits)
  have len: "length (ak_last c1) = n" "length (ak_gap c1) = n"
    using clock_run_length [of "[e]" c c1 n] c1(1) Cons.prems(3,4) by simp_all
  have "stamp_list (ak_last c1 ! unat part) =
      (let ts = stamp_list (ak_last c ! unat part) @ stamps part [e] in if ts = [] then [] else [last ts])"
  proof (cases e)
    case (Reset q)
    then show ?thesis using c1(1) by (auto simp: clock_reset_gap_def stamp_list_def split: if_splits)
  next
    case (Acked now q k)
    then show ?thesis using c1(1) Cons.prems(2,3)
      by (auto simp: clock_record_def stamp_list_def Let_def word_unat_eq_iff split: if_splits)
  qed
  then show ?case using Cons.IH [OF c1(2) Cons.prems(2) len] by (auto simp: Let_def split: if_splits)
      (cases e; auto split: if_splits)+
qed

lemma longest_append: "longest (xs @ ys) = max (longest xs) (longest ys)"
  by (induction xs) (simp_all add: max.assoc)

lemma intervals_snoc: "intervals (ts @ [a, b]) = intervals (ts @ [a]) @ [b - a]"
  by (induction ts rule: intervals.induct) auto

text \<open>
  The outage reported for a fault window (\<open>max_gap\<close> after \<open>reset_gap\<close>) is the longest interval
  between consecutive acks of the partition, from the last ack before the window on, and counting
  the one still open; acks of other partitions take no part.
\<close>

theorem max_gap_is_longest_outage:
  assumes "clock_run (before @ Reset part # after) (clock_new partitions) = Some c" and "Reset part \<notin> set after"
  shows "clock_max_gap now part c =
    (let ts = (if stamps part before = [] then [] else [last (stamps part before)]) @ stamps part after @ [now];
         g = longest (intervals ts)
     in Some (if 0 < g then Some g else None))"
proof -
  let ?p = "unat part" and ?n = "unat partitions"
  obtain c1 c2 where c1: "clock_run before (clock_new partitions) = Some c1"
    and c2: "clock_reset_gap part c1 = Some c2" and c: "clock_run after c2 = Some c"
    using assms(1) by (auto split: bind_splits)
  have new: "length (ak_last (clock_new partitions)) = ?n" "length (ak_gap (clock_new partitions)) = ?n"
    by (simp_all add: clock_new_def)
  have len: "length (ak_last c1) = ?n" "length (ak_gap c1) = ?n" using clock_run_length [OF c1 new] by simp_all
  then have p: "?p < ?n" and c2': "ak_last c2 = ak_last c1" "ak_gap c2 ! ?p = 0" "length (ak_gap c2) = ?n"
    using c2 by (auto simp: clock_reset_gap_def split: if_splits)
  have "stamp_list (ak_last (clock_new partitions) ! ?p) = []" using p by (simp add: clock_new_def stamp_list_def)
  then have l1: "stamp_list (ak_last c2 ! ?p) = (if stamps part before = [] then [] else [last (stamps part before)])"
    using clock_last_stamp [OF c1 p new] by (simp add: c2' Let_def)
  define ts where "ts = stamp_list (ak_last c2 ! ?p) @ stamps part after"
  have run: "length (ak_gap c) = ?n" "stamp_list (ak_last c ! ?p) = (if ts = [] then [] else [last ts])"
    "ak_gap c ! ?p = longest (intervals ts)"
    using clock_run_spec [OF c assms(2) p] len(1) c2' by (simp_all add: ts_def Let_def)
  have g: "max (ak_gap c ! ?p) (case ak_last c ! ?p of 0 \<Rightarrow> 0 | Suc ns \<Rightarrow> now - Suc ns) = longest (intervals (ts @ [now]))"
  proof (cases "ts = []")
    case True
    then show ?thesis using run by (simp add: stamp_list_def split: if_splits)
  next
    case False
    then obtain us u where ts: "ts = us @ [u]" by (metis append_butlast_last_id)
    have "ak_last c ! ?p = u" "0 < u" using run(2) ts by (auto simp: stamp_list_def split: if_splits)
    then show ?thesis using run(3) ts intervals_snoc [of us u now] by (cases u) (simp_all add: longest_append)
  qed
  show ?thesis using run(1) p g by (simp add: clock_max_gap_def ts_def l1 Let_def)
qed

theorem max_gap_is_longest_outage_witness:
  "\<exists>c. clock_run [Acked 10 0 5, Reset 0, Acked 12 1 5, Acked 90 0 5] (clock_new 2) = Some c \<and>
     clock_max_gap 100 0 c = Some (Some 80)"
proof -
  have new: "clock_new 2 = \<lparr>ak_last = [0, 0], ak_acked = [0, 0], ak_gap = [0, 0]\<rparr>" by code_simp
  obtain c where c: "clock_run ([Acked 10 0 5] @ Reset 0 # [Acked 12 1 5, Acked 90 0 5]) (clock_new 2) = Some c"
    by (simp add: new clock_record_def clock_reset_gap_def)
  from max_gap_is_longest_outage [OF c, of 100] c show ?thesis by (auto simp: Let_def)
qed

section \<open>Percentiles\<close>

text \<open>The summary of a list: the middle values lie between the extremes and are values of the list.\<close>

lemma percentiles_ordered:
  assumes "percentiles xs = Some (mn, p50, p90, mx, n)"
  shows "n = length xs \<and> {mn, p50, p90, mx} \<subseteq> set xs \<and> mn \<le> p50 \<and> p50 \<le> p90 \<and> p90 \<le> mx \<and>
    (\<forall>x \<in> set xs. mn \<le> x \<and> x \<le> mx)"
proof -
  let ?ys = "sort xs" and ?n = "length xs"
  have ne: "xs \<noteq> []" and v: "mn = ?ys ! 0" "p50 = ?ys ! (((?n - 1) * 5 + 5) div 10)"
    "p90 = ?ys ! (((?n - 1) * 9 + 5) div 10)" "mx = last ?ys" "n = ?n"
    using assms by (auto simp: percentiles_def Let_def split: if_splits)
  have ys: "?ys \<noteq> []" using ne by (metis set_empty set_sort)
  have lst: "last ?ys = ?ys ! (?n - 1)" using ys by (simp add: last_conv_nth)
  have idx: "((?n - 1) * 5 + 5) div 10 \<le> ((?n - 1) * 9 + 5) div 10" "((?n - 1) * 9 + 5) div 10 \<le> ?n - 1"
    by (simp_all add: div_le_mono)
  have pos: "0 < ?n" using ne by simp
  have mono: "?ys ! i \<le> ?ys ! j" if "i \<le> j" "j \<le> ?n - 1" for i j
  proof (rule sorted_nth_mono)
    have "j < ?n" using that(2) pos by linarith
    then show "j < length ?ys" by simp
  qed (use that in simp_all)
  have mem: "?ys ! i \<in> set xs" if "i \<le> ?n - 1" for i
  proof -
    have "i < ?n" using that pos by linarith
    then show ?thesis using nth_mem [of i ?ys] by simp
  qed
  have "?ys ! 0 \<le> x \<and> x \<le> last ?ys" if "x \<in> set xs" for x
  proof -
    have "x \<in> set ?ys" using that by simp
    then obtain i where i: "i < length ?ys" "?ys ! i = x" unfolding in_set_conv_nth by blast
    then have "i \<le> ?n - 1" by simp
    then show ?thesis using mono [of 0 i] mono [of i "?n - 1"] unfolding lst i(2) by blast
  qed
  moreover have "mn \<le> p50" "p50 \<le> p90" "p90 \<le> mx"
    using mono [of 0 "((?n - 1) * 5 + 5) div 10"] mono [OF idx] mono [OF idx(2)] idx by (simp_all add: v lst)
  moreover have "{mn, p50, p90, mx} \<subseteq> set xs"
    using mem [of 0] mem [OF order_trans [OF idx]] mem [OF idx(2)] mem [of "?n - 1"] by (simp add: v lst)
  ultimately show ?thesis by (simp add: v)
qed

end
