(* ===== verification/TortureRun.thy ===== *)
theory TortureRun
  imports Workload Failover Rng
begin

text \<open>
  The run of the fault harness, \<^verbatim>\<open>src/src/torture/schedule.rs\<close>: its configuration, the draws that
  make the schedule, the rounds of its producers and readers, and its summary. The tasks of a run
  are the steps of \<open>torture_step\<close>, in any order.
\<close>

section \<open>Configuration\<close>

record run_config =
  rc_topic :: string
  rc_partitions :: u32
  rc_replication :: u32
  rc_seed :: u64
  rc_duration_secs :: u64
  rc_faults :: "fault list"
  rc_acks :: ack_level
  rc_batch_records :: nat
  rc_pace_ms :: u64
  rc_value_bytes :: nat
  rc_min_gap_ms :: u64
  rc_max_gap_ms :: u64
  rc_min_heal_ms :: u64
  rc_max_heal_ms :: u64
  rc_detect_ms :: u64
  rc_readers_per_partition :: nat

section \<open>The schedule\<close>

text \<open>A draw from a range that may be a single value; \<open>None\<close> is the panic of the generator.\<close>

definition draw_between :: "u64 \<Rightarrow> u64 \<Rightarrow> splitmix64 \<Rightarrow> (u64 \<times> splitmix64) option" where
  "draw_between lo hi r = (if hi \<le> lo then Some (lo, r) else rng_range lo hi r)"

record fault_draw =
  fd_gap_ms :: u64
  fd_victim :: nat
  fd_heal_ms :: u64
  fd_fault :: fault

text \<open>What is drawn after the gap, and the draws of a round.\<close>

definition draw_rest :: "run_config \<Rightarrow> nat \<Rightarrow> u64 \<Rightarrow> splitmix64 \<Rightarrow> (fault_draw \<times> splitmix64) option" where
  "draw_rest cfg n gap r =
     Option.bind (rng_range 0 (word_of_nat n) r) (\<lambda>(victim, r).
     Option.bind (draw_between (rc_min_heal_ms cfg) (rc_max_heal_ms cfg) r) (\<lambda>(heal_ms, r).
     Option.bind (pick (rc_faults cfg) r) (\<lambda>(fault, r).
       Some (\<lparr>fd_gap_ms = gap, fd_victim = unat victim, fd_heal_ms = heal_ms, fd_fault = fault\<rparr>, r))))"

definition draw_fault :: "run_config \<Rightarrow> nat \<Rightarrow> splitmix64 \<Rightarrow> (fault_draw \<times> splitmix64) option" where
  "draw_fault cfg n r =
     Option.bind (draw_between (rc_min_gap_ms cfg) (rc_max_gap_ms cfg) r) (\<lambda>(gap, r). draw_rest cfg n gap r)"

text \<open>The draws of so many rounds.\<close>

fun draw_schedule :: "run_config \<Rightarrow> nat \<Rightarrow> nat \<Rightarrow> splitmix64 \<Rightarrow> fault_draw list option" where
  "draw_schedule cfg n 0 r = Some []"
| "draw_schedule cfg n (Suc k) r =
     Option.bind (draw_fault cfg n r) (\<lambda>(d, r). map_option (\<lambda>ds. d # ds) (draw_schedule cfg n k r))"

definition roles :: "nat \<Rightarrow> i32 list \<Rightarrow> string list" where
  "roles victim leaders = map (\<lambda>l. if l = word_of_nat victim then ''leader'' else ''follower'') leaders"

text \<open>The outcome of a fault for one partition, from what was observed of it.\<close>

definition outcome_row ::
    "fault_draw \<Rightarrow> u32 \<Rightarrow> string \<Rightarrow> nat \<Rightarrow> nat \<Rightarrow> nat \<Rightarrow> leader_change option \<Rightarrow> nat option \<Rightarrow> nat option \<Rightarrow> fault_outcome" where
  "outcome_row d part role started issued t0 moved first_ack max_gap =
     \<lparr>fo_fault = fault_name (fd_fault d), fo_victim = fd_victim d, fo_t0 = t0 - started,
      fo_cli_ms = (t0 - issued) div 1000000, fo_heal_after_ms = unat (fd_heal_ms d),
      fo_partition = part, fo_role = role,
      fo_leader_moved_ms = map_option (\<lambda>c. (lc_at c - t0) div 1000000) moved,
      fo_new_leader = (case moved of None \<Rightarrow> - 1 | Some c \<Rightarrow> lc_new c),
      fo_first_ack_ms = map_option (\<lambda>t. (t - t0) div 1000000) first_ack,
      fo_max_gap_ms = map_option (\<lambda>g. g div 1000000) max_gap\<rparr>"

section \<open>Producers and readers\<close>

record 'w torture =
  to_client :: cluster_client
  to_world :: 'w
  to_started :: nat
  to_ids :: nat
  to_history :: history
  to_clock :: ack_clock
  to_readers :: "(string \<times> replog_reader) list"

definition reader_name :: "nat \<Rightarrow> u32 \<Rightarrow> string" where
  "reader_name r part = ''reader-'' @ [char_of (97 + r)] @ ''-'' @ show_word part"

definition torture_start :: "'w network \<Rightarrow> run_config \<Rightarrow> cluster_client \<Rightarrow> 'w \<Rightarrow> 'w torture" where
  "torture_start nt cfg c w =
     \<lparr>to_client = c, to_world = w, to_started = nt_now nt w, to_ids = 0, to_history = history_new,
      to_clock = clock_new (rc_partitions cfg),
      to_readers = concat (map (\<lambda>p. map (\<lambda>r. (reader_name r (word_of_nat p), replog_reader_new (rc_topic cfg) (word_of_nat p)))
        [0..<rc_readers_per_partition cfg]) [0..<unat (rc_partitions cfg)])\<rparr>"

text \<open>
  A round of the producer of a partition: it takes the next ids, and what is acked goes into the
  history and onto the clock, which counts nanoseconds.
\<close>

definition producer_round :: "'w network \<Rightarrow> run_config \<Rightarrow> u32 \<Rightarrow> 'w torture \<Rightarrow> 'w torture option" where
  "producer_round nt cfg part st =
     (let base = to_ids st; ids = map word_of_nat [base..<base + rc_batch_records cfg]
      in case replog_produce nt (rc_value_bytes cfg) (rc_topic cfg) part ids (rc_acks cfg) (to_client st, to_world st) of
        None \<Rightarrow> None
      | Some ((c, w), acked) \<Rightarrow>
          let st = st\<lparr>to_client := c, to_world := w, to_ids := base + rc_batch_records cfg\<rparr>
          in if acked = [] then Some st
             else
               map_option (\<lambda>clock. st\<lparr>to_history := fold (\<lambda>rid. record_produced rid (rc_topic cfg)) acked (to_history st),
                                     to_clock := clock\<rparr>)
                 (clock_record ((nt_now nt w - to_started st) * 1000000) part (length acked) (to_clock st)))"

text \<open>A round of a reader: what arrived goes into the history under its name.\<close>

definition reader_round :: "'w network \<Rightarrow> nat \<Rightarrow> 'w torture \<Rightarrow> 'w torture option" where
  "reader_round nt i st =
     (let (name, rd) = to_readers st ! i
      in case reader_next nt rd (to_client st, to_world st) of
        None \<Rightarrow> None
      | Some ((c, w), rd, r) \<Rightarrow>
          let st = st\<lparr>to_client := c, to_world := w, to_readers := (to_readers st)[i := (name, rd)]\<rparr>
          in Some (case r of
               Inl _ \<Rightarrow> st
             | Inr batch \<Rightarrow>
                 st\<lparr>to_history := fold (\<lambda>(offset, rid). record_consumed name 0 (rr_topic rd) (rr_partition rd) offset rid)
                     batch (to_history st)\<rparr>))"

inductive torture_step :: "'w network \<Rightarrow> run_config \<Rightarrow> 'w torture \<Rightarrow> 'w torture \<Rightarrow> bool"
  for nt :: "'w network" and cfg :: run_config where
  produce: "part < rc_partitions cfg \<Longrightarrow> producer_round nt cfg part st = Some st' \<Longrightarrow> torture_step nt cfg st st'"
| read: "i < length (to_readers st) \<Longrightarrow> reader_round nt i st = Some st' \<Longrightarrow> torture_step nt cfg st st'"
| pause: "torture_step nt cfg st (st\<lparr>to_world := nt_sleep nt d (to_world st)\<rparr>)"

section \<open>Summary\<close>

text \<open>Acked ids that nobody has read yet: the readers drain until there is none.\<close>

definition undrained :: "history \<Rightarrow> u64 set" where
  "undrained h = produced_ids h - consumed_ids h"

record run_summary =
  sm_report :: report
  sm_readers_per_partition :: nat
  sm_health_incidents :: nat
  sm_fault_counts :: "(string, nat) btreemap"
  sm_outcomes :: "fault_outcome list"
  sm_acked_total :: nat
  sm_zero_ack_seconds :: nat
  sm_load_seconds :: nat

definition run_ok :: "run_summary \<Rightarrow> bool" where
  "run_ok s = report_is_ok (sm_report s)"

text \<open>Deliveries beyond one for each reader and id.\<close>

definition extra_duplicates :: "run_summary \<Rightarrow> nat" where
  "extra_duplicates s =
     rt_consumed_total (sm_report s) - rt_distinct_consumed (sm_report s) * sm_readers_per_partition s"

definition count_fault :: "fault \<Rightarrow> (string, nat) btreemap \<Rightarrow> (string, nat) btreemap" where
  "count_fault f m = bt_insert (fault_name f) ((case map_of m (fault_name f) of None \<Rightarrow> 0 | Some n \<Rightarrow> n) + 1) m"

text \<open>The acks of every second, and the seconds without any, from the rows of the timeline.\<close>

definition per_second :: "nat \<Rightarrow> (nat \<times> u32 \<times> nat) list \<Rightarrow> (nat, nat) btreemap" where
  "per_second load_seconds rows =
     fold (\<lambda>(s, _, a) m.
       if s \<le> load_seconds then bt_insert s ((case map_of m s of None \<Rightarrow> 0 | Some n \<Rightarrow> n) + a) m else m) rows []"

definition zero_ack_seconds :: "nat \<Rightarrow> (nat \<times> u32 \<times> nat) list \<Rightarrow> nat" where
  "zero_ack_seconds load_seconds rows = length (filter (\<lambda>(_, a). a = 0) (per_second load_seconds rows))"

text \<open>A tick of the timeline: a row for every partition, with the acks since the tick before.\<close>

definition timeline_tick ::
    "ack_clock \<Rightarrow> nat \<times> nat list \<times> (nat \<times> u32 \<times> nat) list \<Rightarrow> nat \<times> nat list \<times> (nat \<times> u32 \<times> nat) list" where
  "timeline_tick clock = (\<lambda>(sec, prev, rows).
     (sec + 1, ak_acked clock,
      rows @ map (\<lambda>p. (sec + 1, word_of_nat p, ak_acked clock ! p - prev ! p)) [0..<length (ak_acked clock)]))"

definition summarise ::
    "run_config \<Rightarrow> fault list \<Rightarrow> fault_outcome list \<Rightarrow> nat \<Rightarrow> nat \<Rightarrow> (nat \<times> u32 \<times> nat) list \<Rightarrow> 'w torture \<Rightarrow>
     run_summary option" where
  "summarise cfg injected outcomes incidents load_seconds rows st =
     map_option (\<lambda>report.
       \<lparr>sm_report = report, sm_readers_per_partition = rc_readers_per_partition cfg,
        sm_health_incidents = incidents, sm_fault_counts = fold count_fault injected [], sm_outcomes = outcomes,
        sm_acked_total = sum_list (ak_acked (to_clock st)),
        sm_zero_ack_seconds = zero_ack_seconds load_seconds rows, sm_load_seconds = load_seconds\<rparr>)
       (verify_from_start (to_history st))"

definition verify_saved :: "string \<Rightarrow> disk \<Rightarrow> (string + bool) option" where
  "verify_saved path d =
     (case history_load path d of
        Inl e \<Rightarrow> Some (Inl e)
      | Inr h \<Rightarrow> map_option (\<lambda>r. Inr (report_is_ok r)) (verify_from_start h))"

end
