(* ===== verification/TruthfulHistory.thy ===== *)
theory TruthfulHistory
  imports TortureRun CheckerProperties
begin

text \<open>
  When a history gives the checker nothing to report: an invariant of what producers and readers
  saw, relative to the ids that the logs of the partitions hold. How producers and readers keep
  it, without the brokers, is here; theory \<open>TortureProperties\<close> adds the brokers.
\<close>

section \<open>The invariant\<close>

text \<open>
  \<open>L\<close> gives the ids in the log of a partition, from offset 0 on. A consumed record shows the id at
  its place, every acked id is in some log, and every reader has recorded the offsets below its
  position, in order.
\<close>

definition seen_ok :: "string \<Rightarrow> (u32 \<Rightarrow> u64 list) \<Rightarrow> (string \<times> replog_reader) list \<Rightarrow> consumed_record \<Rightarrow> bool" where
  "seen_ok topic L readers c \<longleftrightarrow>
     hc_topic c = topic \<and> hc_generation c = 0 \<and> unat (hc_offset c) < length (L (hc_partition c)) \<and>
     hc_id c = L (hc_partition c) ! unat (hc_offset c) \<and>
     (\<exists>rd. (hc_consumer c, rd) \<in> set readers \<and> rr_partition rd = hc_partition c)"

definition reader_ok :: "string \<Rightarrow> u32 \<Rightarrow> (u32 \<Rightarrow> u64 list) \<Rightarrow> history \<Rightarrow> string \<times> replog_reader \<Rightarrow> bool" where
  "reader_ok topic n L h = (\<lambda>(name, rd).
     rr_topic rd = topic \<and> rr_partition rd < n \<and> unat (rr_position rd) \<le> length (L (rr_partition rd)) \<and>
     stream (name, 0, topic, rr_partition rd) (h_consumed h) = map word_of_nat [0..<unat (rr_position rd)])"

definition truthful ::
    "string \<Rightarrow> u32 \<Rightarrow> (u32 \<Rightarrow> u64 list) \<Rightarrow> (string \<times> replog_reader) list \<Rightarrow> history \<Rightarrow> bool" where
  "truthful topic n L readers h \<longleftrightarrow>
     distinct (map fst readers) \<and> list_all (seen_ok topic L readers) (h_consumed h) \<and>
     produced_ids h \<subseteq> (\<Union>p \<in> {p. p < n}. set (L p)) \<and> list_all (reader_ok topic n L h) readers"

text \<open>Some reader of every partition is at the end of its log.\<close>

definition all_read :: "u32 \<Rightarrow> (u32 \<Rightarrow> u64 list) \<Rightarrow> (string \<times> replog_reader) list \<Rightarrow> bool" where
  "all_read n L readers \<longleftrightarrow>
     (\<forall>p < n. \<exists>(name, rd) \<in> set readers. rr_partition rd = p \<and> unat (rr_position rd) = length (L p))"

section \<open>What the checker then finds\<close>

lemma upto_words:
  assumes "k \<le> 2 ^ 64"
  shows "sorted_wrt (<) (map (word_of_nat :: nat \<Rightarrow> u64) [0..<k])"
    and "(o' :: u64) \<in> set (map word_of_nat [0..<k]) \<longleftrightarrow> unat o' < k"
proof -
  have w: "unat (word_of_nat i :: u64) = i" if "i < k" for i
    using that assms by (simp add: unat_of_nat_len)
  show "sorted_wrt (<) (map (word_of_nat :: nat \<Rightarrow> u64) [0..<k])"
    unfolding sorted_wrt_iff_nth_less by (simp add: word_less_nat_alt w)
  show "(o' :: u64) \<in> set (map word_of_nat [0..<k]) \<longleftrightarrow> unat o' < k"
  proof
    assume "o' \<in> set (map word_of_nat [0..<k])"
    then show "unat o' < k" using w by auto
  next
    assume "unat o' < k"
    moreover have "o' = word_of_nat (unat o')" by simp
    ultimately show "o' \<in> set (map word_of_nat [0..<k])" by (auto intro!: image_eqI [of _ _ "unat o'"])
  qed
qed

lemma in_stream:
  "o' \<in> set (stream key cs) \<longleftrightarrow> (\<exists>c \<in> set cs. stream_key c = key \<and> hc_offset c = o')"
  by (auto simp: stream_def)

lemma position_bound: "unat (rr_position rd) \<le> 2 ^ 64"
proof -
  have "unat (rr_position rd) < 2 ^ LENGTH(64)" by (rule unsigned_less)
  then show ?thesis by simp
qed

text \<open>What a consumed record says about the stream it is in.\<close>

lemma truthful_stream:
  assumes t: "truthful topic n L readers h" and c: "c \<in> set (h_consumed h)"
  obtains rd where "(hc_consumer c, rd) \<in> set readers" and "rr_partition rd = hc_partition c" and "rr_topic rd = topic"
    and "stream_key c = (hc_consumer c, 0, topic, rr_partition rd)"
    and "stream (stream_key c) (h_consumed h) = map word_of_nat [0..<unat (rr_position rd)]"
proof -
  have s: "seen_ok topic L readers c" using t c by (simp add: truthful_def list_all_iff)
  then obtain rd where rd: "(hc_consumer c, rd) \<in> set readers" "rr_partition rd = hc_partition c" by (auto simp: seen_ok_def)
  then have "reader_ok topic n L h (hc_consumer c, rd)" using t by (simp add: truthful_def list_all_iff)
  moreover have "stream_key c = (hc_consumer c, 0, topic, rr_partition rd)"
    using s rd by (simp add: seen_ok_def stream_key_def)
  ultimately show thesis using rd by (intro that) (auto simp: reader_ok_def)
qed

lemma truthful_ascends:
  assumes t: "truthful topic n L readers h"
  shows "streams_ascend h"
  unfolding streams_ascend_def
proof
  fix key
  show "sorted_wrt (<) (stream key (h_consumed h))"
  proof (cases "stream key (h_consumed h)")
    case (Cons o' os)
    then have "o' \<in> set (stream key (h_consumed h))" by simp
    then obtain c where c: "c \<in> set (h_consumed h)" "stream_key c = key" by (auto simp: in_stream)
    from truthful_stream [OF t c(1)] show ?thesis
      unfolding c(2) using upto_words(1) [OF position_bound] by metis
  qed simp
qed

lemma truthful_one_truth:
  assumes "truthful topic n L readers h"
  shows "one_truth h"
  using assms by (simp add: truthful_def one_truth_def list_all_iff seen_ok_def place_key_def)

lemma truthful_gap_free:
  assumes t: "truthful topic n L readers h"
  shows "gap_free h"
  unfolding gap_free_def
proof (intro ballI allI impI)
  fix c o' assume c: "c \<in> set (h_consumed h)" and le: "o' \<le> hc_offset c"
  obtain rd where "(hc_consumer c, rd) \<in> set readers" and "rr_partition rd = hc_partition c" and "rr_topic rd = topic"
    and "stream_key c = (hc_consumer c, 0, topic, rr_partition rd)"
    and rd: "stream (stream_key c) (h_consumed h) = map word_of_nat [0..<unat (rr_position rd)]"
    using truthful_stream [OF t c] .
  have "hc_offset c \<in> set (stream (stream_key c) (h_consumed h))" using c by (auto simp: in_stream)
  then have "unat (hc_offset c) < unat (rr_position rd)" by (simp only: rd upto_words(2) [OF position_bound])
  then have "unat o' < unat (rr_position rd)" using le by (simp add: word_le_nat_alt)
  then have "o' \<in> set (stream (stream_key c) (h_consumed h))" by (simp only: rd upto_words(2) [OF position_bound])
  then obtain d where "d \<in> set (h_consumed h)" "stream_key d = stream_key c" "hc_offset d = o'" by (auto simp: in_stream)
  then show "(hc_topic c, hc_partition c, o') \<in> place_key ` set (h_consumed h)"
    by (intro image_eqI [of _ _ d]) (simp_all add: place_key_def stream_key_def)
qed

lemma truthful_at_least_once:
  assumes t: "truthful topic n L readers h" and all: "all_read n L readers"
    and len: "\<And>p. p < n \<Longrightarrow> length (L p) < 2 ^ 64"
  shows "at_least_once h"
  unfolding at_least_once_def
proof
  fix rid assume "rid \<in> produced_ids h"
  moreover have "produced_ids h \<subseteq> (\<Union>p \<in> {p. p < n}. set (L p))" using t by (simp add: truthful_def)
  ultimately have "rid \<in> (\<Union>p \<in> {p. p < n}. set (L p))" by blast
  then obtain p i where p: "p < n" "i < length (L p)" "L p ! i = rid" by (auto simp: in_set_conv_nth)
  obtain name rd where rd: "(name, rd) \<in> set readers" "rr_partition rd = p" "unat (rr_position rd) = length (L p)"
    using all p(1) by (auto simp: all_read_def)
  have i: "unat (word_of_nat i :: u64) = i" using p(2) len [OF p(1)] by (simp add: unat_of_nat_len)
  have "reader_ok topic n L h (name, rd)" using t rd(1) by (simp add: truthful_def list_all_iff)
  then have "stream (name, 0, topic, p) (h_consumed h) = map word_of_nat [0..<unat (rr_position rd)]"
    by (simp add: reader_ok_def rd(2))
  moreover have "(word_of_nat i :: u64) \<in> set (map word_of_nat [0..<unat (rr_position rd)])"
    unfolding upto_words(2) [OF position_bound] i using p(2) rd(3) by simp
  ultimately have "word_of_nat i \<in> set (stream (name, 0, topic, p) (h_consumed h))" by (simp only:)
  then obtain c where c: "c \<in> set (h_consumed h)" "stream_key c = (name, 0, topic, p)" "hc_offset c = word_of_nat i"
    by (auto simp: in_stream)
  then have "seen_ok topic L readers c" using t by (simp add: truthful_def list_all_iff)
  then have "hc_id c = rid" using c i p(3) by (simp add: seen_ok_def stream_key_def)
  then show "rid \<in> consumed_ids h" using c(1) by (auto simp: consumed_ids_def)
qed

section \<open>Producers and readers keep it\<close>

lemma truthful_start:
  assumes "distinct (map fst readers)" and "list_all (\<lambda>(_, rd). rr_topic rd = topic \<and> rr_partition rd < n \<and> rr_position rd = 0) readers"
  shows "truthful topic n L readers history_new"
proof -
  have "reader_ok topic n L history_new e" if "e \<in> set readers" for e
    using assms(2) that by (auto simp: list_all_iff reader_ok_def stream_def history_new_def)
  then show ?thesis using assms(1) by (simp add: truthful_def history_new_def produced_ids_def list_all_iff)
qed

lemma fold_produced:
  "produced_ids (fold (\<lambda>rid. record_produced rid topic) ids h) = produced_ids h \<union> set ids \<and>
   h_consumed (fold (\<lambda>rid. record_produced rid topic) ids h) = h_consumed h"
  by (induction ids arbitrary: h) (auto simp: record_produced_def produced_ids_def)

text \<open>The logs grow, and ids that are in them are acked.\<close>

lemma truthful_produce:
  assumes t: "truthful topic n L readers h" and grow: "\<And>q. \<exists>xs. L' q = L q @ xs"
    and acked: "set ids \<subseteq> (\<Union>p \<in> {p. p < n}. set (L' p))"
  shows "truthful topic n L' readers (fold (\<lambda>rid. record_produced rid topic') ids h)"
proof -
  have nth: "length (L q) \<le> length (L' q)" "i < length (L q) \<Longrightarrow> L' q ! i = L q ! i" "set (L q) \<subseteq> set (L' q)" for q i
    using grow [of q] by (auto simp: nth_append)
  have "seen_ok topic L' readers c" if "seen_ok topic L readers c" for c
    using that nth(2) less_le_trans [OF _ nth(1) [of "hc_partition c"]] by (simp add: seen_ok_def)
  moreover have "reader_ok topic n L' h e" if "reader_ok topic n L h e" for e
    using that le_trans [OF _ nth(1)] by (cases e) (simp add: reader_ok_def)
  moreover have "produced_ids h \<subseteq> (\<Union>p \<in> {p. p < n}. set (L' p))" using t nth(3) unfolding truthful_def by blast
  moreover have "reader_ok topic n L' (fold (\<lambda>rid. record_produced rid topic') ids h) = reader_ok topic n L' h"
    using fold_produced [of topic' ids h] by (simp add: reader_ok_def fun_eq_iff)
  ultimately show ?thesis
    using t acked fold_produced [of topic' ids h] by (auto simp: truthful_def list_all_iff)
qed

definition consumed_of :: "string \<Rightarrow> string \<Rightarrow> u32 \<Rightarrow> u64 \<times> u64 \<Rightarrow> consumed_record" where
  "consumed_of name topic p = (\<lambda>(offset, rid). \<lparr>hc_consumer = name, hc_generation = 0, hc_topic = topic,
     hc_partition = p, hc_offset = offset, hc_id = rid\<rparr>)"

lemma fold_consumed:
  "fold (\<lambda>(offset, rid). record_consumed name 0 topic p offset rid) batch h =
     h\<lparr>h_consumed := h_consumed h @ map (consumed_of name topic p) batch\<rparr>"
  by (induction batch arbitrary: h) (auto simp: record_consumed_def consumed_of_def)

lemma stream_append: "stream key (cs @ ds) = stream key cs @ stream key ds"
  by (simp add: stream_def)

lemma stream_batch:
  "stream key (map (consumed_of name topic p) batch) = (if key = (name, 0, topic, p) then map fst batch else [])"
proof -
  have k: "stream_key (consumed_of name topic p e) = (name, 0, topic, p)" "hc_offset (consumed_of name topic p e) = fst e" for e
    by (auto simp: consumed_of_def stream_key_def split: prod.split)
  show ?thesis by (induction batch) (auto simp: stream_def k)
qed

text \<open>A reader takes the ids from its position on.\<close>

lemma truthful_read:
  assumes t: "truthful topic n L readers h" and i: "i < length readers" "readers ! i = (name, rd)"
    and ids: "unat (rr_position rd) + length ids \<le> length (L (rr_partition rd))"
      "ids = take (length ids) (drop (unat (rr_position rd)) (L (rr_partition rd)))"
    and len: "length (L (rr_partition rd)) < 2 ^ 64"
  defines "batch \<equiv> zip (map word_of_nat [unat (rr_position rd)..<unat (rr_position rd) + length ids]) ids"
  shows "truthful topic n L (readers[i := (name, rd\<lparr>rr_position := word_of_nat (unat (rr_position rd) + length ids)\<rparr>)])
    (fold (\<lambda>(offset, rid). record_consumed name 0 topic (rr_partition rd) offset rid) batch h)"
proof -
  let ?p = "rr_partition rd" and ?k = "unat (rr_position rd)" and ?m = "length ids"
  let ?rd = "rd\<lparr>rr_position := word_of_nat (?k + ?m)\<rparr>"
  let ?rs = "readers[i := (name, ?rd)]" and ?cs = "h_consumed h @ map (consumed_of name topic ?p) batch"
  have pos: "unat (word_of_nat (?k + ?m) :: u64) = ?k + ?m"
    by (rule unat_of_nat_len) (use ids(1) len in simp)
  have names: "map fst ?rs = map fst readers" using i by (simp add: map_update list_update_same_conv)
  have dist: "distinct (map fst readers)" using t by (simp add: truthful_def)
  have old: "reader_ok topic n L h e" if "e \<in> set readers" for e using t that by (simp add: truthful_def list_all_iff)
  have mem: "(name, rd) \<in> set readers" using i by (metis nth_mem)
  have swap: "\<exists>rd''. (nm, rd'') \<in> set ?rs \<and> rr_partition rd'' = q"
    if e: "(nm, rd') \<in> set readers" and q: "rr_partition rd' = q" for nm rd' q
  proof -
    obtain j where j: "j < length readers" "readers ! j = (nm, rd')" using e by (metis in_set_conv_nth)
    have "?rs ! j = (nm, if j = i then ?rd else rd')" using i j by auto
    then have "(nm, if j = i then ?rd else rd') \<in> set ?rs" using j by (metis length_list_update nth_mem)
    moreover have "rr_partition (if j = i then ?rd else rd') = q" using i j q by auto
    ultimately show ?thesis by blast
  qed
  have seen: "seen_ok topic L ?rs c" if cs: "c \<in> set ?cs" for c
  proof (cases "c \<in> set (h_consumed h)")
    case True
    then have "seen_ok topic L readers c" using t by (simp add: truthful_def list_all_iff)
    then show ?thesis using swap unfolding seen_ok_def by blast
  next
    case False
    then obtain e where "e \<in> set batch" "c = consumed_of name topic ?p e" using cs by auto
    then obtain j where j: "j < ?m" and c: "c = consumed_of name topic ?p (word_of_nat (?k + j), ids ! j)"
      by (auto simp: batch_def in_set_zip simp del: of_nat_add)
    have o': "unat (word_of_nat (?k + j) :: u64) = ?k + j"
      by (rule unat_of_nat_len) (use j ids(1) len in simp)
    have "ids ! j = L ?p ! (?k + j)" using j ids by (metis nth_take nth_drop add_leE)
    then show ?thesis using c j ids(1) o' swap [OF mem] by (simp add: seen_ok_def consumed_of_def)
  qed
  have reader: "reader_ok topic n L (h\<lparr>h_consumed := ?cs\<rparr>) e" if mem_e: "e \<in> set ?rs" for e
  proof -
    obtain j where j: "j < length readers" "e = ?rs ! j" using mem_e by (auto simp: in_set_conv_nth)
    show ?thesis
    proof (cases "j = i")
      case True
      have b: "map fst batch = map word_of_nat [?k..<?k + ?m]" by (simp add: batch_def)
      have up: "[0..<?k + ?m] = [0..<?k] @ [?k..<?k + ?m]" by (rule upt_add_eq_append) simp
      have "stream (name, 0, topic, ?p) ?cs = map word_of_nat [0..<?k + ?m]"
        using old [OF mem] unfolding stream_append stream_batch up map_append b by (simp add: reader_ok_def)
      then show ?thesis using old [OF mem] True j i ids(1) pos by (simp add: reader_ok_def)
    next
      case False
      obtain nm rd' where e: "readers ! j = (nm, rd')" by fastforce
      have "nm \<noteq> name" using False dist i j e by (metis fst_conv length_map nth_eq_iff_index_eq nth_map)
      then have "stream (nm, 0, topic, rr_partition rd') ?cs = stream (nm, 0, topic, rr_partition rd') (h_consumed h)"
        by (simp add: stream_append stream_batch)
      moreover have "reader_ok topic n L h (nm, rd')" using old e j by (metis nth_mem)
      ultimately show ?thesis using j False e by (simp add: reader_ok_def)
    qed
  qed
  show ?thesis
    unfolding fold_consumed truthful_def
    using t seen reader names dist by (simp add: list_all_iff truthful_def produced_ids_def)
qed

end
