(* ===== verification/FaultCampaign.thy ===== *)
theory FaultCampaign
  imports TortureRun Machines
begin

text \<open>
  The fault schedule of \<^verbatim>\<open>src/src/torture/schedule.rs\<close>: what is drawn, and the main task of \<open>run\<close> as
  a state machine, from one fault to the next, to the last wait for health and the drain. What the
  other tasks do to the ack clock, the watch and the history happens between its steps. Instants
  are nanoseconds since the start of the run.
\<close>

section \<open>The schedule\<close>

lemma draw_between_in:
  assumes "draw_between lo hi r = Some (x, r')"
  shows "(lo \<le> x \<and> x < hi) \<or> (hi \<le> lo \<and> x = lo)"
  using assms rng_range_in [of lo hi r x r'] by (auto simp: draw_between_def split: if_splits)

lemma draw_between_total: "\<exists>x r'. draw_between lo hi r = Some (x, r')"
  by (auto simp: draw_between_def rng_range_def split: prod.split)

definition within :: "u64 \<Rightarrow> u64 \<Rightarrow> u64 \<Rightarrow> bool" where
  "within lo hi x \<longleftrightarrow> (lo \<le> x \<and> x < hi) \<or> (hi \<le> lo \<and> x = lo)"

definition draw_ok :: "run_config \<Rightarrow> nat \<Rightarrow> fault_draw \<Rightarrow> bool" where
  "draw_ok cfg n d \<longleftrightarrow>
     within (rc_min_gap_ms cfg) (rc_max_gap_ms cfg) (fd_gap_ms d) \<and> fd_victim d < n \<and>
     within (rc_min_heal_ms cfg) (rc_max_heal_ms cfg) (fd_heal_ms d) \<and> fd_fault d \<in> set (rc_faults cfg)"

lemma draw_rest_in:
  assumes "draw_rest cfg n gap r = Some (d, r')" and "n < 2 ^ 64" and "length (rc_faults cfg) < 2 ^ 64"
  shows "fd_gap_ms d = gap" and "fd_victim d < n" and "within (rc_min_heal_ms cfg) (rc_max_heal_ms cfg) (fd_heal_ms d)"
    and "fd_fault d \<in> set (rc_faults cfg)"
proof -
  obtain victim r1 heal_ms r2 f where 1: "rng_range 0 (word_of_nat n) r = Some (victim, r1)"
    and 2: "draw_between (rc_min_heal_ms cfg) (rc_max_heal_ms cfg) r1 = Some (heal_ms, r2)"
    and 3: "pick (rc_faults cfg) r2 = Some (f, r')"
    and d: "d = \<lparr>fd_gap_ms = gap, fd_victim = unat victim, fd_heal_ms = heal_ms, fd_fault = f\<rparr>"
    using assms(1) by (auto simp: draw_rest_def split: bind_splits)
  show "fd_gap_ms d = gap" by (simp add: d)
  show "fd_victim d < n" using rng_range_in [OF 1] assms(2) by (simp add: d word_less_nat_alt unat_of_nat_len)
  show "within (rc_min_heal_ms cfg) (rc_max_heal_ms cfg) (fd_heal_ms d)"
    using draw_between_in [OF 2] by (simp add: d within_def)
  show "fd_fault d \<in> set (rc_faults cfg)" using pick_in [OF 3 assms(3)] by (simp add: d)
qed

lemma draw_rest_total:
  assumes "0 < n" and "n < 2 ^ 64" and "rc_faults cfg \<noteq> []" and "length (rc_faults cfg) < 2 ^ 64"
  shows "\<exists>d r'. draw_rest cfg n gap r = Some (d, r')"
proof -
  obtain victim r1 where 1: "rng_range 0 (word_of_nat n) r = Some (victim, r1)"
    using assms(1,2) by (cases "next_u64 r") (auto simp: rng_range_def word_less_nat_alt unat_of_nat_len)
  obtain heal_ms r2 where 2: "draw_between (rc_min_heal_ms cfg) (rc_max_heal_ms cfg) r1 = Some (heal_ms, r2)"
    using draw_between_total by blast
  obtain f r3 where 3: "pick (rc_faults cfg) r2 = Some (f, r3)"
    using pick_panics_iff [OF assms(4), of r2] assms(3) by fastforce
  show ?thesis by (simp add: draw_rest_def 1 2 3)
qed

lemma draw_fault_ok:
  assumes "0 < n" and "n < 2 ^ 64" and "rc_faults cfg \<noteq> []" and "length (rc_faults cfg) < 2 ^ 64"
  obtains d r' where "draw_fault cfg n r = Some (d, r')" and "draw_ok cfg n d"
proof -
  obtain gap r1 where 1: "draw_between (rc_min_gap_ms cfg) (rc_max_gap_ms cfg) r = Some (gap, r1)"
    using draw_between_total by blast
  obtain d r2 where 2: "draw_rest cfg n gap r1 = Some (d, r2)" using draw_rest_total [OF assms] by blast
  have "draw_ok cfg n d" using draw_rest_in [OF 2 assms(2,4)] draw_between_in [OF 1] by (simp add: draw_ok_def within_def)
  then show thesis by (intro that [of _ r2]) (simp_all add: draw_fault_def 1 2)
qed

text \<open>
  C40. The schedule of a run is determined by its configuration and its seed, and drawing it never
  panics when there is a broker and a fault to choose from: it has as many rounds as asked for,
  every victim is a broker, every fault is one of those configured, and every gap and heal delay
  lies between its bounds, or is the lower one when they leave no room.
\<close>

theorem schedule_draws_in_bounds:
  assumes "0 < n" and "n < 2 ^ 64" and "rc_faults cfg \<noteq> []" and "length (rc_faults cfg) < 2 ^ 64"
  shows "\<exists>ds. draw_schedule cfg n k r = Some ds \<and> length ds = k \<and> list_all (draw_ok cfg n) ds"
proof (induction k arbitrary: r)
  case (Suc k)
  obtain d r' where d: "draw_fault cfg n r = Some (d, r')" "draw_ok cfg n d" using assms by (rule draw_fault_ok)
  obtain ds where "draw_schedule cfg n k r' = Some ds" "length ds = k" "list_all (draw_ok cfg n) ds"
    using Suc.IH by blast
  then show ?case using d by simp
qed simp

definition sample_run :: run_config where
  "sample_run =
     \<lparr>rc_topic = ''t'', rc_partitions = 3, rc_replication = 3, rc_seed = 42, rc_duration_secs = 60,
      rc_faults = [Kill, Pause, Isolate], rc_acks = AllAcks, rc_batch_records = 2, rc_pace_ms = 10,
      rc_value_bytes = 16, rc_min_gap_ms = 2000, rc_max_gap_ms = 5000, rc_min_heal_ms = 1500,
      rc_max_heal_ms = 1500, rc_detect_ms = 3000, rc_readers_per_partition = 1\<rparr>"

lemma schedule_draws_in_bounds_witness:
  "\<exists>ds. draw_schedule sample_run 3 5 (splitmix_new 42) = Some ds \<and> length ds = 5 \<and> list_all (draw_ok sample_run 3) ds"
  by (rule schedule_draws_in_bounds) (simp_all add: sample_run_def)

section \<open>The main task\<close>

text \<open>What the main task reads and writes of the other tasks, and the instant.\<close>

record 'w surroundings =
  ob_now :: "'w \<Rightarrow> nat"
  ob_clock :: "'w \<Rightarrow> ack_clock"
  ob_reset :: "u32 \<Rightarrow> 'w \<Rightarrow> 'w"
  ob_watch :: "'w \<Rightarrow> leader_state"
  ob_history :: "'w \<Rightarrow> history"

text \<open>
  A fault that is being observed: what was drawn, the roles, the instants at which the fault was
  issued and had taken effect, the first ack found for each partition so far, and the result of
  the heal, with its instant.
\<close>

record 'e window =
  wi_draw :: fault_draw
  wi_roles :: "string list"
  wi_issued :: nat
  wi_t0 :: nat
  wi_acks :: "nat option list"
  wi_healed :: "('e + nat) option"

datatype 'e phase =
    Between
  | Gap u64 nat
  | Window "'e window"
  | Resume "'e window" nat nat
  | Settling
  | Draining nat nat
  | Over nat
  | Failed 'e
  | Panicked

text \<open>The commands that were issued, with their instants, and the successful waits for health.\<close>

datatype event = Faulted nat fault nat | Healed nat fault nat | Healthy nat

record ('w, 'e) campaign =
  ca_world :: 'w
  ca_rng :: splitmix64
  ca_phase :: "'e phase"
  ca_outcomes :: "fault_outcome list"
  ca_counts :: "(string, nat) btreemap"
  ca_incidents :: nat
  ca_trace :: "event list"

definition campaign_start :: "run_config \<Rightarrow> 'w \<Rightarrow> ('w, 'e) campaign" where
  "campaign_start cfg w =
     \<lparr>ca_world = w, ca_rng = splitmix_new (rc_seed cfg), ca_phase = Between, ca_outcomes = [], ca_counts = [],
      ca_incidents = 0, ca_trace = []\<rparr>"

definition ms :: "u64 \<Rightarrow> nat" where
  "ms d = unat d * 1000000"

definition run_deadline :: "run_config \<Rightarrow> nat" where
  "run_deadline cfg = unat (rc_duration_secs cfg) * 1000000000"

definition observe_budget :: "run_config \<Rightarrow> nat" where
  "observe_budget cfg = max (5 * unat (rc_detect_ms cfg)) 15000 * 1000000"

text \<open>
  A look of \<open>first_ack_after\<close>: an ack stamped after the instant, or nothing by the deadline.
  \<open>None\<close> while it goes on.
\<close>

definition ack_look :: "'w surroundings \<Rightarrow> u32 \<Rightarrow> nat \<Rightarrow> nat \<Rightarrow> 'w \<Rightarrow> nat option option" where
  "ack_look ob part t0 deadline w =
     (case clock_last_ack part (ob_clock ob w) of
        Some (Some t) \<Rightarrow> if t0 < t then Some (Some t) else if deadline \<le> ob_now ob w then Some None else None
      | _ \<Rightarrow> if deadline \<le> ob_now ob w then Some None else None)"

definition inject ::
    "('w, 'e) fault_target \<Rightarrow> 'w surroundings \<Rightarrow> run_config \<Rightarrow> fault_draw \<Rightarrow> splitmix64 \<Rightarrow> ('w, 'e) campaign \<Rightarrow> ('w, 'e) campaign" where
  "inject tg ob cfg d r c =
     (let w = ca_world c;
          roles = roles (fd_victim d) (ls_current (ob_watch ob w));
          w = fold (\<lambda>p. ob_reset ob (word_of_nat p)) [0..<unat (rc_partitions cfg)] w;
          (w', res) = ft_fault tg (fd_victim d) (fd_fault d) w
      in c\<lparr>ca_world := w', ca_rng := r, ca_counts := count_fault (fd_fault d) (ca_counts c),
           ca_trace := ca_trace c @ [Faulted (fd_victim d) (fd_fault d) (ob_now ob w')],
           ca_phase := (case res of
              Inl e \<Rightarrow> Failed e
            | Inr _ \<Rightarrow> Window \<lparr>wi_draw = d, wi_roles = roles, wi_issued = ob_now ob w, wi_t0 = ob_now ob w',
                               wi_acks = [], wi_healed = None\<rparr>)\<rparr>)"

definition heal_fault :: "('w, 'e) fault_target \<Rightarrow> 'w surroundings \<Rightarrow> 'e window \<Rightarrow> ('w, 'e) campaign \<Rightarrow> ('w, 'e) campaign" where
  "heal_fault tg ob wi c =
     (let d = wi_draw wi; w = ca_world c; (w', res) = ft_heal tg (fd_victim d) (fd_fault d) w
      in c\<lparr>ca_world := w',
           ca_trace := ca_trace c @ [Healed (fd_victim d) (fd_fault d) (ob_now ob w)],
           ca_phase := Window (wi\<lparr>wi_healed := Some (case res of Inl e \<Rightarrow> Inl e | Inr _ \<Rightarrow> Inr (ob_now ob w'))\<rparr>)\<rparr>)"

text \<open>The rows of a fault, one for each partition.\<close>

definition window_rows :: "run_config \<Rightarrow> 'e window \<Rightarrow> nat option list \<Rightarrow> leader_state \<Rightarrow> fault_outcome list" where
  "window_rows cfg wi max_gaps watch =
     map (\<lambda>p. outcome_row (wi_draw wi) (word_of_nat p) (wi_roles wi ! p) 0 (wi_issued wi) (wi_t0 wi)
         (first_new_leader_after (wi_t0 wi) (word_of_nat p) (fd_victim (wi_draw wi)) watch) (wi_acks wi ! p) (max_gaps ! p))
       [0..<unat (rc_partitions cfg)]"

definition max_gaps :: "'w surroundings \<Rightarrow> run_config \<Rightarrow> 'w \<Rightarrow> nat option list option" where
  "max_gaps ob cfg w =
     those (map (\<lambda>p. clock_max_gap (ob_now ob w) (word_of_nat p) (ob_clock ob w)) [0..<unat (rc_partitions cfg)])"

text \<open>The end of a window: the wait for health, the rows, and the next fault, unless the wait failed.\<close>

definition close_window ::
    "('w, 'e) fault_target \<Rightarrow> 'w surroundings \<Rightarrow> run_config \<Rightarrow> 'e window \<Rightarrow> ('w, 'e) campaign \<Rightarrow> ('w, 'e) campaign option" where
  "close_window tg ob cfg wi c =
     (case max_gaps ob cfg (ca_world c) of
        None \<Rightarrow> Some (c\<lparr>ca_phase := Panicked\<rparr>)
      | Some gaps \<Rightarrow>
          (case wait_fully_healthy tg (rc_topic cfg) (rc_partitions cfg) 120000 (ca_world c) of
             None \<Rightarrow> None
           | Some (w, res) \<Rightarrow>
               let c = c\<lparr>ca_world := w, ca_outcomes := ca_outcomes c @ window_rows cfg wi gaps (ob_watch ob w)\<rparr>
               in Some (case res of
                    Inr _ \<Rightarrow> c\<lparr>ca_phase := Between, ca_trace := ca_trace c @ [Healthy (ob_now ob w)]\<rparr>
                  | Inl _ \<Rightarrow> c\<lparr>ca_phase := Settling, ca_incidents := ca_incidents c + 1\<rparr>)))"

definition settle ::
    "('w, 'e) fault_target \<Rightarrow> 'w surroundings \<Rightarrow> run_config \<Rightarrow> ('w, 'e) campaign \<Rightarrow> ('w, 'e) campaign option" where
  "settle tg ob cfg c =
     map_option (\<lambda>(w, res).
       c\<lparr>ca_world := w, ca_phase := Draining (ob_now ob w div 1000000000) (ob_now ob w + 90 * 1000000000),
         ca_incidents := (case res of Inr _ \<Rightarrow> ca_incidents c | Inl _ \<Rightarrow> ca_incidents c + 1)\<rparr>)
       (wait_fully_healthy tg (rc_topic cfg) (rc_partitions cfg) 120000 (ca_world c))"

text \<open>
  The steps. The drain ends when nothing acked is unread, or at its deadline of 90 seconds; a wait
  that does not return is no step.
\<close>

inductive campaign_step ::
    "('w, 'e) fault_target \<Rightarrow> 'w surroundings \<Rightarrow> run_config \<Rightarrow> ('w, 'e) campaign \<Rightarrow> ('w, 'e) campaign \<Rightarrow> bool"
  for tg :: "('w, 'e) fault_target" and ob :: "'w surroundings" and cfg :: run_config where
  others: "campaign_step tg ob cfg c (c\<lparr>ca_world := w\<rparr>)"
| stop: "ca_phase c = Between \<Longrightarrow> run_deadline cfg \<le> ob_now ob (ca_world c) \<Longrightarrow>
    campaign_step tg ob cfg c (c\<lparr>ca_phase := Settling\<rparr>)"
| gap: "ca_phase c = Between \<Longrightarrow> ob_now ob (ca_world c) < run_deadline cfg \<Longrightarrow> rc_faults cfg \<noteq> [] \<Longrightarrow>
    draw_between (rc_min_gap_ms cfg) (rc_max_gap_ms cfg) (ca_rng c) = Some (g, r) \<Longrightarrow>
    campaign_step tg ob cfg c (c\<lparr>ca_rng := r, ca_phase := Gap g (ob_now ob (ca_world c) + ms g)\<rparr>)"
| late: "ca_phase c = Gap g until \<Longrightarrow> until \<le> ob_now ob (ca_world c) \<Longrightarrow> run_deadline cfg \<le> ob_now ob (ca_world c) \<Longrightarrow>
    campaign_step tg ob cfg c (c\<lparr>ca_phase := Settling\<rparr>)"
| inject: "ca_phase c = Gap g until \<Longrightarrow> until \<le> ob_now ob (ca_world c) \<Longrightarrow> ob_now ob (ca_world c) < run_deadline cfg \<Longrightarrow>
    draw_rest cfg (ft_brokers tg) g (ca_rng c) = Some (d, r) \<Longrightarrow> campaign_step tg ob cfg c (inject tg ob cfg d r c)"
| no_draw: "ca_phase c = Gap g until \<Longrightarrow> until \<le> ob_now ob (ca_world c) \<Longrightarrow> ob_now ob (ca_world c) < run_deadline cfg \<Longrightarrow>
    draw_rest cfg (ft_brokers tg) g (ca_rng c) = None \<Longrightarrow> campaign_step tg ob cfg c (c\<lparr>ca_phase := Panicked\<rparr>)"
| observe: "ca_phase c = Window wi \<Longrightarrow> length (wi_acks wi) < unat (rc_partitions cfg) \<Longrightarrow>
    ack_look ob (word_of_nat (length (wi_acks wi))) (wi_t0 wi)
      (wi_t0 wi + ms (fd_heal_ms (wi_draw wi)) + observe_budget cfg) (ca_world c) = Some a \<Longrightarrow>
    campaign_step tg ob cfg c (c\<lparr>ca_phase := Window (wi\<lparr>wi_acks := wi_acks wi @ [a]\<rparr>)\<rparr>)"
| heal: "ca_phase c = Window wi \<Longrightarrow> wi_healed wi = None \<Longrightarrow>
    wi_t0 wi + ms (fd_heal_ms (wi_draw wi)) \<le> ob_now ob (ca_world c) \<Longrightarrow>
    campaign_step tg ob cfg c (heal_fault tg ob wi c)"
| heal_failed: "ca_phase c = Window wi \<Longrightarrow> length (wi_acks wi) = unat (rc_partitions cfg) \<Longrightarrow> wi_healed wi = Some (Inl e) \<Longrightarrow>
    campaign_step tg ob cfg c (c\<lparr>ca_phase := Failed e\<rparr>)"
| joined: "ca_phase c = Window wi \<Longrightarrow> length (wi_acks wi) = unat (rc_partitions cfg) \<Longrightarrow> wi_healed wi = Some (Inr t) \<Longrightarrow>
    campaign_step tg ob cfg c (c\<lparr>ca_phase := Resume wi t 0\<rparr>)"
| resume: "ca_phase c = Resume wi t p \<Longrightarrow> p < unat (rc_partitions cfg) \<Longrightarrow>
    ack_look ob (word_of_nat p) t (t + observe_budget cfg) (ca_world c) = Some a \<Longrightarrow>
    campaign_step tg ob cfg c (c\<lparr>ca_phase := Resume wi t (p + 1)\<rparr>)"
| close_up: "ca_phase c = Resume wi t p \<Longrightarrow> unat (rc_partitions cfg) \<le> p \<Longrightarrow> close_window tg ob cfg wi c = Some c' \<Longrightarrow>
    campaign_step tg ob cfg c c'"
| settle: "ca_phase c = Settling \<Longrightarrow> settle tg ob cfg c = Some c' \<Longrightarrow> campaign_step tg ob cfg c c'"
| drained: "ca_phase c = Draining load_seconds until \<Longrightarrow>
    undrained (ob_history ob (ca_world c)) = {} \<or> until \<le> ob_now ob (ca_world c) \<Longrightarrow>
    campaign_step tg ob cfg c (c\<lparr>ca_phase := Over load_seconds\<rparr>)"

section \<open>One fault at a time\<close>

text \<open>A round in the trace: the fault, its heal and the health after it.\<close>

datatype round = Round (ro_victim: nat) (ro_fault: fault) (ro_t0: nat) (ro_healed: nat) (ro_healthy: nat)

fun round_events :: "round \<Rightarrow> event list" where
  "round_events (Round v f t0 t1 t2) = [Faulted v f t0, Healed v f t1, Healthy t2]"

text \<open>A fault as the configuration has it, and its heal after its delay.\<close>

definition fault_ok :: "run_config \<Rightarrow> nat \<Rightarrow> nat \<Rightarrow> fault \<Rightarrow> bool" where
  "fault_ok cfg n v f \<longleftrightarrow> v < n \<and> f \<in> set (rc_faults cfg)"

definition round_ok :: "run_config \<Rightarrow> nat \<Rightarrow> round \<Rightarrow> bool" where
  "round_ok cfg n r \<longleftrightarrow> fault_ok cfg n (ro_victim r) (ro_fault r) \<and> ro_t0 r + ms (rc_min_heal_ms cfg) \<le> ro_healed r"

text \<open>The events of a round that is not over, by phase.\<close>

definition window_ok :: "run_config \<Rightarrow> nat \<Rightarrow> 'e window \<Rightarrow> event list \<Rightarrow> bool" where
  "window_ok cfg n wi evs \<longleftrightarrow>
     (let d = wi_draw wi
      in fault_ok cfg n (fd_victim d) (fd_fault d) \<and> rc_min_heal_ms cfg \<le> fd_heal_ms d \<and>
         (case wi_healed wi of
            None \<Rightarrow> evs = [Faulted (fd_victim d) (fd_fault d) (wi_t0 wi)]
          | Some _ \<Rightarrow> (\<exists>t1 \<ge> wi_t0 wi + ms (fd_heal_ms d).
               evs = [Faulted (fd_victim d) (fd_fault d) (wi_t0 wi), Healed (fd_victim d) (fd_fault d) t1])))"

definition open_round :: "run_config \<Rightarrow> nat \<Rightarrow> event list \<Rightarrow> bool" where
  "open_round cfg n evs \<longleftrightarrow>
     (\<exists>v f t0. fault_ok cfg n v f \<and>
        (evs = [Faulted v f t0] \<or> (\<exists>t1 \<ge> t0 + ms (rc_min_heal_ms cfg). evs = [Faulted v f t0, Healed v f t1])))"

fun tail_ok :: "run_config \<Rightarrow> nat \<Rightarrow> nat \<Rightarrow> 'e phase \<Rightarrow> event list \<Rightarrow> bool" where
  "tail_ok cfg n incidents Between evs \<longleftrightarrow> evs = []"
| "tail_ok cfg n incidents (Gap _ _) evs \<longleftrightarrow> evs = []"
| "tail_ok cfg n incidents (Window wi) evs \<longleftrightarrow> window_ok cfg n wi evs"
| "tail_ok cfg n incidents (Resume wi _ _) evs \<longleftrightarrow> wi_healed wi \<noteq> None \<and> window_ok cfg n wi evs"
| "tail_ok cfg n incidents (Failed _) evs \<longleftrightarrow> open_round cfg n evs"
| "tail_ok cfg n incidents Panicked evs \<longleftrightarrow> evs = [] \<or> open_round cfg n evs"
| "tail_ok cfg n incidents _ evs \<longleftrightarrow> evs = [] \<or> (0 < incidents \<and> open_round cfg n evs)"

definition campaign_ok :: "run_config \<Rightarrow> nat \<Rightarrow> ('w, 'e) campaign \<Rightarrow> bool" where
  "campaign_ok cfg n c \<longleftrightarrow>
     (\<exists>rounds evs. ca_trace c = concat (map round_events rounds) @ evs \<and> list_all (round_ok cfg n) rounds \<and>
        tail_ok cfg n (ca_incidents c) (ca_phase c) evs)"

lemma ms_mono: "d \<le> d' \<Longrightarrow> ms d \<le> ms d'"
  by (simp add: ms_def word_le_nat_alt)

lemma window_open: "window_ok cfg n wi evs \<Longrightarrow> open_round cfg n evs"
  using ms_mono [of "rc_min_heal_ms cfg" "fd_heal_ms (wi_draw wi)"]
  by (fastforce simp: window_ok_def open_round_def Let_def split: option.splits)

lemma window_ok_acks [simp]: "window_ok cfg n (wi\<lparr>wi_acks := as\<rparr>) evs = window_ok cfg n wi evs"
  by (cases "wi_healed wi") (simp_all add: window_ok_def)

lemma within_low: "within lo hi x \<Longrightarrow> lo \<le> x"
  by (auto simp: within_def)

lemma campaign_ok_phase:
  assumes "campaign_ok cfg n c" and "\<And>evs. tail_ok cfg n (ca_incidents c) (ca_phase c) evs \<Longrightarrow> tail_ok cfg n k ph evs"
    and "ca_trace c' = ca_trace c" and "ca_phase c' = ph" and "ca_incidents c' = k"
  shows "campaign_ok cfg n c'"
  using assms unfolding campaign_ok_def by metis

lemma inject_ok:
  assumes ok: "campaign_ok cfg n c" and ph: "ca_phase c = Gap g until" and d: "draw_rest cfg n g (ca_rng c) = Some (d, r)"
    and n: "n < 2 ^ 64" "length (rc_faults cfg) < 2 ^ 64"
  shows "campaign_ok cfg n (inject tg ob cfg d r c)"
proof -
  obtain rounds where tr: "ca_trace c = concat (map round_events rounds)" "list_all (round_ok cfg n) rounds"
    using ok by (auto simp: campaign_ok_def ph)
  have f: "fault_ok cfg n (fd_victim d) (fd_fault d)" "rc_min_heal_ms cfg \<le> fd_heal_ms d"
    using draw_rest_in [OF d n] within_low by (simp_all add: fault_ok_def)
  let ?w = "fold (\<lambda>p. ob_reset ob (word_of_nat p)) [0..<unat (rc_partitions cfg)] (ca_world c)"
  obtain w' res where res: "ft_fault tg (fd_victim d) (fd_fault d) ?w = (w', res)" by fastforce
  let ?evs = "[Faulted (fd_victim d) (fd_fault d) (ob_now ob w')]"
  have "ca_trace (inject tg ob cfg d r c) = concat (map round_events rounds) @ ?evs"
    by (simp add: inject_def Let_def res tr)
  moreover have "tail_ok cfg n (ca_incidents (inject tg ob cfg d r c)) (ca_phase (inject tg ob cfg d r c)) ?evs"
    using f by (cases res) (auto simp: inject_def Let_def res window_ok_def open_round_def)
  ultimately show ?thesis using tr(2) unfolding campaign_ok_def by blast
qed

lemma heal_ok:
  assumes ok: "campaign_ok cfg n c" and ph: "ca_phase c = Window wi" "wi_healed wi = None"
    and due: "wi_t0 wi + ms (fd_heal_ms (wi_draw wi)) \<le> ob_now ob (ca_world c)"
  shows "campaign_ok cfg n (heal_fault tg ob wi c)"
proof -
  let ?d = "wi_draw wi"
  obtain rounds where tr: "ca_trace c = concat (map round_events rounds) @ [Faulted (fd_victim ?d) (fd_fault ?d) (wi_t0 wi)]"
    "list_all (round_ok cfg n) rounds" and w: "fault_ok cfg n (fd_victim ?d) (fd_fault ?d)" "rc_min_heal_ms cfg \<le> fd_heal_ms ?d"
    using ok ph(2) by (auto simp: campaign_ok_def ph(1) window_ok_def Let_def)
  show ?thesis
    unfolding campaign_ok_def
    by (intro exI [of _ rounds] exI [of _ "[Faulted (fd_victim ?d) (fd_fault ?d) (wi_t0 wi),
          Healed (fd_victim ?d) (fd_fault ?d) (ob_now ob (ca_world c))]"])
      (auto simp: heal_fault_def Let_def tr w due window_ok_def split: prod.split)
qed

lemma close_ok:
  assumes ok: "campaign_ok cfg n c" and ph: "ca_phase c = Resume wi t p" and cl: "close_window tg ob cfg wi c = Some c'"
  shows "campaign_ok cfg n c'"
proof -
  obtain rounds evs where tr: "ca_trace c = concat (map round_events rounds) @ evs" "list_all (round_ok cfg n) rounds"
    and w: "wi_healed wi \<noteq> None" "window_ok cfg n wi evs"
    using ok by (auto simp: campaign_ok_def ph)
  note open_evs = window_open [OF w(2)]
  obtain v f t0 t1 where evs: "evs = [Faulted v f t0, Healed v f t1]" "fault_ok cfg n v f" "t0 + ms (rc_min_heal_ms cfg) \<le> t1"
    using w open_evs by (auto simp: window_ok_def open_round_def Let_def split: option.splits)
  consider (panic) "c' = c\<lparr>ca_phase := Panicked\<rparr>"
    | (healthy) t2 where "ca_trace c' = ca_trace c @ [Healthy t2]" "ca_phase c' = Between"
    | (cut) "ca_trace c' = ca_trace c" "ca_phase c' = Settling" "0 < ca_incidents c'"
    using cl by (auto simp: close_window_def Let_def split: option.splits prod.splits sum.splits)
  then show ?thesis
  proof cases
    case panic
    then show ?thesis using tr open_evs by (auto simp: campaign_ok_def)
  next
    case healthy
    have "ca_trace c' = concat (map round_events (rounds @ [Round v f t0 t1 t2]))" using healthy(1) tr(1) evs(1) by simp
    moreover have "list_all (round_ok cfg n) (rounds @ [Round v f t0 t1 t2])" using tr(2) evs by (simp add: round_ok_def)
    ultimately show ?thesis unfolding campaign_ok_def healthy(2) by (metis append_Nil2 tail_ok.simps(1))
  next
    case cut
    then show ?thesis using tr open_evs by (auto simp: campaign_ok_def)
  qed
qed

interpretation campaign: preserved "campaign_step tg ob cfg"
  "\<lambda>c. ft_brokers tg < 2 ^ 64 \<and> length (rc_faults cfg) < 2 ^ 64 \<longrightarrow> campaign_ok cfg (ft_brokers tg) c"
  for tg ob cfg
proof (unfold_locales, intro impI, elim conjE)
  fix c c' assume s: "campaign_step tg ob cfg c c'" and n: "ft_brokers tg < 2 ^ 64" "length (rc_faults cfg) < 2 ^ 64"
    and "ft_brokers tg < 2 ^ 64 \<and> length (rc_faults cfg) < 2 ^ 64 \<longrightarrow> campaign_ok cfg (ft_brokers tg) c"
  then have ok: "campaign_ok cfg (ft_brokers tg) c" by blast
  from s show "campaign_ok cfg (ft_brokers tg) c'"
  proof cases
    case (inject g until d r)
    then show ?thesis using inject_ok [OF ok _ _ n] by blast
  next
    case (heal wi)
    then show ?thesis using heal_ok [OF ok] by blast
  next
    case (close_up wi t p)
    then show ?thesis using close_ok [OF ok] by blast
  next
    case (observe wi a)
    then show ?thesis by (intro campaign_ok_phase [OF ok]) simp_all
  next
    case (heal_failed wi e)
    then show ?thesis by (intro campaign_ok_phase [OF ok]) (auto dest: window_open)
  next
    case settle
    then have "ca_trace c' = ca_trace c \<and> (\<exists>l t. ca_phase c' = Draining l t) \<and> ca_incidents c \<le> ca_incidents c'"
      by (auto simp: settle_def split: sum.split)
    then obtain l t where "ca_trace c' = ca_trace c" "ca_phase c' = Draining l t" "ca_incidents c \<le> ca_incidents c'" by blast
    then show ?thesis using settle(1) by (intro campaign_ok_phase [OF ok]) auto
  qed (intro campaign_ok_phase [OF ok]; simp)+
qed

text \<open>
  C30. The harness breaks one broker at a time. In every state of the schedule the commands issued so
  far are whole rounds, each a fault of a configured kind on one of the brokers, its heal on the
  same broker no sooner than the least heal delay, and a successful wait for health, and after them
  at most one round that is not over. No fault is issued before the round before it is over, and
  when health was not reached the schedule ends and the incident is counted.
\<close>

theorem faults_never_overlap:
  assumes "(campaign_step tg ob cfg)\<^sup>*\<^sup>* (campaign_start cfg w) c"
    and "ft_brokers tg < 2 ^ 64" and "length (rc_faults cfg) < 2 ^ 64"
  shows "\<exists>rounds evs. ca_trace c = concat (map round_events rounds) @ evs \<and>
    list_all (round_ok cfg (ft_brokers tg)) rounds \<and> (evs = [] \<or> open_round cfg (ft_brokers tg) evs) \<and>
    (case ca_phase c of
       Between \<Rightarrow> evs = []
     | Gap _ _ \<Rightarrow> evs = []
     | Settling \<Rightarrow> evs \<noteq> [] \<longrightarrow> 0 < ca_incidents c
     | Draining _ _ \<Rightarrow> evs \<noteq> [] \<longrightarrow> 0 < ca_incidents c
     | Over _ \<Rightarrow> evs \<noteq> [] \<longrightarrow> 0 < ca_incidents c
     | _ \<Rightarrow> True)"
proof -
  have "campaign_ok cfg (ft_brokers tg) (campaign_start cfg w)"
    unfolding campaign_ok_def by (intro exI [of _ "[]"]) (simp add: campaign_start_def)
  then have "campaign_ok cfg (ft_brokers tg) c" using campaign.run [OF assms(1)] assms(2,3) by blast
  then obtain rounds evs where tr: "ca_trace c = concat (map round_events rounds) @ evs"
    "list_all (round_ok cfg (ft_brokers tg)) rounds" and t: "tail_ok cfg (ft_brokers tg) (ca_incidents c) (ca_phase c) evs"
    by (auto simp: campaign_ok_def)
  have "(evs = [] \<or> open_round cfg (ft_brokers tg) evs) \<and>
    (case ca_phase c of
       Between \<Rightarrow> evs = []
     | Gap _ _ \<Rightarrow> evs = []
     | Settling \<Rightarrow> evs \<noteq> [] \<longrightarrow> 0 < ca_incidents c
     | Draining _ _ \<Rightarrow> evs \<noteq> [] \<longrightarrow> 0 < ca_incidents c
     | Over _ \<Rightarrow> evs \<noteq> [] \<longrightarrow> 0 < ca_incidents c
     | _ \<Rightarrow> True)"
    using t by (cases "ca_phase c") (auto dest: window_open)
  then show ?thesis using tr by blast
qed

text \<open>A target that obeys at once, the clock as its whole world, and the first fault of a run.\<close>

definition sample_target :: "(nat, string) fault_target" where
  "sample_target =
     \<lparr>ft_brokers = 3, ft_fault = \<lambda>_ _ w. (w + 5, Inr ()), ft_heal = \<lambda>_ _ w. (w + 5, Inr ()),
      ft_create_topic = \<lambda>_ _ _ w. Some (w, Inr ()), ft_view_via = \<lambda>_ _ _ w. (w, Inr [0, 1, 2]),
      ft_wait_healthy = \<lambda>_ _ _ w. Some (w, Inr ()), ft_now = \<lambda>w. w div 1000000, ft_sleep = \<lambda>d w. w + d * 1000000\<rparr>"

definition sample_surroundings :: "nat surroundings" where
  "sample_surroundings =
     \<lparr>ob_now = \<lambda>w. w, ob_clock = \<lambda>_. clock_new 3, ob_reset = \<lambda>_ w. w, ob_watch = \<lambda>_. watch_start 3,
      ob_history = \<lambda>_. history_new\<rparr>"

lemma faults_never_overlap_witness:
  "\<exists>(c :: (nat, string) campaign) v f t0.
     (campaign_step sample_target sample_surroundings sample_run)\<^sup>*\<^sup>* (campaign_start sample_run 0) c \<and>
     ca_trace c = [Faulted v f t0] \<and> fault_ok sample_run 3 v f"
proof -
  let ?step = "campaign_step sample_target sample_surroundings sample_run"
  let ?c0 = "campaign_start sample_run 0 :: (nat, string) campaign"
  have cfg: "rc_faults sample_run \<noteq> []" "length (rc_faults sample_run) < 2 ^ 64" "run_deadline sample_run = 60000000000"
    by (simp_all add: sample_run_def run_deadline_def)
  obtain g r where g: "draw_between (rc_min_gap_ms sample_run) (rc_max_gap_ms sample_run) (ca_rng ?c0) = Some (g, r)"
    using draw_between_total by blast
  then have small: "unat g < 5000"
    using draw_between_in [OF g] by (auto simp: sample_run_def word_less_nat_alt)
  let ?c1 = "?c0\<lparr>ca_rng := r, ca_phase := Gap g (ms g)\<rparr>"
  let ?c2 = "?c1\<lparr>ca_world := ms g\<rparr>"
  have s1: "?step ?c0 ?c1"
    using campaign_step.gap [OF _ _ cfg(1) g, of sample_surroundings sample_target]
    by (simp add: campaign_start_def sample_surroundings_def cfg(3))
  have s2: "?step ?c1 ?c2" by (rule campaign_step.others)
  obtain d r' where d: "draw_rest sample_run 3 g r = Some (d, r')"
    using draw_rest_total [of 3 sample_run g r] cfg by auto
  let ?c3 = "inject sample_target sample_surroundings sample_run d r' ?c2"
  have s3: "?step ?c2 ?c3"
    by (rule campaign_step.inject [of _ g "ms g"])
      (use d small in \<open>simp_all add: sample_surroundings_def sample_target_def cfg(3) ms_def\<close>)
  have run: "?step\<^sup>*\<^sup>* ?c0 ?c3" using s1 s2 s3 by (blast intro: converse_rtranclp_into_rtranclp [of ?step])
  have tr: "\<exists>t0. ca_trace ?c3 = [Faulted (fd_victim d) (fd_fault d) t0]"
    by (simp add: inject_def Let_def sample_target_def campaign_start_def)
  from faults_never_overlap [OF run _ cfg(2)] obtain rounds evs where
    e: "ca_trace ?c3 = concat (map round_events rounds) @ evs" "evs = [] \<or> open_round sample_run 3 evs"
    by (auto simp: sample_target_def)
  have "rounds = []" using e(1) tr by (cases rounds; cases "hd rounds") auto
  then have "open_round sample_run 3 [Faulted (fd_victim d) (fd_fault d) t0]" if "ca_trace ?c3 = [Faulted (fd_victim d) (fd_fault d) t0]" for t0
    using e that by auto
  then show ?thesis using run tr by (auto simp: open_round_def)
qed

end
