(* ===== verification/TortureProperties.thy ===== *)
theory TortureProperties
  imports TruthfulHistory BrokerNetwork FaultCampaign
begin

text \<open>
  A run of the fault harness against a broker that is left alone is judged clean. The verdict rests on the invariant of theory \<open>TruthfulHistory\<close>, relative
  to what the logs hold, and on the brokers' side on theory \<open>BrokerNetwork\<close>.
\<close>

section \<open>What the broker holds\<close>

definition ids_in :: "(bytes \<Rightarrow> u32) \<Rightarrow> broker_config \<Rightarrow> actor option list \<Rightarrow> u64 list" where
  "ids_in crc cfg ws =
     (case ws of
        [Some a] \<Rightarrow> map (\<lambda>r. the (decode_id (lr_value r))) (actor_records crc (bc_log cfg) a)
      | _ \<Rightarrow> [])"

text \<open>One broker has the partition, from offset 0, with ids in at most so many records.\<close>

definition ready :: "(bytes \<Rightarrow> u32) \<Rightarrow> broker_config \<Rightarrow> nat \<Rightarrow> actor option list \<Rightarrow> bool" where
  "ready crc cfg k ws \<longleftrightarrow>
     (\<exists>a. ws = [Some a] \<and> ac_pending a = [] \<and> log_start_offset (ac_log a) = 0 \<and> log_next_offset (ac_log a) \<le> k \<and>
        list_all (\<lambda>r. decode_id (lr_value r) \<noteq> None) (actor_records crc (bc_log cfg) a))"

abbreviation servers_ok :: "(bytes \<Rightarrow> u32) \<Rightarrow> broker_config \<Rightarrow> fleet \<Rightarrow> bool" where
  "servers_ok crc cfg w \<equiv> list_all (\<lambda>(_, sv). server_ok crc cfg sv) (fl_servers w)"

lemma writer_good:
  assumes "servers_ok crc cfg w" and "Some a \<in> set (writers w topic part)"
  shows "actor_good crc (bc_log cfg) a"
proof -
  obtain addr sv where "(addr, sv) \<in> set (fl_servers w)" "partition_of (sv_shared sv) topic part = Some a"
    using assms(2) by (force simp: writers_def)
  moreover then have "topics_ok crc cfg (sv_shared sv)" using assms(1) by (auto simp: list_all_iff server_ok_def)
  ultimately show ?thesis using partition_of_good by blast
qed

lemma readyD:
  assumes "servers_ok crc cfg w" and "ready crc cfg k (writers w topic part)"
  obtains a where "writers w topic part = [Some a]" and "actor_ok crc (bc_log cfg) a" and "ac_pending a = []"
    and "log_start_offset (ac_log a) = 0" and "log_next_offset (ac_log a) = length (actor_records crc (bc_log cfg) a)"
    and "length (actor_records crc (bc_log cfg) a) \<le> k" and "numbered 0 (actor_records crc (bc_log cfg) a)"
    and "list_all (\<lambda>r. decode_id (lr_value r) \<noteq> None) (actor_records crc (bc_log cfg) a)"
    and "ids_in crc cfg (writers w topic part) = map (\<lambda>r. the (decode_id (lr_value r))) (actor_records crc (bc_log cfg) a)"
proof -
  obtain a where a: "writers w topic part = [Some a]" "ac_pending a = []" "log_start_offset (ac_log a) = 0"
    "log_next_offset (ac_log a) \<le> k" "list_all (\<lambda>r. decode_id (lr_value r) \<noteq> None) (actor_records crc (bc_log cfg) a)"
    using assms(2) by (auto simp: ready_def)
  have ok: "actor_ok crc (bc_log cfg) a" using writer_good [OF assms(1), of a topic part] a(1) by (simp add: actor_good_def)
  then have inv: "log_inv crc (actor_log_config (bc_log cfg)) (ac_log a) (ac_disk a)" by (simp add: actor_ok_def)
  show thesis
    by (rule that [of a]) (use a ok log_inv_end(1) [OF inv] log_numbered [OF inv] in \<open>simp_all add: ids_in_def\<close>)
qed

lemma ready_length:
  assumes "servers_ok crc cfg w" and "ready crc cfg k (writers w topic part)"
  shows "length (ids_in crc cfg (writers w topic part)) \<le> k"
  by (rule readyD [OF assms]) simp

text \<open>A batch of ids, of which a prefix is stored.\<close>

definition id_records :: "nat \<Rightarrow> u64 list \<Rightarrow> produce_record list" where
  "id_records value_bytes = map (\<lambda>rid. \<lparr>pr_key = None, pr_value = encode_value rid value_bytes\<rparr>)"

lemma held_ids:
  "list_all2 holds (produce_pairs (id_records value_bytes ids)) rs \<Longrightarrow>
   list_all (\<lambda>r. decode_id (lr_value r) \<noteq> None) rs \<and> map (\<lambda>r. the (decode_id (lr_value r))) rs = ids"
proof (induction ids arbitrary: rs)
  case Nil
  then show ?case by (simp add: id_records_def produce_pairs_def)
next
  case (Cons rid ids)
  then show ?case by (cases rs) (auto simp: id_records_def produce_pairs_def holds_def)
qed

lemma take_pairs: "take k (produce_pairs (id_records value_bytes ids)) = produce_pairs (id_records value_bytes (take k ids))"
  by (simp add: produce_pairs_def id_records_def take_map)

lemma produced_ids_stored:
  assumes ok: "servers_ok crc cfg w" "servers_ok crc cfg w'" and rdy: "ready crc cfg k (writers w topic part)"
    and once: "produced_once crc cfg topic part acks (id_records value_bytes ids) (writers w) (writers w') r"
    and acks: "acks \<noteq> AcksNone"
  shows "\<exists>m. ids_in crc cfg (writers w' topic part) = ids_in crc cfg (writers w topic part) @ take m ids \<and>
    ready crc cfg (k + length ids) (writers w' topic part) \<and>
    (\<forall>q. q \<noteq> part \<longrightarrow> writers w' topic q = writers w topic q) \<and> (\<forall>x. r = Inr x \<longrightarrow> length ids \<le> m)"
proof -
  let ?rs = "actor_records crc (bc_log cfg)"
  obtain a where a: "writers w topic part = [Some a]" "log_start_offset (ac_log a) = 0" "length (?rs a) \<le> k"
    "list_all (\<lambda>r. decode_id (lr_value r) \<noteq> None) (?rs a)"
    "ids_in crc cfg (writers w topic part) = map (\<lambda>r. the (decode_id (lr_value r))) (?rs a)"
    using readyD [OF ok(1) rdy] by metis
  have len: "length (id_records value_bytes ids) = length ids" by (simp add: id_records_def)
  obtain a' m where w': "writers w' = with_writer topic part [Some a'] (writers w)"
    and st: "stored crc cfg (id_records value_bytes ids) m a a'"
    and r: "r = produce_outcome acks (id_records value_bytes ids) m a"
    using once a(1) by (auto simp: produced_once_def)
  obtain rs where rs: "length rs = m" "m \<le> length ids" "?rs a' = ?rs a @ rs"
    "list_all2 holds (produce_pairs (id_records value_bytes (take m ids))) rs"
    using st by (auto simp: stored_def take_pairs len)
  have a': "ac_pending a' = []" "log_start_offset (ac_log a') = 0" using st a(2) by (simp_all add: stored_def)
  have at: "writers w' topic part = [Some a']" by (simp add: w' with_writer_def)
  have "actor_ok crc (bc_log cfg) a'" using writer_good [OF ok(2), of a' topic part] at by (simp add: actor_good_def)
  then have "log_next_offset (ac_log a') = length (?rs a')"
    using log_inv_end(1) [of crc "actor_log_config (bc_log cfg)" "ac_log a'" "ac_disk a'"] a'(2) by (simp add: actor_ok_def)
  then have "ready crc cfg (k + length ids) (writers w' topic part)"
    using a' a(3,4) rs held_ids [OF rs(4)] by (simp add: at ready_def)
  moreover have "ids_in crc cfg (writers w' topic part) = ids_in crc cfg (writers w topic part) @ take m ids"
    unfolding a(5) by (simp add: at ids_in_def rs(3) held_ids [OF rs(4)])
  moreover have "length ids \<le> m" if "r = Inr x" for x
    using that acks by (auto simp: r produce_outcome_def len split: if_splits)
  ultimately show ?thesis by (intro exI [of _ m]) (simp add: w' with_writer_def)
qed

text \<open>What a reader makes of the records it is given.\<close>

lemma take_records_run:
  assumes "numbered pos rs" and "list_all (\<lambda>r. decode_id (lr_value r) \<noteq> None) rs" and "pos + length rs < 2 ^ 64"
  shows "take_records (map to_fetched rs) (word_of_nat pos) =
    (zip (map word_of_nat [pos..<pos + length rs]) (map (\<lambda>r. the (decode_id (lr_value r))) rs), word_of_nat (pos + length rs))"
  using assms
proof (induction rs arbitrary: pos)
  case (Cons r rs)
  have u: "unat (lr_offset r) = pos" using Cons.prems(1) by simp
  have off: "lr_offset r = word_of_nat pos" by (simp flip: u)
  have "take_records (map to_fetched rs) (word_of_nat (Suc pos)) =
      (zip (map word_of_nat [Suc pos..<Suc pos + length rs]) (map (\<lambda>r. the (decode_id (lr_value r))) rs),
       word_of_nat (Suc pos + length rs))"
    by (rule Cons.IH) (use Cons.prems in simp_all)
  then show ?case using Cons.prems(2) off
    by (auto simp: to_fetched_def [of r] upt_conv_Cons add.commute simp del: upt_Suc)
qed simp

section \<open>A run\<close>

text \<open>
  The invariant of a run: the broker has every partition of the topic, with at most as many records
  as ids were given out, and the history is truthful.
\<close>

definition run_inv :: "(bytes \<Rightarrow> u32) \<Rightarrow> broker_config \<Rightarrow> run_config \<Rightarrow> fleet torture \<Rightarrow> bool" where
  "run_inv crc cfg rc st \<longleftrightarrow>
     servers_ok crc cfg (to_world st) \<and> 0 < cc_retry_backoff (to_client st) \<and>
     length (ak_last (to_clock st)) = unat (rc_partitions rc) \<and>
     (\<forall>p < rc_partitions rc. ready crc cfg (to_ids st) (writers (to_world st) (rc_topic rc) p)) \<and>
     truthful (rc_topic rc) (rc_partitions rc) (\<lambda>p. ids_in crc cfg (writers (to_world st) (rc_topic rc) p))
       (to_readers st) (to_history st)"

lemma ready_mono: "ready crc cfg k ws \<Longrightarrow> k \<le> k' \<Longrightarrow> ready crc cfg k' ws"
  by (auto simp: ready_def)

lemma undisturbed_self: "servers_ok crc cfg w \<Longrightarrow> undisturbed crc cfg (writers w) w"
  by (simp add: undisturbed_def)

lemma ready_roomy:
  assumes "ready crc cfg k ws" and "k + length records < 2 ^ 64"
  shows "list_all (roomy records) ws"
  using assms by (auto simp: ready_def roomy_def)

text \<open>What a produce of a batch of ids does to the logs.\<close>

lemma produce_ids:
  assumes ok: "servers_ok crc cfg w" and rdy: "ready crc cfg k (writers w topic part)"
    and room: "k + length ids < 2 ^ 64" and backoff: "0 < cc_retry_backoff c"
  obtains c' w' acked m where
    "replog_produce (fleet_network crc cfg ts) value_bytes topic part ids acks (c, w) = Some ((c', w'), acked)"
    and "cc_retry_backoff c' = cc_retry_backoff c" and "servers_ok crc cfg w'"
    and "ids_in crc cfg (writers w' topic part) = ids_in crc cfg (writers w topic part) @ take m ids"
    and "ready crc cfg (k + length ids) (writers w' topic part)"
    and "\<And>q. q \<noteq> part \<Longrightarrow> writers w' topic q = writers w topic q"
    and "set acked \<subseteq> set (ids_in crc cfg (writers w' topic part))"
proof -
  let ?acks = "case acks of AllAcks \<Rightarrow> AcksAll | LeaderOnly \<Rightarrow> Written" and ?records = "id_records value_bytes ids"
  have acks: "?acks \<noteq> AcksNone" by (cases acks) simp_all
  have len: "length ?records = length ids" by (simp add: id_records_def)
  obtain c' w' r where run: "cluster_produce (fleet_network crc cfg ts) topic part ?acks ?records (c, w) = Some ((c', w'), r)"
    and c': "cc_retry_backoff c' = cc_retry_backoff c" and u': "undisturbed crc cfg (writers w') w'"
    and what: "writers w' = writers w \<and> r = Inl Closed \<or>
      produced_once crc cfg topic part ?acks ?records (writers w) (writers w') r"
    using cluster_produce_ends [OF undisturbed_self [OF ok] ready_roomy [OF rdy] backoff, of ?records ts ?acks] room acks
    unfolding len by blast
  have ok': "servers_ok crc cfg w'" using u' by (simp add: undisturbed_def)
  have prod: "replog_produce (fleet_network crc cfg ts) value_bytes topic part ids acks (c, w) =
      Some ((c', w'), case r of Inr _ \<Rightarrow> ids | Inl _ \<Rightarrow> [])"
    using run by (simp add: replog_produce_def id_records_def Let_def)
  from what show thesis
  proof
    assume same: "writers w' = writers w \<and> r = Inl Closed"
    show thesis
      by (rule that [OF prod c' ok', of 0]) (use same ready_mono [OF rdy] in simp_all)
  next
    assume "produced_once crc cfg topic part ?acks ?records (writers w) (writers w') r"
    from produced_ids_stored [OF ok ok' rdy this acks]
    obtain m where m: "ids_in crc cfg (writers w' topic part) = ids_in crc cfg (writers w topic part) @ take m ids"
      "ready crc cfg (k + length ids) (writers w' topic part)"
      "\<forall>q. q \<noteq> part \<longrightarrow> writers w' topic q = writers w topic q" "\<forall>x. r = Inr x \<longrightarrow> length ids \<le> m"
      by blast
    show thesis
      by (rule that [OF prod c' ok' m(1,2)]) (use m in \<open>auto split: sum.splits\<close>)
  qed
qed

lemma clock_record_total:
  "unat part < length (ak_last c) \<Longrightarrow>
   \<exists>c'. clock_record now part n c = Some c' \<and> length (ak_last c') = length (ak_last c)"
  by (simp add: clock_record_def Let_def)

lemma producer_round_ok:
  assumes inv: "run_inv crc cfg rc st" and part: "part < rc_partitions rc"
    and room: "to_ids st + rc_batch_records rc < 2 ^ 64"
  shows "\<exists>st'. producer_round (fleet_network crc cfg ts) rc part st = Some st' \<and> run_inv crc cfg rc st'"
proof -
  let ?ids = "map word_of_nat [to_ids st..<to_ids st + rc_batch_records rc] :: u64 list"
  let ?topic = "rc_topic rc" and ?n = "rc_partitions rc" and ?w = "to_world st"
  have ok: "servers_ok crc cfg ?w" and rdy: "ready crc cfg (to_ids st) (writers ?w ?topic q)" if "q < ?n" for q
    using inv that by (simp_all add: run_inv_def)
  have bo: "0 < cc_retry_backoff (to_client st)" using inv by (simp add: run_inv_def)
  have len: "length ?ids = rc_batch_records rc" by simp
  obtain c' w' acked m where
    prod: "replog_produce (fleet_network crc cfg ts) (rc_value_bytes rc) ?topic part ?ids (rc_acks rc) (to_client st, ?w) =
      Some ((c', w'), acked)"
    and c': "cc_retry_backoff c' = cc_retry_backoff (to_client st)" and ok': "servers_ok crc cfg w'"
    and grown: "ids_in crc cfg (writers w' ?topic part) = ids_in crc cfg (writers ?w ?topic part) @ take m ?ids"
    and rdy': "ready crc cfg (to_ids st + rc_batch_records rc) (writers w' ?topic part)"
    and other: "\<And>q. q \<noteq> part \<Longrightarrow> writers w' ?topic q = writers ?w ?topic q"
    and acked: "set acked \<subseteq> set (ids_in crc cfg (writers w' ?topic part))"
    using produce_ids [OF ok [OF part] rdy [OF part] _ bo, of ?ids ts "rc_value_bytes rc" "rc_acks rc"] room
    unfolding len by metis
  let ?L' = "\<lambda>p. ids_in crc cfg (writers w' ?topic p)"
  let ?h = "fold (\<lambda>rid. record_produced rid ?topic) acked (to_history st)"
  have grow: "\<exists>xs. ?L' q = ids_in crc cfg (writers ?w ?topic q) @ xs" for q
    using grown other by (cases "q = part") auto
  have t: "truthful ?topic ?n ?L' (to_readers st) ?h"
    by (rule truthful_produce [OF _ grow]) (use inv acked part in \<open>auto simp: run_inv_def\<close>)
  have ready': "ready crc cfg (to_ids st + rc_batch_records rc) (writers w' ?topic q)" if "q < ?n" for q
    using rdy' other rdy [OF that] ready_mono by (cases "q = part") auto
  have cl: "length (ak_last (to_clock st)) = unat ?n" using inv by (simp add: run_inv_def)
  then have lt: "unat part < length (ak_last (to_clock st))" using part by (simp add: word_less_nat_alt)
  obtain clock where clock: "clock_record ((fl_now w' - to_started st) * 1000000) part (length acked) (to_clock st) = Some clock"
    "length (ak_last clock) = unat ?n"
    using clock_record_total [OF lt] unfolding cl by blast
  have "run_inv crc cfg rc (st\<lparr>to_client := c', to_world := w', to_ids := to_ids st + rc_batch_records rc,
      to_history := ?h, to_clock := k\<rparr>)" if "length (ak_last k) = unat ?n" for k
    using ok' bo c' t ready' that by (simp add: run_inv_def)
  from this [OF clock(2)] this [of "to_clock st"] show ?thesis
    using prod clock inv by (cases "acked = []") (simp_all add: producer_round_def Let_def run_inv_def)
qed

lemma reader_round_ok:
  assumes inv: "run_inv crc cfg rc st" and i: "i < length (to_readers st)" and room: "to_ids st < 2 ^ 64"
  shows "\<exists>st'. reader_round (fleet_network crc cfg ts) i st = Some st' \<and> to_ids st' = to_ids st \<and> run_inv crc cfg rc st'"
proof -
  let ?topic = "rc_topic rc" and ?n = "rc_partitions rc" and ?w = "to_world st" and ?nt = "fleet_network crc cfg ts"
  let ?L = "\<lambda>p. ids_in crc cfg (writers ?w ?topic p)"
  obtain name rd where rd: "to_readers st ! i = (name, rd)" by fastforce
  have t: "truthful ?topic ?n ?L (to_readers st) (to_history st)" using inv by (simp add: run_inv_def)
  have "(name, rd) \<in> set (to_readers st)" using i rd by (metis nth_mem)
  then have "reader_ok ?topic ?n ?L (to_history st) (name, rd)" using t by (simp add: truthful_def list_all_iff)
  then have r: "rr_topic rd = ?topic" "rr_partition rd < ?n" "unat (rr_position rd) \<le> length (?L (rr_partition rd))"
    by (simp_all add: reader_ok_def)
  let ?p = "rr_partition rd" and ?k = "unat (rr_position rd)"
  have ok: "servers_ok crc cfg ?w" and bo: "0 < cc_retry_backoff (to_client st)" using inv by (simp_all add: run_inv_def)
  have rdy: "ready crc cfg (to_ids st) (writers ?w ?topic ?p)" using inv r(2) by (simp add: run_inv_def)
  let ?rs = "\<lambda>a. actor_records crc (bc_log cfg) a"
  obtain a where a: "writers ?w ?topic ?p = [Some a]" "actor_ok crc (bc_log cfg) a" "log_start_offset (ac_log a) = 0"
    "log_next_offset (ac_log a) = length (?rs a)" "length (?rs a) \<le> to_ids st" "numbered 0 (?rs a)"
    "list_all (\<lambda>r. decode_id (lr_value r) \<noteq> None) (?rs a)"
    "?L ?p = map (\<lambda>r. the (decode_id (lr_value r))) (?rs a)"
    using readyD [OF ok rdy] by metis
  obtain c' w' r' where f: "cluster_fetch ?nt ?topic ?p (rr_position rd) (push_bit 10 256) 50 (to_client st, ?w) =
      Some ((c', w'), r')"
    and c': "cc_retry_backoff c' = cc_retry_backoff (to_client st)" and u: "undisturbed crc cfg (writers ?w) w'"
    and got: "\<And>x y recs. r' = Inr (x, y, recs) \<Longrightarrow>
      list_ex (fetched_from crc cfg (rr_position rd) (push_bit 10 256) recs) (writers ?w ?topic ?p)"
    using cluster_fetch_ends [OF undisturbed_self [OF ok] bo] by metis
  have ok': "servers_ok crc cfg w'" and same: "writers w' = writers ?w" using u by (simp_all add: undisturbed_def)
  have keep: "run_inv crc cfg rc (st\<lparr>to_client := c', to_world := w', to_readers := rds, to_history := h\<rparr>)"
    if "truthful ?topic ?n ?L rds h" for rds h
    using inv ok' bo c' same that by (simp add: run_inv_def)
  show ?thesis
  proof (cases r')
    case (Inl e)
    have "(to_readers st)[i := (name, rd)] = to_readers st" using rd by (metis list_update_id)
    then show ?thesis using keep [OF t] f Inl rd r(1) by (simp add: reader_round_def reader_next_def Let_def)
  next
    case (Inr res)
    obtain x y recs where res: "res = (x, y, recs)" by (cases res)
    obtain ro where ro: "actor_read crc (bc_log cfg) ?k (unat (push_bit 10 256 :: u32)) a = Inr ro"
      "recs = map to_fetched (ro_records ro)"
      using got [of x y recs] Inr res a(1) by (auto simp: fetched_from_def)
    have kle: "?k \<le> length (?rs a)" using r(3) by (simp add: a(8))
    obtain m where m: "ro_records ro = take m (drop ?k (?rs a))"
      using actor_read_ok [OF a(2), of ?k "unat (push_bit 10 256 :: u32)"] ro(1) a(3,4) kle by auto
    let ?new = "take m (drop ?k (?rs a))"
    let ?ids = "map (\<lambda>r. the (decode_id (lr_value r))) ?new"
    have len: "?k + length ?new \<le> length (?rs a)" "length (?rs a) < 2 ^ 64" using kle a(5) room by auto
    have tk: "take_records recs (rr_position rd) =
        (zip (map word_of_nat [?k..<?k + length ?new]) ?ids, word_of_nat (?k + length ?new))"
      using take_records_run [of ?k ?new] numbered_take [OF numbered_drop [OF a(6) kle]] a(7) len
      unfolding ro(2) m by (simp add: list_all_iff) (metis in_set_dropD in_set_takeD)
    have "take (length (take m xs)) xs = take m xs" for xs :: "log_record list" by (simp add: min_def)
    then have whole: "?ids = take (length ?ids) (drop ?k (?L ?p))" unfolding a(8) drop_map take_map length_map by metis
    have "truthful ?topic ?n ?L ((to_readers st)[i := (name, rd\<lparr>rr_position := word_of_nat (?k + length ?ids)\<rparr>)])
      (fold (\<lambda>(offset, rid). record_consumed name 0 ?topic ?p offset rid)
         (zip (map word_of_nat [?k..<?k + length ?ids]) ?ids) (to_history st))"
      by (rule truthful_read [OF t i rd _ whole]) (use len in \<open>simp_all add: a(8)\<close>)
    then show ?thesis using keep f Inr res rd tk r(1) by (simp add: reader_round_def reader_next_def Let_def)
  qed
qed

interpretation torture: preserved "torture_step (fleet_network crc cfg ts) rc"
  "\<lambda>st. to_ids st < 2 ^ 64 \<longrightarrow> run_inv crc cfg rc st"
  for crc cfg ts rc
proof (unfold_locales, intro impI)
  fix st st' assume s: "torture_step (fleet_network crc cfg ts) rc st st'" and inv: "to_ids st < 2 ^ 64 \<longrightarrow> run_inv crc cfg rc st"
    and room: "to_ids st' < 2 ^ 64"
  from s show "run_inv crc cfg rc st'"
  proof cases
    case (produce part)
    then have "to_ids st' = to_ids st + rc_batch_records rc"
      by (auto simp: producer_round_def Let_def split: option.splits prod.splits if_splits)
    then show ?thesis using producer_round_ok [of crc cfg rc st part ts] inv room produce by auto
  next
    case (read i)
    then have "to_ids st' = to_ids st"
      by (auto simp: reader_round_def Let_def split: option.splits prod.splits sum.splits)
    then show ?thesis using reader_round_ok [of crc cfg rc st i ts] inv room read by auto
  next
    case (pause d)
    moreover have "writers (to_world st\<lparr>fl_now := t\<rparr>) = writers (to_world st)" for t
      by (simp add: writers_def fun_eq_iff)
    ultimately show ?thesis using inv room by (simp add: run_inv_def fleet_network_def)
  qed
qed

section \<open>The verdict\<close>

lemma reader_name_inj:
  assumes "reader_name r p = reader_name r' p'" and "r < 26" and "r' < 26"
  shows "r = r' \<and> p = p'"
proof -
  have "(char_of (97 + r) :: char) = char_of (97 + r')" "show_nat (unat p) = show_nat (unat p')"
    using assms(1) by (simp_all add: reader_name_def show_word_def)
  moreover then have "(of_char (char_of (97 + r) :: char) :: nat) = of_char (char_of (97 + r') :: char)" by (simp only:)
  then have "r = r'" using assms(2,3) by simp
  ultimately show ?thesis by (simp add: word_unat_eq_iff)
qed

lemma readers_distinct:
  assumes "rc_readers_per_partition rc \<le> 26"
  shows "distinct (map fst (to_readers (torture_start nt rc c w)))"
proof -
  let ?names = "map (\<lambda>(p, r). reader_name r (word_of_nat p))
    (List.product [0..<unat (rc_partitions rc)] [0..<rc_readers_per_partition rc])"
  have w: "unat (word_of_nat p :: u32) = p" if "p < unat (rc_partitions rc)" for p
  proof -
    have "unat (rc_partitions rc) < 2 ^ LENGTH(32)" by (rule unsigned_less)
    then show ?thesis using that by (intro unat_of_nat_len) simp
  qed
  have "inj_on (\<lambda>(p, r). reader_name r (word_of_nat p)) ({0..<unat (rc_partitions rc)} \<times> {0..<rc_readers_per_partition rc})"
  proof (rule inj_onI, clarsimp)
    fix p r p' r'
    assume a: "p < unat (rc_partitions rc)" "r < rc_readers_per_partition rc" "p' < unat (rc_partitions rc)"
      "r' < rc_readers_per_partition rc" "reader_name r (word_of_nat p) = reader_name r' (word_of_nat p')"
    then have "r = r'" "(word_of_nat p :: u32) = word_of_nat p'"
      using reader_name_inj [OF a(5)] assms by simp_all
    moreover then have "p = p'" using w a(1,3) by metis
    ultimately show "p = p' \<and> r = r'" by simp
  qed
  then have "distinct ?names" by (simp add: distinct_map distinct_product)
  moreover have "map fst (to_readers (torture_start nt rc c w)) = ?names"
    by (simp add: torture_start_def product_concat_map map_concat comp_def)
  ultimately show ?thesis by simp
qed

lemma start_inv:
  assumes ok: "servers_ok crc cfg w" and backoff: "0 < cc_retry_backoff c" and names: "rc_readers_per_partition rc \<le> 26"
    and empty: "\<And>p. p < rc_partitions rc \<Longrightarrow>
      \<exists>a. writers w (rc_topic rc) p = [Some a] \<and> ac_pending a = [] \<and> log_next_offset (ac_log a) = 0"
  shows "run_inv crc cfg rc (torture_start nt rc c w)"
proof -
  have "ready crc cfg 0 (writers w (rc_topic rc) p)" if p: "p < rc_partitions rc" for p
  proof -
    obtain a where a: "writers w (rc_topic rc) p = [Some a]" "ac_pending a = []" "log_next_offset (ac_log a) = 0"
      using empty [OF p] by blast
    have "actor_good crc (bc_log cfg) a" by (rule writer_good [OF ok, of a "rc_topic rc" p]) (simp add: a(1))
    then have "log_inv crc (actor_log_config (bc_log cfg)) (ac_log a) (ac_disk a)" by (simp add: actor_good_def actor_ok_def)
    from log_inv_end(1) [OF this] show ?thesis using a by (simp add: ready_def)
  qed
  moreover have "truthful (rc_topic rc) (rc_partitions rc) L (to_readers (torture_start nt rc c w)) history_new" for L
  proof (rule truthful_start [OF readers_distinct [OF names]])
    have "word_of_nat p < rc_partitions rc" if "p < unat (rc_partitions rc)" for p
      using that by (metis unat_of_nat_len word_less_nat_alt unsigned_less order.strict_trans)
    then show "list_all (\<lambda>(_, rd). rr_topic rd = rc_topic rc \<and> rr_partition rd < rc_partitions rc \<and> rr_position rd = 0)
        (to_readers (torture_start nt rc c w))"
      by (auto simp: torture_start_def list_all_iff replog_reader_new_def)
  qed
  ultimately show ?thesis using ok backoff by (simp add: run_inv_def torture_start_def clock_new_def)
qed

text \<open>
  C5. A run of the harness against a standalone broker that is left alone is judged clean. However
  its producers, readers and pauses interleave, the checker finds no offset going back, no place
  with two ids and no gap, and once some reader of every partition is at the end of its log, the
  whole report is clean: no acked id is lost on the way from the producer through the cluster
  client, the broker's log and the reader. Every round of a producer or a reader ends.
\<close>

theorem healthy_run_is_clean:
  assumes "list_all (\<lambda>(_, sv). server_ok crc cfg sv) (fl_servers w)"
    and "\<And>p. p < rc_partitions rc \<Longrightarrow>
      \<exists>a. writers w (rc_topic rc) p = [Some a] \<and> ac_pending a = [] \<and> log_next_offset (ac_log a) = 0"
    and "0 < cc_retry_backoff c" and "rc_readers_per_partition rc \<le> 26"
    and "(torture_step (fleet_network crc cfg ts) rc)\<^sup>*\<^sup>* (torture_start (fleet_network crc cfg ts) rc c w) st"
    and "to_ids st < 2 ^ 64"
  shows "(\<exists>r. verify_from_start (to_history st) = Some r \<and> rt_monotonicity_violations r = [] \<and>
       rt_divergent_offsets r = [] \<and> rt_offset_gaps r = [] \<and>
       (all_read (rc_partitions rc) (\<lambda>p. ids_in crc cfg (writers (to_world st) (rc_topic rc) p)) (to_readers st) \<longrightarrow>
          report_is_ok r)) \<and>
    (\<forall>i < length (to_readers st). reader_round (fleet_network crc cfg ts) i st \<noteq> None) \<and>
    (\<forall>p < rc_partitions rc. to_ids st + rc_batch_records rc < 2 ^ 64 \<longrightarrow>
       producer_round (fleet_network crc cfg ts) rc p st \<noteq> None)"
proof -
  have inv: "run_inv crc cfg rc st"
    using torture.run [OF assms(5)] start_inv [OF assms(1,3,4,2)] assms(6) by blast
  let ?L = "\<lambda>p. ids_in crc cfg (writers (to_world st) (rc_topic rc) p)"
  have t: "truthful (rc_topic rc) (rc_partitions rc) ?L (to_readers st) (to_history st)" using inv by (simp add: run_inv_def)
  have len: "length (?L p) < 2 ^ 64" if p: "p < rc_partitions rc" for p
  proof -
    have "servers_ok crc cfg (to_world st)" "ready crc cfg (to_ids st) (writers (to_world st) (rc_topic rc) p)"
      using inv p by (simp_all add: run_inv_def)
    from ready_length [OF this] show ?thesis using assms(6) by (rule order.strict_trans1)
  qed
  have "streams_ascend (to_history st)" "one_truth (to_history st)" "gap_free (to_history st)"
    using truthful_ascends [OF t] truthful_one_truth [OF t] truthful_gap_free [OF t] by simp_all
  moreover have "at_least_once (to_history st)" if "all_read (rc_partitions rc) ?L (to_readers st)"
    using truthful_at_least_once [OF t that len] .
  ultimately have "\<exists>r. verify_from_start (to_history st) = Some r \<and> rt_monotonicity_violations r = [] \<and>
       rt_divergent_offsets r = [] \<and> rt_offset_gaps r = [] \<and>
       (all_read (rc_partitions rc) ?L (to_readers st) \<longrightarrow> report_is_ok r)"
    using verdict [of "to_history st"] by blast
  then show ?thesis using producer_round_ok [OF inv] reader_round_ok [OF inv _ assms(6)] by fastforce
qed

definition fresh_fleet :: fleet where
  "fresh_fleet = \<lparr>fl_now = 0, fl_servers = [(''b'', sample_server\<lparr>sv_shared := (sv_shared sample_server)\<lparr>sh_topics :=
     [(''t'', [sample_actor empty_log empty_dir])]\<rparr>\<rparr>)]\<rparr>"

abbreviation (input) fresh_network :: "fleet network" where
  "fresh_network \<equiv> fleet_network no_crc (standalone os_config) (\<lambda>_. 9)"

text \<open>A round of the producer from the start of a run, and what the checker says after it.\<close>

lemma healthy_run_is_clean_witness:
  "\<exists>st r. (torture_step fresh_network (sample_run\<lparr>rc_partitions := 1\<rparr>))\<^sup>*\<^sup>*
      (torture_start fresh_network (sample_run\<lparr>rc_partitions := 1\<rparr>) sample_client fresh_fleet) st \<and> to_ids st = 2 \<and>
    verify_from_start (to_history st) = Some r \<and> rt_offset_gaps r = []"
proof -
  let ?rc = "sample_run\<lparr>rc_partitions := 1\<rparr>"
  let ?st = "torture_start fresh_network ?rc sample_client fresh_fleet"
  have "actor_ok no_crc os_config (sample_actor empty_log empty_dir)"
    by (rule sample_actor_ok [OF empty_log_ok]) (rule sample_dirs)
  then have ok: "list_all (\<lambda>(_, sv). server_ok no_crc (standalone os_config) sv) (fl_servers fresh_fleet)"
    by (auto simp: fresh_fleet_def server_ok_def topics_ok_def standalone_def actor_good_def actor_log_config_def os_config_ok)
      (simp add: sample_actor_def)
  have w: "\<exists>a. writers fresh_fleet (rc_topic ?rc) p = [Some a] \<and> ac_pending a = [] \<and> log_next_offset (ac_log a) = 0"
    if "p < rc_partitions ?rc" for p
  proof -
    have "p = 0" using that by (simp add: sample_run_def)
    then show ?thesis by (simp add: sample_run_def writers_def fresh_fleet_def partition_of_def)
      (simp add: sample_actor_def empty_log_def log_next_offset_def)
  qed
  have c: "0 < cc_retry_backoff sample_client" "rc_readers_per_partition ?rc \<le> 26"
    by (simp_all add: sample_client_def sample_run_def)
  note clean = healthy_run_is_clean [OF ok w c]
  have "producer_round fresh_network ?rc 0 ?st \<noteq> None"
    using clean [OF _ rtranclp.rtrancl_refl] by (simp add: torture_start_def sample_run_def)
  then obtain st where st: "producer_round fresh_network ?rc 0 ?st = Some st" by blast
  then have ids: "to_ids st = 2"
    by (auto simp: producer_round_def Let_def torture_start_def sample_run_def split: option.splits prod.splits if_splits)
  have run: "(torture_step fresh_network ?rc)\<^sup>*\<^sup>* ?st st"
    by (rule r_into_rtranclp, rule torture_step.produce [OF _ st]) (simp add: sample_run_def)
  have "to_ids st < 2 ^ 64" using ids by simp
  from clean [OF _ run this] show ?thesis using run ids by auto
qed

end
