(* ===== verification/CommandLine.thy ===== *)
theory CommandLine
  imports Harness Broker Controller
begin

text \<open>
  The command lines of the two servers, \<^verbatim>\<open>src/src/bin/replog_broker.rs\<close> and
  \<^verbatim>\<open>src/src/bin/replog_controller.rs\<close>, and the line they announce themselves with. The harness
  writes the one and reads the other; both ends are shown to agree.
\<close>

section \<open>The broker\<close>

record broker_flags =
  bf_listen :: string
  bf_data_dir :: "string option"
  bf_fsync :: fsync_policy
  bf_broker_id :: u32
  bf_controller_addr :: "string option"
  bf_advertise_addr :: "string option"
  bf_advertise_peer_addr :: "string option"
  bf_min_isr :: u32
  bf_replica_lag_ms :: "u64 option"

definition broker_flag_defaults :: broker_flags where
  "broker_flag_defaults =
     \<lparr>bf_listen = ''127.0.0.1:9092'', bf_data_dir = None, bf_fsync = Batch (1024 * 1024) 50, bf_broker_id = 0,
      bf_controller_addr = None, bf_advertise_addr = None, bf_advertise_peer_addr = None, bf_min_isr = 2,
      bf_replica_lag_ms = None\<rparr>"

definition parse_number :: "string \<Rightarrow> string + 'a :: len word" where
  "parse_number v = bind_r (parse_uint LENGTH('a) v) (\<lambda>n. Inr (word_of_nat n))"

text \<open>What a flag does with its value; \<open>None\<close> for a flag the broker does not know.\<close>

definition broker_flag :: "string \<Rightarrow> (string \<Rightarrow> broker_flags \<Rightarrow> string + broker_flags) option" where
  "broker_flag flag =
     (if flag = ''--listen'' then Some (\<lambda>v f. Inr (f\<lparr>bf_listen := v\<rparr>))
      else if flag = ''--data-dir'' then Some (\<lambda>v f. Inr (f\<lparr>bf_data_dir := Some v\<rparr>))
      else if flag = ''--fsync'' then Some (\<lambda>v f. bind_r (parse_fsync_policy v) (\<lambda>p. Inr (f\<lparr>bf_fsync := p\<rparr>)))
      else if flag = ''--broker-id'' then Some (\<lambda>v f. bind_r (parse_number v) (\<lambda>n. Inr (f\<lparr>bf_broker_id := n\<rparr>)))
      else if flag = ''--controller-addr'' then Some (\<lambda>v f. Inr (f\<lparr>bf_controller_addr := Some v\<rparr>))
      else if flag = ''--advertise-addr'' then Some (\<lambda>v f. Inr (f\<lparr>bf_advertise_addr := Some v\<rparr>))
      else if flag = ''--advertise-peer-addr'' then Some (\<lambda>v f. Inr (f\<lparr>bf_advertise_peer_addr := Some v\<rparr>))
      else if flag = ''--min-isr'' then Some (\<lambda>v f. bind_r (parse_number v) (\<lambda>n. Inr (f\<lparr>bf_min_isr := n\<rparr>)))
      else if flag = ''--replica-lag-ms'' then
        Some (\<lambda>v f. bind_r (parse_number v) (\<lambda>n. Inr (f\<lparr>bf_replica_lag_ms := Some n\<rparr>)))
      else None)"

text \<open>The loop over the arguments, for either server.\<close>

fun parse_flags ::
    "(string \<Rightarrow> (string \<Rightarrow> 'f \<Rightarrow> string + 'f) option) \<Rightarrow> string list \<Rightarrow> 'f \<Rightarrow> string + 'f" where
  "parse_flags known [] f = Inr f"
| "parse_flags known (flag # args) f =
     (case known flag of
        None \<Rightarrow> Inl (''unknown flag '' @ flag)
      | Some set_flag \<Rightarrow>
          (case args of
             [] \<Rightarrow> Inl (flag @ '' needs a value'')
           | v # args \<Rightarrow> bind_r (set_flag v f) (parse_flags known args)))"

text \<open>What the broker is started with, with the parts of its configuration that theory \<open>Broker\<close> has.\<close>

record broker_launch =
  bl_listen :: string
  bl_data_dir :: string
  bl_controller_addr :: "string option"
  bl_advertise_addr :: "string option"
  bl_advertise_peer_addr :: "string option"
  bl_config :: broker_config

definition parse_broker_args :: "string list \<Rightarrow> string + broker_launch" where
  "parse_broker_args args =
     bind_r (parse_flags broker_flag args broker_flag_defaults) (\<lambda>f.
       case bf_data_dir f of
         None \<Rightarrow> Inl ''required: --data-dir <path>''
       | Some dir \<Rightarrow>
           let config = standalone (default_log_config\<lparr>fsync := bf_fsync f\<rparr>);
               config = config\<lparr>bc_broker_id := bf_broker_id f, bc_clustered := bf_controller_addr f \<noteq> None,
                               bc_min_insync := unat (bf_min_isr f)\<rparr>;
               config = (case bf_replica_lag_ms f of None \<Rightarrow> config | Some ms \<Rightarrow> config\<lparr>bc_replica_lag_ms := unat ms\<rparr>)
           in Inr \<lparr>bl_listen = bf_listen f, bl_data_dir = dir, bl_controller_addr = bf_controller_addr f,
                   bl_advertise_addr = bf_advertise_addr f, bl_advertise_peer_addr = bf_advertise_peer_addr f,
                   bl_config = config\<rparr>)"

section \<open>The controller\<close>

record controller_flags =
  cf_listen :: string
  cf_state_file :: "string option"
  cf_session_timeout_ms :: u64

definition controller_flag :: "string \<Rightarrow> (string \<Rightarrow> controller_flags \<Rightarrow> string + controller_flags) option" where
  "controller_flag flag =
     (if flag = ''--listen'' then Some (\<lambda>v f. Inr (f\<lparr>cf_listen := v\<rparr>))
      else if flag = ''--state-file'' then Some (\<lambda>v f. Inr (f\<lparr>cf_state_file := Some v\<rparr>))
      else if flag = ''--session-timeout-ms'' then
        Some (\<lambda>v f. bind_r (parse_number v) (\<lambda>n. Inr (f\<lparr>cf_session_timeout_ms := n\<rparr>)))
      else None)"

definition parse_controller_args :: "string list \<Rightarrow> string + string \<times> ctl_config" where
  "parse_controller_args args =
     bind_r (parse_flags controller_flag args
        \<lparr>cf_listen = ''127.0.0.1:9090'', cf_state_file = None, cf_session_timeout_ms = 3000\<rparr>) (\<lambda>f.
       case cf_state_file f of
         None \<Rightarrow> Inl ''required: --state-file <path>''
       | Some path \<Rightarrow>
           Inr (cf_listen f, \<lparr>cc_state_file = path, cc_session_timeout = unat (cf_session_timeout_ms f)\<rparr>))"

text \<open>The line a server prints when it is ready.\<close>

definition announce_broker :: "string \<Rightarrow> string" where
  "announce_broker addr = ''replog broker listening on '' @ addr @ [newline]"

definition announce_controller :: "string \<Rightarrow> string" where
  "announce_controller addr = ''replog controller listening on '' @ addr @ [newline]"

section \<open>Both ends agree\<close>

lemma parse_number_show [simp]: "parse_number (show_word w) = Inr w"
proof -
  have "unat w < 2 ^ LENGTH('a)" for w :: "'a :: len word" by (rule unsigned_less)
  then show ?thesis by (simp add: parse_number_def show_word_def)
qed

lemma broker_args_parsed:
  "parse_broker_args (broker_args spec bid addr) =
     bind_r (parse_fsync_policy (cs_fsync spec)) (\<lambda>p. Inr
       \<lparr>bl_listen = ''127.0.0.1:0'', bl_data_dir = join_path (cs_root spec) (''broker-'' @ show_word bid),
        bl_controller_addr = Some addr, bl_advertise_addr = None, bl_advertise_peer_addr = None,
        bl_config = \<lparr>bc_log = default_log_config\<lparr>fsync := p\<rparr>, bc_broker_id = bid, bc_clustered = True,
          bc_min_insync = unat (cs_min_isr spec), bc_replica_lag_ms = unat (cs_replica_lag_ms spec)\<rparr>\<rparr>)"
  by (cases "parse_fsync_policy (cs_fsync spec)")
    (simp_all add: broker_args_def parse_broker_args_def broker_flag_def broker_flag_defaults_def standalone_def Let_def)

lemma controller_args_parsed:
  "parse_controller_args (controller_args spec) =
     Inr (''127.0.0.1:0'', \<lparr>cc_state_file = join_path (cs_root spec) ''controller.state'',
       cc_session_timeout = unat (cs_session_timeout_ms spec)\<rparr>)"
  by (simp add: controller_args_def parse_controller_args_def controller_flag_def)

text \<open>An address in plain text, as sockets print theirs.\<close>

definition plain :: "string \<Rightarrow> bool" where
  "plain s \<longleftrightarrow> s \<noteq> [] \<and> list_all (\<lambda>c. 32 < (of_char c :: nat) \<and> (of_char c :: nat) < 128) s"

lemma white_ends:
  "w \<in> set white_codes \<Longrightarrow> w \<noteq> [] \<and> (last w \<le> 32 \<or> 128 \<le> last w) \<and> (hd w \<le> 32 \<or> 128 \<le> hd w)"
  by (auto simp: white_codes_def)

lemma white_len_plain:
  assumes "32 < (of_char c :: nat)" and "(of_char c :: nat) < 128"
  shows "white_len (c # s) = 0"
proof -
  have "take (length w) (map of_char (c # s)) \<noteq> w" if "w \<in> set white_codes" for w :: "nat list"
  proof
    assume eq: "take (length w) (map of_char (c # s)) = w"
    have "w \<noteq> []" using white_ends [OF that] by simp
    then have "hd w = of_char c" using eq by (cases w) auto
    then show False using white_ends [OF that] assms by simp
  qed
  then have "find (\<lambda>w. take (length w) (map of_char (c # s)) = w) white_codes = None"
    by (simp add: find_None_iff)
  then show ?thesis by (simp add: white_len_def)
qed

lemma white_tail_plain:
  assumes "32 < (of_char c :: nat)" and "(of_char c :: nat) < 128"
  shows "white_tail (s @ [c]) = 0"
proof -
  have "drop (length (s @ [c]) - length w) (map of_char (s @ [c])) \<noteq> w" if "w \<in> set white_codes" for w :: "nat list"
  proof
    assume eq: "drop (length (s @ [c]) - length w) (map of_char (s @ [c])) = w"
    have w: "w \<noteq> []" using white_ends [OF that] by simp
    then have "last w = last (map of_char (s @ [c]))"
      using eq by (metis last_drop drop_eq_Nil not_le)
    then have "last w = of_char c" by simp
    then show False using white_ends [OF that] assms by simp
  qed
  then have "find (\<lambda>w. drop (length (s @ [c]) - length w) (map of_char (s @ [c])) = w) white_codes = None"
    by (simp add: find_None_iff)
  then show ?thesis by (simp add: white_tail_def)
qed

lemma trim_announced:
  assumes "plain addr" and c: "32 < (of_char c :: nat)" "(of_char c :: nat) < 128"
  shows "trim_end (trim_start (c # s @ addr @ [newline])) = c # s @ addr"
proof -
  have start: "trim_start (c # s @ addr @ [newline]) = c # s @ addr @ [newline]"
    by (subst trim_start.simps) (simp add: white_len_plain [OF c])
  obtain addr' d where addr: "addr = addr' @ [d]" "32 < (of_char d :: nat)" "(of_char d :: nat) < 128"
    using assms(1) by (cases addr rule: rev_cases) (auto simp: plain_def)
  let ?t = "c # s @ addr"
  have one: "white_tail (?t @ [newline]) = 1"
  proof -
    have "find (\<lambda>w. drop (length (?t @ [newline]) - length w) (map of_char (?t @ [newline])) = w) white_codes = Some [10]"
      by (simp add: white_codes_def newline_def)
    then show ?thesis by (simp add: white_tail_def)
  qed
  have zero: "white_tail ?t = 0" using white_tail_plain [OF addr(2,3), of "c # s @ addr'"] by (simp add: addr(1))
  have "trim_end (?t @ [newline]) = trim_end ?t" by (subst trim_end.simps) (use one in simp)
  also have "\<dots> = ?t" by (subst trim_end.simps) (simp add: zero)
  finally show ?thesis using start by simp
qed

lemma last_word_announced:
  assumes "plain addr" and "32 < (of_char c :: nat)" "(of_char c :: nat) < 128"
  shows "last_word (c # s @ '' '' @ addr @ [newline]) = addr"
proof -
  have trim: "trim_end (trim_start (c # s @ '' '' @ addr @ [newline])) = c # s @ '' '' @ addr"
    using trim_announced [OF assms, of "s @ '' ''"] by simp
  have "x \<noteq> CHR '' ''" if "x \<in> set (rev addr)" for x
    using assms(1) that by (auto simp: plain_def list_all_iff)
  then have "takeWhile (\<lambda>x. x \<noteq> CHR '' '') (rev addr @ CHR '' '' # rev (c # s)) = rev addr"
    by (subst takeWhile_append2) auto
  then show ?thesis unfolding last_word_def trim by simp
qed

lemma contains_infix: "contains pat (pre @ pat @ post)"
proof (induction pre)
  case Nil
  show ?case
  proof (cases "pat @ post")
    case (Cons a list)
    then have "take (length pat) (a # list) = pat" by (metis append_eq_conv_conj)
    then show ?thesis by (simp add: Cons)
  qed simp
qed simp

lemma spawn_announced:
  assumes "plain addr" and "ps_spawn ps bin args w = (w', Inr (child, line))"
    and line: "line = announce_broker addr \<or> line = announce_controller addr"
  shows "spawn_and_get_addr ps bin args w = (w', Inr (child, addr))"
proof -
  have "contains ''listening on'' line"
    using line contains_infix [of "''listening on''" "''replog broker ''" "'' '' @ addr @ [newline]"]
      contains_infix [of "''listening on''" "''replog controller ''" "'' '' @ addr @ [newline]"]
    by (auto simp: announce_broker_def announce_controller_def)
  moreover have "last_word line = addr"
    using line last_word_announced [OF assms(1), of "CHR ''r''" "''eplog broker listening on''"]
      last_word_announced [OF assms(1), of "CHR ''r''" "''eplog controller listening on''"]
    by (auto simp: announce_broker_def announce_controller_def)
  moreover have "addr \<noteq> []" using assms(1) by (simp add: plain_def)
  ultimately show ?thesis using assms(2) by (simp add: spawn_and_get_addr_def)
qed

text \<open>
  C31. The harness and the servers it spawns agree. The broker parses the arguments the harness gives
  it to the configuration the harness means, or refuses them when the fsync policy is none; so does
  the controller; and whatever else the line says, a server that announces a plain address is found
  at that address.
\<close>

theorem harness_agrees_with_servers:
  assumes "plain addr"
  shows "parse_broker_args (broker_args spec bid ctl) =
      bind_r (parse_fsync_policy (cs_fsync spec)) (\<lambda>p. Inr
        \<lparr>bl_listen = ''127.0.0.1:0'', bl_data_dir = join_path (cs_root spec) (''broker-'' @ show_word bid),
         bl_controller_addr = Some ctl, bl_advertise_addr = None, bl_advertise_peer_addr = None,
         bl_config = \<lparr>bc_log = default_log_config\<lparr>fsync := p\<rparr>, bc_broker_id = bid, bc_clustered = True,
           bc_min_insync = unat (cs_min_isr spec), bc_replica_lag_ms = unat (cs_replica_lag_ms spec)\<rparr>\<rparr>) \<and>
    parse_controller_args (controller_args spec) =
      Inr (''127.0.0.1:0'', \<lparr>cc_state_file = join_path (cs_root spec) ''controller.state'',
        cc_session_timeout = unat (cs_session_timeout_ms spec)\<rparr>) \<and>
    (ps_spawn ps bin args w = (w', Inr (child, line)) \<and> (line = announce_broker addr \<or> line = announce_controller addr) \<longrightarrow>
       spawn_and_get_addr ps bin args w = (w', Inr (child, addr)))"
  by (intro conjI) (rule broker_args_parsed, rule controller_args_parsed, rule impI, elim conjE, rule spawn_announced [OF assms])

text \<open>The specification the harness starts from, and a broker at a local port.\<close>

lemma harness_agrees_with_servers_witness:
  "(\<exists>l. parse_broker_args (broker_args (cluster_spec_new ''c'' ''b'' ''/tmp'') 2 ''127.0.0.1:4001'') = Inr l \<and>
      fsync (bc_log (bl_config l)) = Batch 1048576 5 \<and> bc_replica_lag_ms (bl_config l) = 1500 \<and> bl_data_dir l = ''/tmp/broker-2'') \<and>
   spawn_and_get_addr \<lparr>ps_spawn = \<lambda>_ _ w. (w, Inr (7, announce_broker ''127.0.0.1:4000'')), ps_kill = \<lambda>_ w. w,
      ps_controller_meta = \<lambda>_ w. (w, None), ps_now = \<lambda>w. w, ps_sleep = (+)\<rparr> ''b'' [] 0 = (0, Inr (7, ''127.0.0.1:4000''))"
proof -
  have addr: "plain ''127.0.0.1:4000''" by (simp add: plain_def)
  have p: "parse_fsync_policy (cs_fsync (cluster_spec_new ''c'' ''b'' ''/tmp'')) = Inr (Batch 1048576 5)"
    by (simp add: cluster_spec_new_def parse_fsync_policy_def strip_prefix_def parse_uint_def dec_val_def is_digit_def
        digit_val_def Let_def)
  have dir: "join_path (cs_root (cluster_spec_new ''c'' ''b'' ''/tmp'')) (''broker-'' @ show_word (2 :: u32)) = ''/tmp/broker-2''"
    by code_simp
  note agree = harness_agrees_with_servers [OF addr]
  have "parse_broker_args (broker_args (cluster_spec_new ''c'' ''b'' ''/tmp'') 2 ''127.0.0.1:4001'') = Inr
      \<lparr>bl_listen = ''127.0.0.1:0'', bl_data_dir = ''/tmp/broker-2'',
       bl_controller_addr = Some ''127.0.0.1:4001'', bl_advertise_addr = None, bl_advertise_peer_addr = None,
       bl_config = \<lparr>bc_log = default_log_config\<lparr>fsync := Batch 1048576 5\<rparr>, bc_broker_id = 2, bc_clustered = True,
         bc_min_insync = unat (cs_min_isr (cluster_spec_new ''c'' ''b'' ''/tmp'')),
         bc_replica_lag_ms = unat (cs_replica_lag_ms (cluster_spec_new ''c'' ''b'' ''/tmp''))\<rparr>\<rparr>"
    using agree [THEN conjunct1, of "cluster_spec_new ''c'' ''b'' ''/tmp''" 2 "''127.0.0.1:4001''"] unfolding p dir by simp
  moreover have "unat (cs_replica_lag_ms (cluster_spec_new ''c'' ''b'' ''/tmp'')) = 1500" by (simp add: cluster_spec_new_def)
  ultimately show ?thesis
    using agree [THEN conjunct2, THEN conjunct2, of "\<lparr>ps_spawn = \<lambda>_ _ w. (w, Inr (7, announce_broker ''127.0.0.1:4000'')), ps_kill = \<lambda>_ w. w,
      ps_controller_meta = \<lambda>_ w. (w, None), ps_now = \<lambda>w. w, ps_sleep = (+)\<rparr>" "''b''" "[]" 0 0 7]
    by simp
qed

end
