(* ===== verification/Connections.thy ===== *)
theory Connections
  imports ProtoCodec ControllerProperties "HOL-Library.Sublist"
begin

text \<open>
  Requests over byte streams: the loop of \<open>serve_connection\<close> in \<^verbatim>\<open>src/src/controller/mod.rs\<close>, which
  \<^verbatim>\<open>src/src/broker/mod.rs\<close> repeats, and the controller as a process that serves many connections.
  Bytes arrive in pieces of any size. The theory shows that the process refines the controller of
  theory \<open>Controller\<close>, which knows requests and responses only.
\<close>

section \<open>A connection\<close>

text \<open>
  The bytes that have arrived (\<open>cn_got\<close>, of which the loop has read all but \<open>cn_in\<close>), whether the
  peer has closed its side, whether the loop still runs, and the bytes sent.
\<close>

record conn =
  cn_got :: bytes
  cn_in :: bytes
  cn_eof :: bool
  cn_open :: bool
  cn_out :: bytes

definition conn_new :: conn where
  "conn_new = \<lparr>cn_got = [], cn_in = [], cn_eof = False, cn_open = True, cn_out = []\<rparr>"

datatype turn = Wait | Hangup | Serve bytes bytes

text \<open>
  What the loop does next. \<open>read_frame\<close> gives an error for bytes that end too early, which on a
  live connection is a wait for more; a length out of bounds is an error at once.
\<close>

definition bad_length :: "bytes \<Rightarrow> bool" where
  "bad_length bs \<longleftrightarrow> 4 \<le> length bs \<and>
     (let len = unat (of_le (take 4 bs) :: u32) in len = 0 \<or> len > MAX_FRAME_BYTES)"

definition next_turn :: "conn \<Rightarrow> turn" where
  "next_turn cn =
     (if \<not> cn_open cn then Wait
      else case read_frame (cn_in cn) of
             Frame frame rest \<Rightarrow> Serve frame rest
           | FrameEof \<Rightarrow> if cn_eof cn then Hangup else Wait
           | FrameErr _ \<Rightarrow> if cn_eof cn \<or> bad_length (cn_in cn) then Hangup else Wait)"

text \<open>A round of the loop, with what was asked and answered; \<open>None\<close> while there is nothing to do.\<close>

type_synonym served = "u32 \<times> request \<times> response option"

definition serve_round ::
    "(request \<Rightarrow> 's \<Rightarrow> 's \<times> response option) \<Rightarrow> conn \<Rightarrow> 's \<Rightarrow> (conn \<times> 's \<times> served list) option" where
  "serve_round handler cn s =
     (case next_turn cn of
        Wait \<Rightarrow> None
      | Hangup \<Rightarrow> Some (cn\<lparr>cn_open := False\<rparr>, s, [])
      | Serve frame rest \<Rightarrow>
          (case decode_request frame of
             Inl _ \<Rightarrow> Some (cn\<lparr>cn_in := rest, cn_open := False\<rparr>, s, [])
           | Inr (corr, req) \<Rightarrow>
               let (s, r) = handler req s
               in Some (cn\<lparr>cn_in := rest,
                          cn_out := cn_out cn @ (case r of None \<Rightarrow> [] | Some r \<Rightarrow> encode_response r corr)\<rparr>,
                        s, [(corr, req, r)])))"

section \<open>Processes\<close>

text \<open>
  A process: its state, its connections, and, for the statements only, what has been served on
  which connection. A request is handled at some time \<open>now\<close>; \<open>env\<close> is what else changes the state.
\<close>

record 's process =
  pr_state :: 's
  pr_conns :: "conn list"
  pr_log :: "(nat \<times> served) list"

definition process_start :: "'s \<Rightarrow> 's process" where
  "process_start s = \<lparr>pr_state = s, pr_conns = [], pr_log = []\<rparr>"

inductive process_step ::
    "(nat \<Rightarrow> request \<Rightarrow> 's \<Rightarrow> 's \<times> response option) \<Rightarrow> ('s \<Rightarrow> 's \<Rightarrow> bool) \<Rightarrow> 's process \<Rightarrow> 's process \<Rightarrow> bool"
  for handler :: "nat \<Rightarrow> request \<Rightarrow> 's \<Rightarrow> 's \<times> response option" and env :: "'s \<Rightarrow> 's \<Rightarrow> bool" where
  accept: "process_step handler env p (p\<lparr>pr_conns := pr_conns p @ [conn_new]\<rparr>)"
| arrive: "i < length (pr_conns p) \<Longrightarrow> pr_conns p ! i = cn \<Longrightarrow> \<not> cn_eof cn \<Longrightarrow>
    process_step handler env p
      (p\<lparr>pr_conns := (pr_conns p)[i := cn\<lparr>cn_got := cn_got cn @ bs, cn_in := cn_in cn @ bs\<rparr>]\<rparr>)"
| shut: "i < length (pr_conns p) \<Longrightarrow> pr_conns p ! i = cn \<Longrightarrow>
    process_step handler env p (p\<lparr>pr_conns := (pr_conns p)[i := cn\<lparr>cn_eof := True\<rparr>]\<rparr>)"
| round: "i < length (pr_conns p) \<Longrightarrow> serve_round (handler now) (pr_conns p ! i) (pr_state p) = Some (cn, s, served) \<Longrightarrow>
    process_step handler env p
      (p\<lparr>pr_state := s, pr_conns := (pr_conns p)[i := cn], pr_log := pr_log p @ map (Pair i) served\<rparr>)"
| other: "env (pr_state p) s \<Longrightarrow> process_step handler env p (p\<lparr>pr_state := s\<rparr>)"

text \<open>The same process without bytes: requests and what they are answered.\<close>

inductive message_step ::
    "(nat \<Rightarrow> request \<Rightarrow> 's \<Rightarrow> 's \<times> response option) \<Rightarrow> ('s \<Rightarrow> 's \<Rightarrow> bool) \<Rightarrow>
     's \<times> (nat \<times> served) list \<Rightarrow> 's \<times> (nat \<times> served) list \<Rightarrow> bool"
  for handler :: "nat \<Rightarrow> request \<Rightarrow> 's \<Rightarrow> 's \<times> response option" and env :: "'s \<Rightarrow> 's \<Rightarrow> bool" where
  request: "handler now req s = (s', r) \<Longrightarrow> message_step handler env (s, log) (s', log @ [(i, corr, req, r)])"
| other: "env s s' \<Longrightarrow> message_step handler env (s, log) (s', log)"

text \<open>What has been served on a connection, and the bytes of requests and answers.\<close>

definition served_on :: "nat \<Rightarrow> (nat \<times> served) list \<Rightarrow> served list" where
  "served_on i log = map snd (filter (\<lambda>e. fst e = i) log)"

definition asked :: "served list \<Rightarrow> (u32 \<times> request) list" where
  "asked = map (\<lambda>(corr, req, _). (corr, req))"

definition request_bytes :: "(u32 \<times> request) list \<Rightarrow> bytes" where
  "request_bytes rs = concat (map (\<lambda>(corr, req). encode_request req corr) rs)"

definition answer_bytes :: "served list \<Rightarrow> bytes" where
  "answer_bytes es = concat (map (\<lambda>(corr, _, r). case r of None \<Rightarrow> [] | Some r \<Rightarrow> encode_response r corr) es)"

lemma bytes_simps [simp]:
  "served_on i [] = []" "served_on i (log @ log') = served_on i log @ served_on i log'"
  "served_on i (map (Pair j) es) = (if i = j then es else [])"
  "asked [] = []" "asked (es @ es') = asked es @ asked es'" "asked [(corr, req, r)] = [(corr, req)]"
  "request_bytes [] = []" "request_bytes (rs @ rs') = request_bytes rs @ request_bytes rs'"
  "request_bytes ((corr, req) # rs) = encode_request req corr @ request_bytes rs"
  "answer_bytes [] = []" "answer_bytes (es @ es') = answer_bytes es @ answer_bytes es'"
  "answer_bytes [(corr, req, r)] = (case r of None \<Rightarrow> [] | Some r \<Rightarrow> encode_response r corr)"
proof -
  show "served_on i (map (Pair j) es) = (if i = j then es else [])" by (induction es) (auto simp: served_on_def)
qed (simp_all add: served_on_def asked_def request_bytes_def answer_bytes_def)

section \<open>The refinement\<close>

lemma serve_round_cases:
  assumes "serve_round handler cn s = Some (cn', s', served)"
  obtains (idle) "s' = s" and "served = []" and "cn_out cn' = cn_out cn"
  | (reply) corr req r where "handler req s = (s', r)" and "served = [(corr, req, r)]"
      and "cn_out cn' = cn_out cn @ answer_bytes served"
  using assms by (auto simp: serve_round_def split: turn.splits sum.splits prod.splits)

text \<open>A step of the process is a step without bytes, or none.\<close>

lemma process_messages:
  assumes "process_step handler env p p'"
  shows "(message_step handler env)\<^sup>=\<^sup>= (pr_state p, pr_log p) (pr_state p', pr_log p')"
  using assms
proof cases
  case (round i now cn s served)
  from round(3) show ?thesis
    by (cases rule: serve_round_cases) (use round(1) in \<open>auto intro: message_step.request\<close>)
next
  case (other s)
  then show ?thesis by (auto intro: message_step.other)
qed auto

lemma process_runs:
  "(process_step handler env)\<^sup>*\<^sup>* p p' \<Longrightarrow>
   (message_step handler env)\<^sup>*\<^sup>* (pr_state p, pr_log p) (pr_state p', pr_log p')"
proof (induction rule: rtranclp_induct)
  case (step p' p'')
  from process_messages [OF step(2)] step(3) show ?case by (auto intro: rtranclp.rtrancl_into_rtrancl)
qed simp

text \<open>The bytes sent are the answers given, in the order of the requests.\<close>

lemma process_answers:
  assumes "(process_step handler env)\<^sup>*\<^sup>* (process_start s) p"
  shows "(\<forall>i \<ge> length (pr_conns p). served_on i (pr_log p) = []) \<and>
    (\<forall>i < length (pr_conns p). cn_out (pr_conns p ! i) = answer_bytes (served_on i (pr_log p)))"
  using assms
proof (induction rule: rtranclp_induct)
  case base
  then show ?case by (simp add: process_start_def)
next
  case (step p p')
  from step(2) show ?case
  proof cases
    case accept
    then show ?thesis using step(3) by (auto simp: nth_append conn_new_def less_Suc_eq)
  next
    case (round i now cn s' served)
    have "cn_out cn = cn_out (pr_conns p ! i) @ answer_bytes served"
      using round(3) by (cases rule: serve_round_cases) simp_all
    then show ?thesis using round(1,2) step(3) by (auto simp: nth_list_update)
  qed (use step(3) in \<open>auto simp: nth_list_update\<close>)
qed

section \<open>Requests that arrive in pieces\<close>

definition sendable :: "u32 \<times> request \<Rightarrow> bool" where
  "sendable = (\<lambda>(corr, req). wf_request req \<and> length (encode_request req corr) \<le> MAX_FRAME_BYTES + 4)"

text \<open>A frame that has not arrived in full is neither read nor refused.\<close>

lemma incomplete_frame:
  assumes s: "sendable (corr, req)" and p: "strict_prefix bs (encode_request req corr)"
  shows "\<nexists>frame rest. read_frame bs = Frame frame rest" and "\<not> bad_length bs"
proof -
  obtain more where more: "encode_request req corr = bs @ more" "more \<noteq> []" using p by (auto elim: strict_prefixE')
  obtain frame where f: "read_frame (bs @ more) = Frame frame []"
    using request_frame [of req corr "[]"] s more(1) by (auto simp: sendable_def)
  have whole: "4 \<le> length xs \<and> \<not> bad_length xs \<and> length (drop 4 xs) = unat (of_le (take 4 xs) :: u32)"
    if "read_frame xs = Frame frame []" for xs
    using that by (auto simp: read_frame_def bad_length_def Let_def split: if_splits)
  note full = whole [OF f, THEN conjunct1] whole [OF f, THEN conjunct2, THEN conjunct1]
    whole [OF f, THEN conjunct2, THEN conjunct2]
  have pre: "take 4 bs = take 4 (bs @ more)" if "4 \<le> length bs" using that by simp
  show "\<not> bad_length bs" using full pre by (auto simp: bad_length_def Let_def)
  have "length (drop 4 bs) < unat (of_le (take 4 bs) :: u32)" if "4 \<le> length bs"
  proof -
    have "0 < length more" using more(2) by simp
    then have "length (drop 4 bs) < length (drop 4 (bs @ more))" using that unfolding length_drop length_append by linarith
    then show ?thesis unfolding full(3) by (simp only: pre [OF that])
  qed
  then show "\<nexists>frame rest. read_frame bs = Frame frame rest" by (auto simp: read_frame_def Let_def not_less)
qed

text \<open>What a connection that was sent well-formed requests has read: the first of them.\<close>

definition in_step :: "conn \<Rightarrow> served list \<Rightarrow> bool" where
  "in_step cn es \<longleftrightarrow>
     (\<forall>sent. list_all sendable sent \<and> prefix (cn_got cn) (request_bytes sent) \<longrightarrow>
        asked es = take (length es) sent \<and> cn_got cn = request_bytes (asked es) @ cn_in cn \<and>
        (cn_open cn \<or> cn_eof cn \<and> (\<nexists>frame rest. read_frame (cn_in cn) = Frame frame rest)))"

lemma in_step_new: "in_step conn_new []"
  by (simp add: in_step_def conn_new_def)

lemma length_asked [simp]: "length (asked es) = length es"
  by (simp add: asked_def)

lemma in_step_shut:
  assumes "in_step cn es"
  shows "in_step (cn\<lparr>cn_eof := True\<rparr>) es"
  unfolding in_step_def
proof (intro allI impI)
  fix sent assume "list_all sendable sent \<and> prefix (cn_got (cn\<lparr>cn_eof := True\<rparr>)) (request_bytes sent)"
  then have "list_all sendable sent \<and> prefix (cn_got cn) (request_bytes sent)" by simp
  then have "asked es = take (length es) sent \<and> cn_got cn = request_bytes (asked es) @ cn_in cn \<and>
      (cn_open cn \<or> (\<nexists>frame rest. read_frame (cn_in cn) = Frame frame rest))"
    using assms unfolding in_step_def by blast
  then show "asked es = take (length es) sent \<and>
    cn_got (cn\<lparr>cn_eof := True\<rparr>) = request_bytes (asked es) @ cn_in (cn\<lparr>cn_eof := True\<rparr>) \<and>
    (cn_open (cn\<lparr>cn_eof := True\<rparr>) \<or> cn_eof (cn\<lparr>cn_eof := True\<rparr>) \<and>
       (\<nexists>frame rest. read_frame (cn_in (cn\<lparr>cn_eof := True\<rparr>)) = Frame frame rest))"
    by simp
qed

lemma in_step_arrive:
  assumes "in_step cn es" and "\<not> cn_eof cn"
  shows "in_step (cn\<lparr>cn_got := cn_got cn @ bs, cn_in := cn_in cn @ bs\<rparr>) es"
  unfolding in_step_def
proof (intro allI impI)
  fix sent assume "list_all sendable sent \<and>
    prefix (cn_got (cn\<lparr>cn_got := cn_got cn @ bs, cn_in := cn_in cn @ bs\<rparr>)) (request_bytes sent)"
  then have "list_all sendable sent \<and> prefix (cn_got cn) (request_bytes sent)" by (auto dest: append_prefixD)
  then have "asked es = take (length es) sent \<and> cn_got cn = request_bytes (asked es) @ cn_in cn \<and> cn_open cn"
    using assms unfolding in_step_def by blast
  then show "asked es = take (length es) sent \<and>
    cn_got (cn\<lparr>cn_got := cn_got cn @ bs, cn_in := cn_in cn @ bs\<rparr>) =
      request_bytes (asked es) @ cn_in (cn\<lparr>cn_got := cn_got cn @ bs, cn_in := cn_in cn @ bs\<rparr>) \<and>
    (cn_open (cn\<lparr>cn_got := cn_got cn @ bs, cn_in := cn_in cn @ bs\<rparr>) \<or>
     cn_eof (cn\<lparr>cn_got := cn_got cn @ bs, cn_in := cn_in cn @ bs\<rparr>) \<and>
     (\<nexists>frame rest. read_frame (cn_in (cn\<lparr>cn_got := cn_got cn @ bs, cn_in := cn_in cn @ bs\<rparr>)) = Frame frame rest))"
    by simp
qed

text \<open>What is left to read is the start of the requests not yet read.\<close>

lemma in_step_rest:
  assumes "in_step cn es" and "list_all sendable sent" and "prefix (cn_got cn) (request_bytes sent)"
  shows "prefix (cn_in cn) (request_bytes (drop (length es) sent))"
proof -
  have a: "asked es = take (length es) sent" "cn_got cn = request_bytes (asked es) @ cn_in cn"
    using assms unfolding in_step_def by blast+
  have "request_bytes sent = request_bytes (take (length es) sent) @ request_bytes (drop (length es) sent)"
    by (metis append_take_drop_id bytes_simps(8))
  then show ?thesis using assms(3) a by simp
qed

text \<open>The frame at hand, if there is one, is that of the next request.\<close>

lemma next_request:
  assumes s: "list_all sendable sent" and p: "prefix bs (request_bytes sent)"
  shows "\<not> bad_length bs \<and>
    (\<forall>frame rest. read_frame bs = Frame frame rest \<longrightarrow>
       (\<exists>corr req more. sent = (corr, req) # more \<and> bs = encode_request req corr @ rest \<and>
          decode_request frame = Inr (corr, req)))"
proof (cases sent)
  case Nil
  then show ?thesis using p by (simp add: bad_length_def read_frame_def)
next
  case (Cons e more)
  obtain corr req where e: "e = (corr, req)" by fastforce
  have ok: "sendable (corr, req)" using s Cons e by simp
  consider (short) "strict_prefix bs (encode_request req corr)" | (long) rest where "bs = encode_request req corr @ rest"
    using p Cons e by (auto simp: prefix_append strict_prefix_def)
  then show ?thesis
  proof cases
    case short
    then show ?thesis using incomplete_frame [OF ok] by blast
  next
    case long
    obtain frame where f: "read_frame bs = Frame frame rest" "decode_request frame = Inr (corr, req)"
      using request_frame [of req corr rest] ok long by (auto simp: sendable_def)
    have "\<not> bad_length bs" using f(1) by (auto simp: read_frame_def bad_length_def Let_def split: if_splits)
    then show ?thesis using f long Cons e by auto
  qed
qed

lemma in_step_round:
  assumes i: "in_step cn es" and r: "serve_round handler cn s = Some (cn', s', served)"
  shows "in_step cn' (es @ served)"
  unfolding in_step_def
proof (intro allI impI)
  fix sent assume sent: "list_all sendable sent \<and> prefix (cn_got cn') (request_bytes sent)"
  have got: "cn_got cn' = cn_got cn" "cn_eof cn' = cn_eof cn"
    using r by (auto simp: serve_round_def split: turn.splits sum.splits prod.splits)
  have was: "asked es = take (length es) sent" "cn_got cn = request_bytes (asked es) @ cn_in cn"
    using i sent got unfolding in_step_def by auto
  let ?left = "drop (length es) sent"
  have left: "list_all sendable ?left" "prefix (cn_in cn) (request_bytes ?left)"
    using sent in_step_rest [OF i, of sent] got by (auto simp: list_all_iff dest: in_set_dropD)
  note nxt = next_request [OF left]
  have turn: "cn_open cn" "next_turn cn \<noteq> Wait" using r by (auto simp: serve_round_def next_turn_def split: if_splits)
  show "asked (es @ served) = take (length (es @ served)) sent \<and>
      cn_got cn' = request_bytes (asked (es @ served)) @ cn_in cn' \<and>
      (cn_open cn' \<or> cn_eof cn' \<and> (\<nexists>frame rest. read_frame (cn_in cn') = Frame frame rest))"
  proof (cases "read_frame (cn_in cn)")
    case (Frame frame rest)
    then obtain corr req more where n: "?left = (corr, req) # more" "cn_in cn = encode_request req corr @ rest"
      "decode_request frame = Inr (corr, req)" using nxt by blast
    obtain s1 r1 where h: "handler req s = (s1, r1)" by fastforce
    have now: "served = [(corr, req, r1)]" "cn_in cn' = rest" "cn_open cn'"
      using r Frame n(3) h turn(1) by (auto simp: serve_round_def next_turn_def)
    have "take (length es + 1) sent = take (length es) sent @ [(corr, req)]"
      using n(1) by (metis take_add take_Suc_Cons take0 One_nat_def)
    then show ?thesis using now was n(2) got by simp
  next
    case FrameEof
    then have "cn' = cn\<lparr>cn_open := False\<rparr>" "served = []" "cn_eof cn"
      using r turn by (auto simp: serve_round_def next_turn_def split: if_splits)
    then show ?thesis using was FrameEof by simp
  next
    case (FrameErr e)
    then have "cn' = cn\<lparr>cn_open := False\<rparr>" "served = []" "cn_eof cn"
      using r turn nxt by (auto simp: serve_round_def next_turn_def split: if_splits)
    then show ?thesis using was FrameErr by simp
  qed
qed

lemma all_updated:
  assumes "\<And>j. j < length cs \<Longrightarrow> j \<noteq> i \<Longrightarrow> P j (cs ! j)" and "P i c"
  shows "\<forall>j < length (cs[i := c]). P j (cs[i := c] ! j)"
proof (intro allI impI)
  fix j assume "j < length (cs[i := c])"
  then show "P j (cs[i := c] ! j)" using assms by (cases "j = i") simp_all
qed

lemma process_in_step:
  assumes "(process_step handler env)\<^sup>*\<^sup>* (process_start s) p"
  shows "\<forall>i < length (pr_conns p). in_step (pr_conns p ! i) (served_on i (pr_log p))"
  using assms
proof (induction rule: rtranclp_induct)
  case base
  then show ?case by (simp add: process_start_def)
next
  case (step p p')
  have none: "served_on (length (pr_conns p)) (pr_log p) = []" using process_answers [OF step(1)] by simp
  from step(2) show ?case
  proof cases
    case accept
    then show ?thesis using step(3) none by (auto simp: nth_append less_Suc_eq in_step_new)
  next
    case (arrive i cn bs)
    have "in_step (cn\<lparr>cn_got := cn_got cn @ bs, cn_in := cn_in cn @ bs\<rparr>) (served_on i (pr_log p))"
      by (rule in_step_arrive [OF _ arrive(4)]) (use step(3) arrive(2,3) in blast)
    then show ?thesis unfolding arrive(1)
      using all_updated [of "pr_conns p" i "\<lambda>j cn. in_step cn (served_on j (pr_log p))"] step(3) by simp
  next
    case (shut i cn)
    have "in_step (cn\<lparr>cn_eof := True\<rparr>) (served_on i (pr_log p))"
      by (rule in_step_shut) (use step(3) shut(2,3) in blast)
    then show ?thesis unfolding shut(1)
      using all_updated [of "pr_conns p" i "\<lambda>j cn. in_step cn (served_on j (pr_log p))"] step(3) by simp
  next
    case (round i now cn s' served)
    have "in_step cn (served_on i (pr_log p) @ served)"
      by (rule in_step_round [OF _ round(3)]) (use step(3) round(2) in blast)
    moreover have "in_step (pr_conns p ! j) (served_on j (pr_log p @ map (Pair i) served))"
      if "j < length (pr_conns p)" "j \<noteq> i" for j
      using step(3) that by simp
    ultimately show ?thesis unfolding round(1)
      using all_updated [of "pr_conns p" i "\<lambda>j cn. in_step cn (served_on j (pr_log p @ map (Pair i) served))"] by simp
  qed (use step(3) in auto)
qed

section \<open>The controller as a process\<close>

text \<open>What a process does to its state is what its handler and its surroundings do.\<close>

locale message_server =
  fixes handler :: "nat \<Rightarrow> request \<Rightarrow> 's \<Rightarrow> 's \<times> response option"
    and env :: "'s \<Rightarrow> 's \<Rightarrow> bool"
    and machine :: "'s \<Rightarrow> 's \<Rightarrow> bool"
  assumes handled: "handler now req s = (s', r) \<Longrightarrow> machine s s'"
    and surrounded: "env s s' \<Longrightarrow> machine s s'"
begin

lemma message_machine: "message_step handler env x y \<Longrightarrow> machine (fst x) (fst y)"
  by (induction rule: message_step.induct) (simp_all add: handled surrounded)

lemma process_machine:
  assumes "(process_step handler env)\<^sup>*\<^sup>* p p'"
  shows "machine\<^sup>*\<^sup>* (pr_state p) (pr_state p')"
proof -
  have "machine\<^sup>*\<^sup>* (fst x) (fst y)" if "(message_step handler env)\<^sup>*\<^sup>* x y" for x y
    using that by (induction rule: rtranclp_induct) (auto intro: rtranclp.rtrancl_into_rtrancl dest: message_machine)
  from this [OF process_runs [OF assms]] show ?thesis by simp
qed

end

definition ctl_handler :: "ctl_config \<Rightarrow> nat \<Rightarrow> request \<Rightarrow> controller \<Rightarrow> controller \<times> response option" where
  "ctl_handler cfg now req c = (let (c, r) = handle cfg now req c in (c, Some r))"

text \<open>The sweep task, which ticks beside the connections.\<close>

definition ctl_env :: "ctl_config \<Rightarrow> controller \<Rightarrow> controller \<Rightarrow> bool" where
  "ctl_env cfg c c' \<longleftrightarrow> (\<exists>now. c' = sweep_liveness cfg now c)"

interpretation ctl_process: message_server "ctl_handler cfg" "ctl_env cfg" "ctl_step cfg" for cfg
proof
  fix now req c c' r assume "ctl_handler cfg now req c = (c', r)"
  then have "c' = fst (handle cfg now req c)" by (auto simp: ctl_handler_def split: prod.splits)
  then show "ctl_step cfg c c'" by (simp add: ctl_step.request)
next
  fix c c' assume "ctl_env cfg c c'"
  then show "ctl_step cfg c c'" by (auto simp: ctl_env_def intro: ctl_step.sweep)
qed

text \<open>
  C12. The controller process refines the controller. In every run of the process, with any number
  of connections, bytes that arrive in any pieces and sweeps in between, its state is that of a run
  of the controller on the requests served. On a connection that is sent well-formed requests, those
  served are the first of them, in order and each once, and the bytes sent back are their answers
  in that order; when all bytes have arrived and the loop waits for more, every request has been
  served. What other connections send does not matter, bytes that decode to nothing included.
\<close>

theorem connections_refine_controller:
  assumes "(process_step (ctl_handler cfg) (ctl_env cfg))\<^sup>*\<^sup>* (process_start c) p" and "i < length (pr_conns p)"
    and "list_all sendable sent" and "prefix (cn_got (pr_conns p ! i)) (request_bytes sent)"
  shows "(message_step (ctl_handler cfg) (ctl_env cfg))\<^sup>*\<^sup>* (c, []) (pr_state p, pr_log p) \<and>
    (ctl_step cfg)\<^sup>*\<^sup>* c (pr_state p) \<and>
    prefix (asked (served_on i (pr_log p))) sent \<and>
    cn_out (pr_conns p ! i) = answer_bytes (served_on i (pr_log p)) \<and>
    (cn_got (pr_conns p ! i) = request_bytes sent \<and> next_turn (pr_conns p ! i) = Wait \<longrightarrow>
       asked (served_on i (pr_log p)) = sent)"
proof -
  let ?cn = "pr_conns p ! i" and ?es = "served_on i (pr_log p)"
  have run: "(message_step (ctl_handler cfg) (ctl_env cfg))\<^sup>*\<^sup>* (c, []) (pr_state p, pr_log p)" "(ctl_step cfg)\<^sup>*\<^sup>* c (pr_state p)"
    using process_runs [OF assms(1)] ctl_process.process_machine [OF assms(1)] by (simp_all add: process_start_def)
  have out: "cn_out ?cn = answer_bytes ?es" using process_answers [OF assms(1)] assms(2) by blast
  have "in_step ?cn ?es" using process_in_step [OF assms(1)] assms(2) by blast
  then have st: "asked ?es = take (length ?es) sent" "cn_got ?cn = request_bytes (asked ?es) @ cn_in ?cn"
    "cn_open ?cn \<or> (\<nexists>frame rest. read_frame (cn_in ?cn) = Frame frame rest)"
    using assms(3,4) unfolding in_step_def by blast+
  have all: "asked ?es = sent" if got: "cn_got ?cn = request_bytes sent" and idle: "next_turn ?cn = Wait"
  proof (rule ccontr)
    assume "asked ?es \<noteq> sent"
    then obtain corr req more where left: "drop (length ?es) sent = (corr, req) # more"
      using st(1) by (cases "drop (length ?es) sent") auto
    have "request_bytes sent = request_bytes (asked ?es) @ request_bytes (drop (length ?es) sent)"
      unfolding st(1) by (metis append_take_drop_id bytes_simps(8))
    then have "cn_in ?cn = encode_request req corr @ request_bytes more" using got st(2) left by simp
    moreover have "sendable (corr, req)" using assms(3) left by (metis in_set_dropD list.set_intros(1) list_all_iff)
    ultimately obtain frame rest where "read_frame (cn_in ?cn) = Frame frame rest"
      using request_frame [of req corr] by (fastforce simp: sendable_def)
    then show False using idle st(3) by (auto simp: next_turn_def split: if_splits)
  qed
  show ?thesis using run out all st(1) by (metis take_is_prefix)
qed

text \<open>One connection, one request that arrives whole, and its answer.\<close>

lemma connections_refine_controller_witness:
  "\<exists>p. (process_step (ctl_handler sample_cfg) (ctl_env sample_cfg))\<^sup>*\<^sup>* (process_start fresh_ctl) p \<and>
     asked (served_on 0 (pr_log p)) = [(7, ControllerMetadataReq)] \<and> cn_out (pr_conns p ! 0) = answer_bytes (served_on 0 (pr_log p))"
proof -
  let ?step = "process_step (ctl_handler sample_cfg) (ctl_env sample_cfg)"
  let ?sent = "[(7 :: u32, ControllerMetadataReq)]"
  let ?bytes = "encode_request ControllerMetadataReq 7"
  have ok: "list_all sendable ?sent"
    by (simp add: sendable_def encode_request_def length_finish)
  let ?p1 = "process_start fresh_ctl\<lparr>pr_conns := [conn_new]\<rparr>"
  let ?cn = "conn_new\<lparr>cn_got := ?bytes, cn_in := ?bytes\<rparr>"
  let ?p2 = "?p1\<lparr>pr_conns := [?cn]\<rparr>"
  have s1: "?step (process_start fresh_ctl) ?p1"
    using process_step.accept [of _ _ "process_start fresh_ctl"] by (simp add: process_start_def)
  have s2: "?step ?p1 ?p2"
    using process_step.arrive [of 0 ?p1 conn_new _ _ ?bytes] by (simp add: conn_new_def)
  obtain frame where f: "read_frame ?bytes = Frame frame []" "decode_request frame = Inr (7, ControllerMetadataReq)"
    using request_frame [of ControllerMetadataReq 7 "[]"] ok by (auto simp: sendable_def)
  obtain cn s served where r: "serve_round (ctl_handler sample_cfg 0) ?cn fresh_ctl = Some (cn, s, served)"
    and cn: "cn_got cn = ?bytes" "cn_in cn = []" "cn_open cn" "\<not> cn_eof cn"
    using f by (simp add: serve_round_def next_turn_def conn_new_def case_prod_beta Let_def)
  let ?p3 = "?p2\<lparr>pr_state := s, pr_conns := [cn], pr_log := map (Pair 0) served\<rparr>"
  have s3: "?step ?p2 ?p3"
    using process_step.round [of 0 ?p2 "ctl_handler sample_cfg" 0 cn s served] r by (simp add: process_start_def)
  have run: "?step\<^sup>*\<^sup>* (process_start fresh_ctl) ?p3"
    using s1 s2 s3 by (blast intro: converse_rtranclp_into_rtranclp [of ?step])
  have "next_turn cn = Wait" using cn by (simp add: next_turn_def read_frame_def)
  then show ?thesis using connections_refine_controller [OF run _ ok, of 0] run cn(1) by auto
qed

end
