(* ===== verification/Failovers.thy ===== *)
theory Failovers
  imports ReplicaProperties Reconciliation Machines
begin

text \<open>
  A replicated partition over any number of failovers: the controller's view of it, every
  broker's replica, log and checkpoint, the brokers' runtime tasks, and fetches and answers on
  their way. Leaders that were deposed and do not know it yet go on; brokers stop and start
  again, with the files they had. The steps apply the functions of the theories \<open>Controller\<close>,
  \<open>Replica\<close> and \<open>Reconciliation\<close>; a produce is checked, appended and parked in one step, and a
  follower asks for the end of its epoch and truncates in one step. The property about what was
  acknowledged is in theory \<open>FailoverProperties\<close>, runs are in theory \<open>FailoverRuns\<close>.
\<close>

section \<open>State\<close>

text \<open>
  The runtime task of a broker does one thing after the other: it reads metadata and applies it,
  or proposes an in-sync set and takes the answer.
\<close>

datatype runtime_task =
    Idle
  | Refreshed partition_meta
  | Accepted u64 "u32 list"

text \<open>
  A fetch is a follower, an epoch and an offset; an answer carries the records as well.
  \<open>pw_sent\<close> has the batch of each produce at acks=all, \<open>pw_acked\<close> the produces acknowledged, with
  their base offsets. \<open>pw_leaders\<close> has the leader of each epoch, which a follower finds in the
  metadata, \<open>pw_joined\<close> whether the fetcher has reconciled the log with this leader, and
  \<open>pw_start\<close> the end of a leader's log when it took the role. \<open>pw_seen\<close>, the last epoch a broker
  has heard of, and \<open>pw_commits\<close>, what leaders found stored by their in-sync sets, are history.
\<close>

record pworld =
  pw_ctl :: partition_state
  pw_reps :: "u32 \<Rightarrow> replica"
  pw_logs :: "u32 \<Rightarrow> log_record list"
  pw_epochs :: "u32 \<Rightarrow> epoch_entries"
  pw_tasks :: "u32 \<Rightarrow> runtime_task"
  pw_fetches :: "(u32 \<times> nat \<times> nat) set"
  pw_answers :: "(u32 \<times> nat \<times> nat \<times> log_record list) set"
  pw_sent :: "nat \<Rightarrow> log_record list option"
  pw_acked :: "(nat \<times> nat) set"
  pw_leaders :: "nat \<Rightarrow> u32"
  pw_joined :: "u32 \<Rightarrow> bool"
  pw_start :: "u32 \<Rightarrow> nat"
  pw_seen :: "u32 \<Rightarrow> nat"
  pw_commits :: "(nat \<times> log_record list) set"

abbreviation rstate :: "pworld \<Rightarrow> u32 \<Rightarrow> repl_state" where
  "rstate w b \<equiv> rp_state (pw_reps w b)"

abbreviation ctl_epoch :: "pworld \<Rightarrow> nat" where
  "ctl_epoch w \<equiv> ps_leader_epoch (pw_ctl w)"

abbreviation in_sync :: "pworld \<Rightarrow> u32 set" where
  "in_sync w \<equiv> set (ps_isr (pw_ctl w))"

definition leads :: "pworld \<Rightarrow> u32 \<Rightarrow> nat \<Rightarrow> bool" where
  "leads w b e \<longleftrightarrow> rs_is_leader (rstate w b) \<and> unat (rs_epoch (rstate w b)) = e"

section \<open>What the controller and the checkpoint do for one partition\<close>

text \<open>The metadata of the partition, as \<open>ctl_cluster_meta\<close> gives it.\<close>

definition part_meta :: "partition_state \<Rightarrow> partition_meta" where
  "part_meta p = \<lparr>pm_partition = 0, pm_leader = ps_leader p,
     pm_leader_epoch = word_of_nat (ps_leader_epoch p), pm_replicas = ps_replicas p, pm_isr = ps_isr p\<rparr>"

text \<open>What \<open>alter_isr\<close> does to the partition it is about.\<close>

definition alter_part :: "u64 \<Rightarrow> u32 list \<Rightarrow> partition_state \<Rightarrow> partition_state option" where
  "alter_part leader_epoch isr p =
     (if unat leader_epoch \<noteq> ps_leader_epoch p then None
      else if isr = [] \<or> ps_leader p \<notin> set isr \<or> \<not> list_all (\<lambda>id. id \<in> set (ps_replicas p)) isr then None
      else Some (p\<lparr>ps_isr := isr\<rparr>))"

lemma alter_isr_part:
  assumes "hm_get (st_topics st) topic = Some parts" and "unat part < length parts"
    and "alter_isr topic part leader_epoch isr st = (st', changed, NoError)"
  shows "\<exists>p. alter_part leader_epoch isr (parts ! unat part) = Some p \<and>
    hm_get (st_topics st') topic = Some (parts[unat part := p])"
proof -
  let ?p = "parts ! unat part"
  have g: "alter_part leader_epoch isr ?p = Some (?p\<lparr>ps_isr := isr\<rparr>)"
    using assms by (auto simp: alter_isr_def alter_part_def Let_def split: if_splits)
  have "hm_get (st_topics st') topic = Some (parts[unat part := ?p\<lparr>ps_isr := isr\<rparr>])"
  proof (cases "ps_isr ?p = isr")
    case True
    then have "?p\<lparr>ps_isr := isr\<rparr> = ?p" by simp
    then show ?thesis using assms True by (auto simp: alter_isr_def Let_def split: if_splits)
  next
    case False
    then show ?thesis using assms by (auto simp: alter_isr_def Let_def split: if_splits)
  qed
  with g show ?thesis by blast
qed

text \<open>The entries of the checkpoint after \<open>RecordEpoch\<close>, and after a truncation.\<close>

definition note_epoch :: "nat \<Rightarrow> nat \<Rightarrow> epoch_entries \<Rightarrow> epoch_entries" where
  "note_epoch epoch start es =
     (if es \<noteq> [] \<and> (epoch \<le> fst (last es) \<or> start < snd (last es)) then es else es @ [(epoch, start)])"

lemma note_epoch_append:
  "epochs_append epoch start (es, d) = Inr (es', d') \<Longrightarrow> es' = note_epoch epoch start es"
  "epochs_append epoch start (es, d) = Inl (Io InvalidInput) \<Longrightarrow> fs_exists epochs_file d \<Longrightarrow>
     note_epoch epoch start es = es"
  by (cases "es \<noteq> [] \<and> epoch = fst (last es) \<and> start = snd (last es)";
    cases "es \<noteq> [] \<and> (epoch \<le> fst (last es) \<or> start < snd (last es))";
    simp only: epochs_append_def note_epoch_def Let_def if_True if_False prod.case;
    auto simp: bind_r_def fs_append_def fs_sync_def split: sum.splits option.splits)+

definition cut_epochs :: "nat \<Rightarrow> epoch_entries \<Rightarrow> epoch_entries" where
  "cut_epochs new_next es = takeWhile (\<lambda>e. snd e < new_next) es"

lemma cut_epochs_truncate:
  assumes "epochs_truncate_to new_next (es, d) = Inr (es', d')"
  shows "es' = cut_epochs new_next es"
proof (cases "length (cut_epochs new_next es) = length es")
  case True
  then have "cut_epochs new_next es = es"
    unfolding cut_epochs_def by (metis takeWhile_eq_take take_all order_refl)
  moreover have "es' = es"
    using assms True unfolding epochs_truncate_to_def cut_epochs_def Let_def by simp
  ultimately show ?thesis by simp
next
  case False
  then show ?thesis
    using assms by (auto simp: epochs_truncate_to_def cut_epochs_def Let_def takeWhile_eq_take [symmetric]
      bind_r_def split: sum.splits)
qed

section \<open>Steps\<close>

text \<open>A replica after one of its functions, with the answers it gave and what its leader found stored.\<close>

definition answers_of :: "all_answer list \<Rightarrow> (nat \<times> nat) set" where
  "answers_of out = {(reply, base). \<exists>count. (reply, Inr (base, count)) \<in> set out}"

definition set_rep :: "u32 \<Rightarrow> replica \<times> all_answer list \<Rightarrow> pworld \<Rightarrow> pworld" where
  "set_rep b r w =
     (let rp = fst r; n = isr_min b (length (pw_logs w b)) (rp_state rp)
      in w\<lparr>pw_reps := (pw_reps w)(b := rp), pw_acked := pw_acked w \<union> answers_of (snd r),
           pw_commits := (if rs_is_leader (rp_state rp)
             then insert (unat (rs_epoch (rp_state rp)), take n (pw_logs w b)) (pw_commits w)
             else pw_commits w)\<rparr>)"

text \<open>The rest of \<open>apply_metadata\<close>: the checkpoint of a new leader.\<close>

definition after_apply :: "u32 \<Rightarrow> partition_meta \<Rightarrow> role_action \<Rightarrow> pworld \<Rightarrow> pworld" where
  "after_apply b p action w =
     (let e = unat (pm_leader_epoch p); n = length (pw_logs w b); w' =
        w\<lparr>pw_tasks := (pw_tasks w)(b := Idle), pw_seen := (pw_seen w)(b := e),
          pw_joined := (pw_joined w)(b := (pw_joined w b \<and> pw_seen w b = e \<and> action = NoAction))\<rparr>
      in case action of
        RecordLeaderEpoch epoch \<Rightarrow>
          w'\<lparr>pw_epochs := (pw_epochs w)(b := note_epoch (unat epoch) n (pw_epochs w b)),
             pw_start := (pw_start w)(b := n)\<rparr>
      | _ \<Rightarrow> w')"

text \<open>
  When a follower may join the in-sync set: it is in it already, or it has fetched, under this
  leader, past the high watermark and past the end the leader's log had when it took the role.
\<close>

definition may_grow :: "u32 \<Rightarrow> u32 list \<Rightarrow> pworld \<Rightarrow> bool" where
  "may_grow b isr w \<longleftrightarrow>
     (\<forall>f \<in> set isr. f \<in> in_sync w \<or> f = b \<or>
        (case hm_get (rs_match_offsets (rstate w b)) f of None \<Rightarrow> False
         | Some (offset, _) \<Rightarrow> max (pw_start w b) (rp_hwm (pw_reps w b)) \<le> offset))"

text \<open>
  The steps; \<open>lag\<close> is the window of \<open>replica_lag_ms\<close>. With \<open>careful\<close> an in-sync set grows by \<open>grow\<close> only, where the leader counts the new
  member from the moment the controller does, and a follower reconciles with a leader of its own
  epoch, to what the logs have in common. Without it they are those of the code.
\<close>

inductive failover_step :: "bool \<Rightarrow> nat \<Rightarrow> pworld \<Rightarrow> pworld \<Rightarrow> bool" for careful :: bool and lag :: nat where
  elect: "elect_partition alive (pw_ctl w) = (ctl, True) \<Longrightarrow> ps_leader_epoch ctl < 2 ^ 64 \<Longrightarrow>
    failover_step careful lag w (w\<lparr>pw_ctl := ctl, pw_leaders :=
      (if ps_leader_epoch ctl = ctl_epoch w then pw_leaders w
       else (pw_leaders w)(ps_leader_epoch ctl := ps_leader ctl))\<rparr>)"
| refresh: "pw_tasks w b = Idle \<Longrightarrow>
    failover_step careful lag w (w\<lparr>pw_tasks := (pw_tasks w)(b := Refreshed (part_meta (pw_ctl w)))\<rparr>)"
| apply_meta: "pw_tasks w b = Refreshed p \<Longrightarrow> b \<in> set (pm_replicas p) \<Longrightarrow>
    apply_partition now b addrs p (length (pw_logs w b)) (pw_reps w b) = (rp, out, action) \<Longrightarrow>
    failover_step careful lag w (after_apply b p action (set_rep b (rp, out) w))"
| propose: "pw_tasks w b = Idle \<Longrightarrow> isr_proposal now b lag (rstate w b) = Some (e, isr) \<Longrightarrow>
    alter_part e isr (pw_ctl w) = Some ctl \<Longrightarrow> careful \<longrightarrow> set isr \<subseteq> in_sync w \<Longrightarrow>
    failover_step careful lag w (w\<lparr>pw_ctl := ctl, pw_tasks := (pw_tasks w)(b := Accepted e isr)\<rparr>)"
| accept: "pw_tasks w b = Accepted e isr \<Longrightarrow>
    failover_step careful lag w (set_rep b (isr_accepted b (length (pw_logs w b)) e isr (pw_reps w b))
      (w\<lparr>pw_tasks := (pw_tasks w)(b := Idle)\<rparr>))"
| grow: "pw_tasks w b = Idle \<Longrightarrow> isr_proposal now b lag (rstate w b) = Some (e, isr) \<Longrightarrow>
    alter_part e isr (pw_ctl w) = Some ctl \<Longrightarrow> may_grow b isr w \<Longrightarrow>
    failover_step careful lag w (set_rep b (isr_accepted b (length (pw_logs w b)) e isr (pw_reps w b))
      (w\<lparr>pw_ctl := ctl\<rparr>))"
| forget: "failover_step careful lag w (w\<lparr>pw_tasks := (pw_tasks w)(b := Idle)\<rparr>)"
| session_lost: "failover_step careful lag w
    (set_rep b (invalidate (pw_reps w b)) (w\<lparr>pw_joined := (pw_joined w)(b := False)\<rparr>))"
| restart: "failover_step careful lag w
    (w\<lparr>pw_reps := (pw_reps w)(b := replica_new now), pw_tasks := (pw_tasks w)(b := Idle),
       pw_joined := (pw_joined w)(b := False)\<rparr>)"
| produce_all: "rs_is_leader (rstate w b) \<Longrightarrow> rs \<noteq> [] \<Longrightarrow> pw_sent w reply = None \<Longrightarrow>
    failover_step careful lag w (set_rep b
      (park_all b (length (pw_logs w b @ rs)) (length (pw_logs w b)) (length rs) reply (pw_reps w b))
      (w\<lparr>pw_logs := (pw_logs w)(b := pw_logs w b @ rs), pw_sent := (pw_sent w)(reply := Some rs)\<rparr>))"
| produce: "rs_is_leader (rstate w b) \<Longrightarrow>
    failover_step careful lag w (w\<lparr>pw_logs := (pw_logs w)(b := pw_logs w b @ rs)\<rparr>)"
| join: "\<not> rs_is_leader (rstate w f) \<Longrightarrow> rs_epoch (rstate w f) \<noteq> 0 \<Longrightarrow>
    l = pw_leaders w (unat (rs_epoch (rstate w f))) \<Longrightarrow> f \<noteq> l \<Longrightarrow> rs_is_leader (rstate w l) \<Longrightarrow>
    left = reconciled (pw_epochs w l) (pw_logs w l) (pw_epochs w f) (pw_logs w f) \<Longrightarrow>
    careful \<longrightarrow> rs_epoch (rstate w l) = rs_epoch (rstate w f) \<and>
      left = longest_common_prefix (pw_logs w f) (pw_logs w l) \<Longrightarrow>
    failover_step careful lag w (w\<lparr>pw_logs := (pw_logs w)(f := left), pw_joined := (pw_joined w)(f := True),
      pw_epochs := (pw_epochs w)(f := cut_epochs (length left) (pw_epochs w f))\<rparr>)"
| send_fetch: "\<not> rs_is_leader (rstate w f) \<Longrightarrow> rs_epoch (rstate w f) \<noteq> 0 \<Longrightarrow> pw_joined w f \<Longrightarrow>
    failover_step careful lag w (w\<lparr>pw_fetches :=
      insert (f, unat (rs_epoch (rstate w f)), length (pw_logs w f)) (pw_fetches w)\<rparr>)"
| receive_fetch: "(f, e, offset) \<in> pw_fetches w \<Longrightarrow> l = pw_leaders w e \<Longrightarrow>
    replica_fetch now l (length (pw_logs w l)) f (word_of_nat e) offset (pw_reps w l) = (rp, out, None) \<Longrightarrow>
    failover_step careful lag w (set_rep l (rp, out) w)"
| answer_fetch: "(f, e, offset) \<in> pw_fetches w \<Longrightarrow>
    failover_step careful lag w (w\<lparr>pw_answers :=
      insert (f, e, offset, take k (drop offset (pw_logs w (pw_leaders w e)))) (pw_answers w)\<rparr>)"
| deliver: "(f, e, offset, rs) \<in> pw_answers w \<Longrightarrow> \<not> rs_is_leader (rstate w f) \<Longrightarrow>
    rs_epoch (rstate w f) = word_of_nat e \<Longrightarrow> pw_joined w f \<Longrightarrow> length (pw_logs w f) = offset \<Longrightarrow>
    failover_step careful lag w (w\<lparr>pw_logs := (pw_logs w)(f := pw_logs w f @ rs),
      pw_epochs := (pw_epochs w)(f := note_epoch e offset (pw_epochs w f))\<rparr>)"
| lose: "F \<subseteq> pw_fetches w \<Longrightarrow> A \<subseteq> pw_answers w \<Longrightarrow>
    failover_step careful lag w (w\<lparr>pw_fetches := F, pw_answers := A\<rparr>)"

text \<open>The partition of a new topic, as \<open>create_topic\<close> places it: nothing is stored yet.\<close>

definition new_partition :: "u32 list \<Rightarrow> nat \<Rightarrow> pworld" where
  "new_partition replicas now =
     \<lparr>pw_ctl = \<lparr>ps_leader = replicas ! 0, ps_leader_epoch = 1, ps_replicas = replicas, ps_isr = replicas\<rparr>,
      pw_reps = (\<lambda>_. replica_new now), pw_logs = (\<lambda>_. []), pw_epochs = (\<lambda>_. []), pw_tasks = (\<lambda>_. Idle),
      pw_fetches = {}, pw_answers = {}, pw_sent = (\<lambda>_. None), pw_acked = {},
      pw_leaders = (\<lambda>_. replicas ! 0), pw_joined = (\<lambda>_. False), pw_start = (\<lambda>_. 0),
      pw_seen = (\<lambda>_. 0), pw_commits = {}\<rparr>"

end
