(* ===== verification/FailoverFacts.thy ===== *)
theory FailoverFacts
  imports Failovers
begin

text \<open>
  The invariant of the steps of theory \<open>Failovers\<close> with their conditions, and the two lemmas most
  steps need: when nothing is committed, and when a leader commits. Epochs order everything. A leader that
  does not know yet that it was deposed can find a record stored by its in-sync set only if the
  next leader had it before it took over, as the next leader was a member of that set.
\<close>

section \<open>The invariant\<close>

text \<open>The leader of an epoch that has taken up no later one.\<close>

definition live :: "pworld \<Rightarrow> nat \<Rightarrow> bool" where
  "live w e \<longleftrightarrow> e \<noteq> 0 \<and> pw_seen w (pw_leaders w e) = e"

text \<open>What the leader of an epoch knows, or may still hear, of the logs of followers.\<close>

definition claim :: "pworld \<Rightarrow> nat \<Rightarrow> u32 \<Rightarrow> nat \<Rightarrow> bool" where
  "claim w e f offset \<longleftrightarrow> (f, e, offset) \<in> pw_fetches w \<or>
     leads w (pw_leaders w e) e \<and>
     (\<exists>t. hm_get (rs_match_offsets (rstate w (pw_leaders w e))) f = Some (offset, t))"

text \<open>The in-sync sets the leader of an epoch works with, or may still take up.\<close>

definition view :: "pworld \<Rightarrow> nat \<Rightarrow> u32 set \<Rightarrow> bool" where
  "view w e X \<longleftrightarrow>
     leads w (pw_leaders w e) e \<and> X = set (rs_isr (rstate w (pw_leaders w e))) \<or>
     (\<exists>x isr. pw_tasks w (pw_leaders w e) = Accepted x isr \<and> unat x = e \<and> X = set isr) \<or>
     (\<exists>p. pw_tasks w (pw_leaders w e) = Refreshed p \<and> unat (pm_leader_epoch p) = e \<and>
       pm_leader p = pw_leaders w e \<and> X = set (pm_isr p))"

text \<open>
  The brokers whose logs must keep what epoch \<open>e\<close> commits: members of the in-sync set, and
  leaders of later epochs, from their election on.
\<close>

definition kept :: "pworld \<Rightarrow> u32 \<Rightarrow> nat \<Rightarrow> bool" where
  "kept w b e \<longleftrightarrow> b \<in> in_sync w \<or>
     (\<exists>e2. e < e2 \<and> e2 \<le> ctl_epoch w \<and> pw_leaders w e2 = b \<and> pw_seen w b \<le> e2)"

text \<open>Whether the leader of \<open>e\<close> may still find its log stored up to \<open>n\<close>.\<close>

definition possible :: "pworld \<Rightarrow> nat \<Rightarrow> u32 set \<Rightarrow> nat \<Rightarrow> bool" where
  "possible w e X n \<longleftrightarrow>
     (\<forall>f \<in> X. f \<noteq> pw_leaders w e \<and> e < pw_seen w f \<longrightarrow> n = 0 \<or> (\<exists>offset \<ge> n. claim w e f offset))"

definition ctl_good :: "pworld \<Rightarrow> bool" where
  "ctl_good w \<longleftrightarrow> 1 \<le> ctl_epoch w \<and> ctl_epoch w < 2 ^ 64 \<and> - 1 \<notin> set (ps_replicas (pw_ctl w)) \<and>
     in_sync w \<subseteq> set (ps_replicas (pw_ctl w)) \<and>
     (ps_leader (pw_ctl w) = - 1 \<or> ps_leader (pw_ctl w) = pw_leaders w (ctl_epoch w))"

definition parked_good :: "pworld \<Rightarrow> u32 \<Rightarrow> bool" where
  "parked_good w b \<longleftrightarrow> (\<forall>(lst, base, count, reply) \<in> set (rs_pending_all (rstate w b)).
     lst + 1 = base + count \<and>
     (\<exists>rs. pw_sent w reply = Some rs \<and> rs \<noteq> [] \<and> count = length rs \<and> base + count \<le> length (pw_logs w b) \<and>
       take (length rs) (drop base (pw_logs w b)) = rs))"

definition task_good :: "pworld \<Rightarrow> u32 \<Rightarrow> bool" where
  "task_good w b \<longleftrightarrow> (case pw_tasks w b of
       Idle \<Rightarrow> True
     | Refreshed p \<Rightarrow> pw_seen w b \<le> unat (pm_leader_epoch p) \<and> unat (pm_leader_epoch p) \<le> ctl_epoch w \<and>
         1 \<le> unat (pm_leader_epoch p) \<and> pm_replicas p = ps_replicas (pw_ctl w) \<and>
         (pm_leader p = - 1 \<or> pm_leader p = pw_leaders w (unat (pm_leader_epoch p)))
     | Accepted e isr \<Rightarrow> unat e = pw_seen w b \<and> unat e \<noteq> 0)"

definition hwm_good :: "pworld \<Rightarrow> u32 \<Rightarrow> bool" where
  "hwm_good w b \<longleftrightarrow> rp_hwm (pw_reps w b) \<le> length (pw_logs w b) \<and>
     (rp_hwm (pw_reps w b) = 0 \<or>
      (\<exists>e \<le> pw_seen w b. (e, take (rp_hwm (pw_reps w b)) (pw_logs w b)) \<in> pw_commits w))"

definition role_good :: "pworld \<Rightarrow> u32 \<Rightarrow> bool" where
  "role_good w b \<longleftrightarrow> pw_seen w b \<le> ctl_epoch w \<and>
     (rs_epoch (rstate w b) = 0 \<or> unat (rs_epoch (rstate w b)) = pw_seen w b) \<and>
     (if rs_is_leader (rstate w b)
      then rs_epoch (rstate w b) \<noteq> 0 \<and> pw_leaders w (pw_seen w b) = b
      else rs_pending_all (rstate w b) = [])"

definition broker_good :: "pworld \<Rightarrow> u32 \<Rightarrow> bool" where
  "broker_good w b \<longleftrightarrow> role_good w b \<and> task_good w b \<and> parked_good w b \<and> hwm_good w b"

definition claims_good :: "pworld \<Rightarrow> bool" where
  "claims_good w \<longleftrightarrow> (\<forall>e f offset. claim w e f offset \<longrightarrow>
     e \<noteq> 0 \<and> f \<noteq> pw_leaders w e \<and> e \<le> pw_seen w f \<and> e \<le> pw_seen w (pw_leaders w e) \<and>
     (live w e \<longrightarrow> offset \<le> length (pw_logs w (pw_leaders w e)) \<and>
       (pw_seen w f = e \<longrightarrow> offset \<le> length (pw_logs w f) \<and>
         prefix (pw_logs w f) (pw_logs w (pw_leaders w e)))))"

definition answers_good :: "pworld \<Rightarrow> bool" where
  "answers_good w \<longleftrightarrow> (\<forall>f e offset rs. (f, e, offset, rs) \<in> pw_answers w \<longrightarrow>
     e \<noteq> 0 \<and> e \<le> pw_seen w (pw_leaders w e) \<and>
     (live w e \<longrightarrow> offset \<le> length (pw_logs w (pw_leaders w e)) \<and>
       prefix rs (drop offset (pw_logs w (pw_leaders w e)))))"

definition joined_good :: "pworld \<Rightarrow> bool" where
  "joined_good w \<longleftrightarrow> (\<forall>f. pw_joined w f \<longrightarrow>
     pw_seen w f \<noteq> 0 \<and> f \<noteq> pw_leaders w (pw_seen w f) \<and>
     pw_seen w f \<le> pw_seen w (pw_leaders w (pw_seen w f)) \<and>
     (live w (pw_seen w f) \<longrightarrow> prefix (pw_logs w f) (pw_logs w (pw_leaders w (pw_seen w f)))))"

definition views_good :: "pworld \<Rightarrow> bool" where
  "views_good w \<longleftrightarrow> (\<forall>e X b. view w e X \<longrightarrow> kept w b e \<longrightarrow>
     (if e < pw_seen w b then \<exists>f \<in> X. e < pw_seen w f else b \<in> X))"

definition commits_good :: "pworld \<Rightarrow> bool" where
  "commits_good w \<longleftrightarrow> (\<forall>e C. (e, C) \<in> pw_commits w \<longrightarrow> e \<noteq> 0 \<and> e \<le> pw_seen w (pw_leaders w e) \<and>
     (live w e \<longrightarrow> prefix C (pw_logs w (pw_leaders w e))) \<and>
     (\<forall>b. kept w b e \<longrightarrow> prefix C (pw_logs w b) \<and> (C = [] \<or> e \<le> pw_seen w b)) \<and>
     (\<forall>b e2. leads w b e2 \<longrightarrow> e \<le> e2 \<longrightarrow>
       length C \<le> (if e = e2 then max (pw_start w b) (rp_hwm (pw_reps w b)) else pw_start w b)))"

definition future_good :: "pworld \<Rightarrow> bool" where
  "future_good w \<longleftrightarrow> (\<forall>e X b n. live w e \<longrightarrow> view w e X \<longrightarrow> kept w b e \<longrightarrow> e < pw_seen w b \<longrightarrow>
     n \<le> length (pw_logs w (pw_leaders w e)) \<longrightarrow> possible w e X n \<longrightarrow>
     prefix (take n (pw_logs w (pw_leaders w e))) (pw_logs w b) \<and>
     (\<forall>e2. e < e2 \<longrightarrow> leads w b e2 \<longrightarrow> n \<le> pw_start w b))"

definition acked_good :: "pworld \<Rightarrow> bool" where
  "acked_good w \<longleftrightarrow> (\<forall>reply base. (reply, base) \<in> pw_acked w \<longrightarrow> (\<exists>rs e C. pw_sent w reply = Some rs \<and>
     (e, C) \<in> pw_commits w \<and> rs \<noteq> [] \<and> take (length rs) (drop base C) = rs))"

definition pw_inv :: "pworld \<Rightarrow> bool" where
  "pw_inv w \<longleftrightarrow> ctl_good w \<and> (\<forall>b. broker_good w b) \<and> claims_good w \<and> answers_good w \<and>
     joined_good w \<and> views_good w \<and> commits_good w \<and> future_good w \<and> acked_good w"

lemma pw_invD:
  assumes "pw_inv w"
  shows "ctl_good w" "broker_good w b" "claims_good w" "answers_good w" "joined_good w" "views_good w"
    "commits_good w" "future_good w" "acked_good w" "role_good w b" "task_good w b" "parked_good w b"
    "hwm_good w b"
  using assms by (auto simp: pw_inv_def broker_good_def)

lemma claims_goodD:
  assumes "claims_good w" and "claim w e f n"
  shows "e \<noteq> 0" and "f \<noteq> pw_leaders w e" and "e \<le> pw_seen w f" and "e \<le> pw_seen w (pw_leaders w e)"
    and "live w e \<Longrightarrow> n \<le> length (pw_logs w (pw_leaders w e))"
    and "live w e \<Longrightarrow> pw_seen w f = e \<Longrightarrow> n \<le> length (pw_logs w f)"
    and "live w e \<Longrightarrow> pw_seen w f = e \<Longrightarrow> prefix (pw_logs w f) (pw_logs w (pw_leaders w e))"
  using assms unfolding claims_good_def by blast+

lemma answers_goodD:
  assumes "answers_good w" and "(f, e, n, rs) \<in> pw_answers w"
  shows "e \<noteq> 0" and "e \<le> pw_seen w (pw_leaders w e)"
    and "live w e \<Longrightarrow> n \<le> length (pw_logs w (pw_leaders w e))"
    and "live w e \<Longrightarrow> prefix rs (drop n (pw_logs w (pw_leaders w e)))"
  using assms unfolding answers_good_def by blast+

lemma joined_goodD:
  assumes "joined_good w" and "pw_joined w f" and "e = pw_seen w f"
  shows "e \<noteq> 0" and "f \<noteq> pw_leaders w e" and "e \<le> pw_seen w (pw_leaders w e)"
    and "live w e \<Longrightarrow> prefix (pw_logs w f) (pw_logs w (pw_leaders w e))"
  using assms(1) [unfolded joined_good_def, rule_format, OF assms(2)] unfolding assms(3) by blast+

lemma views_goodD:
  assumes "views_good w" and "view w e X" and "kept w b e"
  shows "e < pw_seen w b \<Longrightarrow> \<exists>f \<in> X. e < pw_seen w f" and "\<not> e < pw_seen w b \<Longrightarrow> b \<in> X"
  using assms unfolding views_good_def by (metis (full_types))+

lemma commits_goodD:
  assumes "commits_good w" and "(e, C) \<in> pw_commits w"
  shows "e \<noteq> 0" and "e \<le> pw_seen w (pw_leaders w e)"
    and "live w e \<Longrightarrow> prefix C (pw_logs w (pw_leaders w e))"
    and "kept w b e \<Longrightarrow> prefix C (pw_logs w b)" and "kept w b e \<Longrightarrow> C = [] \<or> e \<le> pw_seen w b"
    and "leads w b e2 \<Longrightarrow> e < e2 \<Longrightarrow> length C \<le> pw_start w b"
    and "leads w b e \<Longrightarrow> length C \<le> max (pw_start w b) (rp_hwm (pw_reps w b))"
proof -
  note g = assms(1) [unfolded commits_good_def, rule_format, OF assms(2)]
  show "e \<noteq> 0" "e \<le> pw_seen w (pw_leaders w e)" "live w e \<Longrightarrow> prefix C (pw_logs w (pw_leaders w e))"
    "kept w b e \<Longrightarrow> prefix C (pw_logs w b)" "kept w b e \<Longrightarrow> C = [] \<or> e \<le> pw_seen w b"
    using g by blast+
  have l: "leads w b e2 \<Longrightarrow> e \<le> e2 \<Longrightarrow>
      length C \<le> (if e = e2 then max (pw_start w b) (rp_hwm (pw_reps w b)) else pw_start w b)" for e2
    using g by blast
  show "leads w b e2 \<Longrightarrow> e < e2 \<Longrightarrow> length C \<le> pw_start w b"
    "leads w b e \<Longrightarrow> length C \<le> max (pw_start w b) (rp_hwm (pw_reps w b))"
    using l [of e2] l [of e] by auto
qed

lemma future_goodD:
  assumes "future_good w" and "live w e" and "view w e X" and "kept w b e" and "e < pw_seen w b"
    and "n \<le> length (pw_logs w (pw_leaders w e))" and "possible w e X n"
  shows "prefix (take n (pw_logs w (pw_leaders w e))) (pw_logs w b)"
    and "e < e2 \<Longrightarrow> leads w b e2 \<Longrightarrow> n \<le> pw_start w b"
  using assms unfolding future_good_def by blast+

lemma leads_unique:
  assumes "role_good w b" and "leads w b e"
  shows "e = pw_seen w b" and "b = pw_leaders w e" and "live w e" and "e \<le> ctl_epoch w"
proof -
  have r: "rs_epoch (rstate w b) \<noteq> 0" "pw_leaders w (pw_seen w b) = b" "pw_seen w b \<le> ctl_epoch w"
    "unat (rs_epoch (rstate w b)) = pw_seen w b"
    using assms by (auto simp: role_good_def leads_def)
  then show e: "e = pw_seen w b" using assms by (simp add: leads_def)
  show "b = pw_leaders w e" "e \<le> ctl_epoch w" using r e by auto
  have "pw_seen w b \<noteq> 0" using r by (metis unat_eq_zero)
  then show "live w e" using r e by (simp add: live_def)
qed

lemma prefix_take_iff: "n \<le> length xs \<Longrightarrow> prefix (take n xs) ys \<Longrightarrow> n \<le> length ys"
  by (metis length_take min_absorb2 prefix_length_le)

lemma prefix_take_shorter:
  assumes "prefix ys xs" and "n \<le> length ys"
  shows "prefix (take n xs) ys"
  using assms by (auto simp: prefix_def intro: exI [of _ "drop n ys"])

section \<open>Steps that commit nothing and leave the logs\<close>

text \<open>
  Messages, tasks and memory may be lost, and brokers may take up later epochs. A broker that
  takes the lead notes the end of its log.
\<close>

lemma inv_onward:
  assumes inv: "pw_inv w"
    and ctl: "ctl_good w'" "in_sync w' \<subseteq> in_sync w"
    and same: "ctl_epoch w' = ctl_epoch w" "pw_logs w' = pw_logs w" "pw_leaders w' = pw_leaders w"
      "pw_commits w' = pw_commits w" "pw_sent w' = pw_sent w" "pw_acked w' = pw_acked w"
    and seen: "\<And>b. pw_seen w b \<le> pw_seen w' b"
    and view: "\<And>e X. view w' e X \<Longrightarrow> view w e X \<or> e = ctl_epoch w \<and> in_sync w' \<subseteq> X"
    and claim: "\<And>e f n. claim w' e f n \<Longrightarrow> claim w e f n"
    and answers: "pw_answers w' \<subseteq> pw_answers w"
    and joined: "\<And>f. pw_joined w' f \<Longrightarrow> pw_joined w f \<and> pw_seen w' f = pw_seen w f"
    and leads: "\<And>b e. leads w' b e \<Longrightarrow> pw_start w' b = length (pw_logs w b) \<or>
      (leads w b e \<and> pw_start w' b = pw_start w b \<and> rp_hwm (pw_reps w' b) = rp_hwm (pw_reps w b))"
    and broker: "\<And>b. broker_good w' b"
  shows "pw_inv w'"
proof -
  note D = pw_invD [OF inv]
  have role: "role_good w' b" for b using broker [of b] by (simp add: broker_good_def)
  have kept: "kept w b e" if "kept w' b e" for b e
    using that seen le_trans ctl(2) unfolding kept_def same by blast
  have old: "view w e X" if "view w' e X" "kept w' b e" "e < pw_seen w' b" for e X b
    using view [OF that(1)] that(3) role [of b] by (auto simp: role_good_def same)
  have late: "pw_seen w (pw_leaders w e) < e" if "live w' e" "\<not> live w e" for e
    using that seen [of "pw_leaders w e"] by (auto simp: live_def same)
  have poss: "n = 0 \<or> (\<exists>offset \<ge> n. claim w e f offset)"
    if "possible w' e X n" "f \<in> X" "f \<noteq> pw_leaders w e" "e < pw_seen w' f" for e X n f
    using that claim unfolding possible_def same by blast
  have poss': "possible w e X n" if p: "possible w' e X n" for e X n
    unfolding possible_def using poss [OF p] seen order_less_le_trans by blast
  have "claims_good w'"
    unfolding claims_good_def
  proof (intro allI impI)
    fix e f n assume c: "claim w' e f n"
    note g = claims_goodD [OF D(3) claim [OF c]]
    have "live w e" if "live w' e" using late [OF that] g(4) by fastforce
    moreover have "pw_seen w f = e" if "pw_seen w' f = e" using seen [of f] g(3) that by simp
    moreover have "e \<le> pw_seen w' f" "e \<le> pw_seen w' (pw_leaders w e)"
      using g seen [of f] seen [of "pw_leaders w e"] by auto
    ultimately show "e \<noteq> 0 \<and> f \<noteq> pw_leaders w' e \<and> e \<le> pw_seen w' f \<and> e \<le> pw_seen w' (pw_leaders w' e) \<and>
      (live w' e \<longrightarrow> n \<le> length (pw_logs w' (pw_leaders w' e)) \<and> (pw_seen w' f = e \<longrightarrow>
        n \<le> length (pw_logs w' f) \<and> prefix (pw_logs w' f) (pw_logs w' (pw_leaders w' e))))"
      using g unfolding same by blast
  qed
  moreover have "answers_good w'"
    unfolding answers_good_def
  proof (intro allI impI)
    fix f e n rs assume "(f, e, n, rs) \<in> pw_answers w'"
    then have "(f, e, n, rs) \<in> pw_answers w" using answers by blast
    note g = answers_goodD [OF D(4) this]
    have "live w e" if "live w' e" using late [OF that] g(2) by fastforce
    moreover have "e \<le> pw_seen w' (pw_leaders w e)" using g seen [of "pw_leaders w e"] by auto
    ultimately show "e \<noteq> 0 \<and> e \<le> pw_seen w' (pw_leaders w' e) \<and> (live w' e \<longrightarrow>
      n \<le> length (pw_logs w' (pw_leaders w' e)) \<and> prefix rs (drop n (pw_logs w' (pw_leaders w' e))))"
      using g unfolding same by blast
  qed
  moreover have "joined_good w'"
    unfolding joined_good_def
  proof (intro allI impI)
    fix f assume j: "pw_joined w' f"
    let ?e = "pw_seen w f"
    have s: "pw_seen w' f = ?e" and "pw_joined w f" using joined [OF j] by simp_all
    note g = joined_goodD [OF D(5) this(2) refl]
    have "live w ?e" if "live w' ?e" using late [OF that] g(3) by fastforce
    moreover have "?e \<le> pw_seen w' (pw_leaders w ?e)" using g seen [of "pw_leaders w ?e"] by auto
    ultimately show "pw_seen w' f \<noteq> 0 \<and> f \<noteq> pw_leaders w' (pw_seen w' f) \<and>
      pw_seen w' f \<le> pw_seen w' (pw_leaders w' (pw_seen w' f)) \<and>
      (live w' (pw_seen w' f) \<longrightarrow> prefix (pw_logs w' f) (pw_logs w' (pw_leaders w' (pw_seen w' f))))"
      using g unfolding same s by blast
  qed
  moreover have "views_good w'"
    unfolding views_good_def
  proof (intro allI impI)
    fix e X b assume a: "view w' e X" "kept w' b e"
    show "if e < pw_seen w' b then \<exists>f \<in> X. e < pw_seen w' f else b \<in> X"
    proof (cases "view w e X")
      case True
      then show ?thesis
        using views_goodD [OF D(6) True kept [OF a(2)]] seen order_less_le_trans by (metis not_less)
    next
      case False
      then have v: "e = ctl_epoch w" "in_sync w' \<subseteq> X" using view [OF a(1)] by blast+
      moreover have "b \<in> in_sync w'" using a(2) v(1) unfolding kept_def same by auto
      moreover have "\<not> e < pw_seen w' b" using role [of b] v(1) by (simp add: role_good_def same)
      ultimately show ?thesis by auto
    qed
  qed
  moreover have "commits_good w'"
    unfolding commits_good_def
  proof (intro allI impI)
    fix e C assume "(e, C) \<in> pw_commits w'"
    then have "(e, C) \<in> pw_commits w" by (simp add: same)
    note g = commits_goodD [OF D(7) this]
    have l: "live w e" if "live w' e" using late [OF that] g(2) by fastforce
    have "e \<le> pw_seen w' (pw_leaders w e)" using g seen [of "pw_leaders w e"] by auto
    moreover have "prefix C (pw_logs w b) \<and> (C = [] \<or> e \<le> pw_seen w' b)" if "kept w' b e" for b
      using g(4,5) [OF kept [OF that]] seen [of b] by auto
    moreover have "length C \<le> (if e = e2 then max (pw_start w' b) (rp_hwm (pw_reps w' b)) else pw_start w' b)"
      if lb: "leads w' b e2" "e \<le> e2" for b e2
    proof (cases "pw_start w' b = length (pw_logs w b)")
      case True
      note u = leads_unique [OF role lb(1), unfolded same]
      have "prefix C (pw_logs w b)"
      proof (cases "e = e2")
        case True
        then show ?thesis using g(3) [OF l] u(2,3) by metis
      next
        case False
        then have "kept w b e" using u(1,2,4) lb(2) seen [of b] unfolding kept_def by (metis le_neq_implies_less)
        then show ?thesis using g(4) by blast
      qed
      then show ?thesis using True by (auto simp: le_max_iff_disj dest: prefix_length_le)
    next
      case False
      then show ?thesis using g(6) [of b e2] g(7) [of b] leads [OF lb(1)] lb(2) by (auto simp: le_less)
    qed
    ultimately show "e \<noteq> 0 \<and> e \<le> pw_seen w' (pw_leaders w' e) \<and>
      (live w' e \<longrightarrow> prefix C (pw_logs w' (pw_leaders w' e))) \<and>
      (\<forall>b. kept w' b e \<longrightarrow> prefix C (pw_logs w' b) \<and> (C = [] \<or> e \<le> pw_seen w' b)) \<and>
      (\<forall>b e2. leads w' b e2 \<longrightarrow> e \<le> e2 \<longrightarrow>
        length C \<le> (if e = e2 then max (pw_start w' b) (rp_hwm (pw_reps w' b)) else pw_start w' b))"
      using g l unfolding same by blast
  qed
  moreover have "future_good w'"
    unfolding future_good_def
  proof (intro allI impI)
    fix e X b n
    assume a: "live w' e" "view w' e X" "kept w' b e" "e < pw_seen w' b"
      "n \<le> length (pw_logs w' (pw_leaders w' e))" "possible w' e X n"
    let ?z = "pw_logs w (pw_leaders w e)"
    have n: "n \<le> length ?z" using a(5) by (simp add: same)
    note v = old [OF a(2-4)]
    note vg = views_goodD [OF D(6) v kept [OF a(3)]]
    have ne: "f \<noteq> pw_leaders w e" if "e < pw_seen w' f" for f
      using a(1) that by (auto simp: live_def same)
    have "prefix (take n ?z) (pw_logs w b) \<and>
      (\<forall>e2. e < e2 \<longrightarrow> leads w b e2 \<longrightarrow> n \<le> pw_start w b)"
    proof (cases "live w e \<and> e < pw_seen w b")
      case True
      then show ?thesis
        using future_goodD [OF D(8) _ v kept [OF a(3)] _ n poss' [OF a(6)]] by blast
    next
      case False
      have "\<exists>f \<in> X. e < pw_seen w' f \<and> (live w e \<longrightarrow> f = b \<and> pw_seen w b \<le> e)"
        using vg False a(4) seen order_less_le_trans by (metis not_less)
      then obtain f where f: "f \<in> X" "e < pw_seen w' f" "live w e \<Longrightarrow> f = b" "live w e \<Longrightarrow> pw_seen w b \<le> e"
        by blast
      consider "n = 0" | m where "m \<ge> n" "claim w e f m"
        using poss [OF a(6) f(1) ne [OF f(2)] f(2)] by blast
      then show ?thesis
      proof cases
        case 1
        then show ?thesis by simp
      next
        case 2
        note g = claims_goodD [OF D(3) 2(2)]
        have l: "live w e" using late [OF a(1)] g(4) by fastforce
        then have "pw_seen w b = e" using f g(3) by fastforce
        then have "m \<le> length (pw_logs w b)" "prefix (pw_logs w b) ?z" "\<And>e2. leads w b e2 \<Longrightarrow> e2 = e"
          using g(6,7) f(3) l leads_unique(1) [OF D(10)] by auto
        then show ?thesis using 2(1) prefix_take_shorter by (metis le_trans less_irrefl)
      qed
    qed
    moreover have "n \<le> length (pw_logs w b)" if "prefix (take n ?z) (pw_logs w b)"
      using prefix_take_iff n that by blast
    ultimately show "prefix (take n (pw_logs w' (pw_leaders w' e))) (pw_logs w' b) \<and>
      (\<forall>e2. e < e2 \<longrightarrow> leads w' b e2 \<longrightarrow> n \<le> pw_start w' b)"
      unfolding same using leads by metis
  qed
  moreover have "acked_good w'" using D(9) by (simp add: acked_good_def same)
  ultimately show ?thesis using broker ctl(1) by (simp add: pw_inv_def)
qed

section \<open>What a leader finds stored\<close>

lemma matched_claim:
  assumes "leads w b e" and "b = pw_leaders w e" and "n \<le> matched (rstate w b) f"
  shows "n = 0 \<or> (\<exists>offset \<ge> n. claim w e f offset)"
proof (cases "hm_get (rs_match_offsets (rstate w b)) f")
  case None
  then show ?thesis using assms by (simp add: matched_def)
next
  case (Some x)
  obtain offset t where x: "x = (offset, t)" by fastforce
  then have "claim w e f offset" using assms Some by (auto simp: claim_def)
  then show ?thesis using assms(3) Some x by (auto simp: matched_def)
qed

text \<open>All that must keep it, hold it; and later leaders had it before they took the role.\<close>

lemma stored_reaches:
  assumes inv: "pw_inv w" and lead: "leads w b e" and n: "n = isr_min b (length (pw_logs w b)) (rstate w b)"
  shows "kept w x e \<Longrightarrow> prefix (take n (pw_logs w b)) (pw_logs w x)"
    and "kept w x e \<Longrightarrow> n = 0 \<or> e \<le> pw_seen w x"
    and "leads w x e2 \<Longrightarrow> e < e2 \<Longrightarrow> n \<le> pw_start w x"
proof -
  note D = pw_invD [OF inv]
  let ?X = "set (rs_isr (rstate w b))"
  have b: "b = pw_leaders w e" and live: "live w e" and seen: "pw_seen w b = e"
    using leads_unique [OF D(10) lead] by simp_all
  have v: "view w e ?X" using lead b by (auto simp: view_def)
  have m: "n = 0 \<or> (\<exists>offset \<ge> n. claim w e f offset)" if "f \<in> ?X" "f \<noteq> b" for f
    using matched_claim [OF lead b] isr_min_le(2) [of f "rstate w b" b] that n by simp
  have poss: "possible w e ?X n" unfolding possible_def using m b by blast
  have len: "n \<le> length (pw_logs w b)" by (simp add: n isr_min_le)
  note fut = future_goodD [OF D(8) live v _ _ _ poss, folded b]
  have k: "prefix (take n (pw_logs w b)) (pw_logs w x) \<and> (n = 0 \<or> e \<le> pw_seen w x)" if k: "kept w x e" for x
  proof (cases "e < pw_seen w x")
    case True
    then show ?thesis using fut(1) [OF k True len] by simp
  next
    case False
    then have "x \<in> ?X" using views_goodD(2) [OF D(6) v k] by blast
    then consider "x = b" | "n = 0" | offset where "offset \<ge> n" "claim w e x offset" using m by blast
    then show ?thesis
    proof cases
      case 1
      then show ?thesis by (simp add: take_is_prefix seen)
    next
      case 2
      then show ?thesis by simp
    next
      case 3
      note g = claims_goodD [OF D(3) 3(2), folded b]
      have "pw_seen w x = e" using False g(3) by simp
      then show ?thesis using prefix_take_shorter [OF g(7)] g(6) live 3(1) by simp
    qed
  qed
  show "kept w x e \<Longrightarrow> prefix (take n (pw_logs w b)) (pw_logs w x)"
    and "kept w x e \<Longrightarrow> n = 0 \<or> e \<le> pw_seen w x"
    using k by blast+
  assume x: "leads w x e2" "e < e2"
  note u = leads_unique [OF D(10) x(1)]
  have "kept w x e" using u x(2) unfolding kept_def by (metis order_refl)
  then show "n \<le> pw_start w x" using fut(2) [of x e2] u(1) x len by simp
qed

lemma inv_commit:
  assumes inv: "pw_inv w" and lead: "rs_is_leader (rstate w b)"
  shows "pw_inv (set_rep b (advance_hwm b (length (pw_logs w b)) (pw_reps w b)) w)"
proof -
  note D = pw_invD [OF inv]
  let ?log = "pw_logs w b" and ?e = "pw_seen w b"
  obtain rp out where r: "advance_hwm b (length ?log) (pw_reps w b) = (rp, out)" by fastforce
  define n where "n = isr_min b (length ?log) (rstate w b)"
  note a = advance_hwm_leader [OF lead r]
  have e: "unat (rs_epoch (rstate w b)) = ?e" using D(10) [of b] lead by (auto simp: role_good_def)
  have lb: "leads w b ?e" using lead e by (simp add: leads_def)
  have n': "isr_min b (length ?log) (rp_state rp) = n" by (simp add: a(2) n_def isr_min_def matched_def)
  note reach = stored_reaches [OF inv lb n_def]
  define w' where "w' = set_rep b (rp, out) w"
  have w': "w' = w\<lparr>pw_reps := (pw_reps w)(b := rp), pw_acked := pw_acked w \<union> answers_of out,
      pw_commits := insert (?e, take n ?log) (pw_commits w)\<rparr>"
  proof -
    have "rs_is_leader (rp_state rp)" "unat (rs_epoch (rp_state rp)) = ?e" using lead e by (simp_all add: a(2))
    then show ?thesis by (simp add: w'_def set_rep_def Let_def n')
  qed
  have st: "rs_is_leader (rstate w' x) = rs_is_leader (rstate w x)" "rs_epoch (rstate w' x) = rs_epoch (rstate w x)"
    "rs_isr (rstate w' x) = rs_isr (rstate w x)" "rs_match_offsets (rstate w' x) = rs_match_offsets (rstate w x)" for x
    by (simp_all add: w' a(2))
  have hwm: "rp_hwm (pw_reps w' x) = (if x = b then max (rp_hwm (pw_reps w b)) n else rp_hwm (pw_reps w x))" for x
    by (simp add: w' a(1) n_def)
  have same: "pw_ctl w' = pw_ctl w" "pw_logs w' = pw_logs w" "pw_leaders w' = pw_leaders w"
    "pw_sent w' = pw_sent w" "pw_seen w' = pw_seen w" "pw_start w' = pw_start w" "pw_joined w' = pw_joined w"
    "pw_answers w' = pw_answers w" "pw_tasks w' = pw_tasks w" "pw_fetches w' = pw_fetches w"
    by (simp_all add: w')
  have eqs: "leads w' = leads w" "live w' = live w" "kept w' = kept w" "claim w' = claim w" "view w' = view w"
    "possible w' = possible w"
    by (simp_all add: fun_eq_iff leads_def live_def kept_def claim_def view_def possible_def st same)
  have len: "n \<le> length ?log" by (simp add: n_def isr_min_le)
  have c: "pw_commits w' = insert (?e, take n ?log) (pw_commits w)" by (simp add: w')
  have hw: "hwm_good w' x" for x
    using D(13) [of x] len by (auto simp: hwm_good_def hwm same c max_def)
  have "broker_good w' x" for x
  proof -
    have "set (rs_pending_all (rstate w' x)) \<subseteq> set (rs_pending_all (rstate w x))"
      by (auto simp: w' a(2))
    then have "parked_good w' x" using D(12) [of x] unfolding parked_good_def same by blast
    moreover have "role_good w' x" using D(10) [of x] lead
      by (auto simp: role_good_def st same) (auto simp: w')
    moreover have "task_good w' x" using D(11) [of x] unfolding task_good_def same .
    ultimately show ?thesis using hw by (simp add: broker_good_def)
  qed
  moreover have "commits_good w'"
    unfolding commits_good_def
  proof (intro allI impI)
    fix e C assume "(e, C) \<in> pw_commits w'"
    then consider "e = ?e" "C = take n ?log" | "(e, C) \<in> pw_commits w" by (auto simp: w')
    then show "e \<noteq> 0 \<and> e \<le> pw_seen w' (pw_leaders w' e) \<and>
      (live w' e \<longrightarrow> prefix C (pw_logs w' (pw_leaders w' e))) \<and>
      (\<forall>b. kept w' b e \<longrightarrow> prefix C (pw_logs w' b) \<and> (C = [] \<or> e \<le> pw_seen w' b)) \<and>
      (\<forall>b e2. leads w' b e2 \<longrightarrow> e \<le> e2 \<longrightarrow>
        length C \<le> (if e = e2 then max (pw_start w' b) (rp_hwm (pw_reps w' b)) else pw_start w' b))"
    proof cases
      case 1
      have u: "pw_leaders w ?e = b" "?e \<noteq> 0" using leads_unique(2,3) [OF D(10) lb] by (auto simp: live_def)
      have "length C \<le> (if ?e = e2 then max (pw_start w x) (rp_hwm (pw_reps w' x)) else pw_start w x)"
        if "leads w x e2" "?e \<le> e2" for x e2
      proof (cases "?e = e2")
        case True
        then have "x = b" using leads_unique(2) [OF D(10) that(1)] u by simp
        then show ?thesis using True 1 len by (simp add: hwm)
      next
        case False
        then show ?thesis using reach(3) [OF that(1)] that(2) 1 len by simp
      qed
      moreover have "prefix (take n ?log) (pw_logs w x) \<and> (take n ?log = [] \<or> ?e \<le> pw_seen w x)"
        if "kept w x ?e" for x
        using reach(1,2) [OF that] by auto
      moreover have "prefix (take n ?log) (pw_logs w b)" by (rule take_is_prefix)
      ultimately show ?thesis using u unfolding eqs same 1 by (metis order_refl)
    next
      case 2
      note g = commits_goodD [OF D(7) 2]
      have "length C \<le> (if e = e2 then max (pw_start w x) (rp_hwm (pw_reps w' x)) else pw_start w x)"
        if "leads w x e2" "e \<le> e2" for x e2
      proof -
        have "rp_hwm (pw_reps w x) \<le> rp_hwm (pw_reps w' x)" by (simp add: hwm)
        then show ?thesis
          using g(6) [OF that(1)] le_trans [OF g(7) [of x] max.mono [OF order_refl]] that by (auto simp: le_less)
      qed
      then show ?thesis using g(1-5) unfolding eqs same by blast
    qed
  qed
  moreover have "acked_good w'"
    unfolding acked_good_def
  proof (intro allI impI)
    fix reply base assume x: "(reply, base) \<in> pw_acked w'"
    show "\<exists>rs e C. pw_sent w' reply = Some rs \<and> (e, C) \<in> pw_commits w' \<and> rs \<noteq> [] \<and>
      take (length rs) (drop base C) = rs"
    proof (cases "(reply, base) \<in> pw_acked w")
      case True
      then obtain rs e C where "pw_sent w reply = Some rs" "(e, C) \<in> pw_commits w" "rs \<noteq> []"
        "take (length rs) (drop base C) = rs"
        using D(9) unfolding acked_good_def by blast
      then show ?thesis using c unfolding same by blast
    next
      case False
      then obtain count where "(reply, Inr (base, count)) \<in> set out" using x by (auto simp: w' answers_of_def)
      then obtain lst where p: "(lst, base, count, reply) \<in> set (rs_pending_all (rstate w b))" "lst < rp_hwm rp"
        by (auto simp: a(3))
      then obtain rs where rs: "lst + 1 = base + count" "pw_sent w reply = Some rs" "rs \<noteq> []" "count = length rs"
        "take (length rs) (drop base ?log) = rs"
        using D(12) [of b] by (fastforce simp: parked_good_def)
      have h: "rp_hwm (pw_reps w' b) = rp_hwm rp" by (simp add: w')
      then obtain e where e: "(e, take (rp_hwm rp) ?log) \<in> pw_commits w'"
        using hw [of b] p(2) by (auto simp: hwm_good_def same)
      have "base + length rs \<le> rp_hwm rp" using rs p(2) by simp
      then have "take (length rs) (drop base (take (rp_hwm rp) ?log)) = rs"
        using rs(5) by (simp add: drop_take min_absorb1)
      then show ?thesis using rs e by (metis same(4))
    qed
  qed
  moreover have "claims_good w'" "answers_good w'" "joined_good w'" "views_good w'" "future_good w'" "ctl_good w'"
    using D(1,3-6,8)
    by (simp_all add: claims_good_def answers_good_def joined_good_def views_good_def future_good_def
      ctl_good_def eqs same)
  ultimately show ?thesis by (simp add: pw_inv_def w'_def r)
qed

end
