(* ===== verification/FailoverSteps.thy ===== *)
theory FailoverSteps
  imports FailoverFacts
begin

text \<open>
  The steps of theory \<open>Failovers\<close> that leave the logs alone keep the invariant of theory
  \<open>FailoverFacts\<close>: memory and messages that are lost, metadata, proposals, fetches and answers.
\<close>

section \<open>Memory and messages\<close>

lemma broker_good_same:
  assumes "pw_reps w' x = pw_reps w x" and "pw_tasks w' x = pw_tasks w x" and "pw_logs w' x = pw_logs w x"
    and "pw_seen w' x = pw_seen w x" and "pw_leaders w' = pw_leaders w" and "pw_sent w' = pw_sent w"
    and "pw_commits w' = pw_commits w" and "ctl_epoch w' = ctl_epoch w"
    and "ps_replicas (pw_ctl w') = ps_replicas (pw_ctl w)"
  shows "broker_good w' x = broker_good w x"
  unfolding broker_good_def role_good_def task_good_def parked_good_def hwm_good_def assms ..

lemma task_good_same:
  assumes "task_good w x" and "pw_tasks w' x = Idle \<or> pw_tasks w' x = pw_tasks w x"
    and "pw_seen w' x = pw_seen w x" and "pw_leaders w' = pw_leaders w" and "ctl_epoch w' = ctl_epoch w"
    and "ps_replicas (pw_ctl w') = ps_replicas (pw_ctl w)"
  shows "task_good w' x"
  using assms(1,2) unfolding task_good_def assms(3-6) by fastforce

lemma answers_of_failures [simp]:
  "answers_of [] = {}" "answers_of (map (\<lambda>(_, _, _, reply). (reply, Inl code)) ps) = {}"
  by (auto simp: answers_of_def)

lemma set_rep_absorb: "set_rep b r (w\<lparr>pw_reps := (pw_reps w)(b := rp)\<rparr>) = set_rep b r w"
  by (simp add: set_rep_def Let_def)

lemma inv_advance:
  assumes "pw_inv (w\<lparr>pw_reps := (pw_reps w)(b := rp)\<rparr>)"
  shows "pw_inv (set_rep b (advance_hwm b (length (pw_logs w b)) rp) w)"
proof (cases "rs_is_leader (rp_state rp)")
  case True
  then show ?thesis using inv_commit [OF assms, of b] by (simp add: set_rep_absorb)
next
  case False
  then show ?thesis using assms by (simp add: advance_hwm_def set_rep_def Let_def answers_of_def)
qed

lemma inv_forget:
  assumes inv: "pw_inv w"
  shows "pw_inv (w\<lparr>pw_tasks := (pw_tasks w)(b := Idle)\<rparr>)"
proof (rule inv_onward [OF inv])
  let ?w = "w\<lparr>pw_tasks := (pw_tasks w)(b := Idle)\<rparr>"
  show "ctl_good ?w" using pw_invD(1) [OF inv] by (simp add: ctl_good_def)
  show "broker_good ?w x" for x
    using pw_invD(2) [OF inv, of x] broker_good_same [of ?w x w]
    by (cases "x = b") (auto simp: broker_good_def role_good_def task_good_def parked_good_def hwm_good_def)
qed (auto simp: view_def claim_def leads_def split: if_splits)

lemma inv_lose:
  assumes inv: "pw_inv w" and "F \<subseteq> pw_fetches w" and "A \<subseteq> pw_answers w"
  shows "pw_inv (w\<lparr>pw_fetches := F, pw_answers := A\<rparr>)"
proof (rule inv_onward [OF inv])
  let ?w = "w\<lparr>pw_fetches := F, pw_answers := A\<rparr>"
  show "ctl_good ?w" using pw_invD(1) [OF inv] by (simp add: ctl_good_def)
  show "broker_good ?w x" for x
    using pw_invD(2) [OF inv, of x] broker_good_same [of ?w x w] by simp
qed (use assms in \<open>auto simp: view_def claim_def leads_def\<close>)

text \<open>A replica that no longer leads, with nothing parked.\<close>

lemma inv_step_down:
  assumes inv: "pw_inv w" and st: "\<not> rs_is_leader (rp_state rp)" "rs_pending_all (rp_state rp) = []"
    and e: "rs_epoch (rp_state rp) = 0 \<or> rs_epoch (rp_state rp) = rs_epoch (rstate w b)"
    and hwm: "rp_hwm rp = 0 \<or> rp_hwm rp = rp_hwm (pw_reps w b)"
    and task: "task = Idle \<or> task = pw_tasks w b"
  shows "pw_inv (w\<lparr>pw_reps := (pw_reps w)(b := rp), pw_tasks := (pw_tasks w)(b := task),
    pw_joined := (pw_joined w)(b := False)\<rparr>)"
proof (rule inv_onward [OF inv])
  let ?w = "w\<lparr>pw_reps := (pw_reps w)(b := rp), pw_tasks := (pw_tasks w)(b := task),
    pw_joined := (pw_joined w)(b := False)\<rparr>"
  show "ctl_good ?w" using pw_invD(1) [OF inv] by (simp add: ctl_good_def)
  show "broker_good ?w x" for x
  proof (cases "x = b")
    case True
    have "role_good ?w b" using pw_invD(10) [OF inv, of b] st e by (auto simp: role_good_def)
    moreover have "task_good ?w b" by (rule task_good_same [OF pw_invD(11) [OF inv, of b]]) (use task in auto)
    moreover have "parked_good ?w b" using st by (simp add: parked_good_def)
    moreover have "hwm_good ?w b" using pw_invD(13) [OF inv, of b] hwm by (auto simp: hwm_good_def)
    ultimately show ?thesis using True by (simp add: broker_good_def)
  next
    case False
    then show ?thesis using pw_invD(2) [OF inv, of x] broker_good_same [of ?w x w] by simp
  qed
qed (use st task in \<open>auto simp: view_def claim_def leads_def split: if_splits\<close>)

lemma inv_session_lost:
  assumes "pw_inv w"
  shows "pw_inv (set_rep b (invalidate (pw_reps w b)) (w\<lparr>pw_joined := (pw_joined w)(b := False)\<rparr>))"
proof -
  have eq: "set_rep b (invalidate (pw_reps w b)) (w\<lparr>pw_joined := (pw_joined w)(b := False)\<rparr>) =
    w\<lparr>pw_reps := (pw_reps w)(b := fst (invalidate (pw_reps w b))), pw_tasks := (pw_tasks w)(b := pw_tasks w b),
      pw_joined := (pw_joined w)(b := False)\<rparr>"
    by (rule pworld.equality) (simp_all add: set_rep_def invalidate_def Let_def)
  show ?thesis unfolding eq by (rule inv_step_down [OF assms]) (simp_all add: invalidate_def Let_def)
qed

lemma inv_restart:
  assumes "pw_inv w"
  shows "pw_inv (w\<lparr>pw_reps := (pw_reps w)(b := replica_new now), pw_tasks := (pw_tasks w)(b := Idle),
    pw_joined := (pw_joined w)(b := False)\<rparr>)"
  by (rule inv_step_down [OF assms]) (simp_all add: replica_new_def)

section \<open>Answers from the controller and fetches\<close>

text \<open>A replica that goes on in its role, with fewer claims on its followers or another in-sync set.\<close>

lemma inv_role_kept:
  assumes inv: "pw_inv w"
    and st: "rs_is_leader st = rs_is_leader (rstate w b)" "rs_epoch st = rs_epoch (rstate w b)"
      "\<not> rs_is_leader st \<Longrightarrow> rs_pending_all st = []"
    and parked: "parked_good (w\<lparr>pw_reps := (pw_reps w)(b := (pw_reps w b)\<lparr>rp_state := st\<rparr>)\<rparr>) b"
    and isr: "rs_is_leader st \<Longrightarrow> view w (unat (rs_epoch st)) (set (rs_isr st))"
    and m: "\<And>f n t. rs_is_leader st \<Longrightarrow> hm_get (rs_match_offsets st) f = Some (n, t) \<Longrightarrow>
      claim w (unat (rs_epoch st)) f n"
    and task: "task = Idle \<or> task = pw_tasks w b"
  shows "pw_inv (w\<lparr>pw_tasks := (pw_tasks w)(b := task),
    pw_reps := (pw_reps w)(b := (pw_reps w b)\<lparr>rp_state := st\<rparr>)\<rparr>)"
proof (rule inv_onward [OF inv])
  let ?w = "w\<lparr>pw_tasks := (pw_tasks w)(b := task), pw_reps := (pw_reps w)(b := (pw_reps w b)\<lparr>rp_state := st\<rparr>)\<rparr>"
  note D = pw_invD [OF inv]
  have l: "leads ?w x e = leads w x e" for x e by (simp add: leads_def st(1,2))
  show "ctl_good ?w" using pw_invD(1) [OF inv] by (simp add: ctl_good_def)
  show "broker_good ?w x" for x
  proof (cases "x = b")
    case True
    have "role_good ?w b" using D(10) [of b] st by (simp add: role_good_def)
    moreover have "task_good ?w b" by (rule task_good_same [OF D(11) [of b]]) (use task in auto)
    moreover have "parked_good ?w b" using parked by (simp add: parked_good_def)
    moreover have "hwm_good ?w b" using D(13) [of b] by (simp add: hwm_good_def)
    ultimately show ?thesis using True by (simp add: broker_good_def)
  next
    case False
    then show ?thesis using D(2) [of x] broker_good_same [of ?w x w] by simp
  qed
  show "view w e X \<or> e = ctl_epoch w \<and> in_sync ?w \<subseteq> X" if v: "view ?w e X" for e X
  proof (cases "leads w b e \<and> pw_leaders w e = b \<and> X = set (rs_isr st)")
    case True
    then show ?thesis using isr st(1,2) by (simp add: leads_def)
  next
    case False
    then show ?thesis using v task unfolding view_def l by (auto split: if_splits)
  qed
  show "claim w e f n" if c: "claim ?w e f n" for e f n
  proof (cases "leads w b e \<and> pw_leaders w e = b \<and> (f, e, n) \<notin> pw_fetches w")
    case True
    then show ?thesis using c m [of f n] st(1,2) by (auto simp: claim_def l leads_def)
  next
    case False
    then show ?thesis using c unfolding claim_def l by (auto split: if_splits)
  qed
  show "pw_start ?w x = length (pw_logs w x) \<or>
      leads w x e \<and> pw_start ?w x = pw_start w x \<and> rp_hwm (pw_reps ?w x) = rp_hwm (pw_reps w x)"
    if "leads ?w x e" for x e
    using that l by simp
qed auto

lemma inv_same_role:
  assumes inv: "pw_inv w"
    and st: "rs_is_leader st = rs_is_leader (rstate w b)" "rs_epoch st = rs_epoch (rstate w b)"
      "rs_pending_all st = rs_pending_all (rstate w b)"
    and "rs_is_leader st \<Longrightarrow> view w (unat (rs_epoch st)) (set (rs_isr st))"
    and "\<And>f n t. rs_is_leader st \<Longrightarrow> hm_get (rs_match_offsets st) f = Some (n, t) \<Longrightarrow>
      claim w (unat (rs_epoch st)) f n"
    and "task = Idle \<or> task = pw_tasks w b"
  shows "pw_inv (w\<lparr>pw_tasks := (pw_tasks w)(b := task),
    pw_reps := (pw_reps w)(b := (pw_reps w b)\<lparr>rp_state := st\<rparr>)\<rparr>)"
proof (rule inv_role_kept [OF inv st(1,2) _ _ assms(5-7)])
  show "\<not> rs_is_leader st \<Longrightarrow> rs_pending_all st = []"
    using pw_invD(10) [OF inv, of b] st by (simp add: role_good_def)
  show "parked_good (w\<lparr>pw_reps := (pw_reps w)(b := (pw_reps w b)\<lparr>rp_state := st\<rparr>)\<rparr>) b"
    using pw_invD(12) [OF inv, of b] st(3) by (simp add: parked_good_def)
qed

lemma inv_accept:
  assumes inv: "pw_inv w" and task: "pw_tasks w b = Accepted e isr"
  shows "pw_inv (set_rep b (isr_accepted b (length (pw_logs w b)) e isr (pw_reps w b))
    (w\<lparr>pw_tasks := (pw_tasks w)(b := Idle)\<rparr>))"
proof -
  let ?st = "rstate w b"
  define st where "st = (if rs_is_leader ?st \<and> rs_epoch ?st = e then ?st\<lparr>rs_isr := isr\<rparr> else ?st)"
  let ?rp = "(pw_reps w b)\<lparr>rp_state := st\<rparr>" and ?w = "w\<lparr>pw_tasks := (pw_tasks w)(b := Idle)\<rparr>"
  have r: "isr_accepted b (length (pw_logs w b)) e isr (pw_reps w b) = advance_hwm b (length (pw_logs w b)) ?rp"
    by (simp add: isr_accepted_def st_def Let_def)
  have st: "rs_is_leader st = rs_is_leader ?st" "rs_epoch st = rs_epoch ?st"
    "rs_pending_all st = rs_pending_all ?st" "rs_match_offsets st = rs_match_offsets ?st"
    by (simp_all add: st_def)
  have lead: "leads w b (unat (rs_epoch ?st)) \<and> pw_leaders w (unat (rs_epoch ?st)) = b" if "rs_is_leader st"
    using leads_unique(2) [OF pw_invD(10) [OF inv], of b "unat (rs_epoch ?st)"] that st by (simp add: leads_def)
  have "pw_inv (w\<lparr>pw_tasks := (pw_tasks w)(b := Idle), pw_reps := (pw_reps w)(b := ?rp)\<rparr>)"
  proof (rule inv_same_role [OF inv])
    show "view w (unat (rs_epoch st)) (set (rs_isr st))" if "rs_is_leader st"
      using lead [OF that] task unfolding view_def by (auto simp: st_def)
    show "claim w (unat (rs_epoch st)) f n"
      if "rs_is_leader st" "hm_get (rs_match_offsets st) f = Some (n, t)" for f n t
      using lead [OF that(1)] that by (auto simp: claim_def st)
  qed (simp_all add: st)
  then show ?thesis using inv_advance [of ?w b ?rp] by (simp add: r)
qed

lemma inv_receive:
  assumes inv: "pw_inv w" and f: "(f, e, offset) \<in> pw_fetches w" and b: "b = pw_leaders w e"
    and r: "replica_fetch now b (length (pw_logs w b)) f (word_of_nat e) offset (pw_reps w b) = (rp, out, None)"
  shows "pw_inv (set_rep b (rp, out) w)"
proof -
  note D = pw_invD [OF inv]
  let ?n = "length (pw_logs w b)"
  obtain st err where a: "accept_fetch now ?n f (word_of_nat e) offset (rstate w b) = (st, err)" by fastforce
  let ?rp = "(pw_reps w b)\<lparr>rp_state := st\<rparr>"
  have err: "err = None" and r': "(rp, out) = advance_hwm b ?n ?rp"
    using r a by (auto simp: replica_fetch_def split: option.splits prod.splits)
  have ep: "rs_is_leader (rstate w b)" "rs_epoch (rstate w b) = word_of_nat e"
    using a err by (auto simp: accept_fetch_def Let_def split: if_splits)
  have c: "claim w e f offset" using f by (simp add: claim_def)
  have "e \<le> ctl_epoch w" "ctl_epoch w < 2 ^ 64"
    using claims_goodD(3) [OF D(3) c] D(10) [of f] D(1) by (auto simp: role_good_def ctl_good_def)
  then have e: "unat (word_of_nat e :: u64) = e" by (simp add: unsigned_of_nat take_bit_nat_eq_self)
  have st: "rs_is_leader st" "rs_epoch st = rs_epoch (rstate w b)" "rs_isr st = rs_isr (rstate w b)"
    "rs_pending_all st = rs_pending_all (rstate w b)"
    "\<And>x. hm_get (rs_match_offsets st) x \<noteq> hm_get (rs_match_offsets (rstate w b)) x \<Longrightarrow>
      x = f \<and> (\<exists>t. hm_get (rs_match_offsets st) x = Some (offset, t))"
    using a err by (auto simp: accept_fetch_def Let_def split: if_splits)
  have e': "unat (rs_epoch (rstate w b)) = e" using ep e by simp
  then have lead: "leads w b e" using ep by (simp add: leads_def)
  have "pw_inv (w\<lparr>pw_tasks := (pw_tasks w)(b := pw_tasks w b), pw_reps := (pw_reps w)(b := ?rp)\<rparr>)"
  proof (rule inv_same_role [OF inv])
    show "view w (unat (rs_epoch st)) (set (rs_isr st))" if "rs_is_leader st"
      unfolding st(2,3) e' view_def using lead b by simp
    show "claim w (unat (rs_epoch st)) x n"
      if "rs_is_leader st" "hm_get (rs_match_offsets st) x = Some (n, t)" for x n t
    proof (cases "hm_get (rs_match_offsets st) x = hm_get (rs_match_offsets (rstate w b)) x")
      case True
      then have "hm_get (rs_match_offsets (rstate w b)) x = Some (n, t)" using that by simp
      then show ?thesis unfolding st(2) e' claim_def using lead b by blast
    next
      case False
      then show ?thesis unfolding st(2) e' using st(5) [of x] that c by auto
    qed
  qed (simp_all add: st ep)
  then show ?thesis using inv_advance [of w b ?rp] by (simp add: r')
qed

section \<open>Metadata\<close>

lemma update_role_effect:
  assumes "update_role now b p st0 = (st, transition, failed)"
  shows "rs_epoch st = pm_leader_epoch p" "rs_isr st = pm_isr p" "rs_is_leader st \<longleftrightarrow> pm_leader p = b"
    "pm_leader p = b \<Longrightarrow> failed = [] \<and> rs_pending_all st = rs_pending_all st0 \<and>
       (if transition then rs_match_offsets st = []
        else rs_is_leader st0 \<and> rs_epoch st0 = rs_epoch st \<and> rs_match_offsets st = rs_match_offsets st0)"
    "pm_leader p \<noteq> b \<Longrightarrow> rs_pending_all st = [] \<or> \<not> rs_is_leader st0 \<and> rs_pending_all st = rs_pending_all st0"
  using assms by (auto simp: update_role_def Let_def split: if_splits)

lemma after_apply_set_rep:
  "after_apply b p action (set_rep b r w) = set_rep b r (after_apply b p action w)"
  by (rule pworld.equality) (simp_all add: after_apply_def set_rep_def Let_def split: role_action.split)

lemma after_apply_fields [simp]:
  "pw_ctl (after_apply b p action w) = pw_ctl w" "pw_logs (after_apply b p action w) = pw_logs w"
  "pw_reps (after_apply b p action w) = pw_reps w"
  "pw_leaders (after_apply b p action w) = pw_leaders w" "pw_commits (after_apply b p action w) = pw_commits w"
  "pw_sent (after_apply b p action w) = pw_sent w" "pw_acked (after_apply b p action w) = pw_acked w"
  "pw_fetches (after_apply b p action w) = pw_fetches w" "pw_answers (after_apply b p action w) = pw_answers w"
  "pw_tasks (after_apply b p action w) = (pw_tasks w)(b := Idle)"
  "pw_seen (after_apply b p action w) = (pw_seen w)(b := unat (pm_leader_epoch p))"
  "pw_joined (after_apply b p action w) = (pw_joined w)(b :=
     (pw_joined w b \<and> pw_seen w b = unat (pm_leader_epoch p) \<and> action = NoAction))"
  "pw_start (after_apply b p action w) = (pw_start w)(b :=
     (case action of RecordLeaderEpoch _ \<Rightarrow> length (pw_logs w b) | _ \<Rightarrow> pw_start w b))"
  by (auto simp: after_apply_def Let_def split: role_action.split)

lemma inv_apply:
  assumes inv: "pw_inv w" and task: "pw_tasks w b = Refreshed p" and mem: "b \<in> set (pm_replicas p)"
    and a: "apply_partition now b addrs p (length (pw_logs w b)) (pw_reps w b) = (rp, out, action)"
  shows "pw_inv (after_apply b p action (set_rep b (rp, out) w))"
proof -
  note D = pw_invD [OF inv]
  let ?e = "unat (pm_leader_epoch p)" and ?n = "length (pw_logs w b)"
  obtain st transition failed where u: "update_role now b p (rstate w b) = (st, transition, failed)"
    by (metis prod_cases3)
  note U = update_role_effect [OF u]
  let ?rp = "(pw_reps w b)\<lparr>rp_state := st\<rparr>" and ?w1 = "after_apply b p action w"
  let ?w = "?w1\<lparr>pw_reps := (pw_reps ?w1)(b := ?rp)\<rparr>"
  have t: "pw_seen w b \<le> ?e" "?e \<le> ctl_epoch w" "1 \<le> ?e" "pm_replicas p = ps_replicas (pw_ctl w)"
    "pm_leader p = - 1 \<or> pm_leader p = pw_leaders w ?e"
    using D(11) [of b] task by (auto simp: task_good_def)
  have lead: "pw_leaders w ?e = b" if "pm_leader p = b"
    using t(4,5) that mem D(1) by (auto simp: ctl_good_def)
  have out: "if pm_leader p = b then advance_hwm b ?n ?rp = (rp, out) \<and>
      action = (if transition then RecordLeaderEpoch (pm_leader_epoch p) else NoAction)
    else rp = ?rp \<and> answers_of out = {}"
    using a U(3,4) unfolding apply_partition_def u
    by (auto simp: advance_hwm_def Let_def split: if_splits prod.splits)
  have lw: "leads ?w x e \<longleftrightarrow> (if x = b then pm_leader p = b \<and> e = ?e else leads w x e)" for x e
    by (auto simp: leads_def U(1,3))
  have "pw_inv ?w"
  proof (rule inv_onward [OF inv])
    show "ctl_good ?w" using D(1) by (simp add: ctl_good_def)
    show "pw_seen w x \<le> pw_seen ?w x" for x using t(1) by simp
    show "view w e X \<or> e = ctl_epoch w \<and> in_sync ?w \<subseteq> X" if v: "view ?w e X" for e X
    proof (cases "pw_leaders w e = b")
      case True
      then have "e = ?e \<and> pm_leader p = b \<and> X = set (pm_isr p)"
        using v unfolding view_def lw by (auto simp: U(2) split: if_splits)
      then show ?thesis using True task by (auto simp: view_def)
    next
      case False
      then show ?thesis using v unfolding view_def lw by (auto simp: lw)
    qed
    show "claim w e f n" if c: "claim ?w e f n" for e f n
    proof (cases "(f, e, n) \<in> pw_fetches w")
      case True
      then show ?thesis by (simp add: claim_def)
    next
      case False
      show ?thesis
      proof (cases "pw_leaders w e = b")
        case True
        then have l: "pm_leader p = b" "e = ?e" and m: "\<exists>t. hm_get (rs_match_offsets st) f = Some (n, t)"
          using c False unfolding claim_def lw by auto
        then have "leads w b e" "rs_match_offsets st = rs_match_offsets (rstate w b)"
          using U(1,4) by (auto simp: leads_def split: if_splits)
        then show ?thesis using m True by (auto simp: claim_def)
      next
        case False
        then show ?thesis using c unfolding claim_def lw by auto
      qed
    qed
    show "pw_joined w f \<and> pw_seen ?w f = pw_seen w f" if "pw_joined ?w f" for f
      using that by (auto split: if_splits)
    show "pw_start ?w x = length (pw_logs w x) \<or>
        leads w x e \<and> pw_start ?w x = pw_start w x \<and> rp_hwm (pw_reps ?w x) = rp_hwm (pw_reps w x)"
      if "leads ?w x e" for x e
    proof (cases "x = b")
      case True
      then have "pm_leader p = b" "e = ?e" using that lw by auto
      then show ?thesis using True out U(1,4) by (auto simp: leads_def split: if_splits)
    next
      case False
      then show ?thesis using that lw by simp
    qed
    show "broker_good ?w x" for x
    proof (cases "x = b")
      case True
      have "rs_epoch st \<noteq> 0" using t(3) U(1) by auto
      then have "role_good ?w b"
        using D(10) [of b] t(2) lead U(1,3,5) by (auto simp: role_good_def)
      moreover have "set (rs_pending_all st) \<subseteq> set (rs_pending_all (rstate w b))" using U(4,5) by fastforce
      then have "parked_good ?w b" using D(12) [of b] by (auto simp: parked_good_def)
      moreover have "hwm_good ?w b" using D(13) [of b] t(1) by (fastforce simp: hwm_good_def)
      ultimately show ?thesis using True by (simp add: broker_good_def task_good_def)
    next
      case False
      then show ?thesis using D(2) [of x] broker_good_same [of ?w x w] by simp
    qed
  qed simp_all
  show ?thesis
  proof (cases "pm_leader p = b")
    case True
    then show ?thesis using inv_advance [OF \<open>pw_inv ?w\<close>] out by (simp add: after_apply_set_rep)
  next
    case False
    have "set_rep b (rp, out) ?w1 = ?w"
      by (rule pworld.equality) (use False out U(3) in \<open>auto simp: set_rep_def Let_def\<close>)
    then show ?thesis using \<open>pw_inv ?w\<close> by (simp add: after_apply_set_rep)
  qed
qed

lemma unat_ctl_epoch:
  assumes "pw_inv w" and "e \<le> ctl_epoch w"
  shows "unat (word_of_nat e :: u64) = e"
  using pw_invD(1) [OF assms(1)] assms(2) by (simp add: ctl_good_def unsigned_of_nat take_bit_nat_eq_self)

lemma inv_refresh:
  assumes inv: "pw_inv w"
  shows "pw_inv (w\<lparr>pw_tasks := (pw_tasks w)(b := Refreshed (part_meta (pw_ctl w)))\<rparr>)"
proof (rule inv_onward [OF inv])
  let ?w = "w\<lparr>pw_tasks := (pw_tasks w)(b := Refreshed (part_meta (pw_ctl w)))\<rparr>"
  note D = pw_invD [OF inv]
  have e: "unat (pm_leader_epoch (part_meta (pw_ctl w))) = ctl_epoch w"
    using unat_ctl_epoch [OF inv order_refl] by (simp add: part_meta_def)
  show "ctl_good ?w" using D(1) by (simp add: ctl_good_def)
  show "view w e X \<or> e = ctl_epoch w \<and> in_sync ?w \<subseteq> X" if v: "view ?w e X" for e X
  proof (cases "view w e X")
    case False
    then have "e = ctl_epoch w \<and> X = in_sync w"
      using v e unfolding view_def by (auto simp: leads_def part_meta_def split: if_splits)
    then show ?thesis by simp
  qed simp
  show "broker_good ?w x" for x
  proof (cases "x = b")
    case True
    have "task_good ?w b"
      using D(1) D(10) [of b] e
      by (auto simp: task_good_def ctl_good_def role_good_def) (auto simp: part_meta_def)
    then show ?thesis using D(2) [of b] True
      by (simp add: broker_good_def role_good_def parked_good_def hwm_good_def)
  next
    case False
    then show ?thesis using D(2) [of x] broker_good_same [of ?w x w] by simp
  qed
qed (auto simp: claim_def leads_def)

text \<open>What the guards of a proposal say.\<close>

lemma proposal_guards:
  assumes inv: "pw_inv w" and p: "isr_proposal now b lag (rstate w b) = Some (e, isr)"
    and a: "alter_part e isr (pw_ctl w) = Some ctl"
  shows "rs_is_leader (rstate w b)" "rs_epoch (rstate w b) = e" "leads w b (ctl_epoch w)" "unat e = ctl_epoch w"
    "pw_leaders w (ctl_epoch w) = b" "pw_seen w b = ctl_epoch w" "ctl = (pw_ctl w)\<lparr>ps_isr := isr\<rparr>"
    "set isr \<subseteq> set (ps_replicas (pw_ctl w))"
proof -
  show l: "rs_is_leader (rstate w b)" "rs_epoch (rstate w b) = e"
    using p by (auto simp: isr_proposal_def Let_def split: if_splits)
  show e: "unat e = ctl_epoch w" "ctl = (pw_ctl w)\<lparr>ps_isr := isr\<rparr>" "set isr \<subseteq> set (ps_replicas (pw_ctl w))"
    using a by (auto simp: alter_part_def list_all_iff split: if_splits)
  show lb: "leads w b (ctl_epoch w)" using l e by (simp add: leads_def)
  show "pw_leaders w (ctl_epoch w) = b" "pw_seen w b = ctl_epoch w"
    using leads_unique(1,2) [OF pw_invD(10) [OF inv] lb] by simp_all
qed

lemma inv_propose:
  assumes inv: "pw_inv w" and task: "pw_tasks w b = Idle"
    and p: "isr_proposal now b lag (rstate w b) = Some (e, isr)"
    and a: "alter_part e isr (pw_ctl w) = Some ctl" and sub: "set isr \<subseteq> in_sync w"
  shows "pw_inv (w\<lparr>pw_ctl := ctl, pw_tasks := (pw_tasks w)(b := Accepted e isr)\<rparr>)"
proof (rule inv_onward [OF inv])
  let ?w = "w\<lparr>pw_ctl := ctl, pw_tasks := (pw_tasks w)(b := Accepted e isr)\<rparr>"
  note D = pw_invD [OF inv]
  note G = proposal_guards [OF inv p a]
  show "ctl_good ?w" using D(1) G(8) by (simp add: ctl_good_def G(7))
  show "in_sync ?w \<subseteq> in_sync w" "ctl_epoch ?w = ctl_epoch w" using sub by (simp_all add: G(7))
  show "view w e' X \<or> e' = ctl_epoch w \<and> in_sync ?w \<subseteq> X" if v: "view ?w e' X" for e' X
  proof (cases "view w e' X")
    case False
    then have "e' = ctl_epoch w \<and> X = set isr"
      using v G(4) unfolding view_def by (auto simp: leads_def split: if_splits)
    then show ?thesis by (simp add: G(7))
  qed simp
  show "broker_good ?w x" for x
  proof (cases "x = b")
    case True
    have "task_good ?w b" using D(1) by (simp add: task_good_def G(4,6) ctl_good_def)
    then show ?thesis using D(2) [of b] True
      by (simp add: broker_good_def role_good_def parked_good_def hwm_good_def G(7))
  next
    case False
    then show ?thesis using D(2) [of x] broker_good_same [of ?w x w] by (simp add: G(7))
  qed
qed (auto simp: claim_def leads_def)

section \<open>Fetches and their answers\<close>

lemma inv_messages:
  assumes inv: "pw_inv w"
    and same: "pw_ctl w' = pw_ctl w" "pw_reps w' = pw_reps w" "pw_logs w' = pw_logs w" "pw_leaders w' = pw_leaders w"
      "pw_commits w' = pw_commits w" "pw_sent w' = pw_sent w" "pw_acked w' = pw_acked w" "pw_seen w' = pw_seen w"
      "pw_start w' = pw_start w" "pw_joined w' = pw_joined w" "pw_tasks w' = pw_tasks w"
    and good: "claims_good w'" "answers_good w'"
    and poss: "\<And>e X n. possible w' e X n \<Longrightarrow> possible w e X n"
  shows "pw_inv w'"
proof -
  note D = pw_invD [OF inv]
  have eqs: "leads w' = leads w" "live w' = live w" "kept w' = kept w" "view w' = view w"
    unfolding fun_eq_iff leads_def live_def kept_def view_def same by simp_all
  have "future_good w'"
    using D(8) poss unfolding future_good_def eqs same by blast
  moreover have "broker_good w' x" for x using D(2) [of x] broker_good_same [of w' x w] by (simp add: same)
  moreover have "ctl_good w'" using D(1) unfolding ctl_good_def same .
  moreover have "joined_good w'" using D(5) unfolding joined_good_def eqs same .
  moreover have "views_good w'" using D(6) unfolding views_good_def eqs same .
  moreover have "commits_good w'" using D(7) unfolding commits_good_def eqs same .
  moreover have "acked_good w'" using D(9) unfolding acked_good_def same .
  ultimately show ?thesis using good by (simp add: pw_inv_def)
qed

lemma inv_answer_fetch:
  assumes inv: "pw_inv w" and f: "(f, e, n) \<in> pw_fetches w"
  shows "pw_inv (w\<lparr>pw_answers :=
    insert (f, e, n, take k (drop n (pw_logs w (pw_leaders w e)))) (pw_answers w)\<rparr>)" (is "pw_inv ?w")
proof (rule inv_messages [OF inv])
  note D = pw_invD [OF inv]
  have c: "claim w e f n" using f by (simp add: claim_def)
  have l: "live ?w e = live w e" for e by (simp add: live_def)
  have cl: "claim ?w = claim w" by (simp add: fun_eq_iff claim_def leads_def)
  show "claims_good ?w" using D(3) unfolding claims_good_def l cl by simp
  show "answers_good ?w"
    unfolding answers_good_def
  proof (intro allI impI)
    fix f' e' n' rs
    assume "(f', e', n', rs) \<in> pw_answers ?w"
    then consider "(f', e', n', rs) \<in> pw_answers w"
      | "e' = e" "n' = n" "rs = take k (drop n (pw_logs w (pw_leaders w e)))" by auto
    then show "e' \<noteq> 0 \<and> e' \<le> pw_seen ?w (pw_leaders ?w e') \<and> (live ?w e' \<longrightarrow>
      n' \<le> length (pw_logs ?w (pw_leaders ?w e')) \<and> prefix rs (drop n' (pw_logs ?w (pw_leaders ?w e'))))"
    proof cases
      case 1
      then show ?thesis using answers_goodD [OF D(4)] by (simp add: l)
    next
      case 2
      then show ?thesis using claims_goodD [OF D(3) c] by (simp add: l take_is_prefix)
    qed
  qed
  show "possible w e X n" if "possible ?w e X n" for e X n using that by (simp add: possible_def cl)
qed simp_all

lemma inv_send:
  assumes inv: "pw_inv w" and e: "rs_epoch (rstate w f) \<noteq> 0" "pw_joined w f"
  shows "pw_inv (w\<lparr>pw_fetches :=
    insert (f, unat (rs_epoch (rstate w f)), length (pw_logs w f)) (pw_fetches w)\<rparr>)" (is "pw_inv ?w")
proof (rule inv_messages [OF inv])
  note D = pw_invD [OF inv]
  define e where "e = pw_seen w f"
  have ep: "unat (rs_epoch (rstate w f)) = e" using D(10) [of f] e by (auto simp: role_good_def e_def)
  note J = joined_goodD [OF D(5) e(2) e_def]
  have l: "live ?w e = live w e" "leads ?w b e = leads w b e" for b e by (simp_all add: live_def leads_def)
  have c: "claim ?w e' f' n \<longleftrightarrow> claim w e' f' n \<or> f' = f \<and> e' = e \<and> n = length (pw_logs w f)" for e' f' n
    by (auto simp: claim_def leads_def ep)
  show "possible w e' X n" if "possible ?w e' X n" for e' X n
    using that e_def unfolding possible_def c by auto
  show "claims_good ?w"
    unfolding claims_good_def
  proof (intro allI impI)
    fix e' f' n
    assume "claim ?w e' f' n"
    then consider "claim w e' f' n" | "f' = f" "e' = e" "n = length (pw_logs w f)" unfolding c by blast
    then show "e' \<noteq> 0 \<and> f' \<noteq> pw_leaders ?w e' \<and> e' \<le> pw_seen ?w f' \<and> e' \<le> pw_seen ?w (pw_leaders ?w e') \<and>
      (live ?w e' \<longrightarrow> n \<le> length (pw_logs ?w (pw_leaders ?w e')) \<and> (pw_seen ?w f' = e' \<longrightarrow>
        n \<le> length (pw_logs ?w f') \<and> prefix (pw_logs ?w f') (pw_logs ?w (pw_leaders ?w e'))))"
    proof cases
      case 1
      then show ?thesis using claims_goodD [OF D(3)] by (simp add: l)
    next
      case 2
      then show ?thesis using J prefix_length_le [OF J(4)] by (simp add: l e_def)
    qed
  qed
  show "answers_good ?w" using D(4) by (simp add: answers_good_def l)
qed simp_all

section \<open>Produces\<close>

text \<open>An acks=all produce whose batch is in the leader's log is parked.\<close>

lemma inv_park:
  assumes inv: "pw_inv w" and lead: "rs_is_leader (rstate w b)" and rs: "pw_sent w reply = Some rs" "rs \<noteq> []"
    and base: "base + length rs \<le> length (pw_logs w b)" "take (length rs) (drop base (pw_logs w b)) = rs"
  shows "pw_inv (set_rep b (park_all b (length (pw_logs w b)) base (length rs) reply (pw_reps w b)) w)"
proof -
  let ?st = "(rstate w b)\<lparr>rs_pending_all :=
    rs_pending_all (rstate w b) @ [(base + length rs - 1, base, length rs, reply)]\<rparr>"
  let ?rp = "(pw_reps w b)\<lparr>rp_state := ?st\<rparr>"
  have l: "leads w b (unat (rs_epoch (rstate w b)))" using lead by (simp add: leads_def)
  note u = leads_unique(2) [OF pw_invD(10) [OF inv] l]
  have "pw_inv (w\<lparr>pw_tasks := (pw_tasks w)(b := pw_tasks w b), pw_reps := (pw_reps w)(b := ?rp)\<rparr>)"
  proof (rule inv_role_kept [OF inv])
    have "length rs \<noteq> 0" using rs by simp
    then show "parked_good (w\<lparr>pw_reps := (pw_reps w)(b := ?rp)\<rparr>) b"
      using pw_invD(12) [OF inv, of b] rs base by (auto simp: parked_good_def)
    show "view w (unat (rs_epoch ?st)) (set (rs_isr ?st))" using l u by (auto simp: view_def)
    show "claim w (unat (rs_epoch ?st)) f n" if "hm_get (rs_match_offsets ?st) f = Some (n, t)" for f n t
      using that l u by (auto simp: claim_def)
  qed (use lead in simp_all)
  then show ?thesis using inv_advance [of w b ?rp] by (simp add: park_all_def)
qed

end
