(* ===== verification/FailoverProperties.thy ===== *)
theory FailoverProperties
  imports FailoverSteps
begin

text \<open>
  The steps of theory \<open>Failovers\<close> that change logs, elections and the growth of in-sync sets keep
  the invariant of theory \<open>FailoverFacts\<close>; and the property: what was acknowledged at acks=all
  survives failovers.
\<close>

section \<open>Logs\<close>

lemma hwm_good_extend:
  assumes "hwm_good w x" and "prefix (pw_logs w x) (pw_logs w' x)"
    and "pw_reps w' x = pw_reps w x" "pw_seen w' x = pw_seen w x" "pw_commits w' = pw_commits w"
  shows "hwm_good w' x"
  using assms(1,2) unfolding hwm_good_def assms(3-5) by (auto simp: prefix_def)

lemma parked_good_extend:
  assumes "parked_good w x" and "prefix (pw_logs w x) (pw_logs w' x)" and "pw_reps w' x = pw_reps w x"
    and sent: "\<And>r rs. pw_sent w r = Some rs \<Longrightarrow> pw_sent w' r = Some rs"
  shows "parked_good w' x"
  using assms(1,2) sent unfolding parked_good_def assms(3) by (fastforce simp: prefix_def)

text \<open>A leader appends, or a follower that has reconciled appends records of its leader's log.\<close>

lemma inv_extend:
  assumes inv: "pw_inv w"
    and logs: "pw_logs w' = (pw_logs w)(x := pw_logs w x @ rs)"
    and sent: "\<And>r v. pw_sent w r = Some v \<Longrightarrow> pw_sent w' r = Some v"
    and who: "leads w x (pw_seen w x) \<or> pw_joined w x \<and> (live w (pw_seen w x) \<longrightarrow>
      prefix (pw_logs w x @ rs) (pw_logs w (pw_leaders w (pw_seen w x))))"
    and same: "pw_ctl w' = pw_ctl w" "pw_reps w' = pw_reps w" "pw_leaders w' = pw_leaders w"
      "pw_commits w' = pw_commits w" "pw_acked w' = pw_acked w" "pw_seen w' = pw_seen w"
      "pw_start w' = pw_start w" "pw_joined w' = pw_joined w" "pw_tasks w' = pw_tasks w"
      "pw_fetches w' = pw_fetches w" "pw_answers w' = pw_answers w"
  shows "pw_inv w'"
proof -
  note D = pw_invD [OF inv]
  have eqs: "leads w' = leads w" "live w' = live w" "kept w' = kept w" "view w' = view w" "claim w' = claim w"
    "possible w' = possible w"
    unfolding fun_eq_iff leads_def live_def kept_def view_def claim_def possible_def same by simp_all
  have g: "prefix (pw_logs w b) (pw_logs w' b)" for b by (simp add: logs)
  have z: "pw_leaders w e = x \<and> pw_seen w x = e \<and> leads w x e \<or>
      pw_logs w' (pw_leaders w e) = pw_logs w (pw_leaders w e)" if "live w e" for e
  proof (cases "pw_leaders w e = x")
    case True
    then have "pw_seen w x = e" using that by (simp add: live_def)
    then show ?thesis using True who joined_goodD(2) [OF D(5), of x e] by auto
  qed (simp add: logs)
  have f: "prefix (pw_logs w' f) (pw_logs w' (pw_leaders w e))"
    if "live w e" "pw_seen w f = e" "f \<noteq> pw_leaders w e" "prefix (pw_logs w f) (pw_logs w (pw_leaders w e))" for e f
  proof (cases "f = x")
    case True
    then have "\<not> leads w x e" using leads_unique(2) [OF D(10)] that(3) by blast
    then show ?thesis using who True that logs by auto
  next
    case False
    then show ?thesis using that(4) g [of "pw_leaders w e"] prefix_order.trans by (simp add: logs)
  qed
  have "claims_good w'"
    unfolding claims_good_def eqs same
  proof (intro allI impI)
    fix e h n assume "claim w e h n"
    note C = claims_goodD [OF D(3) this]
    show "e \<noteq> 0 \<and> h \<noteq> pw_leaders w e \<and> e \<le> pw_seen w h \<and> e \<le> pw_seen w (pw_leaders w e) \<and>
      (live w e \<longrightarrow> n \<le> length (pw_logs w' (pw_leaders w e)) \<and> (pw_seen w h = e \<longrightarrow>
        n \<le> length (pw_logs w' h) \<and> prefix (pw_logs w' h) (pw_logs w' (pw_leaders w e))))"
      using C f [of e h] g [THEN prefix_length_le] le_trans by blast
  qed
  moreover have "answers_good w'"
    unfolding answers_good_def eqs same
  proof (intro allI impI)
    fix h e n qs assume "(h, e, n, qs) \<in> pw_answers w"
    note A = answers_goodD [OF D(4) this]
    show "e \<noteq> 0 \<and> e \<le> pw_seen w (pw_leaders w e) \<and> (live w e \<longrightarrow>
      n \<le> length (pw_logs w' (pw_leaders w e)) \<and> prefix qs (drop n (pw_logs w' (pw_leaders w e))))"
      using A z [of e] by (auto simp: logs)
  qed
  moreover have "joined_good w'"
    unfolding joined_good_def eqs same
  proof (intro allI impI)
    fix h assume "pw_joined w h"
    note J = joined_goodD [OF D(5) this refl]
    show "pw_seen w h \<noteq> 0 \<and> h \<noteq> pw_leaders w (pw_seen w h) \<and>
      pw_seen w h \<le> pw_seen w (pw_leaders w (pw_seen w h)) \<and>
      (live w (pw_seen w h) \<longrightarrow> prefix (pw_logs w' h) (pw_logs w' (pw_leaders w (pw_seen w h))))"
      using J f by blast
  qed
  moreover have "commits_good w'"
    unfolding commits_good_def eqs same
  proof (intro allI impI)
    fix e C assume c: "(e, C) \<in> pw_commits w"
    note K = commits_goodD [OF D(7) c]
    have "prefix C (pw_logs w' b)" if "prefix C (pw_logs w b)" for b
      using that g prefix_order.trans by blast
    moreover have "\<forall>b e2. leads w b e2 \<longrightarrow> e \<le> e2 \<longrightarrow>
        length C \<le> (if e = e2 then max (pw_start w b) (rp_hwm (pw_reps w b)) else pw_start w b)"
      using K(6,7) by (auto simp: le_less)
    ultimately show "e \<noteq> 0 \<and> e \<le> pw_seen w (pw_leaders w e) \<and>
      (live w e \<longrightarrow> prefix C (pw_logs w' (pw_leaders w e))) \<and>
      (\<forall>b. kept w b e \<longrightarrow> prefix C (pw_logs w' b) \<and> (C = [] \<or> e \<le> pw_seen w b)) \<and>
      (\<forall>b e2. leads w b e2 \<longrightarrow> e \<le> e2 \<longrightarrow>
        length C \<le> (if e = e2 then max (pw_start w b) (rp_hwm (pw_reps w b)) else pw_start w b))"
      using K(1-5) by blast
  qed
  moreover have "future_good w'"
    unfolding future_good_def eqs same
  proof (intro allI impI)
    fix e X b n
    let ?l = "pw_leaders w e"
    assume a: "live w e" "view w e X" "kept w b e" "e < pw_seen w b" "n \<le> length (pw_logs w' ?l)" "possible w e X n"
    obtain h where h: "h \<in> X" "e < pw_seen w h" using views_goodD(1) [OF D(6) a(2,3,4)] by blast
    then have "h \<noteq> ?l" using a(1) by (auto simp: live_def)
    then have "n = 0 \<or> (\<exists>m \<ge> n. claim w e h m)" using a(6) h by (auto simp: possible_def)
    then have n: "n \<le> length (pw_logs w ?l)" using claims_goodD(5) [OF D(3) _ a(1)] le_trans by blast
    note F = future_goodD [OF D(8) a(1-4) n a(6)]
    have "take n (pw_logs w' ?l) = take n (pw_logs w ?l)" using n by (auto simp: logs)
    then show "prefix (take n (pw_logs w' ?l)) (pw_logs w' b) \<and> (\<forall>e2. e < e2 \<longrightarrow> leads w b e2 \<longrightarrow> n \<le> pw_start w b)"
      using F g [of b] prefix_order.trans by (metis (no_types))
  qed
  moreover have "broker_good w' b" for b
  proof -
    have "hwm_good w' b" by (rule hwm_good_extend [OF D(13) g]) (simp_all add: same)
    moreover have "parked_good w' b" by (rule parked_good_extend [OF D(12) g]) (simp_all add: same sent)
    moreover have "role_good w' b" using D(10) [of b] unfolding role_good_def same .
    moreover have "task_good w' b" using D(11) [of b] unfolding task_good_def same .
    ultimately show ?thesis by (simp add: broker_good_def)
  qed
  moreover have "acked_good w'" using D(9) sent unfolding acked_good_def same by blast
  moreover have "ctl_good w'" using D(1) unfolding ctl_good_def same .
  moreover have "views_good w'" using D(6) unfolding views_good_def eqs same .
  ultimately show ?thesis by (simp add: pw_inv_def)
qed

lemma live_kept:
  assumes "pw_inv w" and "live w e" and "e0 < e"
  shows "kept w (pw_leaders w e) e0"
  using assms(2,3) pw_invD(10) [OF assms(1), of "pw_leaders w e"] by (auto simp: kept_def live_def role_good_def)

lemma live_has:
  assumes "pw_inv w" and "live w e" and "(e0, C) \<in> pw_commits w" and "e0 \<le> e"
  shows "prefix C (pw_logs w (pw_leaders w e))"
  using commits_goodD(3,4) [OF pw_invD(7) [OF assms(1)] assms(3)] live_kept [OF assms(1,2), of e0] assms(2,4)
  by (cases "e0 = e") auto

text \<open>A follower cuts its log back to what it has in common with the leader of its epoch.\<close>

lemma inv_join:
  assumes inv: "pw_inv w" and e: "e = pw_seen w f" and live: "live w e" and ne: "f \<noteq> pw_leaders w e"
    and down: "\<not> rs_is_leader (rstate w f)"
    and left: "left = longest_common_prefix (pw_logs w f) (pw_logs w (pw_leaders w e))"
    and logs: "pw_logs w' = (pw_logs w)(f := left)" and joined: "pw_joined w' = (pw_joined w)(f := True)"
    and same: "pw_ctl w' = pw_ctl w" "pw_reps w' = pw_reps w" "pw_leaders w' = pw_leaders w"
      "pw_commits w' = pw_commits w" "pw_acked w' = pw_acked w" "pw_seen w' = pw_seen w"
      "pw_start w' = pw_start w" "pw_sent w' = pw_sent w" "pw_tasks w' = pw_tasks w"
      "pw_fetches w' = pw_fetches w" "pw_answers w' = pw_answers w"
  shows "pw_inv w'"
proof -
  note D = pw_invD [OF inv]
  let ?l = "pw_leaders w e"
  have eqs: "leads w' = leads w" "live w' = live w" "kept w' = kept w" "view w' = view w" "claim w' = claim w"
    "possible w' = possible w"
    unfolding fun_eq_iff leads_def live_def kept_def view_def claim_def possible_def same by simp_all
  have p: "prefix left (pw_logs w f)" "prefix left (pw_logs w ?l)"
    unfolding left by (rule longest_common_prefix_prefix1 longest_common_prefix_prefix2)+
  have pmax: "prefix C left" if "prefix C (pw_logs w f)" "prefix C (pw_logs w ?l)" for C
    unfolding left using that by (rule longest_common_prefix_max_prefix)
  have z: "pw_logs w' (pw_leaders w e') = pw_logs w (pw_leaders w e')" if "live w e'" for e'
    using that ne e by (auto simp: logs live_def)
  have keep: "prefix C (pw_logs w' b)" if "prefix C (pw_logs w b)" "b = f \<Longrightarrow> prefix C (pw_logs w ?l)" for b C
    using that pmax by (auto simp: logs)
  have "claims_good w'"
    unfolding claims_good_def eqs same
  proof (intro allI impI)
    fix e' h n assume "claim w e' h n"
    note C = claims_goodD [OF D(3) this]
    have "pw_logs w' h = pw_logs w h" if "live w e'" "pw_seen w h = e'"
    proof (cases "h = f")
      case True
      then have "prefix (pw_logs w f) (pw_logs w ?l)" using C(7) that e by simp
      then have "prefix (pw_logs w f) left" by (intro pmax) simp_all
      then show ?thesis using p(1) True by (simp add: logs prefix_order.antisym)
    qed (simp add: logs)
    then show "e' \<noteq> 0 \<and> h \<noteq> pw_leaders w e' \<and> e' \<le> pw_seen w h \<and> e' \<le> pw_seen w (pw_leaders w e') \<and>
      (live w e' \<longrightarrow> n \<le> length (pw_logs w' (pw_leaders w e')) \<and> (pw_seen w h = e' \<longrightarrow>
        n \<le> length (pw_logs w' h) \<and> prefix (pw_logs w' h) (pw_logs w' (pw_leaders w e'))))"
      using C z by metis
  qed
  moreover have "answers_good w'"
    using D(4) z unfolding answers_good_def eqs same by metis
  moreover have "joined_good w'"
    unfolding joined_good_def eqs same
  proof (intro allI impI)
    fix h assume j: "pw_joined w' h"
    show "pw_seen w h \<noteq> 0 \<and> h \<noteq> pw_leaders w (pw_seen w h) \<and>
      pw_seen w h \<le> pw_seen w (pw_leaders w (pw_seen w h)) \<and>
      (live w (pw_seen w h) \<longrightarrow> prefix (pw_logs w' h) (pw_logs w' (pw_leaders w (pw_seen w h))))"
    proof (cases "h = f")
      case True
      then show ?thesis using live ne p(2) z [OF live] unfolding e [symmetric] True
        by (simp add: live_def e [symmetric]) (simp add: logs)
    next
      case False
      then have "pw_joined w h" using j by (simp add: joined)
      note J = joined_goodD [OF D(5) this refl]
      have "pw_logs w' h = pw_logs w h" using False by (simp add: logs)
      then show ?thesis using J z by simp
    qed
  qed
  moreover have "commits_good w'"
    unfolding commits_good_def eqs same
  proof (intro allI impI)
    fix e0 C assume c: "(e0, C) \<in> pw_commits w"
    note K = commits_goodD [OF D(7) c]
    have "prefix C (pw_logs w' b)" if b: "kept w b e0" for b
      using K(4) [OF b] K(5) [OF b] live_has [OF inv live c] e by (intro keep) auto
    moreover have "\<forall>b e2. leads w b e2 \<longrightarrow> e0 \<le> e2 \<longrightarrow>
        length C \<le> (if e0 = e2 then max (pw_start w b) (rp_hwm (pw_reps w b)) else pw_start w b)"
      using K(6,7) by (auto simp: le_less)
    ultimately show "e0 \<noteq> 0 \<and> e0 \<le> pw_seen w (pw_leaders w e0) \<and>
      (live w e0 \<longrightarrow> prefix C (pw_logs w' (pw_leaders w e0))) \<and>
      (\<forall>b. kept w b e0 \<longrightarrow> prefix C (pw_logs w' b) \<and> (C = [] \<or> e0 \<le> pw_seen w b)) \<and>
      (\<forall>b e2. leads w b e2 \<longrightarrow> e0 \<le> e2 \<longrightarrow>
        length C \<le> (if e0 = e2 then max (pw_start w b) (rp_hwm (pw_reps w b)) else pw_start w b))"
      using K(1-5) z by simp
  qed
  moreover have "future_good w'"
    unfolding future_good_def eqs same
  proof (intro allI impI)
    fix e' X b n
    assume a: "live w e'" "view w e' X" "kept w b e'" "e' < pw_seen w b"
      "n \<le> length (pw_logs w' (pw_leaders w e'))" "possible w e' X n"
    have n: "n \<le> length (pw_logs w (pw_leaders w e'))" using a(5) z [OF a(1)] by simp
    note F = future_goodD [OF D(8) a(1,2) _ _ n a(6)]
    have "prefix (take n (pw_logs w (pw_leaders w e'))) (pw_logs w' b)"
    proof (rule keep)
      show "prefix (take n (pw_logs w (pw_leaders w e'))) (pw_logs w b)" using F(1) a(3,4) by blast
      assume "b = f"
      then have "e' < e" using a(4) e by simp
      then show "prefix (take n (pw_logs w (pw_leaders w e'))) (pw_logs w ?l)"
        using F(1) [OF live_kept [OF inv live]] live by (simp add: live_def)
    qed
    then show "prefix (take n (pw_logs w' (pw_leaders w e'))) (pw_logs w' b) \<and>
        (\<forall>e2. e' < e2 \<longrightarrow> leads w b e2 \<longrightarrow> n \<le> pw_start w b)"
      using F(2) [OF a(3,4)] z [OF a(1)] by simp
  qed
  moreover have "broker_good w' b" for b
  proof -
    have "parked_good w' b"
      using D(10) [of f] D(12) [of b] down unfolding parked_good_def role_good_def same by (auto simp: logs)
    moreover have "hwm_good w' b"
    proof (cases "b = f \<and> rp_hwm (pw_reps w b) \<noteq> 0")
      case True
      let ?h = "rp_hwm (pw_reps w f)"
      obtain e0 where h: "?h \<le> length (pw_logs w f)" "e0 \<le> e" "(e0, take ?h (pw_logs w f)) \<in> pw_commits w"
        using D(13) [of f] True e by (auto simp: hwm_good_def)
      have t: "prefix (take ?h (pw_logs w f)) left"
        using live_has [OF inv live h(3,2)] by (intro pmax take_is_prefix)
      then have l: "?h \<le> length left" using prefix_take_iff [OF h(1)] by blast
      moreover have "take ?h left = take ?h (pw_logs w f)" using p(1) l by (auto simp: prefix_def)
      ultimately show ?thesis using h True e by (auto simp: hwm_good_def logs same)
    next
      case False
      then show ?thesis using D(13) [of b] by (auto simp: hwm_good_def logs same)
    qed
    moreover have "role_good w' b" using D(10) [of b] unfolding role_good_def same .
    moreover have "task_good w' b" using D(11) [of b] unfolding task_good_def same .
    ultimately show ?thesis by (simp add: broker_good_def)
  qed
  moreover have "acked_good w'" using D(9) unfolding acked_good_def same .
  moreover have "ctl_good w'" using D(1) unfolding ctl_good_def same .
  moreover have "views_good w'" using D(6) unfolding views_good_def eqs same .
  ultimately show ?thesis by (simp add: pw_inv_def)
qed

section \<open>Elections\<close>

lemma elected:
  assumes "elect_partition alive p = (p', True)"
  shows "p' = p\<lparr>ps_leader := - 1\<rparr> \<or>
    (\<exists>l \<in> set (ps_isr p). p' = p\<lparr>ps_leader := l, ps_leader_epoch := ps_leader_epoch p + 1,
       ps_isr := filter (\<lambda>id. id \<in> set alive) (ps_isr p)\<rparr>)"
  using assms by (auto simp: elect_partition_def Let_def find_Some_iff split: if_splits option.splits)

lemma inv_elected:
  assumes inv: "pw_inv w" and l: "l \<in> in_sync w" and e': "e' = ctl_epoch w + 1" "e' < 2 ^ 64"
    and ctl: "pw_ctl w' = (pw_ctl w)\<lparr>ps_leader := l, ps_leader_epoch := e',
      ps_isr := filter P (ps_isr (pw_ctl w))\<rparr>"
    and leaders: "pw_leaders w' = (pw_leaders w)(e' := l)"
    and same: "pw_reps w' = pw_reps w" "pw_logs w' = pw_logs w" "pw_tasks w' = pw_tasks w"
      "pw_commits w' = pw_commits w" "pw_acked w' = pw_acked w" "pw_seen w' = pw_seen w"
      "pw_start w' = pw_start w" "pw_sent w' = pw_sent w" "pw_joined w' = pw_joined w"
      "pw_fetches w' = pw_fetches w" "pw_answers w' = pw_answers w"
  shows "pw_inv w'"
proof -
  note D = pw_invD [OF inv]
  have seen: "pw_seen w b \<le> ctl_epoch w" for b using D(10) [of b] by (simp add: role_good_def)
  have ld: "pw_leaders w' e = pw_leaders w e" if "e \<le> pw_seen w b" for e b
    using that seen [of b] e' by (auto simp: leaders)
  have leads: "leads w' = leads w" unfolding fun_eq_iff leads_def same by simp
  have top: "\<not> leads w b e'" for b using leads_unique(4) [OF D(10), of b e'] e' by auto
  have live: "live w' = live w"
    unfolding fun_eq_iff live_def same using seen [of l] seen [of "pw_leaders w e'"] e' by (auto simp: leaders)
  have claim: "claim w' = claim w"
  proof (intro ext)
    fix e f n
    show "claim w' e f n = claim w e f n"
      unfolding claim_def leads same using top by (cases "e = e'") (auto simp: leaders)
  qed
  have tasks: "\<not> (\<exists>x isr. pw_tasks w b = Accepted x isr \<and> unat x = e')"
    "\<not> (\<exists>p. pw_tasks w b = Refreshed p \<and> unat (pm_leader_epoch p) = e')" for b
    using D(11) [of b] seen [of b] e' by (auto simp: task_good_def)
  have view: "view w' = view w"
  proof (intro ext)
    fix e X
    show "view w' e X = view w e X"
    proof (cases "e = e'")
      case True
      then show ?thesis unfolding view_def leads same using top tasks by metis
    next
      case False
      then show ?thesis unfolding view_def leads same by (simp add: leaders)
    qed
  qed
  have ve: "e \<le> ctl_epoch w" if "view w e X" for e X
  proof -
    let ?l = "pw_leaders w e"
    from that consider "leads w ?l e" | x isr where "pw_tasks w ?l = Accepted x isr" "unat x = e"
      | p where "pw_tasks w ?l = Refreshed p" "unat (pm_leader_epoch p) = e"
      unfolding view_def by blast
    then show ?thesis
      using leads_unique(4) [OF D(10)] D(11) [of ?l] seen [of ?l] by cases (auto simp: task_good_def)
  qed
  have kept: "kept w b e" if k: "kept w' b e" "e \<le> ctl_epoch w" for b e
  proof -
    consider "b \<in> in_sync w'" | e2 where "e < e2" "e2 \<le> e'" "pw_leaders w' e2 = b" "pw_seen w b \<le> e2"
      using k(1) unfolding kept_def same by (auto simp: ctl)
    then show ?thesis
    proof cases
      case 1
      then show ?thesis by (simp add: kept_def ctl)
    next
      case 2
      then show ?thesis using l e' by (cases "e2 = e'") (auto simp: kept_def leaders)
    qed
  qed
  have poss: "possible w e X n" if "possible w' e X n" "e \<le> ctl_epoch w" for e X n
    using that e' unfolding possible_def claim same by (simp add: leaders)
  have le: "e \<le> ctl_epoch w" if "live w e" for e using that seen [of "pw_leaders w e"] by (simp add: live_def)
  have "broker_good w' b" for b
  proof -
    have "role_good w' b"
      using D(10) [of b] e'(1) ld [OF order_refl, of b] by (auto simp: role_good_def same ctl)
    moreover have "task_good w' b"
    proof (cases "pw_tasks w b")
      case (Refreshed p)
      then show ?thesis using D(11) [of b] e'(1) by (auto simp: task_good_def same ctl leaders)
    next
      case (Accepted x isr)
      then show ?thesis using D(11) [of b] by (simp add: task_good_def same)
    qed (simp add: task_good_def same)
    moreover have "parked_good w' b" using D(12) [of b] unfolding parked_good_def same .
    moreover have "hwm_good w' b" using D(13) [of b] unfolding hwm_good_def same .
    ultimately show ?thesis by (simp add: broker_good_def)
  qed
  moreover have "ctl_good w'" using D(1) e' by (auto simp: ctl_good_def ctl leaders)
  moreover have "claims_good w'"
    unfolding claims_good_def claim live same
  proof (intro allI impI)
    fix e f n assume "claim w e f n"
    note C = claims_goodD [OF D(3) this]
    show "e \<noteq> 0 \<and> f \<noteq> pw_leaders w' e \<and> e \<le> pw_seen w f \<and> e \<le> pw_seen w (pw_leaders w' e) \<and>
      (live w e \<longrightarrow> n \<le> length (pw_logs w (pw_leaders w' e)) \<and> (pw_seen w f = e \<longrightarrow>
        n \<le> length (pw_logs w f) \<and> prefix (pw_logs w f) (pw_logs w (pw_leaders w' e))))"
      unfolding ld [OF C(3)] using C by blast
  qed
  moreover have "answers_good w'"
    unfolding answers_good_def live same
  proof (intro allI impI)
    fix f e n rs assume "(f, e, n, rs) \<in> pw_answers w"
    note A = answers_goodD [OF D(4) this]
    show "e \<noteq> 0 \<and> e \<le> pw_seen w (pw_leaders w' e) \<and> (live w e \<longrightarrow>
      n \<le> length (pw_logs w (pw_leaders w' e)) \<and> prefix rs (drop n (pw_logs w (pw_leaders w' e))))"
      unfolding ld [OF A(2)] using A by blast
  qed
  moreover have "joined_good w'"
    unfolding joined_good_def live same ld [OF order_refl] using D(5) unfolding joined_good_def .
  moreover have "views_good w'"
    unfolding views_good_def view same
  proof (intro allI impI)
    fix e X b assume a: "view w e X" "kept w' b e"
    show "if e < pw_seen w b then \<exists>f \<in> X. e < pw_seen w f else b \<in> X"
      using views_goodD [OF D(6) a(1) kept [OF a(2) ve [OF a(1)]]] by auto
  qed
  moreover have "commits_good w'"
    unfolding commits_good_def leads live same
  proof (intro allI impI)
    fix e C assume c: "(e, C) \<in> pw_commits w"
    note K = commits_goodD [OF D(7) c]
    have "e \<le> ctl_epoch w" using K(2) seen le_trans by blast
    then have "kept w b e" if "kept w' b e" for b using kept that by blast
    moreover have "\<forall>b e2. leads w b e2 \<longrightarrow> e \<le> e2 \<longrightarrow>
        length C \<le> (if e = e2 then max (pw_start w b) (rp_hwm (pw_reps w b)) else pw_start w b)"
      using K(6,7) by (auto simp: le_less)
    ultimately show "e \<noteq> 0 \<and> e \<le> pw_seen w (pw_leaders w' e) \<and>
      (live w e \<longrightarrow> prefix C (pw_logs w (pw_leaders w' e))) \<and>
      (\<forall>b. kept w' b e \<longrightarrow> prefix C (pw_logs w b) \<and> (C = [] \<or> e \<le> pw_seen w b)) \<and>
      (\<forall>b e2. leads w b e2 \<longrightarrow> e \<le> e2 \<longrightarrow>
        length C \<le> (if e = e2 then max (pw_start w b) (rp_hwm (pw_reps w b)) else pw_start w b))"
      unfolding ld [OF K(2)] using K(1-5) by blast
  qed
  moreover have "future_good w'"
    unfolding future_good_def live view leads same
  proof (intro allI impI)
    fix e X b n
    assume a: "live w e" "view w e X" "kept w' b e" "e < pw_seen w b"
      "n \<le> length (pw_logs w (pw_leaders w' e))" "possible w' e X n"
    have e: "pw_leaders w' e = pw_leaders w e" using le [OF a(1)] e' by (simp add: leaders)
    note F = future_goodD [OF D(8) a(1,2) kept [OF a(3) le [OF a(1)]] a(4) _ poss [OF a(6) le [OF a(1)]]]
    show "prefix (take n (pw_logs w (pw_leaders w' e))) (pw_logs w b) \<and>
      (\<forall>e2. e < e2 \<longrightarrow> leads w b e2 \<longrightarrow> n \<le> pw_start w b)"
      using F a(5) unfolding e by blast
  qed
  moreover have "acked_good w'" using D(9) unfolding acked_good_def same .
  ultimately show ?thesis by (simp add: pw_inv_def)
qed

lemma inv_elect:
  assumes inv: "pw_inv w" and e: "elect_partition alive (pw_ctl w) = (ctl, True)" "ps_leader_epoch ctl < 2 ^ 64"
  shows "pw_inv (w\<lparr>pw_ctl := ctl, pw_leaders := (if ps_leader_epoch ctl = ctl_epoch w then pw_leaders w
    else (pw_leaders w)(ps_leader_epoch ctl := ps_leader ctl))\<rparr>)" (is "pw_inv ?w")
  using elected [OF e(1)]
proof
  assume off: "ctl = (pw_ctl w)\<lparr>ps_leader := - 1\<rparr>"
  show ?thesis
  proof (rule inv_onward [OF inv])
    show "ctl_good ?w" using pw_invD(1) [OF inv] by (simp add: ctl_good_def off)
    show "broker_good ?w b" for b using pw_invD(2) [OF inv, of b] broker_good_same [of ?w b w] by (simp add: off)
  qed (auto simp: off view_def claim_def leads_def)
next
  assume "\<exists>l \<in> in_sync w. ctl = (pw_ctl w)\<lparr>ps_leader := l, ps_leader_epoch := ctl_epoch w + 1,
    ps_isr := filter (\<lambda>id. id \<in> set alive) (ps_isr (pw_ctl w))\<rparr>"
  then obtain l where "l \<in> in_sync w" "ctl = (pw_ctl w)\<lparr>ps_leader := l, ps_leader_epoch := ctl_epoch w + 1,
    ps_isr := filter (\<lambda>id. id \<in> set alive) (ps_isr (pw_ctl w))\<rparr>" by blast
  then show ?thesis using e(2) by (intro inv_elected [OF inv]) auto
qed

section \<open>Growth of the in-sync set\<close>

text \<open>
  A new member under the leader's conditions: it is in the leader's epoch, its log is a prefix of
  the leader's, and it has what the leader had when it took the role and what it knows to be
  committed.
\<close>

lemma new_member:
  assumes inv: "pw_inv w" and lead: "leads w b (ctl_epoch w)"
    and m: "hm_get (rs_match_offsets (rstate w b)) f = Some (n, t)"
      "max (pw_start w b) (rp_hwm (pw_reps w b)) \<le> n"
  shows "f \<noteq> b" and "pw_seen w f = ctl_epoch w" and "pw_start w b \<le> length (pw_logs w f)"
    and "(e, C) \<in> pw_commits w \<Longrightarrow> prefix C (pw_logs w f)"
    and "prefix p (pw_logs w b) \<Longrightarrow> length p \<le> pw_start w b \<Longrightarrow> prefix p (pw_logs w f)"
proof -
  note D = pw_invD [OF inv]
  note u = leads_unique [OF D(10) lead]
  have "claim w (ctl_epoch w) f n" using lead m(1) u(2) by (auto simp: claim_def)
  note C = claims_goodD [OF D(3) this, folded u(2)]
  show "f \<noteq> b" by (rule C(2))
  show s: "pw_seen w f = ctl_epoch w" using C(3) D(10) [of f] by (simp add: role_good_def)
  have l: "n \<le> length (pw_logs w f)" and p: "prefix (pw_logs w f) (pw_logs w b)"
    using C(6,7) u(3) s by blast+
  show "pw_start w b \<le> length (pw_logs w f)" using l m(2) by simp
  show "prefix p (pw_logs w b) \<Longrightarrow> length p \<le> pw_start w b \<Longrightarrow> prefix p (pw_logs w f)"
    using p l m(2) by (auto intro: prefix_length_prefix)
  assume c: "(e, C) \<in> pw_commits w"
  note K = commits_goodD [OF D(7) c]
  have e: "e \<le> ctl_epoch w" using K(2) D(10) [of "pw_leaders w e"] by (simp add: role_good_def)
  have "length C \<le> n" using K(6) [OF lead] K(7) [of b] lead e m(2) by (cases "e = ctl_epoch w") auto
  then show "prefix C (pw_logs w f)"
    using live_has [OF inv u(3) c e] u(2) l p by (auto intro: prefix_length_prefix)
qed

lemma inv_grown:
  assumes inv: "pw_inv w" and lead: "leads w b (ctl_epoch w)" and task: "pw_tasks w b = Idle"
    and mem: "set isr \<subseteq> set (ps_replicas (pw_ctl w))" and grow: "may_grow b isr w"
    and ctl: "pw_ctl w' = (pw_ctl w)\<lparr>ps_isr := isr\<rparr>"
    and reps: "pw_reps w' = (pw_reps w)(b := (pw_reps w b)\<lparr>rp_state := (rstate w b)\<lparr>rs_isr := isr\<rparr>\<rparr>)"
    and same: "pw_leaders w' = pw_leaders w" "pw_logs w' = pw_logs w" "pw_tasks w' = pw_tasks w"
      "pw_commits w' = pw_commits w" "pw_acked w' = pw_acked w" "pw_seen w' = pw_seen w"
      "pw_start w' = pw_start w" "pw_sent w' = pw_sent w" "pw_joined w' = pw_joined w"
      "pw_fetches w' = pw_fetches w" "pw_answers w' = pw_answers w"
  shows "pw_inv w'"
proof -
  note D = pw_invD [OF inv]
  let ?E = "ctl_epoch w"
  note u = leads_unique [OF D(10) lead]
  have seen: "pw_seen w x \<le> ?E" for x using D(10) [of x] by (simp add: role_good_def)
  have ep: "ctl_epoch w' = ?E" "ps_replicas (pw_ctl w') = ps_replicas (pw_ctl w)" by (simp_all add: ctl)
  have st: "rs_is_leader (rstate w' x) = rs_is_leader (rstate w x)" "rs_epoch (rstate w' x) = rs_epoch (rstate w x)"
    "rs_match_offsets (rstate w' x) = rs_match_offsets (rstate w x)"
    "rs_pending_all (rstate w' x) = rs_pending_all (rstate w x)" "rp_hwm (pw_reps w' x) = rp_hwm (pw_reps w x)" for x
    by (simp_all add: reps)
  have eqs: "leads w' = leads w" "live w' = live w" "claim w' = claim w" "possible w' = possible w"
    unfolding fun_eq_iff leads_def live_def claim_def possible_def same st by simp_all
  have new: "x \<noteq> b \<Longrightarrow> \<exists>n t. hm_get (rs_match_offsets (rstate w b)) x = Some (n, t) \<and>
      max (pw_start w b) (rp_hwm (pw_reps w b)) \<le> n" if "x \<in> set isr" "x \<notin> in_sync w" for x
    using grow that by (fastforce simp: may_grow_def split: option.splits)
  have kept: "kept w x e \<or> x \<in> set isr \<and> x \<notin> in_sync w" if k: "kept w' x e" for x e
    using k unfolding kept_def ep same by (auto simp: ctl)
  have kb: "kept w b e" if "e < ?E" for e using live_kept [OF inv u(3) that] u(2) by simp
  have view: "pw_leaders w e \<noteq> b \<and> view w e X \<or> e = ?E \<and> X = set isr" if v: "view w' e X" for e X
  proof (cases "pw_leaders w e = b")
    case True
    then have "leads w b e" "X = set isr" using v task unfolding view_def eqs same by (auto simp: reps)
    then show ?thesis using leads_unique(1) [OF D(10)] u(1) by auto
  next
    case False
    then show ?thesis using v unfolding view_def eqs same by (simp add: reps)
  qed
  have "views_good w'"
    unfolding views_good_def same
  proof (intro allI impI)
    fix e X x assume a: "view w' e X" "kept w' x e"
    consider "e = ?E" "X = set isr" | "view w e X" "e \<noteq> ?E" using view [OF a(1)] u(2) by blast
    then show "if e < pw_seen w x then \<exists>f \<in> X. e < pw_seen w f else x \<in> X"
    proof cases
      case 1
      then have "x \<in> set isr" using a(2) unfolding kept_def ep by (auto simp: ctl)
      then show ?thesis using 1 seen [of x] by simp
    next
      case 2
      show ?thesis
      proof (cases "kept w x e")
        case True
        then show ?thesis using views_goodD [OF D(6) 2(1)] by auto
      next
        case False
        then have "pw_seen w x = ?E" using kept [OF a(2)] new new_member(2) [OF inv lead] u(1) by metis
        moreover have "e < ?E" if "e < pw_seen w x" using that seen [of x] by simp
        moreover have "e < ?E" if "kept w' x e"
        proof (rule ccontr)
          assume "\<not> e < ?E"
          then have "pw_leaders w e \<noteq> b" "?E < e" using 2 view [OF a(1)] by auto
          then have "\<not> leads w (pw_leaders w e) e" using leads_unique(4) [OF D(10)] by fastforce
          then show False
            using 2(1) \<open>?E < e\<close> D(11) [of "pw_leaders w e"] seen [of "pw_leaders w e"]
            by (auto simp: view_def task_good_def)
        qed
        ultimately show ?thesis using views_goodD(1) [OF D(6) 2(1) kb] u(1) a(2) by simp
      qed
    qed
  qed
  moreover have "commits_good w'"
    unfolding commits_good_def eqs same st
  proof (intro allI impI)
    fix e C assume c: "(e, C) \<in> pw_commits w"
    note K = commits_goodD [OF D(7) c]
    have e: "e \<le> ?E" using K(2) seen le_trans by blast
    have "prefix C (pw_logs w x) \<and> (C = [] \<or> e \<le> pw_seen w x)" if "kept w' x e" for x
    proof (cases "kept w x e")
      case True
      then show ?thesis using K(4,5) by blast
    next
      case False
      then have x: "x \<in> set isr" "x \<notin> in_sync w" using kept [OF that] by auto
      show ?thesis
      proof (cases "x = b")
        case True
        then show ?thesis using live_has [OF inv u(3) c e, folded u(2)] u(1) e by simp
      next
        case False
        then obtain n t where m: "hm_get (rs_match_offsets (rstate w b)) x = Some (n, t)"
          "max (pw_start w b) (rp_hwm (pw_reps w b)) \<le> n" using new [OF x] by blast
        show ?thesis using new_member(2) [OF inv lead m] new_member(4) [OF inv lead m c] e by auto
      qed
    qed
    moreover have "\<forall>b e2. leads w b e2 \<longrightarrow> e \<le> e2 \<longrightarrow>
        length C \<le> (if e = e2 then max (pw_start w b) (rp_hwm (pw_reps w b)) else pw_start w b)"
      using K(6,7) by (auto simp: le_less)
    ultimately show "e \<noteq> 0 \<and> e \<le> pw_seen w (pw_leaders w e) \<and>
      (live w e \<longrightarrow> prefix C (pw_logs w (pw_leaders w e))) \<and>
      (\<forall>x. kept w' x e \<longrightarrow> prefix C (pw_logs w x) \<and> (C = [] \<or> e \<le> pw_seen w x)) \<and>
      (\<forall>b e2. leads w b e2 \<longrightarrow> e \<le> e2 \<longrightarrow>
        length C \<le> (if e = e2 then max (pw_start w b) (rp_hwm (pw_reps w b)) else pw_start w b))"
      using K(1-3) by blast
  qed
  moreover have "future_good w'"
    unfolding future_good_def eqs same
  proof (intro allI impI)
    fix e X x n
    let ?z = "pw_logs w (pw_leaders w e)"
    assume a: "live w e" "view w' e X" "kept w' x e" "e < pw_seen w x" "n \<le> length ?z" "possible w e X n"
    have e: "e < ?E" using a(4) seen [of x] by simp
    then have v: "view w e X" using view [OF a(2)] by auto
    note F = future_goodD [OF D(8) a(1) v _ _ a(5,6)]
    have B: "prefix (take n ?z) (pw_logs w b)" "n \<le> pw_start w b"
      using F(1) [OF kb [OF e]] F(2) [OF kb [OF e] _ e lead] u(1) e by simp_all
    show "prefix (take n ?z) (pw_logs w x) \<and> (\<forall>e2. e < e2 \<longrightarrow> leads w x e2 \<longrightarrow> n \<le> pw_start w x)"
    proof (cases "kept w x e \<or> x = b")
      case True
      then show ?thesis using F a(4) kb [OF e] by blast
    next
      case False
      then have x: "x \<in> set isr" "x \<notin> in_sync w" using kept [OF a(3)] by auto
      then obtain m t where m: "hm_get (rs_match_offsets (rstate w b)) x = Some (m, t)"
        "max (pw_start w b) (rp_hwm (pw_reps w b)) \<le> m" using new False by blast
      have "\<not> leads w x e2" for e2
        using leads_unique(1,2) [OF D(10), of x e2] new_member(1,2) [OF inv lead m] u(2) by metis
      then show ?thesis using new_member(5) [OF inv lead m B(1)] B(2) by simp
    qed
  qed
  moreover have "broker_good w' x" for x
    using D(2) [of x] unfolding broker_good_def role_good_def task_good_def parked_good_def hwm_good_def same st ep .
  moreover have "ctl_good w'" using D(1) mem by (simp add: ctl_good_def ctl same)
  moreover have "claims_good w'" using D(3) unfolding claims_good_def eqs same .
  moreover have "answers_good w'" using D(4) unfolding answers_good_def eqs same .
  moreover have "joined_good w'" using D(5) unfolding joined_good_def eqs same .
  moreover have "acked_good w'" using D(9) unfolding acked_good_def same .
  ultimately show ?thesis by (simp add: pw_inv_def)
qed

lemma inv_grow:
  assumes inv: "pw_inv w" and task: "pw_tasks w b = Idle"
    and p: "isr_proposal now b lag (rstate w b) = Some (e, isr)"
    and a: "alter_part e isr (pw_ctl w) = Some ctl" and grow: "may_grow b isr w"
  shows "pw_inv (set_rep b (isr_accepted b (length (pw_logs w b)) e isr (pw_reps w b)) (w\<lparr>pw_ctl := ctl\<rparr>))"
proof -
  note G = proposal_guards [OF inv p a]
  let ?rp = "(pw_reps w b)\<lparr>rp_state := (rstate w b)\<lparr>rs_isr := isr\<rparr>\<rparr>" and ?w = "w\<lparr>pw_ctl := ctl\<rparr>"
  have "pw_inv (?w\<lparr>pw_reps := (pw_reps ?w)(b := ?rp)\<rparr>)"
    by (rule inv_grown [OF inv G(3) task G(8) grow]) (simp_all add: G(7))
  then show ?thesis using inv_advance [of ?w b ?rp] by (simp add: isr_accepted_def G(1,2) Let_def)
qed

section \<open>Every step\<close>

lemma failover_step_inv:
  assumes "failover_step True lag w w'" and inv: "pw_inv w"
  shows "pw_inv w'"
  using assms(1)
proof cases
  case (elect alive ctl)
  then show ?thesis using inv_elect [OF inv] by simp
next
  case (refresh b)
  then show ?thesis using inv_refresh [OF inv] by simp
next
  case (apply_meta b p now addrs rp out action)
  then show ?thesis using inv_apply [OF inv] by simp
next
  case (propose b now e isr ctl)
  then show ?thesis using inv_propose [OF inv] by simp
next
  case (accept b e isr)
  then show ?thesis using inv_accept [OF inv] by simp
next
  case (grow b now e isr ctl)
  then show ?thesis using inv_grow [OF inv] by simp
next
  case (forget b)
  then show ?thesis using inv_forget [OF inv] by simp
next
  case (session_lost b)
  then show ?thesis using inv_session_lost [OF inv] by simp
next
  case (restart b now)
  then show ?thesis using inv_restart [OF inv] by simp
next
  case (produce_all b rs reply)
  let ?w = "w\<lparr>pw_logs := (pw_logs w)(b := pw_logs w b @ rs), pw_sent := (pw_sent w)(reply := Some rs)\<rparr>"
  have "leads w b (pw_seen w b)"
    using pw_invD(10) [OF inv, of b] produce_all by (auto simp: role_good_def leads_def)
  then have "pw_inv ?w" by (intro inv_extend [OF inv, of ?w b rs]) (use produce_all in auto)
  then show ?thesis using inv_park [of ?w b reply rs "length (pw_logs w b)"] produce_all by simp
next
  case (produce b rs)
  have "leads w b (pw_seen w b)"
    using pw_invD(10) [OF inv, of b] produce by (auto simp: role_good_def leads_def)
  then show ?thesis unfolding produce(1) by (intro inv_extend [OF inv, of _ b rs]) simp_all
next
  case (join f l left)
  let ?e = "pw_seen w f"
  have e: "unat (rs_epoch (rstate w f)) = ?e" using pw_invD(10) [OF inv, of f] join by (auto simp: role_good_def)
  have "leads w l ?e" using join e by (simp add: leads_def)
  then have "live w ?e" by (rule leads_unique(3) [OF pw_invD(10) [OF inv]])
  then show ?thesis unfolding join(1)
    by (intro inv_join [OF inv refl]) (use join e in simp_all)
next
  case (send_fetch f)
  then show ?thesis using inv_send [OF inv] by simp
next
  case (receive_fetch f e offset l now rp out)
  then show ?thesis using inv_receive [OF inv] by simp
next
  case (answer_fetch f e offset k)
  then show ?thesis using inv_answer_fetch [OF inv] by simp
next
  case (deliver f e offset rs)
  note J = joined_goodD [OF pw_invD(5) [OF inv] deliver(5) refl]
  have e: "pw_seen w f = e"
  proof -
    have "e \<le> ctl_epoch w"
      using answers_goodD(2) [OF pw_invD(4) [OF inv] deliver(2)] pw_invD(10) [OF inv, of "pw_leaders w e"]
      by (simp add: role_good_def)
    then have "unat (rs_epoch (rstate w f)) = e" using unat_ctl_epoch [OF inv] deliver(4) by simp
    moreover from this have "rs_epoch (rstate w f) \<noteq> 0"
      using answers_goodD(1) [OF pw_invD(4) [OF inv] deliver(2)] by auto
    ultimately show ?thesis using pw_invD(10) [OF inv, of f] by (auto simp: role_good_def)
  qed
  have "prefix (pw_logs w f @ rs) (pw_logs w (pw_leaders w e))" if l: "live w e"
  proof -
    have "prefix (pw_logs w f) (pw_logs w (pw_leaders w e))" using J(4) l e by simp
    moreover have "prefix rs (drop (length (pw_logs w f)) (pw_logs w (pw_leaders w e)))"
      using answers_goodD(4) [OF pw_invD(4) [OF inv] deliver(2) l] deliver(6) by simp
    ultimately show ?thesis by (auto simp: prefix_def)
  qed
  then show ?thesis unfolding deliver(1) by (intro inv_extend [OF inv, of _ f rs]) (use deliver e in simp_all)
next
  case (lose F A)
  then show ?thesis using inv_lose [OF inv] by simp
qed

interpretation surviving: preserved "failover_step True lag" pw_inv for lag
  by unfold_locales (rule failover_step_inv)

lemma new_partition_inv:
  assumes "- 1 \<notin> set replicas"
  shows "pw_inv (new_partition replicas now)"
  using assms
  by (simp add: pw_inv_def new_partition_def ctl_good_def broker_good_def role_good_def task_good_def
    parked_good_def hwm_good_def claims_good_def claim_def leads_def answers_good_def joined_good_def
    views_good_def view_def commits_good_def future_good_def live_def acked_good_def replica_new_def)


end
