(* ===== verification/FailoverRuns.thy ===== *)
theory FailoverRuns
  imports FailoverProperties
begin

text \<open>
  Runs of the steps of theory \<open>Failovers\<close>: a failover that loses nothing, and one that does, in
  which the conditions on the growth of in-sync sets do not hold.
\<close>

section \<open>States of the runs\<close>

text \<open>Three brokers, of which the third does nothing.\<close>

definition run_part :: "u32 \<Rightarrow> nat \<Rightarrow> u32 list \<Rightarrow> partition_state" where
  "run_part leader epoch isr =
     \<lparr>ps_leader = leader, ps_leader_epoch = epoch, ps_replicas = [1, 2, 3], ps_isr = isr\<rparr>"

definition run_rep ::
    "u64 \<Rightarrow> bool \<Rightarrow> u32 list \<Rightarrow> (u32, nat \<times> nat) hashmap \<Rightarrow> parked list \<Rightarrow> nat \<Rightarrow> nat \<Rightarrow> nat \<Rightarrow> replica" where
  "run_rep epoch is_leader isr ms ps gen since hwm =
     \<lparr>rp_state = \<lparr>rs_epoch = epoch, rs_is_leader = is_leader, rs_isr = isr, rs_replicas = [1, 2, 3],
        rs_match_offsets = ms, rs_pending_all = ps, rs_fetcher_generation = gen,
        rs_fetcher_alive = (\<not> is_leader), rs_leader_since = since\<rparr>,
      rp_hwm = hwm\<rparr>"

definition stage ::
    "partition_state \<Rightarrow> (nat \<Rightarrow> u32) \<Rightarrow> runtime_task \<times> replica \<times> log_record list \<times> epoch_entries \<times> nat \<Rightarrow>
     runtime_task \<times> replica \<times> log_record list \<times> epoch_entries \<times> nat \<Rightarrow> bool \<Rightarrow> nat \<Rightarrow>
     (u32 \<times> nat \<times> nat) set \<Rightarrow> (u32 \<times> nat \<times> nat \<times> log_record list) set \<Rightarrow>
     (nat \<Rightarrow> log_record list option) \<Rightarrow> (nat \<times> nat) set \<Rightarrow> (nat \<times> log_record list) set \<Rightarrow> pworld" where
  "stage ctl ls b1 b2 j s F A sent acked cs =
     (case b1 of (t1, r1, l1, e1, n1) \<Rightarrow> case b2 of (t2, r2, l2, e2, n2) \<Rightarrow>
       \<lparr>pw_ctl = ctl, pw_reps = (\<lambda>_. replica_new 0)(1 := r1, 2 := r2), pw_logs = (\<lambda>_. [])(1 := l1, 2 := l2),
        pw_epochs = (\<lambda>_. [])(1 := e1, 2 := e2), pw_tasks = (\<lambda>_. Idle)(1 := t1, 2 := t2),
        pw_fetches = F, pw_answers = A, pw_sent = sent, pw_acked = acked, pw_leaders = ls,
        pw_joined = (\<lambda>_. False)(2 := j), pw_start = (\<lambda>_. 0)(2 := s),
        pw_seen = (\<lambda>_. 0)(1 := n1, 2 := n2), pw_commits = cs\<rparr>)"

abbreviation "new_part \<equiv> run_part 1 1 [1, 2, 3]"
abbreviation "shrunk_part \<equiv> run_part 1 1 [1, 2]"
abbreviation "second_part \<equiv> run_part 2 2 [2]"

abbreviation "new_rep \<equiv> replica_new 0"
abbreviation "lead_rep isr ms ps hwm \<equiv> run_rep 1 True isr ms ps 1 0 hwm"
abbreviation "follow_rep \<equiv> run_rep 1 False [1, 2, 3] [] [] 1 0 0"
abbreviation "a_sent \<equiv> (\<lambda>_. None)(7 := Some [some_record])"

lemma step_to: "failover_step c lag w w'' \<Longrightarrow> w'' = w' \<Longrightarrow> failover_step c lag w w'"
  by simp

lemma run_step:
  assumes "failover_step c lag w w'" and "(failover_step c lag)\<^sup>*\<^sup>* w' w''"
  shows "(failover_step c lag)\<^sup>*\<^sup>* w w''"
  using assms by (rule converse_rtranclp_into_rtranclp)

lemmas stage_simps = stage_def run_part_def run_rep_def replica_new_def

lemma run_meta [simp]:
  "pm_leader_epoch (part_meta (run_part l (Suc 0) isr)) = 1" "pm_leader_epoch (part_meta (run_part l 2 isr)) = 2"
  "pm_leader (part_meta (run_part l e isr)) = l" "pm_replicas (part_meta (run_part l e isr)) = [1, 2, 3]"
  "pm_isr (part_meta (run_part l e isr)) = isr"
  by (simp_all add: part_meta_def run_part_def)

section \<open>The first leader and its follower\<close>

lemma run_start: "new_partition [1, 2, 3] 0 =
    stage new_part (\<lambda>_. 1) (Idle, new_rep, [], [], 0) (Idle, new_rep, [], [], 0) False 0 {} {} (\<lambda>_. None) {} {}"
  by (simp add: new_partition_def stage_simps fun_eq_iff)

lemma run_refresh1:
  "failover_step c lag
     (stage p ls (Idle, b1) b2 j s F A sent acked cs)
     (stage p ls (Refreshed (part_meta p), b1) b2 j s F A sent acked cs)"
  by (rule step_to, rule failover_step.refresh [where b = 1])
    (auto simp: stage_def fun_eq_iff split: prod.split)

lemma run_refresh2:
  "failover_step c lag
     (stage p ls b1 (Idle, b2) j s F A sent acked cs)
     (stage p ls b1 (Refreshed (part_meta p), b2) j s F A sent acked cs)"
  by (rule step_to, rule failover_step.refresh [where b = 2])
    (auto simp: stage_def fun_eq_iff split: prod.split)

lemma run_promote1:
  "failover_step c lag
     (stage new_part ls (Refreshed (part_meta new_part), new_rep, [], [], 0) b2 False s F A sent acked cs)
     (stage new_part ls (Idle, lead_rep [1, 2, 3] [] [] 0, [], [(1, 0)], 1) b2 False s F A sent acked
       (insert (1, []) cs))"
proof -
  let ?w = "stage new_part ls (Refreshed (part_meta new_part), new_rep, [], [], 0) b2 False s F A sent acked cs"
  have a: "apply_partition 0 1 [] (part_meta new_part) (length (pw_logs ?w 1)) (pw_reps ?w 1) =
      (lead_rep [1, 2, 3] [] [] 0, [], RecordLeaderEpoch 1)"
    by (simp add: stage_def split: prod.split)
      (simp add: apply_partition_def update_role_def replica_new_def run_rep_def advance_hwm_def
        drain_pending_all_def isr_min_def matched_def Let_def)
  show ?thesis
    by (rule step_to, rule failover_step.apply_meta [OF _ _ a])
      (auto simp: stage_def after_apply_def set_rep_def answers_of_def note_epoch_def Let_def fun_eq_iff
        run_rep_def isr_min_def matched_def split: prod.split)
qed

lemma run_follow2:
  "failover_step c lag
     (stage new_part ls b1 (Refreshed (part_meta new_part), new_rep, [], [], 0) False s F A sent acked cs)
     (stage new_part ls b1 (Idle, follow_rep, [], [], 1) False s F A sent acked cs)"
proof -
  let ?w = "stage new_part ls b1 (Refreshed (part_meta new_part), new_rep, [], [], 0) False s F A sent acked cs"
  have a: "apply_partition 0 2 [] (part_meta new_part) (length (pw_logs ?w 2)) (pw_reps ?w 2) =
      (follow_rep, [], NoAction)"
    by (simp add: stage_def split: prod.split)
      (simp add: apply_partition_def update_role_def replica_new_def run_rep_def Let_def)
  show ?thesis
    by (rule step_to, rule failover_step.apply_meta [OF _ _ a])
      (auto simp: stage_def after_apply_def set_rep_def answers_of_def Let_def fun_eq_iff run_rep_def split: prod.split)
qed

lemma run_join2:
  "failover_step c lag
     (stage p (\<lambda>_. 1) (t1, lead_rep isr ms ps h, [], [(1, 0)], 1) (t2, follow_rep, [], [], 1) False s F A sent acked cs)
     (stage p (\<lambda>_. 1) (t1, lead_rep isr ms ps h, [], [(1, 0)], 1) (t2, follow_rep, [], [], 1) True s F A sent acked cs)"
  by (rule step_to, rule failover_step.join [where f = 2 and l = 1 and left = "[]"])
    (auto simp: stage_def run_rep_def reconciled_take cut_epochs_def fun_eq_iff)

lemma run_send2:
  "failover_step c lag
     (stage p ls b1 (t2, follow_rep, l2, e2, 1) True s F A sent acked cs)
     (stage p ls b1 (t2, follow_rep, l2, e2, 1) True s (insert (2, 1, length l2) F) A sent acked cs)"
  by (rule step_to, rule failover_step.send_fetch [where f = 2])
    (auto simp: stage_def run_rep_def split: prod.split)

lemma run_hear1:
  assumes "(2, 1, 0) \<in> F"
  shows "failover_step c lag
     (stage p (\<lambda>_. 1) (t1, lead_rep isr [] [] 0, [], e1, 1) b2 j s F A sent acked cs)
     (stage p (\<lambda>_. 1) (t1, lead_rep isr [(2, 0, t)] [] 0, [], e1, 1) b2 j s F A sent acked (insert (1, []) cs))"
proof -
  let ?w = "stage p (\<lambda>_. 1) (t1, lead_rep isr [] [] 0, [], e1, 1) b2 j s F A sent acked cs"
  have m: "isr_min 1 0 (rp_state (lead_rep isr [(2, 0, t)] [] 0)) = 0"
    using isr_min_le(1) [of 1 0] by simp
  have r: "replica_fetch t 1 (length (pw_logs ?w 1)) 2 (word_of_nat 1) 0 (pw_reps ?w 1) =
      (lead_rep isr [(2, 0, t)] [] 0, [], None)"
    using m by (simp add: stage_def split: prod.split)
      (simp add: run_rep_def replica_fetch_def accept_fetch_def advance_hwm_def drain_pending_all_def Let_def)
  show ?thesis
    by (rule step_to, rule failover_step.receive_fetch [OF _ _ r])
      (use assms in \<open>auto simp: stage_def set_rep_def fun_eq_iff Let_def run_rep_def split: prod.split\<close>)
qed

lemma run_ack1:
  assumes "(2, 1, 1) \<in> F"
  shows "failover_step c lag
     (stage p (\<lambda>_. 1) (t1, lead_rep [1, 2] [(2, 0, t0)] [(0, 0, 1, 7)] 0, [some_record], e1, 1) b2 j s F A sent {} cs)
     (stage p (\<lambda>_. 1) (t1, lead_rep [1, 2] [(2, 1, t)] [] 1, [some_record], e1, 1) b2 j s F A sent {(7, 0)}
       (insert (1, [some_record]) cs))"
proof -
  let ?w = "stage p (\<lambda>_. 1) (t1, lead_rep [1, 2] [(2, 0, t0)] [(0, 0, 1, 7)] 0, [some_record], e1, 1)
    b2 j s F A sent {} cs"
  have r: "replica_fetch t 1 (length (pw_logs ?w 1)) 2 (word_of_nat 1) 1 (pw_reps ?w 1) =
      (lead_rep [1, 2] [(2, 1, t)] [] 1, [(7, Inr (0, 1))], None)"
    by (simp add: stage_def split: prod.split)
      (simp add: run_rep_def replica_fetch_def accept_fetch_def advance_hwm_def drain_pending_all_def
        isr_min_def matched_def Let_def)
  show ?thesis
    by (rule step_to, rule failover_step.receive_fetch [OF _ _ r])
      (use assms in \<open>auto simp: stage_def set_rep_def answers_of_def isr_min_def matched_def fun_eq_iff
        Let_def run_rep_def split: prod.split\<close>)
qed

text \<open>Broker 3 has fetched nothing for longer than the window, broker 2 has just been heard.\<close>

lemma run_shrink:
  "failover_step c lag
     (stage new_part (\<lambda>_. 1) (Idle, lead_rep [1, 2, 3] [(2, 0, Suc lag)] [] 0, l1, e1, 1) b2 j s F A sent acked cs)
     (stage shrunk_part (\<lambda>_. 1) (Accepted 1 [1, 2], lead_rep [1, 2, 3] [(2, 0, Suc lag)] [] 0, l1, e1, 1) b2 j s
       F A sent acked cs)"
proof -
  let ?w = "stage new_part (\<lambda>_. 1) (Idle, lead_rep [1, 2, 3] [(2, 0, Suc lag)] [] 0, l1, e1, 1) b2 j s F A sent acked cs"
  have p: "isr_proposal (Suc lag) 1 lag (rstate ?w 1) = Some (1, [1, 2])"
    by (simp add: stage_def split: prod.split)
      (simp add: run_rep_def isr_proposal_def desired_isr_def word_le_nat_alt Let_def)
  have a: "alter_part 1 [1, 2] (pw_ctl ?w) = Some shrunk_part"
    by (simp add: stage_def alter_part_def run_part_def split: prod.split)
  show ?thesis
    by (rule step_to, rule failover_step.propose [OF _ p a])
      (auto simp: stage_def run_part_def fun_eq_iff split: prod.split)
qed

lemma run_accept:
  "failover_step c lag
     (stage p (\<lambda>_. 1) (Accepted 1 [1, 2], lead_rep [1, 2, 3] [(2, 0, t)] [] 0, l1, e1, 1) b2 j s F A sent acked cs)
     (stage p (\<lambda>_. 1) (Idle, lead_rep [1, 2] [(2, 0, t)] [] 0, l1, e1, 1) b2 j s F A sent acked (insert (1, []) cs))"
proof -
  let ?w = "stage p (\<lambda>_. 1) (Accepted 1 [1, 2], lead_rep [1, 2, 3] [(2, 0, t)] [] 0, l1, e1, 1)
    b2 j s F A sent acked cs"
  have r: "isr_accepted 1 (length (pw_logs ?w 1)) 1 [1, 2] (pw_reps ?w 1) = (lead_rep [1, 2] [(2, 0, t)] [] 0, [])"
    by (simp add: stage_def split: prod.split)
      (simp add: run_rep_def isr_accepted_def advance_hwm_def drain_pending_all_def isr_min_def matched_def Let_def)
  have "failover_step c lag ?w (set_rep 1 (isr_accepted 1 (length (pw_logs ?w 1)) 1 [1, 2] (pw_reps ?w 1))
      (?w\<lparr>pw_tasks := (pw_tasks ?w)(1 := Idle)\<rparr>))"
    by (rule failover_step.accept) (simp add: stage_def split: prod.split)
  then show ?thesis unfolding r
    by (rule step_to)
      (auto simp: stage_def run_rep_def isr_min_def matched_def set_rep_def answers_of_def fun_eq_iff Let_def
        split: prod.split)
qed

lemma run_produce:
  "failover_step c lag
     (stage p (\<lambda>_. 1) (Idle, lead_rep [1, 2] [(2, 0, t)] [] 0, [], e1, 1) b2 j s F A (\<lambda>_. None) {} cs)
     (stage p (\<lambda>_. 1) (Idle, lead_rep [1, 2] [(2, 0, t)] [(0, 0, 1, 7)] 0, [some_record], e1, 1) b2 j s F A a_sent {}
       (insert (1, []) cs))"
proof -
  let ?w = "stage p (\<lambda>_. 1) (Idle, lead_rep [1, 2] [(2, 0, t)] [] 0, [], e1, 1) b2 j s F A (\<lambda>_. None) {} cs"
  have r: "park_all 1 (length (pw_logs ?w 1 @ [some_record])) (length (pw_logs ?w 1)) (length [some_record]) 7
      (pw_reps ?w 1) = (lead_rep [1, 2] [(2, 0, t)] [(0, 0, 1, 7)] 0, [])"
    by (simp add: stage_def split: prod.split)
      (simp add: run_rep_def park_all_def advance_hwm_def drain_pending_all_def isr_min_def matched_def Let_def)
  have "failover_step c lag ?w (set_rep 1 (park_all 1 (length (pw_logs ?w 1 @ [some_record])) (length (pw_logs ?w 1))
      (length [some_record]) 7 (pw_reps ?w 1))
      (?w\<lparr>pw_logs := (pw_logs ?w)(1 := pw_logs ?w 1 @ [some_record]), pw_sent := (pw_sent ?w)(7 := Some [some_record])\<rparr>))"
    by (rule failover_step.produce_all) (simp_all add: stage_def run_rep_def split: prod.split)
  then show ?thesis unfolding r
    by (rule step_to)
      (auto simp: stage_def run_rep_def isr_min_def matched_def set_rep_def answers_of_def fun_eq_iff Let_def
        split: prod.split)
qed

lemma run_answer:
  assumes "(2, 1, 0) \<in> F"
  shows "failover_step c lag
     (stage p (\<lambda>_. 1) (t1, r1, [some_record], e1, n1) b2 j s F A sent acked cs)
     (stage p (\<lambda>_. 1) (t1, r1, [some_record], e1, n1) b2 j s F (insert (2, 1, 0, [some_record]) A) sent acked cs)"
  by (rule step_to, rule failover_step.answer_fetch [where f = 2 and e = 1 and offset = 0 and k = 1])
    (use assms in \<open>auto simp: stage_def split: prod.split\<close>)

lemma run_deliver:
  assumes "(2, 1, 0, [some_record]) \<in> A"
  shows "failover_step c lag
     (stage p ls b1 (t2, follow_rep, [], [], 1) True s F A sent acked cs)
     (stage p ls b1 (t2, follow_rep, [some_record], [(1, 0)], 1) True s F A sent acked cs)"
  by (rule step_to, rule failover_step.deliver [where f = 2 and e = 1 and offset = 0 and rs = "[some_record]"])
    (use assms in \<open>auto simp: stage_def run_rep_def note_epoch_def fun_eq_iff split: prod.split\<close>)

text \<open>Broker 1 is dead to the controller.\<close>

lemma run_elect2:
  "failover_step c lag
     (stage shrunk_part (\<lambda>_. 1) b1 b2 j s F A sent acked cs)
     (stage second_part ((\<lambda>_. 1)(2 := 2)) b1 b2 j s F A sent acked cs)"
  by (rule step_to, rule failover_step.elect [where alive = "[2, 3]" and ctl = second_part])
    (auto simp: stage_def run_part_def elect_partition_def Let_def fun_eq_iff split: prod.split)

lemma run_to_election:
  "\<exists>t F A cs. (failover_step c lag)\<^sup>*\<^sup>* (new_partition [1, 2, 3] 0)
     (stage second_part ((\<lambda>_. 1)(2 := 2)) (Idle, lead_rep [1, 2] [(2, 1, t)] [] 1, [some_record], [(1, 0)], 1)
       (Idle, follow_rep, [some_record], [(1, 0)], 1) True 0 F A a_sent {(7, 0)} cs)"
  unfolding run_start
  by (intro exI, rule run_step [OF run_refresh1],
    rule run_step [OF run_promote1],
    rule run_step [OF run_refresh2],
    rule run_step [OF run_follow2],
    rule run_step [OF run_join2],
    rule run_step [OF run_send2],
    rule run_step [OF run_hear1 [where t = "Suc lag"]], simp,
    rule run_step [OF run_shrink],
    rule run_step [OF run_accept],
    rule run_step [OF run_produce],
    rule run_step [OF run_answer], simp,
    rule run_step [OF run_deliver], simp,
    rule run_step [OF run_send2],
    rule run_step [OF run_ack1], simp,
    rule run_step [OF run_elect2], rule rtranclp.rtrancl_refl)


section \<open>A follower that catches up hides where epochs began\<close>

text \<open>
  A follower with an empty log that fetches from the leader of epoch 2 notes epoch 2 at offset 0,
  whatever epochs the records it copies were written in. When it leads epoch 3, a member of the
  in-sync set that has the same records and last heard epoch 1 asks where epoch 1 ended, is told
  0, and cuts its whole log.
\<close>

lemma catch_up_hides_epochs:
  assumes "length rs = n"
  shows "note_epoch 3 n (note_epoch 2 0 []) = [(2, 0), (3, n)]"
    and "reconciled [(2, 0), (3, n)] rs [(1, 0)] rs = []"
  by (simp_all add: note_epoch_def reconciled_take current_epoch_def epochs_last_def end_offset_for_def)

section \<open>A new leader takes everyone in\<close>

lemma run_promote2:
  "failover_step c lag
     (stage second_part ls b1 (Refreshed (part_meta second_part), follow_rep, [some_record], [(1, 0)], 1) j 0
       F A sent acked cs)
     (stage second_part ls b1 (Idle, run_rep 2 True [2] [] [] 2 now 1, [some_record], [(1, 0), (2, 1)], 2) False 1
       F A sent acked (insert (2, [some_record]) cs))"
proof -
  let ?w = "stage second_part ls b1 (Refreshed (part_meta second_part), follow_rep, [some_record], [(1, 0)], 1) j 0
    F A sent acked cs"
  have a: "apply_partition now 2 [] (part_meta second_part) (length (pw_logs ?w 2)) (pw_reps ?w 2) =
      (run_rep 2 True [2] [] [] 2 now 1, [], RecordLeaderEpoch 2)"
    by (simp add: stage_def split: prod.split)
      (simp add: apply_partition_def update_role_def run_rep_def advance_hwm_def
        drain_pending_all_def isr_min_def matched_def Let_def)
  show ?thesis
    by (rule step_to, rule failover_step.apply_meta [OF _ _ a])
      (auto simp: stage_def after_apply_def set_rep_def answers_of_def note_epoch_def Let_def fun_eq_iff
        run_rep_def isr_min_def matched_def split: prod.split)
qed

lemma run_regrow:
  "failover_step False lag
     (stage second_part ls b1 (Idle, run_rep 2 True [2] [] [] 2 now 1, l2, e2, n2) j s F A sent acked cs)
     (stage (run_part 2 2 [1, 2, 3]) ls b1 (Accepted 2 [1, 2, 3], run_rep 2 True [2] [] [] 2 now 1, l2, e2, n2) j s
       F A sent acked cs)"
proof -
  let ?w = "stage second_part ls b1 (Idle, run_rep 2 True [2] [] [] 2 now 1, l2, e2, n2) j s F A sent acked cs"
  have p: "isr_proposal now 2 lag (rstate ?w 2) = Some (2, [1, 2, 3])"
    by (simp add: stage_def split: prod.split)
      (simp add: run_rep_def isr_proposal_def desired_isr_def word_le_nat_alt Let_def)
  have a: "alter_part 2 [1, 2, 3] (pw_ctl ?w) = Some (run_part 2 2 [1, 2, 3])"
    by (simp add: stage_def alter_part_def run_part_def split: prod.split)
  show ?thesis
    by (rule step_to, rule failover_step.propose [OF _ p a]) (auto simp: stage_def fun_eq_iff split: prod.split)
qed

lemma run_elect3:
  "failover_step c lag
     (stage (run_part 2 2 [1, 2, 3]) ls b1 b2 j s F A sent acked cs)
     (stage (run_part 3 3 [3]) (ls(3 := 3)) b1 b2 j s F A sent acked cs)"
  by (rule step_to, rule failover_step.elect [where alive = "[3]" and ctl = "run_part 3 3 [3]"])
    (auto simp: stage_def run_part_def elect_partition_def Let_def split: prod.split)


end
