(* ===== verification/Spec2Isabelle.thy ===== *)
theory Spec2Isabelle
  imports ProtoCodec LogProperties ControllerProperties GroupProperties PartitionProperties
    OffsetsProperties ReplicaProperties ReplicaAnswers Reconciliation
    CheckerProperties HistoryFile BrokerProperties TopicDirectories Rng DeliveryProperties ClientProperties
    ProducerProperties StartProperties BrokerNetwork Proxy TortureProperties CommandLine Connections
    FailoverRuns
begin

text \<open>
  A model of replog, a partitioned and replicated log, with the properties that make it correct.
  The sources are the Rust crate under \<^verbatim>\<open>src/src\<close>; every theory names the file it models.

  \<^bold>\<open>The program.\<close> A broker stores partitions. Each partition is a directory of segment files
  that one writer thread owns; it appends records, answers reads and acknowledges a produce when
  the level the client asked for is reached. Brokers run alone, or in a cluster under a
  controller that decides which broker leads each partition and which replicas are in sync.
  Followers fetch from the leader, the leader keeps the high watermark up to which all in-sync
  replicas store the log, and consumers read below it. Clients speak a binary protocol over
  byte streams, find the leader from metadata, and consume alone or as members of a group. A
  fault harness runs a cluster, breaks it, and has a checker judge what the clients saw.

  \<^bold>\<open>Which theory models what.\<close>

  \<^item> Bytes and messages. \<open>Prelude\<close>: words, byte strings, hash maps, results, decimal text.
    \<open>Wire\<close>: the writers and the \<open>Reader\<close> of \<^verbatim>\<open>proto/wire.rs\<close>; a reader is the unread suffix.
    \<open>Proto\<close>: the messages of \<^verbatim>\<open>proto/mod.rs\<close> and their encoders and decoders. \<open>ProtoCodec\<close>: every
    message survives the transport, and a frame is accepted only in full. The locale \<open>codec\<close>
    (\<open>Wire\<close>) carries the element codecs through the list combinators; it is interpreted on
    the primitives, on every element of a message and on the controller's snapshot.
  \<^item> Storage. \<open>Storage\<close>: configuration, errors and the directory of files (\<^verbatim>\<open>storage/mod.rs\<close>).
    \<open>LogRecord\<close> (\<^verbatim>\<open>record.rs\<close>), \<open>SparseIndex\<close> (\<^verbatim>\<open>index.rs\<close>), \<open>Segment\<close> (\<^verbatim>\<open>segment.rs\<close>), \<open>PartitionLog\<close>
    (\<^verbatim>\<open>log.rs\<close>) and \<open>EpochCheckpoint\<close> (\<^verbatim>\<open>epoch.rs\<close>). The abstraction \<open>log_records\<close> reads the sequence of
    records off a directory; \<open>PartitionLogFacts\<close>, \<open>LogRecovery\<close> and \<open>LogFrame\<close> show that
    each operation is one on that sequence, and \<open>LogProperties\<close> states it on the states of the code:
    append, replicated append, read, truncate, and open after any crash.
  \<^item> The writer thread, \<^verbatim>\<open>broker/partition.rs\<close>. \<open>PartitionActor\<close> has its state and one function per
    command, the flush timer and the end of the thread. \<open>ActorFacts\<close> has the invariant and the
    locale \<open>record_appender\<close>, through which both append loops are proved at once;
    \<open>ActorCommands\<close> what each command does; \<open>PartitionProperties\<close> what an acknowledgement promises.
  \<^item> Consumer offsets and groups. \<open>Offsets\<close> (\<^verbatim>\<open>broker/offsets.rs\<close>) with \<open>OffsetsProperties\<close>;
    \<open>ConsumerGroups\<close> (\<^verbatim>\<open>broker/groups.rs\<close>) with \<open>GroupFacts\<close> and \<open>GroupProperties\<close>: the range
    assignment, generations, and the fencing of members that missed a rebalance.
  \<^item> The controller, \<^verbatim>\<open>controller/mod.rs\<close>. \<open>Controller\<close> has liveness, topics, elections, changes of
    in-sync sets and the snapshot; \<open>ControllerFacts\<close> the invariant of partitions and the order of
    states; \<open>ControllerProperties\<close> the machine of requests, sweeps and restarts, an instance of
    the locale \<open>monotone\<close>. \<open>Connections\<close> puts byte streams around it: the process with its
    connections refines the controller that knows requests only.
  \<^item> Replication, \<^verbatim>\<open>broker/cluster.rs\<close> and parts of \<^verbatim>\<open>broker/mod.rs\<close>. \<open>Replica\<close> has the state of one
    replica, the high watermark, role changes and proposals of in-sync sets.
    \<open>ReplicaProperties\<close> has the leader, its followers and the fetches on their way as a
    machine; \<open>ReplicaAnswers\<close> the fate of parked acknowledgements; \<open>Reconciliation\<close> a follower's
    log against its leader's.
  \<^item> Failovers. \<open>Failovers\<close> puts controller, brokers and the network of one partition together:
    elections, metadata that arrives late, deposed leaders, restarts, messages that are lost
    or come twice. \<open>FailoverFacts\<close>, \<open>FailoverSteps\<close> and \<open>FailoverProperties\<close> show that what was
    acknowledged at acks=all survives any run, under conditions on the growth of in-sync sets and
    on reconciliation; \<open>FailoverRuns\<close> shows a run of the code, which has no such conditions, that
    loses an acknowledged batch.
  \<^item> The broker, \<^verbatim>\<open>broker/mod.rs\<close>. \<open>Broker\<close>: data directory, topics, start, routing.
    \<open>BrokerDispatch\<close>: what each request and each new metadata does. \<open>BrokerProperties\<close>,
    \<open>TopicDirectories\<close> and \<open>StartProperties\<close>: answers of the right kind, what consumers see,
    what a restart finds, and that a start ends.
  \<^item> Clients. \<open>Client\<close> (\<^verbatim>\<open>client/mod.rs\<close>) with \<open>ClientProperties\<close> and \<open>ProducerProperties\<close>;
    \<open>ClusterClient\<close> (\<^verbatim>\<open>client/cluster.rs\<close>) with \<open>ClusterProperties\<close>; \<open>GroupClient\<close> (\<^verbatim>\<open>client/group.rs\<close>) with
    \<open>GroupDelivery\<close>.
  \<^item> Clients and brokers together. \<open>BrokerServer\<close> shows that a broker keeps the contract
    \<open>offset_server\<close> that a group consumer needs, and \<open>DeliveryProperties\<close> what any number of
    consumers and the broker then guarantee. \<open>BrokerNetwork\<close> shows that standalone brokers
    keep the contract \<open>steady\<close> of the cluster client.
  \<^item> Verification by histories. \<open>Checker\<close> (\<^verbatim>\<open>checker/mod.rs\<close>), \<open>CheckerProperties\<close>, \<open>HistoryFile\<close>.
  \<^item> The fault harness. \<open>Rng\<close> and \<open>Proxy\<close> and \<open>Harness\<close> (\<^verbatim>\<open>harness\<close>), \<open>Faults\<close> (\<^verbatim>\<open>torture/cluster.rs\<close>),
    \<open>Failover\<close> (\<^verbatim>\<open>torture/failover.rs\<close>), \<open>Workload\<close> (\<^verbatim>\<open>torture/workload.rs\<close>, \<^verbatim>\<open>torture/replog.rs\<close>), \<open>TortureRun\<close>
    and \<open>FaultCampaign\<close> (\<^verbatim>\<open>torture/schedule.rs\<close>). \<open>TruthfulHistory\<close> and \<open>TortureProperties\<close> show
    that a run against a broker that is left alone is judged clean. \<open>CommandLine\<close> (\<^verbatim>\<open>bin\<close>)
    shows that the harness and the servers agree on arguments and announcements.

  \<^bold>\<open>Interfaces.\<close> \<open>Machines\<close> has the locales \<open>preserved\<close> (a step keeps an invariant) and \<open>monotone\<close>
  (and follows an order); their instances are the writer thread, a leading
  writer, the controller, the group coordinator, a leader with its followers, a partition over
  its failovers, calls over a
  connection, producers, the proxy, the fault schedule and the run of the harness. The contracts
  of a client towards what it calls are \<open>offset_server\<close>, \<open>ticking\<close>, \<open>steady\<close>, \<open>record_appender\<close> and
  \<open>message_server\<close>; each is interpreted on the definitions of the component that provides it.

  \<^bold>\<open>How the code is read.\<close> A struct is a record, an enum a datatype, an integer of the wire or of
  a file a word; counters are natural numbers, with the cast written where they are
  encoded. A hash map is an association list with distinct keys, in some order; a sorted
  map is a sorted one. A handler that runs under a lock or in one thread is a function from a
  state to its answer and a state. Errors are values of a sum; a panic is \<open>None\<close> or \<open>Panicked\<close>.
  Reply channels, waiters, connections and child processes are numbers. Instants are natural numbers, of
  milliseconds or, in the fault harness, nanoseconds. A crash keeps of each file some prefix
  that holds at least the bytes that were synced; names of files survive. Tasks that run in
  parallel are steps of a relation that interleave. What lies outside the crate is an argument:
  the checksum \<open>crc\<close>, of which nothing is assumed, and networks, child processes and containers,
  which act on a state of their own; the clock of a network is assumed to go on, and nothing else.

  \<^bold>\<open>Loops.\<close> No definition takes fuel. Loops over data are structural or have a measure: scanning
  and reading go forward in a file, splitting shortens a text. The loops that wait or retry, and the
  replay of the consumer offsets, are partial functions into \<open>option\<close>, so \<open>None\<close> is a loop
  that does not end (or a panic in its body); that they end is a theorem where it is true: the replay for
  every directory, the retries of the cluster client on every network whose clock goes on.

  \<^bold>\<open>Bounds.\<close> Properties of encodings assume what the code assumes when it casts: strings, lists
  and blobs fit their length fields. Properties of logs assume that offsets stay below
  \<open>2 ^ 64\<close>, which is part of the invariant of a log.

  \<^bold>\<open>Not modelled.\<close> The listening sockets, the spawning of tasks and the shutdown of broker and
  controller: they start the loops that are modelled. Failures of the disk other than crashes.
  The text of \<open>Display\<close>, of reports and of CSV files. \<^verbatim>\<open>torture/docker.rs\<close>, which runs commands of
  another program, and \<^verbatim>\<open>torture/kafka.rs\<close> with \<^verbatim>\<open>torture/kmeta.rs\<close>, which drive the client library
  and the protocol of another system. The command lines and the printing of the remaining programs under \<^verbatim>\<open>bin\<close>
  and of \<^verbatim>\<open>torture/probe.rs\<close>. The compilation and the scheduling of asynchronous code: an await is a point
  where other steps may come in, and cancellation at an await is not considered.
\<close>

end
